(* ===== verification/E2B_Prelude.thy ===== *)
theory E2B_Prelude
  imports Main "HOL-Library.Word" "HOL-Library.Signed_Division" "HOL-Library.Monad_Syntax"
begin

text \<open>
  The prelude of the development: how the Go source's machine integers, slices and third-party
  bit sets are read in HOL, and the generic lemmas that every component uses.

  Integers.  A Go integer is an \<^typ>\<open>int\<close>; an operation whose result can leave the type's
  range is wrapped by \<open>u64\<close> (\<^verbatim>\<open>uint64\<close>, \<^verbatim>\<open>uint\<close>, \<^verbatim>\<open>uintptr\<close>) or by \<open>i64\<close> (\<^verbatim>\<open>int64\<close>, \<^verbatim>\<open>int\<close>), which are
  also the conversions between the two.  Go's \<^verbatim>\<open>/\<close> and \<^verbatim>\<open>%\<close> truncate towards zero: they are
  \<open>sdiv\<close> and \<open>smod\<close> of \<^verbatim>\<open>HOL-Library.Signed_Division\<close>.

  Slices.  A byte slice is a list of 8-bit words; \<open>go_slice\<close> is the expression
  \<^verbatim>\<open>s[lo:hi]\<close>, \<open>None\<close> where Go panics, and \<open>go_copy\<close> the builtin \<^verbatim>\<open>copy\<close>.

  Bit sets.  \<^verbatim>\<open>github.com/bits-and-blooms/bitset\<close> is not part of the repository.  Its operations
  are a record of functions that the definitions take as an argument, and
  \<open>bitset_laws\<close> states the documented behaviour the code relies on.
\<close>

named_theorems go_arith "Go integer operations inside their range"
named_theorems wf_intros "introduction rules of the well-formedness invariants"

subsection \<open>Machine integers\<close>

type_synonym byte = "8 word"

definition u64 :: "int \<Rightarrow> int" where
  "u64 x = x mod 18446744073709551616"

definition i64 :: "int \<Rightarrow> int" where
  "i64 x = (x + 9223372036854775808) mod 18446744073709551616 - 9223372036854775808"

lemma u64_id [go_arith, simp]: "0 \<le> x \<Longrightarrow> x < 18446744073709551616 \<Longrightarrow> u64 x = x"
  by (simp add: u64_def)

lemma i64_id [go_arith, simp]:
  "- 9223372036854775808 \<le> x \<Longrightarrow> x < 9223372036854775808 \<Longrightarrow> i64 x = x"
  by (simp add: i64_def)

lemma u64_range: "0 \<le> u64 x" "u64 x < 18446744073709551616"
  by (simp_all add: u64_def)

lemma i64_range: "- 9223372036854775808 \<le> i64 x" "i64 x < 9223372036854775808"
  by (simp_all add: i64_def)

lemma u64_i64 [simp]: "u64 (i64 x) = u64 x"
  by (simp add: u64_def i64_def mod_simps)

lemma i64_u64 [simp]: "i64 (u64 x) = i64 x"
  by (simp add: u64_def i64_def mod_simps)

lemma sdiv_nonneg [go_arith, simp]: "0 \<le> a \<Longrightarrow> 0 < b \<Longrightarrow> a sdiv b = a div (b::int)"
  by (auto simp: signed_divide_int_def sgn_if)

lemma smod_nonneg [go_arith, simp]: "0 \<le> a \<Longrightarrow> 0 < b \<Longrightarrow> a smod b = a mod (b::int)"
  by (auto simp: signed_modulo_int_def sgn_if)

lemma mult_div_le_int: "0 < b \<Longrightarrow> b * (a div b) \<le> (a::int)"
  by (metis mult.commute mult_div_mod_eq pos_mod_sign le_add_same_cancel1)

lemma div_le_dividend_int: "0 \<le> a \<Longrightarrow> 0 < b \<Longrightarrow> a div b \<le> (a::int)"
  using zdiv_mono2 [of a 1 b] by simp

lemma mult_le_iff_le_div: "0 < b \<Longrightarrow> a * b \<le> x \<longleftrightarrow> a \<le> x div (b::int)"
proof
  assume b: "0 < b" and "a * b \<le> x"
  then have "a * b div b \<le> x div b" by (intro zdiv_mono1)
  with b show "a \<le> x div b" by simp
next
  assume b: "0 < b" and "a \<le> x div b"
  then have "a * b \<le> (x div b) * b" by (intro mult_right_mono) auto
  with mult_div_le_int [OF b, of x] show "a * b \<le> x" by (simp add: mult.commute)
qed

lemma less_mult_iff_div_less: "0 < b \<Longrightarrow> x < a * b \<longleftrightarrow> x div (b::int) < a"
  using mult_le_iff_le_div [of b a x] by linarith

lemma succ_div_mod_cases [consumes 1, case_names same step]:
  assumes "0 < (b::int)"
  obtains "(x + 1) div b = x div b" "(x + 1) mod b = x mod b + 1"
  | "(x + 1) div b = x div b + 1" "(x + 1) mod b = 0" "x mod b = b - 1"
proof (cases "x mod b = b - 1")
  case True
  have "x + 1 = b * (x div b + 1) + 0" using True mult_div_mod_eq [of b x] by (simp add: distrib_left)
  with True assms that(2) int_div_pos_eq [of "x + 1" b "x div b + 1" 0] int_mod_pos_eq [of "x + 1" b _ 0]
  show thesis by blast
next
  case False
  have "x + 1 = b * (x div b) + (x mod b + 1)" using mult_div_mod_eq [of b x] by simp
  moreover have "0 \<le> x mod b + 1" "x mod b + 1 < b"
    using assms False pos_mod_sign [of b x] pos_mod_bound [of b x] by linarith+
  ultimately show thesis
    using that(1) int_div_pos_eq [of "x + 1" b "x div b"] int_mod_pos_eq [of "x + 1" b "x div b"] by blast
qed

lemma dvd_less_add_le: "(b::int) dvd x \<Longrightarrow> b dvd y \<Longrightarrow> 0 < b \<Longrightarrow> x < y \<Longrightarrow> x + b \<le> y"
  by (metis add_diff_cancel_left' diff_add_cancel dvd_diff zdvd_imp_le add.commute
      diff_gt_0_iff_gt add_le_cancel_left)

lemma block_floor:
  assumes "0 < b" shows "x div b * b \<le> x" "x < x div b * b + (b::int)"
  using pos_mod_sign [OF assms, of x] pos_mod_bound [OF assms, of x] div_mult_mod_eq [of x b] by linarith+

lemma block_floor_compare:
  assumes "0 < b" "b dvd a"
  shows "a \<le> x div b * b \<longleftrightarrow> a \<le> (x::int)" "x div b * b < a \<longleftrightarrow> x < a"
proof -
  obtain k where k: "a = k * b" using assms(2) by (auto simp: dvd_def mult.commute)
  show "a \<le> x div b * b \<longleftrightarrow> a \<le> x"
    using assms(1) mult_le_iff_le_div [OF assms(1), of k x] by (simp add: k)
  then show "x div b * b < a \<longleftrightarrow> x < a" by linarith
qed

subsection \<open>Results\<close>

text \<open>
  A Go call returns a value, returns an error or panics.  A component's errors are a datatype of
  its own; \<open>Panic\<close> is a run-time panic (division by zero, slice bounds, nil dereference).
\<close>

datatype ('e, 'a) go = Ok (the_ok: 'a) | Fail 'e | Panic

fun go_bind :: "('e, 'a) go \<Rightarrow> ('a \<Rightarrow> ('e, 'b) go) \<Rightarrow> ('e, 'b) go" where
  "go_bind (Ok a) f = f a"
| "go_bind (Fail e) f = Fail e"
| "go_bind Panic f = Panic"

lemma go_bind_eq_Ok [simp]: "go_bind m f = Ok b \<longleftrightarrow> (\<exists>a. m = Ok a \<and> f a = Ok b)"
  by (cases m) auto

lemma go_bind_assoc: "go_bind (go_bind m f) g = go_bind m (\<lambda>x. go_bind (f x) g)"
  by (cases m) auto

subsection \<open>Slices\<close>

definition go_slice :: "'a list \<Rightarrow> int \<Rightarrow> int \<Rightarrow> 'a list option" where
  "go_slice s lo hi =
     (if 0 \<le> lo \<and> lo \<le> hi \<and> hi \<le> int (length s)
      then Some (take (nat (hi - lo)) (drop (nat lo) s)) else None)"

definition go_copy :: "'a list \<Rightarrow> 'a list \<Rightarrow> 'a list" where
  "go_copy dst src = take (length dst) src @ drop (length src) dst"

definition write_slice :: "'a list \<Rightarrow> nat \<Rightarrow> 'a list \<Rightarrow> 'a list" where
  "write_slice s lo new = take lo s @ new @ drop (lo + length new) s"

lemma length_go_copy [simp]: "length (go_copy dst src) = length dst"
  by (simp add: go_copy_def)

lemma go_copy_same_length [simp]: "length dst = length src \<Longrightarrow> go_copy dst src = src"
  by (simp add: go_copy_def)

lemma go_slice_Some_iff:
  "go_slice s lo hi = Some t \<longleftrightarrow>
     0 \<le> lo \<and> lo \<le> hi \<and> hi \<le> int (length s) \<and> t = take (nat (hi - lo)) (drop (nat lo) s)"
  by (auto simp: go_slice_def)

lemma length_go_slice: "go_slice s lo hi = Some t \<Longrightarrow> int (length t) = hi - lo"
  by (auto simp: go_slice_Some_iff)

lemma length_write_slice [simp]: "lo + length new \<le> length s \<Longrightarrow> length (write_slice s lo new) = length s"
  by (simp add: write_slice_def)

lemma nth_write_slice:
  "lo + length new \<le> length s \<Longrightarrow> i < length s \<Longrightarrow>
   write_slice s lo new ! i = (if lo \<le> i \<and> i < lo + length new then new ! (i - lo) else s ! i)"
  by (auto simp: write_slice_def nth_append)

text \<open>A search whose answer is unique finds it.\<close>

lemma find_unique:
  assumes "x \<in> set xs" "P x" "\<And>y. y \<in> set xs \<Longrightarrow> P y \<Longrightarrow> y = x"
  shows "find P xs = Some x"
  using assms
proof (induction xs)
  case (Cons y ys)
  show ?case
  proof (cases "P y")
    case True
    then show ?thesis using Cons.prems(3)[of y] by simp
  next
    case False
    then have "x \<in> set ys" using Cons.prems(1,2) by auto
    then have "find P ys = Some x"
      by (rule Cons.IH[OF _ Cons.prems(2)]) (rule Cons.prems(3), simp_all)
    then show ?thesis using False by simp
  qed
qed simp

subsection \<open>Bit sets\<close>

record 'b bitset_ops =
  bs_New :: "int \<Rightarrow> 'b"
  bs_Set :: "'b \<Rightarrow> int \<Rightarrow> 'b"
  bs_Test :: "'b \<Rightarrow> int \<Rightarrow> bool"
  bs_NextSet :: "'b \<Rightarrow> int \<Rightarrow> int option"
  bs_NextClear :: "'b \<Rightarrow> int \<Rightarrow> int option"
  bs_PreviousSet :: "'b \<Rightarrow> int \<Rightarrow> int option"
  bs_Len :: "'b \<Rightarrow> int"
  bs_ClearAll :: "'b \<Rightarrow> 'b"

text \<open>
  The documented behaviour of the operations, for indices that are \<^verbatim>\<open>uint\<close> values: a new set
  is empty and has the requested length, \<^verbatim>\<open>Set\<close> adds one bit and grows the set if needed, \<^verbatim>\<open>NextSet\<close> and \<^verbatim>\<open>PreviousSet\<close> return the nearest set bit (the
  index itself included), \<^verbatim>\<open>NextClear\<close> the nearest clear bit below \<^verbatim>\<open>Len\<close>, and set bits lie
  below \<^verbatim>\<open>Len\<close>, which is a \<^verbatim>\<open>uint\<close>.
\<close>

definition bitset_laws :: "'b bitset_ops \<Rightarrow> bool" where
  "bitset_laws ops \<longleftrightarrow>
     (\<forall>n i. \<not> bs_Test ops (bs_New ops n) i) \<and>
     (\<forall>b i j. 0 \<le> i \<longrightarrow> bs_Test ops (bs_Set ops b i) j = (j = i \<or> bs_Test ops b j)) \<and>
     (\<forall>b i j. 0 \<le> i \<longrightarrow> bs_NextSet ops b i = Some j \<longleftrightarrow>
        i \<le> j \<and> bs_Test ops b j \<and> (\<forall>k. i \<le> k \<and> k < j \<longrightarrow> \<not> bs_Test ops b k)) \<and>
     (\<forall>b i j. 0 \<le> i \<longrightarrow> bs_NextClear ops b i = Some j \<longleftrightarrow>
        i \<le> j \<and> j < bs_Len ops b \<and> \<not> bs_Test ops b j \<and>
        (\<forall>k. i \<le> k \<and> k < j \<longrightarrow> bs_Test ops b k)) \<and>
     (\<forall>b i j. 0 \<le> i \<longrightarrow> bs_PreviousSet ops b i = Some j \<longleftrightarrow>
        0 \<le> j \<and> j \<le> i \<and> bs_Test ops b j \<and> (\<forall>k. j < k \<and> k \<le> i \<longrightarrow> \<not> bs_Test ops b k)) \<and>
     (\<forall>b i. bs_Test ops b i \<longrightarrow> 0 \<le> i \<and> i < bs_Len ops b) \<and>
     (\<forall>b i. \<not> bs_Test ops (bs_ClearAll ops b) i) \<and>
     (\<forall>n. 0 \<le> n \<longrightarrow> bs_Len ops (bs_New ops n) = n) \<and>
     (\<forall>b i. 0 \<le> i \<longrightarrow> bs_Len ops (bs_Set ops b i) = max (bs_Len ops b) (i + 1))"

definition members :: "'b bitset_ops \<Rightarrow> 'b \<Rightarrow> int set" where
  "members ops b = {i. bs_Test ops b i}"

end
