(* ===== verification/Header_Block.thy ===== *)
theory Header_Block
  imports E2B_Prelude
begin

text \<open>
  Block arithmetic and empty-block detection of the layered image format:
  \<^verbatim>\<open>packages/shared/pkg/storage/header/block.go\<close> and \<^verbatim>\<open>diff.go\<close>.  Every function that
  divides by the block size panics when it is zero.
\<close>

subsection \<open>block.go\<close>

definition TotalBlocks :: "int \<Rightarrow> int \<Rightarrow> ('e, int) go" where
  "TotalBlocks sz blockSize =
     (if blockSize = 0 then Panic
      else Ok (i64 (i64 (i64 (sz + blockSize) - 1) sdiv blockSize)))"

definition BlockIdx :: "int \<Rightarrow> int \<Rightarrow> ('e, int) go" where
  "BlockIdx off blockSize = (if blockSize = 0 then Panic else Ok (i64 (off sdiv blockSize)))"

definition BlockOffset :: "int \<Rightarrow> int \<Rightarrow> int" where
  "BlockOffset idx blockSize = i64 (idx * blockSize)"

text \<open>\<^verbatim>\<open>make\<close> with a negative length panics.\<close>

definition BlocksOffsets :: "int \<Rightarrow> int \<Rightarrow> ('e, int list) go" where
  "BlocksOffsets sz blockSize =
     go_bind (TotalBlocks sz blockSize) (\<lambda>n.
       if n < 0 then Panic
       else Ok (map (\<lambda>i. BlockOffset (int i) blockSize) [0..<nat n]))"

subsection \<open>diff.go\<close>

definition PageSize :: int where "PageSize = 4096"
definition HugepageSize :: int where "HugepageSize = 2097152"
definition RootfsBlockSize :: int where "RootfsBlockSize = 4096"

definition EmptyHugePage :: "byte list" where "EmptyHugePage = replicate (nat HugepageSize) 0"
definition EmptyBlock :: "byte list" where "EmptyBlock = replicate (nat RootfsBlockSize) 0"

datatype block_error = BlockSizeNotSupported int

definition IsEmptyBlock :: "byte list \<Rightarrow> int \<Rightarrow> (block_error, bool) go" where
  "IsEmptyBlock block blockSize =
     (if blockSize = HugepageSize then Ok (block = EmptyHugePage)
      else if blockSize = RootfsBlockSize then Ok (block = EmptyBlock)
      else Fail (BlockSizeNotSupported blockSize))"

subsection \<open>Lemmas\<close>

abbreviation size_ok :: "int \<Rightarrow> int \<Rightarrow> bool" where
  "size_ok sz blockSize \<equiv>
     0 \<le> sz \<and> 0 < blockSize \<and> sz + blockSize \<le> 9223372036854775807"

lemma div_in_i64: "0 \<le> x \<Longrightarrow> x < 9223372036854775808 \<Longrightarrow> 0 < b \<Longrightarrow> i64 (x div b) = x div (b::int)"
proof -
  assume x: "0 \<le> x" "x < 9223372036854775808" and b: "0 < b"
  from x(1) b have "0 \<le> x div b" by (simp add: pos_imp_zdiv_nonneg_iff)
  moreover from x(1) b have "x div b \<le> x" by (simp add: div_le_dividend_int)
  ultimately show ?thesis using x(2) by simp
qed

lemma BlockIdx_Ok [go_arith, simp]:
  "0 \<le> off \<Longrightarrow> off < 9223372036854775808 \<Longrightarrow> 0 < bs \<Longrightarrow> BlockIdx off bs = Ok (off div bs)"
  by (simp add: BlockIdx_def div_in_i64)

lemma TotalBlocks_Ok [go_arith, simp]:
  "size_ok sz bs \<Longrightarrow> TotalBlocks sz bs = Ok ((sz + bs - 1) div bs)"
  by (simp add: TotalBlocks_def div_in_i64)

lemma BlockOffset_id [go_arith, simp]:
  "0 \<le> idx \<Longrightarrow> 0 < bs \<Longrightarrow> idx * bs < 9223372036854775808 \<Longrightarrow> BlockOffset idx bs = idx * bs"
  by (simp add: BlockOffset_def order_trans [OF _ mult_nonneg_nonneg])

lemma TotalBlocks_covers:
  assumes "0 < bs" shows "sz \<le> ((sz + bs - 1) div bs) * (bs::int)"
    and "((sz + bs - 1) div bs) * bs < sz + bs"
  using assms pos_mod_bound [of bs "sz + bs - 1"] pos_mod_sign [of bs "sz + bs - 1"]
    div_mult_mod_eq [of "sz + bs - 1" bs] by linarith+

lemma BlocksOffsets_Ok:
  assumes "size_ok sz bs"
  shows "BlocksOffsets sz bs =
    Ok (map (\<lambda>i. int i * bs) [0..<nat ((sz + bs - 1) div bs)])"
proof -
  have "int i * bs < 9223372036854775808" if "i < nat ((sz + bs - 1) div bs)" for i
  proof -
    from that have "int i \<le> (sz + bs - 1) div bs - 1" by linarith
    then have "int i * bs \<le> ((sz + bs - 1) div bs - 1) * bs"
      using assms by (intro mult_right_mono) auto
    also have "\<dots> < sz"
      using TotalBlocks_covers(2) [of bs sz] assms by (simp add: left_diff_distrib)
    finally show ?thesis using assms by linarith
  qed
  moreover have "0 \<le> (sz + bs - 1) div bs"
    using assms by (simp add: pos_imp_zdiv_nonneg_iff)
  ultimately show ?thesis
    using assms by (auto simp: BlocksOffsets_def)
qed

lemma BlocksOffsets_set:
  assumes "size_ok sz bs"
  shows "set (the_ok (BlocksOffsets sz bs)) = {o'. 0 \<le> o' \<and> o' < sz \<and> bs dvd o'}"
proof -
  have "(\<exists>i < nat ((sz + bs - 1) div bs). o' = int i * bs) \<longleftrightarrow>
        0 \<le> o' \<and> o' < sz \<and> bs dvd o'" (is "?L \<longleftrightarrow> ?R") for o'
  proof
    assume ?L
    then obtain i where "i < nat ((sz + bs - 1) div bs)" and o': "o' = int i * bs" by blast
    then have i: "int i + 1 \<le> (sz + bs - 1) div bs" by linarith
    from i have "(int i + 1) * bs \<le> ((sz + bs - 1) div bs) * bs"
      using assms by (intro mult_right_mono) auto
    with TotalBlocks_covers(2) [of bs sz] assms have "int i * bs < sz"
      by (simp add: distrib_right)
    with assms o' show ?R by simp
  next
    assume R: ?R
    then obtain k where k: "o' = bs * k" by (auto simp: dvd_def)
    with R assms have "0 \<le> k" by (simp add: zero_le_mult_iff)
    moreover have "k < (sz + bs - 1) div bs"
    proof (rule ccontr)
      assume "\<not> k < (sz + bs - 1) div bs"
      then have "((sz + bs - 1) div bs) * bs \<le> k * bs"
        using assms by (intro mult_right_mono) auto
      moreover have "sz \<le> ((sz + bs - 1) div bs) * bs"
        using TotalBlocks_covers(1) assms by blast
      ultimately show False using R k by (simp add: mult.commute)
    qed
    ultimately show ?L using k by (intro exI [of _ "nat k"]) (auto simp: mult.commute)
  qed
  then have "{o'. \<exists>i < nat ((sz + bs - 1) div bs). o' = int i * bs} =
      {o'. 0 \<le> o' \<and> o' < sz \<and> bs dvd o'}" by blast
  moreover have "set (the_ok (BlocksOffsets sz bs)) =
      {o'. \<exists>i < nat ((sz + bs - 1) div bs). o' = int i * bs}"
    using assms by (auto simp: BlocksOffsets_Ok)
  ultimately show ?thesis by simp
qed

end
