(* ===== verification/Header_Mapping.thy ===== *)
theory Header_Mapping
  imports Header_Block
begin

text \<open>
  The build maps of a layered image: \<^verbatim>\<open>packages/shared/pkg/storage/header/mapping.go\<close> and the
  validation of \<^verbatim>\<open>inspect.go\<close>.  A mapping sends the interval
  \<^verbatim>\<open>[Offset, Offset+Length)\<close> of the image to the interval that starts at
  \<^verbatim>\<open>BuildStorageOffset\<close> of one build.  \<open>lookup_map\<close> is the abstract meaning of a list
  of mappings: a partial function from image offsets to (build, storage offset).
\<close>

type_synonym uuid = "byte list"

definition uuid_Nil :: uuid where "uuid_Nil = replicate 16 0"

record BuildMap =
  bmOffset :: int
  bmLength :: int
  bmBuildId :: uuid
  bmBuildStorageOffset :: int

subsection \<open>MergeMappings\<close>

definition leftBase :: "BuildMap \<Rightarrow> int \<Rightarrow> BuildMap" where
  "leftBase base leftBaseLength = base\<lparr>bmLength := u64 leftBaseLength\<rparr>"

definition rightBase :: "BuildMap \<Rightarrow> int \<Rightarrow> int \<Rightarrow> BuildMap" where
  "rightBase base rightBaseShift rightBaseLength =
     \<lparr>bmOffset = u64 (bmOffset base + u64 rightBaseShift),
      bmLength = u64 rightBaseLength,
      bmBuildId = bmBuildId base,
      bmBuildStorageOffset = u64 (bmBuildStorageOffset base + u64 rightBaseShift)\<rparr>"

definition bm_end64 :: "BuildMap \<Rightarrow> int" where
  "bm_end64 m = u64 (bmOffset m + bmLength m)"

definition left_length :: "BuildMap \<Rightarrow> BuildMap \<Rightarrow> int" where
  "left_length base diff = i64 (i64 (bmOffset diff) - i64 (bmOffset base))"

definition right_shift :: "BuildMap \<Rightarrow> BuildMap \<Rightarrow> int" where
  "right_shift base diff =
     i64 (i64 (i64 (bmOffset diff) + i64 (bmLength diff)) - i64 (bmOffset base))"

definition right_length :: "BuildMap \<Rightarrow> BuildMap \<Rightarrow> int" where
  "right_length base diff = i64 (i64 (bmLength base) - right_shift base diff)"

text \<open>
  The loop of \<^verbatim>\<open>MergeMappings\<close>.  The two index variables are the remaining suffixes of the two
  slices, and an entry appended to \<^verbatim>\<open>mappings\<close> is the head of the result.  The last branch is
  the "invalid case" that prints and loops without progress; the termination proof shows that
  it is never taken.
\<close>

function mergeLoop :: "BuildMap list \<Rightarrow> BuildMap list \<Rightarrow> BuildMap list" where
  "mergeLoop [] diffs = diffs"
| "mergeLoop (base # bases) [] = base # bases"
| "mergeLoop (base # bases) (diff # diffs) =
     (if bmLength base = 0 then mergeLoop bases (diff # diffs)
      else if bmLength diff = 0 then mergeLoop (base # bases) diffs
      else if bm_end64 base \<le> bmOffset diff then base # mergeLoop bases (diff # diffs)
      else if bm_end64 diff \<le> bmOffset base then diff # mergeLoop (base # bases) diffs
      else if bmOffset diff \<le> bmOffset base \<and> bm_end64 base \<le> bm_end64 diff
        then mergeLoop bases (diff # diffs)
      else if bmOffset base \<le> bmOffset diff \<and> bm_end64 diff \<le> bm_end64 base then
        (let l = left_length base diff; s = right_shift base diff; r = right_length base diff;
             rest = (if 0 < r then mergeLoop (rightBase base s r # bases) diffs
                     else mergeLoop bases diffs)
         in (if 0 < l then [leftBase base l] else []) @ diff # rest)
      else if bmOffset diff < bmOffset base then
        (let s = right_shift base diff; r = right_length base diff
         in diff # (if 0 < r then mergeLoop (rightBase base s r # bases) diffs
                    else mergeLoop bases diffs))
      else if bmOffset base < bmOffset diff then
        (let l = left_length base diff
         in (if 0 < l then [leftBase base l] else []) @ mergeLoop bases (diff # diffs))
      else mergeLoop (base # bases) (diff # diffs))"
  by pat_completeness auto
termination
  by (relation "measure (\<lambda>(bs, ds). length bs + length ds)") auto

declare mergeLoop.simps(3) [simp del]

definition MergeMappings :: "BuildMap list \<Rightarrow> BuildMap list \<Rightarrow> BuildMap list" where
  "MergeMappings baseMapping diffMapping =
     (if diffMapping = [] then baseMapping else mergeLoop baseMapping diffMapping)"

subsection \<open>NormalizeMappings\<close>

fun normalizeLoop :: "BuildMap \<Rightarrow> BuildMap list \<Rightarrow> BuildMap list" where
  "normalizeLoop current [] = [current]"
| "normalizeLoop current (mp # mappings) =
     (if bmBuildId mp \<noteq> bmBuildId current then current # normalizeLoop mp mappings
      else normalizeLoop (current\<lparr>bmLength := u64 (bmLength current + bmLength mp)\<rparr>) mappings)"

fun NormalizeMappings :: "BuildMap list \<Rightarrow> BuildMap list" where
  "NormalizeMappings [] = []"
| "NormalizeMappings (m # ms) = normalizeLoop m ms"

subsection \<open>CreateMapping\<close>

text \<open>
  The loop over the dirty bit set.  The state is the one of the Go loop; \<^verbatim>\<open>next\<close> is the pair
  \<^verbatim>\<open>(blockIdx, e)\<close> of the last \<^verbatim>\<open>NextSet\<close>, \<open>None\<close> when \<^verbatim>\<open>e\<close> is false.  Nothing is known of
  the bit set here, so the loop may not end: \<open>None\<close>.
\<close>

definition blocks_mapping :: "uuid \<Rightarrow> int \<Rightarrow> int \<Rightarrow> int \<Rightarrow> int \<Rightarrow> BuildMap" where
  "blocks_mapping buildId blockSize startBlock blockLength buildStorageOffset =
     \<lparr>bmOffset = u64 (startBlock * u64 blockSize),
      bmLength = u64 (blockLength * u64 blockSize),
      bmBuildId = buildId,
      bmBuildStorageOffset = buildStorageOffset\<rparr>"

partial_function (option) createLoop ::
  "'b bitset_ops \<Rightarrow> uuid \<Rightarrow> 'b \<Rightarrow> int \<Rightarrow> int option \<Rightarrow> int \<Rightarrow> int \<Rightarrow> int \<Rightarrow>
   BuildMap list \<Rightarrow> BuildMap list option" where
  "createLoop ops buildId dirty blockSize nxt startBlock blockLength bso mappings =
     (case nxt of
        None \<Rightarrow>
          Some (if 0 < blockLength
                then mappings @ [blocks_mapping buildId blockSize startBlock blockLength bso]
                else mappings)
      | Some blockIdx \<Rightarrow>
          if u64 (startBlock + blockLength) = blockIdx
          then createLoop ops buildId dirty blockSize
                 (bs_NextSet ops dirty (u64 (blockIdx + 1)))
                 startBlock (u64 (blockLength + 1)) bso mappings
          else if 0 < blockLength
          then (let m = blocks_mapping buildId blockSize startBlock blockLength bso
                in createLoop ops buildId dirty blockSize
                     (bs_NextSet ops dirty (u64 (blockIdx + 1)))
                     blockIdx 1 (u64 (bso + bmLength m)) (mappings @ [m]))
          else createLoop ops buildId dirty blockSize
                 (bs_NextSet ops dirty (u64 (blockIdx + 1)))
                 blockIdx 1 bso mappings)"

definition CreateMapping ::
  "'b bitset_ops \<Rightarrow> uuid \<Rightarrow> 'b \<Rightarrow> int \<Rightarrow> BuildMap list option" where
  "CreateMapping ops buildId dirty blockSize =
     createLoop ops buildId dirty blockSize (bs_NextSet ops dirty 0) 0 0 0 []"

subsection \<open>ValidateMappings and Equal\<close>

datatype mapping_error =
    WrongStart BuildMap int
  | LengthNotMultiple BuildMap
  | BeyondSize BuildMap int
  | NotCovered BuildMap int

fun validateLoop ::
  "int \<Rightarrow> int \<Rightarrow> int \<Rightarrow> BuildMap list \<Rightarrow> (mapping_error, int) go" where
  "validateLoop sz blockSize currentOffset [] = Ok currentOffset"
| "validateLoop sz blockSize currentOffset (m # ms) =
     (if currentOffset \<noteq> bmOffset m then
        (if blockSize = 0 then Panic else Fail (WrongStart m currentOffset))
      else if blockSize = 0 then Panic
      else if bmLength m mod blockSize \<noteq> 0 then Fail (LengthNotMultiple m)
      else if sz < u64 (currentOffset + bmLength m) then Fail (BeyondSize m currentOffset)
      else validateLoop sz blockSize (u64 (currentOffset + bmLength m)) ms)"

definition ValidateMappings :: "BuildMap list \<Rightarrow> int \<Rightarrow> int \<Rightarrow> (mapping_error, unit) go" where
  "ValidateMappings mappings sz blockSize =
     go_bind (validateLoop sz blockSize 0 mappings) (\<lambda>currentOffset.
       if currentOffset \<noteq> sz then
         (if mappings = [] \<or> blockSize = 0 then Panic
          else Fail (NotCovered (last mappings) currentOffset))
       else Ok ())"

definition BuildMap_Equal :: "BuildMap \<Rightarrow> BuildMap \<Rightarrow> bool" where
  "BuildMap_Equal m other \<longleftrightarrow>
     bmOffset m = bmOffset other \<and> bmLength m = bmLength other \<and> bmBuildId m = bmBuildId other"

definition Mappings_Equal :: "BuildMap list \<Rightarrow> BuildMap list \<Rightarrow> bool" where
  "Mappings_Equal a b \<longleftrightarrow> length a = length b \<and> list_all2 BuildMap_Equal a b"

definition Layers :: "BuildMap list \<Rightarrow> uuid set" where
  "Layers mappings = fold (\<lambda>m layers. insert (bmBuildId m) layers) mappings {}"

subsection \<open>The abstract meaning and the invariant\<close>

fun lookup_map :: "BuildMap list \<Rightarrow> int \<Rightarrow> (uuid \<times> int) option" where
  "lookup_map [] x = None"
| "lookup_map (m # ms) x =
     (if bmOffset m \<le> x \<and> x < bmOffset m + bmLength m
      then Some (bmBuildId m, bmBuildStorageOffset m + (x - bmOffset m))
      else lookup_map ms x)"

definition bm_ok :: "BuildMap \<Rightarrow> bool" where
  "bm_ok m \<longleftrightarrow> 0 \<le> bmOffset m \<and> 0 \<le> bmLength m \<and>
     bmOffset m + bmLength m < 9223372036854775808 \<and>
     0 \<le> bmBuildStorageOffset m \<and>
     bmBuildStorageOffset m + bmLength m < 18446744073709551616"

fun wf_maps :: "int \<Rightarrow> BuildMap list \<Rightarrow> bool" where
  "wf_maps lo [] = True"
| "wf_maps lo (m # ms) =
     (bm_ok m \<and> lo \<le> bmOffset m \<and> wf_maps (bmOffset m + bmLength m) ms)"

fun covers :: "int \<Rightarrow> int \<Rightarrow> BuildMap list \<Rightarrow> bool" where
  "covers lo hi [] = (lo = hi)"
| "covers lo hi (m # ms) = (bmOffset m = lo \<and> covers (lo + bmLength m) hi ms)"

subsection \<open>Lemmas on the invariant and the meaning\<close>

lemma wf_maps_mono: "wf_maps lo ms \<Longrightarrow> lo' \<le> lo \<Longrightarrow> wf_maps lo' ms"
  by (cases ms) auto

lemma lookup_map_below: "wf_maps lo ms \<Longrightarrow> x < lo \<Longrightarrow> lookup_map ms x = None"
  by (induction ms arbitrary: lo) (fastforce simp: bm_ok_def)+

lemma lookup_map_Cons_wf:
  "wf_maps (bmOffset m + bmLength m) ms \<Longrightarrow> x < bmOffset m \<Longrightarrow> bm_ok m \<Longrightarrow> lookup_map ms x = None"
  by (erule lookup_map_below) (simp add: bm_ok_def)

lemma bm_end64_ok [simp]: "bm_ok m \<Longrightarrow> bm_end64 m = bmOffset m + bmLength m"
  by (simp add: bm_end64_def bm_ok_def)

lemma left_length_ok [simp]:
  "bm_ok b \<Longrightarrow> bm_ok d \<Longrightarrow> left_length b d = bmOffset d - bmOffset b"
  by (simp add: left_length_def bm_ok_def)

lemma right_shift_ok:
  "bm_ok b \<Longrightarrow> bm_ok d \<Longrightarrow> right_shift b d = bmOffset d + bmLength d - bmOffset b"
  by (simp add: right_shift_def bm_ok_def)

lemma right_length_ok:
  "bm_ok b \<Longrightarrow> bm_ok d \<Longrightarrow> right_length b d = bmLength b - right_shift b d"
  by (simp add: right_length_def right_shift_ok) (simp add: bm_ok_def)

lemma leftBase_ok [simp]:
  assumes "bm_ok b" "0 < l" "l \<le> bmLength b"
  shows "bm_ok (leftBase b l)" "bmOffset (leftBase b l) = bmOffset b"
    "bmLength (leftBase b l) = l" "bmBuildId (leftBase b l) = bmBuildId b"
    "bmBuildStorageOffset (leftBase b l) = bmBuildStorageOffset b"
  using assms by (auto simp: leftBase_def bm_ok_def)

lemma rightBase_ok [simp]:
  assumes "bm_ok b" "0 < s" "0 < r" "s + r = bmLength b"
  shows "bm_ok (rightBase b s r)" "bmOffset (rightBase b s r) = bmOffset b + s"
    "bmLength (rightBase b s r) = r" "bmBuildId (rightBase b s r) = bmBuildId b"
    "bmBuildStorageOffset (rightBase b s r) = bmBuildStorageOffset b + s"
  using assms by (auto simp: rightBase_def bm_ok_def)

subsection \<open>MergeMappings is map override\<close>

abbreviation over :: "BuildMap list \<Rightarrow> BuildMap list \<Rightarrow> int \<Rightarrow> (uuid \<times> int) option" where
  "over bs ds x \<equiv> (case lookup_map ds x of None \<Rightarrow> lookup_map bs x | Some r \<Rightarrow> Some r)"

definition merged :: "int \<Rightarrow> BuildMap list \<Rightarrow> BuildMap list \<Rightarrow> BuildMap list \<Rightarrow> bool" where
  "merged lo bs ds out \<longleftrightarrow> wf_maps lo out \<and> (\<forall>x. lookup_map out x = over bs ds x)"

text \<open>One lemma per branch of the loop: what the iteration adds to the merge of the rest.\<close>

lemma merged_drop_base:
  assumes "merged lo bs (d # ds) out"
    and "bmLength b = 0 \<or> bmOffset d \<le> bmOffset b \<and>
         bmOffset b + bmLength b \<le> bmOffset d + bmLength d"
  shows "merged lo (b # bs) (d # ds) out"
  using assms by (auto simp: merged_def split: option.splits)

lemma merged_drop_diff:
  assumes "merged lo bs ds out" "bmLength d = 0"
  shows "merged lo bs (d # ds) out"
  using assms by (auto simp: merged_def split: option.splits)

lemma merged_emit_base:
  assumes "merged (bmOffset b + bmLength b) bs ds out" "bm_ok b" "lo \<le> bmOffset b"
    "wf_maps (bmOffset b + bmLength b) ds"
  shows "merged lo (b # bs) ds (b # out)"
  using assms lookup_map_below [OF assms(4)] by (auto simp: merged_def split: option.splits)

lemma merged_emit_diff:
  assumes "merged (bmOffset d + bmLength d) bs ds out" "bm_ok d" "lo \<le> bmOffset d"
  shows "merged lo bs (d # ds) (d # out)"
  using assms by (auto simp: merged_def split: option.splits)

lemma merged_cut_base:
  assumes "merged lo (rightBase b s r # bs) ds out" "bm_ok b"
    and "0 < s" "0 < r" "s + r = bmLength b"
    and "\<And>x. bmOffset b \<le> x \<Longrightarrow> x < bmOffset b + s \<Longrightarrow> lookup_map ds x \<noteq> None"
  shows "merged lo (b # bs) ds out"
  using assms by (fastforce simp: merged_def split: option.splits)

lemma merged_emit_left:
  assumes "merged (bmOffset b + l) (rightBase b l (bmLength b - l) # bs) ds out" "bm_ok b"
    and "0 < l" "l < bmLength b" "lo \<le> bmOffset b" "wf_maps (bmOffset b + l) ds"
  shows "merged lo (b # bs) ds (leftBase b l # out)"
  using assms lookup_map_below [OF assms(6)] by (auto simp: merged_def split: option.splits)

lemma rightBase_rightBase:
  assumes "bm_ok b" "0 < l" "0 < s" "0 < r" "l + s + r = bmLength b"
  shows "rightBase (rightBase b l (bmLength b - l)) s r = rightBase b (l + s) r"
  using assms by (intro BuildMap.equality) simp_all

abbreviation bm_end :: "BuildMap \<Rightarrow> int" where
  "bm_end m \<equiv> bmOffset m + bmLength m"

text \<open>
  The branches of one iteration when no operation wraps around.  In every overlapping case the
  remaining base is \<open>cutBase\<close>: what lies behind the end of the diff.
\<close>

abbreviation cutBase :: "BuildMap \<Rightarrow> BuildMap \<Rightarrow> BuildMap" where
  "cutBase b d \<equiv> rightBase b (bm_end d - bmOffset b) (bm_end b - bm_end d)"

abbreviation headBase :: "BuildMap \<Rightarrow> BuildMap \<Rightarrow> BuildMap" where
  "headBase b d \<equiv> leftBase b (bmOffset d - bmOffset b)"

lemma mergeLoop_cases [consumes 2, case_names drop_base drop_diff emit_base emit_diff trim split tail cut]:
  assumes ok: "bm_ok b" "bm_ok d"
  obtains
    "bmLength b = 0 \<or> bmOffset d \<le> bmOffset b \<and> bm_end b \<le> bm_end d"
    "mergeLoop (b # bs) (d # ds) = mergeLoop bs (d # ds)"
  | "bmLength d = 0" "mergeLoop (b # bs) (d # ds) = mergeLoop (b # bs) ds"
  | "bm_end b \<le> bmOffset d" "mergeLoop (b # bs) (d # ds) = b # mergeLoop bs (d # ds)"
  | "bm_end d \<le> bmOffset b" "mergeLoop (b # bs) (d # ds) = d # mergeLoop (b # bs) ds"
  | "bmOffset d \<le> bmOffset b" "bmOffset b < bm_end d" "bm_end d < bm_end b"
    "mergeLoop (b # bs) (d # ds) = d # mergeLoop (cutBase b d # bs) ds"
  | "bmOffset b < bmOffset d" "0 < bmLength d" "bm_end d < bm_end b"
    "mergeLoop (b # bs) (d # ds) = headBase b d # d # mergeLoop (cutBase b d # bs) ds"
  | "bmOffset b < bmOffset d" "0 < bmLength d" "bm_end d = bm_end b"
    "mergeLoop (b # bs) (d # ds) = headBase b d # d # mergeLoop bs ds"
  | "bmOffset b < bmOffset d" "bmOffset d < bm_end b" "bm_end b < bm_end d"
    "mergeLoop (b # bs) (d # ds) = headBase b d # mergeLoop bs (d # ds)"
proof -
  have sr: "right_shift b d = bm_end d - bmOffset b" "right_length b d = bm_end b - bm_end d"
    using ok by (simp_all add: right_shift_ok right_length_ok)
  have nn: "0 \<le> bmLength b" "0 \<le> bmLength d" using ok by (auto simp: bm_ok_def)
  note eq = mergeLoop.simps(3) [of b bs d ds]
  consider "bmLength b = 0" | "0 < bmLength b" "bmLength d = 0"
    | "0 < bmLength b" "0 < bmLength d" "bm_end b \<le> bmOffset d"
    | "0 < bmLength b" "0 < bmLength d" "bm_end d \<le> bmOffset b"
    | (overlap) "0 < bmLength b" "0 < bmLength d" "bmOffset b < bm_end d" "bmOffset d < bm_end b"
    using nn by linarith
  then show thesis
  proof cases
    case 1
    then show thesis by (intro that(1)) (simp_all add: eq)
  next
    case 2
    then show thesis by (intro that(2)) (simp_all add: eq)
  next
    case 3
    with ok show thesis by (intro that(3)) (simp_all add: eq)
  next
    case 4
    with ok show thesis by (intro that(4)) (simp_all add: eq)
  next
    case overlap
    then consider "bmOffset d \<le> bmOffset b" "bm_end b \<le> bm_end d"
      | "bmOffset d \<le> bmOffset b" "bm_end d < bm_end b"
      | "bmOffset b < bmOffset d" "bm_end d < bm_end b" | "bmOffset b < bmOffset d" "bm_end d = bm_end b"
      | "bmOffset b < bmOffset d" "bm_end b < bm_end d" by linarith
    then show thesis
    proof cases
      case 1
      with overlap ok show thesis by (intro that(1)) (simp_all add: eq)
    next
      case 2
      with overlap ok sr show thesis by (intro that(5)) (simp_all add: eq)
    next
      case 3
      with overlap ok sr show thesis by (intro that(6)) (simp_all add: eq)
    next
      case 4
      with overlap ok sr show thesis by (intro that(7)) (simp_all add: eq)
    next
      case 5
      with overlap ok sr show thesis by (intro that(8)) (simp_all add: eq)
    qed
  qed
qed

lemma merged_trim:
  assumes "merged (bm_end d) (cutBase b d # bs) ds out" "bm_ok b" "bm_ok d" "lo \<le> bmOffset d"
    and "bmOffset d \<le> bmOffset b" "bmOffset b < bm_end d" "bm_end d < bm_end b"
  shows "merged lo (b # bs) (d # ds) (d # out)"
proof (rule merged_cut_base)
  show "merged lo (cutBase b d # bs) (d # ds) (d # out)"
    using assms by (intro merged_emit_diff)
qed (use assms in auto)

lemma merged_split:
  assumes out: "merged (bm_end d) (cutBase b d # bs) ds out"
    and ok: "bm_ok b" "bm_ok d" "lo \<le> bmOffset b" "wf_maps (bm_end d) ds"
    and ov: "bmOffset b < bmOffset d" "0 < bmLength d" "bm_end d < bm_end b"
  shows "merged lo (b # bs) (d # ds) (headBase b d # d # out)"
proof (rule merged_emit_left)
  let ?l = "bmOffset d - bmOffset b"
  let ?c = "rightBase b ?l (bmLength b - ?l)"
  have "cutBase ?c d = cutBase b d"
    using rightBase_rightBase [of b ?l "bmLength d" "bm_end b - bm_end d"] ok ov
    by (simp add: algebra_simps)
  with out have "merged (bm_end d) (cutBase ?c d # bs) ds out" by (simp only:)
  then show "merged (bmOffset b + ?l) (?c # bs) (d # ds) (d # out)"
    by (rule merged_trim) (use ok ov in auto)
qed (use ok ov in auto)

lemma merged_tail:
  assumes out: "merged (bm_end d) bs ds out"
    and ok: "bm_ok b" "bm_ok d" "lo \<le> bmOffset b" "wf_maps (bm_end d) ds"
    and ov: "bmOffset b < bmOffset d" "0 < bmLength d" "bm_end d = bm_end b"
  shows "merged lo (b # bs) (d # ds) (headBase b d # d # out)"
  using assms by (intro merged_emit_left merged_drop_base merged_emit_diff) auto

lemma merged_cut:
  assumes out: "merged (bmOffset d) bs (d # ds) out"
    and ok: "bm_ok b" "bm_ok d" "lo \<le> bmOffset b" "wf_maps (bmOffset d) (d # ds)"
    and ov: "bmOffset b < bmOffset d" "bmOffset d < bm_end b" "bm_end b < bm_end d"
  shows "merged lo (b # bs) (d # ds) (headBase b d # out)"
  using assms by (intro merged_emit_left merged_drop_base) auto

lemma mergeLoop_merged:
  "wf_maps lo bs \<Longrightarrow> wf_maps lo ds \<Longrightarrow> merged lo bs ds (mergeLoop bs ds)"
proof (induction "length bs + length ds" arbitrary: bs ds lo rule: less_induct)
  case less
  show ?case
  proof (cases "bs = [] \<or> ds = []")
    case True
    with less.prems show ?thesis by (cases bs) (auto simp: merged_def split: option.splits)
  next
    case False
    then obtain b bs' d ds' where [simp]: "bs = b # bs'" "ds = d # ds'"
      by (auto simp: neq_Nil_conv)
    from less.prems have ok: "bm_ok b" "bm_ok d" "lo \<le> bmOffset b" "lo \<le> bmOffset d"
      and wb: "wf_maps (bm_end b) bs'" and wd: "wf_maps (bm_end d) ds'" by auto
    have mono: "wf_maps lo' bs'" if "lo' \<le> bm_end b" for lo' using wf_maps_mono [OF wb that] .
    have mono': "wf_maps lo' ds'" if "lo' \<le> bm_end d" for lo' using wf_maps_mono [OF wd that] .
    have nn: "0 \<le> bmLength b" "0 \<le> bmLength d" using ok by (auto simp: bm_ok_def)
    note [simp] = less.hyps mono mono'
    show ?thesis using ok(1,2)
    proof (cases rule: mergeLoop_cases [where bs = bs' and ds = ds'])
      case drop_base
      with ok wd nn show ?thesis by (auto intro!: merged_drop_base)
    next
      case drop_diff
      with ok wb nn show ?thesis by (auto intro!: merged_drop_diff)
    next
      case emit_base
      with ok wb wd show ?thesis by (auto intro!: merged_emit_base)
    next
      case emit_diff
      with ok wb wd show ?thesis by (auto intro!: merged_emit_diff)
    next
      case trim
      with ok wb wd show ?thesis by (simp add: merged_trim)
    next
      case split
      with ok wb wd show ?thesis by (simp add: merged_split)
    next
      case tail
      with ok wb wd show ?thesis by (simp add: merged_tail)
    next
      case cut
      with ok wb wd show ?thesis by (simp add: merged_cut)
    qed
  qed
qed

theorem MergeMappings_merged:
  assumes "wf_maps lo bs" "wf_maps lo ds"
  shows "wf_maps lo (MergeMappings bs ds)"
    and "lookup_map (MergeMappings bs ds) = lookup_map bs ++ lookup_map ds"
  using mergeLoop_merged [OF assms] assms
  by (auto simp: MergeMappings_def merged_def map_add_def fun_eq_iff)

text \<open>
  A mapping of a well-formed image: on the block grid \<open>g\<close>, not empty, and packed (a build
  stores only the blocks it owns, so a block's storage offset never exceeds its image offset).
\<close>

definition grid :: "int \<Rightarrow> BuildMap \<Rightarrow> bool" where
  "grid g m \<longleftrightarrow> bm_ok m \<and> g dvd bmOffset m \<and> g dvd bmLength m \<and> 0 < bmLength m \<and>
     bmBuildStorageOffset m \<le> bmOffset m"

definition grids :: "int \<Rightarrow> BuildMap list \<Rightarrow> bool" where
  "grids g ms \<longleftrightarrow> (\<forall>m \<in> set ms. grid g m)"

lemma grids_simps [simp]: "grids g []" "grids g (m # ms) \<longleftrightarrow> grid g m \<and> grids g ms"
  by (auto simp: grids_def)

lemma grid_leftBase: "grid g b \<Longrightarrow> g dvd l \<Longrightarrow> 0 < l \<Longrightarrow> l \<le> bmLength b \<Longrightarrow> grid g (leftBase b l)"
  by (simp add: grid_def)

lemma grid_rightBase:
  "grid g b \<Longrightarrow> g dvd s \<Longrightarrow> 0 < s \<Longrightarrow> 0 < r \<Longrightarrow> s + r = bmLength b \<Longrightarrow> grid g (rightBase b s r)"
  using dvd_add_right_iff [of g s r] by (auto simp: grid_def)

lemma mergeLoop_grid:
  "grids g bs \<Longrightarrow> grids g ds \<Longrightarrow> grids g (mergeLoop bs ds)"
proof (induction "length bs + length ds" arbitrary: bs ds rule: less_induct)
  case less
  show ?case
  proof (cases "bs = [] \<or> ds = []")
    case True
    with less.prems show ?thesis by (cases bs) auto
  next
    case False
    then obtain b bs' d ds' where [simp]: "bs = b # bs'" "ds = d # ds'"
      by (auto simp: neq_Nil_conv)
    from less.prems have g: "grid g b" "grid g d" and ok: "bm_ok b" "bm_ok d"
      by (auto simp: grid_def)
    from g have dv: "g dvd bmOffset d - bmOffset b" "g dvd bm_end d - bmOffset b"
      by (auto simp: grid_def)
    note [simp] = less.hyps
    from ok show ?thesis
    proof (cases rule: mergeLoop_cases [where bs = bs' and ds = ds'])
      case trim
      with g dv have "grid g (cutBase b d)" by (intro grid_rightBase) auto
      with trim less.prems show ?thesis by simp
    next
      case split
      with g dv have "grid g (cutBase b d)" "grid g (headBase b d)"
        by (auto intro!: grid_rightBase grid_leftBase)
      with split less.prems show ?thesis by simp
    next
      case tail
      with g dv have "grid g (headBase b d)" by (intro grid_leftBase) auto
      with tail less.prems show ?thesis by simp
    next
      case cut
      with g dv have "grid g (headBase b d)" by (intro grid_leftBase) auto
      with cut less.prems show ?thesis by simp
    qed (use less.prems in simp_all)
  qed
qed

lemma MergeMappings_grids: "grids g bs \<Longrightarrow> grids g ds \<Longrightarrow> grids g (MergeMappings bs ds)"
  by (simp add: MergeMappings_def mergeLoop_grid)

subsection \<open>Coverage\<close>

lemma covers_le: "covers lo hi ms \<Longrightarrow> wf_maps lo ms \<Longrightarrow> lo \<le> hi"
  by (induction ms arbitrary: lo) (force simp: bm_ok_def)+

lemma covers_lookup:
  "covers lo hi ms \<Longrightarrow> wf_maps lo ms \<Longrightarrow> lookup_map ms x \<noteq> None \<longleftrightarrow> lo \<le> x \<and> x < hi"
proof (induction ms arbitrary: lo)
  case (Cons m ms)
  then have "bmOffset m = lo" "covers (bm_end m) hi ms" "wf_maps (bm_end m) ms" "0 \<le> bmLength m"
    by (auto simp: bm_ok_def)
  with Cons.IH [of "bm_end m"] covers_le [of "bm_end m" hi ms] show ?case by auto
qed simp

lemma covers_wf: "covers lo hi ms \<Longrightarrow> grids g ms \<Longrightarrow> wf_maps lo ms"
  by (induction ms arbitrary: lo) (auto simp: grid_def)

lemma covers_if_total:
  assumes "wf_maps lo ms" "grids g ms" "\<And>x. lookup_map ms x \<noteq> None \<longleftrightarrow> lo \<le> x \<and> x < hi" "lo \<le> hi"
  shows "covers lo hi ms"
  using assms
proof (induction ms arbitrary: lo)
  case Nil
  from Nil(3) [of lo] Nil(4) show ?case by simp
next
  case (Cons m ms)
  then have m: "bm_ok m" "0 < bmLength m" "lo \<le> bmOffset m" "wf_maps (bm_end m) ms"
    by (auto simp: grid_def)
  from Cons.prems(3) [of "bmOffset m"] m have "bmOffset m < hi" by auto
  with Cons.prems(3) [of lo] m lookup_map_below [OF m(4), of lo] have lo: "bmOffset m = lo"
    by (auto split: if_splits)
  from Cons.prems(3) [of "bm_end m - 1"] m have "bm_end m \<le> hi" by auto
  moreover have "lookup_map ms x \<noteq> None \<longleftrightarrow> bm_end m \<le> x \<and> x < hi" for x
    using Cons.prems(3) [of x] m lookup_map_below [OF m(4), of x] lo by (auto split: if_splits)
  ultimately have "covers (bm_end m) hi ms"
    using Cons.prems m by (intro Cons.IH) auto
  with lo show ?case by simp
qed

lemma MergeMappings_covers:
  assumes b: "covers 0 sz bs" "grids g bs" and d: "wf_maps 0 ds" "grids g ds"
    and sz: "0 \<le> sz" "\<And>x. lookup_map ds x \<noteq> None \<Longrightarrow> x < sz"
  shows "covers 0 sz (MergeMappings bs ds)"
proof (rule covers_if_total)
  have wb: "wf_maps 0 bs" using b by (rule covers_wf)
  show "wf_maps 0 (MergeMappings bs ds)" "grids g (MergeMappings bs ds)"
    using MergeMappings_merged wb d b MergeMappings_grids by auto
  show "lookup_map (MergeMappings bs ds) x \<noteq> None \<longleftrightarrow> 0 \<le> x \<and> x < sz" for x
    using covers_lookup [OF b(1) wb, of x] lookup_map_below [OF d(1), of x] sz(2) [of x]
    by (force simp: MergeMappings_merged(2) [OF wb d(1)] map_add_def split: option.splits)
qed (rule sz(1))

end
