(* ===== verification/Header_Normalize.thy ===== *)
theory Header_Normalize
  imports Header_Mapping
begin

text \<open>
  \<^verbatim>\<open>NormalizeMappings\<close> and \<^verbatim>\<open>ValidateMappings\<close> keep the meaning of an image.  The code joins
  adjacent mappings of one build without looking at their storage offsets; that is
  sound exactly for images in which adjacent bytes of one build are adjacent in its storage
  (\<open>contiguous\<close>), which every image produced by the merges has.  Storage offsets of the nil
  build are never read, so the meaning is taken up to them (\<open>canon\<close>).
\<close>

fun canon :: "(uuid \<times> int) option \<Rightarrow> (uuid \<times> int) option" where
  "canon None = None"
| "canon (Some (u, s)) = Some (u, if u = uuid_Nil then 0 else s)"

definition contiguous :: "(int \<Rightarrow> (uuid \<times> int) option) \<Rightarrow> bool" where
  "contiguous f \<longleftrightarrow>
     (\<forall>x u s s'. f x = Some (u, s) \<and> f (x + 1) = Some (u, s') \<and> u \<noteq> uuid_Nil \<longrightarrow> s' = s + 1)"

lemma contiguousD:
  "contiguous f \<Longrightarrow> f x = Some (u, s) \<Longrightarrow> f (x + 1) = Some (u, s') \<Longrightarrow> u \<noteq> uuid_Nil \<Longrightarrow> s' = s + 1"
  by (auto simp: contiguous_def)

lemma canon_eq_Some:
  "u \<noteq> uuid_Nil \<Longrightarrow> canon r = Some (u, s) \<longleftrightarrow> r = Some (u, s)"
  by (cases r) auto

lemma contiguous_canon:
  assumes "\<And>x. canon (f x) = canon (g x)" "contiguous f" shows "contiguous g"
  unfolding contiguous_def
proof (intro allI impI, elim conjE)
  fix x u s s' assume "g x = Some (u, s)" "g (x + 1) = Some (u, s')" "u \<noteq> uuid_Nil"
  then have "f x = Some (u, s)" "f (x + 1) = Some (u, s')"
    using assms(1) canon_eq_Some by metis+
  with assms(2) \<open>u \<noteq> uuid_Nil\<close> show "s' = s + 1" by (auto simp: contiguous_def)
qed

subsection \<open>NormalizeMappings\<close>

definition joined :: "BuildMap \<Rightarrow> BuildMap \<Rightarrow> BuildMap" where
  "joined current mp = current\<lparr>bmLength := u64 (bmLength current + bmLength mp)\<rparr>"

lemma normalizeLoop_Cons:
  "normalizeLoop current (mp # mappings) =
     (if bmBuildId mp \<noteq> bmBuildId current then current # normalizeLoop mp mappings
      else normalizeLoop (joined current mp) mappings)"
  by (simp add: joined_def)

lemma joined_grid:
  assumes "grid g c" "grid g m" "bmOffset m = bm_end c"
  shows "grid g (joined c m)" "bmOffset (joined c m) = bmOffset c" "bm_end (joined c m) = bm_end m"
    "bmBuildId (joined c m) = bmBuildId c" "bmBuildStorageOffset (joined c m) = bmBuildStorageOffset c"
  using assms by (auto simp: joined_def grid_def bm_ok_def)

lemma joined_lookup:
  assumes g: "grid g c" "grid g m" and adj: "bmOffset m = bm_end c" and id: "bmBuildId m = bmBuildId c"
    and ct: "contiguous (lookup_map (c # m # ms))"
  shows "canon (lookup_map (joined c m # ms) x) = canon (lookup_map (c # m # ms) x)"
proof -
  have "bmBuildStorageOffset m = bmBuildStorageOffset c + bmLength c" if "bmBuildId c \<noteq> uuid_Nil"
  proof -
    have "lookup_map (c # m # ms) (bm_end c - 1) =
        Some (bmBuildId c, bmBuildStorageOffset c + bmLength c - 1)"
      "lookup_map (c # m # ms) (bm_end c - 1 + 1) = Some (bmBuildId c, bmBuildStorageOffset m)"
      using g adj id by (auto simp: grid_def)
    with contiguousD [OF ct _ _ that] show ?thesis by fastforce
  qed
  then show ?thesis
    using joined_grid [OF g adj] g adj id by (cases "bmBuildId c = uuid_Nil") (auto simp: grid_def)
qed

lemma canon_lookup_Cons:
  "(\<And>x. canon (lookup_map a x) = canon (lookup_map b x)) \<Longrightarrow>
   canon (lookup_map (c # a) x) = canon (lookup_map (c # b) x)"
  by simp

lemma contiguous_tail:
  assumes "contiguous (lookup_map (c # ms))" "wf_maps (bm_end c) ms" "grid g c"
  shows "contiguous (lookup_map ms)"
  unfolding contiguous_def
proof (intro allI impI, elim conjE)
  fix x u s s' assume *: "lookup_map ms x = Some (u, s)" "lookup_map ms (x + 1) = Some (u, s')"
    "u \<noteq> uuid_Nil"
  then have "bm_end c \<le> x" using lookup_map_below [OF assms(2), of x] by force
  with * have "lookup_map (c # ms) x = Some (u, s)" "lookup_map (c # ms) (x + 1) = Some (u, s')"
    using assms(3) by auto
  from contiguousD [OF assms(1) this *(3)] show "s' = s + 1" .
qed

lemma normalizeLoop_correct:
  assumes "covers (bmOffset c) hi (c # ms)" "grids g (c # ms)" "contiguous (lookup_map (c # ms))"
  shows "covers (bmOffset c) hi (normalizeLoop c ms)" "grids g (normalizeLoop c ms)"
    "canon (lookup_map (normalizeLoop c ms) x) = canon (lookup_map (c # ms) x)"
    "bmBuildId (hd (normalizeLoop c ms)) = bmBuildId c"
    "distinct_adj (map bmBuildId (normalizeLoop c ms))"
proof -
  have "covers (bmOffset c) hi (normalizeLoop c ms) \<and> grids g (normalizeLoop c ms) \<and>
    (\<forall>x. canon (lookup_map (normalizeLoop c ms) x) = canon (lookup_map (c # ms) x)) \<and>
    bmBuildId (hd (normalizeLoop c ms)) = bmBuildId c \<and> normalizeLoop c ms \<noteq> [] \<and>
    distinct_adj (map bmBuildId (normalizeLoop c ms))"
    using assms
  proof (induction ms arbitrary: c)
    case (Cons m ms)
    then have g: "grid g c" "grid g m" and adj: "bmOffset m = bm_end c" by auto
    show ?case
    proof (cases "bmBuildId m = bmBuildId c")
      case True
      note j = joined_grid [OF g adj] joined_lookup [OF g adj True Cons.prems(3)]
      have "contiguous (lookup_map (joined c m # ms))"
        using contiguous_canon [OF _ Cons.prems(3)] j(6) by metis
      moreover have "covers (bmOffset (joined c m)) hi (joined c m # ms)" "grids g (joined c m # ms)"
        using Cons.prems j(1-3) adj by (simp_all add: add.assoc)
      ultimately show ?thesis
        using Cons.IH [of "joined c m"] j True
        by (simp add: normalizeLoop_Cons del: normalizeLoop.simps lookup_map.simps covers.simps)
    next
      case False
      have wf: "wf_maps (bm_end c) (m # ms)"
        using Cons.prems by (intro covers_wf [of _ hi]) auto
      have "contiguous (lookup_map (m # ms))"
        by (rule contiguous_tail [OF Cons.prems(3) wf g(1)])
      with Cons.IH [of m] Cons.prems have IH: "covers (bmOffset m) hi (normalizeLoop m ms)"
        "grids g (normalizeLoop m ms)" "bmBuildId (hd (normalizeLoop m ms)) = bmBuildId m"
        "\<And>x. canon (lookup_map (normalizeLoop m ms) x) = canon (lookup_map (m # ms) x)"
        "normalizeLoop m ms \<noteq> []" "distinct_adj (map bmBuildId (normalizeLoop m ms))"
        by (simp_all del: lookup_map.simps)
      from IH(3,5,6) False have "distinct_adj (map bmBuildId (c # normalizeLoop m ms))"
        by (cases "normalizeLoop m ms") (auto simp: distinct_adj_Cons_Cons)
      with IH(1,2) False adj g canon_lookup_Cons [OF IH(4)] show ?thesis
        by (simp del: lookup_map.simps)
    qed
  qed (auto simp: distinct_adj_def)
  then show "covers (bmOffset c) hi (normalizeLoop c ms)" "grids g (normalizeLoop c ms)"
    "canon (lookup_map (normalizeLoop c ms) x) = canon (lookup_map (c # ms) x)"
    "bmBuildId (hd (normalizeLoop c ms)) = bmBuildId c"
    "distinct_adj (map bmBuildId (normalizeLoop c ms))" by blast+
qed

lemma NormalizeMappings_correct:
  assumes "covers 0 hi ms" "grids g ms" "contiguous (lookup_map ms)"
  shows "covers 0 hi (NormalizeMappings ms)" "grids g (NormalizeMappings ms)"
    "canon (lookup_map (NormalizeMappings ms) x) = canon (lookup_map ms x)"
    "distinct_adj (map bmBuildId (NormalizeMappings ms))"
    "NormalizeMappings ms = [] \<longleftrightarrow> ms = []"
proof -
  have "covers 0 hi (NormalizeMappings ms) \<and> grids g (NormalizeMappings ms) \<and>
    canon (lookup_map (NormalizeMappings ms) x) = canon (lookup_map ms x) \<and>
    distinct_adj (map bmBuildId (NormalizeMappings ms)) \<and> (NormalizeMappings ms = [] \<longleftrightarrow> ms = [])"
  proof (cases ms)
    case (Cons m ms')
    with assms(1) have [simp]: "bmOffset m = 0" by simp
    have "normalizeLoop c l \<noteq> []" for c l by (induction l arbitrary: c) auto
    with normalizeLoop_correct [of m hi ms' g] assms Cons show ?thesis
      by (simp del: lookup_map.simps)
  qed (use assms in auto)
  then show "covers 0 hi (NormalizeMappings ms)" "grids g (NormalizeMappings ms)"
    "canon (lookup_map (NormalizeMappings ms) x) = canon (lookup_map ms x)"
    "distinct_adj (map bmBuildId (NormalizeMappings ms))"
    "NormalizeMappings ms = [] \<longleftrightarrow> ms = []" by blast+
qed

subsection \<open>ValidateMappings\<close>

lemma validateLoop_Ok:
  "covers lo hi ms \<Longrightarrow> grids g ms \<Longrightarrow> 0 < g \<Longrightarrow> hi \<le> sz \<Longrightarrow>
   validateLoop sz g lo ms = Ok hi"
proof (induction ms arbitrary: lo)
  case (Cons m ms)
  then have m: "bmOffset m = lo" "g dvd bmLength m" "bm_end m < 9223372036854775808" "0 \<le> bmOffset m"
    "0 < bmLength m" "covers (bm_end m) hi ms" by (auto simp: grid_def bm_ok_def)
  from Cons.prems have "wf_maps (bm_end m) ms" by (intro covers_wf [of _ hi]) auto
  with m(6) have "bm_end m \<le> hi" by (rule covers_le)
  with m Cons show ?case by (simp add: dvd_eq_mod_eq_0)
qed simp

lemma validateLoop_covers:
  assumes "validateLoop sz g lo ms = Ok hi" "lo \<le> sz" "0 \<le> lo" "sz < 9223372036854775808"
    and "\<And>m. m \<in> set ms \<Longrightarrow> 0 \<le> bmLength m \<and> bmLength m < 9223372036854775808"
  shows "covers lo hi ms \<and> hi \<le> sz \<and> (\<forall>m \<in> set ms. g dvd bmLength m)"
  using assms
proof (induction ms arbitrary: lo)
  case (Cons m ms)
  from Cons.prems(2,3,4) Cons.prems(5) [of m] have "u64 (lo + bmLength m) = lo + bmLength m" by simp
  with Cons show ?case by (auto split: if_splits simp: dvd_eq_mod_eq_0)
qed simp

lemma ValidateMappings_Ok_iff:
  assumes "0 < sz" "sz < 9223372036854775808" "0 < g"
    and "\<And>m. m \<in> set ms \<Longrightarrow> 0 \<le> bmLength m \<and> bmLength m < 9223372036854775808"
  shows "ValidateMappings ms sz g = Ok () \<longleftrightarrow> covers 0 sz ms \<and> (\<forall>m \<in> set ms. g dvd bmLength m)"
proof
  assume "ValidateMappings ms sz g = Ok ()"
  then have "validateLoop sz g 0 ms = Ok sz"
    by (auto simp: ValidateMappings_def split: if_splits)
  with validateLoop_covers [of sz g 0 ms sz] assms
  show "covers 0 sz ms \<and> (\<forall>m \<in> set ms. g dvd bmLength m)" by auto
next
  have "validateLoop sz g lo ms = Ok sz"
    if "covers lo sz ms" "0 \<le> lo" "\<forall>m \<in> set ms. g dvd bmLength m \<and> 0 \<le> bmLength m \<and> bmLength m < 9223372036854775808" for lo
    using that
  proof (induction ms arbitrary: lo)
    case (Cons m ms)
    have "lo' \<le> hi" if "covers lo' hi ms'" "\<forall>m \<in> set ms'. 0 \<le> bmLength m" for lo' hi ms'
      using that by (induction ms' arbitrary: lo') force+
    from this [of "lo + bmLength m" sz ms] Cons.prems have "lo + bmLength m \<le> sz" by auto
    with Cons assms(2,3) show ?case by (auto simp: dvd_eq_mod_eq_0)
  qed simp
  moreover assume "covers 0 sz ms \<and> (\<forall>m \<in> set ms. g dvd bmLength m)"
  ultimately show "ValidateMappings ms sz g = Ok ()"
    using assms by (auto simp: ValidateMappings_def)
qed

end
