(* ===== verification/Header_Create.thy ===== *)
theory Header_Create
  imports Header_Normalize
begin

text \<open>
  \<^verbatim>\<open>CreateMapping\<close> terminates for every bit set and maps block \<open>k\<close> of the set to the
  position of \<open>k\<close> among the set's members (\<open>rank\<close>): the diff file stores exactly the dirty
  blocks, in order.
\<close>

definition block_rank :: "int set \<Rightarrow> int \<Rightarrow> int" where
  "block_rank M k = int (card {i \<in> M. i < k})"

definition packed_lookup :: "uuid \<Rightarrow> int \<Rightarrow> int set \<Rightarrow> int \<Rightarrow> (uuid \<times> int) option" where
  "packed_lookup u bs M x =
     (if x div bs \<in> M then Some (u, block_rank M (x div bs) * bs + x mod bs) else None)"

subsection \<open>Facts about bit sets\<close>

lemma finite_members: "bitset_laws ops \<Longrightarrow> finite (members ops b)"
  by (rule finite_subset [of _ "{0..<bs_Len ops b}"]) (auto simp: members_def bitset_laws_def)

lemma members_nonneg: "bitset_laws ops \<Longrightarrow> i \<in> members ops b \<Longrightarrow> 0 \<le> i"
  by (auto simp: members_def bitset_laws_def)

lemma NextSet_Some:
  "bitset_laws ops \<Longrightarrow> 0 \<le> i \<Longrightarrow> bs_NextSet ops b i = Some j \<longleftrightarrow>
     i \<le> j \<and> j \<in> members ops b \<and> (\<forall>k. i \<le> k \<and> k < j \<longrightarrow> k \<notin> members ops b)"
  by (simp add: members_def bitset_laws_def)

lemma NextSet_None:
  assumes "bitset_laws ops" "0 \<le> i" "bs_NextSet ops b i = None"
  shows "k \<in> members ops b \<Longrightarrow> k < i"
proof (rule ccontr)
  assume k: "k \<in> members ops b" "\<not> k < i"
  let ?S = "{j \<in> members ops b. i \<le> j}"
  have fin: "finite ?S" and ne: "?S \<noteq> {}" using finite_members [OF assms(1)] k by auto
  have "bs_NextSet ops b i = Some (Min ?S)"
    using Min_in [OF fin ne] Min_le [OF fin] assms by (subst NextSet_Some) fastforce+
  with assms show False by simp
qed

subsection \<open>Lists extended at the end\<close>

lemma lookup_map_append:
  "lookup_map (as @ bs) x = (case lookup_map as x of None \<Rightarrow> lookup_map bs x | Some r \<Rightarrow> Some r)"
  by (induction as) auto

lemma wf_maps_snoc2: "wf_maps lo (ms @ [m]) \<Longrightarrow> bm_ok m' \<Longrightarrow> bm_end m \<le> bmOffset m' \<Longrightarrow>
  wf_maps lo (ms @ [m, m'])"
  by (induction ms arbitrary: lo) auto

lemma wf_maps_replace: "wf_maps lo (ms @ [m]) \<Longrightarrow> bm_ok m' \<Longrightarrow> bmOffset m \<le> bmOffset m' \<Longrightarrow>
  wf_maps lo (ms @ [m'])"
  by (induction ms arbitrary: lo) auto

lemma wf_maps_butlast: "wf_maps lo (ms @ ms') \<Longrightarrow> wf_maps lo ms"
  by (induction ms arbitrary: lo) auto

subsection \<open>The loop invariant\<close>

definition run_mapping :: "uuid \<Rightarrow> int \<Rightarrow> int \<Rightarrow> int \<Rightarrow> int \<Rightarrow> BuildMap" where
  "run_mapping u bs st n bso =
     \<lparr>bmOffset = st * bs, bmLength = n * bs, bmBuildId = u, bmBuildStorageOffset = bso\<rparr>"

lemma run_mapping_sel [simp]:
  "bmOffset (run_mapping u bs st n bso) = st * bs" "bmLength (run_mapping u bs st n bso) = n * bs"
  "bmBuildId (run_mapping u bs st n bso) = u"
  "bmBuildStorageOffset (run_mapping u bs st n bso) = bso"
  by (simp_all add: run_mapping_def)

text \<open>
  After the members below \<open>p\<close> have been visited: the emitted mappings and the open run
  \<open>[st, st + n)\<close> describe exactly those members.
\<close>

definition create_inv ::
  "uuid \<Rightarrow> int \<Rightarrow> int set \<Rightarrow> int \<Rightarrow> int \<Rightarrow> int \<Rightarrow> int \<Rightarrow> BuildMap list \<Rightarrow> bool" where
  "create_inv u bs M p st n bso ms \<longleftrightarrow>
     0 \<le> p \<and> 0 \<le> st \<and> 0 \<le> n \<and> st + n = p \<and> (n = 0 \<longrightarrow> p = 0 \<and> bso = 0 \<and> ms = []) \<and>
     bso + n * bs = block_rank M p * bs \<and> 0 \<le> bso \<and> bso \<le> st * bs \<and> p * bs < 9223372036854775808 \<and>
     wf_maps 0 (ms @ [run_mapping u bs st n bso]) \<and> grids bs ms \<and>
     (\<forall>x. lookup_map (ms @ [run_mapping u bs st n bso]) x =
        (if x div bs < p then packed_lookup u bs M x else None))"

lemma create_inv_init:
  assumes "0 < bs" "\<And>i. i \<in> M \<Longrightarrow> 0 \<le> i"
  shows "create_inv u bs M 0 0 0 0 []"
proof -
  have none: "{i \<in> M. i < 0} = {}" using assms(2) by force
  then have "x div bs \<notin> M" if "x div bs < 0" for x using that by blast
  moreover have "block_rank M 0 = 0" by (simp only: block_rank_def none) simp
  ultimately show ?thesis by (auto simp: create_inv_def packed_lookup_def bm_ok_def)
qed

text \<open>The members between \<open>p\<close> and the next one, \<open>i\<close>.\<close>

definition next_member :: "int set \<Rightarrow> int \<Rightarrow> int \<Rightarrow> bool" where
  "next_member M p i \<longleftrightarrow> p \<le> i \<and> i \<in> M \<and> (\<forall>k. p \<le> k \<and> k < i \<longrightarrow> k \<notin> M)"

lemma next_member_rank:
  assumes "finite M" "next_member M p i"
  shows "block_rank M i = block_rank M p" "block_rank M (i + 1) = block_rank M p + 1"
proof -
  have "{j \<in> M. j < i} = {j \<in> M. j < p}"
    using assms(2) by (auto simp: next_member_def) (metis linorder_not_le)
  moreover have "{j \<in> M. j < i + 1} = insert i {j \<in> M. j < i}"
    using assms(2) by (auto simp: next_member_def)
  moreover have "i \<notin> {j \<in> M. j < p}" using assms(2) by (auto simp: next_member_def)
  ultimately show "block_rank M i = block_rank M p" "block_rank M (i + 1) = block_rank M p + 1"
    using assms(1) by (simp_all add: block_rank_def card_insert_if)
qed

lemma next_member_lookup:
  assumes "finite M" "next_member M p i"
  shows "(if x div bs < i + 1 then packed_lookup u bs M x else None) =
    (if x div bs = i then Some (u, block_rank M p * bs + x mod bs)
     else if x div bs < p then packed_lookup u bs M x else None)"
proof -
  have "x div bs \<notin> M" if "p \<le> x div bs" "x div bs < i" using assms that by (auto simp: next_member_def)
  then show ?thesis
    using assms next_member_rank [OF assms] by (auto simp: packed_lookup_def next_member_def)
qed

lemma lookup_run:
  assumes "0 < bs"
  shows "lookup_map [run_mapping u bs st n bso] x =
    (if st \<le> x div bs \<and> x div bs < st + n then Some (u, bso + (x div bs - st) * bs + x mod bs) else None)"
proof -
  have "st * bs \<le> x \<longleftrightarrow> st \<le> x div bs" "x < st * bs + n * bs \<longleftrightarrow> x div bs < st + n"
    using mult_le_iff_le_div [OF assms] less_mult_iff_div_less [OF assms, of x "st + n"]
    by (simp_all add: distrib_right)
  moreover have "x - st * bs = (x div bs - st) * bs + x mod bs"
    using div_mult_mod_eq [of x bs] by (simp add: left_diff_distrib)
  ultimately show ?thesis by simp
qed

lemma run_mapping_grid:
  assumes "0 < bs" "0 \<le> st" "0 < n" "(st + n) * bs < 9223372036854775808" "0 \<le> bso" "bso \<le> st * bs"
  shows "grid bs (run_mapping u bs st n bso)"
  using assms by (simp add: grid_def bm_ok_def distrib_right)

lemma create_step_new_run:
  assumes inv: "create_inv u bs M p st n bso ms" and M: "finite M" "next_member M p i"
    and bs: "0 < bs" "(i + 1) * bs < 9223372036854775808"
  shows "create_inv u bs M (i + 1) i 1 (bso + n * bs)
    (if 0 < n then ms @ [run_mapping u bs st n bso] else ms)" (is "create_inv _ _ _ _ _ _ _ ?ms")
proof -
  let ?m = "run_mapping u bs st n bso" and ?m' = "run_mapping u bs i 1 (bso + n * bs)"
  from inv have p: "0 \<le> p" "st + n = p" "0 \<le> st" "0 \<le> n" "0 \<le> bso" "bso \<le> st * bs"
    and pb: "p * bs < 9223372036854775808"
    and wf: "wf_maps 0 (ms @ [?m])" and gr: "grids bs ms"
    and empty: "n = 0 \<Longrightarrow> p = 0 \<and> bso = 0 \<and> ms = []"
    and bso: "bso + n * bs = block_rank M p * bs"
    and look: "\<And>x. lookup_map (ms @ [?m]) x = (if x div bs < p then packed_lookup u bs M x else None)"
    by (auto simp: create_inv_def)
  have i: "p \<le> i" using M by (simp add: next_member_def)
  then have pi: "p * bs \<le> i * bs" using bs by (intro mult_right_mono) auto
  with p(2) have "(st + n) * bs \<le> i * bs" by simp
  with p(6) have bso': "bso + n * bs \<le> i * bs" "st * bs + n * bs \<le> i * bs"
    by (simp_all add: distrib_right)
  from run_mapping_grid [of bs i 1 "bso + n * bs"] bso' bs i p have g': "grid bs ?m'" by simp
  then have ok': "bm_ok ?m'" by (simp add: grid_def)
  have wf': "wf_maps 0 (?ms @ [?m'])"
    using wf_maps_snoc2 [OF wf ok'] bso' ok' i p empty bs by auto
  have gr': "grids bs ?ms"
    using gr run_mapping_grid [of bs st n bso u] bs p pb by (auto simp: grids_def)
  have "lookup_map (?ms @ [?m']) x =
      (case lookup_map (ms @ [?m]) x of None \<Rightarrow> lookup_map [?m'] x | Some r \<Rightarrow> Some r)" for x
    using empty p by (auto simp: lookup_map_append lookup_run [OF bs(1)] simp del: lookup_map.simps
        split: option.splits)
  moreover have "lookup_map [?m'] x =
      (if x div bs = i then Some (u, block_rank M p * bs + x mod bs) else None)" for x
    using lookup_run [OF bs(1), of u i 1 "bso + n * bs" x] bso by auto
  ultimately have "lookup_map (?ms @ [?m']) x =
      (if x div bs < i + 1 then packed_lookup u bs M x else None)" for x
    unfolding look next_member_lookup [OF M] using i by (auto split: option.splits)
  moreover have "0 \<le> bso + n * bs" using p bs by simp
  ultimately show ?thesis
    using wf' gr' bso' i p bs bso next_member_rank [OF M] by (auto simp: create_inv_def distrib_right)
qed

lemma create_step_same_run:
  assumes inv: "create_inv u bs M p st n bso ms" and M: "finite M" "next_member M p p"
    and bs: "0 < bs" "(p + 1) * bs < 9223372036854775808"
  shows "create_inv u bs M (p + 1) st (n + 1) bso ms"
proof -
  let ?m = "run_mapping u bs st n bso" and ?m' = "run_mapping u bs st (n + 1) bso"
  from inv have p: "0 \<le> p" "st + n = p" "0 \<le> st" "0 \<le> n" "0 \<le> bso" "bso \<le> st * bs"
    and wf: "wf_maps 0 (ms @ [?m])" and gr: "grids bs ms"
    and bso: "bso + n * bs = block_rank M p * bs"
    and look: "\<And>x. lookup_map (ms @ [?m]) x = (if x div bs < p then packed_lookup u bs M x else None)"
    by (auto simp: create_inv_def)
  have "grid bs ?m'" using run_mapping_grid [of bs st "n + 1" bso u] bs p by (simp add: add.assoc [symmetric])
  then have wf': "wf_maps 0 (ms @ [?m'])" using wf_maps_replace [OF wf] by (simp add: grid_def)
  have "lookup_map (ms @ [?m']) x = (if x div bs < p + 1 then packed_lookup u bs M x else None)" for x
  proof -
    have end': "bso + (p - st) * bs = block_rank M p * bs" using bso p by auto
    show ?thesis
    proof (cases "lookup_map ms x")
      case None
      then show ?thesis
        using look [of x] next_member_lookup [OF M, of x bs u] p end'
        by (auto simp: lookup_map_append lookup_run [OF bs(1)] simp del: lookup_map.simps)
    next
      case (Some r)
      with look [of x] have "x div bs < p" "packed_lookup u bs M x = Some r"
        by (simp_all add: lookup_map_append split: if_splits)
      with Some show ?thesis by (simp add: lookup_map_append)
    qed
  qed
  with wf' gr show ?thesis
    using p bs bso next_member_rank [OF M] by (auto simp: create_inv_def distrib_right)
qed

subsection \<open>The loop\<close>

lemma blocks_mapping_run:
  assumes "create_inv u bs M p st n bso ms" "0 < bs"
  shows "blocks_mapping u bs st n bso = run_mapping u bs st n bso"
proof -
  have *: "0 \<le> st" "0 \<le> n" "(st + n) * bs < 9223372036854775808"
    using assms by (auto simp: create_inv_def)
  then have "0 \<le> st * bs" "0 \<le> n * bs" "st * bs + n * bs < 9223372036854775808"
    using assms(2) by (auto simp: distrib_right)
  moreover have "u64 (st * u64 bs) = u64 (st * bs)" "u64 (n * u64 bs) = u64 (n * bs)"
    by (simp_all add: u64_def mod_simps)
  ultimately show ?thesis by (simp add: blocks_mapping_def run_mapping_def)
qed

definition packed_mapping :: "uuid \<Rightarrow> int \<Rightarrow> int set \<Rightarrow> BuildMap list \<Rightarrow> bool" where
  "packed_mapping u bs M ms \<longleftrightarrow>
     wf_maps 0 ms \<and> grids bs ms \<and> (\<forall>x. lookup_map ms x = packed_lookup u bs M x)"

lemma create_inv_done:
  assumes inv: "create_inv u bs M p st n bso ms" and all: "\<And>k. k \<in> M \<Longrightarrow> k < p" and bs: "0 < bs"
  shows "packed_mapping u bs M (if 0 < n then ms @ [run_mapping u bs st n bso] else ms)"
proof -
  from inv have look: "lookup_map (ms @ [run_mapping u bs st n bso]) x = packed_lookup u bs M x" for x
    using all [of "x div bs"] by (auto simp: create_inv_def packed_lookup_def)
  from inv have "grid bs (run_mapping u bs st n bso)" if "0 < n"
    using that bs by (intro run_mapping_grid) (auto simp: create_inv_def)
  moreover have "lookup_map ms x = packed_lookup u bs M x" if "n = 0" for x
    using look [of x] that lookup_run [OF bs, of u st n bso x] by (auto simp: lookup_map_append split: option.splits if_splits)
  ultimately show ?thesis
    using inv look by (auto simp: packed_mapping_def create_inv_def grids_def dest: wf_maps_butlast)
qed

lemma createLoop_packed:
  assumes laws: "bitset_laws ops" and bs: "0 < bs"
    and bound: "\<And>i. i \<in> members ops dirty \<Longrightarrow> (i + 1) * bs < 9223372036854775808"
    and inv: "create_inv u bs (members ops dirty) p st n bso ms"
  shows "\<exists>out. createLoop ops u dirty bs (bs_NextSet ops dirty p) st n bso ms = Some out \<and>
    packed_mapping u bs (members ops dirty) out"
  using inv
proof (induction "card {i \<in> members ops dirty. p \<le> i}" arbitrary: p st n bso ms rule: less_induct)
  case less
  let ?M = "members ops dirty"
  note inv = less.prems
  from inv have p: "0 \<le> p" "st + n = p" "0 \<le> n" "0 \<le> st" by (auto simp: create_inv_def)
  note fin = finite_members [OF laws, of dirty]
  show ?case
  proof (cases "bs_NextSet ops dirty p")
    case None
    with create_inv_done [OF inv NextSet_None [OF laws p(1) None] bs]
    show ?thesis by (simp add: createLoop.simps blocks_mapping_run [OF inv bs] split: if_splits)
  next
    case (Some i)
    with p laws have nm: "next_member ?M p i" by (simp add: NextSet_Some next_member_def)
    then have i: "i \<in> ?M" "p \<le> i" by (auto simp: next_member_def)
    from bound [OF i(1)] have b: "(i + 1) * bs < 9223372036854775808" .
    moreover have "i + 1 \<le> (i + 1) * bs" using i p bs by (simp add: mult_le_cancel_left1)
    ultimately have "i + 1 < 9223372036854775808" by linarith
    then have i64: "u64 (i + 1) = i + 1" "u64 (st + n) = p" "u64 (n + 1) = n + 1"
      using i p by simp_all
    have "i \<in> {j \<in> ?M. p \<le> j}" "i \<notin> {j \<in> ?M. i + 1 \<le> j}"
      "{j \<in> ?M. i + 1 \<le> j} \<subseteq> {j \<in> ?M. p \<le> j}" using i by auto
    then have "{j \<in> ?M. i + 1 \<le> j} \<subset> {j \<in> ?M. p \<le> j}" by blast
    then have less_card: "card {j \<in> ?M. i + 1 \<le> j} < card {j \<in> ?M. p \<le> j}"
      using fin by (intro psubset_card_mono) auto
    note IH = less.hyps [OF less_card]
    show ?thesis
    proof (cases "p = i")
      case True
      with create_step_same_run [OF inv fin _ bs] nm b have "create_inv u bs ?M (i + 1) st (n + 1) bso ms"
        by simp
      from IH [OF this] Some True i64 show ?thesis
        by (simp add: createLoop.simps [of _ _ _ _ "Some i"])
    next
      case False
      note inv' = create_step_new_run [OF inv fin nm bs b]
      have "u64 (bso + n * bs) = bso + n * bs"
        using inv' b bs by (auto simp: create_inv_def distrib_right)
      with IH [OF inv'] Some False i64 blocks_mapping_run [OF inv bs] inv p show ?thesis
        by (cases "0 < n") (simp_all add: createLoop.simps [of _ _ _ _ "Some i"] create_inv_def)
    qed
  qed
qed

lemma CreateMapping_packed:
  assumes "bitset_laws ops" "0 < bs"
    and "\<And>i. i \<in> members ops dirty \<Longrightarrow> (i + 1) * bs < 9223372036854775808"
  shows "\<exists>out. CreateMapping ops u dirty bs = Some out \<and>
    packed_mapping u bs (members ops dirty) out"
  unfolding CreateMapping_def
  by (rule createLoop_packed [OF assms create_inv_init])
    (use assms(2) members_nonneg [OF assms(1)] in auto)

end
