(* ===== verification/Header_Lookup.thy ===== *)
theory Header_Lookup
  imports Header_Create
begin

text \<open>
  The header of a layered image, \<^verbatim>\<open>packages/shared/pkg/storage/header/header.go\<close>: the index
  built by \<^verbatim>\<open>NewHeader\<close> (a bit set of mapping starts and a map from start block to mapping) and
  the lookup \<^verbatim>\<open>GetShiftedMapping\<close>.  \<open>shifted_mapping_correct\<close> shows that for a covering,
  block-aligned mapping the indexed lookup agrees with the abstract \<open>lookup_map\<close>.
\<close>

record Metadata =
  mdVersion :: int
  mdBlockSize :: int
  mdSize :: int
  mdGeneration :: int
  mdBuildId :: uuid
  mdBaseBuildId :: uuid

record 'b Header =
  hMetadata :: Metadata
  hBlockStarts :: 'b
  hStartMap :: "int \<rightharpoonup> BuildMap"
  hMapping :: "BuildMap list"

datatype header_error =
    BlockSizeZero
  | OffsetOutOfBounds int int
  | OffsetNotAligned int int
  | NoSourceFound int
  | NoMappingFound int
  | BeyondMapping int int
  | MappedLengthNegative int int
  | InvalidHeaderMappings mapping_error
  | EmptyCheckFailed block_error
  | ShortWrite int int
  | WriteFailed

definition NormalizeFixVersion :: int where "NormalizeFixVersion = 3"

subsection \<open>NewHeader\<close>

fun headerLoop :: "'b bitset_ops \<Rightarrow> int \<Rightarrow> BuildMap list \<Rightarrow> 'b \<Rightarrow> (int \<rightharpoonup> BuildMap) \<Rightarrow>
    (header_error, 'b \<times> (int \<rightharpoonup> BuildMap)) go" where
  "headerLoop ops blockSize [] intervals startMap = Ok (intervals, startMap)"
| "headerLoop ops blockSize (m # ms) intervals startMap =
     go_bind (BlockIdx (i64 (bmOffset m)) (i64 blockSize)) (\<lambda>block.
       headerLoop ops blockSize ms (bs_Set ops intervals (u64 block)) (startMap(block \<mapsto> m)))"

definition default_mapping :: "Metadata \<Rightarrow> BuildMap" where
  "default_mapping md =
     \<lparr>bmOffset = 0, bmLength = mdSize md, bmBuildId = mdBuildId md, bmBuildStorageOffset = 0\<rparr>"

definition NewHeader :: "'b bitset_ops \<Rightarrow> Metadata \<Rightarrow> BuildMap list \<Rightarrow> (header_error, 'b Header) go" where
  "NewHeader ops md mapping0 =
     (if mdBlockSize md = 0 then Fail BlockSizeZero
      else
        let mapping = (if mapping0 = [] then [default_mapping md] else mapping0)
        in go_bind (TotalBlocks (i64 (mdSize md)) (i64 (mdBlockSize md))) (\<lambda>blocks.
           go_bind (headerLoop ops (mdBlockSize md) mapping (bs_New ops (u64 blocks)) Map.empty)
             (\<lambda>(intervals, startMap).
                Ok \<lparr>hMetadata = md, hBlockStarts = intervals, hStartMap = startMap,
                    hMapping = mapping\<rparr>)))"

subsection \<open>Lookup\<close>

definition IsNormalizeFixApplied :: "'b Header \<Rightarrow> bool" where
  "IsNormalizeFixApplied t \<longleftrightarrow> NormalizeFixVersion \<le> mdVersion (hMetadata t)"

definition getMapping ::
  "'b bitset_ops \<Rightarrow> 'b Header \<Rightarrow> int \<Rightarrow> (header_error, BuildMap \<times> int) go" where
  "getMapping ops t off =
     (let sz = i64 (mdSize (hMetadata t)); bs = i64 (mdBlockSize (hMetadata t)) in
      if (off < 0 \<or> sz \<le> off) \<and> IsNormalizeFixApplied t then Fail (OffsetOutOfBounds off sz)
      else if bs = 0 then Panic
      else if off smod bs \<noteq> 0 \<and> IsNormalizeFixApplied t then Fail (OffsetNotAligned off bs)
      else go_bind (BlockIdx off bs) (\<lambda>block.
        case bs_PreviousSet ops (hBlockStarts t) (u64 block) of
          None \<Rightarrow> Fail (NoSourceFound off)
        | Some start \<Rightarrow>
            (case hStartMap t (i64 start) of
               None \<Rightarrow> Fail (NoMappingFound off)
             | Some m \<Rightarrow>
                 let shift = i64 (i64 (block - i64 start) * bs) in
                 if i64 (bmLength m) \<le> shift \<and> IsNormalizeFixApplied t
                 then Fail (BeyondMapping off block)
                 else Ok (m, shift))))"

definition GetShiftedMapping ::
  "'b bitset_ops \<Rightarrow> 'b Header \<Rightarrow> int \<Rightarrow> (header_error, int \<times> int \<times> uuid) go" where
  "GetShiftedMapping ops t off =
     go_bind (getMapping ops t off) (\<lambda>(m, shift).
       let mappedOffset = i64 (i64 (bmBuildStorageOffset m) + shift);
           mappedLength = i64 (i64 (bmLength m) - shift)
       in if mappedLength < 0 \<and> IsNormalizeFixApplied t
          then Fail (MappedLengthNegative off mappedLength)
          else Ok (mappedOffset, mappedLength, bmBuildId m))"

subsection \<open>The index\<close>

lemma grid_offset_div:
  assumes "grid bs m" "0 < bs" shows "bmOffset m div bs * bs = bmOffset m" "0 \<le> bmOffset m div bs"
  using assms by (auto simp: grid_def bm_ok_def pos_imp_zdiv_nonneg_iff)

lemma BlockIdx_grid [simp]:
  assumes "grid bs m" "0 < bs" "bs < 9223372036854775808"
  shows "BlockIdx (bmOffset m) bs = Ok (bmOffset m div bs)" "i64 (bmOffset m) = bmOffset m"
    "u64 (bmOffset m div bs) = bmOffset m div bs"
proof -
  have "0 \<le> bmOffset m" "bmOffset m < 9223372036854775808" using assms by (auto simp: grid_def bm_ok_def)
  moreover from this have "bmOffset m div bs \<le> bmOffset m" using assms by (simp add: div_le_dividend_int)
  ultimately show "BlockIdx (bmOffset m) bs = Ok (bmOffset m div bs)" "i64 (bmOffset m) = bmOffset m"
    "u64 (bmOffset m div bs) = bmOffset m div bs"
    using assms grid_offset_div(2) [of bs m] by simp_all
qed

lemma headerLoop_index:
  assumes "bitset_laws ops" "grids bs ms" "0 < bs" "bs < 9223372036854775808"
  shows "\<exists>iv sm. headerLoop ops bs ms iv0 sm0 = Ok (iv, sm) \<and>
    (\<forall>k. bs_Test ops iv k \<longleftrightarrow> bs_Test ops iv0 k \<or> k \<in> (\<lambda>m. bmOffset m div bs) ` set ms) \<and>
    (\<forall>k. k \<notin> (\<lambda>m. bmOffset m div bs) ` set ms \<longrightarrow> sm k = sm0 k) \<and>
    (\<forall>m \<in> set ms. distinct (map bmOffset ms) \<longrightarrow> sm (bmOffset m div bs) = Some m)"
  using assms(2)
proof (induction ms arbitrary: iv0 sm0)
  case (Cons m ms)
  then have g: "grid bs m" by simp
  let ?iv = "bs_Set ops iv0 (bmOffset m div bs)" and ?sm = "sm0(bmOffset m div bs \<mapsto> m)"
  have gs: "grids bs ms" using Cons.prems by simp
  from Cons.IH [OF gs, of ?iv ?sm] obtain iv sm where
    *: "headerLoop ops bs ms ?iv ?sm = Ok (iv, sm)"
      "\<And>k. bs_Test ops iv k \<longleftrightarrow> bs_Test ops ?iv k \<or> k \<in> (\<lambda>m. bmOffset m div bs) ` set ms"
      "\<And>k. k \<notin> (\<lambda>m. bmOffset m div bs) ` set ms \<Longrightarrow> sm k = ?sm k"
      "\<And>m. m \<in> set ms \<Longrightarrow> distinct (map bmOffset ms) \<Longrightarrow> sm (bmOffset m div bs) = Some m"
    by blast
  have "bs_Test ops ?iv k \<longleftrightarrow> k = bmOffset m div bs \<or> bs_Test ops iv0 k" for k
    using assms(1) grid_offset_div(2) [OF g assms(3)] by (auto simp: bitset_laws_def)
  moreover have "bmOffset m div bs \<notin> (\<lambda>m. bmOffset m div bs) ` set ms"
    if "bmOffset m \<notin> bmOffset ` set ms"
  proof
    assume "bmOffset m div bs \<in> (\<lambda>m. bmOffset m div bs) ` set ms"
    then obtain m' where "m' \<in> set ms" and eq: "bmOffset m div bs = bmOffset m' div bs" by auto
    then have g': "grid bs m'" using gs by (simp add: grids_def)
    have "bmOffset m = bmOffset m'"
      using grid_offset_div(1) [OF g assms(3)] grid_offset_div(1) [OF g' assms(3)] eq by metis
    with that \<open>m' \<in> set ms\<close> show False by auto
  qed
  ultimately show ?case
    using * g assms by (intro exI [of _ iv] exI [of _ sm]) auto
qed simp

lemma covers_distinct: "covers lo hi ms \<Longrightarrow> grids g ms \<Longrightarrow> distinct (map bmOffset ms)"
proof (induction ms arbitrary: lo)
  case (Cons m ms)
  then have wf: "wf_maps (bm_end m) ms" by (intro covers_wf [of _ hi]) auto
  have "bm_end m \<le> bmOffset m'" if "m' \<in> set ms" for m'
    using wf that by (induction ms arbitrary: m) (force simp: bm_ok_def)+
  with Cons show ?case by (force simp: grid_def)
qed simp

definition header_ok :: "'b bitset_ops \<Rightarrow> 'b Header \<Rightarrow> bool" where
  "header_ok ops h \<longleftrightarrow>
     (let bs = mdBlockSize (hMetadata h); sz = mdSize (hMetadata h); ms = hMapping h in
      0 < bs \<and> 0 \<le> sz \<and> sz + bs \<le> 9223372036854775807 \<and> grids bs ms \<and> covers 0 sz ms \<and>
      (\<forall>k. bs_Test ops (hBlockStarts h) k \<longleftrightarrow> k \<in> (\<lambda>m. bmOffset m div bs) ` set ms) \<and>
      (\<forall>m \<in> set ms. hStartMap h (bmOffset m div bs) = Some m))"

lemma NewHeader_ok:
  assumes "bitset_laws ops" "grids (mdBlockSize md) ms" "covers 0 (mdSize md) ms" "ms \<noteq> []"
    and "0 < mdBlockSize md" "0 \<le> mdSize md" "mdSize md + mdBlockSize md \<le> 9223372036854775807"
  shows "\<exists>h. NewHeader ops md ms = Ok h \<and> header_ok ops h \<and> hMetadata h = md \<and> hMapping h = ms"
proof -
  let ?bs = "mdBlockSize md"
  obtain n where n: "TotalBlocks (i64 (mdSize md)) (i64 ?bs) = (Ok n :: (header_error, int) go)"
    using assms by (simp add: TotalBlocks_def)
  from headerLoop_index [OF assms(1,2,5), of "bs_New ops (u64 n)" Map.empty] assms obtain iv sm where
    *: "headerLoop ops ?bs ms (bs_New ops (u64 n)) Map.empty = Ok (iv, sm)"
      "\<And>k. bs_Test ops iv k \<longleftrightarrow> bs_Test ops (bs_New ops (u64 n)) k \<or> k \<in> (\<lambda>m. bmOffset m div ?bs) ` set ms"
      "\<And>m. m \<in> set ms \<Longrightarrow> sm (bmOffset m div ?bs) = Some m"
    using covers_distinct [OF assms(3,2)] by auto
  then show ?thesis
    using assms n by (auto simp: NewHeader_def header_ok_def Let_def bitset_laws_def)
qed

subsection \<open>The lookup\<close>

lemma wf_maps_disjoint:
  assumes "wf_maps lo ms" "m \<in> set ms" "m' \<in> set ms" "m \<noteq> m'"
  shows "bm_end m \<le> bmOffset m' \<or> bm_end m' \<le> bmOffset m"
proof -
  have after: "bm_end k \<le> bmOffset k'" if "wf_maps (bm_end k) l" "k' \<in> set l" for k k' l
    using that by (induction l arbitrary: k) (force simp: bm_ok_def)+
  from assms show ?thesis
    by (induction ms arbitrary: lo) (auto dest: after)
qed

lemma lookup_map_in:
  assumes "lookup_map ms x = Some r"
  obtains m where "m \<in> set ms" "bmOffset m \<le> x" "x < bm_end m"
    "r = (bmBuildId m, bmBuildStorageOffset m + (x - bmOffset m))"
  using assms by (induction ms) (auto split: if_splits)

lemma lookup_map_mem:
  assumes "wf_maps lo ms" "m \<in> set ms" "bmOffset m \<le> x" "x < bm_end m"
  shows "lookup_map ms x = Some (bmBuildId m, bmBuildStorageOffset m + (x - bmOffset m))"
proof -
  have "lookup_map ms x \<noteq> None" using assms(2-) by (induction ms) auto
  then obtain r where r: "lookup_map ms x = Some r" by blast
  then obtain m' where m': "m' \<in> set ms" "bmOffset m' \<le> x" "x < bm_end m'"
    "r = (bmBuildId m', bmBuildStorageOffset m' + (x - bmOffset m'))" by (rule lookup_map_in)
  with wf_maps_disjoint [OF assms(1,2) m'(1)] assms have "m' = m" by force
  with r m' show ?thesis by simp
qed

lemma getMapping_Ok:
  assumes laws: "bitset_laws ops" and h: "header_ok ops h"
    and off: "0 \<le> off" "off < mdSize (hMetadata h)" "mdBlockSize (hMetadata h) dvd off"
  shows "\<exists>m \<in> set (hMapping h). getMapping ops h off = Ok (m, off - bmOffset m) \<and>
    bmOffset m \<le> off \<and> off < bm_end m"
proof -
  let ?bs = "mdBlockSize (hMetadata h)" and ?sz = "mdSize (hMetadata h)" and ?ms = "hMapping h"
  from h have bs: "0 < ?bs" "?sz + ?bs \<le> 9223372036854775807" and gr: "grids ?bs ?ms"
    and cov: "covers 0 ?sz ?ms"
    and test: "\<And>k. bs_Test ops (hBlockStarts h) k \<longleftrightarrow> k \<in> (\<lambda>m. bmOffset m div ?bs) ` set ?ms"
    and sm: "\<And>m. m \<in> set ?ms \<Longrightarrow> hStartMap h (bmOffset m div ?bs) = Some m"
    by (auto simp: header_ok_def Let_def)
  have wf: "wf_maps 0 ?ms" using cov gr by (rule covers_wf)
  from covers_lookup [OF cov wf, of off] off obtain r where "lookup_map ?ms off = Some r" by auto
  then obtain m where m: "m \<in> set ?ms" "bmOffset m \<le> off" "off < bm_end m" by (rule lookup_map_in)
  have g: "grid ?bs m" using gr m by (simp add: grids_def)
  note gm = grid_offset_div [OF g bs(1)]
  let ?b = "off div ?bs" and ?s = "bmOffset m div ?bs"
  have b: "?b * ?bs = off" using off(3) by simp
  have sb: "?s \<le> ?b" "0 \<le> ?b" using zdiv_mono1 [OF m(2) bs(1)] gm(2) by linarith+
  have "bs_PreviousSet ops (hBlockStarts h) ?b = Some ?s"
  proof -
    have "k \<notin> (\<lambda>m. bmOffset m div ?bs) ` set ?ms" if k: "?s < k" "k \<le> ?b" for k
    proof
      assume "k \<in> (\<lambda>m. bmOffset m div ?bs) ` set ?ms"
      then obtain m' where m': "m' \<in> set ?ms" "k = bmOffset m' div ?bs" by auto
      then have g': "grid ?bs m'" using gr by (simp add: grids_def)
      from m'(2) k have "bmOffset m < bmOffset m'" "bmOffset m' \<le> off"
        using grid_offset_div(1) [OF g' bs(1)] gm(1) b bs(1)
          mult_strict_right_mono [of ?s k ?bs] mult_right_mono [of k ?b ?bs] by auto
      with wf_maps_disjoint [OF wf m(1) m'(1)] m(3) g' show False by (auto simp: grid_def)
    qed
    with laws sb gm(2) m(1) test show ?thesis by (auto simp: bitset_laws_def)
  qed
  moreover have "?b \<le> off" using off(1) bs(1) by (simp add: div_le_dividend_int)
  moreover have "(?b - ?s) * ?bs = off - bmOffset m" using b gm(1) by (simp add: left_diff_distrib)
  moreover have "0 \<le> bmOffset m" using g by (simp add: grid_def bm_ok_def)
  moreover have "off smod ?bs = 0" using off bs by (simp add: dvd_eq_mod_eq_0)
  moreover have "bm_end m < 9223372036854775808" "0 < bmLength m" using g by (auto simp: grid_def bm_ok_def)
  ultimately have "getMapping ops h off = Ok (m, off - bmOffset m)"
    using off bs sb gm(2) sm [OF m(1)] m by (simp add: getMapping_def Let_def)
  with m show ?thesis by blast
qed

lemma GetShiftedMapping_Ok:
  assumes "bitset_laws ops" "header_ok ops h"
    and off: "0 \<le> off" "off < mdSize (hMetadata h)" "mdBlockSize (hMetadata h) dvd off"
  shows "\<exists>mo ml u. GetShiftedMapping ops h off = Ok (mo, ml, u) \<and> 0 < ml \<and>
    mdBlockSize (hMetadata h) dvd ml \<and> off + ml \<le> mdSize (hMetadata h) \<and> 0 \<le> mo \<and> mo \<le> off \<and>
    (\<forall>k. 0 \<le> k \<and> k < ml \<longrightarrow> lookup_map (hMapping h) (off + k) = Some (u, mo + k))"
proof -
  let ?ms = "hMapping h"
  from getMapping_Ok [OF assms] obtain m where m: "m \<in> set ?ms"
    "getMapping ops h off = Ok (m, off - bmOffset m)" "bmOffset m \<le> off" "off < bm_end m" by blast
  from assms have gr: "grids (mdBlockSize (hMetadata h)) ?ms" and cov: "covers 0 (mdSize (hMetadata h)) ?ms"
    by (auto simp: header_ok_def Let_def)
  have wf: "wf_maps 0 ?ms" using cov gr by (rule covers_wf)
  have g: "grid (mdBlockSize (hMetadata h)) m" using gr m by (simp add: grids_def)
  have "lookup_map ?ms (off + k) = Some (bmBuildId m, bmBuildStorageOffset m + (off - bmOffset m) + k)"
    if "0 \<le> k" "k < bm_end m - off" for k
    using lookup_map_mem [OF wf m(1), of "off + k"] that m by (simp add: algebra_simps)
  moreover have "bm_end m \<le> mdSize (hMetadata h)"
    using covers_lookup [OF cov wf, of "bm_end m - 1"] lookup_map_mem [OF wf m(1), of "bm_end m - 1"] m by auto
  moreover have "mdBlockSize (hMetadata h) dvd bm_end m - off" using g off(3) by (auto simp: grid_def)
  moreover have "GetShiftedMapping ops h off =
      Ok (bmBuildStorageOffset m + (off - bmOffset m), bm_end m - off, bmBuildId m)"
    using m g by (simp add: GetShiftedMapping_def grid_def bm_ok_def Let_def)
  ultimately show ?thesis using m g by (auto simp: grid_def bm_ok_def)
qed

end
