(* ===== verification/Header_Diff.thy ===== *)
theory Header_Diff
  imports Header_Lookup
begin

text \<open>
  Snapshot metadata, \<^verbatim>\<open>packages/shared/pkg/storage/header/metadata.go\<close>: the builder that records
  which blocks of a paused sandbox are dirty or empty, and \<^verbatim>\<open>ToDiffHeader\<close>, which turns that
  record and the header of the parent image into the header of the snapshot.  The main result,
  \<open>ToDiffHeader_correct\<close>: empty blocks read as the nil build, dirty blocks as the new build at
  their rank in the diff file, and every other block as before; the result is again a
  well-formed header, so snapshots can be taken of snapshots without limit.
\<close>

record 'b DiffMetadata =
  dmDirty :: 'b
  dmEmpty :: 'b
  dmBlockSize :: int

definition NewTemplateMetadata :: "uuid \<Rightarrow> int \<Rightarrow> int \<Rightarrow> Metadata" where
  "NewTemplateMetadata buildId blockSize sz =
     \<lparr>mdVersion = 3, mdBlockSize = blockSize, mdSize = sz, mdGeneration = 0,
      mdBuildId = buildId, mdBaseBuildId = buildId\<rparr>"

definition NextGeneration :: "Metadata \<Rightarrow> uuid \<Rightarrow> Metadata" where
  "NextGeneration m buildID =
     \<lparr>mdVersion = mdVersion m, mdBlockSize = mdBlockSize m, mdSize = mdSize m,
      mdGeneration = u64 (mdGeneration m + 1), mdBuildId = buildID, mdBaseBuildId = mdBaseBuildId m\<rparr>"

definition toDiffMapping :: "'b bitset_ops \<Rightarrow> 'b DiffMetadata \<Rightarrow> uuid \<Rightarrow> BuildMap list option" where
  "toDiffMapping ops d buildID = do {
     dirtyMappings \<leftarrow> CreateMapping ops buildID (dmDirty d) (dmBlockSize d);
     emptyMappings \<leftarrow> CreateMapping ops uuid_Nil (dmEmpty d) (dmBlockSize d);
     Some (MergeMappings dirtyMappings emptyMappings)
   }"

definition checkedHeader :: "'b Header \<Rightarrow> (header_error, 'b Header) go" where
  "checkedHeader header =
     (case ValidateMappings (hMapping header) (mdSize (hMetadata header)) (mdBlockSize (hMetadata header)) of
        Ok _ \<Rightarrow> Ok header
      | Panic \<Rightarrow> Panic
      | Fail e \<Rightarrow> if IsNormalizeFixApplied header then Fail (InvalidHeaderMappings e) else Ok header)"

definition ToDiffHeader ::
  "'b bitset_ops \<Rightarrow> 'b DiffMetadata \<Rightarrow> 'b Header \<Rightarrow> uuid \<Rightarrow> (header_error, 'b Header) go option" where
  "ToDiffHeader ops d originalHeader buildID = do {
     diffMapping \<leftarrow> toDiffMapping ops d buildID;
     Some (let m = NormalizeMappings (MergeMappings (hMapping originalHeader) diffMapping);
               md = NextGeneration (hMetadata originalHeader) buildID
           in go_bind (NewHeader ops md m) checkedHeader)
   }"

subsection \<open>DiffMetadataBuilder\<close>

record 'b DiffMetadataBuilder =
  dbDirty :: 'b
  dbEmpty :: 'b
  dbBlockSize :: int

definition NewDiffMetadataBuilder ::
  "'b bitset_ops \<Rightarrow> int \<Rightarrow> int \<Rightarrow> ('e, 'b DiffMetadataBuilder) go" where
  "NewDiffMetadataBuilder ops sz blockSize =
     go_bind (TotalBlocks sz blockSize) (\<lambda>n.
       Ok \<lparr>dbDirty = bs_New ops (u64 n), dbEmpty = bs_New ops 0, dbBlockSize = blockSize\<rparr>)"

definition AddDirtyOffset ::
  "'b bitset_ops \<Rightarrow> 'b DiffMetadataBuilder \<Rightarrow> int \<Rightarrow> ('e, 'b DiffMetadataBuilder) go" where
  "AddDirtyOffset ops b off =
     go_bind (BlockIdx off (dbBlockSize b)) (\<lambda>i. Ok (b\<lparr>dbDirty := bs_Set ops (dbDirty b) (u64 i)\<rparr>))"

text \<open>
  \<^verbatim>\<open>Process\<close> mutates the builder and writes to an \<^verbatim>\<open>io.Writer\<close>.  The writer is the function
  \<open>write\<close>: the sink after the call, the number of bytes written and whether it failed.
\<close>

definition Process ::
  "'b bitset_ops \<Rightarrow> ('w \<Rightarrow> byte list \<Rightarrow> 'w \<times> int \<times> bool) \<Rightarrow> 'b DiffMetadataBuilder \<Rightarrow> 'w \<Rightarrow>
   byte list \<Rightarrow> int \<Rightarrow> 'b DiffMetadataBuilder \<times> 'w \<times> (header_error, unit) go" where
  "Process ops write b out block off =
     (case BlockIdx off (dbBlockSize b) of
        Fail e \<Rightarrow> (b, out, Fail e)
      | Panic \<Rightarrow> (b, out, Panic)
      | Ok blockIdx \<Rightarrow>
          (case IsEmptyBlock block (dbBlockSize b) of
             Fail e \<Rightarrow> (b, out, Fail (EmptyCheckFailed e))
           | Panic \<Rightarrow> (b, out, Panic)
           | Ok True \<Rightarrow> (b\<lparr>dbEmpty := bs_Set ops (dbEmpty b) (u64 blockIdx)\<rparr>, out, Ok ())
           | Ok False \<Rightarrow>
               (let b' = b\<lparr>dbDirty := bs_Set ops (dbDirty b) (u64 blockIdx)\<rparr>;
                    (out', n, failed) = write out block
                in (b', out',
                    if failed then Fail WriteFailed
                    else if n \<noteq> dbBlockSize b then Fail (ShortWrite n (dbBlockSize b))
                    else Ok ()))))"

definition Build :: "'b DiffMetadataBuilder \<Rightarrow> 'b DiffMetadata" where
  "Build b = \<lparr>dmDirty = dbDirty b, dmEmpty = dbEmpty b, dmBlockSize = dbBlockSize b\<rparr>"

subsection \<open>The diff mapping\<close>

definition diff_lookup ::
  "uuid \<Rightarrow> int \<Rightarrow> int set \<Rightarrow> int set \<Rightarrow> int \<Rightarrow> (uuid \<times> int) option" where
  "diff_lookup u bs D E x =
     (case packed_lookup uuid_Nil bs E x of Some r \<Rightarrow> Some r | None \<Rightarrow> packed_lookup u bs D x)"

lemma toDiffMapping_correct:
  assumes laws: "bitset_laws ops" and bs: "0 < dmBlockSize d"
    and bound: "\<And>i. i \<in> members ops (dmDirty d) \<union> members ops (dmEmpty d) \<Longrightarrow>
      (i + 1) * dmBlockSize d < 9223372036854775808"
  shows "\<exists>ms. toDiffMapping ops d u = Some ms \<and> wf_maps 0 ms \<and> grids (dmBlockSize d) ms \<and>
    (\<forall>x. lookup_map ms x =
       diff_lookup u (dmBlockSize d) (members ops (dmDirty d)) (members ops (dmEmpty d)) x)"
proof -
  let ?bs = "dmBlockSize d"
  from CreateMapping_packed [OF laws bs, of "dmDirty d" u] bound obtain a where
    a: "CreateMapping ops u (dmDirty d) ?bs = Some a" "packed_mapping u ?bs (members ops (dmDirty d)) a"
    by auto
  from CreateMapping_packed [OF laws bs, of "dmEmpty d" uuid_Nil] bound obtain e where
    e: "CreateMapping ops uuid_Nil (dmEmpty d) ?bs = Some e"
      "packed_mapping uuid_Nil ?bs (members ops (dmEmpty d)) e"
    by auto
  have wf: "wf_maps 0 a" "wf_maps 0 e" using a e by (auto simp: packed_mapping_def)
  note m = MergeMappings_merged [OF wf] MergeMappings_grids [of ?bs a e]
  show ?thesis
    using a e m by (auto simp: toDiffMapping_def packed_mapping_def diff_lookup_def map_add_def
        split: option.splits)
qed

lemma packed_contiguous:
  assumes "finite M" "0 < bs"
  shows "contiguous (packed_lookup u bs M)"
  unfolding contiguous_def
proof (intro allI impI, elim conjE)
  fix x v s s'
  assume *: "packed_lookup u bs M x = Some (v, s)" "packed_lookup u bs M (x + 1) = Some (v, s')"
  from assms(2) show "s' = s + 1"
  proof (cases rule: succ_div_mod_cases [where x = x])
    case same
    with * show ?thesis by (auto simp: packed_lookup_def split: if_splits)
  next
    case step
    have "next_member M (x div bs) (x div bs)"
      using * by (auto simp: next_member_def packed_lookup_def split: if_splits)
    from next_member_rank(2) [OF assms(1) this] step * show ?thesis
      by (auto simp: packed_lookup_def distrib_right split: if_splits)
  qed
qed

definition image_lookup ::
  "(int \<Rightarrow> (uuid \<times> int) option) \<Rightarrow> uuid \<Rightarrow> int \<Rightarrow> int set \<Rightarrow> int set \<Rightarrow> int \<Rightarrow> (uuid \<times> int) option" where
  "image_lookup old u bs D E x =
     (case diff_lookup u bs D E x of Some r \<Rightarrow> Some r | None \<Rightarrow> old x)"

lemma image_contiguous:
  assumes "contiguous old" "finite D" "0 < bs" "u \<noteq> uuid_Nil" "\<And>x s. old x \<noteq> Some (u, s)"
  shows "contiguous (image_lookup old u bs D E)"
  unfolding contiguous_def
proof (intro allI impI, elim conjE)
  fix x v s s'
  assume *: "image_lookup old u bs D E x = Some (v, s)" "image_lookup old u bs D E (x + 1) = Some (v, s')"
    and v: "v \<noteq> uuid_Nil"
  have src: "packed_lookup u bs D y = Some (v, t) \<and> v = u \<or> old y = Some (v, t) \<and> v \<noteq> u"
    if "image_lookup old u bs D E y = Some (v, t)" for y t
    using that v assms(5) by (auto simp: image_lookup_def diff_lookup_def packed_lookup_def split: if_splits)
  show "s' = s + 1"
    using src [OF *(1)] src [OF *(2)] contiguousD [OF packed_contiguous [OF assms(2,3)] _ _ v]
      contiguousD [OF assms(1) _ _ v] by blast
qed

subsection \<open>ToDiffHeader\<close>

lemma checkedHeader_Ok:
  assumes "header_ok ops h" "0 < mdSize (hMetadata h)"
  shows "checkedHeader h = Ok h"
proof -
  have "ValidateMappings (hMapping h) (mdSize (hMetadata h)) (mdBlockSize (hMetadata h)) = Ok ()"
    using assms by (subst ValidateMappings_Ok_iff)
      (auto simp: header_ok_def Let_def grids_def grid_def bm_ok_def)
  then show ?thesis by (simp add: checkedHeader_def)
qed

definition snapshot_pre :: "'b bitset_ops \<Rightarrow> 'b DiffMetadata \<Rightarrow> 'b Header \<Rightarrow> uuid \<Rightarrow> bool" where
  "snapshot_pre ops d h u \<longleftrightarrow>
     header_ok ops h \<and> contiguous (lookup_map (hMapping h)) \<and> 0 < mdSize (hMetadata h) \<and>
     dmBlockSize d = mdBlockSize (hMetadata h) \<and> u \<noteq> uuid_Nil \<and>
     (\<forall>m \<in> set (hMapping h). bmBuildId m \<noteq> u) \<and>
     (\<forall>i \<in> members ops (dmDirty d) \<union> members ops (dmEmpty d).
        (i + 1) * dmBlockSize d \<le> mdSize (hMetadata h))"

lemma ToDiffHeader_correct:
  assumes laws: "bitset_laws ops" and pre: "snapshot_pre ops d h u"
  shows "\<exists>h'. ToDiffHeader ops d h u = Some (Ok h') \<and> header_ok ops h' \<and>
    contiguous (lookup_map (hMapping h')) \<and> hMetadata h' = NextGeneration (hMetadata h) u \<and>
    distinct_adj (map bmBuildId (hMapping h')) \<and>
    (\<forall>x. canon (lookup_map (hMapping h') x) =
       canon (image_lookup (lookup_map (hMapping h)) u (dmBlockSize d)
         (members ops (dmDirty d)) (members ops (dmEmpty d)) x))"
proof -
  let ?bs = "dmBlockSize d" and ?sz = "mdSize (hMetadata h)" and ?ms = "hMapping h"
  let ?D = "members ops (dmDirty d)" and ?E = "members ops (dmEmpty d)"
  let ?img = "image_lookup (lookup_map ?ms) u ?bs ?D ?E"
  from pre have h: "header_ok ops h" and ct: "contiguous (lookup_map ?ms)" and sz: "0 < ?sz"
    and bseq: "mdBlockSize (hMetadata h) = ?bs"
    and fresh: "u \<noteq> uuid_Nil" "\<And>m. m \<in> set ?ms \<Longrightarrow> bmBuildId m \<noteq> u"
    and bound: "\<And>i. i \<in> ?D \<union> ?E \<Longrightarrow> (i + 1) * ?bs \<le> ?sz"
    by (auto simp: snapshot_pre_def)
  from h have bs: "0 < ?bs" "?sz + ?bs \<le> 9223372036854775807" and gr: "grids ?bs ?ms"
    and cov: "covers 0 ?sz ?ms" by (auto simp: header_ok_def Let_def bseq)
  have wf: "wf_maps 0 ?ms" using cov gr by (rule covers_wf)
  have "(i + 1) * ?bs < 9223372036854775808" if "i \<in> ?D \<union> ?E" for i using bound [OF that] bs by linarith
  from toDiffMapping_correct [OF laws bs(1) this, of u] obtain ds where
    ds: "toDiffMapping ops d u = Some ds" "wf_maps 0 ds" "grids ?bs ds"
      "\<And>x. lookup_map ds x = diff_lookup u ?bs ?D ?E x" by blast
  let ?merged = "MergeMappings ?ms ds" and ?md = "NextGeneration (hMetadata h) u"
  have look: "lookup_map ?merged x = ?img x" for x
    using ds by (simp add: MergeMappings_merged [OF wf ds(2)] image_lookup_def map_add_def split: option.splits)
  have "x < ?sz" if "lookup_map ds x \<noteq> None" for x
  proof -
    have "x div ?bs \<in> ?D \<union> ?E"
      using that by (auto simp: ds(4) diff_lookup_def packed_lookup_def split: if_splits)
    with less_mult_iff_div_less [OF bs(1), of x "x div ?bs + 1"] bound show ?thesis by force
  qed
  with MergeMappings_covers [OF cov gr ds(2,3)] sz have cov': "covers 0 ?sz ?merged" by simp
  have ct': "contiguous (lookup_map ?merged)"
    unfolding look [abs_def]
  proof (rule image_contiguous [OF ct finite_members [OF laws] bs(1) fresh(1)])
    show "lookup_map ?ms x \<noteq> Some (u, s)" for x s
      using fresh(2) by (auto elim!: lookup_map_in)
  qed
  note n = NormalizeMappings_correct [OF cov' MergeMappings_grids [OF gr ds(3)] ct']
  have "?merged \<noteq> []" using cov' sz by auto
  then have "NormalizeMappings ?merged \<noteq> []" using n(5) by simp
  with NewHeader_ok [OF laws, of ?md "NormalizeMappings ?merged"] n(1,2) bs sz bseq obtain h' where
    h': "NewHeader ops ?md (NormalizeMappings ?merged) = Ok h'" "header_ok ops h'" "hMetadata h' = ?md"
      "hMapping h' = NormalizeMappings ?merged"
    by (auto simp: NextGeneration_def)
  have "mdSize (hMetadata h') = ?sz" using h' by (simp add: NextGeneration_def)
  with checkedHeader_Ok [OF h'(2)] sz have "ToDiffHeader ops d h u = Some (Ok h')"
    using ds(1) h'(1) by (simp add: ToDiffHeader_def)
  moreover have "contiguous (lookup_map (hMapping h'))"
    using contiguous_canon [OF n(3) [symmetric] ct'] h' by simp
  ultimately show ?thesis using h' n(3,4) look by auto
qed

end
