(* ===== verification/Bitset_List.thy ===== *)
theory Bitset_List
  imports E2B_Prelude
begin

text \<open>
  A bit set as a list of booleans: a concrete value of the bit-set parameter.  It satisfies
  \<open>bitset_laws\<close>, so the theorems that assume these laws are not vacuous, and it computes, so
  they can be instantiated on concrete images.
\<close>

definition lbs_Set :: "bool list \<Rightarrow> int \<Rightarrow> bool list" where
  "lbs_Set b i =
     (if i < 0 then b
      else if nat i < length b then b[nat i := True]
      else b @ replicate (nat i - length b) False @ [True])"

definition list_bitset :: "bool list bitset_ops" where
  "list_bitset =
     \<lparr>bs_New = (\<lambda>n. replicate (nat n) False),
      bs_Set = lbs_Set,
      bs_Test = (\<lambda>b i. 0 \<le> i \<and> nat i < length b \<and> b ! nat i),
      bs_NextSet = (\<lambda>b i. map_option int (find (\<lambda>k. b ! k) [nat i..<length b])),
      bs_NextClear = (\<lambda>b i. map_option int (find (\<lambda>k. \<not> b ! k) [nat i..<length b])),
      bs_PreviousSet =
        (\<lambda>b i. map_option int (find (\<lambda>k. b ! k) (rev [0..<min (Suc (nat i)) (length b)]))),
      bs_Len = (\<lambda>b. int (length b)),
      bs_ClearAll = (\<lambda>b. map (\<lambda>_. False) b)\<rparr>"

lemma list_bitset_sel [simp]:
  "bs_New list_bitset n = replicate (nat n) False"
  "bs_Set list_bitset = lbs_Set"
  "bs_Test list_bitset b i \<longleftrightarrow> 0 \<le> i \<and> nat i < length b \<and> b ! nat i"
  "bs_NextSet list_bitset b i = map_option int (find (\<lambda>k. b ! k) [nat i..<length b])"
  "bs_NextClear list_bitset b i = map_option int (find (\<lambda>k. \<not> b ! k) [nat i..<length b])"
  "bs_PreviousSet list_bitset b i =
     map_option int (find (\<lambda>k. b ! k) (rev [0..<min (Suc (nat i)) (length b)]))"
  "bs_Len list_bitset b = int (length b)"
  "bs_ClearAll list_bitset b = map (\<lambda>_. False) b"
  by (simp_all add: list_bitset_def)

lemma find_upt_Some:
  "find P [i..<n] = Some j \<longleftrightarrow> i \<le> j \<and> j < n \<and> P j \<and> (\<forall>k. i \<le> k \<and> k < j \<longrightarrow> \<not> P k)"
proof (induction "n - i" arbitrary: i)
  case (Suc m)
  then have eq: "find P [i..<n] = (if P i then Some i else find P [Suc i..<n])" and "i < n"
    by (auto simp: upt_conv_Cons)
  show ?case
  proof (cases "P i")
    case True
    with eq \<open>i < n\<close> show ?thesis by (auto simp: le_less)
  next
    case False
    have "Suc i \<le> j \<and> (\<forall>k. Suc i \<le> k \<and> k < j \<longrightarrow> \<not> P k) \<longleftrightarrow>
        i \<le> j \<and> (\<forall>k. i \<le> k \<and> k < j \<longrightarrow> \<not> P k)" if "P j"
      using False that by (metis Suc_leD le_antisym not_less_eq_eq)
    with eq False Suc(1) [of "Suc i"] Suc(2) show ?thesis by auto
  qed
qed simp

lemma find_rev_upt_Some:
  "find P (rev [0..<n]) = Some j \<longleftrightarrow> j < n \<and> P j \<and> (\<forall>k. j < k \<and> k < n \<longrightarrow> \<not> P k)"
proof (induction n)
  case (Suc n)
  then show ?case by (auto simp: less_Suc_eq)
qed simp

lemma lbs_Set_Test:
  assumes "0 \<le> i"
  shows "bs_Test list_bitset (lbs_Set b i) j \<longleftrightarrow> j = i \<or> bs_Test list_bitset b j"
proof (cases "nat i < length b")
  case True
  with assms show ?thesis by (auto simp: lbs_Set_def nth_list_update)
next
  case False
  with assms show ?thesis
    by (auto simp: lbs_Set_def nth_append nth_Cons' nat_eq_iff)
qed

lemma int_find_Some: "map_option int r = Some j \<longleftrightarrow> 0 \<le> j \<and> r = Some (nat j)"
  by auto

lemma all_int_between:
  assumes "0 \<le> i"
  shows "(\<forall>k. i \<le> k \<and> k < j \<longrightarrow> P (nat k)) \<longleftrightarrow> (\<forall>n. nat i \<le> n \<and> n < nat j \<longrightarrow> P n)"
    "(\<forall>k. i < k \<and> k \<le> j \<longrightarrow> P (nat k)) \<longleftrightarrow> (\<forall>n. nat i < n \<and> n < Suc (nat j) \<longrightarrow> P n)"
proof -
  have *: "i \<le> int n \<longleftrightarrow> nat i \<le> n" "i < int n \<longleftrightarrow> nat i < n" for n using assms by auto
  have "P n" if "\<forall>k. i \<le> k \<and> k < j \<longrightarrow> P (nat k)" "nat i \<le> n" "n < nat j" for n
    using that(1) [rule_format, of "int n"] that(2,3) * by auto
  moreover have "P n" if "\<forall>k. i < k \<and> k \<le> j \<longrightarrow> P (nat k)" "nat i < n" "n < Suc (nat j)" for n
    using that(1) [rule_format, of "int n"] that(2,3) * by auto
  moreover have "P (nat k)" if "\<forall>n. nat i \<le> n \<and> n < nat j \<longrightarrow> P n" "i \<le> k" "k < j" for k
    using that(1) [rule_format, of "nat k"] that(2,3) assms by linarith
  moreover have "P (nat k)" if "\<forall>n. nat i < n \<and> n < Suc (nat j) \<longrightarrow> P n" "i < k" "k \<le> j" for k
    using that(1) [rule_format, of "nat k"] that(2,3) assms by linarith
  ultimately show "(\<forall>k. i \<le> k \<and> k < j \<longrightarrow> P (nat k)) \<longleftrightarrow> (\<forall>n. nat i \<le> n \<and> n < nat j \<longrightarrow> P n)"
    "(\<forall>k. i < k \<and> k \<le> j \<longrightarrow> P (nat k)) \<longleftrightarrow> (\<forall>n. nat i < n \<and> n < Suc (nat j) \<longrightarrow> P n)"
    by blast+
qed

lemma list_NextSet:
  assumes "0 \<le> i"
  shows "bs_NextSet list_bitset b i = Some j \<longleftrightarrow>
    i \<le> j \<and> bs_Test list_bitset b j \<and> (\<forall>k. i \<le> k \<and> k < j \<longrightarrow> \<not> bs_Test list_bitset b k)"
proof -
  have "bs_NextSet list_bitset b i = Some j \<longleftrightarrow> 0 \<le> j \<and> nat i \<le> nat j \<and> nat j < length b \<and>
      b ! nat j \<and> (\<forall>k. i \<le> k \<and> k < j \<longrightarrow> \<not> b ! nat k)"
    using all_int_between(1) [OF assms, of j "\<lambda>n. \<not> b ! n"]
    by (simp only: list_bitset_sel int_find_Some find_upt_Some)
  with assms show ?thesis by auto
qed

lemma list_NextClear:
  assumes "0 \<le> i"
  shows "bs_NextClear list_bitset b i = Some j \<longleftrightarrow>
    i \<le> j \<and> j < bs_Len list_bitset b \<and> \<not> bs_Test list_bitset b j \<and>
    (\<forall>k. i \<le> k \<and> k < j \<longrightarrow> bs_Test list_bitset b k)"
proof -
  have "bs_NextClear list_bitset b i = Some j \<longleftrightarrow> 0 \<le> j \<and> nat i \<le> nat j \<and> nat j < length b \<and>
      \<not> b ! nat j \<and> (\<forall>k. i \<le> k \<and> k < j \<longrightarrow> \<not> \<not> b ! nat k)"
    using all_int_between(1) [OF assms, of j "\<lambda>n. \<not> \<not> b ! n"]
    by (simp only: list_bitset_sel int_find_Some find_upt_Some)
  with assms show ?thesis by auto
qed

lemma list_PreviousSet:
  assumes "0 \<le> i"
  shows "bs_PreviousSet list_bitset b i = Some j \<longleftrightarrow>
    0 \<le> j \<and> j \<le> i \<and> bs_Test list_bitset b j \<and> (\<forall>k. j < k \<and> k \<le> i \<longrightarrow> \<not> bs_Test list_bitset b k)"
proof (cases "0 \<le> j")
  case True
  have "(\<forall>n. nat j < n \<and> n < min (Suc (nat i)) (length b) \<longrightarrow> \<not> b ! n) \<longleftrightarrow>
      (\<forall>n. nat j < n \<and> n < Suc (nat i) \<longrightarrow> \<not> (n < length b \<and> b ! n))" by auto
  then have "bs_PreviousSet list_bitset b i = Some j \<longleftrightarrow> 0 \<le> j \<and>
      nat j < min (Suc (nat i)) (length b) \<and> b ! nat j \<and>
      (\<forall>k. j < k \<and> k \<le> i \<longrightarrow> \<not> (nat k < length b \<and> b ! nat k))"
    using all_int_between(2) [OF True, of i "\<lambda>n. \<not> (n < length b \<and> b ! n)"]
    by (simp only: list_bitset_sel int_find_Some find_rev_upt_Some)
  with assms True show ?thesis by auto
qed (simp add: int_find_Some del: map_option_eq_Some)

theorem list_bitset_laws: "bitset_laws list_bitset"
  unfolding bitset_laws_def
proof (intro conjI allI impI)
  fix b :: "bool list" and i j :: int
  show "bs_Test list_bitset (bs_Set list_bitset b i) j \<longleftrightarrow> j = i \<or> bs_Test list_bitset b j" if "0 \<le> i"
    using lbs_Set_Test [OF that] by (simp only: list_bitset_sel(2))
  show "bs_NextSet list_bitset b i = Some j \<longleftrightarrow>
      i \<le> j \<and> bs_Test list_bitset b j \<and> (\<forall>k. i \<le> k \<and> k < j \<longrightarrow> \<not> bs_Test list_bitset b k)" if "0 \<le> i"
    using that by (rule list_NextSet)
  show "bs_NextClear list_bitset b i = Some j \<longleftrightarrow>
      i \<le> j \<and> j < bs_Len list_bitset b \<and> \<not> bs_Test list_bitset b j \<and>
      (\<forall>k. i \<le> k \<and> k < j \<longrightarrow> bs_Test list_bitset b k)" if "0 \<le> i"
    using that by (rule list_NextClear)
  show "bs_PreviousSet list_bitset b i = Some j \<longleftrightarrow>
      0 \<le> j \<and> j \<le> i \<and> bs_Test list_bitset b j \<and> (\<forall>k. j < k \<and> k \<le> i \<longrightarrow> \<not> bs_Test list_bitset b k)"
    if "0 \<le> i" using that by (rule list_PreviousSet)
  show "bs_Len list_bitset (bs_Set list_bitset b i) = max (bs_Len list_bitset b) (i + 1)" if "0 \<le> i"
    using that by (auto simp: lbs_Set_def max_def)
qed auto

end
