(* ===== verification/Image_Properties.thy ===== *)
theory Image_Properties
  imports Header_Serialization Bitset_List
begin

text \<open>
  The properties of the layered image format, with their witnesses.  The witnesses use one
  concrete image: four blocks of 4096 bytes, owned by one build, of which a snapshot rewrites
  blocks 1 and 3 and empties block 2.
\<close>

subsection \<open>The concrete image\<close>

definition buildA :: uuid where "buildA = replicate 16 1"
definition buildB :: uuid where "buildB = replicate 16 2"

definition mapA :: BuildMap where
  "mapA = \<lparr>bmOffset = 0, bmLength = 16384, bmBuildId = buildA, bmBuildStorageOffset = 0\<rparr>"

definition mapB :: BuildMap where
  "mapB = \<lparr>bmOffset = 4096, bmLength = 4096, bmBuildId = buildB, bmBuildStorageOffset = 0\<rparr>"

definition mdA :: Metadata where "mdA = NewTemplateMetadata buildA 4096 16384"

definition headerA :: "bool list Header" where
  "headerA = the_ok (NewHeader list_bitset mdA [mapA])"

definition diffB :: "bool list DiffMetadata" where
  "diffB = \<lparr>dmDirty = [False, True, False, True], dmEmpty = [False, False, True], dmBlockSize = 4096\<rparr>"

lemma mapA_grids: "grids 4096 [mapA]" "covers 0 16384 [mapA]"
  by (simp_all add: grid_def bm_ok_def mapA_def)

lemma mdA_sel [simp]: "mdBlockSize mdA = 4096" "mdSize mdA = 16384" "mdVersion mdA = 3"
  by (simp_all add: mdA_def NewTemplateMetadata_def)

lemma headerA_ok:
  "NewHeader list_bitset mdA [mapA] = Ok headerA" "header_ok list_bitset headerA"
  "hMetadata headerA = mdA" "hMapping headerA = [mapA]"
  using NewHeader_ok [OF list_bitset_laws, of mdA "[mapA]"] mapA_grids
  by (auto simp: headerA_def)

lemma contiguous_single: "contiguous (lookup_map [m])"
  by (auto simp: contiguous_def split: if_splits)

lemma diffB_members:
  "members list_bitset (dmDirty diffB) = {1, 3}" "members list_bitset (dmEmpty diffB) = {2}"
  by (auto simp: members_def diffB_def nth_Cons' split: if_splits)

lemma uuids_neq: "buildB \<noteq> uuid_Nil" "buildA \<noteq> buildB" "buildA \<noteq> uuid_Nil"
  by (simp_all add: buildA_def buildB_def uuid_Nil_def)

lemma snapshot_pre_B: "snapshot_pre list_bitset diffB headerA buildB"
  unfolding snapshot_pre_def diffB_members
  using headerA_ok uuids_neq contiguous_single by (auto simp: diffB_def mapA_def)

subsection \<open>Properties\<close>

text \<open>
  C1.  \<^verbatim>\<open>ToDiffHeader\<close> is correct.  For a well-formed parent header and dirty and empty bit sets
  inside the image, the call returns (its loops terminate) a header without error, which is again
  well-formed and contiguous, carries the next generation's metadata, has no two adjacent mappings of
  one build, and maps every byte to: the nil build if its block is empty, the new build at the
  block's rank among the dirty blocks if it is dirty, and the parent's source otherwise.
\<close>

theorem to_diff_header_correct:
  assumes "bitset_laws ops" "snapshot_pre ops d h u"
  shows "\<exists>h'. ToDiffHeader ops d h u = Some (Ok h') \<and> header_ok ops h' \<and>
    contiguous (lookup_map (hMapping h')) \<and> hMetadata h' = NextGeneration (hMetadata h) u \<and>
    distinct_adj (map bmBuildId (hMapping h')) \<and>
    (\<forall>x. canon (lookup_map (hMapping h') x) =
       canon (if x div dmBlockSize d \<in> members ops (dmEmpty d) then Some (uuid_Nil, 0)
              else if x div dmBlockSize d \<in> members ops (dmDirty d)
              then Some (u, int (card {i \<in> members ops (dmDirty d). i < x div dmBlockSize d}) *
                              dmBlockSize d + x mod dmBlockSize d)
              else lookup_map (hMapping h) x))"
  using ToDiffHeader_correct [OF assms]
  by (auto simp: image_lookup_def diff_lookup_def packed_lookup_def block_rank_def cong: if_cong)

theorem to_diff_header_correct_witness:
  "bitset_laws list_bitset \<and> snapshot_pre list_bitset diffB headerA buildB \<and>
   (\<exists>h'. ToDiffHeader list_bitset diffB headerA buildB = Some (Ok h') \<and> header_ok list_bitset h')"
  using list_bitset_laws snapshot_pre_B to_diff_header_correct [OF list_bitset_laws snapshot_pre_B]
  by blast

text \<open>
  C2.  \<^verbatim>\<open>MergeMappings\<close> is map override: for two well-formed lists of mappings (sorted, disjoint, no
  offset that overflows) the merged list is well-formed, and at every byte it means the diff where the
  diff maps the byte and the base elsewhere.
\<close>

theorem merge_mappings_override:
  assumes "wf_maps lo base" "wf_maps lo diff"
  shows "wf_maps lo (MergeMappings base diff) \<and>
    lookup_map (MergeMappings base diff) = lookup_map base ++ lookup_map diff"
  using MergeMappings_merged [OF assms] by blast

theorem merge_mappings_override_witness:
  "wf_maps 0 [mapA] \<and> wf_maps 0 [mapB] \<and> length (MergeMappings [mapA] [mapB]) = 3 \<and>
   lookup_map (MergeMappings [mapA] [mapB]) 5000 = Some (buildB, 904)"
proof -
  have h: "wf_maps 0 [mapA]" "wf_maps 0 [mapB]"
    by (simp_all add: mapA_def mapB_def bm_ok_def)
  have "length (MergeMappings [mapA] [mapB]) = 3"
    by (simp add: MergeMappings_def mergeLoop.simps mapA_def mapB_def bm_end64_def left_length_def
        right_shift_def right_length_def Let_def)
  with h merge_mappings_override [OF h] show ?thesis by (simp add: map_add_def mapB_def)
qed

text \<open>
  C3.  \<^verbatim>\<open>CreateMapping\<close> terminates on every bit set whose blocks fit in the image, and its mappings
  are sorted, block-aligned and non-empty, and map exactly the bytes of the set's blocks: block \<open>k\<close>
  goes to the number of smaller members of the set, so the stored diff is dense.
\<close>

theorem create_mapping_packed:
  assumes "bitset_laws ops" "0 < blockSize"
    and "\<forall>i \<in> members ops dirty. (i + 1) * blockSize < 9223372036854775808"
  shows "\<exists>ms. CreateMapping ops buildId dirty blockSize = Some ms \<and> wf_maps 0 ms \<and>
    grids blockSize ms \<and>
    (\<forall>x. lookup_map ms x =
      (if x div blockSize \<in> members ops dirty
       then Some (buildId, int (card {i \<in> members ops dirty. i < x div blockSize}) * blockSize +
                           x mod blockSize)
       else None))"
  using CreateMapping_packed [of ops blockSize dirty buildId] assms
  by (auto simp: packed_mapping_def packed_lookup_def block_rank_def cong: if_cong)

theorem create_mapping_packed_witness:
  "bitset_laws list_bitset \<and> members list_bitset (dmDirty diffB) = {1, 3} \<and>
   (\<exists>ms. CreateMapping list_bitset buildB (dmDirty diffB) 4096 = Some ms \<and> grids 4096 ms)"
proof -
  have h: "(0::int) < 4096"
    "\<forall>i \<in> members list_bitset (dmDirty diffB). (i + 1) * 4096 < (9223372036854775808 :: int)"
    by (simp_all add: diffB_members)
  from create_mapping_packed [OF list_bitset_laws h, of buildB] diffB_members list_bitset_laws
  show ?thesis by blast
qed

text \<open>
  C4.  \<^verbatim>\<open>NormalizeMappings\<close> keeps the meaning of every covering, contiguous image (up to the storage
  offsets of the nil build, which are never read), keeps coverage and alignment, and leaves no two
  adjacent mappings of one build.
\<close>

theorem normalize_mappings_meaning:
  assumes "covers 0 sz ms" "grids g ms" "contiguous (lookup_map ms)"
  shows "covers 0 sz (NormalizeMappings ms) \<and> grids g (NormalizeMappings ms) \<and>
    (\<forall>x. canon (lookup_map (NormalizeMappings ms) x) = canon (lookup_map ms x)) \<and>
    distinct_adj (map bmBuildId (NormalizeMappings ms))"
  using NormalizeMappings_correct [OF assms] by blast

theorem normalize_mappings_meaning_witness:
  "covers 0 16384 [mapA] \<and> grids 4096 [mapA] \<and> contiguous (lookup_map [mapA]) \<and>
   covers 0 16384 (NormalizeMappings [mapA])"
  using mapA_grids contiguous_single normalize_mappings_meaning [OF mapA_grids(2,1) contiguous_single]
  by blast

text \<open>
  C5.  \<^verbatim>\<open>ValidateMappings\<close> decides coverage: for lengths below \<^verbatim>\<open>1<<63\<close> it returns no error exactly
  when the mappings are laid end to end from 0 to the image size and every length is a multiple of the
  block size.
\<close>

theorem validate_mappings_decides:
  assumes "0 < sz" "sz < 9223372036854775808" "0 < blockSize"
    and "\<forall>m \<in> set ms. 0 \<le> bmLength m \<and> bmLength m < 9223372036854775808"
  shows "ValidateMappings ms sz blockSize = Ok () \<longleftrightarrow>
    covers 0 sz ms \<and> (\<forall>m \<in> set ms. blockSize dvd bmLength m)"
  using assms by (intro ValidateMappings_Ok_iff) auto

theorem validate_mappings_decides_witness:
  "ValidateMappings [mapA] 16384 4096 = Ok () \<and> ValidateMappings [mapB] 16384 4096 \<noteq> Ok ()"
proof -
  have a: "\<forall>m \<in> set [mapA]. 0 \<le> bmLength m \<and> bmLength m < 9223372036854775808"
    and b: "\<forall>m \<in> set [mapB]. 0 \<le> bmLength m \<and> bmLength m < 9223372036854775808"
    by (simp_all add: mapA_def mapB_def)
  show ?thesis
    using validate_mappings_decides [of 16384 4096 "[mapA]", OF _ _ _ a]
      validate_mappings_decides [of 16384 4096 "[mapB]", OF _ _ _ b]
    by (simp add: mapA_def mapB_def)
qed

text \<open>
  C6.  \<^verbatim>\<open>GetShiftedMapping\<close>, the lookup through the start-block index, implements the abstract lookup: for
  a block-aligned offset inside a well-formed image it returns a build, a storage offset and a
  positive, block-multiple length that stays inside the image, and every byte of the returned run has
  that source.
\<close>

theorem get_shifted_mapping_correct:
  assumes "bitset_laws ops" "header_ok ops h"
    and "0 \<le> off" "off < mdSize (hMetadata h)" "mdBlockSize (hMetadata h) dvd off"
  shows "\<exists>mo ml u. GetShiftedMapping ops h off = Ok (mo, ml, u) \<and> 0 < ml \<and>
    mdBlockSize (hMetadata h) dvd ml \<and> off + ml \<le> mdSize (hMetadata h) \<and> 0 \<le> mo \<and> mo \<le> off \<and>
    (\<forall>k. 0 \<le> k \<and> k < ml \<longrightarrow> lookup_map (hMapping h) (off + k) = Some (u, mo + k))"
  by (rule GetShiftedMapping_Ok [OF assms])

theorem get_shifted_mapping_correct_witness:
  "bitset_laws list_bitset \<and> header_ok list_bitset headerA \<and> (4096 :: int) < mdSize (hMetadata headerA) \<and>
   (\<exists>mo ml u. GetShiftedMapping list_bitset headerA 4096 = Ok (mo, ml, u) \<and> 0 < ml)"
  using get_shifted_mapping_correct [OF list_bitset_laws headerA_ok(2), of 4096]
    list_bitset_laws headerA_ok by auto

text \<open>
  \<^verbatim>\<open>GetShiftedMapping\<close> refuses what it must refuse: on a header of the fixed format version, an
  offset outside the image or not aligned to the block size is an error, never a mapping.
\<close>

theorem get_shifted_mapping_rejects:
  assumes "NormalizeFixVersion \<le> mdVersion (hMetadata h)"
    and "0 < mdBlockSize (hMetadata h)" "mdBlockSize (hMetadata h) < 9223372036854775808"
    and "0 \<le> mdSize (hMetadata h)" "mdSize (hMetadata h) < 9223372036854775808"
    and "off < 0 \<or> mdSize (hMetadata h) \<le> off \<or> \<not> mdBlockSize (hMetadata h) dvd off"
  shows "\<exists>e. GetShiftedMapping ops h off = Fail e"
  using assms
  by (auto simp: GetShiftedMapping_def getMapping_def IsNormalizeFixApplied_def Let_def
      dvd_eq_mod_eq_0 not_less)

theorem get_shifted_mapping_rejects_witness:
  "NormalizeFixVersion \<le> mdVersion (hMetadata headerA) \<and>
   (\<exists>e. GetShiftedMapping list_bitset headerA 16384 = Fail e) \<and>
   (\<exists>e. GetShiftedMapping list_bitset headerA 100 = Fail e)"
proof -
  have v: "NormalizeFixVersion \<le> mdVersion (hMetadata headerA)"
    by (simp add: headerA_ok NormalizeFixVersion_def)
  show ?thesis
    using v get_shifted_mapping_rejects [OF v, of 16384 list_bitset]
      get_shifted_mapping_rejects [OF v, of 100 list_bitset] by (auto simp: headerA_ok)
qed

text \<open>
  C7.  Header files round-trip: \<^verbatim>\<open>DeserializeBytes\<close> of \<^verbatim>\<open>Serialize\<close> gives the header that
  \<^verbatim>\<open>NewHeader\<close> builds from the same metadata and mappings, for every value the 64-bit and 16-byte
  fields can hold.
\<close>

theorem serialize_roundtrip:
  assumes "metadata_ok md" "list_all buildmap_ok ms"
  shows "DeserializeBytes ops (Serialize md ms) = lift_header (NewHeader ops md ms)"
  by (rule DeserializeBytes_Serialize [OF assms])

theorem serialize_roundtrip_witness:
  "metadata_ok mdA \<and> list_all buildmap_ok [mapA] \<and>
   DeserializeBytes list_bitset (Serialize mdA [mapA]) = Ok headerA"
proof -
  have h: "metadata_ok mdA" "list_all buildmap_ok [mapA]"
    by (simp_all add: metadata_ok_def mdA_def NewTemplateMetadata_def buildmap_ok_def mapA_def buildA_def)
  with serialize_roundtrip [OF h, of list_bitset] headerA_ok(1) show ?thesis
    by (simp add: lift_header_def)
qed

text \<open>
  A header file of the wrong length is refused: if \<^verbatim>\<open>DeserializeBytes\<close> accepts, the data is a 64-byte
  metadata record followed by whole 40-byte mapping records.
\<close>

theorem deserialize_length:
  assumes "DeserializeBytes ops data = Ok h"
  shows "64 \<le> length data \<and> 40 dvd length data - 64"
proof (cases "64 \<le> length data")
  case True
  with assms obtain ms where "readMappings (drop 64 data) = Ok ms"
    by (auto simp: DeserializeBytes_def readFull_def)
  from readMappings_length [OF this] True show ?thesis by simp
qed (use assms in \<open>auto simp: DeserializeBytes_def readFull_def split: if_splits\<close>)

theorem deserialize_length_witness:
  "DeserializeBytes list_bitset (Serialize mdA [mapA]) = Ok headerA \<and>
   64 \<le> length (Serialize mdA [mapA])"
proof -
  have h: "metadata_ok mdA" "list_all buildmap_ok [mapA]"
    by (simp_all add: metadata_ok_def mdA_def NewTemplateMetadata_def buildmap_ok_def mapA_def buildA_def)
  have "DeserializeBytes list_bitset (Serialize mdA [mapA]) = Ok headerA"
    using DeserializeBytes_Serialize [OF h, of list_bitset] headerA_ok(1) by (simp add: lift_header_def)
  with deserialize_length [OF this] show ?thesis by blast
qed

end
