(* ===== verification/Set_Once.thy ===== *)
theory Set_Once
  imports E2B_Prelude
begin

text \<open>
  \<^verbatim>\<open>SetOnce\<close> of \<^verbatim>\<open>packages/shared/pkg/utils/set_once.go\<close>: a value or an error that is set once and
  that readers wait for.  The channel \<^verbatim>\<open>Done\<close> is the flag \<open>soDone\<close>; a \<^verbatim>\<open>Wait\<close> on a value that is not set
  blocks, which is the result \<open>None\<close>.  Each method runs under the mutex and is one step.
\<close>

datatype 'e once_error = OnceErr 'e | NotSet | AlreadySet | OnceCtxDone

record ('e, 'a) SetOnce =
  soDone :: bool
  soRes :: "('e + 'a) option"

definition NewSetOnce :: "('e, 'a) SetOnce" where
  "NewSetOnce = \<lparr>soDone = False, soRes = None\<rparr>"

definition setResult :: "('e, 'a) SetOnce \<Rightarrow> 'e + 'a \<Rightarrow> ('e once_error, unit) go \<times> ('e, 'a) SetOnce" where
  "setResult s r =
     (if soDone s then (Fail AlreadySet, s\<lparr>soDone := True\<rparr>)
      else if soRes s \<noteq> None then (Fail AlreadySet, s\<lparr>soDone := True\<rparr>)
      else (Ok (), s\<lparr>soRes := Some r, soDone := True\<rparr>))"

definition SetValue :: "('e, 'a) SetOnce \<Rightarrow> 'a \<Rightarrow> ('e once_error, unit) go \<times> ('e, 'a) SetOnce" where
  "SetValue s v = setResult s (Inr v)"

definition SetError :: "('e, 'a) SetOnce \<Rightarrow> 'e \<Rightarrow> ('e once_error, unit) go \<times> ('e, 'a) SetOnce" where
  "SetError s e = setResult s (Inl e)"

definition SetResult :: "('e, 'a) SetOnce \<Rightarrow> 'a \<Rightarrow> 'e option \<Rightarrow> ('e once_error, unit) go \<times> ('e, 'a) SetOnce" where
  "SetResult s v err = (case err of Some e \<Rightarrow> SetError s e | None \<Rightarrow> SetValue s v)"

definition Result :: "('e, 'a) SetOnce \<Rightarrow> ('e once_error, 'a) go" where
  "Result s =
     (case soRes s of
        None \<Rightarrow> Fail NotSet
      | Some (Inr v) \<Rightarrow> Ok v
      | Some (Inl e) \<Rightarrow> Fail (OnceErr e))"

definition Wait :: "('e, 'a) SetOnce \<Rightarrow> ('e once_error, 'a) go option" where
  "Wait s = (if soDone s then Some (Result s) else None)"

text \<open>\<^verbatim>\<open>select\<close> takes either ready case; \<open>preferCtx\<close> is its choice when both are ready.\<close>

definition WaitWithContext :: "bool \<Rightarrow> bool \<Rightarrow> ('e, 'a) SetOnce \<Rightarrow> ('e once_error, 'a) go option" where
  "WaitWithContext ctxDone preferCtx s =
     (if soDone s \<and> (\<not> ctxDone \<or> \<not> preferCtx) then Some (Result s)
      else if ctxDone then Some (Fail OnceCtxDone)
      else None)"

subsection \<open>Set once, read many\<close>

text \<open>The flag and the value agree in every state that \<^verbatim>\<open>NewSetOnce\<close> and the setters produce.\<close>

definition once_ok :: "('e, 'a) SetOnce \<Rightarrow> bool" where
  "once_ok s \<longleftrightarrow> (soDone s \<longleftrightarrow> soRes s \<noteq> None)"

lemma once_ok_New [simp]: "once_ok NewSetOnce"
  by (simp add: once_ok_def NewSetOnce_def)

lemma once_ok_setResult: "once_ok s \<Longrightarrow> once_ok (snd (setResult s r))"
  by (auto simp: once_ok_def setResult_def)

lemma setResult_first:
  "once_ok s \<Longrightarrow> soDone s = False \<Longrightarrow> setResult s r = (Ok (), \<lparr>soDone = True, soRes = Some r\<rparr>)"
  by (cases s) (simp add: once_ok_def setResult_def)

lemma setResult_again: "once_ok s \<Longrightarrow> soDone s \<Longrightarrow> setResult s r = (Fail AlreadySet, s)"
  by (cases s) (simp add: setResult_def)

fun setAll :: "('e, 'a) SetOnce \<Rightarrow> ('e + 'a) list \<Rightarrow> ('e, 'a) SetOnce" where
  "setAll s [] = s"
| "setAll s (r # rs) = setAll (snd (setResult s r)) rs"

lemma setAll_done: "once_ok s \<Longrightarrow> soDone s \<Longrightarrow> setAll s rs = s"
  by (induction rs) (simp_all add: setResult_again)

lemma Wait_setAll:
  "Wait (setAll NewSetOnce (r # rs)) = Some (case r of Inr v \<Rightarrow> Ok v | Inl e \<Rightarrow> Fail (OnceErr e))"
proof -
  have "snd (setResult NewSetOnce r) = \<lparr>soDone = True, soRes = Some r\<rparr>"
    using setResult_first [OF once_ok_New, of r] by (simp add: NewSetOnce_def)
  then show ?thesis
    using setAll_done [of "\<lparr>soDone = True, soRes = Some r\<rparr>" rs]
    by (simp add: once_ok_def Wait_def Result_def split: sum.splits)
qed

lemma Wait_blocks: "Wait NewSetOnce = None"
  by (simp add: Wait_def NewSetOnce_def)

end
