(* ===== verification/Block_Range.thy ===== *)
theory Block_Range
  imports Header_Create
begin

text \<open>
  Byte ranges and block tracking of the orchestrator's block devices,
  \<^verbatim>\<open>packages/orchestrator/pkg/sandbox/block/range.go\<close>, \<^verbatim>\<open>tracker.go\<close>, \<^verbatim>\<open>iov.go\<close> and the range
  splitting of \<^verbatim>\<open>cache.go\<close>.
\<close>

subsection \<open>range.go\<close>

record Range =
  rStart :: int
  rSize :: int

definition range_End :: "Range \<Rightarrow> int" where
  "range_End r = i64 (rStart r + rSize r)"

definition NewRange :: "int \<Rightarrow> int \<Rightarrow> Range" where
  "NewRange start sz = \<lparr>rStart = start, rSize = sz\<rparr>"

definition NewRangeFromBlocks :: "int \<Rightarrow> int \<Rightarrow> int \<Rightarrow> Range" where
  "NewRangeFromBlocks startIdx numberOfBlocks blockSize =
     \<lparr>rStart = BlockOffset startIdx blockSize, rSize = BlockOffset numberOfBlocks blockSize\<rparr>"

text \<open>
  \<^verbatim>\<open>BitsetRanges\<close> is an iterator; this is the list of the ranges it yields to a consumer that never
  stops it.  The loop follows an unknown bit set, so it may not end: \<open>None\<close>.
\<close>

partial_function (option) rangesLoop ::
  "'b bitset_ops \<Rightarrow> 'b \<Rightarrow> int \<Rightarrow> int option \<Rightarrow> Range list \<Rightarrow> Range list option" where
  "rangesLoop ops b blockSize nxt yielded =
     (case nxt of
        None \<Rightarrow> Some yielded
      | Some start \<Rightarrow>
          (case bs_NextClear ops b start of
             None \<Rightarrow>
               Some (yielded @ [NewRangeFromBlocks (i64 start) (i64 (u64 (bs_Len ops b - start))) blockSize])
           | Some end' \<Rightarrow>
               rangesLoop ops b blockSize (bs_NextSet ops b (u64 (end' + 1)))
                 (yielded @ [NewRangeFromBlocks (i64 start) (i64 (u64 (end' - start))) blockSize])))"

definition BitsetRanges :: "'b bitset_ops \<Rightarrow> 'b \<Rightarrow> int \<Rightarrow> Range list option" where
  "BitsetRanges ops b blockSize = rangesLoop ops b blockSize (bs_NextSet ops b 0) []"

definition GetSize :: "Range list \<Rightarrow> int" where
  "GetSize rs = fold (\<lambda>r sz. i64 (sz + rSize r)) rs 0"

subsection \<open>tracker.go\<close>

record 'b Tracker =
  tBitset :: 'b
  tBlockSize :: int

definition NewTracker :: "'b bitset_ops \<Rightarrow> int \<Rightarrow> 'b Tracker" where
  "NewTracker ops blockSize = \<lparr>tBitset = bs_New ops 0, tBlockSize = blockSize\<rparr>"

definition tracker_Has :: "'b bitset_ops \<Rightarrow> 'b Tracker \<Rightarrow> int \<Rightarrow> ('e, bool) go" where
  "tracker_Has ops t off =
     go_bind (BlockIdx off (tBlockSize t)) (\<lambda>i. Ok (bs_Test ops (tBitset t) (u64 i)))"

definition tracker_Add :: "'b bitset_ops \<Rightarrow> 'b Tracker \<Rightarrow> int \<Rightarrow> ('e, 'b Tracker) go" where
  "tracker_Add ops t off =
     go_bind (BlockIdx off (tBlockSize t)) (\<lambda>i.
       Ok (t\<lparr>tBitset := bs_Set ops (tBitset t) (u64 i)\<rparr>))"

definition tracker_Reset :: "'b bitset_ops \<Rightarrow> 'b Tracker \<Rightarrow> 'b Tracker" where
  "tracker_Reset ops t = t\<lparr>tBitset := bs_ClearAll ops (tBitset t)\<rparr>"

definition tracker_Clone :: "'b Tracker \<Rightarrow> 'b Tracker" where
  "tracker_Clone t = \<lparr>tBitset = tBitset t, tBlockSize = tBlockSize t\<rparr>"

text \<open>
  \<^verbatim>\<open>Offsets\<close>: \<^verbatim>\<open>EachSet\<close> visits the set bits in increasing order, which is what following
  \<^verbatim>\<open>NextSet\<close> from 0 does.
\<close>

partial_function (option) eachSet :: "'b bitset_ops \<Rightarrow> 'b \<Rightarrow> int option \<Rightarrow> int list \<Rightarrow> int list option" where
  "eachSet ops b nxt acc =
     (case nxt of
        None \<Rightarrow> Some acc
      | Some i \<Rightarrow> eachSet ops b (bs_NextSet ops b (u64 (i + 1))) (acc @ [i]))"

definition tracker_Offsets :: "'b bitset_ops \<Rightarrow> 'b Tracker \<Rightarrow> int list option" where
  "tracker_Offsets ops t =
     map_option (map (\<lambda>i. BlockOffset (i64 i) (tBlockSize t)))
       (eachSet ops (tBitset t) (bs_NextSet ops (tBitset t) 0) [])"

subsection \<open>iov.go and splitOversizedRanges\<close>

definition getAlignedMaxRwCount :: "int \<Rightarrow> int \<Rightarrow> ('e, int) go" where
  "getAlignedMaxRwCount maxRwCount blockSize =
     (if blockSize = 0 then Panic else Ok (i64 (i64 (maxRwCount sdiv blockSize) * blockSize)))"

text \<open>
  The inner loop of \<^verbatim>\<open>splitOversizedRanges\<close> adds \<^verbatim>\<open>maxSize\<close> to \<^verbatim>\<open>offset\<close> until it reaches the size
  of the range.  It does not end when \<^verbatim>\<open>maxSize\<close> is not positive: \<open>None\<close>.
\<close>

partial_function (option) splitLoop :: "Range \<Rightarrow> int \<Rightarrow> int \<Rightarrow> Range list \<Rightarrow> Range list option" where
  "splitLoop r maxSize offset acc =
     (if offset < rSize r
      then splitLoop r maxSize (i64 (offset + maxSize))
             (acc @ [\<lparr>rStart = i64 (rStart r + offset), rSize = min (i64 (rSize r - offset)) maxSize\<rparr>])
      else Some acc)"

fun splitOversizedRanges :: "Range list \<Rightarrow> int \<Rightarrow> Range list option" where
  "splitOversizedRanges [] maxSize = Some []"
| "splitOversizedRanges (r # rs) maxSize = do {
     xs \<leftarrow> (if rSize r \<le> maxSize then Some [r] else splitLoop r maxSize 0 []);
     ys \<leftarrow> splitOversizedRanges rs maxSize;
     Some (xs @ ys)
   }"

subsection \<open>BitsetRanges covers the set bits\<close>

text \<open>The blocks of the yielded ranges, in order.\<close>

definition range_blocks :: "int \<Rightarrow> Range \<Rightarrow> int list" where
  "range_blocks bs r = [rStart r div bs..(rStart r + rSize r) div bs - 1]"

abbreviation blocks_of :: "int \<Rightarrow> Range list \<Rightarrow> int list" where
  "blocks_of bs rs \<equiv> concat (map (range_blocks bs) rs)"

definition block_range :: "int \<Rightarrow> Range \<Rightarrow> bool" where
  "block_range bs r \<longleftrightarrow> 0 \<le> rStart r \<and> 0 < rSize r \<and> bs dvd rStart r \<and> bs dvd rSize r"

lemma range_blocks_run:
  assumes "0 < bs" "0 \<le> st" "0 \<le> n" "(st + n) * bs < 9223372036854775808"
  shows "range_blocks bs (NewRangeFromBlocks st n bs) = [st..st + n - 1]"
    "rStart (NewRangeFromBlocks st n bs) = st * bs" "rSize (NewRangeFromBlocks st n bs) = n * bs"
proof -
  have "0 \<le> st * bs" "0 \<le> n * bs" using assms by auto
  moreover have "st * bs + n * bs < 9223372036854775808" using assms(4) by (simp add: distrib_right)
  ultimately have *: "st * bs < 9223372036854775808" "n * bs < 9223372036854775808" by linarith+
  show "rStart (NewRangeFromBlocks st n bs) = st * bs" "rSize (NewRangeFromBlocks st n bs) = n * bs"
    using assms * by (simp_all add: NewRangeFromBlocks_def)
  then show "range_blocks bs (NewRangeFromBlocks st n bs) = [st..st + n - 1]"
    using assms by (simp add: range_blocks_def distrib_right [symmetric])
qed

lemma NextClear_Some:
  "bitset_laws ops \<Longrightarrow> 0 \<le> i \<Longrightarrow> bs_NextClear ops b i = Some j \<longleftrightarrow>
     i \<le> j \<and> j < bs_Len ops b \<and> j \<notin> members ops b \<and> (\<forall>k. i \<le> k \<and> k < j \<longrightarrow> k \<in> members ops b)"
  by (simp add: members_def bitset_laws_def)

lemma NextClear_None:
  assumes "bitset_laws ops" "0 \<le> i" "bs_NextClear ops b i = None" "i \<le> k" "k < bs_Len ops b"
  shows "k \<in> members ops b"
proof (rule ccontr)
  assume k: "k \<notin> members ops b"
  let ?S = "{j \<in> {i..k}. j \<notin> members ops b}"
  have fin: "finite ?S" by (rule finite_subset [of _ "{i..k}"]) auto
  have ne: "?S \<noteq> {}" using k assms by auto
  have "bs_NextClear ops b i = Some (Min ?S)"
    using Min_in [OF fin ne] Min_le [OF fin] assms by (subst NextClear_Some) fastforce+
  with assms show False by simp
qed

lemma sorted_members_split:
  assumes "finite M" shows "sorted_list_of_set M = sorted_list_of_set {i \<in> M. i < p} @ sorted_list_of_set {i \<in> M. (p::int) \<le> i}"
proof (rule sorted_distinct_set_unique)
  show "sorted (sorted_list_of_set {i \<in> M. i < p} @ sorted_list_of_set {i \<in> M. p \<le> i})"
    using assms by (auto simp: sorted_append)
  show "distinct (sorted_list_of_set {i \<in> M. i < p} @ sorted_list_of_set {i \<in> M. p \<le> i})"
    using assms by auto
qed (use assms in auto)

lemma sorted_members_run:
  assumes fin: "finite M" and run: "{st..<e} \<subseteq> M" and "p \<le> st" "st \<le> (e::int)"
    and gap: "\<And>k. p \<le> k \<Longrightarrow> k < st \<Longrightarrow> k \<notin> M"
  shows "sorted_list_of_set {i \<in> M. i < e} = sorted_list_of_set {i \<in> M. i < p} @ [st..e - 1]"
proof -
  have "{i \<in> M. i < e} = {i \<in> M. i < p} \<union> {st..<e}"
    using assms(2-4) gap by (auto simp: subset_iff) (meson linorder_not_less)
  moreover have "sorted_list_of_set ({i \<in> M. i < p} \<union> {st..<e}) =
      sorted_list_of_set {i \<in> M. i < p} @ [st..e - 1]"
  proof (rule sorted_distinct_set_unique)
    show "sorted (sorted_list_of_set {i \<in> M. i < p} @ [st..e - 1])"
      using assms by (auto simp: sorted_append)
    show "distinct (sorted_list_of_set {i \<in> M. i < p} @ [st..e - 1])"
      using assms by auto
  qed (use fin in auto)
  ultimately show ?thesis by simp
qed

lemma members_below_Len:
  "bitset_laws ops \<Longrightarrow> k \<in> members ops b \<Longrightarrow> 0 \<le> k \<and> k < bs_Len ops b"
  by (auto simp: members_def bitset_laws_def)

text \<open>
  One step of the iterator: the run of set bits that starts at the next set bit, and where the
  search goes on.
\<close>

lemma rangesLoop_step:
  assumes laws: "bitset_laws ops" and bs: "0 < bs" and len: "bs_Len ops b * bs < 9223372036854775808"
    and p: "0 \<le> p" and nxt: "bs_NextSet ops b p = Some st"
  obtains e where "p \<le> st" "st < e" "e \<le> bs_Len ops b" "{st..<e} \<subseteq> members ops b" "e \<notin> members ops b"
    "\<And>k. p \<le> k \<Longrightarrow> k < st \<Longrightarrow> k \<notin> members ops b"
    "range_blocks bs (NewRangeFromBlocks st (e - st) bs) = [st..e - 1]"
    "rSize (NewRangeFromBlocks st (e - st) bs) = (e - st) * bs"
    "rStart (NewRangeFromBlocks st (e - st) bs) = st * bs"
    "rangesLoop ops b bs (Some st) acc =
       (if e < bs_Len ops b
        then rangesLoop ops b bs (bs_NextSet ops b (e + 1)) (acc @ [NewRangeFromBlocks st (e - st) bs])
        else Some (acc @ [NewRangeFromBlocks st (e - st) bs]))"
proof -
  let ?M = "members ops b" and ?L = "bs_Len ops b"
  from nxt p laws have st: "p \<le> st" "st \<in> ?M" "\<And>k. p \<le> k \<Longrightarrow> k < st \<Longrightarrow> k \<notin> ?M"
    by (auto simp: NextSet_Some)
  have stL: "st < ?L" using members_below_Len [OF laws st(2)] by simp
  have small: "k * bs < 9223372036854775808" "k < 9223372036854775808" if "k \<le> ?L" "0 \<le> k" for k
  proof -
    have "k * bs \<le> ?L * bs" using that bs by (intro mult_right_mono) auto
    then show *: "k * bs < 9223372036854775808" using len by linarith
    have "k * 1 \<le> k * bs" using that bs by (intro mult_left_mono) auto
    then show "k < 9223372036854775808" using * by linarith
  qed
  have st0: "0 \<le> st" using p st by simp
  define e where "e = (case bs_NextClear ops b st of None \<Rightarrow> ?L | Some e \<Rightarrow> e)"
  have e: "st < e \<and> e \<le> ?L \<and> {st..<e} \<subseteq> ?M \<and> e \<notin> ?M \<and> (e < ?L \<longleftrightarrow> bs_NextClear ops b st = Some e)"
  proof (cases "bs_NextClear ops b st")
    case None
    then show ?thesis using NextClear_None [OF laws st0 None] stL members_below_Len [OF laws]
      by (auto simp: e_def)
  next
    case (Some e')
    then show ?thesis using NextClear_Some [OF laws st0, of b e'] st(2)
      by (auto simp: e_def le_less)
  qed
  have e_small: "e < 9223372036854775808" "e * bs < 9223372036854775808" using small e st0 by auto
  note rb = range_blocks_run [OF bs st0, of "e - st"]
  show thesis
  proof (rule that [of e])
    show "range_blocks bs (NewRangeFromBlocks st (e - st) bs) = [st..e - 1]"
      "rSize (NewRangeFromBlocks st (e - st) bs) = (e - st) * bs"
      "rStart (NewRangeFromBlocks st (e - st) bs) = st * bs"
      using rb e e_small by auto
    show "rangesLoop ops b bs (Some st) acc =
       (if e < ?L
        then rangesLoop ops b bs (bs_NextSet ops b (e + 1)) (acc @ [NewRangeFromBlocks st (e - st) bs])
        else Some (acc @ [NewRangeFromBlocks st (e - st) bs]))"
    proof (cases "bs_NextClear ops b st")
      case None
      then have "e = ?L" by (simp add: e_def)
      with None e_small e st0 show ?thesis by (subst rangesLoop.simps) simp
    next
      case (Some e')
      then have "e' = e" by (simp add: e_def)
      with Some e_small e st0 show ?thesis by (subst rangesLoop.simps) simp
    qed
  qed (use st e in auto)
qed

lemma rangesLoop_blocks:
  assumes laws: "bitset_laws ops" and bs: "0 < bs" and len: "bs_Len ops b * bs < 9223372036854775808"
    and p: "0 \<le> p" and acc: "blocks_of bs acc = sorted_list_of_set {i \<in> members ops b. i < p}"
    and pos: "\<forall>r \<in> set acc. block_range bs r"
  shows "\<exists>rs. rangesLoop ops b bs (bs_NextSet ops b p) acc = Some rs \<and>
    blocks_of bs rs = sorted_list_of_set (members ops b) \<and> (\<forall>r \<in> set rs. block_range bs r)"
  using p acc pos
proof (induction "card {i \<in> members ops b. p \<le> i}" arbitrary: p acc rule: less_induct)
  case less
  let ?M = "members ops b"
  note fin = finite_members [OF laws, of b]
  show ?case
  proof (cases "bs_NextSet ops b p")
    case None
    then have "{i \<in> ?M. i < p} = ?M" using NextSet_None [OF laws less.prems(1) None] by auto
    with None less.prems show ?thesis by (simp add: rangesLoop.simps)
  next
    case (Some st)
    obtain e where st: "p \<le> st" "st < e" "e \<le> bs_Len ops b" "{st..<e} \<subseteq> ?M" "e \<notin> ?M"
      "\<And>k. p \<le> k \<Longrightarrow> k < st \<Longrightarrow> k \<notin> ?M"
      and rb: "range_blocks bs (NewRangeFromBlocks st (e - st) bs) = [st..e - 1]"
        "rSize (NewRangeFromBlocks st (e - st) bs) = (e - st) * bs"
        "rStart (NewRangeFromBlocks st (e - st) bs) = st * bs"
      and step: "rangesLoop ops b bs (Some st) acc =
       (if e < bs_Len ops b
        then rangesLoop ops b bs (bs_NextSet ops b (e + 1)) (acc @ [NewRangeFromBlocks st (e - st) bs])
        else Some (acc @ [NewRangeFromBlocks st (e - st) bs]))"
      by (rule rangesLoop_step [OF laws bs len less.prems(1) Some, where acc = acc]) blast
    let ?acc = "acc @ [NewRangeFromBlocks st (e - st) bs]"
    have upto_e: "blocks_of bs ?acc = sorted_list_of_set {i \<in> ?M. i < e}"
      using sorted_members_run [OF fin st(4) st(1) _ st(6)] st(2) less.prems(2) rb by simp
    have pos': "\<forall>r \<in> set ?acc. block_range bs r" using less.prems(1,3) rb(2,3) st(1,2) bs
      by (auto simp: block_range_def)
    show ?thesis
    proof (cases "e < bs_Len ops b")
      case True
      have "{i \<in> ?M. i < e + 1} = {i \<in> ?M. i < e}" using st(5) by (auto simp: le_less)
      then have "blocks_of bs ?acc = sorted_list_of_set {i \<in> ?M. i < e + 1}" using upto_e by simp
      moreover have "{i \<in> ?M. e + 1 \<le> i} \<subset> {i \<in> ?M. p \<le> i}"
        using st(1,2,4) by (auto intro!: psubsetI dest!: equalityD2 simp: subset_iff)
      then have "card {i \<in> ?M. e + 1 \<le> i} < card {i \<in> ?M. p \<le> i}"
        using fin by (intro psubset_card_mono) auto
      ultimately show ?thesis
        using less.hyps [of "e + 1" ?acc] pos' True step Some st(1,2) less.prems(1) by simp
    next
      case False
      then have "{i \<in> ?M. i < e} = ?M" using members_below_Len [OF laws] st(3) by fastforce
      with False step Some upto_e pos' show ?thesis by auto
    qed
  qed
qed

lemma BitsetRanges_blocks:
  assumes "bitset_laws ops" "0 < bs" "bs_Len ops b * bs < 9223372036854775808"
  obtains rs where "BitsetRanges ops b bs = Some rs"
    "blocks_of bs rs = sorted_list_of_set (members ops b)" "\<forall>r \<in> set rs. block_range bs r"
proof -
  have "{i \<in> members ops b. i < 0} = {}" using members_below_Len [OF assms(1)] by force
  then have "blocks_of bs [] = sorted_list_of_set {i \<in> members ops b. i < 0}" by (simp only:) simp
  from rangesLoop_blocks [OF assms _ this] that show thesis
    by (auto simp: BitsetRanges_def)
qed

subsection \<open>Splitting keeps the bytes\<close>

definition range_bytes :: "Range \<Rightarrow> int list" where
  "range_bytes r = [rStart r..rStart r + rSize r - 1]"

abbreviation bytes_of :: "Range list \<Rightarrow> int list" where
  "bytes_of rs \<equiv> concat (map range_bytes rs)"

definition range_ok :: "int \<Rightarrow> Range \<Rightarrow> bool" where
  "range_ok maxSize r \<longleftrightarrow> 0 \<le> rStart r \<and> 0 < rSize r \<and>
     rStart r + rSize r + maxSize < 9223372036854775808"

lemma splitLoop_pieces:
  assumes max: "0 < maxSize" and ok: "range_ok maxSize r" and "0 \<le> off" "off \<le> rSize r + maxSize"
  shows "\<exists>rs. splitLoop r maxSize off acc = Some (acc @ rs) \<and>
    bytes_of rs = [rStart r + off..rStart r + rSize r - 1] \<and>
    (\<forall>q \<in> set rs. 0 < rSize q \<and> rSize q \<le> maxSize \<and> rStart r \<le> rStart q \<and>
      rStart q + rSize q \<le> rStart r + rSize r)"
  using assms(3,4)
proof (induction "nat (rSize r - off)" arbitrary: off acc rule: less_induct)
  case less
  show ?case
  proof (cases "off < rSize r")
    case False
    then show ?thesis by (subst splitLoop.simps) simp
  next
    case True
    let ?q = "\<lparr>rStart = rStart r + off, rSize = min (rSize r - off) maxSize\<rparr>"
    let ?acc = "acc @ [?q]"
    have wrap: "i64 (off + maxSize) = off + maxSize" "i64 (rStart r + off) = rStart r + off"
      "i64 (rSize r - off) = rSize r - off"
      using True less.prems max ok by (auto simp: range_ok_def)
    have step: "splitLoop r maxSize off acc = splitLoop r maxSize (off + maxSize) ?acc"
      using True by (subst splitLoop.simps) (simp add: wrap)
    have "nat (rSize r - (off + maxSize)) < nat (rSize r - off)" using True max by linarith
    from less.hyps [OF this, of ?acc] less.prems True max obtain rs where
      rs: "splitLoop r maxSize (off + maxSize) ?acc = Some (?acc @ rs)"
        "bytes_of rs = [rStart r + (off + maxSize)..rStart r + rSize r - 1]"
        "\<forall>q \<in> set rs. 0 < rSize q \<and> rSize q \<le> maxSize \<and> rStart r \<le> rStart q \<and>
           rStart q + rSize q \<le> rStart r + rSize r"
      by auto
    have "range_bytes ?q @ [rStart r + (off + maxSize)..rStart r + rSize r - 1] =
        [rStart r + off..rStart r + rSize r - 1]"
    proof (cases "off + maxSize \<le> rSize r")
      case True
      then show ?thesis
        using upto_split1 [of "rStart r + off" "rStart r + off + maxSize" "rStart r + rSize r - 1"] max
        by (cases "off + maxSize = rSize r")
          (simp_all add: range_bytes_def min_def add.assoc algebra_simps)
    next
      case False
      then show ?thesis by (simp add: range_bytes_def min_def)
    qed
    then have "bytes_of (?q # rs) = [rStart r + off..rStart r + rSize r - 1]" using rs(2) by simp
    moreover have "\<forall>q \<in> set (?q # rs). 0 < rSize q \<and> rSize q \<le> maxSize \<and> rStart r \<le> rStart q \<and>
        rStart q + rSize q \<le> rStart r + rSize r"
      using rs(3) True max less.prems by auto
    ultimately show ?thesis using step rs(1) by (intro exI [of _ "?q # rs"]) simp
  qed
qed

lemma splitOversizedRanges_pieces:
  assumes "0 < maxSize" "\<forall>r \<in> set rs. range_ok maxSize r"
  shows "\<exists>qs. splitOversizedRanges rs maxSize = Some qs \<and> bytes_of qs = bytes_of rs \<and>
    (\<forall>q \<in> set qs. range_ok maxSize q \<and> rSize q \<le> maxSize)"
  using assms(2)
proof (induction rs)
  case (Cons r rs)
  then obtain qs where qs: "splitOversizedRanges rs maxSize = Some qs" "bytes_of qs = bytes_of rs"
    "\<forall>q \<in> set qs. range_ok maxSize q \<and> rSize q \<le> maxSize" by auto
  have r: "range_ok maxSize r" using Cons by simp
  show ?case
  proof (cases "rSize r \<le> maxSize")
    case True
    with qs r show ?thesis by (intro exI [of _ "r # qs"]) simp
  next
    case False
    from splitLoop_pieces [OF assms(1) r, of 0 "[]"] r assms(1) obtain xs where
      xs: "splitLoop r maxSize 0 [] = Some xs" "bytes_of xs = range_bytes r"
      "\<forall>q \<in> set xs. 0 < rSize q \<and> rSize q \<le> maxSize \<and> rStart r \<le> rStart q \<and>
        rStart q + rSize q \<le> rStart r + rSize r"
      by (auto simp: range_bytes_def range_ok_def)
    have "\<forall>q \<in> set xs. range_ok maxSize q \<and> rSize q \<le> maxSize"
      using xs(3) r by (fastforce simp: range_ok_def)
    with False xs qs show ?thesis by (intro exI [of _ "xs @ qs"]) auto
  qed
qed simp

subsection \<open>Tracker\<close>

lemma tracker_Has_Add:
  assumes "bitset_laws ops" "0 < tBlockSize t" "0 \<le> off" "0 \<le> off'"
    "off < 9223372036854775808" "off' < 9223372036854775808"
  shows "\<exists>t' b. tracker_Add ops t off = Ok t' \<and> tBlockSize t' = tBlockSize t \<and> tracker_Has ops t off' = Ok b \<and>
    tracker_Has ops t' off' = Ok (off' div tBlockSize t = off div tBlockSize t \<or> b)"
proof -
  have "0 \<le> off div tBlockSize t" "off div tBlockSize t \<le> off"
    "0 \<le> off' div tBlockSize t" "off' div tBlockSize t \<le> off'"
    using assms by (auto simp: pos_imp_zdiv_nonneg_iff div_le_dividend_int)
  then show ?thesis
    using assms by (auto simp: tracker_Add_def tracker_Has_def BlockIdx_def bitset_laws_def)
qed

lemma tracker_Has_Reset:
  assumes "bitset_laws ops" "tBlockSize t \<noteq> 0"
  shows "tracker_Has ops (tracker_Reset ops t) off = Ok False"
  using assms by (auto simp: tracker_Reset_def tracker_Has_def BlockIdx_def bitset_laws_def)

lemma eachSet_members:
  assumes laws: "bitset_laws ops" and len: "bs_Len ops b < 18446744073709551616"
    and "0 \<le> p" "acc = sorted_list_of_set {i \<in> members ops b. i < p}"
  shows "eachSet ops b (bs_NextSet ops b p) acc = Some (sorted_list_of_set (members ops b))"
  using assms(3,4)
proof (induction "card {i \<in> members ops b. p \<le> i}" arbitrary: p acc rule: less_induct)
  case less
  let ?M = "members ops b"
  note fin = finite_members [OF laws, of b]
  show ?case
  proof (cases "bs_NextSet ops b p")
    case None
    then have "{i \<in> ?M. i < p} = ?M" using NextSet_None [OF laws less.prems(1) None] by auto
    with None less.prems show ?thesis by (simp add: eachSet.simps)
  next
    case (Some st)
    with less.prems laws have st: "p \<le> st" "st \<in> ?M" "\<And>k. p \<le> k \<Longrightarrow> k < st \<Longrightarrow> k \<notin> ?M"
      by (auto simp: NextSet_Some)
    have "st < bs_Len ops b" using members_below_Len [OF laws st(2)] by simp
    then have "u64 (st + 1) = st + 1" using len st less.prems by simp
    then have step: "eachSet ops b (Some st) acc = eachSet ops b (bs_NextSet ops b (st + 1)) (acc @ [st])"
      by (subst eachSet.simps) simp
    have "acc @ [st] = sorted_list_of_set {i \<in> ?M. i < st + 1}"
      using sorted_members_run [OF fin _ st(1) _ st(3), where e = "st + 1"] st(2) less.prems(2) by fastforce
    moreover have "{i \<in> ?M. st + 1 \<le> i} \<subset> {i \<in> ?M. p \<le> i}"
      using st(1,2) by (auto intro!: psubsetI dest!: equalityD2 simp: subset_iff)
    then have "card {i \<in> ?M. st + 1 \<le> i} < card {i \<in> ?M. p \<le> i}"
      using fin by (intro psubset_card_mono) auto
    ultimately show ?thesis using less.hyps [of "st + 1"] step Some st(1) less.prems(1) by simp
  qed
qed

end
