(* ===== verification/Block_Cache.thy ===== *)
theory Block_Cache
  imports Block_Range Header_Diff
begin

text \<open>
  The block cache, \<^verbatim>\<open>packages/orchestrator/pkg/sandbox/block/cache.go\<close>: a memory-mapped file
  and the set of the block offsets that hold data.  The overlay of a sandbox's root file system,
  the diffs of earlier builds and the chunks fetched from storage are all kept in such a cache.

  State.  \<open>cMmap\<close> is \<open>None\<close> for the nil pointer of a cache of size zero and the mapped bytes
  otherwise; the mapping is shared, so the bytes are also the contents of the file at
  \<open>cFilePath\<close>.  \<open>cDirty\<close> is the key set of the \<^verbatim>\<open>sync.Map\<close>.  A method that writes returns the new
  cache; the mutex makes each method a single step.  The caller's buffers have
  their length as capacity.  Wrapping an error with \<^verbatim>\<open>%w\<close> keeps it recognisable to
  \<^verbatim>\<open>errors.As\<close>, so a wrapped error is the error.
\<close>

datatype cache_error =
    CacheClosed string
  | BytesNotAvailable
  | OpenFailed
  | AllocateFailed
  | MapFailed
  | UnmapFailed
  | RemoveFailed
  | OutOfBounds int
  | CopyRangeFailed
  | CopyRangeZero int
  | SeekFailed
  | StatFailed
  | CopyFailed
  | ContextDone
  | ReadMemoryFailed
  | ReadMemoryShort int int
  | BothErrors cache_error cache_error

record Cache =
  cFilePath :: string
  cSize :: int
  cBlockSize :: int
  cMmap :: "byte list option"
  cDirty :: "int set"
  cDirtyFile :: bool
  cClosed :: bool

text \<open>
  The file system's answers to one \<^verbatim>\<open>NewCache\<close>: the contents of the opened file (\<open>None\<close> when it
  cannot be opened) and whether truncating and mapping succeed.
\<close>

record file_env =
  feOpen :: "byte list option"
  feTruncate :: bool
  feMap :: bool

definition file_resize :: "byte list \<Rightarrow> nat \<Rightarrow> byte list" where
  "file_resize content n = take n content @ replicate (n - length content) 0"

definition NewCache :: "file_env \<Rightarrow> int \<Rightarrow> int \<Rightarrow> string \<Rightarrow> bool \<Rightarrow> (cache_error, Cache) go" where
  "NewCache env sz blockSize filePath dirtyFile =
     (case feOpen env of
        None \<Rightarrow> Fail OpenFailed
      | Some content \<Rightarrow>
          if sz = 0 then
            Ok \<lparr>cFilePath = filePath, cSize = sz, cBlockSize = blockSize, cMmap = None, cDirty = {},
                cDirtyFile = dirtyFile, cClosed = False\<rparr>
          else if sz < 0 \<or> \<not> feTruncate env then Fail AllocateFailed
          else if \<not> feMap env then Fail MapFailed
          else
            Ok \<lparr>cFilePath = filePath, cSize = sz, cBlockSize = blockSize,
                cMmap = Some (file_resize content (nat sz)), cDirty = {},
                cDirtyFile = dirtyFile, cClosed = False\<rparr>)"

definition isClosed :: "Cache \<Rightarrow> bool" where
  "isClosed c = cClosed c"

subsection \<open>Reading\<close>

definition isCached :: "Cache \<Rightarrow> int \<Rightarrow> int \<Rightarrow> (cache_error, bool) go" where
  "isCached c off len =
     (if cSize c \<le> off then Ok False
      else
        let end' = min (i64 (off + len)) (cSize c);
            len' = i64 (end' - off)
        in go_bind (BlocksOffsets len' (cBlockSize c)) (\<lambda>offs.
             Ok (list_all (\<lambda>blockOff. i64 (off + blockOff) \<in> cDirty c) offs)))"

definition cache_Slice :: "Cache \<Rightarrow> int \<Rightarrow> int \<Rightarrow> (cache_error, byte list) go" where
  "cache_Slice c off len =
     (if isClosed c then Fail (CacheClosed (cFilePath c))
      else
        (case cMmap c of
           None \<Rightarrow> Ok []
         | Some mm \<Rightarrow>
             go_bind (if cDirtyFile c then Ok True else isCached c off len) (\<lambda>available.
               if available then
                 (case go_slice mm off (min (i64 (off + len)) (cSize c)) of
                    None \<Rightarrow> Panic
                  | Some s \<Rightarrow> Ok s)
               else Fail BytesNotAvailable)))"

text \<open>\<^verbatim>\<open>ReadAt\<close> returns the number of bytes read and the caller's buffer afterwards.\<close>

definition cache_ReadAt :: "Cache \<Rightarrow> byte list \<Rightarrow> int \<Rightarrow> (cache_error, int \<times> byte list) go" where
  "cache_ReadAt c b off =
     (if cMmap c = None then Ok (0, b)
      else if isClosed c then Fail (CacheClosed (cFilePath c))
      else
        go_bind (cache_Slice c off (int (length b))) (\<lambda>s.
          Ok (int (min (length b) (length s)), go_copy b s)))"

definition cache_Size :: "Cache \<Rightarrow> (cache_error, int) go" where
  "cache_Size c = (if isClosed c then Fail (CacheClosed (cFilePath c)) else Ok (cSize c))"

definition address :: "Cache \<Rightarrow> int \<Rightarrow> (cache_error, int option) go" where
  "address c off =
     (case cMmap c of
        None \<Rightarrow> Ok None
      | Some mm \<Rightarrow>
          if cSize c \<le> off then Fail (OutOfBounds off)
          else if 0 \<le> off \<and> off < int (length mm) then Ok (Some off) else Panic)"

definition addressBytes :: "Cache \<Rightarrow> int \<Rightarrow> int \<Rightarrow> (cache_error, byte list) go" where
  "addressBytes c off len =
     (case cMmap c of
        None \<Rightarrow> Ok []
      | Some mm \<Rightarrow>
          if isClosed c then Fail (CacheClosed (cFilePath c))
          else if cSize c \<le> off then Fail (OutOfBounds off)
          else
            (case go_slice mm off (min (i64 (off + len)) (cSize c)) of
               None \<Rightarrow> Panic
             | Some s \<Rightarrow> Ok s))"

subsection \<open>Writing\<close>

definition setIsCached :: "Cache \<Rightarrow> int \<Rightarrow> int \<Rightarrow> (cache_error, Cache) go" where
  "setIsCached c off len =
     go_bind (BlocksOffsets len (cBlockSize c)) (\<lambda>offs.
       Ok (c\<lparr>cDirty := cDirty c \<union> set (map (\<lambda>blockOff. i64 (off + blockOff)) offs)\<rparr>))"

definition WriteAtWithoutLock :: "Cache \<Rightarrow> byte list \<Rightarrow> int \<Rightarrow> (cache_error, int \<times> Cache) go" where
  "WriteAtWithoutLock c b off =
     (if isClosed c then Fail (CacheClosed (cFilePath c))
      else
        (case cMmap c of
           None \<Rightarrow> Ok (0, c)
         | Some mm \<Rightarrow>
             let end' = min (i64 (off + int (length b))) (cSize c)
             in (case go_slice mm off end' of
                   None \<Rightarrow> Panic
                 | Some dst \<Rightarrow>
                     go_bind (setIsCached (c\<lparr>cMmap := Some (write_slice mm (nat off) (go_copy dst b))\<rparr>)
                                off (i64 (end' - off))) (\<lambda>c'.
                       Ok (int (min (length dst) (length b)), c')))))"

definition cache_WriteAt :: "Cache \<Rightarrow> byte list \<Rightarrow> int \<Rightarrow> (cache_error, int \<times> Cache) go" where
  "cache_WriteAt c b off =
     (if cMmap c = None then Ok (0, c)
      else if isClosed c then Fail (CacheClosed (cFilePath c))
      else WriteAtWithoutLock c b off)"

text \<open>
  \<^verbatim>\<open>Close\<close> changes the cache even when it returns an error.  Unmapping leaves a nil slice behind
  the pointer.
\<close>

definition cache_Close :: "bool \<Rightarrow> bool \<Rightarrow> Cache \<Rightarrow> Cache \<times> (cache_error, unit) go" where
  "cache_Close unmapOk removeOk c =
     (if cMmap c = None then (c, if removeOk then Ok () else Fail RemoveFailed)
      else if cClosed c then (c, Fail (CacheClosed (cFilePath c)))
      else
        (c\<lparr>cClosed := True, cMmap := Some []\<rparr>,
         if unmapOk then (if removeOk then Ok () else Fail RemoveFailed)
         else (if removeOk then Fail UnmapFailed else Fail (BothErrors UnmapFailed RemoveFailed))))"

text \<open>\<^verbatim>\<open>FileSize\<close> from the answers of \<^verbatim>\<open>stat\<close> and \<^verbatim>\<open>statfs\<close> (\<open>None\<close> when the call fails).\<close>

definition cache_FileSize :: "int option \<Rightarrow> int option \<Rightarrow> (cache_error, int) go" where
  "cache_FileSize statBlocks fsBsize =
     (case statBlocks of
        None \<Rightarrow> Fail StatFailed
      | Some blocks \<Rightarrow>
          (case fsBsize of None \<Rightarrow> Fail StatFailed | Some bsize \<Rightarrow> Ok (i64 (blocks * bsize))))"

subsection \<open>Open caches\<close>

text \<open>
  The state between \<^verbatim>\<open>NewCache\<close> and \<^verbatim>\<open>Close\<close> of a cache that is not empty, and the property that
  only starts of blocks are marked, which holds as long as writes start at blocks.
\<close>

definition cache_open :: "Cache \<Rightarrow> byte list \<Rightarrow> bool" where
  "cache_open c mm \<longleftrightarrow>
     \<not> cClosed c \<and> cMmap c = Some mm \<and> int (length mm) = cSize c \<and> 0 < cSize c \<and>
     0 < cBlockSize c \<and> cSize c + cBlockSize c \<le> 9223372036854775807 \<and>
     cDirty c \<subseteq> {0..<cSize c}"

definition cache_aligned :: "Cache \<Rightarrow> bool" where
  "cache_aligned c \<longleftrightarrow> (\<forall>k \<in> cDirty c. cBlockSize c dvd k)"

lemma NewCache_open:
  assumes "feOpen env = Some content" "feTruncate env" "feMap env" "0 < sz" "0 < bs"
    "sz + bs \<le> 9223372036854775807"
  shows "\<exists>c. NewCache env sz bs path d = Ok c \<and> cache_open c (file_resize content (nat sz)) \<and>
    cDirty c = {} \<and> cache_aligned c \<and> cSize c = sz \<and> cBlockSize c = bs \<and> cDirtyFile c = d \<and> cFilePath c = path"
proof -
  have "length (file_resize content (nat sz)) = nat sz" by (simp add: file_resize_def)
  with assms show ?thesis by (auto simp: NewCache_def cache_open_def cache_aligned_def)
qed

lemma blocks_in:
  assumes "0 < bs" "0 \<le> len" "len + bs \<le> 9223372036854775807"
  obtains offs where "BlocksOffsets len bs = (Ok offs :: ('e, int list) go)"
    "set offs = {k. 0 \<le> k \<and> k < len \<and> bs dvd k}"
proof -
  obtain offs where "BlocksOffsets len bs = (Ok offs :: ('e, int list) go)"
    using assms BlocksOffsets_Ok [of len bs] by blast
  moreover have "set (the_ok (BlocksOffsets len bs :: ('e, int list) go)) = {k. 0 \<le> k \<and> k < len \<and> bs dvd k}"
    using assms by (intro BlocksOffsets_set) auto
  ultimately show thesis using that by simp
qed

definition cached_range :: "Cache \<Rightarrow> int \<Rightarrow> int \<Rightarrow> bool" where
  "cached_range c off len \<longleftrightarrow>
     (\<forall>k. 0 \<le> k \<and> k < len \<and> off + k < cSize c \<and> cBlockSize c dvd k \<longrightarrow> off + k \<in> cDirty c)"

lemma isCached_iff:
  assumes "cache_open c mm" "0 \<le> off" "off < cSize c" "0 \<le> len" "off + len < 9223372036854775808"
  shows "isCached c off len =
    Ok (cached_range c off len)"
proof -
  let ?len = "min (off + len) (cSize c) - off"
  from assms have b: "0 < cBlockSize c" "0 \<le> ?len" "?len + cBlockSize c \<le> 9223372036854775807"
    by (auto simp: cache_open_def)
  from blocks_in [OF this] obtain offs where
    offs: "BlocksOffsets ?len (cBlockSize c) = (Ok offs :: (cache_error, int list) go)"
      "set offs = {k. 0 \<le> k \<and> k < ?len \<and> cBlockSize c dvd k}" .
  have wrap: "i64 (off + len) = off + len" "i64 ?len = ?len"
    "\<And>k. k \<in> set offs \<Longrightarrow> i64 (off + k) = off + k"
    using assms b by (auto simp: offs(2) cache_open_def)
  have "list_all (\<lambda>k. i64 (off + k) \<in> cDirty c) offs \<longleftrightarrow> (\<forall>k \<in> set offs. off + k \<in> cDirty c)"
    using wrap(3) by (auto simp: list_all_iff)
  also have "\<dots> \<longleftrightarrow> (\<forall>k. 0 \<le> k \<and> k < len \<and> off + k < cSize c \<and> cBlockSize c dvd k \<longrightarrow> off + k \<in> cDirty c)"
    by (auto simp: offs(2))
  finally show ?thesis using assms(3) by (simp add: isCached_def cached_range_def Let_def wrap offs(1))
qed

lemma cache_Slice_open:
  assumes "cache_open c mm" "0 \<le> off" "off < cSize c" "0 \<le> len" "off + len < 9223372036854775808"
  shows "cache_Slice c off len =
    (if cDirtyFile c \<or> cached_range c off len
     then Ok (take (nat len) (drop (nat off) mm)) else Fail BytesNotAvailable)"
proof -
  have wrap: "i64 (off + len) = off + len" using assms by simp
  have "go_slice mm off (min (off + len) (cSize c)) = Some (take (nat len) (drop (nat off) mm))"
    using assms by (auto simp: go_slice_Some_iff cache_open_def min_def)
  moreover have "\<not> cClosed c" "cMmap c = Some mm" using assms(1) by (auto simp: cache_open_def)
  ultimately show ?thesis
    by (auto simp: cache_Slice_def isClosed_def isCached_iff [OF assms] wrap)
qed

lemma cached_range_block:
  assumes "0 < cBlockSize c" "off + cBlockSize c \<le> cSize c"
  shows "cached_range c off (cBlockSize c) \<longleftrightarrow> off \<in> cDirty c"
proof
  assume "cached_range c off (cBlockSize c)"
  from this [unfolded cached_range_def, rule_format, of 0] assms show "off \<in> cDirty c" by simp
next
  assume *: "off \<in> cDirty c"
  have "k = 0" if "0 \<le> k" "k < cBlockSize c" "cBlockSize c dvd k" for k
    using that zdvd_imp_le [of "cBlockSize c" k] by linarith
  with * show "cached_range c off (cBlockSize c)"
    unfolding cached_range_def by (metis add_cancel_left_right)
qed

text \<open>Reading one whole block: from the cache if it is there, otherwise the distinguished error.\<close>

lemma cache_ReadAt_block:
  assumes "cache_open c mm" "0 \<le> off" "off + cBlockSize c \<le> cSize c" "int (length b) = cBlockSize c"
  shows "cache_ReadAt c b off =
    (if cDirtyFile c \<or> off \<in> cDirty c
     then Ok (cBlockSize c, take (nat (cBlockSize c)) (drop (nat off) mm)) else Fail BytesNotAvailable)"
proof -
  have bs: "0 < cBlockSize c" using assms(1) by (simp add: cache_open_def)
  have s: "cache_Slice c off (int (length b)) =
    (if cDirtyFile c \<or> off \<in> cDirty c then Ok (take (nat (cBlockSize c)) (drop (nat off) mm))
     else Fail BytesNotAvailable)"
    using assms bs cached_range_block [OF bs assms(3)]
    by (subst cache_Slice_open) (auto simp: cache_open_def)
  have "length (take (nat (cBlockSize c)) (drop (nat off) mm)) = length b"
    using assms by (auto simp: cache_open_def)
  with s assms bs show ?thesis by (auto simp: cache_ReadAt_def isClosed_def cache_open_def)
qed

subsection \<open>Writes\<close>

lemma WriteAt_open:
  assumes "cache_open c mm" "0 \<le> off" "off + int (length b) \<le> cSize c"
  shows "\<exists>c'. cache_WriteAt c b off = Ok (int (length b), c') \<and>
    cache_open c' (write_slice mm (nat off) b) \<and>
    cDirty c' = cDirty c \<union> {off + k | k. 0 \<le> k \<and> k < int (length b) \<and> cBlockSize c dvd k} \<and>
    cSize c' = cSize c \<and> cBlockSize c' = cBlockSize c \<and> cDirtyFile c' = cDirtyFile c \<and> cFilePath c' = cFilePath c"
proof -
  let ?n = "int (length b)"
  have end': "min (i64 (off + ?n)) (cSize c) = off + ?n" "i64 ?n = ?n"
    using assms by (auto simp: cache_open_def)
  obtain dst where dst: "go_slice mm off (off + ?n) = Some dst" "length dst = length b"
    using assms by (auto simp: go_slice_Some_iff cache_open_def)
  from assms blocks_in [of "cBlockSize c" ?n] obtain offs where
    offs: "BlocksOffsets ?n (cBlockSize c) = (Ok offs :: (cache_error, int list) go)"
      "set offs = {k. 0 \<le> k \<and> k < ?n \<and> cBlockSize c dvd k}"
    by (auto simp: cache_open_def)
  have "i64 (off + k) = off + k" if "k \<in> set offs" for k
    using assms that by (auto simp: offs(2) cache_open_def)
  then have "set (map (\<lambda>k. i64 (off + k)) offs) = (\<lambda>k. off + k) ` set offs"
    unfolding set_map by (intro image_cong) simp_all
  also have "\<dots> = {off + k | k. 0 \<le> k \<and> k < ?n \<and> cBlockSize c dvd k}"
    unfolding offs(2) by blast
  finally have set: "set (map (\<lambda>k. i64 (off + k)) offs) =
    {off + k | k. 0 \<le> k \<and> k < ?n \<and> cBlockSize c dvd k}" .
  have "\<not> cClosed c" "cMmap c = Some mm" using assms(1) by (auto simp: cache_open_def)
  then have "cache_WriteAt c b off = Ok (?n, c\<lparr>cMmap := Some (write_slice mm (nat off) b),
      cDirty := cDirty c \<union> {off + k | k. 0 \<le> k \<and> k < ?n \<and> cBlockSize c dvd k}\<rparr>)"
    using dst offs(1)
    by (simp add: cache_WriteAt_def WriteAtWithoutLock_def isClosed_def setIsCached_def end' Let_def
        set del: set_map)
  moreover have "nat off + length b \<le> length mm" using assms by (auto simp: cache_open_def)
  ultimately show ?thesis
    using assms by (auto simp: cache_open_def)
qed

end
