(* ===== verification/Block_Chunker.thy ===== *)
theory Block_Chunker
  imports Block_Cache
begin

text \<open>
  \<^verbatim>\<open>FullFetchChunker\<close> of \<^verbatim>\<open>packages/orchestrator/pkg/sandbox/block/chunk.go\<close>: a read-through cache
  of a stored object.  A slice that is not cached is fetched from the base in whole chunks of
  \<^verbatim>\<open>storage.MemoryChunkSize\<close> and then read from the cache.

  The base reader is a parameter: \<open>base b off\<close> is \<^verbatim>\<open>base.ReadAt(ctx, b, off)\<close>, the number of
  bytes read and the buffer afterwards.  The chunks of one call are fetched by concurrent
  goroutines, one per chunk, all of which run to their end; they write disjoint parts of the cache.
  They run here one after another, in the order that the parameter \<open>sched\<close> picks.
\<close>

definition MemoryChunkSize :: int where "MemoryChunkSize = 4194304"

datatype 'e chunk_error =
    CacheErr cache_error
  | CtxDone
  | BaseFailed 'e
  | BaseShort int int
  | FetchPanicked

type_synonym 'e base_reader = "byte list \<Rightarrow> int \<Rightarrow> ('e, int \<times> byte list) go"

record FullFetchChunker =
  fcCache :: Cache
  fcSize :: int

definition NewFullFetchChunker :: "file_env \<Rightarrow> int \<Rightarrow> int \<Rightarrow> string \<Rightarrow> (cache_error, FullFetchChunker) go" where
  "NewFullFetchChunker env sz blockSize cachePath =
     go_bind (NewCache env sz blockSize cachePath False) (\<lambda>cache. Ok \<lparr>fcCache = cache, fcSize = sz\<rparr>)"

text \<open>The bytes that \<^verbatim>\<open>base.ReadAt\<close> left in the mapped slice, whether or not they are marked.\<close>

definition store_bytes :: "Cache \<Rightarrow> int \<Rightarrow> byte list \<Rightarrow> Cache" where
  "store_bytes c off b = c\<lparr>cMmap := map_option (\<lambda>mm. write_slice mm (nat off) b) (cMmap c)\<rparr>"

text \<open>The body of one fetch; a panic inside it is recovered and becomes an error.\<close>

definition fetchChunk ::
  "'e base_reader \<Rightarrow> bool \<Rightarrow> Cache \<Rightarrow> int \<Rightarrow> ('e chunk_error, unit) go \<times> Cache" where
  "fetchChunk base ctxDone c fetchOff =
     (case isCached c fetchOff MemoryChunkSize of
        Fail e \<Rightarrow> (Fail (CacheErr e), c)
      | Panic \<Rightarrow> (Fail FetchPanicked, c)
      | Ok True \<Rightarrow> (Ok (), c)
      | Ok False \<Rightarrow>
          if ctxDone then (Fail CtxDone, c)
          else
            (case addressBytes c fetchOff MemoryChunkSize of
               Fail e \<Rightarrow> (Fail (CacheErr e), c)
             | Panic \<Rightarrow> (Fail FetchPanicked, c)
             | Ok b \<Rightarrow>
                 (case base b fetchOff of
                    Fail e \<Rightarrow> (Fail (BaseFailed e), c)
                  | Panic \<Rightarrow> (Fail FetchPanicked, c)
                  | Ok (readBytes, b') \<Rightarrow>
                      if readBytes \<noteq> int (length b)
                      then (Fail (BaseShort (int (length b)) readBytes), store_bytes c fetchOff b')
                      else
                        (case setIsCached (store_bytes c fetchOff b') fetchOff readBytes of
                           Fail e \<Rightarrow> (Fail (CacheErr e), store_bytes c fetchOff b')
                         | Panic \<Rightarrow> (Fail FetchPanicked, store_bytes c fetchOff b')
                         | Ok c' \<Rightarrow> (Ok (), c')))))"

fun fetchAll ::
  "'e base_reader \<Rightarrow> bool \<Rightarrow> Cache \<Rightarrow> int list \<Rightarrow> ('e chunk_error, unit) go \<times> Cache" where
  "fetchAll base ctxDone c [] = (Ok (), c)"
| "fetchAll base ctxDone c (fetchOff # rest) =
     (let (res, c') = fetchChunk base ctxDone c fetchOff;
          (res', c'') = fetchAll base ctxDone c' rest
      in (case res of Ok _ \<Rightarrow> res' | _ \<Rightarrow> res, c''))"

definition fetchToCache ::
  "'e base_reader \<Rightarrow> bool \<Rightarrow> (int list \<Rightarrow> int list) \<Rightarrow> Cache \<Rightarrow> int \<Rightarrow> int \<Rightarrow> ('e chunk_error, unit) go \<times> Cache" where
  "fetchToCache base ctxDone sched c off len =
     (case go_bind (BlocksOffsets len MemoryChunkSize) (\<lambda>chunks.
             go_bind (BlockIdx off MemoryChunkSize) (\<lambda>startingChunk.
               Ok (map (\<lambda>chunkOff. i64 (BlockOffset startingChunk MemoryChunkSize + chunkOff)) chunks))) of
        Fail e \<Rightarrow> (Fail (CacheErr e), c)
      | Panic \<Rightarrow> (Panic, c)
      | Ok fetchOffs \<Rightarrow> fetchAll base ctxDone c (sched fetchOffs))"

definition chunker_Slice ::
  "'e base_reader \<Rightarrow> bool \<Rightarrow> (int list \<Rightarrow> int list) \<Rightarrow> FullFetchChunker \<Rightarrow> int \<Rightarrow> int \<Rightarrow>
   ('e chunk_error, byte list) go \<times> FullFetchChunker" where
  "chunker_Slice base ctxDone sched fc off len =
     (case cache_Slice (fcCache fc) off len of
        Ok b \<Rightarrow> (Ok b, fc)
      | Panic \<Rightarrow> (Panic, fc)
      | Fail e \<Rightarrow>
          if e \<noteq> BytesNotAvailable then (Fail (CacheErr e), fc)
          else
            (case fetchToCache base ctxDone sched (fcCache fc) off len of
               (Fail e', c) \<Rightarrow> (Fail e', fc\<lparr>fcCache := c\<rparr>)
             | (Panic, c) \<Rightarrow> (Panic, fc\<lparr>fcCache := c\<rparr>)
             | (Ok _, c) \<Rightarrow>
                 (case cache_Slice c off len of
                    Ok b \<Rightarrow> (Ok b, fc\<lparr>fcCache := c\<rparr>)
                  | Fail e'' \<Rightarrow> (Fail (CacheErr e''), fc\<lparr>fcCache := c\<rparr>)
                  | Panic \<Rightarrow> (Panic, fc\<lparr>fcCache := c\<rparr>))))"

definition chunker_ReadAt ::
  "'e base_reader \<Rightarrow> bool \<Rightarrow> (int list \<Rightarrow> int list) \<Rightarrow> FullFetchChunker \<Rightarrow> byte list \<Rightarrow> int \<Rightarrow>
   ('e chunk_error, int \<times> byte list) go \<times> FullFetchChunker" where
  "chunker_ReadAt base ctxDone sched fc b off =
     (case chunker_Slice base ctxDone sched fc off (int (length b)) of
        (Ok s, fc') \<Rightarrow> (Ok (int (min (length b) (length s)), go_copy b s), fc')
      | (Fail e, fc') \<Rightarrow> (Fail e, fc')
      | (Panic, fc') \<Rightarrow> (Panic, fc'))"

definition chunker_Close :: "bool \<Rightarrow> bool \<Rightarrow> FullFetchChunker \<Rightarrow> (cache_error, unit) go \<times> FullFetchChunker" where
  "chunker_Close unmapOk removeOk fc =
     (let (c, res) = cache_Close unmapOk removeOk (fcCache fc) in (res, fc\<lparr>fcCache := c\<rparr>))"

text \<open>
  \<^verbatim>\<open>WriteTo\<close> copies the whole object to a writer in chunks: \<open>None\<close> stands for a writer error.  The
  written bytes are returned.
\<close>

function writeToLoop ::
  "'e base_reader \<Rightarrow> bool \<Rightarrow> (int list \<Rightarrow> int list) \<Rightarrow> (nat \<Rightarrow> bool) \<Rightarrow> FullFetchChunker \<Rightarrow> int \<Rightarrow> byte list \<Rightarrow>
   ('e chunk_error option, int \<times> byte list) go \<times> FullFetchChunker" where
  "writeToLoop base ctxDone sched writeOk fc i out =
     (if i < fcSize fc \<and> 0 \<le> i then
        (case chunker_ReadAt base ctxDone sched fc (replicate (nat MemoryChunkSize) 0) i of
           (Ok (n, chunk), fc') \<Rightarrow>
             if writeOk (length out)
             then writeToLoop base ctxDone sched writeOk (fc\<lparr>fcCache := fcCache fc'\<rparr>) (i + MemoryChunkSize)
                    (out @ take (nat n) chunk)
             else (Fail None, fc')
         | (Fail e, fc') \<Rightarrow> (Fail (Some e), fc')
         | (Panic, fc') \<Rightarrow> (Panic, fc'))
      else (Ok (fcSize fc, out), fc))"
  by pat_completeness auto

termination
  by (relation "measure (\<lambda>(_, _, _, _, fc, i, _). nat (fcSize fc - i))") (auto simp: MemoryChunkSize_def)

declare writeToLoop.simps [simp del]

definition chunker_WriteTo ::
  "'e base_reader \<Rightarrow> bool \<Rightarrow> (int list \<Rightarrow> int list) \<Rightarrow> (nat \<Rightarrow> bool) \<Rightarrow> FullFetchChunker \<Rightarrow>
   ('e chunk_error option, int \<times> byte list) go \<times> FullFetchChunker" where
  "chunker_WriteTo base ctxDone sched writeOk fc = writeToLoop base ctxDone sched writeOk fc 0 []"

subsection \<open>What the cache holds\<close>

definition base_serves :: "'e base_reader \<Rightarrow> byte list \<Rightarrow> bool" where
  "base_serves base content \<longleftrightarrow>
     (\<forall>b off. 0 \<le> off \<and> off + int (length b) \<le> int (length content) \<longrightarrow>
        base b off = Ok (int (length b), take (length b) (drop (nat off) content)))"

text \<open>Every marked block of the cache holds the bytes of the object.\<close>

definition mirrors :: "Cache \<Rightarrow> byte list \<Rightarrow> bool" where
  "mirrors c content \<longleftrightarrow>
     cache_open c (the (cMmap c)) \<and> cache_aligned c \<and> \<not> cDirtyFile c \<and> cSize c = int (length content) \<and>
     cBlockSize c dvd MemoryChunkSize \<and>
     (\<forall>i < length content. int i div cBlockSize c * cBlockSize c \<in> cDirty c \<longrightarrow> the (cMmap c) ! i = content ! i)"

definition chunk_blocks :: "Cache \<Rightarrow> int \<Rightarrow> int set" where
  "chunk_blocks c o' = {k. o' \<le> k \<and> k < o' + MemoryChunkSize \<and> k < cSize c \<and> cBlockSize c dvd k}"

text \<open>What an operation on the cache may change: marks are added, the geometry stays.\<close>

definition same_shape :: "Cache \<Rightarrow> Cache \<Rightarrow> bool" where
  "same_shape c c' \<longleftrightarrow> cSize c' = cSize c \<and> cBlockSize c' = cBlockSize c \<and> cFilePath c' = cFilePath c"

lemma same_shape_refl [simp]: "same_shape c c"
  by (simp add: same_shape_def)

lemma chunk_blocks_shape: "same_shape c c' \<Longrightarrow> chunk_blocks c' = chunk_blocks c"
  by (simp add: chunk_blocks_def same_shape_def fun_eq_iff)

lemma MemoryChunkSize_pos [simp]: "0 < MemoryChunkSize" "0 \<le> MemoryChunkSize" "MemoryChunkSize < 9223372036854775808"
  by (simp_all add: MemoryChunkSize_def)

lemma fetch_blocks:
  assumes "cBlockSize c dvd o'"
  shows "{o' + k | k. 0 \<le> k \<and> k < min (o' + MemoryChunkSize) (cSize c) - o' \<and> cBlockSize c dvd k} = chunk_blocks c o'"
proof -
  have "x \<in> {o' + k | k. 0 \<le> k \<and> k < min (o' + MemoryChunkSize) (cSize c) - o' \<and> cBlockSize c dvd k}"
    if "x \<in> chunk_blocks c o'" for x
    using that assms by (auto simp: chunk_blocks_def intro!: exI [of _ "x - o'"])
  moreover have "x \<in> chunk_blocks c o'"
    if "x \<in> {o' + k | k. 0 \<le> k \<and> k < min (o' + MemoryChunkSize) (cSize c) - o' \<and> cBlockSize c dvd k}" for x
    using that assms by (auto simp: chunk_blocks_def)
  ultimately show ?thesis by blast
qed

lemma setIsCached_open:
  assumes c: "cache_open c mm" and "0 \<le> off" "0 \<le> len" "off + len \<le> cSize c"
  shows "setIsCached c off len =
    Ok (c\<lparr>cDirty := cDirty c \<union> {off + k | k. 0 \<le> k \<and> k < len \<and> cBlockSize c dvd k}\<rparr>)"
proof -
  from assms blocks_in [of "cBlockSize c" len] obtain offs where
    offs: "BlocksOffsets len (cBlockSize c) = (Ok offs :: (cache_error, int list) go)"
      "set offs = {k. 0 \<le> k \<and> k < len \<and> cBlockSize c dvd k}"
    by (auto simp: cache_open_def)
  have "i64 (off + k) = off + k" if "k \<in> set offs" for k
    using assms that by (auto simp: offs(2) cache_open_def)
  then have "set (map (\<lambda>k. i64 (off + k)) offs) = (\<lambda>k. off + k) ` set offs"
    unfolding set_map by (intro image_cong) simp_all
  also have "\<dots> = {off + k | k. 0 \<le> k \<and> k < len \<and> cBlockSize c dvd k}" unfolding offs(2) by blast
  finally show ?thesis using offs(1) by (simp add: setIsCached_def del: set_map)
qed

lemma fetchChunk_serves:
  assumes base: "base_serves base content" and c: "mirrors c content"
    and o: "0 \<le> o'" "o' < cSize c" "MemoryChunkSize dvd o'" "o' + MemoryChunkSize < 9223372036854775808"
  shows "\<exists>c'. fetchChunk base False c o' = (Ok (), c') \<and> mirrors c' content \<and> same_shape c c' \<and>
    cDirty c' = cDirty c \<union> chunk_blocks c o'"
proof -
  let ?bs = "cBlockSize c" and ?C = MemoryChunkSize
  from c obtain mm where mm: "cMmap c = Some mm" "cache_open c mm" by (auto simp: mirrors_def cache_open_def)
  from c have al: "cache_aligned c" and bsC: "?bs dvd ?C" and sz: "cSize c = int (length content)"
    and good: "\<And>i. i < length content \<Longrightarrow> int i div ?bs * ?bs \<in> cDirty c \<Longrightarrow> mm ! i = content ! i"
    using mm(1) by (auto simp: mirrors_def)
  have bs: "0 < ?bs" using mm(2) by (simp add: cache_open_def)
  have wrap: "i64 (o' + ?C) = o' + ?C" using o MemoryChunkSize_pos by (intro i64_id) linarith+
  have bso: "?bs dvd o'" using dvd_trans [OF bsC o(3)] .
  have cached: "isCached c o' ?C = Ok (cached_range c o' ?C)"
    using o by (intro isCached_iff [OF mm(2)]) auto
  show ?thesis
  proof (cases "cached_range c o' ?C")
    case True
    have "chunk_blocks c o' \<subseteq> cDirty c"
    proof
      fix k assume "k \<in> chunk_blocks c o'"
      then show "k \<in> cDirty c"
        using True [unfolded cached_range_def, rule_format, of "k - o'"] bso by (auto simp: chunk_blocks_def)
    qed
    with True cached c show ?thesis by (auto simp: fetchChunk_def)
  next
    case False
    let ?n = "min (o' + ?C) (cSize c) - o'"
    have n: "0 < ?n" "o' + ?n \<le> cSize c" using o by auto
    obtain b where b: "addressBytes c o' ?C = Ok b" "int (length b) = ?n"
    proof -
      have "go_slice mm o' (min (i64 (o' + ?C)) (cSize c)) \<noteq> None"
        using o mm(2) by (auto simp: go_slice_def cache_open_def wrap)
      then obtain b where "go_slice mm o' (min (o' + ?C) (cSize c)) = Some b" using wrap by auto
      with that o mm show thesis
        by (auto simp: addressBytes_def isClosed_def cache_open_def wrap dest: length_go_slice)
    qed
    let ?b' = "take (length b) (drop (nat o') content)"
    have rd: "base b o' = Ok (int (length b), ?b')"
      using base o b(2) n sz by (simp add: base_serves_def)
    have lb: "length ?b' = length b" using b(2) n(2) o(1) sz by simp
    let ?c = "store_bytes c o' ?b'" and ?mm = "write_slice mm (nat o') ?b'"
    have fit: "nat o' + length ?b' \<le> length mm"
      using b(2) n(2) o(1) mm(2) unfolding lb cache_open_def by linarith
    have c1: "cache_open ?c ?mm" "cMmap ?c = Some ?mm" "cDirty ?c = cDirty c" "cBlockSize ?c = ?bs" "cSize ?c = cSize c"
      "cDirtyFile ?c = cDirtyFile c" "cFilePath ?c = cFilePath c"
      using mm fit by (auto simp: store_bytes_def cache_open_def)
    let ?c2 = "?c\<lparr>cDirty := cDirty c \<union> chunk_blocks c o'\<rparr>"
    have "setIsCached ?c o' (int (length b)) = Ok ?c2"
      using setIsCached_open [OF c1(1) o(1), of ?n] n b(2) fetch_blocks [OF bso] c1 by simp
    then have "fetchChunk base False c o' = (Ok (), ?c2)"
      using False cached b rd by (simp add: fetchChunk_def)
    moreover have "chunk_blocks c o' \<subseteq> {0..<cSize c}" using o(1) by (auto simp: chunk_blocks_def)
    then have "cache_open ?c2 ?mm" using c1 by (auto simp: cache_open_def)
    moreover have "cache_aligned ?c2" using al c1 by (auto simp: cache_aligned_def chunk_blocks_def)
    moreover have "?mm ! i = content ! i"
      if i: "i < length content" "int i div ?bs * ?bs \<in> cDirty c \<union> chunk_blocks c o'" for i
    proof (cases "nat o' \<le> i \<and> i < nat o' + length ?b'")
      case True
      then show ?thesis using fit i(1) lb by (auto simp: nth_write_slice)
    next
      case out: False
      have "int i div ?bs * ?bs \<notin> chunk_blocks c o'"
      proof
        assume "int i div ?bs * ?bs \<in> chunk_blocks c o'"
        then have "o' \<le> int i" "int i < o' + ?C"
          using block_floor_compare [OF bs, of o' "int i"] block_floor_compare [OF bs, of "o' + ?C" "int i"] bso bsC
          by (auto simp: chunk_blocks_def)
        then show False using out lb b(2) i(1) sz o(1) by auto
      qed
      then have "mm ! i = content ! i" using good i by blast
      moreover have "i < length mm" using i(1) sz mm(2) by (simp add: cache_open_def)
      ultimately show ?thesis using out fit by (auto simp: nth_write_slice)
    qed
    ultimately show ?thesis
      using c c1 bsC sz by (auto simp: mirrors_def same_shape_def)
  qed
qed

lemma fetchAll_serves:
  assumes base: "base_serves base content"
  shows "mirrors c content \<Longrightarrow> \<forall>o' \<in> set os. 0 \<le> o' \<and> o' < cSize c \<and> MemoryChunkSize dvd o' \<and>
      o' + MemoryChunkSize < 9223372036854775808 \<Longrightarrow>
    \<exists>c'. fetchAll base False c os = (Ok (), c') \<and> mirrors c' content \<and> same_shape c c' \<and>
      cDirty c' = cDirty c \<union> (\<Union>o' \<in> set os. chunk_blocks c o')"
proof (induction os arbitrary: c)
  case (Cons o' os)
  from fetchChunk_serves [OF base Cons.prems(1), of o'] Cons.prems(2) obtain c1 where
    c1: "fetchChunk base False c o' = (Ok (), c1)" "mirrors c1 content" "same_shape c c1"
      "cDirty c1 = cDirty c \<union> chunk_blocks c o'" by auto
  from Cons.IH [OF c1(2)] Cons.prems(2) c1(3) obtain c2 where
    c2: "fetchAll base False c1 os = (Ok (), c2)" "mirrors c2 content" "same_shape c1 c2"
      "cDirty c2 = cDirty c1 \<union> (\<Union>o' \<in> set os. chunk_blocks c o')"
    by (auto simp: same_shape_def chunk_blocks_shape [OF c1(3)])
  with c1 show ?case by (auto simp: same_shape_def)
qed simp

subsection \<open>Which chunks a slice fetches\<close>

abbreviation chunk_start :: "int \<Rightarrow> int" where
  "chunk_start off \<equiv> off div MemoryChunkSize * MemoryChunkSize"

text \<open>The end of the last chunk that \<^verbatim>\<open>fetchToCache\<close> fetches for a slice.\<close>

definition fetch_end :: "int \<Rightarrow> int \<Rightarrow> int" where
  "fetch_end off len = chunk_start off + (len + MemoryChunkSize - 1) div MemoryChunkSize * MemoryChunkSize"

lemma fetch_blocks_union:
  assumes "0 \<le> off" "0 < len" "set os = {chunk_start off + k | k. 0 \<le> k \<and> k < len \<and> MemoryChunkSize dvd k}"
  shows "(\<Union>o' \<in> set os. chunk_blocks c o') =
    {k. chunk_start off \<le> k \<and> k < fetch_end off len \<and> k < cSize c \<and> cBlockSize c dvd k}" (is "?L = ?R")
proof
  let ?C = MemoryChunkSize and ?s = "chunk_start off" and ?n = "(len + MemoryChunkSize - 1) div MemoryChunkSize"
  have cov: "len \<le> ?n * ?C" "?n * ?C < len + ?C" using TotalBlocks_covers [of ?C len] by auto
  show "?L \<subseteq> ?R"
  proof
    fix x assume "x \<in> ?L"
    then obtain k where k: "0 \<le> k" "k < len" "?C dvd k" "x \<in> chunk_blocks c (?s + k)" by (auto simp: assms(3))
    have "k + ?C \<le> ?n * ?C" using k cov by (intro dvd_less_add_le) auto
    with k show "x \<in> ?R" by (auto simp: chunk_blocks_def fetch_end_def)
  qed
  show "?R \<subseteq> ?L"
  proof
    fix x assume x: "x \<in> ?R"
    define k where "k = (x - ?s) div ?C * ?C"
    have k: "0 \<le> k" "k \<le> x - ?s" "x - ?s < k + ?C" "?C dvd k"
      using x block_floor [of ?C "x - ?s"] by (auto simp: k_def pos_imp_zdiv_nonneg_iff)
    have "k < len"
    proof (rule ccontr)
      assume "\<not> k < len"
      have "k < ?n * ?C" using k x by (auto simp: fetch_end_def)
      then have "k + ?C \<le> ?n * ?C" using k by (intro dvd_less_add_le) auto
      with cov \<open>\<not> k < len\<close> show False by linarith
    qed
    then have "?s + k \<in> set os" using k by (auto simp: assms(3))
    moreover have "x \<in> chunk_blocks c (?s + k)" using k x by (auto simp: chunk_blocks_def)
    ultimately show "x \<in> ?L" by blast
  qed
qed

lemma fetchToCache_serves:
  assumes base: "base_serves base content" and c: "mirrors c content" and sched: "\<And>xs. set (sched xs) = set xs"
    and off: "0 \<le> off" "0 < len" "off + len \<le> cSize c" "cSize c + MemoryChunkSize < 9223372036854775808"
  shows "\<exists>c'. fetchToCache base False sched c off len = (Ok (), c') \<and> mirrors c' content \<and> same_shape c c' \<and>
    cDirty c' = cDirty c \<union> {k. chunk_start off \<le> k \<and> k < fetch_end off len \<and> k < cSize c \<and> cBlockSize c dvd k}"
proof -
  let ?C = MemoryChunkSize and ?s = "chunk_start off"
  have s: "0 \<le> ?s" "?s \<le> off" using off mult_div_le_int [of ?C off]
    by (auto simp: mult.commute pos_imp_zdiv_nonneg_iff)
  from off blocks_in [of ?C len] obtain chunks where
    chunks: "BlocksOffsets len ?C = (Ok chunks :: (cache_error, int list) go)"
      "set chunks = {k. 0 \<le> k \<and> k < len \<and> ?C dvd k}" by auto
  have idx: "BlockIdx off ?C = (Ok (off div ?C) :: (cache_error, int) go)" "BlockOffset (off div ?C) ?C = ?s"
  proof -
    have "off < 9223372036854775808" using off MemoryChunkSize_pos by linarith
    then show "BlockIdx off ?C = (Ok (off div ?C) :: (cache_error, int) go)" "BlockOffset (off div ?C) ?C = ?s"
      using off(1) s by (auto simp: pos_imp_zdiv_nonneg_iff intro!: BlockOffset_id)
  qed
  let ?os = "map (\<lambda>k. i64 (?s + k)) chunks"
  have "i64 (?s + k) = ?s + k" if "k \<in> set chunks" for k
  proof -
    have "0 \<le> k" "k < len" using that by (auto simp: chunks(2))
    then show ?thesis using off s MemoryChunkSize_pos(1) by (intro i64_id) linarith+
  qed
  then have "set ?os = (\<lambda>k. ?s + k) ` set chunks" unfolding set_map by (intro image_cong) simp_all
  also have "\<dots> = {?s + k | k. 0 \<le> k \<and> k < len \<and> ?C dvd k}" unfolding chunks(2) by blast
  finally have os: "set (sched ?os) = {?s + k | k. 0 \<le> k \<and> k < len \<and> ?C dvd k}" using sched by simp
  have "\<forall>o' \<in> set (sched ?os). 0 \<le> o' \<and> o' < cSize c \<and> ?C dvd o' \<and> o' + ?C < 9223372036854775808"
    unfolding os using s off by auto
  from fetchAll_serves [OF base c this] fetch_blocks_union [OF off(1,2) os, of c] show ?thesis
    by (auto simp: fetchToCache_def chunks(1) idx)
qed

subsection \<open>Slices\<close>

definition chunker_ok :: "byte list \<Rightarrow> FullFetchChunker \<Rightarrow> bool" where
  "chunker_ok content fc \<longleftrightarrow>
     mirrors (fcCache fc) content \<and> fcSize fc = int (length content) \<and>
     int (length content) + MemoryChunkSize < 9223372036854775808"

lemma mirrors_slice:
  assumes c: "mirrors c content" and off: "0 \<le> off" "0 < len" "off + len \<le> cSize c" "cBlockSize c dvd off"
    and cached: "cached_range c off len"
  shows "cache_Slice c off len = Ok (take (nat len) (drop (nat off) content))"
proof -
  let ?bs = "cBlockSize c"
  obtain mm where mm: "cMmap c = Some mm" "cache_open c mm" using c by (auto simp: mirrors_def cache_open_def)
  have good: "\<And>i. i < length content \<Longrightarrow> int i div ?bs * ?bs \<in> cDirty c \<Longrightarrow> mm ! i = content ! i"
    and sz: "cSize c = int (length content)" using c mm(1) by (auto simp: mirrors_def)
  have bs: "0 < ?bs" and len: "length mm = length content" using mm(2) sz by (auto simp: cache_open_def)
  have "take (nat len) (drop (nat off) mm) = take (nat len) (drop (nat off) content)"
  proof (rule nth_equalityI)
    fix i assume "i < length (take (nat len) (drop (nat off) mm))"
    then have i: "i < nat len" "nat off + i < length content" using len by auto
    let ?x = "int (nat off + i)"
    have x: "off \<le> ?x" "?x < off + len" using i off(1) by linarith+
    let ?k = "?x div ?bs * ?bs - off"
    have "0 \<le> ?k" using block_floor_compare(1) [OF bs off(4), of ?x] x by simp
    moreover have "?k < len" "off + ?k < cSize c" using block_floor(1) [OF bs, of ?x] x off(3) by linarith+
    moreover have "?bs dvd ?k" using off(4) by simp
    ultimately have "off + ?k \<in> cDirty c" using cached unfolding cached_range_def by blast
    then have "mm ! (nat off + i) = content ! (nat off + i)" using good [OF i(2)] by simp
    then show "take (nat len) (drop (nat off) mm) ! i = take (nat len) (drop (nat off) content) ! i"
      using i len by simp
  qed (simp add: len)
  moreover have "off < cSize c" "off + len < 9223372036854775808" using off mm(2) by (auto simp: cache_open_def)
  ultimately show ?thesis using cache_Slice_open [OF mm(2) off(1), of len] off(2) cached by simp
qed

lemma mirrors_slice_unavailable:
  assumes c: "mirrors c content" and off: "0 \<le> off" "0 < len" "off + len \<le> cSize c"
    and "\<not> cached_range c off len"
  shows "cache_Slice c off len = Fail BytesNotAvailable"
proof -
  obtain mm where mm: "cMmap c = Some mm" "cache_open c mm" using c by (auto simp: mirrors_def cache_open_def)
  moreover have "off < cSize c" "off + len < 9223372036854775808" using off mm(2) by (auto simp: cache_open_def)
  ultimately show ?thesis
    using cache_Slice_open [OF mm(2) off(1), of len] off(2) assms(5) c by (simp add: mirrors_def)
qed

lemma chunker_Slice_serves:
  assumes base: "base_serves base content" and ok: "chunker_ok content fc" and sched: "\<And>xs. set (sched xs) = set xs"
    and off: "0 \<le> off" "0 < len" "off + len \<le> int (length content)" "cBlockSize (fcCache fc) dvd off"
    and reach: "off + len \<le> fetch_end off len"
  shows "\<exists>fc'. chunker_Slice base False sched fc off len = (Ok (take (nat len) (drop (nat off) content)), fc') \<and>
    chunker_ok content fc' \<and> cBlockSize (fcCache fc') = cBlockSize (fcCache fc)"
proof -
  let ?c = "fcCache fc"
  have c: "mirrors ?c content" and sz: "cSize ?c = int (length content)"
    and bound: "cSize ?c + MemoryChunkSize < 9223372036854775808"
    using ok by (auto simp: chunker_ok_def mirrors_def)
  show ?thesis
  proof (cases "cached_range ?c off len")
    case True
    with mirrors_slice [OF c off(1,2) _ off(4)] off(3) sz ok show ?thesis
      by (intro exI [of _ fc]) (simp add: chunker_Slice_def)
  next
    case False
    from fetchToCache_serves [where sched = sched, OF base c sched off(1,2) _ bound] off(3) sz obtain c' where
      c': "fetchToCache base False sched ?c off len = (Ok (), c')" "mirrors c' content" "same_shape ?c c'"
        "cDirty c' = cDirty ?c \<union> {k. chunk_start off \<le> k \<and> k < fetch_end off len \<and> k < cSize ?c \<and> cBlockSize ?c dvd k}"
      by auto
    have "chunk_start off \<le> off" by (rule block_floor(1)) simp
    then have "cached_range c' off len"
      using reach off c'(3,4) by (auto simp: cached_range_def same_shape_def)
    then have "cache_Slice c' off len = Ok (take (nat len) (drop (nat off) content))"
      using off c'(3) sz by (intro mirrors_slice [OF c'(2)]) (auto simp: same_shape_def)
    moreover have "cache_Slice ?c off len = Fail BytesNotAvailable"
      using off sz False by (intro mirrors_slice_unavailable [OF c]) auto
    moreover have "chunker_ok content (fc\<lparr>fcCache := c'\<rparr>)" using ok c'(2) by (simp add: chunker_ok_def)
    ultimately show ?thesis
      using c'(1,3) by (intro exI [of _ "fc\<lparr>fcCache := c'\<rparr>"]) (simp add: chunker_Slice_def same_shape_def)
  qed
qed

text \<open>
  The number of chunks is computed from the length alone, so a slice that is not aligned to chunks
  can reach into one more chunk than is fetched; it then fails although the object has the bytes.
\<close>

lemma chunker_Slice_misses:
  assumes base: "base_serves base content" and ok: "chunker_ok content fc" and sched: "\<And>xs. set (sched xs) = set xs"
    and off: "0 \<le> off" "0 < len" "off + len \<le> int (length content)"
    and beyond: "fetch_end off len \<le> off + k" "0 \<le> k" "k < len" "cBlockSize (fcCache fc) dvd k"
      "off + k \<notin> cDirty (fcCache fc)"
  shows "\<exists>fc'. chunker_Slice base False sched fc off len = (Fail (CacheErr BytesNotAvailable), fc')"
proof -
  let ?c = "fcCache fc"
  have c: "mirrors ?c content" and sz: "cSize ?c = int (length content)"
    and bound: "cSize ?c + MemoryChunkSize < 9223372036854775808"
    using ok by (auto simp: chunker_ok_def mirrors_def)
  from fetchToCache_serves [where sched = sched, OF base c sched off(1,2) _ bound] off(3) sz obtain c' where
    c': "fetchToCache base False sched ?c off len = (Ok (), c')" "mirrors c' content" "same_shape ?c c'"
      "cDirty c' = cDirty ?c \<union> {k. chunk_start off \<le> k \<and> k < fetch_end off len \<and> k < cSize ?c \<and> cBlockSize ?c dvd k}"
    by auto
  have "off + k < cSize ?c" using off(3) sz beyond(3) by simp
  then have "\<not> cached_range ?c off len" "\<not> cached_range c' off len"
    using beyond c'(3,4) by (auto simp: cached_range_def same_shape_def intro!: exI [of _ k])
  then have "cache_Slice ?c off len = Fail BytesNotAvailable" "cache_Slice c' off len = Fail BytesNotAvailable"
    using off sz c'(3) mirrors_slice_unavailable [OF c, of off len] mirrors_slice_unavailable [OF c'(2), of off len]
    by (auto simp: same_shape_def)
  then show ?thesis using c'(1) by (simp add: chunker_Slice_def)
qed

end
