(* ===== verification/Block_Export.thy ===== *)
theory Block_Export
  imports Block_Cache
begin

text \<open>
  \<^verbatim>\<open>Cache.ExportToDiff\<close> of \<^verbatim>\<open>packages/orchestrator/pkg/sandbox/block/cache.go\<close>: when a sandbox is
  paused, the dirty blocks of its overlay are written densely, in block order, to the diff file of
  the new build.  The kernel does the copying; its answers (\<open>copy_env\<close>) may be short, and the
  system call may be unsupported, in which case the code falls back to \<^verbatim>\<open>io.Copy\<close>.
\<close>

subsection \<open>The copy loop\<close>

text \<open>
  \<open>CopyUpTo n\<close>: the call copies at most \<open>n\<close> bytes, at most the bytes asked for and at most the
  bytes before the end of the source.  \<open>CopyUnsupported\<close> is one of \<^verbatim>\<open>EXDEV\<close>, \<^verbatim>\<open>EOPNOTSUPP\<close>,
  \<^verbatim>\<open>ENOSYS\<close>.  The \<open>k\<close>-th iteration of the copy loop meets the \<open>k\<close>-th answer.
\<close>

datatype copy_reply = CopyUpTo nat | CopyUnsupported | CopyError

record copy_env =
  ceOpen :: bool
  ceCopy :: "nat \<Rightarrow> copy_reply"
  ceSeek :: "nat \<Rightarrow> bool"
  ceIoCopy :: "nat \<Rightarrow> bool"

definition file_write :: "byte list \<Rightarrow> nat \<Rightarrow> byte list \<Rightarrow> byte list" where
  "file_write out off bytes =
     (if bytes = [] then out
      else take off (out @ replicate (off - length out) 0) @ bytes @ drop (off + length bytes) out)"

definition fallbackCopy ::
  "copy_env \<Rightarrow> byte list \<Rightarrow> nat \<Rightarrow> int \<Rightarrow> int \<Rightarrow> int \<Rightarrow> byte list \<Rightarrow>
   (cache_error, nat \<times> bool \<times> int \<times> byte list) go" where
  "fallbackCopy env src k remaining readOffset writeOffset out =
     (if \<not> ceSeek env k then Fail SeekFailed
      else if \<not> ceIoCopy env k then Fail CopyFailed
      else Ok (Suc k, True, i64 (writeOffset + remaining),
               file_write out (nat writeOffset) (take (nat remaining) (drop (nat readOffset) src))))"

function copyRangeLoop ::
  "copy_env \<Rightarrow> byte list \<Rightarrow> nat \<Rightarrow> bool \<Rightarrow> int \<Rightarrow> int \<Rightarrow> int \<Rightarrow> byte list \<Rightarrow>
   (cache_error, nat \<times> bool \<times> int \<times> byte list) go" where
  "copyRangeLoop env src k fallback remaining readOffset writeOffset out =
     (if remaining \<le> 0 then Ok (k, fallback, writeOffset, out)
      else if fallback then fallbackCopy env src k remaining readOffset writeOffset out
      else
        (case ceCopy env k of
           CopyUnsupported \<Rightarrow> fallbackCopy env src k remaining readOffset writeOffset out
         | CopyError \<Rightarrow> Fail CopyRangeFailed
         | CopyUpTo n \<Rightarrow>
             let bytes = take (min n (nat remaining)) (drop (nat readOffset) src);
                 copied = int (length bytes)
             in if copied = 0 then Fail (CopyRangeZero remaining)
                else copyRangeLoop env src (Suc k) False (remaining - copied) (i64 (readOffset + copied))
                       (i64 (writeOffset + copied)) (file_write out (nat writeOffset) bytes)))"
  by pat_completeness auto

termination
  by (relation "measure (\<lambda>(_, _, _, _, remaining, _). nat remaining)") auto

declare copyRangeLoop.simps [simp del]

fun copyRanges ::
  "copy_env \<Rightarrow> byte list \<Rightarrow> Range list \<Rightarrow> nat \<Rightarrow> bool \<Rightarrow> int \<Rightarrow> byte list \<Rightarrow>
   (cache_error, nat \<times> bool \<times> int \<times> byte list) go" where
  "copyRanges env src [] k fallback writeOffset out = Ok (k, fallback, writeOffset, out)"
| "copyRanges env src (r # rs) k fallback writeOffset out =
     go_bind (copyRangeLoop env src k fallback (rSize r) (rStart r) writeOffset out)
       (\<lambda>(k', fallback', writeOffset', out'). copyRanges env src rs k' fallback' writeOffset' out')"

subsection \<open>ExportToDiff\<close>

fun addDirtyOffsets ::
  "'b bitset_ops \<Rightarrow> 'b DiffMetadataBuilder \<Rightarrow> int list \<Rightarrow> (cache_error, 'b DiffMetadataBuilder) go" where
  "addDirtyOffsets ops b [] = Ok b"
| "addDirtyOffsets ops b (key # keys) =
     go_bind (AddDirtyOffset ops b key) (\<lambda>b'. addDirtyOffsets ops b' keys)"

text \<open>
  \<open>keys\<close> is the order in which \<^verbatim>\<open>sync.Map.Range\<close> visits the dirty offsets, which Go leaves open.
  The result is the metadata of the diff and the diff file; \<open>None\<close> when the range iterator does
  not end.
\<close>

definition ExportToDiff ::
  "'b bitset_ops \<Rightarrow> copy_env \<Rightarrow> int list \<Rightarrow> Cache \<Rightarrow> byte list \<Rightarrow>
   (cache_error, 'b DiffMetadata \<times> byte list) go option" where
  "ExportToDiff ops env keys c out =
     (if isClosed c then Some (Fail (CacheClosed (cFilePath c)))
      else
        (case cMmap c of
           None \<Rightarrow>
             Some (Ok (\<lparr>dmDirty = bs_New ops 0, dmEmpty = bs_New ops 0, dmBlockSize = cBlockSize c\<rparr>, out))
         | Some src \<Rightarrow>
             if \<not> ceOpen env then Some (Fail OpenFailed)
             else
               (case go_bind (NewDiffMetadataBuilder ops (cSize c) (cBlockSize c))
                       (\<lambda>b. addDirtyOffsets ops b keys) of
                  Fail e \<Rightarrow> Some (Fail e)
                | Panic \<Rightarrow> Some Panic
                | Ok builder \<Rightarrow>
                    let diffMetadata = Build builder
                    in map_option
                         (\<lambda>ranges. go_bind (copyRanges env src ranges 0 False 0 out)
                            (\<lambda>(_, _, _, out'). Ok (diffMetadata, out')))
                         (BitsetRanges ops (dmDirty diffMetadata) (dmBlockSize diffMetadata)))))"

subsection \<open>The copied bytes\<close>

definition copy_env_ok :: "copy_env \<Rightarrow> bool" where
  "copy_env_ok env \<longleftrightarrow>
     ceOpen env \<and> (\<forall>k. ceCopy env k \<noteq> CopyError \<and> ceCopy env k \<noteq> CopyUpTo 0 \<and> ceSeek env k \<and> ceIoCopy env k)"

abbreviation slice_at :: "'a list \<Rightarrow> int \<Rightarrow> int \<Rightarrow> 'a list" where
  "slice_at s off len \<equiv> take (nat len) (drop (nat off) s)"

lemma file_write_end: "file_write out (length out) bytes = out @ bytes"
  by (simp add: file_write_def)

lemma slice_at_split:
  assumes "0 \<le> off" "0 \<le> m" "m \<le> n"
  shows "slice_at s off m @ slice_at s (off + m) (n - m) = slice_at s off n"
proof -
  have "nat n = nat m + nat (n - m)" "nat (off + m) = nat off + nat m" using assms by linarith+
  then show ?thesis by (simp add: take_add add.commute)
qed

lemma copyRangeLoop_appends:
  assumes "copy_env_ok env" "0 \<le> remaining" "0 \<le> ro" "ro + remaining \<le> int (length src)"
    "wo = int (length out)" "wo + remaining < 9223372036854775808" "int (length src) < 9223372036854775808"
  shows "\<exists>k' fb'. copyRangeLoop env src k fb remaining ro wo out =
    Ok (k', fb', wo + remaining, out @ slice_at src ro remaining)"
  using assms
proof (induction env src k fb remaining ro wo out rule: copyRangeLoop.induct)
  case (1 env src k fb remaining ro wo out)
  note IH = "1.IH" and prems = "1.prems"
  have fbc: "fallbackCopy env src k remaining ro wo out =
      Ok (Suc k, True, wo + remaining, out @ slice_at src ro remaining)" if "0 < remaining"
    using prems that by (auto simp: fallbackCopy_def copy_env_ok_def file_write_end)
  show ?case
  proof (cases "remaining \<le> 0")
    case True
    with prems(2) have "remaining = 0" by simp
    then show ?thesis by (subst copyRangeLoop.simps) simp
  next
    case pos: False
    show ?thesis
    proof (cases "\<not> fb \<and> (\<exists>n. ceCopy env k = CopyUpTo n)")
      case False
      then have "copyRangeLoop env src k fb remaining ro wo out =
          fallbackCopy env src k remaining ro wo out"
        using pos prems(1)
        by (subst copyRangeLoop.simps) (auto simp: copy_env_ok_def split: copy_reply.splits)
      with fbc pos show ?thesis by auto
    next
      case True
      then obtain n where n: "\<not> fb" "ceCopy env k = CopyUpTo n" by blast
      define m where "m = min (int n) remaining"
      define bytes where "bytes = take (min n (nat remaining)) (drop (nat ro) src)"
      have "n \<noteq> 0" using prems(1) n(2) unfolding copy_env_ok_def by metis
      then have m: "0 < m" "m \<le> remaining" using pos by (auto simp: m_def)
      have bytes: "bytes = slice_at src ro m" by (auto simp: bytes_def m_def min_def)
      have len: "int (length bytes) = m" unfolding bytes using m prems by auto
      have wrap: "i64 (ro + m) = ro + m" "i64 (wo + m) = wo + m" using prems m by auto
      have step: "copyRangeLoop env src k fb remaining ro wo out =
          copyRangeLoop env src (Suc k) False (remaining - m) (ro + m) (wo + m) (out @ bytes)"
        using pos n m(1) wrap prems(5) len
        by (subst copyRangeLoop.simps) (auto simp: Let_def file_write_end simp flip: bytes_def)
      have "\<exists>k' fb'. copyRangeLoop env src (Suc k) False (remaining - m) (ro + m) (wo + m) (out @ bytes) =
        Ok (k', fb', (wo + m) + (remaining - m), (out @ bytes) @ slice_at src (ro + m) (remaining - m))"
        using IH [OF pos n(1) n(2) bytes_def refl] m prems wrap len by (auto simp: file_write_end)
      moreover have "(out @ bytes) @ slice_at src (ro + m) (remaining - m) = out @ slice_at src ro remaining"
        using slice_at_split [OF prems(3), of m remaining src] m by (simp add: bytes)
      ultimately show ?thesis unfolding step by simp
    qed
  qed
qed

lemma copyRanges_appends:
  assumes "copy_env_ok env" "\<forall>r \<in> set rs. block_range bs r \<and> rStart r + rSize r \<le> int (length src)"
    "wo = int (length out)" "wo + sum_list (map rSize rs) < 9223372036854775808"
    "int (length src) < 9223372036854775808"
  shows "\<exists>k' fb'. copyRanges env src rs k fb wo out =
    Ok (k', fb', wo + sum_list (map rSize rs), out @ concat (map (\<lambda>r. slice_at src (rStart r) (rSize r)) rs))"
  using assms(2-4)
proof (induction rs arbitrary: k fb wo out)
  case (Cons r rs)
  have nn: "0 \<le> sum_list (map rSize rs)"
    using Cons.prems(1) by (intro sum_list_nonneg) (auto simp: block_range_def)
  from Cons.prems have r: "0 \<le> rStart r" "0 < rSize r" "rStart r + rSize r \<le> int (length src)"
    by (auto simp: block_range_def)
  obtain k1 fb1 where step: "copyRangeLoop env src k fb (rSize r) (rStart r) wo out =
      Ok (k1, fb1, wo + rSize r, out @ slice_at src (rStart r) (rSize r))"
    using copyRangeLoop_appends [OF assms(1), of "rSize r" "rStart r" src wo out k fb] r nn Cons.prems assms(5)
    by auto
  have "wo + rSize r = int (length (out @ slice_at src (rStart r) (rSize r)))"
    using r Cons.prems(2) by simp
  with Cons.IH [of "wo + rSize r" "out @ slice_at src (rStart r) (rSize r)" k1 fb1] Cons.prems step
  show ?case by (auto simp: add.assoc)
qed simp

abbreviation block_at :: "'a list \<Rightarrow> int \<Rightarrow> int \<Rightarrow> 'a list" where
  "block_at s bs i \<equiv> slice_at s (i * bs) bs"

lemma slice_blocks:
  assumes "0 < bs" "0 \<le> st"
  shows "slice_at s (st * bs) (int n * bs) = concat (map (block_at s bs) [st..st + int n - 1])"
proof (induction n)
  case (Suc n)
  have e: "(st + int n) * bs = st * bs + int n * bs" "int (Suc n) * bs = int n * bs + bs"
    by (simp_all add: distrib_right)
  have "[st..st + int (Suc n) - 1] = [st..st + int n - 1] @ [st + int n]"
    using upto_rec2 [of st "st + int n"] by simp
  with Suc slice_at_split [of "st * bs" "int n * bs" "int (Suc n) * bs" s] assms e show ?case
    by simp
qed simp

lemma range_slice_blocks:
  assumes "0 < bs" "block_range bs r"
  shows "slice_at s (rStart r) (rSize r) = concat (map (block_at s bs) (range_blocks bs r))"
proof -
  obtain a b where ab: "rStart r = a * bs" "rSize r = b * bs"
    using assms(2) by (auto simp: block_range_def dvd_def mult.commute)
  with assms have "0 \<le> a" "0 < b" by (auto simp: block_range_def zero_le_mult_iff zero_less_mult_iff)
  with slice_blocks [OF assms(1), of a "nat b" s] ab assms(1) show ?thesis
    by (simp add: range_blocks_def distrib_right [symmetric])
qed

lemma ranges_slice_blocks:
  "0 < bs \<Longrightarrow> \<forall>r \<in> set rs. block_range bs r \<Longrightarrow>
   concat (map (\<lambda>r. slice_at s (rStart r) (rSize r)) rs) = concat (map (block_at s bs) (blocks_of bs rs))"
  by (induction rs) (simp_all add: range_slice_blocks)

subsection \<open>The exported diff\<close>

lemma range_blocks_bounds:
  assumes bs: "0 < bs" and r: "block_range bs r"
  shows "rSize r = int (length (range_blocks bs r)) * bs"
    "(rStart r + rSize r) div bs - 1 \<in> set (range_blocks bs r)"
    "rStart r + rSize r = ((rStart r + rSize r) div bs) * bs"
proof -
  obtain a b where ab: "rStart r = a * bs" "rSize r = b * bs"
    using r by (auto simp: block_range_def dvd_def mult.commute)
  have "0 < b" using ab r bs by (auto simp: block_range_def zero_less_mult_iff)
  then show "rSize r = int (length (range_blocks bs r)) * bs"
    "(rStart r + rSize r) div bs - 1 \<in> set (range_blocks bs r)"
    "rStart r + rSize r = ((rStart r + rSize r) div bs) * bs"
    using ab bs by (auto simp: range_blocks_def distrib_right [symmetric])
qed

lemma ranges_total_size:
  "0 < bs \<Longrightarrow> \<forall>r \<in> set rs. block_range bs r \<Longrightarrow>
   sum_list (map rSize rs) = int (length (blocks_of bs rs)) * bs"
  by (induction rs) (simp_all add: range_blocks_bounds(1) distrib_right)

lemma addDirtyOffsets_members:
  assumes laws: "bitset_laws ops" and "0 < dbBlockSize b" "set keys \<subseteq> {0..<9223372036854775808}"
  shows "\<exists>b'. addDirtyOffsets ops b keys = Ok b' \<and> dbBlockSize b' = dbBlockSize b \<and> dbEmpty b' = dbEmpty b \<and>
    members ops (dbDirty b') = members ops (dbDirty b) \<union> (\<lambda>k. k div dbBlockSize b) ` set keys \<and>
    (\<forall>n. bs_Len ops (dbDirty b) \<le> n \<and> (\<forall>k \<in> set keys. k div dbBlockSize b < n) \<longrightarrow> bs_Len ops (dbDirty b') \<le> n)"
  using assms(2,3)
proof (induction keys arbitrary: b)
  case (Cons k keys)
  let ?i = "k div dbBlockSize b" and ?b = "b\<lparr>dbDirty := bs_Set ops (dbDirty b) (k div dbBlockSize b)\<rparr>"
  have i: "0 \<le> ?i" "?i < 9223372036854775808"
    using Cons.prems div_le_dividend_int [of k "dbBlockSize b"] by (auto simp: pos_imp_zdiv_nonneg_iff)
  have add: "AddDirtyOffset ops b k = (Ok ?b :: (cache_error, _) go)"
    using Cons.prems i by (simp add: AddDirtyOffset_def)
  have "members ops (dbDirty ?b) = insert ?i (members ops (dbDirty b))"
    "bs_Len ops (dbDirty ?b) = max (bs_Len ops (dbDirty b)) (?i + 1)"
    using laws i by (auto simp: members_def bitset_laws_def)
  with Cons.IH [of ?b] Cons.prems add show ?case by auto
qed simp

definition dirty_blocks :: "Cache \<Rightarrow> int set" where
  "dirty_blocks c = (\<lambda>k. k div cBlockSize c) ` cDirty c"

lemma ExportToDiff_correct:
  assumes laws: "bitset_laws ops" and env: "copy_env_ok env"
    and c: "cache_open c mm" "cBlockSize c dvd cSize c" and keys: "set keys = cDirty c"
  shows "\<exists>d. ExportToDiff ops env keys c [] =
      Some (Ok (d, concat (map (block_at mm (cBlockSize c)) (sorted_list_of_set (dirty_blocks c))))) \<and>
    members ops (dmDirty d) = dirty_blocks c \<and> members ops (dmEmpty d) = {} \<and> dmBlockSize d = cBlockSize c"
proof -
  let ?bs = "cBlockSize c" and ?sz = "cSize c"
  from c have bs: "0 < ?bs" and sz: "0 < ?sz" "?sz + ?bs \<le> 9223372036854775807" "int (length mm) = ?sz"
    and D: "cDirty c \<subseteq> {0..<?sz}" and open': "\<not> cClosed c" "cMmap c = Some mm"
    by (auto simp: cache_open_def)
  let ?n = "?sz div ?bs"
  have n: "(?sz + ?bs - 1) div ?bs = ?n"
  proof -
    have "?sz + ?bs - 1 = (?bs - 1) + ?n * ?bs" using c(2) by simp
    then show ?thesis using bs by (simp only: div_mult_self1) simp
  qed
  have n0: "0 \<le> ?n" "?n * ?bs = ?sz" "?n \<le> ?sz" using bs sz c(2) by (auto simp: pos_imp_zdiv_nonneg_iff div_le_dividend_int)
  let ?b0 = "\<lparr>dbDirty = bs_New ops ?n, dbEmpty = bs_New ops 0, dbBlockSize = ?bs\<rparr>"
  have b0: "NewDiffMetadataBuilder ops ?sz ?bs = (Ok ?b0 :: (cache_error, _) go)"
    using bs sz n n0 by (simp add: NewDiffMetadataBuilder_def)
  have kb: "set keys \<subseteq> {0..<9223372036854775808}" using D keys sz bs by auto
  have "members ops (dbDirty ?b0) = {}" "bs_Len ops (dbDirty ?b0) = ?n" "members ops (dbEmpty ?b0) = {}"
    using laws n0 by (auto simp: members_def bitset_laws_def)
  moreover have "k div ?bs < ?n" if "k \<in> set keys" for k
    using that D keys less_mult_iff_div_less [OF bs, of k ?n] n0 by auto
  ultimately obtain b1 where b1: "addDirtyOffsets ops ?b0 keys = Ok b1" "dbBlockSize b1 = ?bs"
      "members ops (dbDirty b1) = dirty_blocks c" "members ops (dbEmpty b1) = {}" "bs_Len ops (dbDirty b1) \<le> ?n"
    using addDirtyOffsets_members [OF laws, of ?b0 keys] kb bs keys by (auto simp: dirty_blocks_def)
  have "bs_Len ops (dbDirty b1) * ?bs \<le> ?sz" using b1(5) bs n0 mult_right_mono [of _ ?n ?bs] by force
  then obtain rs where rs: "BitsetRanges ops (dbDirty b1) ?bs = Some rs"
    "blocks_of ?bs rs = sorted_list_of_set (dirty_blocks c)" "\<forall>r \<in> set rs. block_range ?bs r"
    using BitsetRanges_blocks [OF laws bs, of "dbDirty b1"] sz bs b1(3) by auto
  have Dn: "dirty_blocks c \<subseteq> {0..<?n}"
    using D less_mult_iff_div_less [OF bs, of _ ?n] n0 bs by (auto simp: dirty_blocks_def pos_imp_zdiv_nonneg_iff)
  have "int (card (dirty_blocks c)) \<le> ?n" using card_mono [OF _ Dn] n0(1) by simp
  then have "sum_list (map rSize rs) \<le> ?sz"
    using ranges_total_size [OF bs rs(3)] rs(2) mult_right_mono [of _ ?n ?bs] n0 bs by force
  moreover have "rStart r + rSize r \<le> ?sz" if "r \<in> set rs" for r
  proof -
    have blk: "block_range ?bs r" using rs(3) that by blast
    have "set (range_blocks ?bs r) \<subseteq> set (blocks_of ?bs rs)" using that by auto
    also have "\<dots> = dirty_blocks c"
      unfolding rs(2) using finite_subset [OF Dn] by simp
    finally have "(rStart r + rSize r) div ?bs \<le> ?n"
      using range_blocks_bounds(2) [OF bs blk] Dn by force
    then have "((rStart r + rSize r) div ?bs) * ?bs \<le> ?n * ?bs" using bs by (intro mult_right_mono) auto
    then show ?thesis using range_blocks_bounds(3) [OF bs blk] n0(2) by linarith
  qed
  ultimately have "\<exists>k' fb'. copyRanges env mm rs 0 False 0 [] =
      Ok (k', fb', 0 + sum_list (map rSize rs), [] @ concat (map (\<lambda>r. slice_at mm (rStart r) (rSize r)) rs))"
    using env rs(3) sz bs by (intro copyRanges_appends) auto
  then have "ExportToDiff ops env keys c [] =
      Some (Ok (Build b1, concat (map (block_at mm ?bs) (sorted_list_of_set (dirty_blocks c)))))"
    using open' env b0 b1 rs ranges_slice_blocks [OF bs rs(3), of mm]
    by (auto simp: ExportToDiff_def isClosed_def copy_env_ok_def Build_def Let_def)
  then show ?thesis using b1 by (intro exI [of _ "Build b1"]) (auto simp: Build_def)
qed

end
