(* ===== verification/Block_Device.thy ===== *)
theory Block_Device
  imports Block_Export
begin

text \<open>
  Block devices of \<^verbatim>\<open>packages/orchestrator/pkg/sandbox/block\<close>: the \<^verbatim>\<open>ReadonlyDevice\<close> interface of
  \<^verbatim>\<open>device.go\<close> as a locale, the copy-on-write \<^verbatim>\<open>Overlay\<close> (\<^verbatim>\<open>overlay.go\<close>) over any such device, and
  two implementations of the interface, \<^verbatim>\<open>Empty\<close> (\<^verbatim>\<open>empty.go\<close>) and \<^verbatim>\<open>Local\<close> (\<^verbatim>\<open>local.go\<close>).

  A device whose reads change its state (a cache that is filled, say) returns the new state.  The
  contract of the interface: a read of one block inside the device into a zeroed buffer
  fills the buffer with the device's bytes and leaves these bytes as they were.  The buffer must
  be zeroed because \<^verbatim>\<open>build.File\<close> skips the holes of an image, and longer reads are not
  promised because the chunked storage reader does not serve every range (\<^verbatim>\<open>Block_Chunker\<close>).
\<close>

subsection \<open>The interface\<close>

locale readonly_device =
  fixes dev_ReadAt :: "'d \<Rightarrow> byte list \<Rightarrow> int \<Rightarrow> ('e, int \<times> byte list) go \<times> 'd"
    and dev_BlockSize :: "'d \<Rightarrow> int"
    and dev_ok :: "'d \<Rightarrow> bool"
    and dev_bytes :: "'d \<Rightarrow> byte list"
  assumes block_size_pos: "dev_ok d \<Longrightarrow> 0 < dev_BlockSize d"
    and size_bound: "dev_ok d \<Longrightarrow> int (length (dev_bytes d)) + dev_BlockSize d \<le> 9223372036854775807"
    and read_block: "dev_ok d \<Longrightarrow> 0 \<le> off \<Longrightarrow> dev_BlockSize d dvd off \<Longrightarrow>
      int (length p) = dev_BlockSize d \<Longrightarrow> off + int (length p) \<le> int (length (dev_bytes d)) \<Longrightarrow>
      set p \<subseteq> {0} \<Longrightarrow>
      \<exists>d'. dev_ReadAt d p off = (Ok (int (length p), slice_at (dev_bytes d) off (int (length p))), d') \<and>
        dev_ok d' \<and> dev_bytes d' = dev_bytes d \<and> dev_BlockSize d' = dev_BlockSize d"

text \<open>\<^verbatim>\<open>Device\<close> adds \<^verbatim>\<open>io.WriterAt\<close>: a write of whole blocks inside the device replaces these bytes.\<close>

locale block_device = readonly_device +
  fixes dev_WriteAt :: "'a \<Rightarrow> byte list \<Rightarrow> int \<Rightarrow> ('w, int \<times> 'a) go"
  assumes write_blocks: "dev_ok d \<Longrightarrow> 0 \<le> off \<Longrightarrow> dev_BlockSize d dvd off \<Longrightarrow>
      dev_BlockSize d dvd int (length b) \<Longrightarrow> off + int (length b) \<le> int (length (dev_bytes d)) \<Longrightarrow>
      \<exists>d'. dev_WriteAt d b off = Ok (int (length b), d') \<and> dev_ok d' \<and>
        dev_bytes d' = write_slice (dev_bytes d) (nat off) b \<and> dev_BlockSize d' = dev_BlockSize d"

subsection \<open>overlay.go\<close>

record 'd Overlay =
  oDevice :: 'd
  oCache :: Cache
  oCacheEjected :: bool
  oBlockSize :: int

datatype 'e overlay_error = FromCache cache_error | FromDevice 'e | AlreadyEjected | NotImplemented

definition NewOverlay :: "('d \<Rightarrow> int) \<Rightarrow> 'd \<Rightarrow> Cache \<Rightarrow> 'd Overlay" where
  "NewOverlay devBlockSize device cache =
     \<lparr>oDevice = device, oCache = cache, oCacheEjected = False, oBlockSize = devBlockSize device\<rparr>"

fun overlayReadLoop ::
  "('d \<Rightarrow> byte list \<Rightarrow> int \<Rightarrow> ('e, int \<times> byte list) go \<times> 'd) \<Rightarrow> 'd Overlay \<Rightarrow> byte list \<Rightarrow> int \<Rightarrow> int list \<Rightarrow>
   ('e overlay_error, int \<times> byte list) go \<times> 'd Overlay" where
  "overlayReadLoop devRead o' p off [] = (Ok (int (length p), p), o')"
| "overlayReadLoop devRead o' p off (blockOff # blocks) =
     (case go_slice p blockOff (i64 (blockOff + oBlockSize o')) of
        None \<Rightarrow> (Panic, o')
      | Some q \<Rightarrow>
          (case cache_ReadAt (oCache o') q (i64 (off + blockOff)) of
             Ok (n, q') \<Rightarrow> overlayReadLoop devRead o' (write_slice p (nat blockOff) q') off blocks
           | Panic \<Rightarrow> (Panic, o')
           | Fail e \<Rightarrow>
               if e \<noteq> BytesNotAvailable then (Fail (FromCache e), o')
               else
                 (case devRead (oDevice o') q (i64 (off + blockOff)) of
                    (Ok (n, q'), d') \<Rightarrow>
                      overlayReadLoop devRead (o'\<lparr>oDevice := d'\<rparr>) (write_slice p (nat blockOff) q') off blocks
                  | (Fail e', d') \<Rightarrow> (Fail (FromDevice e'), o'\<lparr>oDevice := d'\<rparr>)
                  | (Panic, d') \<Rightarrow> (Panic, o'\<lparr>oDevice := d'\<rparr>))))"

definition overlay_ReadAt ::
  "('d \<Rightarrow> byte list \<Rightarrow> int \<Rightarrow> ('e, int \<times> byte list) go \<times> 'd) \<Rightarrow> 'd Overlay \<Rightarrow> byte list \<Rightarrow> int \<Rightarrow>
   ('e overlay_error, int \<times> byte list) go \<times> 'd Overlay" where
  "overlay_ReadAt devRead o' p off =
     (case (BlocksOffsets (int (length p)) (oBlockSize o') :: ('e, int list) go) of
        Ok blocks \<Rightarrow> overlayReadLoop devRead o' p off blocks
      | Fail e \<Rightarrow> (Fail (FromDevice e), o')
      | Panic \<Rightarrow> (Panic, o'))"

text \<open>The compare-and-swap makes the ejected cache belong to one caller.\<close>

definition EjectCache :: "'d Overlay \<Rightarrow> ('e overlay_error, Cache) go \<times> 'd Overlay" where
  "EjectCache o' =
     (if oCacheEjected o' then (Fail AlreadyEjected, o')
      else (Ok (oCache o'), o'\<lparr>oCacheEjected := True\<rparr>))"

definition overlay_Slice :: "'d Overlay \<Rightarrow> int \<Rightarrow> int \<Rightarrow> ('e overlay_error, byte list) go" where
  "overlay_Slice o' off len = Fail NotImplemented"

definition overlay_WriteAt :: "'d Overlay \<Rightarrow> byte list \<Rightarrow> int \<Rightarrow> (cache_error, int \<times> 'd Overlay) go" where
  "overlay_WriteAt o' p off =
     go_bind (cache_WriteAt (oCache o') p off) (\<lambda>(n, c). Ok (n, o'\<lparr>oCache := c\<rparr>))"

definition overlay_Size :: "'d Overlay \<Rightarrow> (cache_error, int) go" where
  "overlay_Size o' = cache_Size (oCache o')"

definition overlay_Close :: "bool \<Rightarrow> bool \<Rightarrow> 'd Overlay \<Rightarrow> (cache_error, unit) go \<times> 'd Overlay" where
  "overlay_Close unmapOk removeOk o' =
     (if oCacheEjected o' then (Ok (), o')
      else
        (let (c, res) = cache_Close unmapOk removeOk (oCache o') in (res, o'\<lparr>oCache := c\<rparr>)))"

subsection \<open>empty.go\<close>

definition clamp_length :: "int \<Rightarrow> int \<Rightarrow> int \<Rightarrow> int" where
  "clamp_length sz off len = (if sz < i64 (off + len) then i64 (sz - off) else len)"

record 'b Empty =
  eHeader :: "'b Header"

definition NewEmpty :: "'b bitset_ops \<Rightarrow> int \<Rightarrow> int \<Rightarrow> uuid \<Rightarrow> (header_error, 'b Empty) go" where
  "NewEmpty ops sz blockSize buildID =
     go_bind (NewHeader ops (NewTemplateMetadata buildID (u64 blockSize) (u64 sz)) [])
       (\<lambda>h. Ok \<lparr>eHeader = h\<rparr>)"

definition empty_Size :: "'b Empty \<Rightarrow> int" where
  "empty_Size e = i64 (mdSize (hMetadata (eHeader e)))"

definition empty_BlockSize :: "'b Empty \<Rightarrow> int" where
  "empty_BlockSize e = i64 (mdBlockSize (hMetadata (eHeader e)))"

definition empty_Slice :: "'b Empty \<Rightarrow> int \<Rightarrow> int \<Rightarrow> ('e, byte list) go" where
  "empty_Slice e off len =
     (let len' = clamp_length (i64 (mdSize (hMetadata (eHeader e)))) off len
      in if len' < 0 then Panic else Ok (replicate (nat len') 0))"

definition empty_ReadAt :: "'b Empty \<Rightarrow> byte list \<Rightarrow> int \<Rightarrow> ('e, int \<times> byte list) go \<times> 'b Empty" where
  "empty_ReadAt e p off =
     (go_bind (empty_Slice e off (int (length p))) (\<lambda>s.
        Ok (int (min (length p) (length s)), go_copy p s)), e)"

subsection \<open>local.go\<close>

text \<open>
  A regular file opened for reading.  \<^verbatim>\<open>os.File.ReadAt\<close> reads the whole buffer or returns
  \<^verbatim>\<open>io.EOF\<close>; on a closed file and at a negative offset it returns an error.
\<close>

datatype local_error = LocalEOF | LocalClosed | LocalNegativeOffset | LocalOpen | LocalStat | LocalHeader header_error

record 'b Local =
  lFile :: "byte list"
  lOpen :: bool
  lPath :: string
  lHeader :: "'b Header"

definition NewLocal ::
  "'b bitset_ops \<Rightarrow> byte list option \<Rightarrow> bool \<Rightarrow> string \<Rightarrow> int \<Rightarrow> uuid \<Rightarrow> (local_error, 'b Local) go" where
  "NewLocal ops file statOk path blockSize buildID =
     (case file of
        None \<Rightarrow> Fail LocalOpen
      | Some content \<Rightarrow>
          if \<not> statOk then Fail LocalStat
          else
            (case NewHeader ops (NewTemplateMetadata buildID (u64 blockSize) (u64 (int (length content)))) [] of
               Ok h \<Rightarrow> Ok \<lparr>lFile = content, lOpen = True, lPath = path, lHeader = h\<rparr>
             | Fail e \<Rightarrow> Fail (LocalHeader e)
             | Panic \<Rightarrow> Panic))"

definition os_ReadAt :: "'b Local \<Rightarrow> int \<Rightarrow> int \<Rightarrow> (local_error, byte list) go" where
  "os_ReadAt d off len =
     (if \<not> lOpen d then Fail LocalClosed
      else if off < 0 then Fail LocalNegativeOffset
      else if len = 0 then Ok []
      else if off + len \<le> int (length (lFile d)) then Ok (slice_at (lFile d) off len)
      else Fail LocalEOF)"

definition local_Slice :: "'b Local \<Rightarrow> int \<Rightarrow> int \<Rightarrow> (local_error, byte list) go" where
  "local_Slice d off len =
     (let len' = clamp_length (i64 (mdSize (hMetadata (lHeader d)))) off len
      in if len' < 0 then Panic else os_ReadAt d off len')"

definition local_ReadAt :: "'b Local \<Rightarrow> byte list \<Rightarrow> int \<Rightarrow> (local_error, int \<times> byte list) go \<times> 'b Local" where
  "local_ReadAt d p off =
     (go_bind (local_Slice d off (int (length p))) (\<lambda>s.
        Ok (int (min (length p) (length s)), go_copy p s)), d)"

definition local_Size :: "'b Local \<Rightarrow> int" where
  "local_Size d = i64 (mdSize (hMetadata (lHeader d)))"

definition local_BlockSize :: "'b Local \<Rightarrow> int" where
  "local_BlockSize d = i64 (mdBlockSize (hMetadata (lHeader d)))"

definition local_Close :: "'b Local \<Rightarrow> (local_error, unit) go \<times> 'b Local" where
  "local_Close d = (if lOpen d then (Ok (), d\<lparr>lOpen := False\<rparr>) else (Fail LocalClosed, d))"

definition UpdateHeaderSize :: "int option \<Rightarrow> 'b Local \<Rightarrow> (local_error, 'b Local) go" where
  "UpdateHeaderSize stat d =
     (case stat of
        None \<Rightarrow> Fail LocalStat
      | Some sz \<Rightarrow>
          Ok (d\<lparr>lHeader := (lHeader d)\<lparr>hMetadata := (hMetadata (lHeader d))\<lparr>mdSize := u64 sz\<rparr>\<rparr>\<rparr>))"

subsection \<open>The overlay over a device\<close>

text \<open>A byte of the overlay is the cache's where its block is marked, and the device's elsewhere.\<close>

definition overlay_view :: "int \<Rightarrow> int set \<Rightarrow> byte list \<Rightarrow> byte list \<Rightarrow> byte list" where
  "overlay_view bs dirty mm base =
     map (\<lambda>i. if (int i div bs) * bs \<in> dirty then mm ! i else base ! i) [0..<length base]"

lemma length_overlay_view [simp]: "length (overlay_view bs dirty mm base) = length base"
  by (simp add: overlay_view_def)

lemma overlay_view_block:
  assumes "0 < bs" "0 \<le> off" "bs dvd off" "off + bs \<le> int (length base)" "length mm = length base"
  shows "slice_at (overlay_view bs dirty mm base) off bs =
    (if off \<in> dirty then slice_at mm off bs else slice_at base off bs)"
proof (rule nth_equalityI)
  have fit: "nat off + nat bs \<le> length base" using assms by linarith
  then show "length (slice_at (overlay_view bs dirty mm base) off bs) =
      length (if off \<in> dirty then slice_at mm off bs else slice_at base off bs)"
    using assms(5) by simp
  fix i assume "i < length (slice_at (overlay_view bs dirty mm base) off bs)"
  then have i: "i < nat bs" "nat off + i < length base" using fit by auto
  obtain q where q: "off = q * bs" using assms(3) by (auto simp: dvd_def mult.commute)
  have "int (nat off + i) = q * bs + int i" using assms(2) q by simp
  then have "(int (nat off + i) div bs) * bs = off" using i(1) q assms(1) by simp
  with i fit assms(5) show "slice_at (overlay_view bs dirty mm base) off bs ! i =
      (if off \<in> dirty then slice_at mm off bs else slice_at base off bs) ! i"
    by (auto simp: overlay_view_def)
qed

definition overlay_bytes :: "('d \<Rightarrow> byte list) \<Rightarrow> 'd Overlay \<Rightarrow> byte list" where
  "overlay_bytes devBytes o' =
     overlay_view (oBlockSize o') (cDirty (oCache o')) (the (cMmap (oCache o'))) (devBytes (oDevice o'))"

definition overlay_ok :: "('d \<Rightarrow> int) \<Rightarrow> ('d \<Rightarrow> bool) \<Rightarrow> ('d \<Rightarrow> byte list) \<Rightarrow> 'd Overlay \<Rightarrow> bool" where
  "overlay_ok devBlockSize devOk devBytes o' \<longleftrightarrow>
     devOk (oDevice o') \<and> cache_open (oCache o') (the (cMmap (oCache o'))) \<and> cache_aligned (oCache o') \<and>
     \<not> cDirtyFile (oCache o') \<and> oBlockSize o' = devBlockSize (oDevice o') \<and>
     cBlockSize (oCache o') = oBlockSize o' \<and> cSize (oCache o') = int (length (devBytes (oDevice o'))) \<and>
     oBlockSize o' dvd cSize (oCache o')"

lemma write_next_block:
  assumes "length q = m"
  shows "write_slice (a @ replicate (m + k) z) (length a) q = (a @ q) @ replicate k z"
  using assms by (simp add: write_slice_def)

lemma take_next_block: "go_slice (a @ replicate (m + k) z) (int (length a)) (int (length a) + int m) = Some (replicate m z)"
  by (simp add: go_slice_def nat_add_distrib)

context readonly_device
begin

abbreviation ov_ok :: "'d Overlay \<Rightarrow> bool" where
  "ov_ok \<equiv> overlay_ok dev_BlockSize dev_ok dev_bytes"

lemma overlay_read_block:
  assumes ok: "ov_ok ov" and off: "0 \<le> off" "oBlockSize ov dvd off" "off + oBlockSize ov \<le> cSize (oCache ov)"
    and b: "i64 blockOff = blockOff" "go_slice p blockOff (i64 (blockOff + oBlockSize ov)) = Some (replicate (nat (oBlockSize ov)) 0)"
    and at: "i64 (base + blockOff) = off"
  shows "\<exists>ov'. overlayReadLoop dev_ReadAt ov p base (blockOff # blocks) =
      overlayReadLoop dev_ReadAt ov'
        (write_slice p (nat blockOff) (slice_at (overlay_bytes dev_bytes ov) off (oBlockSize ov))) base blocks \<and>
    ov_ok ov' \<and> overlay_bytes dev_bytes ov' = overlay_bytes dev_bytes ov \<and> oBlockSize ov' = oBlockSize ov \<and>
    oCache ov' = oCache ov \<and> oCacheEjected ov' = oCacheEjected ov"
proof -
  let ?bs = "oBlockSize ov" and ?c = "oCache ov" and ?d = "oDevice ov"
  let ?q = "replicate (nat ?bs) (0::byte)"
  obtain mm where mm: "cMmap ?c = Some mm" "cache_open ?c mm"
    using ok by (auto simp: overlay_ok_def cache_open_def)
  have dev: "dev_ok ?d" and eq: "dev_BlockSize ?d = ?bs" "cBlockSize ?c = ?bs"
      "cSize ?c = int (length (dev_bytes ?d))" and nd: "\<not> cDirtyFile ?c"
    using ok by (auto simp: overlay_ok_def)
  have bs: "0 < ?bs" using block_size_pos [OF dev] eq by simp
  have len: "length mm = length (dev_bytes ?d)" using mm(2) eq(3) by (auto simp: cache_open_def)
  have view: "slice_at (overlay_bytes dev_bytes ov) off ?bs =
      (if off \<in> cDirty ?c then slice_at mm off ?bs else slice_at (dev_bytes ?d) off ?bs)"
    using overlay_view_block [OF bs off(1,2) _ len] off(3) eq(3) mm(1) by (simp add: overlay_bytes_def)
  have c: "cache_ReadAt ?c ?q off =
      (if off \<in> cDirty ?c then Ok (?bs, slice_at mm off ?bs) else Fail BytesNotAvailable)"
    using cache_ReadAt_block [OF mm(2) off(1), of ?q] off(3) eq(2) bs nd by auto
  show ?thesis
  proof (cases "off \<in> cDirty ?c")
    case True
    with b c at view ok show ?thesis by (intro exI [of _ ov]) simp
  next
    case False
    from read_block [OF dev off(1), of ?q] off eq bs obtain d' where
      d': "dev_ReadAt ?d ?q off = (Ok (?bs, slice_at (dev_bytes ?d) off ?bs), d')"
        "dev_ok d'" "dev_bytes d' = dev_bytes ?d" "dev_BlockSize d' = ?bs" by auto
    with False b c at view have "overlayReadLoop dev_ReadAt ov p base (blockOff # blocks) =
      overlayReadLoop dev_ReadAt (ov\<lparr>oDevice := d'\<rparr>)
        (write_slice p (nat blockOff) (slice_at (overlay_bytes dev_bytes ov) off ?bs)) base blocks" by simp
    moreover have "ov_ok (ov\<lparr>oDevice := d'\<rparr>)" using ok d' by (auto simp: overlay_ok_def)
    ultimately show ?thesis using d' by (intro exI [of _ "ov\<lparr>oDevice := d'\<rparr>"]) (simp add: overlay_bytes_def)
  qed
qed

lemma overlayReadLoop_blocks:
  assumes "ov_ok ov" "bs = oBlockSize ov" "0 \<le> off" "bs dvd off"
    "off + int n * bs \<le> cSize (oCache ov)" "j \<le> n" "view = overlay_bytes dev_bytes ov"
    "p = slice_at view off (int j * bs) @ replicate (nat (int (n - j) * bs)) 0"
  shows "\<exists>ov'. overlayReadLoop dev_ReadAt ov p off (map (\<lambda>i. int i * bs) [j..<n]) =
      (Ok (int n * bs, slice_at view off (int n * bs)), ov') \<and>
    ov_ok ov' \<and> overlay_bytes dev_bytes ov' = view \<and> oBlockSize ov' = bs \<and>
    oCache ov' = oCache ov \<and> oCacheEjected ov' = oCacheEjected ov"
  using assms
proof (induction "n - j" arbitrary: ov j p)
  case 0
  then have bs: "0 < bs" using block_size_pos by (auto simp: overlay_ok_def)
  have len: "int (length view) = cSize (oCache ov)"
    using "0.prems"(1,7) by (simp add: overlay_ok_def overlay_bytes_def)
  have "j = n" "p = slice_at view off (int n * bs)" using 0 by auto
  moreover have "int (length p) = int n * bs" using calculation bs len "0.prems"(3,5) by simp
  ultimately show ?case using "0.prems" by simp
next
  case (Suc m)
  then have bs: "0 < bs" using block_size_pos by (auto simp: overlay_ok_def)
  have bound: "cSize (oCache ov) + bs \<le> 9223372036854775807" and len: "int (length view) = cSize (oCache ov)"
    using Suc.prems(1,2,7) by (auto simp: overlay_ok_def cache_open_def overlay_bytes_def)
  have j: "j < n" "n - j = Suc (n - Suc j)" "m = n - Suc j" using Suc.hyps(2) by auto
  let ?o = "off + int j * bs" and ?a = "slice_at view off (int j * bs)"
  have jn: "int j * bs + bs \<le> int n * bs" using j(1) bs mult_right_mono [of "int j + 1" "int n" bs] by (simp add: distrib_right)
  have a: "int (length ?a) = int j * bs" using bs len jn Suc.prems(3,5) by simp
  have p: "p = ?a @ replicate (nat bs + nat (int (n - Suc j) * bs)) 0"
  proof -
    have "int (n - j) = 1 + int (n - Suc j)" using j(2) by linarith
    then have "int (n - j) * bs = bs + int (n - Suc j) * bs" by (simp only: distrib_right mult_1)
    moreover have "0 \<le> int (n - Suc j) * bs" using bs by (intro mult_nonneg_nonneg) auto
    ultimately have "nat (int (n - j) * bs) = nat bs + nat (int (n - Suc j) * bs)" using bs by linarith
    with Suc.prems(8) show ?thesis by simp
  qed
  have la: "nat (int j * bs) = length ?a" using a by linarith
  have slice: "go_slice p (int j * bs) (int j * bs + bs) = Some (replicate (nat bs) 0)"
    using take_next_block [of ?a "nat bs" "nat (int (n - Suc j) * bs)" 0] bs unfolding p a by simp
  have jpos: "0 \<le> int j * bs" using bs by (intro mult_nonneg_nonneg) auto
  have wrap: "i64 (int j * bs) = int j * bs" "i64 (int j * bs + bs) = int j * bs + bs" "i64 ?o = ?o"
    by (rule i64_id; use bound bs jn jpos Suc.prems(3,5) in linarith)+
  have o: "0 \<le> ?o" "oBlockSize ov dvd ?o" "?o + oBlockSize ov \<le> cSize (oCache ov)"
    using Suc.prems(2-5) jpos jn by auto
  have "go_slice p (int j * bs) (i64 (int j * bs + oBlockSize ov)) = Some (replicate (nat (oBlockSize ov)) 0)"
    using slice wrap(2) unfolding Suc.prems(2) by simp
  from overlay_read_block [OF Suc.prems(1) o wrap(1) this wrap(3), folded Suc.prems(2) Suc.prems(7),
      of "map (\<lambda>i. int i * bs) [Suc j..<n]"] obtain ov1 where
    o1: "overlayReadLoop dev_ReadAt ov p off (int j * bs # map (\<lambda>i. int i * bs) [Suc j..<n]) =
      overlayReadLoop dev_ReadAt ov1 (write_slice p (nat (int j * bs)) (slice_at view ?o bs)) off
        (map (\<lambda>i. int i * bs) [Suc j..<n])"
      "ov_ok ov1" "overlay_bytes dev_bytes ov1 = view" "oBlockSize ov1 = bs" "oCache ov1 = oCache ov"
      "oCacheEjected ov1 = oCacheEjected ov"
    by blast
  have "nat ?o + nat bs \<le> length view" using len o bs Suc.prems(2) by linarith
  then have "write_slice p (length ?a) (slice_at view ?o bs) =
      (?a @ slice_at view ?o bs) @ replicate (nat (int (n - Suc j) * bs)) 0"
    unfolding p by (intro write_next_block) simp
  then have "write_slice p (nat (int j * bs)) (slice_at view ?o bs) =
      (?a @ slice_at view ?o bs) @ replicate (nat (int (n - Suc j) * bs)) 0" by (simp only: la [symmetric])
  also have "?a @ slice_at view ?o bs = slice_at view off (int (Suc j) * bs)"
    using slice_at_split [of off "int j * bs" "int (Suc j) * bs" view] Suc.prems(3) bs by (simp add: distrib_right)
  finally have p1: "write_slice p (nat (int j * bs)) (slice_at view ?o bs) =
    slice_at view off (int (Suc j) * bs) @ replicate (nat (int (n - Suc j) * bs)) 0" .
  from Suc.hyps(1) [OF j(3) o1(2) _ Suc.prems(3,4) _ _ _ p1] o1 Suc.prems j(1) obtain ov' where
    "overlayReadLoop dev_ReadAt ov1 (write_slice p (nat (int j * bs)) (slice_at view ?o bs)) off
        (map (\<lambda>i. int i * bs) [Suc j..<n]) = (Ok (int n * bs, slice_at view off (int n * bs)), ov')"
    "ov_ok ov'" "overlay_bytes dev_bytes ov' = view" "oBlockSize ov' = bs" "oCache ov' = oCache ov"
    "oCacheEjected ov' = oCacheEjected ov" by auto
  moreover have "map (\<lambda>i. int i * bs) [j..<n] = int j * bs # map (\<lambda>i. int i * bs) [Suc j..<n]"
    using j(1) by (simp add: upt_conv_Cons)
  ultimately show ?case using o1(1) by auto
qed

lemma overlay_ReadAt_view:
  assumes ok: "ov_ok ov" and off: "0 \<le> off" "oBlockSize ov dvd off"
    and p: "p \<noteq> []" "oBlockSize ov dvd int (length p)" "set p \<subseteq> {0}"
    and fit: "off + int (length p) \<le> int (length (overlay_bytes dev_bytes ov))"
  shows "\<exists>ov'. overlay_ReadAt dev_ReadAt ov p off =
      (Ok (int (length p), slice_at (overlay_bytes dev_bytes ov) off (int (length p))), ov') \<and>
    ov_ok ov' \<and> overlay_bytes dev_bytes ov' = overlay_bytes dev_bytes ov \<and> oBlockSize ov' = oBlockSize ov \<and>
    oCache ov' = oCache ov \<and> oCacheEjected ov' = oCacheEjected ov"
proof -
  let ?bs = "oBlockSize ov"
  have bs: "0 < ?bs" using ok block_size_pos by (auto simp: overlay_ok_def)
  have sz: "cSize (oCache ov) = int (length (overlay_bytes dev_bytes ov))"
    "cSize (oCache ov) + ?bs \<le> 9223372036854775807"
    using ok by (auto simp: overlay_ok_def cache_open_def overlay_bytes_def)
  obtain k where "int (length p) = k * ?bs" using p(2) by (auto simp: dvd_def mult.commute)
  moreover have "0 \<le> k" using calculation bs by (metis of_nat_0_le_iff zero_le_mult_iff not_less)
  ultimately obtain n where n: "int (length p) = int n * ?bs" by (metis nat_0_le)
  have blocks: "BlocksOffsets (int (length p)) ?bs = (Ok (map (\<lambda>i. int i * ?bs) [0..<n]) :: ('e, int list) go)"
  proof -
    have "(int n * ?bs + ?bs - 1) div ?bs = ((?bs - 1) + int n * ?bs) div ?bs" by (simp add: algebra_simps)
    also have "\<dots> = int n" using bs by (simp only: div_mult_self1) simp
    finally show ?thesis using BlocksOffsets_Ok [of "int (length p)" ?bs] bs sz fit off(1) n by simp
  qed
  have "p = replicate (length p) 0" using p(3) by (intro replicate_eqI) auto
  moreover have "length p = nat (int n * ?bs)" using n by linarith
  ultimately have "p = slice_at (overlay_bytes dev_bytes ov) off (int 0 * ?bs) @ replicate (nat (int (n - 0) * ?bs)) 0"
    by simp
  from overlayReadLoop_blocks [OF ok refl off _ _ refl this] n fit sz(1) blocks show ?thesis
    by (auto simp: overlay_ReadAt_def)
qed

text \<open>Writing whole blocks changes these blocks of the overlay and no others.\<close>

lemma overlay_WriteAt_view:
  assumes ok: "ov_ok ov" and off: "0 \<le> off" "oBlockSize ov dvd off" "oBlockSize ov dvd int (length b)"
    and fit: "off + int (length b) \<le> int (length (overlay_bytes dev_bytes ov))"
  shows "\<exists>ov'. overlay_WriteAt ov b off = Ok (int (length b), ov') \<and> ov_ok ov' \<and>
    overlay_bytes dev_bytes ov' = write_slice (overlay_bytes dev_bytes ov) (nat off) b \<and>
    oDevice ov' = oDevice ov \<and> oBlockSize ov' = oBlockSize ov \<and> oCacheEjected ov' = oCacheEjected ov"
proof -
  let ?bs = "oBlockSize ov" and ?c = "oCache ov" and ?base = "dev_bytes (oDevice ov)"
  obtain mm where mm: "cMmap ?c = Some mm" "cache_open ?c mm"
    using ok by (auto simp: overlay_ok_def cache_open_def)
  have eq: "cBlockSize ?c = ?bs" "cSize ?c = int (length ?base)" and bs: "0 < ?bs" and al: "cache_aligned ?c"
    using ok block_size_pos by (auto simp: overlay_ok_def)
  have len: "length mm = length ?base" using mm(2) eq(2) by (auto simp: cache_open_def)
  have fit': "off + int (length b) \<le> cSize ?c" using fit eq by (simp add: overlay_bytes_def)
  from WriteAt_open [OF mm(2) off(1) fit'] obtain c' where
    c': "cache_WriteAt ?c b off = Ok (int (length b), c')" "cache_open c' (write_slice mm (nat off) b)"
      "cDirty c' = cDirty ?c \<union> {off + k | k. 0 \<le> k \<and> k < int (length b) \<and> ?bs dvd k}"
      "cSize c' = cSize ?c" "cBlockSize c' = ?bs" "cDirtyFile c' = cDirtyFile ?c"
    using eq by auto
  let ?ov = "ov\<lparr>oCache := c'\<rparr>"
  have mm': "cMmap c' = Some (write_slice mm (nat off) b)" using c'(2) by (simp add: cache_open_def)
  have "cache_aligned c'" using al off(2) c'(3,5) eq(1) by (auto simp: cache_aligned_def)
  with ok c' mm' have "ov_ok ?ov" by (auto simp: overlay_ok_def)
  moreover have "overlay_bytes dev_bytes ?ov = write_slice (overlay_bytes dev_bytes ov) (nat off) b"
  proof (rule nth_equalityI)
    have fitn: "nat off + length b \<le> length ?base" using fit' eq(2) off(1) by linarith
    then show "length (overlay_bytes dev_bytes ?ov) = length (write_slice (overlay_bytes dev_bytes ov) (nat off) b)"
      by (simp add: overlay_bytes_def)
    fix i assume "i < length (overlay_bytes dev_bytes ?ov)"
    then have i: "i < length ?base" by (simp add: overlay_bytes_def)
    let ?b = "int i div ?bs * ?bs"
    have new: "?b \<in> {off + k | k. 0 \<le> k \<and> k < int (length b) \<and> ?bs dvd k} \<longleftrightarrow>
        nat off \<le> i \<and> i < nat off + length b"
    proof -
      obtain u v where uv: "off = u * ?bs" "int (length b) = v * ?bs"
        using off(2,3) by (auto simp: dvd_def mult.commute)
      have *: "off \<le> ?b \<longleftrightarrow> off \<le> int i" "?b < off + int (length b) \<longleftrightarrow> int i < off + int (length b)"
        using uv bs mult_le_iff_le_div [OF bs, of u "int i"] less_mult_iff_div_less [OF bs, of "int i" "u + v"]
        by (auto simp: distrib_right [symmetric])
      have "?b \<in> {off + k | k. 0 \<le> k \<and> k < int (length b) \<and> ?bs dvd k} \<longleftrightarrow> off \<le> ?b \<and> ?b < off + int (length b)"
        using off(2) by (auto intro!: exI [of _ "?b - off"])
      with * off(1) show ?thesis by (auto simp: nat_le_iff)
    qed
    show "overlay_bytes dev_bytes ?ov ! i = write_slice (overlay_bytes dev_bytes ov) (nat off) b ! i"
      using i fitn new len mm mm' c'(3)
      by (auto simp: overlay_bytes_def overlay_view_def nth_write_slice)
  qed
  ultimately show ?thesis using c'(1) by (auto simp: overlay_WriteAt_def)
qed

end

text \<open>The overlay of a device is a writable device, with the overlaid bytes.\<close>

locale overlaid_device = readonly_device
begin

lemma overlay_readonly_device:
  "readonly_device (overlay_ReadAt dev_ReadAt) oBlockSize ov_ok (overlay_bytes dev_bytes)"
proof
  show "0 < oBlockSize ov" if "ov_ok ov" for ov
    using that block_size_pos by (auto simp: overlay_ok_def)
  show "int (length (overlay_bytes dev_bytes ov)) + oBlockSize ov \<le> 9223372036854775807" if "ov_ok ov" for ov
    using that size_bound by (auto simp: overlay_ok_def overlay_bytes_def)
  fix ov off and p :: "byte list"
  assume "ov_ok ov" "0 \<le> off" "oBlockSize ov dvd off" "int (length p) = oBlockSize ov"
    "off + int (length p) \<le> int (length (overlay_bytes dev_bytes ov))" "set p \<subseteq> {0}"
  moreover have "0 < oBlockSize ov" using calculation(1) block_size_pos by (auto simp: overlay_ok_def)
  then have "p \<noteq> []" using calculation(4) by auto
  ultimately show "\<exists>ov'. overlay_ReadAt dev_ReadAt ov p off =
      (Ok (int (length p), slice_at (overlay_bytes dev_bytes ov) off (int (length p))), ov') \<and>
      ov_ok ov' \<and> overlay_bytes dev_bytes ov' = overlay_bytes dev_bytes ov \<and> oBlockSize ov' = oBlockSize ov"
    using overlay_ReadAt_view [of ov off p] by auto
qed

lemma overlay_block_device:
  "block_device (overlay_ReadAt dev_ReadAt) oBlockSize ov_ok (overlay_bytes dev_bytes) overlay_WriteAt"
  unfolding block_device_def block_device_axioms_def
  using overlay_readonly_device overlay_WriteAt_view by blast

end

sublocale overlaid_device \<subseteq>
  overlay: block_device "overlay_ReadAt dev_ReadAt" oBlockSize "overlay_ok dev_BlockSize dev_ok dev_bytes"
    "overlay_bytes dev_bytes" overlay_WriteAt
  by (rule overlay_block_device)

subsection \<open>Empty and Local are devices\<close>

definition empty_ok :: "'b Empty \<Rightarrow> bool" where
  "empty_ok e \<longleftrightarrow>
     0 < mdBlockSize (hMetadata (eHeader e)) \<and> 0 \<le> mdSize (hMetadata (eHeader e)) \<and>
     mdSize (hMetadata (eHeader e)) + mdBlockSize (hMetadata (eHeader e)) \<le> 9223372036854775807"

definition empty_bytes :: "'b Empty \<Rightarrow> byte list" where
  "empty_bytes e = replicate (nat (mdSize (hMetadata (eHeader e)))) 0"

definition local_ok :: "'b Local \<Rightarrow> bool" where
  "local_ok d \<longleftrightarrow>
     lOpen d \<and> mdSize (hMetadata (lHeader d)) = int (length (lFile d)) \<and> 0 < mdBlockSize (hMetadata (lHeader d)) \<and>
     mdSize (hMetadata (lHeader d)) + mdBlockSize (hMetadata (lHeader d)) \<le> 9223372036854775807"

lemma clamp_length_inside:
  "0 \<le> off \<Longrightarrow> 0 \<le> len \<Longrightarrow> off + len \<le> sz \<Longrightarrow> sz < 9223372036854775808 \<Longrightarrow> clamp_length sz off len = len"
  by (simp add: clamp_length_def)

lemma empty_ReadAt_zeros:
  assumes ok: "empty_ok e" and off: "0 \<le> off" "off + int (length p) \<le> int (length (empty_bytes e))"
  shows "\<exists>e'. empty_ReadAt e p off =
      (Ok (int (length p), slice_at (empty_bytes e) off (int (length p))) :: ('e, int \<times> byte list) go, e') \<and>
      empty_ok e' \<and> empty_bytes e' = empty_bytes e \<and> empty_BlockSize e' = empty_BlockSize e"
proof -
  have "clamp_length (i64 (mdSize (hMetadata (eHeader e)))) off (int (length p)) = int (length p)"
    using ok off by (subst clamp_length_inside) (auto simp: empty_ok_def empty_bytes_def)
  then have "empty_ReadAt e p off = (Ok (int (length p), replicate (length p) 0) :: ('e, int \<times> byte list) go, e)"
    by (simp add: empty_ReadAt_def empty_Slice_def Let_def)
  moreover have "slice_at (empty_bytes e) off (int (length p)) = replicate (length p) 0"
  proof -
    have "length p \<le> nat (mdSize (hMetadata (eHeader e))) - nat off" using off unfolding empty_bytes_def length_replicate by linarith
    then show ?thesis by (simp add: empty_bytes_def)
  qed
  ultimately show ?thesis using ok by simp
qed

interpretation empty_device: readonly_device empty_ReadAt empty_BlockSize empty_ok empty_bytes
  by unfold_locales
    (blast intro: empty_ReadAt_zeros | simp add: empty_ok_def empty_BlockSize_def empty_bytes_def)+

lemma local_ReadAt_file:
  assumes ok: "local_ok d" and off: "0 \<le> off" "off + int (length p) \<le> int (length (lFile d))"
  shows "\<exists>d'. local_ReadAt d p off = (Ok (int (length p), slice_at (lFile d) off (int (length p))), d') \<and>
      local_ok d' \<and> lFile d' = lFile d \<and> local_BlockSize d' = local_BlockSize d"
proof -
  have "clamp_length (i64 (mdSize (hMetadata (lHeader d)))) off (int (length p)) = int (length p)"
    using ok off by (subst clamp_length_inside) (auto simp: local_ok_def)
  then have "local_Slice d off (int (length p)) = Ok (slice_at (lFile d) off (int (length p)))"
    using ok off by (simp add: local_Slice_def Let_def os_ReadAt_def local_ok_def)
  moreover have "length (slice_at (lFile d) off (int (length p))) = length p" using off by auto
  ultimately show ?thesis using ok by (simp add: local_ReadAt_def)
qed

interpretation local_device: readonly_device local_ReadAt local_BlockSize local_ok lFile
  by unfold_locales (blast intro: local_ReadAt_file | simp add: local_ok_def local_BlockSize_def)+

text \<open>So are overlays over them.\<close>

interpretation empty_overlay: overlaid_device empty_ReadAt empty_BlockSize empty_ok empty_bytes
  by unfold_locales

interpretation local_overlay: overlaid_device local_ReadAt local_BlockSize local_ok lFile
  by unfold_locales

end
