(* ===== verification/Build_Diff.thy ===== *)
theory Build_Diff
  imports Set_Once Block_Chunker Block_Device
begin

text \<open>
  Diffs of builds, \<^verbatim>\<open>packages/orchestrator/pkg/sandbox/build\<close>: the diff of one build is empty
  (\<^verbatim>\<open>NoDiff\<close>), a local file (\<^verbatim>\<open>local_diff.go\<close>) or an object in storage read through a chunker
  (\<^verbatim>\<open>storage_diff.go\<close>).

  The Go interface \<^verbatim>\<open>Chunker\<close> is the record \<open>chunker_ops\<close>, whose functions the definitions take as an
  argument; \<open>full_chunker\<close> builds it from \<^verbatim>\<open>FullFetchChunker\<close>.  The storage provider is the parameter
  \<open>storage_env\<close>.  \<open>None\<close> is a call that blocks for ever on a chunker that is never set.
\<close>

subsection \<open>Interfaces\<close>

record ('e, 'c) chunker_ops =
  chNew :: "string \<Rightarrow> int \<Rightarrow> int \<Rightarrow> string \<Rightarrow> ('e, 'c) go"
  chReadAt :: "'c \<Rightarrow> byte list \<Rightarrow> int \<Rightarrow> ('e, int \<times> byte list) go \<times> 'c"
  chSlice :: "'c \<Rightarrow> int \<Rightarrow> int \<Rightarrow> ('e, byte list) go \<times> 'c"
  chClose :: "'c \<Rightarrow> ('e, unit) go \<times> 'c"
  chFileSize :: "'c \<Rightarrow> ('e, int) go"

record 's storage_env =
  stOpen :: "string \<Rightarrow> bool"
  stSize :: "string \<Rightarrow> int option"
  stRead :: "string \<Rightarrow> 's base_reader"
  stFile :: "string \<Rightarrow> file_env"

definition full_chunker ::
  "'s storage_env \<Rightarrow> (int list \<Rightarrow> int list) \<Rightarrow> bool \<Rightarrow> bool \<Rightarrow> (string \<Rightarrow> int option \<times> int option) \<Rightarrow>
   ('s chunk_error, string \<times> FullFetchChunker) chunker_ops" where
  "full_chunker st sched unmapOk removeOk stat =
     \<lparr>chNew = (\<lambda>path sz blockSize cachePath.
        case NewFullFetchChunker (stFile st cachePath) sz blockSize cachePath of
          Ok fc \<Rightarrow> Ok (path, fc) | Fail e \<Rightarrow> Fail (CacheErr e) | Panic \<Rightarrow> Panic),
      chReadAt = (\<lambda>(path, fc) p off. let (r, fc') = chunker_ReadAt (stRead st path) False sched fc p off in (r, path, fc')),
      chSlice = (\<lambda>(path, fc) off len. let (r, fc') = chunker_Slice (stRead st path) False sched fc off len in (r, path, fc')),
      chClose = (\<lambda>(path, fc).
        case chunker_Close unmapOk removeOk fc of
          (Ok _, fc') \<Rightarrow> (Ok (), path, fc') | (Fail e, fc') \<Rightarrow> (Fail (CacheErr e), path, fc')
        | (Panic, fc') \<Rightarrow> (Panic, path, fc')),
      chFileSize = (\<lambda>(path, fc).
        case cache_FileSize (fst (stat (cFilePath (fcCache fc)))) (snd (stat (cFilePath (fcCache fc)))) of
          Ok n \<Rightarrow> Ok n | Fail e \<Rightarrow> Fail (CacheErr e) | Panic \<Rightarrow> Panic)\<rparr>"

subsection \<open>diff.go\<close>

type_synonym DiffType = string
type_synonym DiffStoreKey = string

definition Memfile :: DiffType where "Memfile = ''memfile''"
definition Rootfs :: DiffType where "Rootfs = ''rootfs.ext4''"

datatype 'e diff_error =
    NoDiffError
  | UnknownDiffType DiffType
  | DiffCacheErr cache_error
  | DiffChunkErr "'e once_error"
  | OpenSeekableFailed
  | ObjectSizeFailed
  | ChunkerFailed 'e
  | LocalFileFailed

text \<open>The random suffix of the cache file is an argument.\<close>

definition GenerateDiffCachePath :: "string \<Rightarrow> string \<Rightarrow> string \<Rightarrow> DiffType \<Rightarrow> string" where
  "GenerateDiffCachePath suffix basePath buildId diffType =
     basePath @ ''/'' @ buildId @ ''-'' @ diffType @ ''-'' @ suffix"

definition GetDiffStoreKey :: "string \<Rightarrow> DiffType \<Rightarrow> DiffStoreKey" where
  "GetDiffStoreKey buildID diffType = buildID @ ''/'' @ diffType"

subsection \<open>storage_diff.go\<close>

datatype SeekableObjectType = UnknownSeekableObjectType | MemfileObjectType | RootFSObjectType

definition storagePath_of :: "string \<Rightarrow> DiffType \<Rightarrow> string" where
  "storagePath_of buildId diffType = buildId @ ''/'' @ diffType"

definition storageObjectType :: "DiffType \<Rightarrow> SeekableObjectType \<times> bool" where
  "storageObjectType diffType =
     (if diffType = Memfile then (MemfileObjectType, True)
      else if diffType = Rootfs then (RootFSObjectType, True)
      else (UnknownSeekableObjectType, False))"

record ('e, 'c) StorageDiff =
  sdChunker :: "('e, 'c) SetOnce"
  sdCachePath :: string
  sdCacheKey :: DiffStoreKey
  sdStoragePath :: string
  sdObjectType :: SeekableObjectType
  sdBlockSize :: int

definition newStorageDiff ::
  "string \<Rightarrow> string \<Rightarrow> string \<Rightarrow> DiffType \<Rightarrow> int \<Rightarrow> ('e diff_error, ('e, 'c) StorageDiff) go" where
  "newStorageDiff suffix basePath buildId diffType blockSize =
     (case storageObjectType diffType of
        (objectType, ok) \<Rightarrow>
          if \<not> ok then Fail (UnknownDiffType diffType)
          else Ok \<lparr>sdChunker = NewSetOnce, sdCachePath = GenerateDiffCachePath suffix basePath buildId diffType,
                   sdCacheKey = GetDiffStoreKey buildId diffType, sdStoragePath = storagePath_of buildId diffType,
                   sdObjectType = objectType, sdBlockSize = blockSize\<rparr>)"

text \<open>\<open>sizeErr\<close> is the error value that \<^verbatim>\<open>Init\<close> stores when the object's size cannot be read.\<close>

definition storage_Init ::
  "'s storage_env \<Rightarrow> ('e, 'c) chunker_ops \<Rightarrow> 'e \<Rightarrow> ('e, 'c) StorageDiff \<Rightarrow>
   ('e diff_error, unit) go \<times> ('e, 'c) StorageDiff" where
  "storage_Init st ops sizeErr d =
     (if \<not> stOpen st (sdStoragePath d) then (Fail OpenSeekableFailed, d)
      else
        (case stSize st (sdStoragePath d) of
           None \<Rightarrow> (Fail ObjectSizeFailed, d\<lparr>sdChunker := snd (SetError (sdChunker d) sizeErr)\<rparr>)
         | Some sz \<Rightarrow>
             (case chNew ops (sdStoragePath d) sz (sdBlockSize d) (sdCachePath d) of
                Panic \<Rightarrow> (Panic, d)
              | Fail e \<Rightarrow> (Fail (ChunkerFailed e), d\<lparr>sdChunker := snd (SetError (sdChunker d) e)\<rparr>)
              | Ok c \<Rightarrow>
                  (case SetValue (sdChunker d) c of
                     (Ok _, so) \<Rightarrow> (Ok (), d\<lparr>sdChunker := so\<rparr>)
                   | (Fail e, so) \<Rightarrow> (Fail (DiffChunkErr e), d\<lparr>sdChunker := so\<rparr>)
                   | (Panic, so) \<Rightarrow> (Panic, d\<lparr>sdChunker := so\<rparr>)))))"

text \<open>A call on the chunker once it is set; the chunker is behind a pointer, so its new state is kept.\<close>

definition with_chunker ::
  "('e, 'c) StorageDiff \<Rightarrow> ('c \<Rightarrow> ('e, 'r) go \<times> 'c) \<Rightarrow> (('e diff_error, 'r) go \<times> ('e, 'c) StorageDiff) option" where
  "with_chunker d f =
     (case Wait (sdChunker d) of
        None \<Rightarrow> None
      | Some Panic \<Rightarrow> Some (Panic, d)
      | Some (Fail e) \<Rightarrow> Some (Fail (DiffChunkErr e), d)
      | Some (Ok c) \<Rightarrow>
          (case f c of
             (Ok r, c') \<Rightarrow> Some (Ok r, d\<lparr>sdChunker := (sdChunker d)\<lparr>soRes := Some (Inr c')\<rparr>\<rparr>)
           | (Fail e, c') \<Rightarrow>
               Some (Fail (DiffChunkErr (OnceErr e)), d\<lparr>sdChunker := (sdChunker d)\<lparr>soRes := Some (Inr c')\<rparr>\<rparr>)
           | (Panic, c') \<Rightarrow> Some (Panic, d\<lparr>sdChunker := (sdChunker d)\<lparr>soRes := Some (Inr c')\<rparr>\<rparr>)))"

definition storage_ReadAt where
  "storage_ReadAt ops d p off = with_chunker d (\<lambda>c. chReadAt ops c p off)"

definition storage_Slice where
  "storage_Slice ops d off len = with_chunker d (\<lambda>c. chSlice ops c off len)"

definition storage_Close where
  "storage_Close ops d = with_chunker d (chClose ops)"

definition storage_FileSize where
  "storage_FileSize ops d = with_chunker d (\<lambda>c. (chFileSize ops c, c))"

subsection \<open>local_diff.go\<close>

record LocalDiffFile =
  ldfContent :: "byte list"
  ldfCachePath :: string
  ldfCacheKey :: DiffStoreKey

record localDiff =
  ldCacheKey :: DiffStoreKey
  ldCache :: Cache

definition NewLocalDiffFile ::
  "string \<Rightarrow> byte list option \<Rightarrow> string \<Rightarrow> string \<Rightarrow> DiffType \<Rightarrow> ('e diff_error, LocalDiffFile) go" where
  "NewLocalDiffFile suffix file basePath buildId diffType =
     (case file of
        None \<Rightarrow> Fail LocalFileFailed
      | Some content \<Rightarrow>
          Ok \<lparr>ldfContent = content, ldfCachePath = GenerateDiffCachePath suffix basePath buildId diffType,
              ldfCacheKey = GetDiffStoreKey buildId diffType\<rparr>)"

definition NewLocalDiffFromCache :: "DiffStoreKey \<Rightarrow> Cache \<Rightarrow> localDiff" where
  "NewLocalDiffFromCache cacheKey cache = \<lparr>ldCacheKey = cacheKey, ldCache = cache\<rparr>"

definition newLocalDiff ::
  "file_env \<Rightarrow> DiffStoreKey \<Rightarrow> string \<Rightarrow> int \<Rightarrow> int \<Rightarrow> ('e diff_error, localDiff) go" where
  "newLocalDiff env cacheKey cachePath sz blockSize =
     (case NewCache env sz blockSize cachePath True of
        Ok cache \<Rightarrow> Ok (NewLocalDiffFromCache cacheKey cache)
      | Fail e \<Rightarrow> Fail (DiffCacheErr e)
      | Panic \<Rightarrow> Panic)"

datatype ('e, 'c) Diff = NoDiff | LocalDiff localDiff | StoredDiff "('e, 'c) StorageDiff"

definition CloseToDiff ::
  "bool \<Rightarrow> bool \<Rightarrow> bool \<Rightarrow> bool \<Rightarrow> LocalDiffFile \<Rightarrow> int \<Rightarrow> ('e diff_error, ('e, 'c) Diff) go" where
  "CloseToDiff syncOk statOk truncateOk mapOk f blockSize =
     (if \<not> syncOk then Fail LocalFileFailed
      else if \<not> statOk then Fail LocalFileFailed
      else if ldfContent f = [] then Ok NoDiff
      else go_bind (newLocalDiff \<lparr>feOpen = Some (ldfContent f), feTruncate = truncateOk, feMap = mapOk\<rparr>
                      (ldfCacheKey f) (ldfCachePath f) (int (length (ldfContent f))) blockSize)
             (\<lambda>d. Ok (LocalDiff d)))"

subsection \<open>The Diff interface\<close>

definition CacheKey :: "('e, 'c) Diff \<Rightarrow> DiffStoreKey" where
  "CacheKey d =
     (case d of NoDiff \<Rightarrow> '''' | LocalDiff l \<Rightarrow> ldCacheKey l | StoredDiff s \<Rightarrow> sdCacheKey s)"

definition diff_Init ::
  "'s storage_env \<Rightarrow> ('e, 'c) chunker_ops \<Rightarrow> 'e \<Rightarrow> ('e, 'c) Diff \<Rightarrow> ('e diff_error, unit) go \<times> ('e, 'c) Diff" where
  "diff_Init st ops sizeErr d =
     (case d of
        NoDiff \<Rightarrow> (Fail NoDiffError, d)
      | LocalDiff l \<Rightarrow> (Ok (), d)
      | StoredDiff s \<Rightarrow> (let (r, s') = storage_Init st ops sizeErr s in (r, StoredDiff s')))"

definition diff_ReadAt ::
  "('e, 'c) chunker_ops \<Rightarrow> ('e, 'c) Diff \<Rightarrow> byte list \<Rightarrow> int \<Rightarrow>
   (('e diff_error, int \<times> byte list) go \<times> ('e, 'c) Diff) option" where
  "diff_ReadAt ops d p off =
     (case d of
        NoDiff \<Rightarrow> Some (Fail NoDiffError, d)
      | LocalDiff l \<Rightarrow>
          (case cache_ReadAt (ldCache l) p off of
             Ok r \<Rightarrow> Some (Ok r, d) | Fail e \<Rightarrow> Some (Fail (DiffCacheErr e), d) | Panic \<Rightarrow> Some (Panic, d))
      | StoredDiff s \<Rightarrow> map_option (map_prod id StoredDiff) (storage_ReadAt ops s p off))"

definition diff_Slice ::
  "('e, 'c) chunker_ops \<Rightarrow> ('e, 'c) Diff \<Rightarrow> int \<Rightarrow> int \<Rightarrow>
   (('e diff_error, byte list) go \<times> ('e, 'c) Diff) option" where
  "diff_Slice ops d off len =
     (case d of
        NoDiff \<Rightarrow> Some (Fail NoDiffError, d)
      | LocalDiff l \<Rightarrow>
          (case cache_Slice (ldCache l) off len of
             Ok r \<Rightarrow> Some (Ok r, d) | Fail e \<Rightarrow> Some (Fail (DiffCacheErr e), d) | Panic \<Rightarrow> Some (Panic, d))
      | StoredDiff s \<Rightarrow> map_option (map_prod id StoredDiff) (storage_Slice ops s off len))"

definition diff_Close ::
  "('e, 'c) chunker_ops \<Rightarrow> bool \<Rightarrow> bool \<Rightarrow> ('e, 'c) Diff \<Rightarrow> (('e diff_error, unit) go \<times> ('e, 'c) Diff) option" where
  "diff_Close ops unmapOk removeOk d =
     (case d of
        NoDiff \<Rightarrow> Some (Ok (), d)
      | LocalDiff l \<Rightarrow>
          (let (c, res) = cache_Close unmapOk removeOk (ldCache l); d' = LocalDiff (l\<lparr>ldCache := c\<rparr>)
           in (case res of Ok _ \<Rightarrow> Some (Ok (), d') | Fail e \<Rightarrow> Some (Fail (DiffCacheErr e), d') | Panic \<Rightarrow> Some (Panic, d')))
      | StoredDiff s \<Rightarrow> map_option (map_prod id StoredDiff) (storage_Close ops s))"

definition diff_FileSize ::
  "('e, 'c) chunker_ops \<Rightarrow> (string \<Rightarrow> int option \<times> int option) \<Rightarrow> ('e, 'c) Diff \<Rightarrow> ('e diff_error, int) go option" where
  "diff_FileSize ops stat d =
     (case d of
        NoDiff \<Rightarrow> Some (Fail NoDiffError)
      | LocalDiff l \<Rightarrow>
          (case cache_FileSize (fst (stat (cFilePath (ldCache l)))) (snd (stat (cFilePath (ldCache l)))) of
             Ok n \<Rightarrow> Some (Ok n) | Fail e \<Rightarrow> Some (Fail (DiffCacheErr e)) | Panic \<Rightarrow> Some Panic)
      | StoredDiff s \<Rightarrow> map_option fst (storage_FileSize ops s))"

subsection \<open>The contract of a chunker\<close>

text \<open>
  \<open>ch_ok content bs c\<close>: the chunker serves an object with these bytes in blocks of \<open>bs\<close>.  \<open>reach\<close>
  are the ranges it promises to serve, and \<open>new_ok\<close> says when a new one can be made.
\<close>

locale chunker =
  fixes ops :: "('e, 'c) chunker_ops"
    and ch_ok :: "byte list \<Rightarrow> int \<Rightarrow> 'c \<Rightarrow> bool"
    and reach :: "int \<Rightarrow> int \<Rightarrow> bool"
    and new_ok :: "string \<Rightarrow> byte list \<Rightarrow> int \<Rightarrow> string \<Rightarrow> bool"
  assumes ch_new: "new_ok path content bs cachePath \<Longrightarrow>
      \<exists>c. chNew ops path (int (length content)) bs cachePath = Ok c \<and> ch_ok content bs c"
    and ch_read: "ch_ok content bs c \<Longrightarrow> 0 \<le> off \<Longrightarrow> bs dvd off \<Longrightarrow> p \<noteq> [] \<Longrightarrow>
      off + int (length p) \<le> int (length content) \<Longrightarrow> reach off (int (length p)) \<Longrightarrow>
      \<exists>c'. chReadAt ops c p off = (Ok (int (length p), slice_at content off (int (length p))), c') \<and>
        ch_ok content bs c'"

definition full_chunker_ok ::
  "'s storage_env \<Rightarrow> (int list \<Rightarrow> int list) \<Rightarrow> byte list \<Rightarrow> int \<Rightarrow> string \<times> FullFetchChunker \<Rightarrow> bool" where
  "full_chunker_ok st sched content bs c \<longleftrightarrow>
     (\<forall>xs. set (sched xs) = set xs) \<and> base_serves (stRead st (fst c)) content \<and> chunker_ok content (snd c) \<and>
     cBlockSize (fcCache (snd c)) = bs"

definition full_new_ok ::
  "'s storage_env \<Rightarrow> (int list \<Rightarrow> int list) \<Rightarrow> string \<Rightarrow> byte list \<Rightarrow> int \<Rightarrow> string \<Rightarrow> bool" where
  "full_new_ok st sched path content bs cachePath \<longleftrightarrow>
     (\<forall>xs. set (sched xs) = set xs) \<and> base_serves (stRead st path) content \<and> content \<noteq> [] \<and> 0 < bs \<and>
     bs dvd MemoryChunkSize \<and> int (length content) + MemoryChunkSize < 9223372036854775808 \<and>
     feOpen (stFile st cachePath) \<noteq> None \<and> feTruncate (stFile st cachePath) \<and> feMap (stFile st cachePath)"

lemma full_chunker_new:
  assumes "full_new_ok st sched path content bs cachePath"
  shows "\<exists>c. chNew (full_chunker st sched unmapOk removeOk stat) path (int (length content)) bs cachePath = Ok c \<and>
    full_chunker_ok st sched content bs c"
proof -
  from assms obtain old where old: "feOpen (stFile st cachePath) = Some old" by (auto simp: full_new_ok_def)
  have n: "full_new_ok st sched path content bs cachePath" by (rule assms)
  then have bs: "0 < bs" "bs dvd MemoryChunkSize" "0 < int (length content)"
    "int (length content) + MemoryChunkSize < 9223372036854775808" by (auto simp: full_new_ok_def)
  then have "bs \<le> MemoryChunkSize" by (intro zdvd_imp_le) auto
  then have "int (length content) + bs \<le> 9223372036854775807" using bs by linarith
  from NewCache_open [OF old _ _ bs(3,1) this, of cachePath False] n obtain c where
    c: "NewCache (stFile st cachePath) (int (length content)) bs cachePath False = Ok c"
      "cache_open c (file_resize old (length content))" "cDirty c = {}" "cache_aligned c" "cSize c = int (length content)"
      "cBlockSize c = bs" "\<not> cDirtyFile c" by (auto simp: full_new_ok_def)
  moreover have "cMmap c = Some (file_resize old (length content))" using c(2) by (simp add: cache_open_def)
  ultimately have "chunker_ok content \<lparr>fcCache = c, fcSize = int (length content)\<rparr>"
    using bs by (simp add: chunker_ok_def mirrors_def)
  then show ?thesis
    using n c by (auto simp: full_chunker_def NewFullFetchChunker_def full_chunker_ok_def full_new_ok_def)
qed

definition chunk_reach :: "int \<Rightarrow> int \<Rightarrow> bool" where
  "chunk_reach off len \<longleftrightarrow> off + len \<le> fetch_end off len"

lemma chunk_reach_block:
  assumes "0 < bs" "bs dvd MemoryChunkSize" "bs dvd off" "0 \<le> off"
  shows "chunk_reach off bs"
proof -
  have C: "0 < MemoryChunkSize" by simp
  have "off < chunk_start off + MemoryChunkSize" by (rule block_floor(2) [OF C])
  moreover have "bs dvd chunk_start off + MemoryChunkSize" using assms(2) by simp
  ultimately have "off + bs \<le> chunk_start off + MemoryChunkSize" using assms by (intro dvd_less_add_le)
  moreover have "1 \<le> (bs + MemoryChunkSize - 1) div MemoryChunkSize"
    using mult_le_iff_le_div [of MemoryChunkSize 1 "bs + MemoryChunkSize - 1"] assms(1) by simp
  then have "1 * MemoryChunkSize \<le> (bs + MemoryChunkSize - 1) div MemoryChunkSize * MemoryChunkSize"
    by (intro mult_right_mono) auto
  ultimately show ?thesis unfolding chunk_reach_def fetch_end_def by linarith
qed

interpretation full_fetch: chunker "full_chunker st sched unmapOk removeOk stat" "full_chunker_ok st sched" chunk_reach
  "full_new_ok st sched"
proof
  show "\<exists>c. chNew (full_chunker st sched unmapOk removeOk stat) path (int (length content)) bs cachePath = Ok c \<and>
      full_chunker_ok st sched content bs c" if "full_new_ok st sched path content bs cachePath" for path content bs cachePath
    using that by (rule full_chunker_new)
  fix content bs c off and p :: "byte list"
  assume ok: "full_chunker_ok st sched content bs c" and off: "0 \<le> off" "bs dvd off" "p \<noteq> []"
    "off + int (length p) \<le> int (length content)" "chunk_reach off (int (length p))"
  obtain path fc where c: "c = (path, fc)" by (cases c)
  have sched: "\<And>xs. set (sched xs) = set xs" using ok by (simp add: full_chunker_ok_def)
  from chunker_Slice_serves [where sched = sched and off = off and len = "int (length p)" and fc = fc and
      base = "stRead st path" and content = content, OF _ _ sched] ok off c obtain fc' where
    "chunker_Slice (stRead st path) False sched fc off (int (length p)) =
      (Ok (slice_at content off (int (length p))), fc')" "chunker_ok content fc'" "cBlockSize (fcCache fc') = bs"
    by (auto simp: full_chunker_ok_def chunk_reach_def)
  moreover have "length (slice_at content off (int (length p))) = length p" using off by auto
  ultimately show "\<exists>c'. chReadAt (full_chunker st sched unmapOk removeOk stat) c p off =
        (Ok (int (length p), slice_at content off (int (length p))), c') \<and> full_chunker_ok st sched content bs c'"
    using ok c by (auto simp: full_chunker_def chunker_ReadAt_def full_chunker_ok_def)
qed

definition diff_serves ::
  "(byte list \<Rightarrow> int \<Rightarrow> 'c \<Rightarrow> bool) \<Rightarrow> byte list \<Rightarrow> int \<Rightarrow> ('e, 'c) Diff \<Rightarrow> bool" where
  "diff_serves ch_ok content bs d \<longleftrightarrow>
     (case d of
        NoDiff \<Rightarrow> False
      | LocalDiff l \<Rightarrow> cache_open (ldCache l) content \<and> cDirtyFile (ldCache l)
      | StoredDiff s \<Rightarrow>
          soDone (sdChunker s) \<and> (\<exists>c. soRes (sdChunker s) = Some (Inr c) \<and> ch_ok content bs c))"

context chunker
begin

lemma diff_ReadAt_serves:
  assumes d: "diff_serves ch_ok content bs d" and off: "0 \<le> off" "bs dvd off" "p \<noteq> []"
    "off + int (length p) \<le> int (length content)" "reach off (int (length p))"
  shows "\<exists>d'. diff_ReadAt ops d p off =
      Some (Ok (int (length p), slice_at content off (int (length p))), d') \<and>
    diff_serves ch_ok content bs d' \<and> CacheKey d' = CacheKey d"
proof (cases d)
  case (LocalDiff l)
  then have c: "cache_open (ldCache l) content" "cDirtyFile (ldCache l)" using d by (auto simp: diff_serves_def)
  have len: "length (slice_at content off (int (length p))) = length p" using off by auto
  have "0 < int (length p)" using off(3) by simp
  then have "off < cSize (ldCache l)" using off(4) c(1) unfolding cache_open_def by linarith
  then have "cache_Slice (ldCache l) off (int (length p)) = Ok (slice_at content off (int (length p)))"
    using cache_Slice_open [OF c(1) off(1), of "int (length p)"] c off by (auto simp: cache_open_def)
  then have "cache_ReadAt (ldCache l) p off = Ok (int (length p), slice_at content off (int (length p)))"
    using c len by (simp add: cache_ReadAt_def isClosed_def cache_open_def)
  with LocalDiff d show ?thesis by (simp add: diff_ReadAt_def)
next
  case (StoredDiff s)
  then obtain c where c: "soDone (sdChunker s)" "soRes (sdChunker s) = Some (Inr c)" "ch_ok content bs c"
    using d by (auto simp: diff_serves_def)
  from ch_read [OF c(3) off] obtain c' where
    "chReadAt ops c p off = (Ok (int (length p), slice_at content off (int (length p))), c')" "ch_ok content bs c'"
    by blast
  with c StoredDiff show ?thesis
    by (simp add: diff_ReadAt_def storage_ReadAt_def with_chunker_def Wait_def Result_def diff_serves_def CacheKey_def)
qed (use d in \<open>simp add: diff_serves_def\<close>)

end

subsection \<open>A failed Init\<close>

text \<open>
  When the object cannot be opened, \<^verbatim>\<open>Init\<close> returns the error but leaves the chunker unset; every
  later call on the diff then waits for a value that nobody sets.
\<close>

lemma storage_Init_open_failed:
  assumes "newStorageDiff suffix basePath buildId diffType blockSize = Ok d" "\<not> stOpen st (sdStoragePath d)"
  shows "\<exists>d'. storage_Init st ops sizeErr d = (Fail OpenSeekableFailed, d') \<and>
    storage_ReadAt ops d' p off = None \<and> storage_Slice ops d' off len = None \<and> storage_Close ops d' = None"
  using assms
  by (auto simp: newStorageDiff_def storage_Init_def storage_ReadAt_def storage_Slice_def storage_Close_def
      with_chunker_def Wait_def NewSetOnce_def split: prod.splits if_splits)

lemma storage_Init_size_failed:
  assumes "newStorageDiff suffix basePath buildId diffType blockSize = Ok d" "stOpen st (sdStoragePath d)"
    "stSize st (sdStoragePath d) = None"
  shows "\<exists>d'. storage_Init st ops sizeErr d = (Fail ObjectSizeFailed, d') \<and>
    storage_ReadAt ops d' p off = Some (Fail (DiffChunkErr (OnceErr sizeErr)), d')"
  using assms
  by (auto simp: newStorageDiff_def storage_Init_def storage_ReadAt_def with_chunker_def Wait_def NewSetOnce_def
      SetError_def setResult_def Result_def split: prod.splits if_splits)

end
