(* ===== verification/Build_Store.thy ===== *)
theory Build_Store
  imports Build_Diff
begin

text \<open>
  The store of diffs, \<^verbatim>\<open>packages/orchestrator/pkg/sandbox/build/cache.go\<close>.  Diffs are kept in a
  cache with expiry (\<^verbatim>\<open>ttlcache\<close>, not part of the repository); when the disk fills up, the oldest diff
  is scheduled for deletion after a delay, and using it again in the meantime cancels the deletion.

  State.  \<open>dsCache\<close> is the content of the cache.  \<open>dsPending\<close> is the map \<^verbatim>\<open>pdSizes\<close>: per key the size
  and the identity of the \<^verbatim>\<open>cancel\<close> channel.  \<open>dsTimers\<close> are the goroutines of \<^verbatim>\<open>scheduleDelete\<close> that
  still wait: the channel, the key, and whether the channel is closed.  A goroutine whose channel
  is closed leaves by that case of its \<^verbatim>\<open>select\<close>; the deletions that the delay triggers are the steps
  of \<open>timerFires\<close>.

  Of the cache the model relies on what its documentation says: an item that expires or is deleted is
  taken out of the cache at once, and the function given to \<^verbatim>\<open>OnEviction\<close> is then executed on a
  goroutine of its own, which does not hold up the cache.  \<open>evict\<close> is the first, \<open>dsClosing\<close> are the
  goroutines that still have to run, and \<open>evictionCallback\<close> is what one of them does.
\<close>

record ('e, 'c) DiffStore =
  dsCache :: "DiffStoreKey \<rightharpoonup> ('e, 'c) Diff"
  dsPending :: "(DiffStoreKey \<times> int \<times> nat) list"
  dsTimers :: "(nat \<times> DiffStoreKey \<times> bool) list"
  dsClosing :: "(DiffStoreKey \<times> ('e, 'c) Diff) list"
  dsNext :: nat

definition NewDiffStore :: "('e, 'c) DiffStore" where
  "NewDiffStore = \<lparr>dsCache = Map.empty, dsPending = [], dsTimers = [], dsClosing = [], dsNext = 0\<rparr>"

definition fallbackDiffSize :: int where "fallbackDiffSize = push_bit 20 100"

definition cancelTimer :: "nat \<Rightarrow> (nat \<times> DiffStoreKey \<times> bool) list \<Rightarrow> (nat \<times> DiffStoreKey \<times> bool) list" where
  "cancelTimer ch ts = map (\<lambda>(i, k, cancelled). (i, k, cancelled \<or> i = ch)) ts"

definition resetDelete :: "('e, 'c) DiffStore \<Rightarrow> DiffStoreKey \<Rightarrow> ('e, 'c) DiffStore" where
  "resetDelete s key =
     (case map_of (dsPending s) key of
        None \<Rightarrow> s
      | Some (sz, ch) \<Rightarrow>
          s\<lparr>dsPending := filter (\<lambda>(k, _). k \<noteq> key) (dsPending s), dsTimers := cancelTimer ch (dsTimers s)\<rparr>)"

definition isBeingDeleted :: "('e, 'c) DiffStore \<Rightarrow> DiffStoreKey \<Rightarrow> bool" where
  "isBeingDeleted s key \<longleftrightarrow> map_of (dsPending s) key \<noteq> None"

definition scheduleDelete :: "('e, 'c) DiffStore \<Rightarrow> DiffStoreKey \<Rightarrow> int \<Rightarrow> ('e, 'c) DiffStore" where
  "scheduleDelete s key dSize =
     s\<lparr>dsPending := (key, dSize, dsNext s) # filter (\<lambda>(k, _). k \<noteq> key) (dsPending s),
       dsTimers := (dsNext s, key, False) # dsTimers s,
       dsNext := Suc (dsNext s)\<rparr>"

definition getPendingDeletesSize :: "('e, 'c) DiffStore \<Rightarrow> int" where
  "getPendingDeletesSize s = fold (\<lambda>(_, sz, _) acc. i64 (acc + sz)) (dsPending s) 0"

text \<open>\<^verbatim>\<open>Delete\<close> of the cache, or the expiry of an item.\<close>

definition evict :: "('e, 'c) DiffStore \<Rightarrow> DiffStoreKey \<Rightarrow> ('e, 'c) DiffStore" where
  "evict s key =
     (case dsCache s key of
        None \<Rightarrow> s
      | Some d \<Rightarrow> s\<lparr>dsCache := (dsCache s)(key := None), dsClosing := dsClosing s @ [(key, d)]\<rparr>)"

text \<open>
  The function given to \<^verbatim>\<open>OnEviction\<close>, on the goroutine of the \<open>n\<close>-th item in \<open>dsClosing\<close>: it closes the
  diff, which may block (\<open>None\<close>), and only then forgets the pending deletion of the key.
\<close>

definition evictionCallback ::
  "('e, 'c) chunker_ops \<Rightarrow> bool \<Rightarrow> bool \<Rightarrow> ('e, 'c) DiffStore \<Rightarrow> nat \<Rightarrow> ('e, 'c) DiffStore option" where
  "evictionCallback ops unmapOk removeOk s n =
     (if n < length (dsClosing s)
      then (let (key, d) = dsClosing s ! n
            in (case diff_Close ops unmapOk removeOk d of
                  None \<Rightarrow> None
                | Some _ \<Rightarrow>
                    Some (resetDelete (s\<lparr>dsClosing := take n (dsClosing s) @ drop (Suc n) (dsClosing s)\<rparr>) key)))
      else Some s)"

definition timerFires :: "('e, 'c) DiffStore \<Rightarrow> nat \<Rightarrow> ('e, 'c) DiffStore" where
  "timerFires s ch =
     (case map_of (dsTimers s) ch of
        None \<Rightarrow> s
      | Some (key, cancelled) \<Rightarrow>
          (let s' = s\<lparr>dsTimers := filter (\<lambda>(i, _). i \<noteq> ch) (dsTimers s)\<rparr>
           in if cancelled then s' else evict s' key))"

text \<open>
  \<open>order\<close> lists the keys of the cache from the oldest on, as \<^verbatim>\<open>RangeBackwards\<close> visits them, and
  \<open>fileSize\<close> is what \<^verbatim>\<open>FileSize\<close> answers for them.
\<close>

definition deleteOldestFromCache ::
  "('e, 'c) DiffStore \<Rightarrow> DiffStoreKey list \<Rightarrow> (DiffStoreKey \<Rightarrow> int option) \<Rightarrow> bool \<times> ('e, 'c) DiffStore" where
  "deleteOldestFromCache s order fileSize =
     (case find (\<lambda>key. \<not> isBeingDeleted s key) order of
        None \<Rightarrow> (False, s)
      | Some key \<Rightarrow>
          (True, scheduleDelete s key (case fileSize key of None \<Rightarrow> fallbackDiffSize | Some sz \<Rightarrow> sz)))"

text \<open>
  \<^verbatim>\<open>Get\<close> returns the diff that is in the cache; a new one is initialised after it has been put there,
  and stays there when that fails.
\<close>

definition store_Get ::
  "'s storage_env \<Rightarrow> ('e, 'c) chunker_ops \<Rightarrow> 'e \<Rightarrow> ('e, 'c) DiffStore \<Rightarrow> ('e, 'c) Diff \<Rightarrow>
   ('e diff_error, DiffStoreKey) go \<times> ('e, 'c) DiffStore" where
  "store_Get st ops sizeErr s d =
     (let key = CacheKey d; s1 = resetDelete s key
      in (case dsCache s1 key of
            Some _ \<Rightarrow> (Ok key, s1)
          | None \<Rightarrow>
              (let (r, d') = diff_Init st ops sizeErr d;
                   s2 = s1\<lparr>dsCache := (dsCache s1)(key \<mapsto> d')\<rparr>
               in (case r of Ok _ \<Rightarrow> (Ok key, s2) | Fail e \<Rightarrow> (Fail e, s2) | Panic \<Rightarrow> (Panic, s2)))))"

definition store_Add :: "('e, 'c) DiffStore \<Rightarrow> ('e, 'c) Diff \<Rightarrow> ('e, 'c) DiffStore" where
  "store_Add s d =
     (let s1 = resetDelete s (CacheKey d) in s1\<lparr>dsCache := (dsCache s1)(CacheKey d \<mapsto> d)\<rparr>)"

definition store_Has :: "('e, 'c) DiffStore \<Rightarrow> ('e, 'c) Diff \<Rightarrow> bool" where
  "store_Has s d \<longleftrightarrow> dsCache s (CacheKey d) \<noteq> None"

definition store_Lookup :: "('e, 'c) DiffStore \<Rightarrow> DiffStoreKey \<Rightarrow> ('e, 'c) Diff option" where
  "store_Lookup s key = dsCache s key"

text \<open>A read through a diff that \<^verbatim>\<open>Get\<close> returned.\<close>

definition store_ReadAt ::
  "('e, 'c) chunker_ops \<Rightarrow> ('e, 'c) DiffStore \<Rightarrow> DiffStoreKey \<Rightarrow> byte list \<Rightarrow> int \<Rightarrow>
   (('e diff_error, int \<times> byte list) go \<times> ('e, 'c) DiffStore) option" where
  "store_ReadAt ops s key p off =
     (case dsCache s key of
        None \<Rightarrow> Some (Panic, s)
      | Some d \<Rightarrow>
          map_option (\<lambda>(r, d'). (r, s\<lparr>dsCache := (dsCache s)(key \<mapsto> d')\<rparr>)) (diff_ReadAt ops d p off))"

subsection \<open>The store as a state machine\<close>

inductive store_step ::
  "'s storage_env \<Rightarrow> ('e, 'c) chunker_ops \<Rightarrow> ('e, 'c) DiffStore \<Rightarrow> ('e, 'c) DiffStore \<Rightarrow> bool"
  for st ops where
  step_get: "store_step st ops s (snd (store_Get st ops sizeErr s d))"
| step_add: "store_step st ops s (store_Add s d)"
| step_read: "store_ReadAt ops s key p off = Some (r, s') \<Longrightarrow> store_step st ops s s'"
| step_pressure: "store_step st ops s (snd (deleteOldestFromCache s order fileSize))"
| step_timer: "store_step st ops s (timerFires s ch)"
| step_expire: "store_step st ops s (evict s key)"
| step_evicted: "evictionCallback ops unmapOk removeOk s n = Some s' \<Longrightarrow> store_step st ops s s'"

inductive store_reachable ::
  "'s storage_env \<Rightarrow> ('e, 'c) chunker_ops \<Rightarrow> ('e, 'c) DiffStore \<Rightarrow> bool" for st ops where
  reach_new: "store_reachable st ops NewDiffStore"
| reach_step: "store_reachable st ops s \<Longrightarrow> store_step st ops s s' \<Longrightarrow> store_reachable st ops s'"

text \<open>
  The invariant: channels are used once, and a goroutine that may still delete a key belongs to the
  pending deletion of that key.
\<close>

definition store_inv :: "('e, 'c) DiffStore \<Rightarrow> bool" where
  "store_inv s \<longleftrightarrow>
     distinct (map fst (dsPending s)) \<and> distinct (map fst (dsTimers s)) \<and>
     (\<forall>(i, k, cancelled) \<in> set (dsTimers s). i < dsNext s \<and>
        (\<not> cancelled \<longrightarrow> (\<exists>sz. (k, sz, i) \<in> set (dsPending s)))) \<and>
     (\<forall>(k, sz, i) \<in> set (dsPending s). i < dsNext s)"

definition no_pending_timer :: "('e, 'c) DiffStore \<Rightarrow> DiffStoreKey \<Rightarrow> bool" where
  "no_pending_timer s key \<longleftrightarrow> (\<forall>i. (i, key, False) \<notin> set (dsTimers s))"

lemma fst_cancelTimer [simp]: "map fst (cancelTimer ch ts) = map fst ts"
  by (induction ts) (auto simp: cancelTimer_def)

lemma in_cancelTimer:
  "(i, k, False) \<in> set (cancelTimer ch ts) \<longleftrightarrow> (i, k, False) \<in> set ts \<and> i \<noteq> ch"
  by (force simp: cancelTimer_def)

lemma cancelTimer_id: "(i, k, c) \<in> set (cancelTimer ch ts) \<Longrightarrow> \<exists>c'. (i, k, c') \<in> set ts"
  by (auto simp: cancelTimer_def)

lemma store_inv_cong:
  "dsPending s' = dsPending s \<Longrightarrow> dsTimers s' = dsTimers s \<Longrightarrow> dsNext s' = dsNext s \<Longrightarrow> store_inv s' = store_inv s"
  by (simp add: store_inv_def)

lemma store_invI:
  assumes "distinct (map fst (dsPending s))" "distinct (map fst (dsTimers s))"
    and "\<And>i k c. (i, k, c) \<in> set (dsTimers s) \<Longrightarrow> i < dsNext s"
    and "\<And>i k. (i, k, False) \<in> set (dsTimers s) \<Longrightarrow> \<exists>sz. (k, sz, i) \<in> set (dsPending s)"
    and "\<And>k sz i. (k, sz, i) \<in> set (dsPending s) \<Longrightarrow> i < dsNext s"
  shows "store_inv s"
  using assms by (auto simp: store_inv_def)

lemma store_invD:
  assumes "store_inv s"
  shows "distinct (map fst (dsPending s))" "distinct (map fst (dsTimers s))"
    and "(i, k, c) \<in> set (dsTimers s) \<Longrightarrow> i < dsNext s"
    and "(i, k, False) \<in> set (dsTimers s) \<Longrightarrow> \<exists>sz. (k, sz, i) \<in> set (dsPending s)"
    and "(k, sz, i) \<in> set (dsPending s) \<Longrightarrow> i < dsNext s"
  using assms by (auto simp: store_inv_def)

lemma distinct_map_fst_filter: "distinct (map fst xs) \<Longrightarrow> distinct (map fst (filter P xs))"
  by (induction xs) auto

lemma resetDelete_inv:
  assumes inv: "store_inv s"
  shows "store_inv (resetDelete s key)" "no_pending_timer (resetDelete s key) key"
    "dsCache (resetDelete s key) = dsCache s"
proof -
  note I = store_invD [OF inv]
  have "store_inv (resetDelete s key) \<and> no_pending_timer (resetDelete s key) key"
  proof (cases "map_of (dsPending s) key")
    case None
    then have "(key, sz, i) \<notin> set (dsPending s)" for sz i by (auto simp: map_of_eq_None_iff image_iff)
    then have "(i, key, False) \<notin> set (dsTimers s)" for i using I(4) by blast
    with None inv show ?thesis by (simp add: resetDelete_def no_pending_timer_def)
  next
    case (Some p)
    obtain sz ch where p: "p = (sz, ch)" by (cases p)
    have reset: "resetDelete s key = s\<lparr>dsPending := filter (\<lambda>(k, _). k \<noteq> key) (dsPending s),
        dsTimers := cancelTimer ch (dsTimers s)\<rparr>"
      using Some p by (simp add: resetDelete_def)
    have chan: "ch = i" if t: "(i, key, False) \<in> set (dsTimers s)" for i
    proof -
      obtain sz' where "(key, sz', i) \<in> set (dsPending s)" using I(4) [OF t] by blast
      then have "map_of (dsPending s) key = Some (sz', i)" using I(1) by simp
      with Some p show ?thesis by simp
    qed
    let ?r = "resetDelete s key"
    have P: "dsPending ?r = filter (\<lambda>(k, _). k \<noteq> key) (dsPending s)" and T: "dsTimers ?r = cancelTimer ch (dsTimers s)"
      and N: "dsNext ?r = dsNext s" by (simp_all add: reset)
    have "store_inv ?r"
    proof (rule store_invI)
      show "distinct (map fst (dsPending ?r))" unfolding P by (rule distinct_map_fst_filter [OF I(1)])
      show "distinct (map fst (dsTimers ?r))" unfolding T fst_cancelTimer by (rule I(2))
      show "i < dsNext ?r" if "(i, k, c) \<in> set (dsTimers ?r)" for i k c
        using cancelTimer_id [OF that [unfolded T]] I(3) unfolding N by blast
      show "\<exists>sz. (k, sz, i) \<in> set (dsPending ?r)" if "(i, k, False) \<in> set (dsTimers ?r)" for i k
        using that [unfolded T in_cancelTimer] I(4) chan unfolding P by fastforce
      show "i < dsNext ?r" if "(k, sz, i) \<in> set (dsPending ?r)" for k sz i
        using that I(5) unfolding P N by auto
    qed
    moreover have "no_pending_timer (resetDelete s key) key"
      unfolding reset using chan by (auto simp: no_pending_timer_def in_cancelTimer)
    ultimately show ?thesis by blast
  qed
  then show "store_inv (resetDelete s key)" "no_pending_timer (resetDelete s key) key" by auto
  show "dsCache (resetDelete s key) = dsCache s" by (simp add: resetDelete_def split: option.splits prod.splits)
qed

lemma scheduleDelete_inv:
  assumes inv: "store_inv s" and "\<not> isBeingDeleted s key"
  shows "store_inv (scheduleDelete s key sz)"
proof -
  note I = store_invD [OF inv]
  have new: "key \<notin> fst ` set (dsPending s)" using assms(2) by (auto simp: isBeingDeleted_def map_of_eq_None_iff)
  have fresh: "dsNext s \<notin> fst ` set (dsTimers s)" using I(3) by force
  have "filter (\<lambda>(k, _). k \<noteq> key) (dsPending s) = dsPending s"
    using new by (intro filter_True) force
  then show ?thesis
    using I(1,2) new fresh
    by (intro store_invI) (auto simp: scheduleDelete_def dest: I(3-5) intro: less_SucI)
qed

lemma store_Get_inv:
  assumes "store_inv s"
  shows "store_inv (snd (store_Get st ops sizeErr s d))" "no_pending_timer (snd (store_Get st ops sizeErr s d)) (CacheKey d)"
    "dsCache (snd (store_Get st ops sizeErr s d)) (CacheKey d) \<noteq> None"
proof -
  note R = resetDelete_inv [OF assms, of "CacheKey d"]
  let ?s1 = "resetDelete s (CacheKey d)"
  obtain r d' where init: "diff_Init st ops sizeErr d = (r, d')" by force
  have "snd (store_Get st ops sizeErr s d) =
      (if dsCache ?s1 (CacheKey d) = None then ?s1\<lparr>dsCache := (dsCache ?s1)(CacheKey d \<mapsto> d')\<rparr> else ?s1)"
    by (simp add: store_Get_def Let_def init split: option.splits go.splits)
  then show "store_inv (snd (store_Get st ops sizeErr s d))"
    "no_pending_timer (snd (store_Get st ops sizeErr s d)) (CacheKey d)"
    "dsCache (snd (store_Get st ops sizeErr s d)) (CacheKey d) \<noteq> None"
    using R store_inv_cong [of "?s1\<lparr>dsCache := (dsCache ?s1)(CacheKey d \<mapsto> d')\<rparr>" ?s1]
    by (auto simp: no_pending_timer_def)
qed

lemma store_Add_inv:
  assumes "store_inv s"
  shows "store_inv (store_Add s d)" "no_pending_timer (store_Add s d) (CacheKey d)"
    "dsCache (store_Add s d) (CacheKey d) = Some d"
  using resetDelete_inv [OF assms, of "CacheKey d"]
    store_inv_cong [of "store_Add s d" "resetDelete s (CacheKey d)"]
  by (auto simp: store_Add_def Let_def no_pending_timer_def)

lemma evict_inv:
  assumes "store_inv s"
  shows "store_inv (evict s key)" "k \<noteq> key \<Longrightarrow> dsCache (evict s key) k = dsCache s k"
  using assms by (auto simp: evict_def store_inv_def split: option.splits)

lemma evictionCallback_inv:
  assumes inv: "store_inv s" and "evictionCallback ops unmapOk removeOk s n = Some s'"
  shows "store_inv s'" "dsCache s' = dsCache s"
proof -
  let ?s = "s\<lparr>dsClosing := take n (dsClosing s) @ drop (Suc n) (dsClosing s)\<rparr>"
  have "store_inv ?s" using inv by (simp add: store_inv_def)
  note R = resetDelete_inv [OF this]
  have "s' = s \<or> (\<exists>key. s' = resetDelete ?s key)"
    using assms(2) by (auto simp: evictionCallback_def Let_def split: if_splits prod.splits option.splits)
  with R inv show "store_inv s'" "dsCache s' = dsCache s" by auto
qed

lemma timerFires_inv:
  assumes inv: "store_inv s"
  shows "store_inv (timerFires s ch)" "no_pending_timer s key \<Longrightarrow> dsCache (timerFires s ch) key = dsCache s key"
proof -
  let ?s = "s\<lparr>dsTimers := filter (\<lambda>(i, _). i \<noteq> ch) (dsTimers s)\<rparr>"
  note I = store_invD [OF inv]
  have inv': "store_inv ?s"
    using I(1,2) distinct_map_fst_filter [OF I(2)]
    by (intro store_invI) (auto dest: I(3-5))
  consider "timerFires s ch = s" | "timerFires s ch = ?s"
    | k where "(ch, k, False) \<in> set (dsTimers s)" "timerFires s ch = evict ?s k"
  proof (cases "map_of (dsTimers s) ch")
    case (Some p)
    obtain k c where p: "p = (k, c)" by (cases p)
    have "(ch, k, c) \<in> set (dsTimers s)" using Some p by (auto dest: map_of_SomeD)
    then show thesis using that(2,3) Some p by (cases c) (auto simp: timerFires_def Let_def)
  qed (auto simp: timerFires_def intro: that)
  then have "store_inv (timerFires s ch) \<and> (no_pending_timer s key \<longrightarrow> dsCache (timerFires s ch) key = dsCache s key)"
  proof cases
    case 3
    have "k \<noteq> key" if "no_pending_timer s key" using that 3(1) by (auto simp: no_pending_timer_def)
    then show ?thesis using evict_inv(1) [OF inv', of k] evict_inv(2) [OF inv', of key k] 3(2) by auto
  qed (use inv inv' in auto)
  then show "store_inv (timerFires s ch)"
    "no_pending_timer s key \<Longrightarrow> dsCache (timerFires s ch) key = dsCache s key" by blast+
qed

lemma store_step_inv:
  assumes "store_step st ops s s'" "store_inv s"
  shows "store_inv s'"
  using assms
proof (induction rule: store_step.induct)
  case (step_read s key p off r s')
  then have "dsPending s' = dsPending s" "dsTimers s' = dsTimers s" "dsNext s' = dsNext s"
    by (auto simp: store_ReadAt_def split: option.splits)
  with step_read show ?case using store_inv_cong by blast
next
  case (step_pressure s order fileSize)
  have "\<not> isBeingDeleted s k" if "find (\<lambda>key. \<not> isBeingDeleted s key) order = Some k" for k
    using that by (auto simp: find_Some_iff)
  with step_pressure show ?case
    by (auto simp: deleteOldestFromCache_def scheduleDelete_inv split: option.splits)
qed (auto intro: store_Get_inv store_Add_inv timerFires_inv evict_inv evictionCallback_inv)

lemma store_reachable_inv: "store_reachable st ops s \<Longrightarrow> store_inv s"
proof (induction rule: store_reachable.induct)
  case reach_new
  show ?case by (simp add: store_inv_def NewDiffStore_def)
qed (rule store_step_inv)

text \<open>A goroutine of an eviction whose diff cannot be closed never ends.\<close>

lemma dsClosing_unchanged:
  "dsClosing (resetDelete s key) = dsClosing s" "dsClosing (store_Add s d) = dsClosing s"
  "dsClosing (snd (store_Get st ops sizeErr s d)) = dsClosing s"
  "dsClosing (snd (deleteOldestFromCache s order fileSize)) = dsClosing s"
proof -
  show "dsClosing (resetDelete s key) = dsClosing s" for key
    by (simp add: resetDelete_def split: option.splits prod.splits)
  then show "dsClosing (store_Add s d) = dsClosing s" "dsClosing (snd (store_Get st ops sizeErr s d)) = dsClosing s"
    by (simp_all add: store_Add_def store_Get_def Let_def split: option.splits go.splits prod.splits)
  show "dsClosing (snd (deleteOldestFromCache s order fileSize)) = dsClosing s"
    by (simp add: deleteOldestFromCache_def scheduleDelete_def split: option.splits)
qed

lemma set_dsClosing_evict: "set (dsClosing s) \<subseteq> set (dsClosing (evict s key))"
  by (auto simp: evict_def split: option.splits)

lemma evictionCallback_keeps:
  assumes "evictionCallback ops unmapOk removeOk s n = Some s'" "(key, d) \<in> set (dsClosing s)"
    and "diff_Close ops unmapOk removeOk d = None"
  shows "(key, d) \<in> set (dsClosing s')"
proof (cases "n < length (dsClosing s)")
  case True
  then have split: "dsClosing s = take n (dsClosing s) @ dsClosing s ! n # drop (Suc n) (dsClosing s)"
    by (rule id_take_nth_drop)
  obtain k e where e: "dsClosing s ! n = (k, e)" by (cases "dsClosing s ! n")
  with True assms have "diff_Close ops unmapOk removeOk e \<noteq> None" and
    s': "dsClosing s' = take n (dsClosing s) @ drop (Suc n) (dsClosing s)"
    by (auto simp: evictionCallback_def dsClosing_unchanged split: option.splits)
  with assms(3) have "(key, d) \<noteq> dsClosing s ! n" by (auto simp: e)
  moreover have "set (dsClosing s) = insert (dsClosing s ! n) (set (dsClosing s'))"
    unfolding s' by (subst split) (simp del: append_take_drop_id)
  ultimately show ?thesis using assms(2) by auto
qed (use assms in \<open>auto simp: evictionCallback_def\<close>)

lemma store_step_keeps_closing:
  assumes "store_step st ops s s'" "(key, d) \<in> set (dsClosing s)"
    and blocked: "\<And>unmapOk removeOk. diff_Close ops unmapOk removeOk d = None"
  shows "(key, d) \<in> set (dsClosing s')"
  using assms(1,2)
proof (induction rule: store_step.induct)
  case (step_read s k p off r s')
  then show ?case by (auto simp: store_ReadAt_def split: option.splits)
next
  case (step_timer s ch)
  then show ?case
    using set_dsClosing_evict [of "s\<lparr>dsTimers := filter (\<lambda>(i, _). i \<noteq> ch) (dsTimers s)\<rparr>"]
    by (auto simp: timerFires_def Let_def split: option.splits)
next
  case (step_expire s k)
  then show ?case using set_dsClosing_evict [of s k] by blast
next
  case (step_evicted unmapOk removeOk s n s')
  then show ?case using evictionCallback_keeps blocked by blast
qed (simp_all add: dsClosing_unchanged)

lemma store_steps_keep_closing:
  assumes "(store_step st ops)\<^sup>*\<^sup>* s s'" "(key, d) \<in> set (dsClosing s)"
    and "\<And>unmapOk removeOk. diff_Close ops unmapOk removeOk d = None"
  shows "(key, d) \<in> set (dsClosing s')"
  using assms(1,2) by (induction rule: rtranclp_induct) (auto intro: store_step_keeps_closing assms(3))

end
