(* ===== verification/Build_File.thy ===== *)
theory Build_File
  imports Build_Store
begin

text \<open>
  \<^verbatim>\<open>File\<close> of \<^verbatim>\<open>packages/orchestrator/pkg/sandbox/build/build.go\<close>: a layered image read through its
  header.  Each run of the requested range is read from the diff of the build it belongs to; runs of
  the nil build are holes and are skipped.

  \<open>getBuild\<close> and \<open>readBuild\<close> are the two calls on the store that the loop makes.  The contract of the
  store is the locale \<open>build_source\<close>; \<open>file_getBuild\<close> and \<open>store_ReadAt\<close> implement it.
\<close>

datatype 'e file_error =
    MappingFailed header_error
  | ReadEOF int
  | GetBuildFailed 'e
  | SourceFailed 'e

partial_function (option) fileReadLoop ::
  "'b bitset_ops \<Rightarrow> ('s \<Rightarrow> uuid \<Rightarrow> ('e, 'k) go \<times> 's) \<Rightarrow>
   ('s \<Rightarrow> 'k \<Rightarrow> byte list \<Rightarrow> int \<Rightarrow> (('e, int \<times> byte list) go \<times> 's) option) \<Rightarrow>
   'b Header \<Rightarrow> 's \<Rightarrow> byte list \<Rightarrow> int \<Rightarrow> int \<Rightarrow> (('e file_error, int \<times> byte list) go \<times> 's) option" where
  "fileReadLoop ops getBuild readBuild h s p off n =
     (if n < int (length p) then
        (case GetShiftedMapping ops h (i64 (off + n)) of
           Fail e \<Rightarrow> Some (Fail (MappingFailed e), s)
         | Panic \<Rightarrow> Some (Panic, s)
         | Ok (mappedOffset, mappedLength, buildID) \<Rightarrow>
             let remainingReadLength = int (length p) - n;
                 readLength = min mappedLength remainingReadLength
             in if readLength \<le> 0 then Some (Fail (ReadEOF n), s)
                else if buildID = uuid_Nil then fileReadLoop ops getBuild readBuild h s p off (n + readLength)
                else
                  (case getBuild s buildID of
                     (r, s1) \<Rightarrow>
                       (case r of
                          Fail e \<Rightarrow> Some (Fail (GetBuildFailed e), s1)
                        | Panic \<Rightarrow> Some (Panic, s1)
                        | Ok k \<Rightarrow>
                            (case go_slice p n (n + readLength) of
                               None \<Rightarrow> Some (Panic, s1)
                             | Some q \<Rightarrow>
                                 Option.bind (readBuild s1 k q mappedOffset) (\<lambda>(r', s2).
                                   case r' of
                                     Fail e \<Rightarrow> Some (Fail (SourceFailed e), s2)
                                   | Panic \<Rightarrow> Some (Panic, s2)
                                   | Ok (buildN, q') \<Rightarrow>
                                       fileReadLoop ops getBuild readBuild h s2 (write_slice p (nat n) q') off
                                         (n + buildN))))))
      else Some (Ok (n, p), s))"

definition file_ReadAt ::
  "'b bitset_ops \<Rightarrow> ('s \<Rightarrow> uuid \<Rightarrow> ('e, 'k) go \<times> 's) \<Rightarrow>
   ('s \<Rightarrow> 'k \<Rightarrow> byte list \<Rightarrow> int \<Rightarrow> (('e, int \<times> byte list) go \<times> 's) option) \<Rightarrow>
   'b Header \<Rightarrow> 's \<Rightarrow> byte list \<Rightarrow> int \<Rightarrow> (('e file_error, int \<times> byte list) go \<times> 's) option" where
  "file_ReadAt ops getBuild readBuild h s p off = fileReadLoop ops getBuild readBuild h s p off 0"

definition file_Slice ::
  "'b bitset_ops \<Rightarrow> ('s \<Rightarrow> uuid \<Rightarrow> ('e, 'k) go \<times> 's) \<Rightarrow>
   ('s \<Rightarrow> 'k \<Rightarrow> int \<Rightarrow> int \<Rightarrow> (('e, byte list) go \<times> 's) option) \<Rightarrow>
   'b Header \<Rightarrow> 's \<Rightarrow> int \<Rightarrow> int \<Rightarrow> (('e file_error, byte list) go \<times> 's) option" where
  "file_Slice ops getBuild sliceBuild h s off len =
     (case GetShiftedMapping ops h off of
        Fail e \<Rightarrow> Some (Fail (MappingFailed e), s)
      | Panic \<Rightarrow> Some (Panic, s)
      | Ok (mappedOffset, _, buildID) \<Rightarrow>
          if buildID = uuid_Nil then Some (Ok EmptyHugePage, s)
          else
            (case getBuild s buildID of
               (Fail e, s1) \<Rightarrow> Some (Fail (GetBuildFailed e), s1)
             | (Panic, s1) \<Rightarrow> Some (Panic, s1)
             | (Ok k, s1) \<Rightarrow>
                 map_option
                   (\<lambda>(r, s2). case r of Ok b \<Rightarrow> (Ok b, s2) | Fail e \<Rightarrow> (Fail (SourceFailed e), s2) | Panic \<Rightarrow> (Panic, s2))
                   (sliceBuild s1 k mappedOffset (i64 (mdBlockSize (hMetadata h))))))"

text \<open>
  \<^verbatim>\<open>getBuild\<close> on the store: \<open>uuidString\<close> is \<^verbatim>\<open>uuid.UUID.String\<close> and \<open>suffix\<close> the random part of the
  name of the cache file.
\<close>

definition file_getBuild ::
  "'s storage_env \<Rightarrow> ('e, 'c) chunker_ops \<Rightarrow> 'e \<Rightarrow> (uuid \<Rightarrow> string) \<Rightarrow> string \<Rightarrow> string \<Rightarrow> DiffType \<Rightarrow> int \<Rightarrow>
   ('e, 'c) DiffStore \<Rightarrow> uuid \<Rightarrow> ('e diff_error, DiffStoreKey) go \<times> ('e, 'c) DiffStore" where
  "file_getBuild st ops sizeErr uuidString suffix cachePath fileType blockSize s buildID =
     (case newStorageDiff suffix cachePath (uuidString buildID) fileType blockSize of
        Ok d \<Rightarrow> store_Get st ops sizeErr s (StoredDiff d)
      | Fail e \<Rightarrow> (Fail e, s)
      | Panic \<Rightarrow> (Panic, s))"

subsection \<open>The bytes of an image\<close>

text \<open>\<open>img\<close> gives the bytes of the diff of each build.\<close>

definition image_byte :: "(uuid \<Rightarrow> byte list option) \<Rightarrow> (uuid \<times> int) option \<Rightarrow> byte" where
  "image_byte img src =
     (case src of
        None \<Rightarrow> 0
      | Some (u, so) \<Rightarrow> if u = uuid_Nil then 0 else the (img u) ! nat so)"

definition image_bytes :: "(uuid \<Rightarrow> byte list option) \<Rightarrow> 'b Header \<Rightarrow> byte list" where
  "image_bytes img h =
     map (\<lambda>i. image_byte img (lookup_map (hMapping h) (int i))) [0..<nat (mdSize (hMetadata h))]"

text \<open>Every mapped byte exists in its diff, and blocks of the image are blocks of the diff.\<close>

definition image_backed :: "(uuid \<Rightarrow> byte list option) \<Rightarrow> 'b Header \<Rightarrow> bool" where
  "image_backed img h \<longleftrightarrow>
     (\<forall>x u so. lookup_map (hMapping h) x = Some (u, so) \<and> u \<noteq> uuid_Nil \<longrightarrow>
        (\<exists>content. img u = Some content \<and> 0 \<le> so \<and> so < int (length content)) \<and>
        (mdBlockSize (hMetadata h) dvd x \<longrightarrow> mdBlockSize (hMetadata h) dvd so))"

locale build_source =
  fixes getBuild :: "'s \<Rightarrow> uuid \<Rightarrow> ('e, 'k) go \<times> 's"
    and readBuild :: "'s \<Rightarrow> 'k \<Rightarrow> byte list \<Rightarrow> int \<Rightarrow> (('e, int \<times> byte list) go \<times> 's) option"
    and src_ok :: "(uuid \<Rightarrow> byte list option) \<Rightarrow> int \<Rightarrow> 's \<Rightarrow> bool"
    and handle :: "uuid \<Rightarrow> 'k"
    and reach :: "int \<Rightarrow> int \<Rightarrow> bool"
  assumes get_build: "src_ok img bs s \<Longrightarrow> img u = Some content \<Longrightarrow> content \<noteq> [] \<Longrightarrow>
      \<exists>s'. getBuild s u = (Ok (handle u), s') \<and> src_ok img bs s' \<and>
        (\<forall>p off. 0 \<le> off \<and> bs dvd off \<and> p \<noteq> [] \<and> off + int (length p) \<le> int (length content) \<and>
           reach off (int (length p)) \<longrightarrow>
           (\<exists>s''. readBuild s' (handle u) p off = Some (Ok (int (length p), slice_at content off (int (length p))), s'') \<and>
              src_ok img bs s''))"

lemma length_image_bytes [simp]: "length (image_bytes img h) = nat (mdSize (hMetadata h))"
  by (simp add: image_bytes_def)

lemma nth_image_bytes:
  "i < nat (mdSize (hMetadata h)) \<Longrightarrow> image_bytes img h ! i = image_byte img (lookup_map (hMapping h) (int i))"
  by (simp add: image_bytes_def)

text \<open>One run of the mapping, as bytes.\<close>

lemma image_run:
  assumes x: "0 \<le> x" "0 \<le> n" "x + n \<le> mdSize (hMetadata h)"
    and run: "\<And>k. 0 \<le> k \<Longrightarrow> k < n \<Longrightarrow> lookup_map (hMapping h) (x + k) = Some (u, mo + k)" and mo: "0 \<le> mo"
    and src: "u \<noteq> uuid_Nil \<Longrightarrow> img u = Some content \<and> mo + n \<le> int (length content)"
  shows "slice_at (image_bytes img h) x n = (if u = uuid_Nil then replicate (nat n) 0 else slice_at content mo n)"
proof (rule nth_equalityI)
  show "length (slice_at (image_bytes img h) x n) =
      length (if u = uuid_Nil then replicate (nat n) 0 else slice_at content mo n)"
    using x mo src by auto
  fix i assume "i < length (slice_at (image_bytes img h) x n)"
  then have i: "i < nat n" "nat x + i < nat (mdSize (hMetadata h))" by auto
  have "slice_at (image_bytes img h) x n ! i = image_byte img (lookup_map (hMapping h) (x + int i))"
    using i x(1) nth_image_bytes [OF i(2), of img] by simp
  also have "\<dots> = image_byte img (Some (u, mo + int i))" using run [of "int i"] i(1) by simp
  also have "\<dots> = (if u = uuid_Nil then replicate (nat n) 0 else slice_at content mo n) ! i"
  proof (cases "u = uuid_Nil")
    case False
    then have "nat mo + i < length content" using src i(1) mo by linarith
    with False src i(1) mo show ?thesis by (simp add: image_byte_def nat_add_distrib)
  qed (use i(1) in \<open>simp add: image_byte_def\<close>)
  finally show "slice_at (image_bytes img h) x n ! i =
      (if u = uuid_Nil then replicate (nat n) 0 else slice_at content mo n) ! i" .
qed

lemma image_backed_run:
  assumes "image_backed img h" "0 < n" "u \<noteq> uuid_Nil" "mdBlockSize (hMetadata h) dvd x"
    and run: "\<And>k. 0 \<le> k \<Longrightarrow> k < n \<Longrightarrow> lookup_map (hMapping h) (x + k) = Some (u, mo + k)"
  obtains content where "img u = Some content" "0 \<le> mo" "mo + n \<le> int (length content)" "content \<noteq> []"
    "mdBlockSize (hMetadata h) dvd mo"
proof -
  note B = assms(1) [unfolded image_backed_def, rule_format]
  have "lookup_map (hMapping h) x = Some (u, mo)" using run [of 0] assms(2) by simp
  from B [OF conjI [OF this assms(3)]] assms(4) obtain content where
    c: "img u = Some content" "0 \<le> mo" "mo < int (length content)" "mdBlockSize (hMetadata h) dvd mo" by blast
  have "lookup_map (hMapping h) (x + (n - 1)) = Some (u, mo + (n - 1))" using run [of "n - 1"] assms(2) by simp
  from B [OF conjI [OF this assms(3)]] c(1) have "mo + (n - 1) < int (length content)" by auto
  moreover have "content \<noteq> []" using c by auto
  ultimately show thesis using that c by auto
qed

context build_source
begin

lemma fileReadLoop_image:
  assumes laws: "bitset_laws ops" and h: "header_ok ops h" and bs: "bs = mdBlockSize (hMetadata h)"
    and backed: "image_backed img h" and off: "0 \<le> off" "bs dvd off" "off + len \<le> mdSize (hMetadata h)" "bs dvd len"
    and reach: "\<And>o' l. 0 \<le> o' \<Longrightarrow> bs dvd o' \<Longrightarrow> 0 < l \<Longrightarrow> l \<le> len \<Longrightarrow> bs dvd l \<Longrightarrow> reach o' l"
    and "src_ok img bs s" "0 \<le> n" "n \<le> len" "bs dvd n"
      "p = slice_at (image_bytes img h) off n @ replicate (nat (len - n)) 0"
  shows "\<exists>s'. fileReadLoop ops getBuild readBuild h s p off n =
      Some (Ok (len, slice_at (image_bytes img h) off len), s') \<and> src_ok img bs s'"
  using assms(10-)
proof (induction "nat (len - n)" arbitrary: s n p rule: less_induct)
  case less
  let ?img = "image_bytes img h" and ?sz = "mdSize (hMetadata h)"
  have sz: "0 < bs" "?sz + bs \<le> 9223372036854775807" using h bs by (auto simp: header_ok_def Let_def)
  have a: "int (length (slice_at ?img off n)) = n" using less.prems(2,3) off by simp
  have lp: "int (length p) = len" using a less.prems(2,3,5) by simp
  show ?case
  proof (cases "n < len")
    case False
    then have "n = len" using less.prems(3) by simp
    with lp less.prems show ?thesis by (subst fileReadLoop.simps) simp
  next
    case True
    let ?x = "off + n"
    have x: "0 \<le> ?x" "?x < ?sz" "bs dvd ?x" using off less.prems True by auto
    from GetShiftedMapping_Ok [OF laws h x(1,2)] x(3) bs obtain mo ml u where
      g: "GetShiftedMapping ops h ?x = Ok (mo, ml, u)" "0 < ml" "bs dvd ml" "?x + ml \<le> ?sz" "0 \<le> mo"
        "\<And>k. 0 \<le> k \<Longrightarrow> k < ml \<Longrightarrow> lookup_map (hMapping h) (?x + k) = Some (u, mo + k)" by auto
    define rl where "rl = min ml (len - n)"
    have rl: "0 < rl" "rl \<le> ml" "n + rl \<le> len" "bs dvd rl" "rl \<le> len"
      using g True off(4) less.prems by (auto simp: rl_def min_def)
    have run: "\<And>k. 0 \<le> k \<Longrightarrow> k < rl \<Longrightarrow> lookup_map (hMapping h) (?x + k) = Some (u, mo + k)"
      using g(6) rl(2) by simp
    have wrap: "i64 ?x = ?x" using x sz by simp
    have next': "slice_at ?img off n @ slice_at ?img ?x rl = slice_at ?img off (n + rl)"
      using slice_at_split [of off n "n + rl" ?img] off(1) less.prems(2) rl(1) by simp
    have zeros: "nat (len - n) = nat rl + nat (len - (n + rl))" using rl by linarith
    have dec: "nat (len - (n + rl)) < nat (len - n)" using rl True by linarith
    have fit: "?x + rl \<le> ?sz" using rl off by linarith
    note IH = less.hyps [OF dec]
    show ?thesis
    proof (cases "u = uuid_Nil")
      case nil: True
      have "slice_at ?img ?x rl = replicate (nat rl) 0"
        using image_run [OF x(1) _ fit run g(5), where img = img] rl(1) nil by simp
      then have "p = slice_at ?img off (n + rl) @ replicate (nat (len - (n + rl))) 0"
        using less.prems(5) next' zeros by (simp add: replicate_add)
      from IH [OF less.prems(1) _ _ _ this] rl less.prems obtain s' where
        "fileReadLoop ops getBuild readBuild h s p off (n + rl) = Some (Ok (len, slice_at ?img off len), s')"
        "src_ok img bs s'" by auto
      then show ?thesis using True g(1) wrap rl(1) nil lp
        by (subst fileReadLoop.simps) (simp add: Let_def rl_def)
    next
      case False
      from image_backed_run [OF backed rl(1) False _ run] x(3) bs obtain content where
        c: "img u = Some content" "mo + rl \<le> int (length content)" "content \<noteq> []" "bs dvd mo" by auto
      have sl: "slice_at ?img ?x rl = slice_at content mo rl"
        using image_run [OF x(1) _ fit run g(5), where img = img and content = content] rl(1) c False by simp
      let ?q = "replicate (nat rl) (0::byte)"
      have q: "go_slice p n (n + rl) = Some ?q"
        using take_next_block [of "slice_at ?img off n" "nat rl" "nat (len - (n + rl))" 0] rl(1) a
        unfolding less.prems(5) zeros by simp
      from get_build [OF less.prems(1) c(1,3)] obtain s1 where
        s1: "getBuild s u = (Ok (handle u), s1)" "src_ok img bs s1"
          "\<And>p off. 0 \<le> off \<Longrightarrow> bs dvd off \<Longrightarrow> p \<noteq> [] \<Longrightarrow> off + int (length p) \<le> int (length content) \<Longrightarrow>
             reach off (int (length p)) \<Longrightarrow>
             \<exists>s''. readBuild s1 (handle u) p off = Some (Ok (int (length p), slice_at content off (int (length p))), s'') \<and>
               src_ok img bs s''"
        by blast
      from s1(3) [of mo ?q] g(5) c rl reach [of mo rl] obtain s2 where
        s2: "readBuild s1 (handle u) ?q mo = Some (Ok (rl, slice_at content mo rl), s2)" "src_ok img bs s2" by auto
      have "length (slice_at content mo rl) = nat rl" using c(2) g(5) rl(1) by auto
      then have "write_slice p (length (slice_at ?img off n)) (slice_at content mo rl) =
          (slice_at ?img off n @ slice_at content mo rl) @ replicate (nat (len - (n + rl))) 0"
        unfolding less.prems(5) zeros by (rule write_next_block)
      moreover have "length (slice_at ?img off n) = nat n" using a by linarith
      ultimately have w: "write_slice p (nat n) (slice_at content mo rl) =
          slice_at ?img off (n + rl) @ replicate (nat (len - (n + rl))) 0"
        unfolding next' [symmetric] sl by simp
      from IH [OF s2(2) _ _ _ w] rl less.prems obtain s' where
        "fileReadLoop ops getBuild readBuild h s2 (write_slice p (nat n) (slice_at content mo rl)) off (n + rl) =
          Some (Ok (len, slice_at ?img off len), s')" "src_ok img bs s'" by auto
      then show ?thesis using True g(1) wrap rl(1) False lp s1(1) q s2(1)
        by (subst fileReadLoop.simps) (simp add: Let_def rl_def)
    qed
  qed
qed

lemma file_ReadAt_image:
  assumes "bitset_laws ops" "header_ok ops h" "image_backed img h"
    and "src_ok img (mdBlockSize (hMetadata h)) s" "0 \<le> off" "mdBlockSize (hMetadata h) dvd off"
    and "off + int (length p) \<le> mdSize (hMetadata h)" "mdBlockSize (hMetadata h) dvd int (length p)" "set p \<subseteq> {0}"
    and "\<And>o' l. 0 \<le> o' \<Longrightarrow> mdBlockSize (hMetadata h) dvd o' \<Longrightarrow> 0 < l \<Longrightarrow> l \<le> int (length p) \<Longrightarrow>
      mdBlockSize (hMetadata h) dvd l \<Longrightarrow> reach o' l"
  shows "\<exists>s'. file_ReadAt ops getBuild readBuild h s p off =
      Some (Ok (int (length p), slice_at (image_bytes img h) off (int (length p))), s') \<and>
    src_ok img (mdBlockSize (hMetadata h)) s'"
proof -
  have "p = replicate (length p) 0" using assms(9) by (intro replicate_eqI) auto
  then have "p = slice_at (image_bytes img h) off 0 @ replicate (nat (int (length p) - 0)) 0" by simp
  from fileReadLoop_image [OF assms(1,2) refl assms(3,5,6,7,8) assms(10,4) _ _ _ this] show ?thesis
    by (simp add: file_ReadAt_def)
qed

end

subsection \<open>The store implements the contract\<close>

definition build_key :: "(uuid \<Rightarrow> string) \<Rightarrow> DiffType \<Rightarrow> uuid \<Rightarrow> DiffStoreKey" where
  "build_key uuidString fileType u = GetDiffStoreKey (uuidString u) fileType"

text \<open>
  Every build of the image is in the store, in a diff that serves its bytes, or in storage, from
  where a chunker can be made for it.
\<close>

definition store_serves ::
  "'s storage_env \<Rightarrow> (byte list \<Rightarrow> int \<Rightarrow> 'c \<Rightarrow> bool) \<Rightarrow> (string \<Rightarrow> byte list \<Rightarrow> int \<Rightarrow> string \<Rightarrow> bool) \<Rightarrow>
   (uuid \<Rightarrow> string) \<Rightarrow> string \<Rightarrow> string \<Rightarrow> DiffType \<Rightarrow> int \<Rightarrow>
   (uuid \<Rightarrow> byte list option) \<Rightarrow> int \<Rightarrow> ('e, 'c) DiffStore \<Rightarrow> bool" where
  "store_serves st ch_ok new_ok uuidString suffix cachePath fileType blockSize img bs s \<longleftrightarrow>
     blockSize = bs \<and> inj uuidString \<and> snd (storageObjectType fileType) \<and>
     (\<forall>u content. img u = Some content \<and> content \<noteq> [] \<longrightarrow>
        (case dsCache s (build_key uuidString fileType u) of
           Some d \<Rightarrow> diff_serves ch_ok content bs d
         | None \<Rightarrow>
             stOpen st (storagePath_of (uuidString u) fileType) \<and>
             stSize st (storagePath_of (uuidString u) fileType) = Some (int (length content)) \<and>
             new_ok (storagePath_of (uuidString u) fileType) content bs
               (GenerateDiffCachePath suffix cachePath (uuidString u) fileType)))"

lemma build_key_inj: "inj uuidString \<Longrightarrow> build_key uuidString fileType u = build_key uuidString fileType v \<longleftrightarrow> u = v"
  by (auto simp: build_key_def GetDiffStoreKey_def inj_eq)

lemma store_serves_update:
  assumes "store_serves st ch_ok new_ok uuidString suffix cachePath fileType blockSize img bs s"
    and "img u = Some content" "diff_serves ch_ok content bs d"
    and "dsCache s' = (dsCache s)(build_key uuidString fileType u \<mapsto> d)"
  shows "store_serves st ch_ok new_ok uuidString suffix cachePath fileType blockSize img bs s'"
  using assms by (auto simp: store_serves_def build_key_inj)

lemma store_serves_cong:
  assumes "dsCache s' = dsCache s"
  shows "store_serves st ch_ok new_ok uuidString suffix cachePath fileType blockSize img bs s' =
    store_serves st ch_ok new_ok uuidString suffix cachePath fileType blockSize img bs s"
  using assms by (simp add: store_serves_def)

lemma resetDelete_cache [simp]: "dsCache (resetDelete s key) = dsCache s"
  by (simp add: resetDelete_def split: option.splits prod.splits)

context chunker
begin

lemma getBuild_serves:
  assumes ok: "store_serves st ch_ok new_ok uuidString suffix cachePath fileType blockSize img bs s"
    and u: "img u = Some content" "content \<noteq> []"
  shows "\<exists>s'. file_getBuild st ops sizeErr uuidString suffix cachePath fileType blockSize s u =
      (Ok (build_key uuidString fileType u), s') \<and>
    store_serves st ch_ok new_ok uuidString suffix cachePath fileType blockSize img bs s' \<and>
    (\<exists>d. dsCache s' (build_key uuidString fileType u) = Some d \<and> diff_serves ch_ok content bs d)"
proof -
  let ?key = "build_key uuidString fileType u" and ?path = "storagePath_of (uuidString u) fileType"
  have bs: "blockSize = bs" and ty: "snd (storageObjectType fileType)" using ok by (auto simp: store_serves_def)
  define d where "d = (\<lparr>sdChunker = NewSetOnce, sdCachePath = GenerateDiffCachePath suffix cachePath (uuidString u) fileType,
    sdCacheKey = ?key, sdStoragePath = ?path, sdObjectType = fst (storageObjectType fileType), sdBlockSize = bs\<rparr> :: ('e, 'c) StorageDiff)"
  have new: "newStorageDiff suffix cachePath (uuidString u) fileType blockSize = Ok d"
    using ty bs by (cases "storageObjectType fileType") (simp add: newStorageDiff_def d_def build_key_def)
  have C: "case dsCache s ?key of
      Some d \<Rightarrow> diff_serves ch_ok content bs d
    | None \<Rightarrow> stOpen st ?path \<and> stSize st ?path = Some (int (length content)) \<and>
        new_ok ?path content bs (GenerateDiffCachePath suffix cachePath (uuidString u) fileType)"
    using ok u unfolding store_serves_def by blast
  have key: "CacheKey (StoredDiff d) = ?key" by (simp add: CacheKey_def d_def)
  show ?thesis
  proof (cases "dsCache s ?key")
    case (Some e)
    then have "diff_serves ch_ok content bs e" using C by simp
    with Some new key ok show ?thesis
      by (intro exI [of _ "resetDelete s ?key"])
        (simp add: file_getBuild_def store_Get_def Let_def store_serves_cong [of "resetDelete s ?key" s])
  next
    case None
    then have st: "stOpen st ?path" "stSize st ?path = Some (int (length content))"
      "new_ok ?path content bs (GenerateDiffCachePath suffix cachePath (uuidString u) fileType)"
      using C by auto
    from ch_new [OF st(3)] obtain c where
      c: "chNew ops ?path (int (length content)) bs (GenerateDiffCachePath suffix cachePath (uuidString u) fileType) = Ok c"
        "ch_ok content bs c" by blast
    let ?d = "d\<lparr>sdChunker := \<lparr>soDone = True, soRes = Some (Inr c)\<rparr>\<rparr>"
    have init: "storage_Init st ops sizeErr d = (Ok (), ?d)"
      using st(1,2) c(1) by (simp add: storage_Init_def d_def SetValue_def setResult_def NewSetOnce_def)
    let ?s = "(resetDelete s ?key)\<lparr>dsCache := (dsCache s)(?key \<mapsto> StoredDiff ?d)\<rparr>"
    have serves: "diff_serves ch_ok content bs (StoredDiff ?d :: ('e, 'c) Diff)" using c(2) by (simp add: diff_serves_def)
    have "file_getBuild st ops sizeErr uuidString suffix cachePath fileType blockSize s u = (Ok ?key, ?s)"
      using None new key init by (simp add: file_getBuild_def store_Get_def Let_def diff_Init_def)
    moreover have "store_serves st ch_ok new_ok uuidString suffix cachePath fileType blockSize img bs ?s"
      using store_serves_update [OF ok u(1) serves, of ?s] by simp
    ultimately show ?thesis using serves by auto
  qed
qed

lemma store_build_source:
  "build_source (file_getBuild st ops sizeErr uuidString suffix cachePath fileType blockSize) (store_ReadAt ops)
     (store_serves st ch_ok new_ok uuidString suffix cachePath fileType blockSize) (build_key uuidString fileType) reach"
proof
  fix img bs u content and s :: "('e, 'c) DiffStore"
  let ?ok = "store_serves st ch_ok new_ok uuidString suffix cachePath fileType blockSize img bs"
  let ?key = "build_key uuidString fileType u"
  assume ok: "?ok s" and u: "img u = Some content" "content \<noteq> []"
  from getBuild_serves [OF ok u, of sizeErr] obtain s' d where
    s': "file_getBuild st ops sizeErr uuidString suffix cachePath fileType blockSize s u = (Ok ?key, s')" "?ok s'"
      "dsCache s' ?key = Some d" "diff_serves ch_ok content bs d" by blast
  have "\<exists>s''. store_ReadAt ops s' ?key p off = Some (Ok (int (length p), slice_at content off (int (length p))), s'') \<and> ?ok s''"
    if "0 \<le> off" "bs dvd off" "p \<noteq> []" "off + int (length p) \<le> int (length content)" "reach off (int (length p))" for p off
  proof -
    from diff_ReadAt_serves [OF s'(4) that] obtain d' where
      d': "diff_ReadAt ops d p off = Some (Ok (int (length p), slice_at content off (int (length p))), d')"
        "diff_serves ch_ok content bs d'" by blast
    then show ?thesis
      using s'(3) store_serves_update [OF s'(2) u(1) d'(2), of "s'\<lparr>dsCache := (dsCache s')(?key \<mapsto> d')\<rparr>"]
      by (simp add: store_ReadAt_def)
  qed
  with s' show "\<exists>s'. file_getBuild st ops sizeErr uuidString suffix cachePath fileType blockSize s u = (Ok ?key, s') \<and> ?ok s' \<and>
      (\<forall>p off. 0 \<le> off \<and> bs dvd off \<and> p \<noteq> [] \<and> off + int (length p) \<le> int (length content) \<and>
         reach off (int (length p)) \<longrightarrow>
         (\<exists>s''. store_ReadAt ops s' ?key p off = Some (Ok (int (length p), slice_at content off (int (length p))), s'') \<and> ?ok s''))"
    by blast
qed

end

interpretation diff_store: build_source
  "file_getBuild st (full_chunker st sched unmapOk removeOk stat) sizeErr uuidString suffix cachePath fileType blockSize"
  "store_ReadAt (full_chunker st sched unmapOk removeOk stat)"
  "store_serves st (full_chunker_ok st sched) (full_new_ok st sched) uuidString suffix cachePath fileType blockSize"
  "build_key uuidString fileType" chunk_reach
  by (rule full_fetch.store_build_source)

subsection \<open>An image file is a device\<close>

record ('b, 's) File =
  fHeader :: "'b Header"
  fStore :: 's

text \<open>A call that never returns is shown as a panic; \<open>file_device\<close> shows that it does return.\<close>

definition fileDev_ReadAt ::
  "'b bitset_ops \<Rightarrow> ('s \<Rightarrow> uuid \<Rightarrow> ('e, 'k) go \<times> 's) \<Rightarrow>
   ('s \<Rightarrow> 'k \<Rightarrow> byte list \<Rightarrow> int \<Rightarrow> (('e, int \<times> byte list) go \<times> 's) option) \<Rightarrow>
   ('b, 's) File \<Rightarrow> byte list \<Rightarrow> int \<Rightarrow> ('e file_error, int \<times> byte list) go \<times> ('b, 's) File" where
  "fileDev_ReadAt ops getBuild readBuild f p off =
     (case file_ReadAt ops getBuild readBuild (fHeader f) (fStore f) p off of
        Some (r, s) \<Rightarrow> (r, f\<lparr>fStore := s\<rparr>)
      | None \<Rightarrow> (Panic, f))"

definition file_BlockSize :: "('b, 's) File \<Rightarrow> int" where
  "file_BlockSize f = i64 (mdBlockSize (hMetadata (fHeader f)))"

definition file_ok ::
  "'b bitset_ops \<Rightarrow> ((uuid \<Rightarrow> byte list option) \<Rightarrow> int \<Rightarrow> 's \<Rightarrow> bool) \<Rightarrow> (uuid \<Rightarrow> byte list option) \<Rightarrow> ('b, 's) File \<Rightarrow> bool" where
  "file_ok ops src_ok img f \<longleftrightarrow>
     bitset_laws ops \<and> header_ok ops (fHeader f) \<and> image_backed img (fHeader f) \<and>
     mdBlockSize (hMetadata (fHeader f)) dvd MemoryChunkSize \<and>
     src_ok img (mdBlockSize (hMetadata (fHeader f))) (fStore f)"

definition file_bytes :: "(uuid \<Rightarrow> byte list option) \<Rightarrow> ('b, 's) File \<Rightarrow> byte list" where
  "file_bytes img f = image_bytes img (fHeader f)"

context build_source
begin

lemma file_readonly_device:
  assumes reach_block: "\<And>bs off. 0 < bs \<Longrightarrow> bs dvd MemoryChunkSize \<Longrightarrow> bs dvd off \<Longrightarrow> 0 \<le> off \<Longrightarrow> reach off bs"
  shows "readonly_device (fileDev_ReadAt ops getBuild readBuild) file_BlockSize (file_ok ops src_ok img) (file_bytes img)"
proof
  fix f :: "('a, 's) File" assume ok: "file_ok ops src_ok img f"
  let ?md = "hMetadata (fHeader f)"
  have h: "0 < mdBlockSize ?md" "0 \<le> mdSize ?md" "mdSize ?md + mdBlockSize ?md \<le> 9223372036854775807"
    using ok by (auto simp: file_ok_def header_ok_def Let_def)
  then have bs: "file_BlockSize f = mdBlockSize ?md" by (simp add: file_BlockSize_def)
  show "0 < file_BlockSize f" using bs h by simp
  show "int (length (file_bytes img f)) + file_BlockSize f \<le> 9223372036854775807"
    using bs h by (simp add: file_bytes_def)
  fix off and p :: "byte list"
  assume a: "0 \<le> off" "file_BlockSize f dvd off" "int (length p) = file_BlockSize f"
    "off + int (length p) \<le> int (length (file_bytes img f))" "set p \<subseteq> {0}"
  have reach: "reach o' l" if "0 \<le> o'" "mdBlockSize ?md dvd o'" "0 < l" "l \<le> int (length p)" "mdBlockSize ?md dvd l" for o' l
  proof -
    have "l = mdBlockSize ?md" using that a(3) bs zdvd_imp_le [of "mdBlockSize ?md" l] by simp
    then show ?thesis using reach_block h(1) ok that by (simp add: file_ok_def)
  qed
  have "\<exists>s'. file_ReadAt ops getBuild readBuild (fHeader f) (fStore f) p off =
      Some (Ok (int (length p), slice_at (image_bytes img (fHeader f)) off (int (length p))), s') \<and>
    src_ok img (mdBlockSize ?md) s'"
    using ok a bs h by (intro file_ReadAt_image reach) (auto simp: file_ok_def file_bytes_def)
  then show "\<exists>f'. fileDev_ReadAt ops getBuild readBuild f p off =
      (Ok (int (length p), slice_at (file_bytes img f) off (int (length p))), f') \<and>
      file_ok ops src_ok img f' \<and> file_bytes img f' = file_bytes img f \<and> file_BlockSize f' = file_BlockSize f"
    using ok by (auto simp: fileDev_ReadAt_def file_ok_def file_bytes_def file_BlockSize_def)
qed

end

text \<open>The image file over the store and storage of an orchestrator, whose parameters are one record.\<close>

record 's build_env =
  beStorage :: "'s storage_env"
  beSched :: "int list \<Rightarrow> int list"
  beUnmapOk :: bool
  beRemoveOk :: bool
  beStat :: "string \<Rightarrow> int option \<times> int option"
  beSizeErr :: "'s chunk_error"
  beUuidString :: "uuid \<Rightarrow> string"
  beSuffix :: string
  beCachePath :: string
  beFileType :: DiffType
  beBlockSize :: int

definition be_chunker :: "'s build_env \<Rightarrow> ('s chunk_error, string \<times> FullFetchChunker) chunker_ops" where
  "be_chunker env = full_chunker (beStorage env) (beSched env) (beUnmapOk env) (beRemoveOk env) (beStat env)"

definition imageDev_ReadAt ::
  "'b bitset_ops \<Rightarrow> 's build_env \<Rightarrow> ('b, ('s chunk_error, string \<times> FullFetchChunker) DiffStore) File \<Rightarrow>
   byte list \<Rightarrow> int \<Rightarrow> ('s chunk_error diff_error file_error, int \<times> byte list) go \<times>
     ('b, ('s chunk_error, string \<times> FullFetchChunker) DiffStore) File" where
  "imageDev_ReadAt ops env =
     fileDev_ReadAt ops
       (file_getBuild (beStorage env) (be_chunker env) (beSizeErr env) (beUuidString env) (beSuffix env)
          (beCachePath env) (beFileType env) (beBlockSize env))
       (store_ReadAt (be_chunker env))"

definition imageDev_ok ::
  "'b bitset_ops \<Rightarrow> 's build_env \<Rightarrow> (uuid \<Rightarrow> byte list option) \<Rightarrow>
   ('b, ('s chunk_error, string \<times> FullFetchChunker) DiffStore) File \<Rightarrow> bool" where
  "imageDev_ok ops env =
     file_ok ops
       (store_serves (beStorage env) (full_chunker_ok (beStorage env) (beSched env))
          (full_new_ok (beStorage env) (beSched env)) (beUuidString env) (beSuffix env) (beCachePath env)
          (beFileType env) (beBlockSize env))"

interpretation image_device: overlaid_device "imageDev_ReadAt ops env" file_BlockSize "imageDev_ok ops env img" "file_bytes img"
  unfolding overlaid_device_def imageDev_ReadAt_def imageDev_ok_def be_chunker_def
  by (rule diff_store.file_readonly_device [OF chunk_reach_block])

end
