(* ===== verification/Block_Process.thy ===== *)
theory Block_Process
  imports Block_Export
begin

text \<open>
  Copying guest memory into a cache: \<^verbatim>\<open>NewCacheFromProcessMemory\<close> and \<^verbatim>\<open>copyProcessMemory\<close> of
  \<^verbatim>\<open>packages/orchestrator/pkg/sandbox/block/cache.go\<close>.  The ranges of the guest's memory are cut
  to the kernel's transfer limit, gathered into vectors of at most \<^verbatim>\<open>IOV_MAX\<close> entries, and each
  vector is read with \<^verbatim>\<open>process_vm_readv\<close>, which is retried while the kernel asks for it.
\<close>

text \<open>
  One pass through the retry loop: whether the context is done, and otherwise the kernel's answer.
  \<open>VmRetry\<close> is \<^verbatim>\<open>EAGAIN\<close>, \<^verbatim>\<open>EINTR\<close> or \<^verbatim>\<open>ENOMEM\<close>; \<open>VmUpTo n\<close> transfers at most \<open>n\<close> bytes.  A list of
  passes is a finite history: the functions below return \<open>None\<close> when it ends before they do.
\<close>

datatype vm_reply = VmRetry | VmError | VmUpTo int

type_synonym vm_script = "(bool \<times> vm_reply) list"

fun takeSegment :: "int \<Rightarrow> int \<Rightarrow> Range list \<Rightarrow> Range list \<Rightarrow> int \<Rightarrow> Range list \<times> int \<times> Range list" where
  "takeSegment iovMax lim [] remote seg = (remote, seg, [])"
| "takeSegment iovMax lim (r # rs) remote seg =
     (if int (length remote) = iovMax then (remote, seg, r # rs)
      else if lim < i64 (seg + rSize r) then (remote, seg, r # rs)
      else takeSegment iovMax lim rs (remote @ [r]) (i64 (seg + rSize r)))"

fun vmRead :: "int \<Rightarrow> vm_script \<Rightarrow> ((cache_error, unit) go \<times> vm_script) option" where
  "vmRead seg [] = None"
| "vmRead seg ((done, reply) # script) =
     (if done then Some (Fail ContextDone, script)
      else
        (case reply of
           VmRetry \<Rightarrow> vmRead seg script
         | VmError \<Rightarrow> Some (Fail ReadMemoryFailed, script)
         | VmUpTo n \<Rightarrow>
             if min n seg \<noteq> seg then Some (Fail (ReadMemoryShort seg (min n seg)), script)
             else Some (Ok (), script)))"

lemma vmRead_shorter: "vmRead seg script = Some (res, script') \<Longrightarrow> length script' < length script"
  by (induction seg script rule: vmRead.induct) (auto split: if_splits vm_reply.splits)

text \<open>The bytes of the remote vector go to the mapping at \<open>offset\<close>, and the blocks are marked.\<close>

definition storeSegment :: "(int \<Rightarrow> byte) \<Rightarrow> Cache \<Rightarrow> Range list \<Rightarrow> int \<Rightarrow> int \<Rightarrow> (cache_error, Cache) go" where
  "storeSegment mem c remote seg offset =
     go_bind (BlocksOffsets seg (cBlockSize c)) (\<lambda>offs.
       Ok (c\<lparr>cMmap := map_option (\<lambda>mm. write_slice mm (nat offset) (map mem (bytes_of remote))) (cMmap c),
             cDirty := cDirty c \<union> set (map (\<lambda>blockOff. i64 (offset + blockOff)) offs)\<rparr>))"

function copySegments ::
  "int \<Rightarrow> int \<Rightarrow> (int \<Rightarrow> byte) \<Rightarrow> Cache \<Rightarrow> Range list \<Rightarrow> int \<Rightarrow> vm_script \<Rightarrow> (cache_error, Cache) go option" where
  "copySegments iovMax lim mem c ranges offset script =
     (let (remote, seg, rest) = takeSegment iovMax lim ranges [] 0
      in if remote = [] then Some (Ok c)
         else
           (case address c offset of
              Fail e \<Rightarrow> Some (Fail e)
            | Panic \<Rightarrow> Some Panic
            | Ok _ \<Rightarrow>
                (case vmRead seg script of
                   None \<Rightarrow> None
                 | Some (Fail e, _) \<Rightarrow> Some (Fail e)
                 | Some (Panic, _) \<Rightarrow> Some Panic
                 | Some (Ok _, script') \<Rightarrow>
                     (case storeSegment mem c remote seg offset of
                        Fail e \<Rightarrow> Some (Fail e)
                      | Panic \<Rightarrow> Some Panic
                      | Ok c' \<Rightarrow> copySegments iovMax lim mem c' rest (i64 (offset + seg)) script'))))"
  by pat_completeness auto

termination
  by (relation "measure (\<lambda>(_, _, _, _, _, _, script). length script)") (auto dest: vmRead_shorter)

declare copySegments.simps [simp del]

definition copyProcessMemory ::
  "int \<Rightarrow> int \<Rightarrow> (int \<Rightarrow> byte) \<Rightarrow> Cache \<Rightarrow> Range list \<Rightarrow> vm_script \<Rightarrow> (cache_error, Cache) go option" where
  "copyProcessMemory iovMax maxRwCount mem c rs script =
     (case getAlignedMaxRwCount maxRwCount (cBlockSize c) of
        Fail e \<Rightarrow> Some (Fail e)
      | Panic \<Rightarrow> Some Panic
      | Ok alignedRwCount \<Rightarrow>
          (case splitOversizedRanges rs alignedRwCount of
             None \<Rightarrow> None
           | Some ranges \<Rightarrow> copySegments iovMax alignedRwCount mem c ranges 0 script))"

text \<open>A failed copy closes the cache, whose errors are joined to the error of the copy.\<close>

definition NewCacheFromProcessMemory ::
  "file_env \<Rightarrow> int \<Rightarrow> int \<Rightarrow> (int \<Rightarrow> byte) \<Rightarrow> int \<Rightarrow> string \<Rightarrow> Range list \<Rightarrow> vm_script \<Rightarrow> bool \<Rightarrow> bool \<Rightarrow>
   (cache_error, Cache) go option" where
  "NewCacheFromProcessMemory env iovMax maxRwCount mem blockSize filePath ranges script unmapOk removeOk =
     (case NewCache env (GetSize ranges) blockSize filePath False of
        Fail e \<Rightarrow> Some (Fail e)
      | Panic \<Rightarrow> Some Panic
      | Ok cache \<Rightarrow>
          if GetSize ranges = 0 then Some (Ok cache)
          else
            map_option
              (\<lambda>res. case res of
                 Ok c \<Rightarrow> Ok c
               | Panic \<Rightarrow> Panic
               | Fail e \<Rightarrow>
                   (case snd (cache_Close unmapOk removeOk cache) of
                      Ok _ \<Rightarrow> Fail e
                    | Fail e' \<Rightarrow> Fail (BothErrors e e')
                    | Panic \<Rightarrow> Panic))
              (copyProcessMemory iovMax maxRwCount mem cache ranges script))"

subsection \<open>Segments\<close>

definition seg_ranges :: "int \<Rightarrow> int \<Rightarrow> Range list \<Rightarrow> bool" where
  "seg_ranges bs lim rs \<longleftrightarrow>
     (\<forall>r \<in> set rs. 0 < rSize r \<and> rSize r \<le> lim \<and> bs dvd rSize r)"

lemma takeSegment_split:
  assumes "lim < 4611686018427387904" "seg_ranges bs lim (remote @ rs)" "seg = sum_list (map rSize remote)"
    "0 \<le> seg" "seg \<le> lim"
  shows "\<exists>taken rest. takeSegment iovMax lim rs remote seg =
      (remote @ taken, sum_list (map rSize (remote @ taken)), rest) \<and> rs = taken @ rest \<and>
    sum_list (map rSize (remote @ taken)) \<le> lim \<and> (int (length remote) < iovMax \<and> remote = [] \<and> rs \<noteq> [] \<longrightarrow> taken \<noteq> [])"
  using assms(2-)
proof (induction rs arbitrary: remote seg)
  case (Cons r rs)
  have r: "0 < rSize r" "rSize r \<le> lim" using Cons.prems(1) by (auto simp: seg_ranges_def)
  have wrap: "i64 (seg + rSize r) = seg + rSize r" using Cons.prems r assms(1) by simp
  show ?case
  proof (cases "int (length remote) = iovMax \<or> lim < seg + rSize r")
    case True
    then show ?thesis using Cons.prems r wrap by (auto intro!: exI [of _ "[]"])
  next
    case False
    have "seg_ranges bs lim ((remote @ [r]) @ rs)" using Cons.prems(1) by simp
    from Cons.IH [OF this, of "seg + rSize r"] Cons.prems r False obtain taken rest where
      "takeSegment iovMax lim rs (remote @ [r]) (seg + rSize r) =
        ((remote @ [r]) @ taken, sum_list (map rSize ((remote @ [r]) @ taken)), rest)"
      "rs = taken @ rest" "sum_list (map rSize ((remote @ [r]) @ taken)) \<le> lim" by auto
    with False wrap show ?thesis by (intro exI [of _ "r # taken"] exI [of _ rest]) simp
  qed
qed simp

subsection \<open>The copy\<close>

definition script_ok :: "int \<Rightarrow> nat \<Rightarrow> vm_script \<Rightarrow> bool" where
  "script_ok lim n script \<longleftrightarrow>
     (\<forall>e \<in> set script. \<not> fst e \<and> (snd e = VmRetry \<or> (\<exists>m \<ge> lim. snd e = VmUpTo m))) \<and>
     n \<le> length (filter (\<lambda>e. snd e \<noteq> VmRetry) script)"

lemma vmRead_ok:
  assumes "script_ok lim (Suc n) script" "seg \<le> lim"
  shows "\<exists>script'. vmRead seg script = Some (Ok (), script') \<and> script_ok lim n script'"
  using assms
proof (induction seg script rule: vmRead.induct)
  case (2 seg done' reply script)
  show ?case
  proof (cases "reply = VmRetry")
    case True
    with "2.prems" have "script_ok lim (Suc n) script" by (simp add: script_ok_def)
    with 2 True show ?thesis by (auto simp: script_ok_def)
  next
    case False
    with "2.prems" obtain m where "reply = VmUpTo m" "lim \<le> m" "\<not> done'" by (auto simp: script_ok_def)
    with "2.prems" show ?thesis by (auto simp: script_ok_def min_def)
  qed
qed (simp add: script_ok_def)

lemma script_ok_mono: "script_ok lim n script \<Longrightarrow> m \<le> n \<Longrightarrow> script_ok lim m script"
  by (simp add: script_ok_def)

lemma length_bytes_of:
  "\<forall>r \<in> set rs. 0 \<le> rSize r \<Longrightarrow> int (length (bytes_of rs)) = sum_list (map rSize rs)"
  by (induction rs) (simp_all add: range_bytes_def)

lemma storeSegment_open:
  assumes c: "cache_open c mm" and off: "0 \<le> off" "off + seg \<le> cSize c" "cBlockSize c dvd off"
    and seg: "int (length (bytes_of remote)) = seg"
  shows "\<exists>c'. storeSegment mem c remote seg off = Ok c' \<and>
    cache_open c' (write_slice mm (nat off) (map mem (bytes_of remote))) \<and>
    cDirty c' = cDirty c \<union> {k. off \<le> k \<and> k < off + seg \<and> cBlockSize c dvd k} \<and>
    cSize c' = cSize c \<and> cBlockSize c' = cBlockSize c \<and> cDirtyFile c' = cDirtyFile c \<and> cFilePath c' = cFilePath c"
proof -
  have seg0: "0 \<le> seg" using seg by linarith
  from c off seg0 blocks_in [of "cBlockSize c" seg] obtain offs where
    offs: "BlocksOffsets seg (cBlockSize c) = (Ok offs :: (cache_error, int list) go)"
      "set offs = {k. 0 \<le> k \<and> k < seg \<and> cBlockSize c dvd k}"
    by (auto simp: cache_open_def)
  have "i64 (off + k) = off + k" if "k \<in> set offs" for k
    using c off that by (auto simp: offs(2) cache_open_def)
  then have "set (map (\<lambda>k. i64 (off + k)) offs) = (\<lambda>k. off + k) ` set offs"
    unfolding set_map by (intro image_cong) simp_all
  also have "\<dots> = {k. off \<le> k \<and> k < off + seg \<and> cBlockSize c dvd k}"
  proof -
    have "k \<in> (\<lambda>k. off + k) ` set offs" if "off \<le> k" "k < off + seg" "cBlockSize c dvd k" for k
      using that off(3) by (intro image_eqI [of _ _ "k - off"]) (auto simp: offs(2))
    then show ?thesis using off(3) by (auto simp: offs(2))
  qed
  finally have set: "set (map (\<lambda>k. i64 (off + k)) offs) = {k. off \<le> k \<and> k < off + seg \<and> cBlockSize c dvd k}" .
  have mm: "cMmap c = Some mm" using c by (simp add: cache_open_def)
  have "storeSegment mem c remote seg off =
      Ok (c\<lparr>cMmap := Some (write_slice mm (nat off) (map mem (bytes_of remote))),
            cDirty := cDirty c \<union> {k. off \<le> k \<and> k < off + seg \<and> cBlockSize c dvd k}\<rparr>)"
    using offs(1) mm by (simp add: storeSegment_def set del: set_map)
  moreover have "nat off + length (bytes_of remote) \<le> length mm"
    using c off seg by (auto simp: cache_open_def)
  ultimately show ?thesis using c off by (auto simp: cache_open_def)
qed

lemma sum_rSize_pos: "seg_ranges bs lim rs \<Longrightarrow> 0 \<le> sum_list (map rSize rs)"
  by (induction rs) (auto simp: seg_ranges_def)

lemma sum_rSize_dvd: "seg_ranges bs lim rs \<Longrightarrow> bs dvd sum_list (map rSize rs)"
  by (induction rs) (auto simp: seg_ranges_def)

lemma copySegments_ok:
  assumes "lim < 4611686018427387904" "0 < iovMax" "0 \<le> lim"
    and "cache_open c mm" "seg_ranges (cBlockSize c) lim rs" "script_ok lim (length rs) script"
    "0 \<le> off" "cBlockSize c dvd off" "off + sum_list (map rSize rs) = cSize c"
  shows "\<exists>c'. copySegments iovMax lim mem c rs off script = Some (Ok c') \<and>
    cache_open c' (take (nat off) mm @ map mem (bytes_of rs)) \<and>
    cDirty c' = cDirty c \<union> {k. off \<le> k \<and> k < cSize c \<and> cBlockSize c dvd k} \<and>
    cSize c' = cSize c \<and> cBlockSize c' = cBlockSize c \<and> cDirtyFile c' = cDirtyFile c \<and> cFilePath c' = cFilePath c"
  using assms(4-)
proof (induction "length rs" arbitrary: c mm rs off script rule: less_induct)
  case less
  let ?bs = "cBlockSize c"
  from takeSegment_split [OF assms(1), of ?bs "[]" rs 0 iovMax] less.prems(2) assms(2,3) obtain taken rest where
    t: "takeSegment iovMax lim rs [] 0 = (taken, sum_list (map rSize taken), rest)" "rs = taken @ rest"
      "sum_list (map rSize taken) \<le> lim" "rs \<noteq> [] \<longrightarrow> taken \<noteq> []" by auto
  show ?case
  proof (cases "rs = []")
    case True
    then have "off = cSize c" using less.prems by simp
    moreover have "nat (cSize c) = length mm" using less.prems(1) by (auto simp: cache_open_def)
    moreover have "copySegments iovMax lim mem c rs off script = Some (Ok c)"
      using True by (subst copySegments.simps) simp
    ultimately show ?thesis using True less.prems(1) by (intro exI [of _ c]) auto
  next
    case False
    let ?seg = "sum_list (map rSize taken)"
    have ranges: "seg_ranges ?bs lim taken" "seg_ranges ?bs lim rest"
      using less.prems(2) t(2) by (auto simp: seg_ranges_def)
    note pos = sum_rSize_pos [OF ranges(1)] sum_rSize_pos [OF ranges(2)]
    have seg: "int (length (bytes_of taken)) = ?seg"
      using ranges(1) by (intro length_bytes_of) (auto simp: seg_ranges_def)
    have taken: "taken \<noteq> []" using False t(4) by blast
    then have "0 < ?seg" using ranges(1) sum_rSize_pos [of ?bs lim "tl taken"]
      by (cases taken) (auto simp: seg_ranges_def)
    then have off: "off + ?seg \<le> cSize c" "off < cSize c" using less.prems t(2) pos by auto
    have addr: "address c off = Ok (Some off)"
      using less.prems(1,4) off by (auto simp: address_def cache_open_def)
    have "script_ok lim (Suc (length rest)) script"
      using less.prems(3) t(2) taken by (auto intro: script_ok_mono simp: Suc_le_eq)
    from vmRead_ok [OF this t(3)] obtain script' where
      v: "vmRead ?seg script = Some (Ok (), script')" "script_ok lim (length rest) script'" by blast
    from storeSegment_open [OF less.prems(1,4) off(1) less.prems(5) seg, of mem] obtain c1 where
      c1: "storeSegment mem c taken ?seg off = Ok c1"
        "cache_open c1 (write_slice mm (nat off) (map mem (bytes_of taken)))"
        "cDirty c1 = cDirty c \<union> {k. off \<le> k \<and> k < off + ?seg \<and> ?bs dvd k}"
        "cSize c1 = cSize c" "cBlockSize c1 = ?bs" "cDirtyFile c1 = cDirtyFile c" "cFilePath c1 = cFilePath c"
      by blast
    have "i64 (off + ?seg) = off + ?seg" using less.prems(1,4) off pos by (auto simp: cache_open_def)
    then have step: "copySegments iovMax lim mem c rs off script =
        copySegments iovMax lim mem c1 rest (off + ?seg) script'"
      using t(1) taken addr v(1) c1(1) by (subst copySegments.simps) simp
    have "length rest < length rs" using t(2) taken by simp
    moreover have "?bs dvd off + ?seg" using less.prems(5) sum_rSize_dvd [OF ranges(1)] by simp
    moreover have "off + ?seg + sum_list (map rSize rest) = cSize c" using less.prems(6) t(2) by simp
    ultimately obtain c' where c': "copySegments iovMax lim mem c1 rest (off + ?seg) script' = Some (Ok c')"
      "cache_open c' (take (nat (off + ?seg)) (write_slice mm (nat off) (map mem (bytes_of taken))) @ map mem (bytes_of rest))"
      "cDirty c' = cDirty c1 \<union> {k. off + ?seg \<le> k \<and> k < cSize c \<and> ?bs dvd k}"
      "cSize c' = cSize c" "cBlockSize c' = ?bs" "cDirtyFile c' = cDirtyFile c" "cFilePath c' = cFilePath c"
      using less.hyps [OF _ c1(2), of rest script' "off + ?seg"] c1 ranges(2) v(2) less.prems(4) pos by auto
    have "nat (off + ?seg) = nat off + length (bytes_of taken)" "nat off \<le> length mm"
      using seg less.prems(1,4) off by (auto simp: cache_open_def)
    then have "take (nat (off + ?seg)) (write_slice mm (nat off) (map mem (bytes_of taken))) =
        take (nat off) mm @ map mem (bytes_of taken)"
      by (simp add: write_slice_def)
    then have "cache_open c' (take (nat off) mm @ map mem (bytes_of rs))" using c'(2) t(2) by simp
    moreover have "cDirty c' = cDirty c \<union> {k. off \<le> k \<and> k < cSize c \<and> ?bs dvd k}"
    proof -
      have "{k. off \<le> k \<and> k < off + ?seg \<and> ?bs dvd k} \<union> {k. off + ?seg \<le> k \<and> k < cSize c \<and> ?bs dvd k} =
          {k. off \<le> k \<and> k < cSize c \<and> ?bs dvd k}"
        using off(1) pos(1) by (intro set_eqI) (simp, linarith)
      then show ?thesis unfolding c'(3) c1(3) by blast
    qed
    ultimately show ?thesis using c'(1,4-7) step by (intro exI [of _ c']) simp
  qed
qed

subsection \<open>NewCacheFromProcessMemory\<close>

lemma splitLoop_dvd:
  assumes "splitLoop r maxSize off acc = Some rs" "bs dvd maxSize" "bs dvd rSize r" "bs dvd off"
    "0 < maxSize" "range_ok maxSize r" "0 \<le> off" "off \<le> rSize r + maxSize" "\<forall>q \<in> set acc. bs dvd rSize q"
  shows "\<forall>q \<in> set rs. bs dvd rSize q"
  using assms
proof (induction "nat (rSize r - off)" arbitrary: off acc rule: less_induct)
  case less
  show ?case
  proof (cases "off < rSize r")
    case True
    let ?q = "\<lparr>rStart = rStart r + off, rSize = min (rSize r - off) maxSize\<rparr>"
    have wrap: "i64 (off + maxSize) = off + maxSize" "i64 (rStart r + off) = rStart r + off"
      "i64 (rSize r - off) = rSize r - off"
      using True less.prems by (auto simp: range_ok_def)
    have step: "splitLoop r maxSize (off + maxSize) (acc @ [?q]) = Some rs"
      using True less.prems(1) by (subst (asm) splitLoop.simps) (simp add: wrap)
    moreover have "nat (rSize r - (off + maxSize)) < nat (rSize r - off)" using True less.prems(5) by linarith
    moreover have "bs dvd rSize ?q" using less.prems(2-4) by (auto simp: min_def)
    ultimately show ?thesis
      using less.hyps [of "off + maxSize" "acc @ [?q]"] less.prems True by simp
  next
    case False
    with less.prems show ?thesis by (subst (asm) (1) splitLoop.simps) auto
  qed
qed

lemma splitOversizedRanges_dvd:
  assumes "splitOversizedRanges rs maxSize = Some qs" "0 < maxSize" "bs dvd maxSize"
    "\<forall>r \<in> set rs. range_ok maxSize r \<and> bs dvd rSize r"
  shows "\<forall>q \<in> set qs. bs dvd rSize q"
  using assms
proof (induction rs arbitrary: qs)
  case (Cons r rs)
  then obtain xs ys where *: "(if rSize r \<le> maxSize then Some [r] else splitLoop r maxSize 0 []) = Some xs"
    "splitOversizedRanges rs maxSize = Some ys" "qs = xs @ ys"
    by (auto split: bind_splits)
  have "\<forall>q \<in> set xs. bs dvd rSize q"
    using * Cons.prems splitLoop_dvd [of r maxSize 0 "[]" xs bs]
    by (auto simp: range_ok_def split: if_splits)
  with * Cons show ?case by auto
qed simp

lemma GetSize_sum:
  assumes "\<forall>r \<in> set rs. 0 \<le> rSize r" "0 \<le> a" "a + sum_list (map rSize rs) < 9223372036854775808"
  shows "fold (\<lambda>r sz. i64 (sz + rSize r)) rs a = a + sum_list (map rSize rs)"
  using assms
proof (induction rs arbitrary: a)
  case (Cons r rs)
  have "0 \<le> sum_list (map rSize rs)" using Cons.prems(1) by (intro sum_list_nonneg) auto
  with Cons.prems Cons.IH [of "a + rSize r"] show ?case by (simp add: add.assoc)
qed simp

definition memory_ranges :: "int \<Rightarrow> int \<Rightarrow> Range list \<Rightarrow> bool" where
  "memory_ranges bs maxRwCount rs \<longleftrightarrow>
     rs \<noteq> [] \<and> (\<forall>r \<in> set rs. range_ok (maxRwCount div bs * bs) r \<and> bs dvd rSize r) \<and>
     sum_list (map rSize rs) + bs \<le> 9223372036854775807"

lemma NewCacheFromProcessMemory_correct:
  assumes env: "feOpen env = Some content" "feTruncate env" "feMap env"
    and bs: "0 < bs" "bs \<le> maxRwCount" "maxRwCount < 4611686018427387904" and iov: "0 < iovMax"
    and rs: "memory_ranges bs maxRwCount rs"
    and script: "\<And>qs. splitOversizedRanges rs (maxRwCount div bs * bs) = Some qs \<Longrightarrow>
      script_ok (maxRwCount div bs * bs) (length qs) script"
  shows "\<exists>c. NewCacheFromProcessMemory env iovMax maxRwCount mem bs path rs script unmapOk removeOk = Some (Ok c) \<and>
    cache_open c (map mem (bytes_of rs)) \<and> cBlockSize c = bs \<and> cFilePath c = path \<and> \<not> cDirtyFile c \<and>
    cDirty c = {k. 0 \<le> k \<and> k < cSize c \<and> bs dvd k}"
proof -
  let ?lim = "maxRwCount div bs * bs" and ?T = "sum_list (map rSize rs)"
  have "1 \<le> maxRwCount div bs" using bs mult_le_iff_le_div [of bs 1 maxRwCount] by simp
  then have "1 * bs \<le> ?lim" using bs by (intro mult_right_mono) auto
  then have lim: "bs \<le> ?lim" by simp
  have lim': "?lim \<le> maxRwCount" using mult_div_le_int [OF bs(1), of maxRwCount] by (simp add: mult.commute)
  have ok: "\<forall>r \<in> set rs. range_ok ?lim r" "\<forall>r \<in> set rs. range_ok ?lim r \<and> bs dvd rSize r"
    and T: "?T + bs \<le> 9223372036854775807" and ne: "rs \<noteq> []"
    using rs by (auto simp: memory_ranges_def)
  have pos: "\<forall>r \<in> set rs. 0 < rSize r" using ok by (auto simp: range_ok_def)
  have "0 < ?T"
  proof (cases rs)
    case (Cons r rs')
    with pos have "0 \<le> sum_list (map rSize rs')" by (intro sum_list_nonneg) (auto simp: less_imp_le)
    with pos Cons show ?thesis by simp
  qed (use ne in simp)
  have size: "GetSize rs = ?T" using GetSize_sum [of rs 0] pos T bs by (auto simp: GetSize_def less_imp_le)
  from splitOversizedRanges_pieces [of ?lim rs] lim bs ok(1) obtain qs where
    qs: "splitOversizedRanges rs ?lim = Some qs" "bytes_of qs = bytes_of rs"
      "\<forall>q \<in> set qs. range_ok ?lim q \<and> rSize q \<le> ?lim" by auto
  have "\<forall>q \<in> set qs. bs dvd rSize q"
    using splitOversizedRanges_dvd [OF qs(1) _ _ ok(2)] lim bs by simp
  with qs(3) have sr: "seg_ranges bs ?lim qs" by (auto simp: seg_ranges_def range_ok_def)
  have len: "sum_list (map rSize qs) = ?T"
    using length_bytes_of [of qs] length_bytes_of [of rs] qs(2,3) pos by (auto simp: range_ok_def less_imp_le)
  from NewCache_open [OF env \<open>0 < ?T\<close> bs(1) T, of path False] obtain c0 where
    c0: "NewCache env ?T bs path False = Ok c0" "cache_open c0 (file_resize content (nat ?T))" "cDirty c0 = {}"
      "cSize c0 = ?T" "cBlockSize c0 = bs" "\<not> cDirtyFile c0" "cFilePath c0 = path" by auto
  have al: "getAlignedMaxRwCount maxRwCount bs = (Ok ?lim :: (cache_error, int) go)"
  proof -
    have "0 \<le> maxRwCount" using bs by linarith
    then have "maxRwCount sdiv bs = maxRwCount div bs" "maxRwCount div bs \<le> maxRwCount"
      using bs by (auto simp: div_le_dividend_int)
    moreover have "i64 ?lim = ?lim" using lim lim' bs by (intro i64_id) linarith+
    ultimately show ?thesis
      using bs \<open>1 \<le> maxRwCount div bs\<close> by (simp add: getAlignedMaxRwCount_def)
  qed
  from copySegments_ok [OF _ iov _ c0(2), of ?lim qs script 0 mem] c0 sr len bs lim lim' script [OF qs(1)] obtain c where
    c: "copySegments iovMax ?lim mem c0 qs 0 script = Some (Ok c)"
      "cache_open c (map mem (bytes_of qs))" "cDirty c = {k. 0 \<le> k \<and> k < ?T \<and> bs dvd k}"
      "cSize c = ?T" "cBlockSize c = bs" "\<not> cDirtyFile c" "cFilePath c = path"
    by auto
  have "copyProcessMemory iovMax maxRwCount mem c0 rs script = Some (Ok c)"
    using al qs(1) c(1) c0(5) by (simp add: copyProcessMemory_def)
  then show ?thesis
    using c c0(1) size \<open>0 < ?T\<close> qs(2) by (auto simp: NewCacheFromProcessMemory_def)
qed

end
