(* ===== verification/Snapshot.thy ===== *)
theory Snapshot
  imports Build_File Block_Process
begin

text \<open>
  Pausing a sandbox, across the components: the overlay's cache is exported to a diff file
  (\<^verbatim>\<open>ExportToDiff\<close>) and the header of the snapshot is made from the metadata of the diff and the header
  of the running image (\<^verbatim>\<open>ToDiffHeader\<close>).  \<open>snapshot_image\<close>: the image that the new header describes,
  with the diff file as the data of the new build, is byte for byte the disk that the sandbox saw
  through the overlay, and it is again an image that a sandbox can be started from.
\<close>

subsection \<open>The diff file, block by block\<close>

lemma length_concat_blocks:
  "\<forall>x \<in> set xs. length (f x) = n \<Longrightarrow> length (concat (map f xs)) = length xs * n"
  by (induction xs) auto

lemma concat_block_nth:
  assumes fin: "finite D" and i: "(i::int) \<in> D" and len: "\<forall>j \<in> D. length (f j) = n" and r: "r < n"
  shows "concat (map f (sorted_list_of_set D)) ! (card {j \<in> D. j < i} * n + r) = f i ! r"
    "card {j \<in> D. j < i} * n + r < length (concat (map f (sorted_list_of_set D)))"
proof -
  let ?L = "sorted_list_of_set {j \<in> D. j < i}" and ?R = "sorted_list_of_set {j \<in> D. i + 1 \<le> j}"
  have "sorted_list_of_set {j \<in> D. j < i + 1} = ?L @ [i]"
    using sorted_members_run [OF fin, of i "i + 1" i] i by fastforce
  then have split: "sorted_list_of_set D = ?L @ i # ?R" using sorted_members_split [OF fin, of "i + 1"] by simp
  have l: "length (concat (map f ?L)) = card {j \<in> D. j < i} * n"
    using fin len by (subst length_concat_blocks [where n = n]) auto
  show "concat (map f (sorted_list_of_set D)) ! (card {j \<in> D. j < i} * n + r) = f i ! r"
    unfolding split using l r len i by (simp add: nth_append)
  show "card {j \<in> D. j < i} * n + r < length (concat (map f (sorted_list_of_set D)))"
    unfolding split using l r len i by simp
qed

lemma packed_bytes:
  assumes bs: "0 < bs" and D: "D \<subseteq> {0..<int n}" and len: "int (length mm) = int n * bs"
    and x: "0 \<le> x" "x div bs \<in> D"
  defines "out \<equiv> concat (map (block_at mm bs) (sorted_list_of_set D))"
  shows "out ! nat (block_rank D (x div bs) * bs + x mod bs) = mm ! nat x"
    "block_rank D (x div bs) * bs + x mod bs < int (length out)"
proof -
  have fin: "finite D" using D by (rule finite_subset) simp
  have fit: "j * bs + bs \<le> int (length mm)" if "j \<in> D" for j
  proof -
    have "(j + 1) * bs \<le> int n * bs" using that D bs by (intro mult_right_mono) auto
    then show ?thesis using len by (simp add: distrib_right)
  qed
  have bl: "length (block_at mm bs j) = nat bs" if "j \<in> D" for j
  proof -
    have "0 \<le> j" "0 \<le> j * bs" using that D bs by auto
    then have "nat (j * bs) + nat bs \<le> length mm" using fit [OF that] bs by linarith
    then show ?thesis by simp
  qed
  have r: "0 \<le> x mod bs" "x mod bs < bs" using bs by auto
  then have r': "nat (x mod bs) < nat bs" by linarith
  have pos: "nat (block_rank D (x div bs) * bs + x mod bs) = card {j \<in> D. j < x div bs} * nat bs + nat (x mod bs)"
    using bs r by (simp add: block_rank_def nat_add_distrib nat_mult_distrib)
  note c = concat_block_nth [OF fin x(2) _ r', of "block_at mm bs"]
  have q: "0 \<le> x div bs" using x(1) bs by (simp add: pos_imp_zdiv_nonneg_iff)
  have e: "nat (x div bs * bs) + nat (x mod bs) = nat x"
    using r q bs div_mult_mod_eq [of x bs] by (simp add: nat_add_distrib [symmetric])
  have "nat x < length mm" using fit [OF x(2)] r div_mult_mod_eq [of x bs] x(1) by linarith
  then have "block_at mm bs (x div bs) ! nat (x mod bs) = mm ! nat x" using r' e by simp
  then show "out ! nat (block_rank D (x div bs) * bs + x mod bs) = mm ! nat x"
    unfolding out_def pos using c(1) bl by simp
  have "0 \<le> block_rank D (x div bs) * bs + x mod bs" using r bs by (simp add: block_rank_def)
  moreover have "card {j \<in> D. j < x div bs} * nat bs + nat (x mod bs) < length out"
    unfolding out_def using c(2) bl by simp
  ultimately show "block_rank D (x div bs) * bs + x mod bs < int (length out)" using pos by linarith
qed

subsection \<open>The image of the snapshot\<close>

lemma image_byte_canon: "canon a = canon b \<Longrightarrow> image_byte img a = image_byte img b"
  by (cases a rule: canon.cases; cases b rule: canon.cases) (auto simp: image_byte_def split: if_splits)

lemma diff_lookup_no_empty: "diff_lookup u bs D {} x = packed_lookup u bs D x"
  by (simp add: diff_lookup_def packed_lookup_def)

lemma dirty_block_iff:
  assumes "cache_aligned c" "0 < cBlockSize c"
  shows "x div cBlockSize c * cBlockSize c \<in> cDirty c \<longleftrightarrow> x div cBlockSize c \<in> dirty_blocks c"
proof
  assume "x div cBlockSize c * cBlockSize c \<in> cDirty c"
  then show "x div cBlockSize c \<in> dirty_blocks c"
    using assms(2) by (auto simp: dirty_blocks_def intro!: image_eqI [of _ _ "x div cBlockSize c * cBlockSize c"])
next
  assume "x div cBlockSize c \<in> dirty_blocks c"
  then obtain k where k: "k \<in> cDirty c" "k div cBlockSize c = x div cBlockSize c" by (auto simp: dirty_blocks_def)
  then have "cBlockSize c dvd k" using assms(1) by (simp add: cache_aligned_def)
  then have "k div cBlockSize c * cBlockSize c = k" by (rule dvd_div_mult_self)
  with k show "x div cBlockSize c * cBlockSize c \<in> cDirty c" by (simp only:)
qed

definition pause_pre ::
  "'b bitset_ops \<Rightarrow> (uuid \<Rightarrow> byte list option) \<Rightarrow> 'b Header \<Rightarrow> Cache \<Rightarrow> byte list \<Rightarrow> uuid \<Rightarrow> bool" where
  "pause_pre ops img h c mm u \<longleftrightarrow>
     bitset_laws ops \<and> header_ok ops h \<and> contiguous (lookup_map (hMapping h)) \<and> image_backed img h \<and>
     cache_open c mm \<and> cache_aligned c \<and> cBlockSize c = mdBlockSize (hMetadata h) \<and>
     cSize c = mdSize (hMetadata h) \<and> cBlockSize c dvd cSize c \<and>
     u \<noteq> uuid_Nil \<and> (\<forall>m \<in> set (hMapping h). bmBuildId m \<noteq> u)"

lemma snapshot_image:
  assumes pre: "pause_pre ops img h c mm u" and env: "copy_env_ok env" and keys: "set keys = cDirty c"
  shows "\<exists>d out h'. ExportToDiff ops env keys c [] = Some (Ok (d, out)) \<and>
    ToDiffHeader ops d h u = Some (Ok h') \<and> header_ok ops h' \<and> contiguous (lookup_map (hMapping h')) \<and>
    hMetadata h' = NextGeneration (hMetadata h) u \<and> image_backed (img(u \<mapsto> out)) h' \<and>
    image_bytes (img(u \<mapsto> out)) h' = overlay_view (cBlockSize c) (cDirty c) mm (image_bytes img h)"
proof -
  let ?bs = "cBlockSize c" and ?D = "dirty_blocks c" and ?sz = "cSize c"
  from pre have laws: "bitset_laws ops" and c: "cache_open c mm" "?bs dvd ?sz" and al: "cache_aligned c"
    and h: "header_ok ops h" and ct: "contiguous (lookup_map (hMapping h))" and backed: "image_backed img h"
    and geo: "mdBlockSize (hMetadata h) = ?bs" "mdSize (hMetadata h) = ?sz"
    and fresh: "u \<noteq> uuid_Nil" "\<And>m. m \<in> set (hMapping h) \<Longrightarrow> bmBuildId m \<noteq> u"
    by (auto simp: pause_pre_def)
  from c have bs: "0 < ?bs" and sz: "0 < ?sz" "int (length mm) = ?sz" and Dk: "cDirty c \<subseteq> {0..<?sz}"
    by (auto simp: cache_open_def)
  define n where "n = nat (?sz div ?bs)"
  have "0 \<le> ?sz div ?bs" using bs sz by (simp add: pos_imp_zdiv_nonneg_iff)
  then have n: "int n * ?bs = ?sz" using c(2) by (simp add: n_def)
  have D: "?D \<subseteq> {0..<int n}"
  proof
    fix i assume "i \<in> ?D"
    then obtain k where k: "k \<in> cDirty c" "i = k div ?bs" by (auto simp: dirty_blocks_def)
    with Dk have "0 \<le> k" "k < int n * ?bs" by (auto simp: n)
    with k less_mult_iff_div_less [OF bs, of k "int n"] bs show "i \<in> {0..<int n}" by (simp add: pos_imp_zdiv_nonneg_iff)
  qed
  define out where "out = concat (map (block_at mm ?bs) (sorted_list_of_set ?D))"
  from ExportToDiff_correct [OF laws env c keys] obtain d where
    d: "ExportToDiff ops env keys c [] = Some (Ok (d, out))" "members ops (dmDirty d) = ?D"
      "members ops (dmEmpty d) = {}" "dmBlockSize d = ?bs" by (auto simp: out_def)
  have "snapshot_pre ops d h u"
  proof -
    have "(i + 1) * ?bs \<le> ?sz" if "i \<in> ?D" for i
    proof -
      have "(i + 1) * ?bs \<le> int n * ?bs" using that D bs by (intro mult_right_mono) auto
      then show ?thesis by (simp only: n)
    qed
    then show ?thesis using h ct sz fresh d geo by (auto simp: snapshot_pre_def)
  qed
  from ToDiffHeader_correct [OF laws this] obtain h' where
    h': "ToDiffHeader ops d h u = Some (Ok h')" "header_ok ops h'" "contiguous (lookup_map (hMapping h'))"
      "hMetadata h' = NextGeneration (hMetadata h) u"
      "\<And>x. canon (lookup_map (hMapping h') x) = canon (image_lookup (lookup_map (hMapping h)) u ?bs ?D {} x)"
    unfolding d(2-4) by blast
  have md: "mdSize (hMetadata h') = ?sz" "mdBlockSize (hMetadata h') = ?bs"
    using h'(4) geo by (simp_all add: NextGeneration_def)
  have old: "lookup_map (hMapping h) x \<noteq> Some (u, s)" for x s using fresh(2) by (auto elim!: lookup_map_in)
  have look: "image_lookup (lookup_map (hMapping h)) u ?bs ?D {} x =
      (if x div ?bs \<in> ?D then Some (u, block_rank ?D (x div ?bs) * ?bs + x mod ?bs) else lookup_map (hMapping h) x)" for x
    by (simp add: image_lookup_def diff_lookup_no_empty packed_lookup_def)
  have len: "int (length mm) = int n * ?bs" using sz n by simp
  note pb = packed_bytes [OF bs D len, folded out_def]
  have "image_backed (img(u \<mapsto> out)) h'"
    unfolding image_backed_def md
  proof (intro allI impI)
    fix x v so assume a: "lookup_map (hMapping h') x = Some (v, so) \<and> v \<noteq> uuid_Nil"
    then have "canon (image_lookup (lookup_map (hMapping h)) u ?bs ?D {} x) = Some (v, so)"
      using h'(5) [of x] by simp
    then have il: "(if x div ?bs \<in> ?D then Some (u, block_rank ?D (x div ?bs) * ?bs + x mod ?bs)
        else lookup_map (hMapping h) x) = Some (v, so)"
      using a canon_eq_Some unfolding look by blast
    show "(\<exists>content. (img(u \<mapsto> out)) v = Some content \<and> 0 \<le> so \<and> so < int (length content)) \<and>
        (?bs dvd x \<longrightarrow> ?bs dvd so)"
    proof (cases "x div ?bs \<in> ?D")
      case True
      then have v: "v = u" "so = block_rank ?D (x div ?bs) * ?bs + x mod ?bs" using il by auto
      have "0 \<le> x div ?bs" using True D by auto
      then have x: "0 \<le> x" using bs by (simp add: pos_imp_zdiv_nonneg_iff)
      have so: "0 \<le> so" using bs v(2) by (simp add: block_rank_def)
      have "?bs dvd so" if "?bs dvd x" using that by (simp add: v(2))
      with pb(2) [OF x True] so v show ?thesis by auto
    next
      case False
      then have l: "lookup_map (hMapping h) x = Some (v, so)" using il by simp
      then have "v \<noteq> u" using old by blast
      moreover have "(\<exists>content. img v = Some content \<and> 0 \<le> so \<and> so < int (length content)) \<and> (?bs dvd x \<longrightarrow> ?bs dvd so)"
        using backed [unfolded image_backed_def geo, rule_format, OF conjI [OF l]] a by blast
      ultimately show ?thesis by simp
    qed
  qed
  moreover have "image_bytes (img(u \<mapsto> out)) h' = overlay_view ?bs (cDirty c) mm (image_bytes img h)"
  proof (rule nth_equalityI)
    fix i assume "i < length (image_bytes (img(u \<mapsto> out)) h')"
    then have i: "i < nat ?sz" using md by simp
    have "image_bytes (img(u \<mapsto> out)) h' ! i =
        image_byte (img(u \<mapsto> out)) (image_lookup (lookup_map (hMapping h)) u ?bs ?D {} (int i))"
      using i md image_byte_canon [OF h'(5)] by (simp add: nth_image_bytes)
    also have "\<dots> = (if int i div ?bs \<in> ?D then mm ! i else image_byte img (lookup_map (hMapping h) (int i)))"
      using pb(1) [of "int i"] fresh(1) old [of "int i"]
      by (auto simp: look image_byte_def split: option.splits)
    also have "\<dots> = overlay_view ?bs (cDirty c) mm (image_bytes img h) ! i"
      using i geo dirty_block_iff [OF al bs, of "int i"] by (simp add: overlay_view_def nth_image_bytes)
    finally show "image_bytes (img(u \<mapsto> out)) h' ! i = overlay_view ?bs (cDirty c) mm (image_bytes img h) ! i" .
  qed (simp add: md geo)
  ultimately show ?thesis using d(1) h' by blast
qed

end
