(* ===== verification/Disk_Properties.thy ===== *)
theory Disk_Properties
  imports Snapshot Image_Properties
begin

text \<open>
  The properties of the block layer of the orchestrator (\<^verbatim>\<open>sandbox/block\<close>, \<^verbatim>\<open>sandbox/build\<close>), with
  their witnesses.  The witnesses extend the concrete image of \<^verbatim>\<open>Image_Properties\<close>: its one build is an
  object in storage, and an overlay has rewritten the second of its four blocks.
\<close>

subsection \<open>The concrete disk\<close>

definition contentA :: "byte list" where "contentA = replicate 16384 7"

definition imgA :: "uuid \<Rightarrow> byte list option" where "imgA = [buildA \<mapsto> contentA]"

definition fileEnv :: file_env where
  "fileEnv = \<lparr>feOpen = Some [], feTruncate = True, feMap = True\<rparr>"

definition storageA :: "unit storage_env" where
  "storageA =
     \<lparr>stOpen = (\<lambda>_. True), stSize = (\<lambda>_. Some 16384),
      stRead = (\<lambda>_ b off. Ok (int (length b), take (length b) (drop (nat off) contentA))),
      stFile = (\<lambda>_. fileEnv)\<rparr>"

definition uuidText :: "uuid \<Rightarrow> string" where "uuidText u = map (\<lambda>b. char_of (uint b)) u"

definition envA :: "unit build_env" where
  "envA =
     \<lparr>beStorage = storageA, beSched = rev, beUnmapOk = True, beRemoveOk = True, beStat = (\<lambda>_. (None, None)),
      beSizeErr = CtxDone, beUuidString = uuidText, beSuffix = ''x'', beCachePath = ''/cache'',
      beFileType = Rootfs, beBlockSize = 4096\<rparr>"

definition fileA :: "(bool list, (unit chunk_error, string \<times> FullFetchChunker) DiffStore) File" where
  "fileA = \<lparr>fHeader = headerA, fStore = NewDiffStore\<rparr>"

definition mmA :: "byte list" where "mmA = replicate 16384 9"

definition cacheA :: Cache where
  "cacheA =
     \<lparr>cFilePath = ''/overlay'', cSize = 16384, cBlockSize = 4096, cMmap = Some mmA, cDirty = {4096},
      cDirtyFile = False, cClosed = False\<rparr>"

definition overlayA :: "(bool list, (unit chunk_error, string \<times> FullFetchChunker) DiffStore) File Overlay" where
  "overlayA = NewOverlay file_BlockSize fileA cacheA"

definition copyEnv :: copy_env where
  "copyEnv = \<lparr>ceOpen = True, ceCopy = (\<lambda>k. if k = 0 then CopyUpTo 1000 else CopyUnsupported),
     ceSeek = (\<lambda>_. True), ceIoCopy = (\<lambda>_. True)\<rparr>"

lemma inj_uuidText: "inj uuidText"
proof (rule injI)
  fix u v assume "uuidText u = uuidText v"
  then have "map of_char (uuidText u) = (map of_char (uuidText v) :: int list)" by simp
  then have "map (\<lambda>b. of_char (char_of (uint b)) :: int) u = map (\<lambda>b. of_char (char_of (uint b))) v"
    by (simp add: uuidText_def comp_def)
  moreover have "of_char (char_of (uint b)) = uint b" for b :: byte
  proof -
    have "uint b < 2 ^ 8" using uint_bounded [of b] by simp
    then show ?thesis by (simp add: of_char_of)
  qed
  ultimately have "map uint u = map uint v" by simp
  then show "u = v" by (metis list.inj_map_strong word_uint_eq_iff)
qed

lemma imgA_backed: "image_backed imgA headerA"
  using uuids_neq
  by (auto simp: image_backed_def headerA_ok mapA_def imgA_def contentA_def split: if_splits)

lemma cacheA_open: "cache_open cacheA mmA" "cache_aligned cacheA"
  by (simp_all add: cache_open_def cache_aligned_def cacheA_def mmA_def)

lemma fileA_ok: "imageDev_ok list_bitset envA imgA fileA"
proof -
  have "4096 dvd MemoryChunkSize" by (simp add: MemoryChunkSize_def)
  moreover have "base_serves (stRead storageA path) contentA" for path
    by (simp add: base_serves_def storageA_def)
  moreover have "length contentA = 16384" by (simp add: contentA_def)
  moreover have "contentA \<noteq> []" by (simp add: contentA_def)
  moreover have "full_new_ok storageA rev path contentA 4096 cp" for path cp
    using calculation by (simp add: full_new_ok_def storageA_def fileEnv_def MemoryChunkSize_def)
  ultimately show ?thesis
    using list_bitset_laws headerA_ok imgA_backed inj_uuidText
    by (auto simp: imageDev_ok_def file_ok_def store_serves_def fileA_def envA_def imgA_def NewDiffStore_def
        storageObjectType_def Rootfs_def Memfile_def storageA_def split: if_splits)
qed

lemma overlayA_ok: "overlay_ok file_BlockSize (imageDev_ok list_bitset envA imgA) (file_bytes imgA) overlayA"
proof -
  have "file_BlockSize fileA = 4096" by (simp add: file_BlockSize_def fileA_def headerA_ok)
  moreover have "length (file_bytes imgA fileA) = 16384" by (simp add: file_bytes_def fileA_def headerA_ok)
  moreover have "cMmap cacheA = Some mmA" "cBlockSize cacheA = 4096" "cSize cacheA = 16384" "\<not> cDirtyFile cacheA"
    by (simp_all add: cacheA_def)
  ultimately show ?thesis
    using fileA_ok cacheA_open by (simp add: overlay_ok_def overlayA_def NewOverlay_def)
qed

lemma copyEnv_ok: "copy_env_ok copyEnv"
  by (simp add: copy_env_ok_def copyEnv_def)

subsection \<open>Properties\<close>

text \<open>
  C8.  A snapshot is the disk the sandbox saw.  For a well-formed image, an overlay cache
  over it, a new build id, and a kernel that copies in pieces of any size or not at all (then the
  fallback copies), \<^verbatim>\<open>ExportToDiff\<close> and \<^verbatim>\<open>ToDiffHeader\<close> return, and the bytes that the new header describes,
  with the exported file as the data of the new build, are those of the overlay: the
  rewritten blocks from the cache, all others from the old image.  The new image is well formed.
\<close>

theorem pause_snapshot_correct:
  assumes "pause_pre ops img h c mm u" "copy_env_ok env" "set keys = cDirty c"
  shows "\<exists>d out h'. ExportToDiff ops env keys c [] = Some (Ok (d, out)) \<and>
    ToDiffHeader ops d h u = Some (Ok h') \<and> header_ok ops h' \<and> contiguous (lookup_map (hMapping h')) \<and>
    hMetadata h' = NextGeneration (hMetadata h) u \<and> image_backed (img(u \<mapsto> out)) h' \<and>
    image_bytes (img(u \<mapsto> out)) h' = overlay_view (cBlockSize c) (cDirty c) mm (image_bytes img h)"
  using assms by (rule snapshot_image)

theorem pause_snapshot_correct_witness:
  "pause_pre list_bitset imgA headerA cacheA mmA buildB \<and>
   (\<exists>d out h'. ExportToDiff list_bitset copyEnv [4096] cacheA [] = Some (Ok (d, out)) \<and>
      ToDiffHeader list_bitset d headerA buildB = Some (Ok h') \<and>
      image_bytes (imgA(buildB \<mapsto> out)) h' = overlay_view 4096 {4096} mmA (image_bytes imgA headerA))"
proof -
  have pre: "pause_pre list_bitset imgA headerA cacheA mmA buildB"
    using list_bitset_laws headerA_ok contiguous_single imgA_backed cacheA_open uuids_neq
    by (auto simp: pause_pre_def cacheA_def mapA_def)
  have "set [4096] = cDirty cacheA" by (simp add: cacheA_def)
  from pause_snapshot_correct [OF pre copyEnv_ok this] pre show ?thesis
    by (auto simp: cacheA_def)
qed

text \<open>
  C9.  Read your writes.  On an overlay over an image file, whose builds are fetched from storage on
  demand, writing whole blocks and then reading whole blocks anywhere (into a zeroed buffer) returns
  the overlay's bytes with exactly the written range replaced.
\<close>

theorem overlay_read_your_writes:
  assumes ok: "overlay_ok file_BlockSize (imageDev_ok ops env img) (file_bytes img) ov"
    and w: "0 \<le> off" "oBlockSize ov dvd off" "oBlockSize ov dvd int (length b)"
      "off + int (length b) \<le> int (length (overlay_bytes (file_bytes img) ov))"
    and r: "0 \<le> at" "oBlockSize ov dvd at" "p \<noteq> []" "oBlockSize ov dvd int (length p)" "set p \<subseteq> {0}"
      "at + int (length p) \<le> int (length (overlay_bytes (file_bytes img) ov))"
  shows "\<exists>ov' ov''. overlay_WriteAt ov b off = Ok (int (length b), ov') \<and>
    overlay_ReadAt (imageDev_ReadAt ops env) ov' p at =
      (Ok (int (length p),
           slice_at (write_slice (overlay_bytes (file_bytes img) ov) (nat off) b) at (int (length p))), ov'')"
proof -
  from image_device.overlay_WriteAt_view [OF ok w] obtain ov' where
    ov': "overlay_WriteAt ov b off = Ok (int (length b), ov')"
      "overlay_ok file_BlockSize (imageDev_ok ops env img) (file_bytes img) ov'"
      "overlay_bytes (file_bytes img) ov' = write_slice (overlay_bytes (file_bytes img) ov) (nat off) b"
      "oBlockSize ov' = oBlockSize ov" by blast
  have "nat off + length b \<le> length (overlay_bytes (file_bytes img) ov)" using w by linarith
  then have "at + int (length p) \<le> int (length (overlay_bytes (file_bytes img) ov'))" using r(6) ov'(3) by simp
  from image_device.overlay_ReadAt_view [OF ov'(2) r(1) _ r(3) _ r(5) this] r ov' show ?thesis by auto
qed

theorem overlay_read_your_writes_witness:
  "\<exists>ov' ov''. overlay_WriteAt overlayA (replicate 4096 5) 8192 = Ok (4096, ov') \<and>
    overlay_ReadAt (imageDev_ReadAt list_bitset envA) ov' (replicate 8192 0) 4096 =
      (Ok (8192, slice_at (write_slice (overlay_bytes (file_bytes imgA) overlayA) 8192 (replicate 4096 5)) 4096 8192), ov'')"
proof -
  have "oBlockSize overlayA = 4096" "length (overlay_bytes (file_bytes imgA) overlayA) = 16384"
    by (simp_all add: overlayA_def NewOverlay_def overlay_bytes_def file_bytes_def file_BlockSize_def fileA_def headerA_ok)
  with overlay_read_your_writes [OF overlayA_ok, of 8192 "replicate 4096 5" 4096 "replicate 8192 0"]
  show ?thesis by simp
qed

text \<open>
  Reading an image.  A block of an image file is read from the builds its header maps it to, through
  the diff store, whose diffs are fetched from storage on first use; holes read as zeros.
\<close>

theorem image_block_read:
  assumes "imageDev_ok ops env img f" "0 \<le> off" "file_BlockSize f dvd off" "int (length p) = file_BlockSize f"
    "off + int (length p) \<le> int (length (image_bytes img (fHeader f)))" "set p \<subseteq> {0}"
  shows "\<exists>f'. imageDev_ReadAt ops env f p off =
      (Ok (int (length p), slice_at (image_bytes img (fHeader f)) off (int (length p))), f') \<and>
    imageDev_ok ops env img f' \<and> image_bytes img (fHeader f') = image_bytes img (fHeader f)"
  using image_device.read_block [of ops env img f off p] assms by (auto simp: file_bytes_def)

theorem image_block_read_witness:
  "\<exists>f'. imageDev_ReadAt list_bitset envA fileA (replicate 4096 0) 8192 = (Ok (4096, replicate 4096 7), f')"
proof -
  have g: "file_BlockSize fileA = 4096" "nat (mdSize (hMetadata (fHeader fileA))) = 16384"
    by (simp_all add: file_BlockSize_def fileA_def headerA_ok)
  have "image_bytes imgA headerA ! i = 7" if "i < 16384" for i
    using that uuids_neq by (simp add: nth_image_bytes headerA_ok mapA_def image_byte_def imgA_def contentA_def)
  then have "image_bytes imgA headerA = replicate 16384 7"
    by (intro nth_equalityI) (simp_all add: headerA_ok)
  then have "slice_at (image_bytes imgA (fHeader fileA)) 8192 4096 = replicate 4096 7" by (simp add: fileA_def)
  with image_block_read [OF fileA_ok, of 8192 "replicate 4096 0"] g show ?thesis by auto
qed

text \<open>
  C10.  A chunked storage reader serves every block-aligned range that its chunks reach: the slice
  is the object's bytes, fetched in whole chunks by concurrent fetches in any order, and the reader's
  cache stays a mirror of the object.
\<close>

theorem full_fetch_slice_serves:
  assumes "base_serves base content" "chunker_ok content fc" "\<And>xs. set (sched xs) = set xs"
    and "0 \<le> off" "0 < len" "off + len \<le> int (length content)" "cBlockSize (fcCache fc) dvd off"
    and "off + len \<le> fetch_end off len"
  shows "\<exists>fc'. chunker_Slice base False sched fc off len = (Ok (slice_at content off len), fc') \<and>
    chunker_ok content fc' \<and> cBlockSize (fcCache fc') = cBlockSize (fcCache fc)"
  using assms by (rule chunker_Slice_serves)

definition bigContent :: "byte list" where "bigContent = replicate 8388608 3"

definition bigBase :: "unit base_reader" where
  "bigBase b off = Ok (int (length b), take (length b) (drop (nat off) bigContent))"

definition bigChunker :: FullFetchChunker where
  "bigChunker = \<lparr>fcCache = the_ok (NewCache fileEnv 8388608 4096 ''/c'' False), fcSize = 8388608\<rparr>"

lemma bigChunker_ok:
  "base_serves bigBase bigContent" "chunker_ok bigContent bigChunker" "cBlockSize (fcCache bigChunker) = 4096"
  "cDirty (fcCache bigChunker) = {}" "length bigContent = 8388608"
proof -
  show len: "length bigContent = 8388608" by (simp add: bigContent_def)
  show "base_serves bigBase bigContent" by (simp add: base_serves_def bigBase_def)
  from NewCache_open [of fileEnv "[]" 8388608 4096 "''/c''" False] obtain c where
    c: "NewCache fileEnv 8388608 4096 ''/c'' False = Ok c" "cache_open c (file_resize [] 8388608)" "cDirty c = {}"
      "cache_aligned c" "cSize c = 8388608" "cBlockSize c = 4096" "\<not> cDirtyFile c" by (auto simp: fileEnv_def)
  have "cMmap c = Some (file_resize [] 8388608)" using c(2) by (simp add: cache_open_def)
  with c len show "chunker_ok bigContent bigChunker" "cBlockSize (fcCache bigChunker) = 4096"
    "cDirty (fcCache bigChunker) = {}"
    by (simp_all add: bigChunker_def chunker_ok_def mirrors_def MemoryChunkSize_def)
qed

theorem full_fetch_slice_serves_witness:
  "\<exists>fc'. chunker_Slice bigBase False rev bigChunker 4194304 4194304 =
     (Ok (slice_at bigContent 4194304 4194304), fc')"
  using full_fetch_slice_serves [OF bigChunker_ok(1,2), of rev 4194304 4194304] bigChunker_ok
  by (auto simp: fetch_end_def MemoryChunkSize_def)

text \<open>
  The reader does not serve every range of the object.  \<^verbatim>\<open>fetchToCache\<close> counts the chunks to fetch by the
  length of the range alone, so a range that starts inside a chunk can end in a chunk that is not
  fetched; if a block there is not cached yet, the slice fails although the object has the bytes.
\<close>

theorem full_fetch_slice_misses:
  assumes "base_serves base content" "chunker_ok content fc" "\<And>xs. set (sched xs) = set xs"
    and "0 \<le> off" "0 < len" "off + len \<le> int (length content)"
    and "fetch_end off len \<le> off + k" "0 \<le> k" "k < len" "cBlockSize (fcCache fc) dvd k"
      "off + k \<notin> cDirty (fcCache fc)"
  shows "\<exists>fc'. chunker_Slice base False sched fc off len = (Fail (CacheErr BytesNotAvailable), fc')"
  using assms by (rule chunker_Slice_misses)

theorem full_fetch_slice_misses_witness:
  "\<exists>fc'. chunker_Slice bigBase False (\<lambda>xs. xs) bigChunker 2097152 4194304 = (Fail (CacheErr BytesNotAvailable), fc')"
  using full_fetch_slice_misses [OF bigChunker_ok(1,2), of "\<lambda>xs. xs" 2097152 4194304 2097152] bigChunker_ok
  by (auto simp: fetch_end_def MemoryChunkSize_def)

text \<open>
  Copying guest memory.  \<^verbatim>\<open>NewCacheFromProcessMemory\<close> returns a cache that holds the bytes of the
  ranges, in order and without gaps, with every block marked: for ranges of whole blocks, any limit
  on the vector length and the transfer size, and any interleaving of retries, as long as the kernel
  answers often enough with a full transfer.
\<close>

theorem process_memory_copied:
  assumes "feOpen env = Some content" "feTruncate env" "feMap env"
    and "0 < bs" "bs \<le> maxRwCount" "maxRwCount < 4611686018427387904" "0 < iovMax"
    and "memory_ranges bs maxRwCount rs"
    and "\<And>qs. splitOversizedRanges rs (maxRwCount div bs * bs) = Some qs \<Longrightarrow>
      script_ok (maxRwCount div bs * bs) (length qs) script"
  shows "\<exists>c. NewCacheFromProcessMemory env iovMax maxRwCount mem bs path rs script unmapOk removeOk = Some (Ok c) \<and>
    cache_open c (map mem (bytes_of rs)) \<and> cBlockSize c = bs \<and> cFilePath c = path \<and> \<not> cDirtyFile c \<and>
    cDirty c = {k. 0 \<le> k \<and> k < cSize c \<and> bs dvd k}"
  using assms by (rule NewCacheFromProcessMemory_correct)

definition guestRanges :: "Range list" where
  "guestRanges = [\<lparr>rStart = 0, rSize = 8192\<rparr>, \<lparr>rStart = 40960, rSize = 4096\<rparr>]"

theorem process_memory_copied_witness:
  "\<exists>c. NewCacheFromProcessMemory fileEnv 1024 2147479552 (\<lambda>_. 1) 4096 ''/mem'' guestRanges
      [(False, VmRetry), (False, VmUpTo 2147479552), (False, VmUpTo 2147479552)] True True = Some (Ok c) \<and>
    cache_open c (map (\<lambda>_. 1) (bytes_of guestRanges))"
proof -
  have split: "splitOversizedRanges guestRanges (2147479552 div 4096 * 4096) = Some guestRanges"
    by (simp add: guestRanges_def)
  have "memory_ranges 4096 2147479552 guestRanges"
    by (simp add: memory_ranges_def guestRanges_def range_ok_def)
  moreover have "script_ok (2147479552 div 4096 * 4096) (length qs)
      [(False, VmRetry), (False, VmUpTo 2147479552), (False, VmUpTo 2147479552)]"
    if "splitOversizedRanges guestRanges (2147479552 div 4096 * 4096) = Some qs" for qs
  proof -
    have "qs = guestRanges" using that split by (simp only: option.inject)
    then show ?thesis by (simp add: script_ok_def guestRanges_def)
  qed
  ultimately show ?thesis
    using process_memory_copied [of fileEnv "[]" 4096 2147479552 1024 guestRanges
        "[(False, VmRetry), (False, VmUpTo 2147479552), (False, VmUpTo 2147479552)]" "\<lambda>_. 1" "''/mem''" True True]
    by (auto simp: fileEnv_def)
qed

text \<open>
  \<^verbatim>\<open>BitsetRanges\<close> ends, and the ranges it yields are block aligned, not empty, in increasing order and
  cover exactly the blocks of the bit set.
\<close>

theorem bitset_ranges_exact:
  assumes "bitset_laws ops" "0 < bs" "bs_Len ops b * bs < 9223372036854775808"
  shows "\<exists>rs. BitsetRanges ops b bs = Some rs \<and> blocks_of bs rs = sorted_list_of_set (members ops b) \<and>
    list_all (block_range bs) rs"
  using BitsetRanges_blocks [OF assms] by (metis list_all_iff)

theorem bitset_ranges_exact_witness:
  "\<exists>rs. BitsetRanges list_bitset [False, True, True, False, True] 4096 = Some rs \<and>
    blocks_of 4096 rs = sorted_list_of_set (members list_bitset [False, True, True, False, True])"
  using bitset_ranges_exact [OF list_bitset_laws, of 4096 "[False, True, True, False, True]"] by auto

text \<open>
  A diff in use is not deleted.  In every reachable state of the store, after \<^verbatim>\<open>Get\<close> of a diff,
  firing any delayed deletion that was scheduled before leaves the diff in the store.
\<close>

theorem get_cancels_deletion:
  assumes "store_reachable st ops s" and "s' = timerFires (snd (store_Get st ops sizeErr s d)) ch"
  shows "dsCache s' (CacheKey d) = dsCache (snd (store_Get st ops sizeErr s d)) (CacheKey d) \<and>
    dsCache s' (CacheKey d) \<noteq> None"
  using store_Get_inv [OF store_reachable_inv [OF assms(1)], of st ops sizeErr d]
    timerFires_inv(2) [of _ "CacheKey d" ch] assms(2) by auto

definition localA :: "(unit chunk_error, string \<times> FullFetchChunker) Diff" where
  "localA = LocalDiff \<lparr>ldCacheKey = ''a/rootfs.ext4'', ldCache = cacheA\<rparr>"

theorem get_cancels_deletion_witness:
  "\<exists>s. dsTimers s = [(0, ''a/rootfs.ext4'', False)] \<and>
     dsCache (timerFires (snd (store_Get storageA (be_chunker envA) CtxDone s localA)) 0) ''a/rootfs.ext4'' \<noteq> None"
proof -
  let ?s = "store_Add NewDiffStore localA"
  let ?t = "snd (deleteOldestFromCache ?s [''a/rootfs.ext4''] (\<lambda>_. None))"
  have "store_reachable storageA (be_chunker envA) ?t"
    by (blast intro: reach_new reach_step step_add step_pressure)
  moreover have "dsTimers ?t = [(0, ''a/rootfs.ext4'', False)]"
    by (simp add: deleteOldestFromCache_def scheduleDelete_def isBeingDeleted_def store_Add_def resetDelete_def
        NewDiffStore_def Let_def)
  ultimately show ?thesis
    using get_cancels_deletion [of storageA "be_chunker envA" ?t _ CtxDone localA 0]
    by (auto simp: localA_def CacheKey_def)
qed

text \<open>
  C11.  When the object of a build cannot be opened, \<^verbatim>\<open>Get\<close> returns the error, but the diff stays in the
  store with a chunker that is never set: the next \<^verbatim>\<open>Get\<close> of the build succeeds and a read through it
  blocks for ever.  When the item expires or is deleted the cache drops it at once, but the goroutine of
  the eviction blocks in \<^verbatim>\<open>Close\<close>: whatever the store does afterwards, it never ends and never resets
  the pending deletion.
\<close>

theorem failed_open_blocks_readers:
  assumes new: "newStorageDiff suffix basePath buildId diffType blockSize = Ok d" and "\<not> stOpen st (sdStoragePath d)"
    and "dsCache s (sdCacheKey d) = None" and same: "sdCacheKey d' = sdCacheKey d"
  shows "\<exists>s'. store_Get st ops sizeErr s (StoredDiff d) = (Fail OpenSeekableFailed, s') \<and>
    fst (store_Get st ops sizeErr s' (StoredDiff d')) = Ok (sdCacheKey d) \<and>
    store_ReadAt ops s' (sdCacheKey d) p off = None \<and>
    dsCache (evict s' (sdCacheKey d)) (sdCacheKey d) = None \<and>
    (\<forall>s''. (store_step st ops)\<^sup>*\<^sup>* (evict s' (sdCacheKey d)) s'' \<longrightarrow>
      (\<exists>n < length (dsClosing s''). dsClosing s'' ! n = (sdCacheKey d, StoredDiff d) \<and>
        evictionCallback ops unmapOk removeOk s'' n = None))"
proof -
  let ?k = "sdCacheKey d" and ?d = "StoredDiff d"
  let ?s' = "(resetDelete s ?k)\<lparr>dsCache := (dsCache s)(?k \<mapsto> ?d)\<rparr>"
  have unset: "Wait (sdChunker d) = None"
    using new by (auto simp: newStorageDiff_def Wait_blocks split: prod.splits if_splits)
  have get: "store_Get st ops sizeErr s ?d = (Fail OpenSeekableFailed, ?s')"
    using assms(2,3) by (simp add: store_Get_def Let_def CacheKey_def diff_Init_def storage_Init_def)
  have again: "fst (store_Get st ops sizeErr ?s' (StoredDiff d')) = Ok ?k"
    using same by (simp add: store_Get_def Let_def CacheKey_def)
  have blocked: "store_ReadAt ops ?s' ?k p off = None" "diff_Close ops u r ?d = None" for u r
    using unset by (simp_all add: store_ReadAt_def diff_ReadAt_def storage_ReadAt_def with_chunker_def
        diff_Close_def storage_Close_def)
  have gone: "dsCache (evict ?s' ?k) ?k = None" and "(?k, ?d) \<in> set (dsClosing (evict ?s' ?k))"
    by (simp_all add: evict_def)
  then have "\<exists>n < length (dsClosing s''). dsClosing s'' ! n = (?k, ?d) \<and> evictionCallback ops unmapOk removeOk s'' n = None"
    if "(store_step st ops)\<^sup>*\<^sup>* (evict ?s' ?k) s''" for s''
    using store_steps_keep_closing [OF that _ blocked(2)] blocked(2)
    by (fastforce simp: in_set_conv_nth evictionCallback_def)
  with get again blocked(1) gone show ?thesis by auto
qed

theorem failed_open_blocks_readers_witness:
  "\<exists>d s'. newStorageDiff ''x'' ''/cache'' ''a'' Rootfs 4096 = Ok d \<and>
    store_Get (storageA\<lparr>stOpen := \<lambda>_. False\<rparr>) (be_chunker envA) CtxDone NewDiffStore (StoredDiff d) =
      (Fail OpenSeekableFailed, s') \<and> store_ReadAt (be_chunker envA) s' ''a/rootfs.ext4'' [0] 0 = None \<and>
    (\<exists>n. evictionCallback (be_chunker envA) True True (evict s' ''a/rootfs.ext4'') n = None)"
proof -
  obtain d where d: "newStorageDiff ''x'' ''/cache'' ''a'' Rootfs 4096 =
      (Ok d :: (unit chunk_error diff_error, (unit chunk_error, string \<times> FullFetchChunker) StorageDiff) go)"
    "sdCacheKey d = ''a/rootfs.ext4''"
    by (auto simp: newStorageDiff_def storageObjectType_def Rootfs_def Memfile_def GetDiffStoreKey_def)
  have "\<not> stOpen (storageA\<lparr>stOpen := \<lambda>_. False\<rparr>) (sdStoragePath d)"
    "dsCache (NewDiffStore :: (unit chunk_error, string \<times> FullFetchChunker) DiffStore) (sdCacheKey d) = None"
    by (simp_all add: NewDiffStore_def)
  from failed_open_blocks_readers [OF d(1) this refl, of "be_chunker envA" CtxDone "[0]" 0 True True]
  show ?thesis unfolding d(2) using d(1) by (metis rtranclp.rtrancl_refl)
qed

text \<open>
  A closed cache gives out no bytes: after \<^verbatim>\<open>Close\<close> of a cache that is not empty, reads, writes, slices, the
  size, the addresses for fetches, the export and a second \<^verbatim>\<open>Close\<close> all return the closed error.
\<close>

theorem closed_cache_rejects:
  assumes "cMmap c \<noteq> None" "\<not> cClosed c"
  shows "let c' = fst (cache_Close unmapOk removeOk c); e = CacheClosed (cFilePath c) in
    cache_ReadAt c' b off = Fail e \<and> cache_WriteAt c' b off = Fail e \<and> WriteAtWithoutLock c' b off = Fail e \<and>
    cache_Slice c' off len = Fail e \<and> cache_Size c' = Fail e \<and> addressBytes c' off len = Fail e \<and>
    ExportToDiff ops env keys c' out = Some (Fail e) \<and> snd (cache_Close unmapOk removeOk c') = Fail e"
  using assms
  by (auto simp: cache_Close_def cache_ReadAt_def cache_WriteAt_def WriteAtWithoutLock_def cache_Slice_def cache_Size_def
      addressBytes_def ExportToDiff_def isClosed_def Let_def)

theorem closed_cache_rejects_witness:
  "cache_ReadAt (fst (cache_Close True True cacheA)) [0] 4096 = Fail (CacheClosed ''/overlay'')"
  using closed_cache_rejects [of cacheA True True "[0]" 4096 1 list_bitset copyEnv "[]" "[]"]
  by (simp add: Let_def cacheA_def)

text \<open>
  The cache of a paused sandbox has one owner: the first \<^verbatim>\<open>EjectCache\<close> returns the cache, every later
  one fails, and closing the overlay afterwards leaves the ejected cache open.
\<close>

theorem ejected_cache_has_one_owner:
  assumes "\<not> oCacheEjected ov"
  shows "\<exists>ov'. EjectCache ov = (Ok (oCache ov), ov') \<and> EjectCache ov' = (Fail AlreadyEjected, ov') \<and>
    overlay_Close unmapOk removeOk ov' = (Ok (), ov') \<and> oCache ov' = oCache ov"
  using assms by (simp add: EjectCache_def overlay_Close_def)

theorem ejected_cache_has_one_owner_witness:
  "\<exists>ov'. EjectCache overlayA = (Ok cacheA :: (unit overlay_error, Cache) go, ov') \<and> oCache ov' = cacheA"
  using ejected_cache_has_one_owner [of overlayA True True] by (auto simp: overlayA_def NewOverlay_def)

end
