(* ===== verification/Block_Streaming.thy ===== *)
theory Block_Streaming
  imports Block_Chunker "HOL-Library.Multiset"
begin

text \<open>
  \<^verbatim>\<open>StreamingChunker\<close> of \<^verbatim>\<open>packages/orchestrator/pkg/sandbox/block/streaming_chunk.go\<close>: a chunk is read
  from storage by one goroutine, and the readers that need a part of it are woken as soon as that part
  has arrived.

  A session is the record \<open>fetchSession\<close>.  A waiter is its end byte and the identity of its channel;
  closing a channel, with or without an error in it, is an entry of the log \<open>fsSent\<close>.  The goroutine
  of \<^verbatim>\<open>runFetch\<close> and the readers that register interleave: \<open>progressStep\<close> is one iteration of the loop
  of \<^verbatim>\<open>progressiveRead\<close>, given what \<^verbatim>\<open>reader.Read\<close> returned, and \<open>fetch_step\<close> are the steps.  The cache
  is shared by all sessions of a chunker; what the others do to it is a step of its own.
\<close>

record 'e fetchSession =
  fsChunkOff :: int
  fsChunkLen :: int
  fsWaiters :: "(int \<times> nat) list"
  fsFetchErr :: "'e option"
  fsBytesReady :: int
  fsSent :: "(int \<times> nat \<times> 'e option) list"
  fsNextCh :: nat

definition newFetchSession :: "int \<Rightarrow> int \<Rightarrow> 'e fetchSession" where
  "newFetchSession fetchOff chunkLen =
     \<lparr>fsChunkOff = fetchOff, fsChunkLen = chunkLen, fsWaiters = [], fsFetchErr = None, fsBytesReady = 0,
      fsSent = [], fsNextCh = 0\<rparr>"

definition terminated :: "'e fetchSession \<Rightarrow> bool" where
  "terminated s \<longleftrightarrow> fsFetchErr s \<noteq> None \<or> fsBytesReady s = fsChunkLen s"

definition waiterEnd :: "int \<Rightarrow> 'e fetchSession \<Rightarrow> int \<Rightarrow> int \<Rightarrow> int" where
  "waiterEnd blockSize s off len =
     (let lastBlockIdx = i64 (i64 (i64 (i64 (off + len) - 1) - fsChunkOff s) sdiv blockSize)
      in i64 (i64 (lastBlockIdx + 1) * blockSize))"

datatype register = RegReady | RegWaits nat

datatype 'e register_error = FetchFailed 'e | RangeNotCached int int

text \<open>
  \<^verbatim>\<open>slices.BinarySearchFunc\<close> on a slice sorted by end byte is the first position whose end byte is not
  smaller.
\<close>

definition insertWaiter :: "(int \<times> nat) list \<Rightarrow> int \<Rightarrow> nat \<Rightarrow> (int \<times> nat) list" where
  "insertWaiter ws endByte ch =
     (let idx = length (takeWhile (\<lambda>(e, _). e < endByte) ws) in take idx ws @ (endByte, ch) # drop idx ws)"

text \<open>\<^verbatim>\<open>registerAndWait\<close> up to its return or its wait on the channel.\<close>

definition registerAndWait ::
  "Cache \<Rightarrow> 'e fetchSession \<Rightarrow> int \<Rightarrow> int \<Rightarrow> ('e register_error, register) go \<times> 'e fetchSession" where
  "registerAndWait c s off len =
     (if cBlockSize c = 0 then (Panic, s)
      else
        (let endByte = waiterEnd (cBlockSize c) s off len
         in if endByte \<le> fsBytesReady s then (Ok RegReady, s)
            else if terminated s then
              (case isCached c off len of
                 Panic \<Rightarrow> (Panic, s)
               | Ok True \<Rightarrow> (Ok RegReady, s)
               | _ \<Rightarrow> (case fsFetchErr s of
                        Some e \<Rightarrow> (Fail (FetchFailed e), s)
                      | None \<Rightarrow> (Fail (RangeNotCached off (i64 (off + len))), s)))
            else
              (Ok (RegWaits (fsNextCh s)),
               s\<lparr>fsWaiters := insertWaiter (fsWaiters s) endByte (fsNextCh s), fsNextCh := Suc (fsNextCh s)\<rparr>)))"

definition notifyWaiters :: "'e fetchSession \<Rightarrow> 'e option \<Rightarrow> 'e fetchSession" where
  "notifyWaiters s sendErr =
     (let ready = fsBytesReady s
      in if terminated s then
           s\<lparr>fsSent := fsSent s @ map (\<lambda>(e, ch). (e, ch, if sendErr \<noteq> None \<and> e > ready then sendErr else None)) (fsWaiters s),
             fsWaiters := []\<rparr>
         else
           (let front = takeWhile (\<lambda>(e, _). e \<le> ready) (fsWaiters s)
            in s\<lparr>fsSent := fsSent s @ map (\<lambda>(e, ch). (e, ch, None)) front,
                 fsWaiters := drop (length front) (fsWaiters s)\<rparr>))"

definition setDone :: "'e fetchSession \<Rightarrow> 'e fetchSession" where
  "setDone s = notifyWaiters (s\<lparr>fsBytesReady := fsChunkLen s\<rparr>) None"

definition fs_setError :: "'e fetchSession \<Rightarrow> 'e \<Rightarrow> bool \<Rightarrow> 'e fetchSession" where
  "fs_setError s err onlyIfRunning =
     (if onlyIfRunning \<and> terminated s then s else notifyWaiters (s\<lparr>fsFetchErr := Some err\<rparr>) (Some err))"

subsection \<open>The fetch\<close>

datatype 'e read_error = ReadNil | ReadEOF | ReadErr 'e

datatype 'e fetch_phase = Reading int int | Exited "'e option" | FetchPanic | Over

record 'e fetch =
  ftSession :: "'e fetchSession"
  ftCache :: Cache
  ftPhase :: "'e fetch_phase"

text \<open>
  One iteration: \<open>data\<close> are the bytes that \<^verbatim>\<open>reader.Read\<close> stored in the mapped slice.  \<open>Exited\<close> is the
  result that \<^verbatim>\<open>progressiveRead\<close> returns.
\<close>

definition markProgress ::
  "Cache \<Rightarrow> 'e fetchSession \<Rightarrow> int \<Rightarrow> int \<Rightarrow> (cache_error, Cache) go \<times> 'e fetchSession \<times> int" where
  "markProgress c s totalRead prev =
     (let blockSize = cBlockSize c; completedBlocks = totalRead sdiv blockSize
      in if completedBlocks > prev then
           (setIsCached c (fsChunkOff s + prev * blockSize) ((completedBlocks - prev) * blockSize),
            notifyWaiters (s\<lparr>fsBytesReady := completedBlocks * blockSize\<rparr>) None, completedBlocks)
         else (Ok c, s, prev))"

definition progressStep ::
  "'e fetch \<Rightarrow> int \<Rightarrow> int \<Rightarrow> byte list \<Rightarrow> 'e read_error \<Rightarrow> 'e fetch" where
  "progressStep f totalRead prevCompleted data readErr =
     (let s = ftSession f;
          c = store_bytes (ftCache f) (fsChunkOff s + totalRead) data;
          totalRead' = totalRead + int (length data)
      in (case markProgress c s totalRead' prevCompleted of
            (Ok c1, s1, prev) \<Rightarrow>
              (case readErr of
                 ReadEOF \<Rightarrow>
                   if totalRead' > prev * cBlockSize c then
                     (case setIsCached c1 (fsChunkOff s + prev * cBlockSize c) (totalRead' - prev * cBlockSize c) of
                        Ok c2 \<Rightarrow> \<lparr>ftSession = s1, ftCache = c2, ftPhase = Exited None\<rparr>
                      | _ \<Rightarrow> \<lparr>ftSession = s1, ftCache = c1, ftPhase = FetchPanic\<rparr>)
                   else \<lparr>ftSession = s1, ftCache = c1, ftPhase = Exited None\<rparr>
               | ReadErr e \<Rightarrow> \<lparr>ftSession = s1, ftCache = c1, ftPhase = Exited (Some e)\<rparr>
               | ReadNil \<Rightarrow>
                   \<lparr>ftSession = s1, ftCache = c1,
                    ftPhase = (if totalRead' < fsChunkLen s then Reading totalRead' prev else Exited None)\<rparr>)
          | (_, s1, prev) \<Rightarrow> \<lparr>ftSession = s, ftCache = c, ftPhase = FetchPanic\<rparr>))"

text \<open>What \<^verbatim>\<open>runFetch\<close> does with the result, and with a panic that it recovers.\<close>

definition endFetch :: "'e fetch \<Rightarrow> 'e option \<Rightarrow> 'e fetch" where
  "endFetch f res =
     f\<lparr>ftSession := (case res of None \<Rightarrow> setDone (ftSession f) | Some e \<Rightarrow> fs_setError (ftSession f) e False),
       ftPhase := Over\<rparr>"

definition recoverFetch :: "'e fetch \<Rightarrow> 'e \<Rightarrow> 'e fetch" where
  "recoverFetch f err = f\<lparr>ftSession := fs_setError (ftSession f) err True, ftPhase := Over\<rparr>"

text \<open>\<open>opened\<close> is the error of \<^verbatim>\<open>addressBytes\<close> or of \<^verbatim>\<open>OpenRangeReader\<close>, if any.\<close>

definition startFetch :: "Cache \<Rightarrow> int \<Rightarrow> int \<Rightarrow> 'e option \<Rightarrow> 'e fetch" where
  "startFetch c fetchOff chunkLen opened =
     \<lparr>ftSession = newFetchSession fetchOff chunkLen, ftCache = c,
      ftPhase = (case opened of Some e \<Rightarrow> Exited (Some e) | None \<Rightarrow> if 0 < chunkLen then Reading 0 0 else Exited None)\<rparr>"

subsection \<open>Sessions of a chunker\<close>

record 'e StreamingChunker =
  scCache :: Cache
  scSize :: int
  scMinReadBatchSize :: int
  scFetchMap :: "(int \<times> 'e fetchSession) list"

definition defaultMinReadBatchSize :: int where "defaultMinReadBatchSize = 16 * 1024"

definition NewStreamingChunker ::
  "file_env \<Rightarrow> int \<Rightarrow> int \<Rightarrow> string \<Rightarrow> int \<Rightarrow> (cache_error, 'e StreamingChunker) go" where
  "NewStreamingChunker env sz blockSize cachePath minReadBatchSize =
     go_bind (NewCache env sz blockSize cachePath False) (\<lambda>cache.
       Ok \<lparr>scCache = cache, scSize = sz,
           scMinReadBatchSize = (if minReadBatchSize \<le> 0 then defaultMinReadBatchSize else minReadBatchSize),
           scFetchMap = []\<rparr>)"

text \<open>\<open>flag\<close> is the value of the feature flag in kilobytes, when there is a client.\<close>

definition getMinReadBatchSize :: "'e StreamingChunker \<Rightarrow> int option \<Rightarrow> int" where
  "getMinReadBatchSize sc flag =
     (case flag of Some minKB \<Rightarrow> if minKB > 0 then i64 (minKB * 1024) else scMinReadBatchSize sc
      | None \<Rightarrow> scMinReadBatchSize sc)"

datatype got_session = ExistingSession int | AlreadyCached | StartedSession int

definition getOrCreateSession ::
  "'e StreamingChunker \<Rightarrow> int \<Rightarrow> (cache_error, got_session) go \<times> 'e StreamingChunker" where
  "getOrCreateSession sc fetchOff =
     (let chunkLen = min MemoryChunkSize (i64 (scSize sc - fetchOff))
      in (case map_of (scFetchMap sc) fetchOff of
            Some _ \<Rightarrow> (Ok (ExistingSession fetchOff), sc)
          | None \<Rightarrow>
              (case isCached (scCache sc) fetchOff chunkLen of
                 Ok True \<Rightarrow> (Ok AlreadyCached, sc)
               | Ok False \<Rightarrow>
                   (Ok (StartedSession fetchOff),
                    sc\<lparr>scFetchMap := (fetchOff, newFetchSession fetchOff chunkLen) # scFetchMap sc\<rparr>)
               | Fail e \<Rightarrow> (Fail e, sc)
               | Panic \<Rightarrow> (Panic, sc))))"

text \<open>The chunks that \<^verbatim>\<open>Slice\<close> waits for, each with the part of the request that lies in it.\<close>

definition clipRequest :: "int \<Rightarrow> int \<Rightarrow> int \<Rightarrow> int \<Rightarrow> int \<times> int" where
  "clipRequest sz off len fetchOff =
     (let chunkEnd = i64 (fetchOff + MemoryChunkSize);
          clippedOff = max off fetchOff;
          clippedEnd = min (min (i64 (off + len)) chunkEnd) sz
      in (clippedOff, i64 (clippedEnd - clippedOff)))"

function requestLoop :: "int \<Rightarrow> int \<Rightarrow> int \<Rightarrow> int \<Rightarrow> int \<Rightarrow> (int \<times> int \<times> int) list" where
  "requestLoop sz off len fetchOff lastChunkOff =
     (if fetchOff \<le> lastChunkOff then
        (let (clippedOff, clippedLen) = clipRequest sz off len fetchOff
         in (if clippedLen \<le> 0 then [] else [(fetchOff, clippedOff, clippedLen)]) @
            requestLoop sz off len (fetchOff + MemoryChunkSize) lastChunkOff)
      else [])"
  by pat_completeness auto

termination
  by (relation "measure (\<lambda>(_, _, _, f, l). nat (l + 1 - f))") (auto simp: MemoryChunkSize_def)

declare requestLoop.simps [simp del]

definition sliceRequests :: "int \<Rightarrow> int \<Rightarrow> int \<Rightarrow> (cache_error, (int \<times> int \<times> int) list) go" where
  "sliceRequests sz off len =
     go_bind (BlockIdx off MemoryChunkSize) (\<lambda>firstIdx.
       go_bind (BlockIdx (i64 (i64 (off + len) - 1)) MemoryChunkSize) (\<lambda>lastIdx.
         Ok (requestLoop sz off len (BlockOffset firstIdx MemoryChunkSize) (BlockOffset lastIdx MemoryChunkSize))))"

lemma requestLoop_mem:
  "(f, o', n) \<in> set (requestLoop sz off len F L) \<longleftrightarrow>
     (\<exists>k. f = F + int k * MemoryChunkSize \<and> f \<le> L \<and> (o', n) = clipRequest sz off len f \<and> 0 < n)"
proof (induction sz off len F L rule: requestLoop.induct)
  case (1 sz off len F L)
  show ?case
  proof (cases "F \<le> L")
    case True
    have step: "requestLoop sz off len F L =
        (if snd (clipRequest sz off len F) \<le> 0 then [] else [(F, clipRequest sz off len F)]) @
        requestLoop sz off len (F + MemoryChunkSize) L"
      using True by (subst requestLoop.simps) (simp add: split_def)
    have IH: "(f, o', n) \<in> set (requestLoop sz off len (F + MemoryChunkSize) L) \<longleftrightarrow>
        (\<exists>k. f = F + int (Suc k) * MemoryChunkSize \<and> f \<le> L \<and> (o', n) = clipRequest sz off len f \<and> 0 < n)"
      using 1 [OF True] by (auto simp: distrib_right add.assoc prod_eq_iff)
    have "(\<exists>k. P k) \<longleftrightarrow> P 0 \<or> (\<exists>k. P (Suc k))" for P :: "nat \<Rightarrow> bool" by (metis not0_implies_Suc)
    from this [of "\<lambda>k. f = F + int k * MemoryChunkSize \<and> f \<le> L \<and> (o', n) = clipRequest sz off len f \<and> 0 < n"] IH True
    show ?thesis unfolding step by (auto simp: prod_eq_iff split: if_splits)
  next
    case False
    have "F \<le> F + int k * MemoryChunkSize" for k by simp
    with False have "\<not> F + int k * MemoryChunkSize \<le> L" for k by (meson order_trans)
    then show ?thesis using False by (subst requestLoop.simps) auto
  qed
qed

lemma sliceRequests_Ok:
  assumes "0 \<le> off" "0 < len" "off + len + MemoryChunkSize < 9223372036854775808"
  shows "sliceRequests sz off len =
    Ok (requestLoop sz off len (chunk_start off) (chunk_start (off + len - 1)))"
proof -
  have i: "i64 (off + len) = off + len" "i64 (off + len - 1) = off + len - 1"
    by (rule i64_id; use assms MemoryChunkSize_pos in linarith)+
  have b: "BlockOffset (x div MemoryChunkSize) MemoryChunkSize = chunk_start x"
      "BlockIdx x MemoryChunkSize = (Ok (x div MemoryChunkSize) :: (cache_error, int) go)"
    if "0 \<le> x" "x < off + len" for x
  proof -
    have "x < 9223372036854775808" using that assms MemoryChunkSize_pos by linarith
    moreover have "chunk_start x \<le> x" using mult_div_le_int [of MemoryChunkSize x] by (simp add: mult.commute)
    ultimately show "BlockOffset (x div MemoryChunkSize) MemoryChunkSize = chunk_start x"
      "BlockIdx x MemoryChunkSize = (Ok (x div MemoryChunkSize) :: (cache_error, int) go)"
      using that by (auto simp: pos_imp_zdiv_nonneg_iff intro!: BlockOffset_id)
  qed
  show ?thesis using assms b [of off] b [of "off + len - 1"] by (simp add: sliceRequests_def i)
qed

lemma clipRequest_eq:
  assumes "0 \<le> off" "0 < len" "off + len + MemoryChunkSize < 9223372036854775808" "0 \<le> f" "f \<le> off + len" "0 \<le> sz"
  shows "clipRequest sz off len f = (max off f, min (min (off + len) (f + MemoryChunkSize)) sz - max off f)"
proof -
  have "i64 (f + MemoryChunkSize) = f + MemoryChunkSize" "i64 (off + len) = off + len"
    by (rule i64_id; use assms MemoryChunkSize_pos in linarith)+
  moreover have "i64 (min (min (off + len) (f + MemoryChunkSize)) sz - max off f) =
      min (min (off + len) (f + MemoryChunkSize)) sz - max off f"
  proof (rule i64_id)
    have "min (min (off + len) (f + MemoryChunkSize)) sz \<ge> 0" using assms MemoryChunkSize_pos by simp
    moreover have "max off f \<le> off + len" using assms by simp
    ultimately show "- 9223372036854775808 \<le> min (min (off + len) (f + MemoryChunkSize)) sz - max off f"
      using assms MemoryChunkSize_pos by linarith
    show "min (min (off + len) (f + MemoryChunkSize)) sz - max off f < 9223372036854775808"
      using assms MemoryChunkSize_pos by linarith
  qed
  ultimately show ?thesis by (simp add: clipRequest_def Let_def)
qed

lemma requests_mem:
  assumes "0 \<le> off" "0 < len" "off + len + MemoryChunkSize < 9223372036854775808" "0 \<le> sz"
  shows "(f, o', n) \<in> set (requestLoop sz off len (chunk_start off) (chunk_start (off + len - 1))) \<longleftrightarrow>
    (\<exists>k. f = chunk_start off + int k * MemoryChunkSize) \<and> f \<le> chunk_start (off + len - 1) \<and> o' = max off f \<and>
    n = min (min (off + len) (f + MemoryChunkSize)) sz - max off f \<and> 0 < n"
proof -
  have L: "chunk_start (off + len - 1) \<le> off + len - 1"
    using mult_div_le_int [of MemoryChunkSize "off + len - 1"] by (simp add: mult.commute)
  have F: "0 \<le> chunk_start off" using assms by (simp add: pos_imp_zdiv_nonneg_iff)
  have "clipRequest sz off len f = (max off f, min (min (off + len) (f + MemoryChunkSize)) sz - max off f)"
    if "f = chunk_start off + int k * MemoryChunkSize" "f \<le> chunk_start (off + len - 1)" for k
  proof -
    have "0 \<le> f" using F that(1) by simp
    moreover have "f \<le> off + len" using that(2) L by linarith
    ultimately show ?thesis by (intro clipRequest_eq assms)
  qed
  then show ?thesis unfolding requestLoop_mem by (auto simp: prod_eq_iff)
qed

lemma requests_inside:
  assumes "0 \<le> off" "0 < len" "off + len + MemoryChunkSize < 9223372036854775808" "0 \<le> sz"
    and "(f, o', n) \<in> set (requestLoop sz off len (chunk_start off) (chunk_start (off + len - 1)))"
  shows "0 < n \<and> f \<le> o' \<and> o' + n \<le> f + MemoryChunkSize \<and> off \<le> o' \<and> o' + n \<le> off + len \<and> o' + n \<le> sz \<and>
    MemoryChunkSize dvd f"
proof -
  from assms(5) obtain k where "f = chunk_start off + int k * MemoryChunkSize" and f: "o' = max off f" "0 < n"
    "n = min (min (off + len) (f + MemoryChunkSize)) sz - max off f"
    unfolding requests_mem [OF assms(1-4)] by blast
  then have "MemoryChunkSize dvd f" by simp
  with f show ?thesis by auto
qed

lemma requests_cover:
  assumes "0 \<le> off" "0 < len" "off + len + MemoryChunkSize < 9223372036854775808" "0 \<le> sz"
    and x: "off \<le> x" "x < min (off + len) sz"
  shows "\<exists>(f, o', n) \<in> set (requestLoop sz off len (chunk_start off) (chunk_start (off + len - 1))). o' \<le> x \<and> x < o' + n"
proof -
  let ?C = MemoryChunkSize and ?f = "chunk_start x"
  have f: "?f \<le> x" "x < ?f + ?C" using block_floor [of ?C x] by auto
  have "off div ?C \<le> x div ?C" "x div ?C \<le> (off + len - 1) div ?C" using x by (auto intro: zdiv_mono1)
  then have "?f = chunk_start off + int (nat (x div ?C - off div ?C)) * ?C" "?f \<le> chunk_start (off + len - 1)"
    by (simp_all add: left_diff_distrib mult_right_mono)
  moreover have "0 < min (min (off + len) (?f + ?C)) sz - max off ?f" using f x by auto
  ultimately have "(?f, max off ?f, min (min (off + len) (?f + ?C)) sz - max off ?f) \<in>
      set (requestLoop sz off len (chunk_start off) (chunk_start (off + len - 1)))"
    unfolding requests_mem [OF assms(1-4)] by blast
  then show ?thesis using f x by (intro bexI) auto
qed

subsection \<open>Waiters\<close>

text \<open>
  The waiters are sorted; while the fetch runs all of them are ahead of the bytes that are ready, and a
  session that has ended has none.  Every channel ever handed out waits or has been closed, once.
\<close>

definition channels :: "'e fetchSession \<Rightarrow> nat multiset" where
  "channels s = image_mset snd (mset (fsWaiters s)) + image_mset (fst \<circ> snd) (mset (fsSent s))"

definition session_ok :: "'e fetchSession \<Rightarrow> bool" where
  "session_ok s \<longleftrightarrow>
     sorted (map fst (fsWaiters s)) \<and>
     (if terminated s then fsWaiters s = [] else (\<forall>(e, ch) \<in> set (fsWaiters s). fsBytesReady s < e)) \<and>
     channels s = mset [0..<fsNextCh s]"

lemma session_ok_new: "session_ok (newFetchSession fetchOff chunkLen)"
  by (simp add: session_ok_def newFetchSession_def channels_def)

lemma sorted_insertWaiter:
  assumes "sorted (map fst ws)"
  shows "sorted (map fst (insertWaiter ws e ch))"
proof -
  define p where "p = (\<lambda>w :: int \<times> nat. fst w < e)"
  have p: "(\<lambda>(e', _). e' < e) = p" by (auto simp: p_def)
  have eq: "insertWaiter ws e ch = takeWhile p ws @ (e, ch) # dropWhile p ws"
    unfolding insertWaiter_def p Let_def by (simp add: takeWhile_eq_take [symmetric] dropWhile_eq_drop [symmetric])
  have "\<forall>w \<in> set (takeWhile p ws). fst w < e" by (auto simp: p_def dest: set_takeWhileD)
  moreover have "\<forall>w \<in> set (dropWhile p ws). e \<le> fst w"
  proof
    fix w assume w: "w \<in> set (dropWhile p ws)"
    then obtain v vs where v: "dropWhile p ws = v # vs" by (cases "dropWhile p ws") auto
    have "\<not> p v" using hd_dropWhile [of p ws] v by simp
    have "sorted (map fst (dropWhile p ws))"
      using assms by (metis sorted_wrt_append map_append takeWhile_dropWhile_id)
    with v w have "fst v \<le> fst w" by auto
    with \<open>\<not> p v\<close> show "e \<le> fst w" by (simp add: p_def)
  qed
  moreover have "sorted (map fst (takeWhile p ws @ dropWhile p ws))" using assms by simp
  ultimately show ?thesis
    unfolding eq by (auto simp: sorted_append simp del: takeWhile_dropWhile_id)
qed

lemma mset_insertWaiter: "mset (insertWaiter ws e ch) = add_mset (e, ch) (mset ws)"
  unfolding insertWaiter_def Let_def
  by (metis append_take_drop_id mset.simps(2) mset_append union_mset_add_mset_right)

lemma session_ok_register:
  assumes "session_ok s"
  shows "session_ok (snd (registerAndWait c s off len))"
proof (cases "snd (registerAndWait c s off len) = s")
  case False
  define e where "e = waiterEnd (cBlockSize c) s off len"
  from False have t: "\<not> terminated s" "fsBytesReady s < e"
    and s': "snd (registerAndWait c s off len) =
      s\<lparr>fsWaiters := insertWaiter (fsWaiters s) e (fsNextCh s), fsNextCh := Suc (fsNextCh s)\<rparr>"
    by (auto simp: registerAndWait_def e_def Let_def split: if_splits go.splits option.splits bool.splits)
  have set: "set (insertWaiter (fsWaiters s) e (fsNextCh s)) = insert (e, fsNextCh s) (set (fsWaiters s))"
    using mset_insertWaiter [of "fsWaiters s" e "fsNextCh s"] by (metis set_mset_add_mset_insert set_mset_mset)
  have "channels (s\<lparr>fsWaiters := insertWaiter (fsWaiters s) e (fsNextCh s), fsNextCh := Suc (fsNextCh s)\<rparr>) =
      add_mset (fsNextCh s) (channels s)"
    by (simp add: channels_def mset_insertWaiter)
  with assms t set show ?thesis
    unfolding s' by (auto simp: session_ok_def terminated_def sorted_insertWaiter atLeastLessThanSuc)
qed (use assms in simp)

text \<open>Waking: the session's progress is monotone, an ended session has nobody left.\<close>

lemma channels_notify:
  fixes s :: "'e fetchSession"
  shows "channels (notifyWaiters s err) = channels s"
proof -
  have sent: "image_mset (fst \<circ> snd) (image_mset (\<lambda>(e, ch). (e, ch, g e)) M) = image_mset snd M" for M :: "(int \<times> nat) multiset" and g
    by (simp add: multiset.map_comp comp_def split_def)
  have ws: "mset (takeWhile p ws) + mset (drop (length (takeWhile p ws)) ws) = mset ws" for p and ws :: "(int \<times> nat) list"
    by (metis dropWhile_eq_drop mset_append takeWhile_dropWhile_id)
  show ?thesis
  proof (cases "terminated s")
    case True
    then show ?thesis
      using sent [of "\<lambda>e. if err \<noteq> None \<and> e > fsBytesReady s then err else None" "mset (fsWaiters s)"]
      by (simp add: notifyWaiters_def channels_def ac_simps)
  next
    case False
    then show ?thesis
      using sent [of "\<lambda>_. None :: 'e option" "mset (takeWhile (\<lambda>(e, _). e \<le> fsBytesReady s) (fsWaiters s))"]
        ws [of "\<lambda>(e, _). e \<le> fsBytesReady s" "fsWaiters s", THEN arg_cong [where f = "image_mset snd"]]
      by (simp add: notifyWaiters_def channels_def Let_def) (metis union_assoc union_commute)
  qed
qed

lemma session_ok_notify:
  assumes "sorted (map fst (fsWaiters s))" "channels s = mset [0..<fsNextCh s]"
  shows "session_ok (notifyWaiters s err)"
proof (cases "terminated s")
  case True
  with assms(2) channels_notify [of s err] show ?thesis
    by (simp add: notifyWaiters_def session_ok_def terminated_def)
next
  case False
  define p where "p = (\<lambda>w :: int \<times> nat. fst w \<le> fsBytesReady s)"
  have p: "(\<lambda>(e, _). e \<le> fsBytesReady s) = p" by (auto simp: p_def)
  have drop: "drop (length (takeWhile p (fsWaiters s))) (fsWaiters s) = dropWhile p (fsWaiters s)"
    by (rule dropWhile_eq_drop [symmetric])
  have sorted: "sorted (map fst (dropWhile p (fsWaiters s)))"
    using assms(1) by (metis sorted_wrt_append map_append takeWhile_dropWhile_id)
  have "fsBytesReady s < e" if "(e, ch) \<in> set (dropWhile p (fsWaiters s))" for e ch
  proof -
    from that obtain v vs where v: "dropWhile p (fsWaiters s) = v # vs" by (cases "dropWhile p (fsWaiters s)") auto
    have "\<not> p v" using hd_dropWhile [of p "fsWaiters s"] v by simp
    moreover have "fst v \<le> e" using sorted v that by auto
    ultimately show ?thesis by (simp add: p_def)
  qed
  with False sorted assms(2) channels_notify [of s err] show ?thesis
    unfolding notifyWaiters_def Let_def p
    by (auto simp: session_ok_def terminated_def drop)
qed

lemma session_ok_setDone: "session_ok s \<Longrightarrow> session_ok (setDone s)"
  unfolding setDone_def by (rule session_ok_notify) (simp_all add: session_ok_def channels_def)

lemma session_ok_setError:
  assumes "session_ok s"
  shows "session_ok (fs_setError s e b)"
proof -
  have "session_ok (notifyWaiters (s\<lparr>fsFetchErr := Some e\<rparr>) (Some e))"
    by (rule session_ok_notify) (use assms in \<open>simp_all add: session_ok_def channels_def\<close>)
  with assms show ?thesis by (simp add: fs_setError_def)
qed

lemma notify_simps [simp]:
  "fsChunkOff (notifyWaiters s err) = fsChunkOff s" "fsChunkLen (notifyWaiters s err) = fsChunkLen s"
  "fsFetchErr (notifyWaiters s err) = fsFetchErr s" "fsBytesReady (notifyWaiters s err) = fsBytesReady s"
  "fsNextCh (notifyWaiters s err) = fsNextCh s" "terminated (notifyWaiters s err) = terminated s"
  by (simp_all add: notifyWaiters_def Let_def terminated_def)

lemma terminated_setDone: "terminated (setDone s)"
  by (simp add: setDone_def terminated_def)

lemma terminated_setError: "terminated (fs_setError s e b)"
  by (auto simp: fs_setError_def terminated_def)

text \<open>Who is told that the range is there: the waiters up to the bytes that are ready.\<close>

lemma notify_sent_nil:
  assumes "(e, ch, None) \<in> set (fsSent (notifyWaiters s err))" "(e, ch, None) \<notin> set (fsSent s)"
  shows "e \<le> fsBytesReady s \<or> (terminated s \<and> err = None)"
  using assms
  by (auto simp: notifyWaiters_def Let_def split: if_splits dest: set_takeWhileD)

end
