(* ===== verification/Block_Stream_Fetch.thy ===== *)
theory Block_Stream_Fetch
  imports Block_Streaming
begin

text \<open>
  A fetch of \<open>Block_Streaming\<close> under every interleaving: the goroutine that reads, the readers that
  register, and the other sessions that write other chunks of the shared cache.
\<close>

subsection \<open>Steps\<close>

text \<open>
  The upstream reader, as \<^verbatim>\<open>io.Reader\<close> documents it and for a stored object with the bytes \<open>content\<close>: a read
  fills at most the buffer, with the next bytes of the object, and the end of the stream comes with the
  last byte of the requested range or after it.  \<^verbatim>\<open>io.Reader\<close> leaves open whether \<^verbatim>\<open>io.EOF\<close> is returned
  together with the last bytes or by the next call; \<open>eofLast\<close> says that the reader does the former.
\<close>

definition reader_ok :: "bool \<Rightarrow> byte list \<Rightarrow> int \<Rightarrow> 'e fetchSession \<Rightarrow> int \<Rightarrow> byte list \<Rightarrow> 'e read_error \<Rightarrow> bool" where
  "reader_ok eofLast content batch s totalRead data err \<longleftrightarrow>
     totalRead + int (length data) \<le> min (totalRead + batch) (fsChunkLen s) \<and>
     data = take (length data) (drop (nat (fsChunkOff s + totalRead)) content) \<and>
     (err = ReadEOF \<longrightarrow> totalRead + int (length data) = fsChunkLen s) \<and>
     (eofLast \<and> totalRead + int (length data) = fsChunkLen s \<longrightarrow> err \<noteq> ReadNil)"

text \<open>What the other sessions may do to the cache: not touch the bytes of this chunk, add marks.\<close>

definition other_chunks :: "byte list \<Rightarrow> 'e fetchSession \<Rightarrow> Cache \<Rightarrow> Cache \<Rightarrow> bool" where
  "other_chunks content s c c' \<longleftrightarrow>
     mirrors c' content \<and> same_shape c c' \<and> cDirty c \<subseteq> cDirty c' \<and>
     (\<forall>i. fsChunkOff s \<le> i \<and> i < fsChunkOff s + fsChunkLen s \<longrightarrow> the (cMmap c') ! nat i = the (cMmap c) ! nat i)"

inductive fetch_step :: "bool \<Rightarrow> byte list \<Rightarrow> int \<Rightarrow> 'e fetch \<Rightarrow> 'e fetch \<Rightarrow> bool" for eofLast content batch where
  ft_read:
    "ftPhase f = Reading t p \<Longrightarrow> reader_ok eofLast content batch (ftSession f) t data err \<Longrightarrow>
     fetch_step eofLast content batch f (progressStep f t p data err)"
| ft_end: "ftPhase f = Exited res \<Longrightarrow> fetch_step eofLast content batch f (endFetch f res)"
| ft_recover:
    "ftPhase f = FetchPanic \<or> (\<exists>t p. ftPhase f = Reading t p) \<Longrightarrow> fetch_step eofLast content batch f (recoverFetch f e)"
| ft_register:
    "fsChunkOff (ftSession f) \<le> off \<Longrightarrow> 0 < len \<Longrightarrow> off + len \<le> fsChunkOff (ftSession f) + fsChunkLen (ftSession f) \<Longrightarrow>
     fetch_step eofLast content batch f (f\<lparr>ftSession := snd (registerAndWait (ftCache f) (ftSession f) off len)\<rparr>)"
| ft_other: "other_chunks content (ftSession f) (ftCache f) c' \<Longrightarrow> fetch_step eofLast content batch f (f\<lparr>ftCache := c'\<rparr>)"

inductive fetch_reach :: "bool \<Rightarrow> byte list \<Rightarrow> int \<Rightarrow> 'e fetch \<Rightarrow> 'e fetch \<Rightarrow> bool" for eofLast content batch f0 where
  fetch_init: "fetch_reach eofLast content batch f0 f0"
| fetch_next: "fetch_reach eofLast content batch f0 f \<Longrightarrow> fetch_step eofLast content batch f f' \<Longrightarrow> fetch_reach eofLast content batch f0 f'"

subsection \<open>Nobody is forgotten\<close>

definition fetch_waits_ok :: "'e fetch \<Rightarrow> bool" where
  "fetch_waits_ok f \<longleftrightarrow> session_ok (ftSession f) \<and> (ftPhase f = Over \<longrightarrow> terminated (ftSession f))"

lemma session_ok_progress:
  "session_ok s \<Longrightarrow> session_ok (notifyWaiters (s\<lparr>fsBytesReady := x\<rparr>) None)"
  by (rule session_ok_notify) (simp_all add: session_ok_def channels_def)

lemma session_ok_progressStep:
  assumes "session_ok (ftSession f)"
  shows "session_ok (ftSession (progressStep f t p data err))" "ftPhase (progressStep f t p data err) \<noteq> Over"
  using assms
  by (auto simp: progressStep_def markProgress_def Let_def session_ok_progress split: go.splits read_error.splits)

lemma terminated_register [simp]: "terminated (snd (registerAndWait c s off len)) = terminated s"
  by (simp add: registerAndWait_def Let_def terminated_def split: go.splits bool.splits option.splits)

lemma fetch_waits_step:
  assumes "fetch_step eofLast content batch f f'" "fetch_waits_ok f"
  shows "fetch_waits_ok f'"
  using assms
proof (induction rule: fetch_step.induct)
  case (ft_end f res)
  then show ?case
    by (cases res) (auto simp: fetch_waits_ok_def endFetch_def session_ok_setDone session_ok_setError
        terminated_setDone terminated_setError)
qed (auto simp: fetch_waits_ok_def session_ok_progressStep recoverFetch_def session_ok_setError terminated_setError
    session_ok_register)

lemma fetch_waits_start: "fetch_waits_ok (startFetch c fetchOff chunkLen opened)"
  by (simp add: fetch_waits_ok_def startFetch_def session_ok_new split: option.splits)

lemma fetch_waits_reach:
  "fetch_reach eofLast content batch f0 f \<Longrightarrow> fetch_waits_ok f0 \<Longrightarrow> fetch_waits_ok f"
  by (induction rule: fetch_reach.induct) (auto intro: fetch_waits_step)

subsection \<open>What the readers find\<close>

definition written :: "byte list \<Rightarrow> Cache \<Rightarrow> int \<Rightarrow> int \<Rightarrow> bool" where
  "written content c a b \<longleftrightarrow> (\<forall>i. a \<le> i \<and> i < b \<longrightarrow> the (cMmap c) ! nat i = content ! nat i)"

definition marked :: "Cache \<Rightarrow> int \<Rightarrow> int \<Rightarrow> bool" where
  "marked c a b \<longleftrightarrow> (\<forall>k. a \<le> k \<and> k < b \<and> cBlockSize c dvd k \<longrightarrow> k \<in> cDirty c)"

lemma marked_mono: "marked c a b \<Longrightarrow> b' \<le> b \<Longrightarrow> marked c a b'"
  by (auto simp: marked_def)

lemma nth_read:
  assumes "data = take (length data) (drop o' content)" "o' \<le> i" "i < o' + length data" "o' + length data \<le> length content"
  shows "data ! (i - o') = content ! i"
proof -
  have "data ! (i - o') = take (length data) (drop o' content) ! (i - o')" using assms(1) by simp
  also have "\<dots> = content ! i" using assms(2-4) by simp
  finally show ?thesis .
qed

lemma mirrors_store:
  assumes c: "mirrors c content" and off: "0 \<le> off" "off + int (length data) \<le> int (length content)"
    and data: "data = take (length data) (drop (nat off) content)"
  shows "mirrors (store_bytes c off data) content" "cDirty (store_bytes c off data) = cDirty c"
    "same_shape c (store_bytes c off data)"
    "the (cMmap (store_bytes c off data)) = write_slice (the (cMmap c)) (nat off) data"
proof -
  from c obtain mm where mm: "cMmap c = Some mm" "cache_open c mm" by (auto simp: mirrors_def cache_open_def)
  have len: "length mm = length content" using c mm by (auto simp: mirrors_def cache_open_def)
  have fit: "nat off + length data \<le> length mm" using off len by linarith
  have bytes: "write_slice mm (nat off) data ! i = content ! i" if "i < length content" "mm ! i = content ! i" for i
  proof (cases "nat off \<le> i \<and> i < nat off + length data")
    case True
    have "data ! (i - nat off) = content ! i"
      using True fit len by (intro nth_read [OF data]) auto
    with True fit that len show ?thesis by (simp add: nth_write_slice)
  qed (use fit that len in \<open>auto simp: nth_write_slice\<close>)
  show "mirrors (store_bytes c off data) content"
    using c mm fit bytes by (auto simp: mirrors_def store_bytes_def cache_open_def cache_aligned_def)
  show "cDirty (store_bytes c off data) = cDirty c" "same_shape c (store_bytes c off data)"
    "the (cMmap (store_bytes c off data)) = write_slice (the (cMmap c)) (nat off) data"
    using mm by (simp_all add: store_bytes_def same_shape_def)
qed

lemma written_store:
  assumes c: "mirrors c content" and off: "0 \<le> a" "a \<le> off" "off + int (length data) \<le> int (length content)"
    and data: "data = take (length data) (drop (nat off) content)" and w: "written content c a off"
  shows "written content (store_bytes c off data) a (off + int (length data))"
proof -
  have len: "length (the (cMmap c)) = length content"
    using c by (auto simp: mirrors_def cache_open_def)
  have fit: "nat off + length data \<le> length (the (cMmap c))" using off len by linarith
  have "write_slice (the (cMmap c)) (nat off) data ! nat i = content ! nat i"
    if i: "a \<le> i" "i < off + int (length data)" for i
  proof (cases "i < off")
    case True
    with w i have "the (cMmap c) ! nat i = content ! nat i" by (simp add: written_def)
    moreover have lt: "nat i < nat off" using True i(1) off(1) by linarith
    then have "nat i < length (the (cMmap c))" using fit by linarith
    from nth_write_slice [OF fit this] lt
    have "write_slice (the (cMmap c)) (nat off) data ! nat i = the (cMmap c) ! nat i" by (metis not_less)
    ultimately show ?thesis by simp
  next
    case False
    have "data ! (nat i - nat off) = content ! nat i"
      using False i off fit len by (intro nth_read [OF data]) linarith+
    moreover have ge: "nat off \<le> nat i" "nat i < nat off + length data" using False i off by linarith+
    then have "nat i < length (the (cMmap c))" using fit by linarith
    from nth_write_slice [OF fit this] ge
    have "write_slice (the (cMmap c)) (nat off) data ! nat i = data ! (nat i - nat off)" by metis
    ultimately show ?thesis by simp
  qed
  then show ?thesis
    using mirrors_store(4) [OF c _ off(3) data] off(1,2) by (simp add: written_def)
qed

text \<open>Marking blocks that have been written.\<close>

lemma setIsCached_written:
  assumes c: "mirrors c content" and ab: "0 \<le> a" "a \<le> b" "b \<le> cSize c" "cBlockSize c dvd a" "cBlockSize c dvd b \<or> b = cSize c"
    and w: "written content c a b" and m: "marked c a0 a"
  shows "\<exists>c'. setIsCached c a (b - a) = Ok c' \<and> mirrors c' content \<and> same_shape c c' \<and> cDirty c \<subseteq> cDirty c' \<and>
    cMmap c' = cMmap c \<and> marked c' a0 b"
proof -
  let ?bs = "cBlockSize c" and ?D = "{a + k | k. 0 \<le> k \<and> k < b - a \<and> cBlockSize c dvd k}"
  from c obtain mm where mm: "cMmap c = Some mm" "cache_open c mm" by (auto simp: mirrors_def cache_open_def)
  have bs: "0 < ?bs" using mm(2) by (simp add: cache_open_def)
  have set: "setIsCached c a (b - a) = Ok (c\<lparr>cDirty := cDirty c \<union> ?D\<rparr>)"
    using ab by (intro setIsCached_open [OF mm(2)]) auto
  have D: "?D = {k. a \<le> k \<and> k < b \<and> ?bs dvd k}"
    using ab(4) by (auto intro!: exI [of _ "_ - a"])
  have "mm ! i = content ! i" if "i < length content" "int i div ?bs * ?bs \<in> ?D" for i
  proof -
    have "a \<le> int i" using that(2) block_floor_compare [OF bs ab(4), of "int i"] unfolding D by auto
    moreover have "int i < b"
      using ab(5) that c block_floor_compare [OF bs, of b "int i"] unfolding D by (auto simp: mirrors_def)
    ultimately have "a \<le> int i" "int i < b" .
    then show ?thesis using w ab(1) mm(1) unfolding written_def by (metis nat_int option.sel)
  qed
  then have "mirrors (c\<lparr>cDirty := cDirty c \<union> ?D\<rparr>) content"
    using c mm ab unfolding D by (auto simp: mirrors_def cache_open_def cache_aligned_def)
  moreover have "marked (c\<lparr>cDirty := cDirty c \<union> ?D\<rparr>) a0 b"
    using m unfolding D marked_def by auto
  ultimately show ?thesis using set by (auto simp: same_shape_def)
qed

definition fetch_shape :: "byte list \<Rightarrow> 'e fetchSession \<Rightarrow> Cache \<Rightarrow> bool" where
  "fetch_shape content s c \<longleftrightarrow>
     mirrors c content \<and> 0 \<le> fsChunkOff s \<and> 0 < fsChunkLen s \<and> cBlockSize c dvd fsChunkOff s \<and>
     (cBlockSize c dvd fsChunkLen s \<or> fsChunkOff s + fsChunkLen s = cSize c) \<and> fsChunkOff s + fsChunkLen s \<le> cSize c"

text \<open>
  What a fetch that succeeds is sure to have marked: the whole chunk when the reader announces the end
  together with the last bytes, and the complete blocks of the chunk in any case.
\<close>

definition servedLen :: "bool \<Rightarrow> int \<Rightarrow> int \<Rightarrow> int" where
  "servedLen eofLast bs chunkLen = (if eofLast then chunkLen else chunkLen div bs * bs)"

lemma servedLen_le: "0 < bs \<Longrightarrow> servedLen eofLast bs l \<le> l"
  using mult_div_le_int [of bs l] by (simp add: servedLen_def mult.commute)

lemma servedLen_dvd [simp]: "bs dvd l \<Longrightarrow> servedLen eofLast bs l = l"
  by (simp add: servedLen_def)

lemma blocks_served: "0 < bs \<Longrightarrow> p * bs \<le> l \<Longrightarrow> p * bs \<le> servedLen eofLast bs l"
  by (simp add: servedLen_def mult_le_iff_le_div)

text \<open>The blocks below the ready bytes are marked, and so are those of every reader told that all is well.\<close>

definition session_data :: "bool \<Rightarrow> 'e fetchSession \<Rightarrow> Cache \<Rightarrow> bool" where
  "session_data eofLast s c \<longleftrightarrow>
     (let n = servedLen eofLast (cBlockSize c) (fsChunkLen s) in
      fsBytesReady s \<le> fsChunkLen s \<and> marked c (fsChunkOff s) (fsChunkOff s + min (fsBytesReady s) n) \<and>
      (\<forall>e ch. (e, ch, None) \<in> set (fsSent s) \<longrightarrow> marked c (fsChunkOff s) (fsChunkOff s + min e n)))"

fun phase_data :: "bool \<Rightarrow> byte list \<Rightarrow> 'e fetchSession \<Rightarrow> Cache \<Rightarrow> 'e fetch_phase \<Rightarrow> bool" where
  "phase_data eofLast content s c (Reading t p) \<longleftrightarrow>
     fsFetchErr s = None \<and> 0 \<le> p \<and> p * cBlockSize c \<le> t \<and> t < p * cBlockSize c + cBlockSize c \<and> t < fsChunkLen s \<and>
     fsBytesReady s = p * cBlockSize c \<and> written content c (fsChunkOff s) (fsChunkOff s + t)"
| "phase_data eofLast content s c (Exited None) \<longleftrightarrow>
     fsFetchErr s = None \<and>
     marked c (fsChunkOff s) (fsChunkOff s + servedLen eofLast (cBlockSize c) (fsChunkLen s))"
| "phase_data eofLast content s c (Exited (Some e)) \<longleftrightarrow> fsFetchErr s = None"
| "phase_data eofLast content s c FetchPanic \<longleftrightarrow> fsFetchErr s = None"
| "phase_data eofLast content s c Over \<longleftrightarrow> True"

definition fetch_data :: "bool \<Rightarrow> byte list \<Rightarrow> 'e fetch \<Rightarrow> bool" where
  "fetch_data eofLast content f \<longleftrightarrow> fetch_shape content (ftSession f) (ftCache f) \<and> session_data eofLast (ftSession f) (ftCache f) \<and>
     phase_data eofLast content (ftSession f) (ftCache f) (ftPhase f)"

lemma session_data_cache:
  assumes "session_data eofLast s c" "same_shape c c'" "cDirty c \<subseteq> cDirty c'"
  shows "session_data eofLast s c'"
  using assms unfolding session_data_def marked_def same_shape_def Let_def by (auto 0 4)

lemma session_data_notify:
  assumes "session_data eofLast s c" "0 < cBlockSize c"
    and m: "marked c (fsChunkOff s) (fsChunkOff s + min x (servedLen eofLast (cBlockSize c) (fsChunkLen s)))"
    and "x \<le> fsChunkLen s" and "err = None \<Longrightarrow> fsFetchErr s = None"
  shows "session_data eofLast (notifyWaiters (s\<lparr>fsBytesReady := x\<rparr>) err) c"
proof -
  let ?s = "s\<lparr>fsBytesReady := x\<rparr>" and ?n = "servedLen eofLast (cBlockSize c) (fsChunkLen s)"
  have "marked c (fsChunkOff s) (fsChunkOff s + min e ?n)"
    if "(e, ch, None) \<in> set (fsSent (notifyWaiters ?s err))" for e ch
  proof (cases "(e, ch, None) \<in> set (fsSent s)")
    case True
    with assms(1) show ?thesis by (auto simp: session_data_def Let_def)
  next
    case False
    then have "e \<le> x \<or> (terminated ?s \<and> err = None)" using notify_sent_nil [OF that] by simp
    then have "e \<le> x \<or> fsChunkLen s \<le> x" using assms(5) by (auto simp: terminated_def)
    then have "min e ?n \<le> min x ?n" using servedLen_le [OF assms(2), of eofLast "fsChunkLen s"] by auto
    with m show ?thesis by (auto intro: marked_mono)
  qed
  with m assms(4) show ?thesis by (auto simp: session_data_def Let_def)
qed

lemma session_data_error:
  assumes "session_data eofLast s c" "0 < cBlockSize c"
  shows "session_data eofLast (fs_setError s e b) c"
proof -
  have "s\<lparr>fsFetchErr := Some e\<rparr> = (s\<lparr>fsFetchErr := Some e\<rparr>)\<lparr>fsBytesReady := fsBytesReady s\<rparr>" by simp
  moreover have "session_data eofLast (notifyWaiters ((s\<lparr>fsFetchErr := Some e\<rparr>)\<lparr>fsBytesReady := fsBytesReady s\<rparr>) (Some e)) c"
    by (rule session_data_notify) (use assms in \<open>simp_all add: session_data_def Let_def\<close>)
  ultimately show ?thesis using assms by (simp add: fs_setError_def)
qed

lemma register_simps [simp]:
  "fsChunkOff (snd (registerAndWait c s off len)) = fsChunkOff s" "fsChunkLen (snd (registerAndWait c s off len)) = fsChunkLen s"
  "fsFetchErr (snd (registerAndWait c s off len)) = fsFetchErr s" "fsBytesReady (snd (registerAndWait c s off len)) = fsBytesReady s"
  "fsSent (snd (registerAndWait c s off len)) = fsSent s"
  by (simp_all add: registerAndWait_def Let_def split: go.splits bool.splits option.splits)

lemma session_data_register:
  "session_data eofLast s c \<Longrightarrow> session_data eofLast (snd (registerAndWait c s off len)) c"
  by (simp add: session_data_def)

lemma setError_simps [simp]:
  "fsChunkOff (fs_setError s e b) = fsChunkOff s" "fsChunkLen (fs_setError s e b) = fsChunkLen s"
  "fsChunkOff (setDone s) = fsChunkOff s" "fsChunkLen (setDone s) = fsChunkLen s"
  by (simp_all add: fs_setError_def setDone_def)

text \<open>Progress: after a read the complete blocks are marked and their waiters are told.\<close>

lemma markProgress_data:
  assumes sh: "fetch_shape content s c" and sd: "session_data eofLast s c" and err: "fsFetchErr s = None"
    and p: "0 \<le> p" "p * cBlockSize c \<le> t" "fsBytesReady s = p * cBlockSize c" and t: "t \<le> fsChunkLen s"
    and w: "written content c (fsChunkOff s) (fsChunkOff s + t)"
  obtains c1 s1 where "markProgress c s t p = (Ok c1, s1, t div cBlockSize c)"
    "fetch_shape content s1 c1" "session_data eofLast s1 c1" "fsFetchErr s1 = None" "cBlockSize c1 = cBlockSize c"
    "fsBytesReady s1 = t div cBlockSize c * cBlockSize c" "written content c1 (fsChunkOff s) (fsChunkOff s + t)"
    "fsChunkOff s1 = fsChunkOff s" "fsChunkLen s1 = fsChunkLen s"
proof -
  let ?bs = "cBlockSize c" and ?q = "t div cBlockSize c" and ?o = "fsChunkOff s"
  have bs: "0 < ?bs" using sh by (auto simp: fetch_shape_def mirrors_def cache_open_def)
  have t0: "0 \<le> t" using p bs by (meson mult_nonneg_nonneg order_trans less_imp_le)
  have q: "t sdiv ?bs = ?q" "?q * ?bs \<le> t" using t0 bs mult_div_le_int [of ?bs t] by (simp_all add: mult.commute)
  have pq: "p \<le> ?q" using p(2) bs by (simp add: mult_le_iff_le_div)
  show thesis
  proof (cases "?q > p")
    case False
    with pq have "p = ?q" by simp
    with False q sh sd err p(3) w show thesis by (intro that [of c s]) (simp_all add: markProgress_def)
  next
    case True
    let ?a = "?o + p * ?bs" and ?b = "?o + ?q * ?bs"
    have ab: "0 \<le> ?a" "?a \<le> ?b" "?b \<le> cSize c" "?bs dvd ?a" "?bs dvd ?b"
      using sh p(1) pq q(2) t bs by (auto simp: fetch_shape_def intro: mult_right_mono order_trans)
    have wab: "written content c ?a ?b"
    proof -
      have "?o \<le> ?a" "?b \<le> ?o + t" using p(1) q(2) bs by simp_all
      with w show ?thesis by (auto simp: written_def)
    qed
    have "?q * ?bs \<le> fsChunkLen s" using q(2) t by simp
    then have served: "p * ?bs \<le> servedLen eofLast ?bs (fsChunkLen s)"
      using blocks_served [OF bs] p(2) t by (meson order_trans)
    then have m: "marked c ?o ?a" using sd p(3) by (simp add: session_data_def Let_def)
    have c: "mirrors c content" using sh by (simp add: fetch_shape_def)
    from setIsCached_written [OF c ab(1-4) disjI1 [OF ab(5)] wab m] obtain c1 where
      c1: "setIsCached c ?a (?b - ?a) = Ok c1" "mirrors c1 content" "same_shape c c1" "cDirty c \<subseteq> cDirty c1"
        "cMmap c1 = cMmap c" "marked c1 ?o ?b" by blast
    define s1 where "s1 = notifyWaiters (s\<lparr>fsBytesReady := ?q * ?bs\<rparr>) None"
    have "session_data eofLast s1 c1"
      unfolding s1_def
      by (rule session_data_notify [OF session_data_cache [OF sd c1(3,4)]])
        (use c1(3,6) q(2) t err bs in \<open>auto simp: same_shape_def intro: marked_mono\<close>)
    moreover have "?b - ?a = (?q - p) * ?bs" by (simp add: left_diff_distrib)
    ultimately show thesis
      using True q(1) c1 sh err w
      by (intro that [of c1 s1])
        (simp_all add: markProgress_def Let_def s1_def fetch_shape_def same_shape_def written_def)
  qed
qed

text \<open>The end of the stream: the final partial block is marked, if there is one.\<close>

lemma markLast_data:
  assumes sh: "fetch_shape content s c" and sd: "session_data eofLast s c"
    and q: "q = fsChunkLen s div cBlockSize c" and m: "marked c (fsChunkOff s) (fsChunkOff s + q * cBlockSize c)"
    and w: "written content c (fsChunkOff s) (fsChunkOff s + fsChunkLen s)"
  obtains c2 where "(if fsChunkLen s > q * cBlockSize c
      then setIsCached c (fsChunkOff s + q * cBlockSize c) (fsChunkLen s - q * cBlockSize c) else Ok c) = Ok c2"
    "fetch_shape content s c2" "session_data eofLast s c2" "marked c2 (fsChunkOff s) (fsChunkOff s + fsChunkLen s)"
    "cBlockSize c2 = cBlockSize c"
proof -
  let ?bs = "cBlockSize c" and ?o = "fsChunkOff s" and ?l = "fsChunkLen s"
  have bs: "0 < ?bs" and c: "mirrors c content" and o: "0 \<le> ?o" "?bs dvd ?o" "0 < ?l" "?o + ?l \<le> cSize c"
    using sh by (auto simp: fetch_shape_def mirrors_def cache_open_def)
  have q0: "0 \<le> q" "q * ?bs \<le> ?l"
    using mult_div_le_int [OF bs, of ?l] o bs by (simp_all add: q mult.commute pos_imp_zdiv_nonneg_iff)
  show thesis
  proof (cases "?l > q * ?bs")
    case False
    with q0 have "q * ?bs = ?l" by simp
    with False sh sd m show thesis by (intro that [of c]) simp_all
  next
    case True
    let ?a = "?o + q * ?bs"
    have "\<not> ?bs dvd ?l" using True by (auto simp: q)
    then have last: "?o + ?l = cSize c" using sh by (simp add: fetch_shape_def)
    have a: "0 \<le> ?a" "?a \<le> ?o + ?l" "?bs dvd ?a" using o q0 bs by auto
    have "?o \<le> ?a" using q0 bs by simp
    then have "written content c ?a (?o + ?l)" using w by (auto simp: written_def)
    from setIsCached_written [OF c a(1,2) o(4) a(3) _ this m] last obtain c2 where
      "setIsCached c ?a (?o + ?l - ?a) = Ok c2" "mirrors c2 content" "same_shape c c2" "cDirty c \<subseteq> cDirty c2"
      "marked c2 ?o (?o + ?l)" by blast
    with True sh session_data_cache [OF sd] show thesis
      by (intro that [of c2]) (auto simp: fetch_shape_def same_shape_def)
  qed
qed

lemma fetch_data_read:
  assumes f: "fetch_data eofLast content f" and ph: "ftPhase f = Reading t p" and rd: "reader_ok eofLast content batch (ftSession f) t data err"
  shows "fetch_data eofLast content (progressStep f t p data err)"
proof -
  define s c t' where "s = ftSession f" and "c = store_bytes (ftCache f) (fsChunkOff s + t) data" and "t' = t + int (length data)"
  let ?bs = "cBlockSize (ftCache f)"
  have sh: "fetch_shape content s (ftCache f)" and sd: "session_data eofLast s (ftCache f)"
    and r: "fsFetchErr s = None" "0 \<le> p" "p * ?bs \<le> t" "t < fsChunkLen s" "fsBytesReady s = p * ?bs"
      "written content (ftCache f) (fsChunkOff s) (fsChunkOff s + t)"
    using f ph by (simp_all add: fetch_data_def s_def)
  have data: "data = take (length data) (drop (nat (fsChunkOff s + t)) content)" and t': "t' \<le> fsChunkLen s"
    and eof: "err = ReadEOF \<Longrightarrow> t' = fsChunkLen s"
    using rd by (auto simp: reader_ok_def s_def t'_def)
  have m: "mirrors (ftCache f) content" and bs: "0 < ?bs"
    using sh by (auto simp: fetch_shape_def mirrors_def cache_open_def)
  have t0: "0 \<le> t" using r(2,3) bs by (meson mult_nonneg_nonneg order_trans less_imp_le)
  have fit: "0 \<le> fsChunkOff s" "fsChunkOff s + t + int (length data) \<le> int (length content)"
    using sh t' by (auto simp: fetch_shape_def mirrors_def t'_def)
  note st = mirrors_store [OF m _ fit(2) data]
  have off: "0 \<le> fsChunkOff s + t" using fit(1) t0 by simp
  have c: "fetch_shape content s c" "session_data eofLast s c" "cBlockSize c = ?bs"
    using sh session_data_cache [OF sd st(3) [OF off]] st(1-3) [OF off] by (auto simp: fetch_shape_def c_def same_shape_def)
  have w: "written content c (fsChunkOff s) (fsChunkOff s + t')"
    using written_store [OF m fit(1) _ fit(2) data r(6)] t0 by (simp add: c_def t'_def add.assoc)
  have "p * ?bs \<le> t'" using r(3) by (simp add: t'_def)
  from markProgress_data [OF c(1,2) r(1,2) this [folded c(3)] r(5) [folded c(3)] t' w]
  obtain c1 s1 where mp: "markProgress c s t' p = (Ok c1, s1, t' div ?bs)"
    and c1: "fetch_shape content s1 c1" "session_data eofLast s1 c1" "fsFetchErr s1 = None" "cBlockSize c1 = ?bs"
      "fsBytesReady s1 = t' div ?bs * ?bs" "written content c1 (fsChunkOff s1) (fsChunkOff s1 + t')"
      "fsChunkOff s1 = fsChunkOff s" "fsChunkLen s1 = fsChunkLen s"
    unfolding c(3) by metis
  have q: "t' div ?bs * ?bs \<le> t'" "t' < t' div ?bs * ?bs + ?bs" "0 \<le> t' div ?bs"
    using block_floor [OF bs, of t'] t0 bs by (auto simp: t'_def pos_imp_zdiv_nonneg_iff)
  have blocks: "marked c1 (fsChunkOff s1) (fsChunkOff s1 + t' div ?bs * ?bs)"
    using c1(2,4,5,8) q(1) t' blocks_served [OF bs, of "t' div ?bs" "fsChunkLen s" eofLast]
    by (simp add: session_data_def Let_def)
  show ?thesis
  proof (cases err)
    case ReadEOF
    note t'_eq = eof [OF ReadEOF]
    from markLast_data [OF c1(1,2), of "t' div ?bs"] blocks c1(4,6,8) t'_eq
    obtain c2 where c2: "(if fsChunkLen s1 > t' div ?bs * ?bs
        then setIsCached c1 (fsChunkOff s1 + t' div ?bs * ?bs) (fsChunkLen s1 - t' div ?bs * ?bs) else Ok c1) = Ok c2"
      "fetch_shape content s1 c2" "session_data eofLast s1 c2" "marked c2 (fsChunkOff s1) (fsChunkOff s1 + fsChunkLen s1)"
      "cBlockSize c2 = ?bs" by metis
    have "progressStep f t p data err = \<lparr>ftSession = s1, ftCache = c2, ftPhase = Exited None\<rparr>"
      using mp c(3) c2(1) c1(7,8) t'_eq ReadEOF
      by (auto simp: progressStep_def s_def c_def t'_def Let_def split: if_splits)
    moreover have "marked c2 (fsChunkOff s1) (fsChunkOff s1 + servedLen eofLast ?bs (fsChunkLen s1))"
      using c2(4) servedLen_le [OF bs] by (auto intro: marked_mono)
    ultimately show ?thesis using c1(3) c2(2,3,5) by (simp add: fetch_data_def)
  next
    case (ReadErr e)
    then have "progressStep f t p data err = \<lparr>ftSession = s1, ftCache = c1, ftPhase = Exited (Some e)\<rparr>"
      using mp by (simp add: progressStep_def s_def c_def t'_def Let_def)
    then show ?thesis using c1(1-3) by (simp add: fetch_data_def)
  next
    case ReadNil
    then have step: "progressStep f t p data err = \<lparr>ftSession = s1, ftCache = c1,
        ftPhase = (if t' < fsChunkLen s then Reading t' (t' div ?bs) else Exited None)\<rparr>"
      using mp by (simp add: progressStep_def s_def c_def t'_def Let_def)
    show ?thesis
    proof (cases "t' < fsChunkLen s")
      case True
      with step c1 q show ?thesis by (simp add: fetch_data_def)
    next
      case False
      with t' have t'_eq: "t' = fsChunkLen s" by simp
      then have "\<not> eofLast" using rd ReadNil by (auto simp: reader_ok_def s_def t'_def)
      with False step c1 blocks t'_eq show ?thesis by (simp add: fetch_data_def servedLen_def)
    qed
  qed
qed

lemma fetch_data_block: "fetch_data eofLast content f \<Longrightarrow> 0 < cBlockSize (ftCache f)"
  by (auto simp: fetch_data_def fetch_shape_def mirrors_def cache_open_def)

lemma fetch_data_end:
  assumes f: "fetch_data eofLast content f" and ph: "ftPhase f = Exited res"
  shows "fetch_data eofLast content (endFetch f res)"
proof (cases res)
  case None
  let ?s = "ftSession f" and ?c = "ftCache f"
  note bs = fetch_data_block [OF f]
  have "session_data eofLast (setDone ?s) ?c"
    unfolding setDone_def
    by (rule session_data_notify) (use f ph None servedLen_le in \<open>auto simp: fetch_data_def min_absorb2 bs\<close>)
  with f None show ?thesis by (simp add: fetch_data_def endFetch_def fetch_shape_def)
next
  case (Some e)
  with f fetch_data_block [OF f] show ?thesis by (simp add: fetch_data_def endFetch_def fetch_shape_def session_data_error)
qed

lemma fetch_data_register:
  assumes "fetch_data eofLast content f"
  shows "fetch_data eofLast content (f\<lparr>ftSession := snd (registerAndWait (ftCache f) (ftSession f) off len)\<rparr>)"
proof -
  have "phase_data eofLast content (snd (registerAndWait (ftCache f) (ftSession f) off len)) (ftCache f) ph =
      phase_data eofLast content (ftSession f) (ftCache f) ph" for ph
    by (cases "(eofLast, content, ftSession f, ftCache f, ph)" rule: phase_data.cases) auto
  with assms show ?thesis by (simp add: fetch_data_def fetch_shape_def session_data_register)
qed

lemma fetch_data_other:
  assumes f: "fetch_data eofLast content f" and other: "other_chunks content (ftSession f) (ftCache f) c'"
  shows "fetch_data eofLast content (f\<lparr>ftCache := c'\<rparr>)"
proof -
  let ?s = "ftSession f" and ?c = "ftCache f"
  have o: "mirrors c' content" "same_shape ?c c'" "cDirty ?c \<subseteq> cDirty c'"
    "\<And>i. fsChunkOff ?s \<le> i \<Longrightarrow> i < fsChunkOff ?s + fsChunkLen ?s \<Longrightarrow> the (cMmap c') ! nat i = the (cMmap ?c) ! nat i"
    using other by (auto simp: other_chunks_def)
  have bs: "cBlockSize c' = cBlockSize ?c" "cSize c' = cSize ?c" using o(2) by (simp_all add: same_shape_def)
  have mk: "marked ?c a b \<Longrightarrow> marked c' a b" for a b using o(3) bs by (auto simp: marked_def)
  have wr: "written content ?c (fsChunkOff ?s) (fsChunkOff ?s + t) \<Longrightarrow> t \<le> fsChunkLen ?s \<Longrightarrow>
      written content c' (fsChunkOff ?s) (fsChunkOff ?s + t)" for t
    using o(4) by (auto simp: written_def)
  have "phase_data eofLast content ?s c' ph" if "phase_data eofLast content ?s ?c ph" for ph
    using that mk wr bs by (cases "(eofLast, content, ?s, ?c, ph)" rule: phase_data.cases) auto
  with f o(1) bs session_data_cache [OF _ o(2,3)] show ?thesis
    by (auto simp: fetch_data_def fetch_shape_def)
qed

lemma fetch_data_step:
  assumes "fetch_step eofLast content batch f f'" "fetch_data eofLast content f"
  shows "fetch_data eofLast content f'"
  using assms
proof (induction rule: fetch_step.induct)
  case (ft_recover f e)
  from fetch_data_block [OF this(2)] this show ?case
    by (simp add: fetch_data_def recoverFetch_def fetch_shape_def session_data_error)
qed (auto intro: fetch_data_read fetch_data_end fetch_data_register fetch_data_other)

lemma fetch_data_reach: "fetch_reach eofLast content batch f0 f \<Longrightarrow> fetch_data eofLast content f0 \<Longrightarrow> fetch_data eofLast content f"
  by (induction rule: fetch_reach.induct) (auto intro: fetch_data_step)

text \<open>
  The chunks that \<^verbatim>\<open>Slice\<close> fetches: they begin at a block, and end with a block or with the object.
\<close>

definition fetch_starts :: "byte list \<Rightarrow> Cache \<Rightarrow> int \<Rightarrow> int \<Rightarrow> bool" where
  "fetch_starts content c fetchOff chunkLen \<longleftrightarrow>
     mirrors c content \<and> 0 \<le> fetchOff \<and> 0 < chunkLen \<and> cBlockSize c dvd fetchOff \<and> fetchOff + chunkLen \<le> cSize c \<and>
     (cBlockSize c dvd chunkLen \<or> fetchOff + chunkLen = cSize c)"

lemma fetch_data_start:
  assumes "fetch_starts content c fetchOff chunkLen"
  shows "fetch_data eofLast content (startFetch c fetchOff chunkLen opened)"
proof -
  have "0 < cBlockSize c" using assms by (auto simp: fetch_starts_def mirrors_def cache_open_def)
  with assms show ?thesis
    by (auto simp: fetch_data_def startFetch_def newFetchSession_def fetch_shape_def fetch_starts_def session_data_def
        marked_def written_def split: option.splits)
qed

lemma same_chunk_reach:
  "fetch_reach eofLast content batch f0 f \<Longrightarrow>
     fsChunkOff (ftSession f) = fsChunkOff (ftSession f0) \<and> fsChunkLen (ftSession f) = fsChunkLen (ftSession f0)"
proof (induction rule: fetch_reach.induct)
  case (fetch_next f f')
  from fetch_next(2) have "fsChunkOff (ftSession f') = fsChunkOff (ftSession f) \<and> fsChunkLen (ftSession f') = fsChunkLen (ftSession f)"
  proof (induction rule: fetch_step.induct)
    case (ft_read f t p data err)
    show ?case
      by (auto simp: progressStep_def markProgress_def Let_def split: go.splits read_error.splits)
  qed (auto simp: endFetch_def recoverFetch_def split: option.splits)
  with fetch_next show ?case by simp
qed simp

text \<open>The end byte of a waiter is past its range, and inside the chunk's blocks.\<close>

lemma waiterEnd_covers:
  assumes "0 < bs" "0 \<le> fsChunkOff s" "fsChunkOff s \<le> off" "0 < len" "off + len + bs < 9223372036854775808"
  shows "off + len \<le> fsChunkOff s + waiterEnd bs s off len"
proof -
  let ?x = "off + len - 1 - fsChunkOff s"
  have x: "0 \<le> ?x" "?x < 9223372036854775808" using assms by linarith+
  have i: "i64 (off + len) = off + len" "i64 (off + len - 1) = off + len - 1" "i64 ?x = ?x"
    using assms by (auto intro!: i64_id)
  have q: "?x div bs * bs \<le> ?x" "?x < ?x div bs * bs + bs" "0 \<le> ?x div bs"
    using block_floor [OF assms(1), of ?x] x(1) assms(1) by (auto simp: pos_imp_zdiv_nonneg_iff)
  have d: "?x div bs \<le> ?x" using x(1) assms(1) by (rule div_le_dividend_int)
  have "i64 (?x div bs) = ?x div bs" "i64 (?x div bs + 1) = ?x div bs + 1"
    using q(3) d x assms by (auto intro!: i64_id)
  moreover have "i64 ((?x div bs + 1) * bs) = (?x div bs + 1) * bs"
    using q assms by (intro i64_id) (auto simp: distrib_right)
  ultimately have "waiterEnd bs s off len = (?x div bs + 1) * bs"
    using i x(1) assms(1) by (simp add: waiterEnd_def)
  with q(2) show ?thesis by (simp add: distrib_right)
qed

text \<open>Progress marks nothing beyond the complete blocks.\<close>

lemma markProgress_below:
  assumes c: "cache_open c mm" and o: "0 \<le> fsChunkOff s" "0 \<le> p" "p \<le> t div cBlockSize c" "0 \<le> t"
    and fit: "fsChunkOff s + t \<le> cSize c"
  obtains c1 s1 where "markProgress c s t p = (Ok c1, s1, t div cBlockSize c)" "cache_open c1 mm"
    "same_shape c c1" "cDirtyFile c1 = cDirtyFile c" "fsChunkLen s1 = fsChunkLen s"
    "cDirty c1 \<subseteq> cDirty c \<union> {k. k < fsChunkOff s + t div cBlockSize c * cBlockSize c}"
proof -
  let ?bs = "cBlockSize c" and ?q = "t div cBlockSize c" and ?o = "fsChunkOff s"
  have bs: "0 < ?bs" using c by (simp add: cache_open_def)
  have sd: "t sdiv ?bs = ?q" using o(4) bs by simp
  have q: "?q * ?bs \<le> t" using mult_div_le_int [OF bs, of t] by (simp add: mult.commute)
  show thesis
  proof (cases "?q > p")
    case False
    with o(3) have "p = ?q" by simp
    with False c sd show thesis by (intro that [of c s]) (simp_all add: markProgress_def)
  next
    case True
    let ?a = "?o + p * ?bs" and ?n = "(?q - p) * ?bs"
    let ?D = "{?a + k | k. 0 \<le> k \<and> k < ?n \<and> ?bs dvd k}"
    have a: "0 \<le> ?a" "?a + ?n = ?o + ?q * ?bs" using o bs by (simp_all add: left_diff_distrib)
    have n: "0 \<le> ?n" using True bs by simp
    have D: "x < ?o + ?q * ?bs" "0 \<le> x" if "x \<in> ?D" for x using that a by auto
    have set: "setIsCached c ?a ?n = Ok (c\<lparr>cDirty := cDirty c \<union> ?D\<rparr>)"
      using a q fit n by (intro setIsCached_open [OF c]) auto
    have "?D \<subseteq> {0..<cSize c}"
    proof
      fix x assume "x \<in> ?D"
      from D [OF this] q fit show "x \<in> {0..<cSize c}" by simp
    qed
    with c have "cache_open (c\<lparr>cDirty := cDirty c \<union> ?D\<rparr>) mm" by (simp add: cache_open_def)
    moreover have "cDirty c \<union> ?D \<subseteq> cDirty c \<union> {k. k < ?o + ?q * ?bs}" using D(1) by blast
    ultimately show thesis
      using True sd set
      by (intro that [of "c\<lparr>cDirty := cDirty c \<union> ?D\<rparr>" "notifyWaiters (s\<lparr>fsBytesReady := ?q * ?bs\<rparr>) None"])
        (simp_all add: markProgress_def Let_def same_shape_def)
  qed
qed

end
