(* ===== verification/Stream_Properties.thy ===== *)
theory Stream_Properties
  imports Block_Stream_Fetch
begin

text \<open>
  The properties of the streaming chunker: who is woken, what a woken reader finds, which parts of
  which chunks a slice waits for, and the case in which the last block is lost.
\<close>

subsection \<open>A fetch for the witnesses\<close>

definition stream_demo_content :: "byte list" where "stream_demo_content = [1, 2, 3, 4]"

definition stream_demo_cache :: Cache where
  "stream_demo_cache = \<lparr>cFilePath = ''c'', cSize = 4, cBlockSize = 2, cMmap = Some [0, 0, 0, 0], cDirty = {},
     cDirtyFile = False, cClosed = False\<rparr>"

abbreviation stream_demo_start :: "unit fetch" where
  "stream_demo_start \<equiv> startFetch stream_demo_cache 0 4 None"

text \<open>A reader registers for the first block.\<close>

abbreviation stream_demo_registered :: "unit fetch" where
  "stream_demo_registered \<equiv> stream_demo_start\<lparr>ftSession := snd (registerAndWait (ftCache stream_demo_start) (ftSession stream_demo_start) 0 2)\<rparr>"

lemma stream_demo_waits: "registerAndWait stream_demo_cache (newFetchSession 0 4 :: unit fetchSession) 0 2 =
    (Ok (RegWaits 0), (newFetchSession 0 4)\<lparr>fsWaiters := [(2, 0)], fsNextCh := 1\<rparr>)"
  by (simp add: registerAndWait_def waiterEnd_def stream_demo_cache_def newFetchSession_def terminated_def insertWaiter_def)

lemma stream_demo_registered_eq:
  "stream_demo_registered = \<lparr>ftSession = (newFetchSession 0 4)\<lparr>fsWaiters := [(2, 0)], fsNextCh := 1\<rparr>, ftCache = stream_demo_cache,
     ftPhase = Reading 0 0\<rparr>"
  using stream_demo_waits by (simp add: startFetch_def)

lemma stream_demo_register_step: "fetch_step False stream_demo_content 16 stream_demo_start stream_demo_registered"
  by (rule ft_register) (simp_all add: startFetch_def newFetchSession_def)

text \<open>A fetch with a partial last block: a reader registers for that block, the stream delivers it and ends.\<close>

definition stream_demo_short :: "unit fetch" where
  "stream_demo_short = startFetch (stream_demo_cache\<lparr>cSize := 3, cMmap := Some [0, 0, 0]\<rparr>) 0 3 None"

abbreviation stream_short_registered :: "unit fetch" where
  "stream_short_registered \<equiv> stream_demo_short\<lparr>ftSession := snd (registerAndWait (ftCache stream_demo_short) (ftSession stream_demo_short) 2 1)\<rparr>"

abbreviation stream_short_read :: "unit fetch" where
  "stream_short_read \<equiv> progressStep stream_short_registered 0 0 [1, 2, 3] ReadEOF"

lemma stream_short_registered_eq:
  "stream_short_registered = \<lparr>ftSession = (newFetchSession 0 3)\<lparr>fsWaiters := [(4, 0)], fsNextCh := 1\<rparr>,
     ftCache = stream_demo_cache\<lparr>cSize := 3, cMmap := Some [0, 0, 0]\<rparr>, ftPhase = Reading 0 0\<rparr>"
  by (simp add: registerAndWait_def waiterEnd_def stream_demo_cache_def newFetchSession_def terminated_def insertWaiter_def
      stream_demo_short_def startFetch_def)

lemma stream_short_starts: "fetch_starts [1, 2, 3] (ftCache stream_demo_short) 0 3"
  by (simp add: fetch_starts_def mirrors_def cache_open_def cache_aligned_def stream_demo_cache_def MemoryChunkSize_def
      stream_demo_short_def startFetch_def)

lemma stream_short_read_eq:
  "ftPhase stream_short_read = Exited None" "cBlockSize (ftCache stream_short_read) = 2"
  "fsWaiters (ftSession stream_short_read) = [(4, 0)]" "fsFetchErr (ftSession stream_short_read) = None"
proof -
  let ?c = "store_bytes (stream_demo_cache\<lparr>cSize := 3, cMmap := Some [0, 0, 0]\<rparr>) 0 [1, 2, 3]"
  have c: "cache_open ?c [1, 2, 3]"
    by (simp add: store_bytes_def stream_demo_cache_def cache_open_def write_slice_def)
  have bs: "cBlockSize ?c = 2" "cSize ?c = 3" by (simp_all add: store_bytes_def stream_demo_cache_def)
  define D where "D = {k. 0 \<le> k \<and> k < 2 \<and> even (k :: int)}"
  have c1: "setIsCached ?c 0 2 = Ok (?c\<lparr>cDirty := D\<rparr>)" and D: "D \<subseteq> {0..<3}"
    using setIsCached_open [OF c, of 0 2] bs by (auto simp: D_def store_bytes_def stream_demo_cache_def)
  have "cache_open (?c\<lparr>cDirty := D\<rparr>) [1, 2, 3]" using c D bs by (simp add: cache_open_def)
  from setIsCached_open [OF this, of 2 1] bs
  obtain D' where c2: "setIsCached (?c\<lparr>cDirty := D\<rparr>) 2 1 = Ok (?c\<lparr>cDirty := D'\<rparr>)" by auto
  have "stream_short_read = \<lparr>ftSession = notifyWaiters ((newFetchSession 0 3)\<lparr>fsWaiters := [(4, 0)], fsNextCh := 1,
      fsBytesReady := 2\<rparr>) None, ftCache = ?c\<lparr>cDirty := D'\<rparr>, ftPhase = Exited None\<rparr>"
    unfolding stream_short_registered_eq using c1 c2 bs
    by (simp add: progressStep_def markProgress_def newFetchSession_def Let_def)
  then show "ftPhase stream_short_read = Exited None" "cBlockSize (ftCache stream_short_read) = 2"
    "fsWaiters (ftSession stream_short_read) = [(4, 0)]" "fsFetchErr (ftSession stream_short_read) = None"
    using bs by (simp_all add: notifyWaiters_def terminated_def newFetchSession_def)
qed

lemma stream_short_reach: "fetch_reach True [1, 2, 3] 16 stream_demo_short (endFetch stream_short_read None)"
proof (rule fetch_next [OF fetch_next [OF fetch_next [OF fetch_init]]])
  show "fetch_step True [1, 2, 3] 16 stream_demo_short stream_short_registered"
    by (rule ft_register) (simp_all add: stream_demo_short_def startFetch_def newFetchSession_def)
  show "fetch_step True [1, 2, 3] 16 stream_short_registered stream_short_read"
    by (rule ft_read) (simp_all add: stream_short_registered_eq reader_ok_def newFetchSession_def)
  show "fetch_step True [1, 2, 3] 16 stream_short_read (endFetch stream_short_read None)"
    by (rule ft_end) (rule stream_short_read_eq)
qed

subsection \<open>Readers\<close>

text \<open>
  C18.  No reader of a chunk is forgotten.  Under every interleaving of the fetch with the readers that
  register and with other fetches: while the fetch runs, every waiter that is still registered needs
  bytes that have not arrived; when it is over, in success, failure or panic, nobody is registered and
  each channel that was ever handed out has been closed exactly once.
\<close>

theorem stream_wakes_every_reader:
  assumes "fetch_reach eofLast content batch (startFetch c fetchOff chunkLen opened) f"
  shows "(\<not> terminated (ftSession f) \<longrightarrow> (\<forall>(e, ch) \<in> set (fsWaiters (ftSession f)). fsBytesReady (ftSession f) < e)) \<and>
    (ftPhase f = Over \<longrightarrow> fsWaiters (ftSession f) = [] \<and>
       mset (map (fst \<circ> snd) (fsSent (ftSession f))) = mset [0..<fsNextCh (ftSession f)])"
  using fetch_waits_reach [OF assms fetch_waits_start]
  by (auto simp: fetch_waits_ok_def session_ok_def channels_def)

theorem stream_wakes_every_reader_witness:
  "fsWaiters (ftSession (recoverFetch stream_demo_registered ())) = [] \<and>
   mset (map (fst \<circ> snd) (fsSent (ftSession (recoverFetch stream_demo_registered ())))) =
     mset [0..<fsNextCh (ftSession (recoverFetch stream_demo_registered ()))]"
proof -
  have "fetch_step False stream_demo_content 16 stream_demo_registered (recoverFetch stream_demo_registered ())"
    by (rule ft_recover) (simp add: stream_demo_registered_eq)
  from stream_wakes_every_reader [OF fetch_next [OF fetch_next [OF fetch_init stream_demo_register_step] this]]
  have "ftPhase (recoverFetch stream_demo_registered ()) = Over \<longrightarrow> fsWaiters (ftSession (recoverFetch stream_demo_registered ())) = [] \<and>
     mset (map (fst \<circ> snd) (fsSent (ftSession (recoverFetch stream_demo_registered ())))) =
       mset [0..<fsNextCh (ftSession (recoverFetch stream_demo_registered ()))]" by blast
  moreover have "ftPhase (recoverFetch stream_demo_registered ()) = Over" by (simp add: recoverFetch_def)
  ultimately show ?thesis by blast
qed

text \<open>
  C19.  A reader that is told that its range is there finds it.  For a range inside one chunk that begins at a
  block, whenever the reader's channel was closed without an error, or its registration returned at once,
  the slice of the cache that it asked for returns the bytes of the object, whatever else happens to the
  cache.  The range may reach into the partial block at the end of an object that is not a multiple of the block size
  if the upstream reader returns \<^verbatim>\<open>io.EOF\<close> together with the last bytes (\<open>eofLast\<close>); for a reader
  that does not, it has to end with the complete blocks, because that partial block is lost
  (\<open>stream_loses_partial_block\<close> below).
\<close>

theorem stream_reader_finds_its_bytes:
  assumes start: "fetch_starts content c fetchOff chunkLen"
    and reach: "fetch_reach eofLast content batch (startFetch c fetchOff chunkLen opened) f"
    and range: "fetchOff \<le> off" "0 < len" "off + len \<le> fetchOff + chunkLen" "cBlockSize (ftCache f) dvd off"
    and end_ok: "eofLast \<or> off + len \<le> fetchOff + chunkLen div cBlockSize (ftCache f) * cBlockSize (ftCache f)"
    and told: "(waiterEnd (cBlockSize (ftCache f)) (ftSession f) off len, ch, None) \<in> set (fsSent (ftSession f)) \<or>
      registerAndWait (ftCache f) (ftSession f) off len = (Ok RegReady, s')"
  shows "cache_Slice (ftCache f) off len = Ok (take (nat len) (drop (nat off) content))"
proof -
  let ?s = "ftSession f" and ?c = "ftCache f"
  let ?e = "waiterEnd (cBlockSize ?c) ?s off len" and ?n = "servedLen eofLast (cBlockSize ?c) chunkLen"
  have fd: "fetch_data eofLast content f" by (rule fetch_data_reach [OF reach fetch_data_start [OF start]])
  have chunk: "fsChunkOff ?s = fetchOff" "fsChunkLen ?s = chunkLen"
    using same_chunk_reach [OF reach] by (simp_all add: startFetch_def newFetchSession_def split: option.splits)
  have sh: "fetch_shape content ?s ?c" and sd: "session_data eofLast ?s ?c" using fd by (simp_all add: fetch_data_def)
  have m: "mirrors ?c content" using sh by (simp add: fetch_shape_def)
  then obtain mm where mm: "cache_open ?c mm" by (auto simp: mirrors_def)
  have bs: "0 < cBlockSize ?c" and sz: "cSize ?c + cBlockSize ?c < 9223372036854775808" using mm by (auto simp: cache_open_def)
  have geo: "0 \<le> fetchOff" "off + len \<le> cSize ?c"
    using sh range(3) by (auto simp: fetch_shape_def chunk)
  have e: "off + len \<le> fetchOff + ?e"
    using waiterEnd_covers [OF bs, of ?s off len] geo range sz by (simp add: chunk)
  have n: "off + len \<le> fetchOff + ?n" using end_ok range(3) by (auto simp: servedLen_def)
  have upto: "cached_range ?c off len" if "marked ?c fetchOff (off + len)"
    using that range(1,4) by (auto simp: marked_def cached_range_def)
  have "cached_range ?c off len"
    using told
  proof
    assume "(?e, ch, None) \<in> set (fsSent ?s)"
    then have "marked ?c fetchOff (fetchOff + min ?e ?n)" using sd chunk by (auto simp: session_data_def Let_def)
    then show ?thesis using e n by (intro upto) (auto intro: marked_mono)
  next
    assume reg: "registerAndWait ?c ?s off len = (Ok RegReady, s')"
    show ?thesis
    proof (cases "?e \<le> fsBytesReady ?s")
      case True
      have "marked ?c fetchOff (fetchOff + min (fsBytesReady ?s) ?n)" using sd chunk by (simp add: session_data_def Let_def)
      then show ?thesis using e n True by (intro upto) (auto intro: marked_mono)
    next
      case False
      then have "isCached ?c off len = Ok True"
        using reg bs by (auto simp: registerAndWait_def Let_def split: if_splits go.splits bool.splits option.splits)
      moreover have "isCached ?c off len = Ok (cached_range ?c off len)"
        using geo range mm by (intro isCached_iff [OF mm]) (auto simp: cache_open_def)
      ultimately show ?thesis by simp
    qed
  qed
  then show ?thesis using m geo range by (intro mirrors_slice) auto
qed

theorem stream_reader_finds_its_bytes_witness:
  "cache_Slice (ftCache (endFetch stream_short_read None)) 2 1 = Ok [3]"
proof -
  let ?f = "endFetch stream_short_read None"
  have reach: "fetch_reach True [1, 2, 3] 16 (startFetch (ftCache stream_demo_short) 0 3 None) ?f"
    using stream_short_reach by (simp add: stream_demo_short_def startFetch_def)
  have off: "fsChunkOff (ftSession ?f) = 0"
    using same_chunk_reach [OF reach] by (simp add: startFetch_def newFetchSession_def)
  have bs: "cBlockSize (ftCache ?f) = 2" using stream_short_read_eq(2) by (simp add: endFetch_def)
  have "(4, 0, None) \<in> set (fsSent (ftSession ?f))"
    using stream_short_read_eq(3,4) by (auto simp: endFetch_def setDone_def notifyWaiters_def terminated_def)
  moreover have "waiterEnd 2 (ftSession ?f) 2 1 = 4" by (simp add: waiterEnd_def off)
  ultimately show ?thesis
    using stream_reader_finds_its_bytes [OF stream_short_starts reach, of 2 1 0] bs by simp
qed

subsection \<open>Chunks of a slice\<close>

text \<open>
  A slice waits for exactly its bytes.  The requests that \<^verbatim>\<open>Slice\<close> makes tile the part of the range that
  the object has: every request lies in its chunk, in the range and in the object, and a byte belongs
  to a request if and only if it belongs to the range and to the object.
\<close>

theorem slice_requests_tile:
  assumes "0 \<le> off" "0 < len" "off + len + MemoryChunkSize < 9223372036854775808" "0 \<le> sz"
  shows "\<exists>rs. sliceRequests sz off len = Ok rs \<and>
    (\<forall>(f, o', n) \<in> set rs. 0 < n \<and> f \<le> o' \<and> o' + n \<le> f + MemoryChunkSize \<and> off \<le> o' \<and> o' + n \<le> off + len \<and>
       o' + n \<le> sz \<and> MemoryChunkSize dvd f) \<and>
    (\<forall>x. off \<le> x \<and> x < min (off + len) sz \<longleftrightarrow> (\<exists>(f, o', n) \<in> set rs. o' \<le> x \<and> x < o' + n))"
proof (intro exI conjI allI ballI iffI)
  let ?rs = "requestLoop sz off len (chunk_start off) (chunk_start (off + len - 1))"
  show "sliceRequests sz off len = Ok ?rs" by (rule sliceRequests_Ok [OF assms(1-3)])
  note inside = requests_inside [OF assms] and cover = requests_cover [OF assms]
  show "case r of (f, o', n) \<Rightarrow> 0 < n \<and> f \<le> o' \<and> o' + n \<le> f + MemoryChunkSize \<and> off \<le> o' \<and>
      o' + n \<le> off + len \<and> o' + n \<le> sz \<and> MemoryChunkSize dvd f" if "r \<in> set ?rs" for r
  proof -
    obtain f o' n where "r = (f, o', n)" by (cases r) auto
    with inside [of f o' n] that show ?thesis by simp
  qed
  show "\<exists>(f, o', n) \<in> set ?rs. o' \<le> x \<and> x < o' + n" if "off \<le> x \<and> x < min (off + len) sz" for x
    using that by (intro cover) simp_all
  show "off \<le> x" "x < min (off + len) sz" if "\<exists>(f, o', n) \<in> set ?rs. o' \<le> x \<and> x < o' + n" for x
  proof -
    from that obtain f o' n where "(f, o', n) \<in> set ?rs" "o' \<le> x" "x < o' + n" by blast
    with inside [OF this(1)] show "off \<le> x" "x < min (off + len) sz" by linarith+
  qed
qed

theorem slice_requests_tile_witness:
  "\<exists>rs. sliceRequests 5000000 4194000 1000 = (Ok rs :: (cache_error, _) go) \<and>
    (\<exists>r \<in> set rs. fst (snd r) \<le> 4194500 \<and> 4194500 < fst (snd r) + snd (snd r))"
proof -
  have "4194000 + 1000 + MemoryChunkSize < 9223372036854775808" by (simp add: MemoryChunkSize_def)
  from slice_requests_tile [OF _ _ this, of 5000000] obtain rs where
    rs: "sliceRequests 5000000 4194000 1000 = (Ok rs :: (cache_error, _) go)"
    and all: "\<forall>x. 4194000 \<le> x \<and> x < min (4194000 + 1000) 5000000 \<longleftrightarrow>
      (\<exists>(f, o', n) \<in> set rs. o' \<le> x \<and> x < o' + (n :: int))"
    by auto
  from spec [OF all, of 4194500] have "\<exists>(f, o', n) \<in> set rs. o' \<le> 4194500 \<and> 4194500 < o' + n" by simp
  with rs show ?thesis by (auto simp: split_def)
qed

subsection \<open>A partial last block\<close>

text \<open>
  A last block that is not full can be lost.  When the length of the chunk is not a multiple of the
  block size and the reader delivers the last bytes without \<^verbatim>\<open>io.EOF\<close>, the fetch ends in success and every
  waiter is told so, but the last block is not marked: the slice of a reader that waited for it fails
  with \<^verbatim>\<open>BytesNotAvailableError\<close>.
\<close>

theorem stream_loses_partial_block:
  assumes m: "mirrors (ftCache f) content" and geo: "0 \<le> fsChunkOff (ftSession f)"
      "fsChunkOff (ftSession f) + fsChunkLen (ftSession f) = cSize (ftCache f)" "cBlockSize (ftCache f) dvd fsChunkOff (ftSession f)"
    and part: "\<not> cBlockSize (ftCache f) dvd fsChunkLen (ftSession f)"
    and last: "lastBlock = fsChunkOff (ftSession f) + fsChunkLen (ftSession f) div cBlockSize (ftCache f) * cBlockSize (ftCache f)"
      "lastBlock \<notin> cDirty (ftCache f)"
    and pos: "0 \<le> p" "0 \<le> t" "p * cBlockSize (ftCache f) \<le> t" "t + int (length data) = fsChunkLen (ftSession f)"
    and data: "data = take (length data) (drop (nat (fsChunkOff (ftSession f) + t)) content)"
    and f': "f' = endFetch (progressStep f t p data ReadNil) None"
  shows "ftPhase (progressStep f t p data ReadNil) = Exited None \<and>
    terminated (ftSession f') \<and> fsWaiters (ftSession f') = [] \<and>
    cache_Slice (ftCache f') lastBlock (cSize (ftCache f') - lastBlock) = Fail BytesNotAvailable"
proof -
  define s c where "s = ftSession f" and "c = store_bytes (ftCache f) (fsChunkOff s + t) data"
  let ?bs = "cBlockSize (ftCache f)" and ?l = "fsChunkLen s" and ?o = "fsChunkOff s"
  have bs: "0 < ?bs" using m by (auto simp: mirrors_def cache_open_def)
  have l: "0 \<le> ?l" using pos by (simp add: s_def)
  have off: "0 \<le> ?o + t" "?o + t + int (length data) \<le> int (length content)"
    using geo m pos by (auto simp: s_def mirrors_def)
  note st = mirrors_store [OF m off(1) off(2) data [folded s_def]]
  have cbs: "cBlockSize c = ?bs" "cSize c = cSize (ftCache f)" using st(3) by (simp_all add: c_def same_shape_def)
  obtain mm where mm: "cache_open c mm" using st(1) by (auto simp: c_def mirrors_def)
  have q: "p \<le> ?l div ?bs" "?l div ?bs * ?bs < ?l"
  proof -
    have "?l div ?bs * ?bs \<noteq> ?l" using part by (metis dvd_triv_right s_def)
    then show "?l div ?bs * ?bs < ?l" using mult_div_le_int [OF bs, of ?l] by (simp add: mult.commute)
    have "p * ?bs \<le> ?l" using pos by (simp add: s_def)
    then show "p \<le> ?l div ?bs" using bs by (simp add: mult_le_iff_le_div)
  qed
  have lB: "lastBlock = ?o + ?l div ?bs * ?bs" "lastBlock \<notin> cDirty c" "lastBlock < cSize c" "0 \<le> lastBlock"
    using last q geo st(2) l bs cbs by (auto simp: s_def c_def pos_imp_zdiv_nonneg_iff)
  obtain c1 s1 where mp: "markProgress c s ?l p = (Ok c1, s1, ?l div ?bs)" and c1: "cache_open c1 mm" "same_shape c c1"
    "cDirtyFile c1 = cDirtyFile c" "fsChunkLen s1 = ?l" "cDirty c1 \<subseteq> cDirty c \<union> {k. k < lastBlock}"
    using markProgress_below [OF mm, of s p ?l] geo pos q l cbs lB(1) by (auto simp: s_def)
  have step: "progressStep f t p data ReadNil = \<lparr>ftSession = s1, ftCache = c1, ftPhase = Exited None\<rparr>"
    using mp pos(4) by (simp add: progressStep_def s_def c_def Let_def)
  have "lastBlock \<notin> cDirty c1" "lastBlock < cSize c1" using c1(2,5) lB by (auto simp: same_shape_def)
  then have "\<not> cached_range c1 lastBlock (cSize c1 - lastBlock)"
    unfolding cached_range_def by (auto intro!: exI [of _ 0])
  moreover have "\<not> cDirtyFile c1" using c1(3) st(1) by (simp add: mirrors_def c_def)
  moreover have "lastBlock + (cSize c1 - lastBlock) < 9223372036854775808" using c1(1) by (auto simp: cache_open_def)
  ultimately have "cache_Slice c1 lastBlock (cSize c1 - lastBlock) = Fail BytesNotAvailable"
    using cache_Slice_open [OF c1(1) lB(4), of "cSize c1 - lastBlock"] \<open>lastBlock < cSize c1\<close> by simp
  moreover have "fsWaiters (setDone s1) = []" by (simp add: setDone_def notifyWaiters_def terminated_def)
  ultimately show ?thesis
    unfolding f' step by (simp add: endFetch_def terminated_setDone)
qed

theorem stream_loses_partial_block_witness:
  "cache_Slice (ftCache (endFetch (progressStep stream_demo_short 0 0 [1, 2, 3] ReadNil) None)) 2
     (cSize (ftCache (endFetch (progressStep stream_demo_short 0 0 [1, 2, 3] ReadNil) None)) - 2) = Fail BytesNotAvailable"
proof -
  have m: "mirrors (ftCache stream_demo_short) [1, 2, 3]"
    by (simp add: mirrors_def cache_open_def cache_aligned_def stream_demo_cache_def MemoryChunkSize_def stream_demo_short_def startFetch_def)
  have "ftPhase (progressStep stream_demo_short 0 0 [1, 2, 3] ReadNil) = Exited None \<and>
    terminated (ftSession (endFetch (progressStep stream_demo_short 0 0 [1, 2, 3] ReadNil) None)) \<and>
    fsWaiters (ftSession (endFetch (progressStep stream_demo_short 0 0 [1, 2, 3] ReadNil) None)) = [] \<and>
    cache_Slice (ftCache (endFetch (progressStep stream_demo_short 0 0 [1, 2, 3] ReadNil) None)) 2
     (cSize (ftCache (endFetch (progressStep stream_demo_short 0 0 [1, 2, 3] ReadNil) None)) - 2) = Fail BytesNotAvailable"
    by (rule stream_loses_partial_block [OF m _ _ _ _ _ _ _ _ _ _ _ refl])
      (simp_all add: stream_demo_short_def startFetch_def newFetchSession_def stream_demo_cache_def)
  then show ?thesis by (elim conjE)
qed

end
