(* ===== verification/Error_Once.thy ===== *)
theory Error_Once
  imports Set_Once
begin

text \<open>
  \<^verbatim>\<open>ErrorOnce\<close> of \<^verbatim>\<open>packages/shared/pkg/utils/error_once.go\<close>: a \<^verbatim>\<open>SetOnce\<close> without a value.  The error
  that is set may be nil, \<open>None\<close> here, which is the successful end.
\<close>

type_synonym 'e ErrorOnce = "('e, unit) SetOnce"

definition NewErrorOnce :: "'e ErrorOnce" where
  "NewErrorOnce = NewSetOnce"

definition eo_SetError :: "'e ErrorOnce \<Rightarrow> 'e option \<Rightarrow> ('e once_error, unit) go \<times> 'e ErrorOnce" where
  "eo_SetError s err = setResult s (case err of Some e \<Rightarrow> Inl e | None \<Rightarrow> Inr ())"

definition eo_SetSuccess :: "'e ErrorOnce \<Rightarrow> ('e once_error, unit) go \<times> 'e ErrorOnce" where
  "eo_SetSuccess s = eo_SetError s None"

definition eo_Wait :: "'e ErrorOnce \<Rightarrow> ('e once_error, unit) go option" where
  "eo_Wait s = Wait s"

definition eo_Error :: "'e ErrorOnce \<Rightarrow> ('e once_error, unit) go" where
  "eo_Error s = Result s"

definition eo_WaitWithContext :: "bool \<Rightarrow> bool \<Rightarrow> 'e ErrorOnce \<Rightarrow> ('e once_error, unit) go option" where
  "eo_WaitWithContext ctxDone preferCtx s = WaitWithContext ctxDone preferCtx s"

definition eo_Done :: "'e ErrorOnce \<Rightarrow> bool" where
  "eo_Done s = soDone s"

definition eo_ok :: "'e ErrorOnce \<Rightarrow> bool" where
  "eo_ok s \<longleftrightarrow> once_ok s"

lemma eo_New [simp]: "\<not> eo_Done NewErrorOnce" "eo_ok NewErrorOnce"
  by (simp_all add: eo_Done_def NewErrorOnce_def NewSetOnce_def eo_ok_def once_ok_def)

lemma eo_SetError_first:
  assumes "eo_ok s" "\<not> eo_Done s"
  shows "fst (eo_SetError s err) = Ok ()" "eo_Done (snd (eo_SetError s err))" "eo_ok (snd (eo_SetError s err))"
    "eo_Wait (snd (eo_SetError s err)) = Some (case err of None \<Rightarrow> Ok () | Some e \<Rightarrow> Fail (OnceErr e))"
    "eo_WaitWithContext False pref (snd (eo_SetError s err)) =
       Some (case err of None \<Rightarrow> Ok () | Some e \<Rightarrow> Fail (OnceErr e))"
  using assms
  by (auto simp: eo_SetError_def eo_ok_def eo_Done_def once_ok_def setResult_def eo_Wait_def Wait_def
      eo_WaitWithContext_def WaitWithContext_def Result_def split: option.splits)

lemma eo_WaitWithContext_blocks:
  "eo_WaitWithContext ctxDone pref s = None \<longleftrightarrow> \<not> eo_Done s \<and> \<not> ctxDone"
  by (auto simp: eo_WaitWithContext_def WaitWithContext_def eo_Done_def)

lemma eo_WaitWithContext_Result:
  "eo_WaitWithContext ctxDone pref s = Some r \<Longrightarrow> r \<noteq> Fail OnceCtxDone \<Longrightarrow> eo_Done s \<and> r = eo_Error s"
  by (auto simp: eo_WaitWithContext_def WaitWithContext_def eo_Done_def eo_Error_def split: if_splits)

end
