(* ===== verification/Sandbox_State.thy ===== *)
theory Sandbox_State
  imports Header_Mapping Error_Once
begin

text \<open>
  The sandbox record of the API server and its states: \<^verbatim>\<open>packages/api/internal/sandbox\<close>, files
  \<^verbatim>\<open>states.go\<close>, \<^verbatim>\<open>sandbox.go\<close> and \<^verbatim>\<open>errors.go\<close>, and the configuration types of \<^verbatim>\<open>packages/db/pkg/types\<close>.

  A \<^verbatim>\<open>time.Time\<close> is a number of nanoseconds; a \<^verbatim>\<open>time.Duration\<close> is a 64-bit number of nanoseconds, and
  \<open>time_Sub\<close> saturates as \<^verbatim>\<open>Time.Sub\<close> does.  The clock is an argument: every call of \<^verbatim>\<open>time.Now\<close> is an
  instant that the caller supplies.
\<close>

type_synonym time = int
type_synonym duration = int

definition time_Second :: duration where "time_Second = 1000000000"

definition time_Sub :: "time \<Rightarrow> time \<Rightarrow> duration" where
  "time_Sub t u = max (- 9223372036854775808) (min 9223372036854775807 (t - u))"

lemma time_Sub_cases: "time_Sub t u > d \<Longrightarrow> - 9223372036854775808 \<le> d \<Longrightarrow> t - u > d"
  by (simp add: time_Sub_def max_def min_def split: if_splits)

lemma time_Sub_le: "time_Sub t u \<le> d \<Longrightarrow> d < 9223372036854775807 \<Longrightarrow> t - u \<le> d"
  by (simp add: time_Sub_def max_def min_def split: if_splits)

subsection \<open>States and transitions\<close>

datatype State = StateRunning | StatePausing | StateKilling | StateSnapshotting

datatype TransitionEffect = TransitionExpires | TransitionTransient

record StateAction =
  actName :: string
  actTargetState :: State
  actEffect :: TransitionEffect

definition StateActionPause :: StateAction where
  "StateActionPause = \<lparr>actName = ''pause'', actTargetState = StatePausing, actEffect = TransitionExpires\<rparr>"

definition StateActionKill :: StateAction where
  "StateActionKill = \<lparr>actName = ''kill'', actTargetState = StateKilling, actEffect = TransitionExpires\<rparr>"

definition StateActionSnapshot :: StateAction where
  "StateActionSnapshot =
     \<lparr>actName = ''snapshot'', actTargetState = StateSnapshotting, actEffect = TransitionTransient\<rparr>"

lemmas StateAction_defs = StateActionPause_def StateActionKill_def StateActionSnapshot_def

record RemoveOpts =
  roAction :: StateAction
  roEviction :: bool

text \<open>
  The nested map: a state with no row, or a row with no entry for the target, reads as \<^verbatim>\<open>false\<close>.  Every
  entry is \<^verbatim>\<open>true\<close>, so that the source's two ways of reading it, the value and the presence, agree.
\<close>

definition AllowedTransitions :: "State \<Rightarrow> State \<Rightarrow> bool" where
  "AllowedTransitions s t =
     (case s of
        StateRunning \<Rightarrow> t \<in> {StatePausing, StateKilling, StateSnapshotting}
      | StatePausing \<Rightarrow> t \<in> {StateKilling}
      | StateSnapshotting \<Rightarrow> t \<in> {StateRunning, StateKilling, StatePausing}
      | StateKilling \<Rightarrow> False)"

text \<open>How far a sandbox is on its way out; no transition but the end of a snapshot goes back.\<close>

fun state_rank :: "State \<Rightarrow> nat" where
  "state_rank StateRunning = 0"
| "state_rank StateSnapshotting = 0"
| "state_rank StatePausing = 1"
| "state_rank StateKilling = 2"

lemma AllowedTransitions_rank: "AllowedTransitions s t \<Longrightarrow> state_rank s \<le> state_rank t"
  by (cases s) (auto simp: AllowedTransitions_def)

lemma AllowedTransitions_Killing [simp]: "\<not> AllowedTransitions StateKilling t"
  by (simp add: AllowedTransitions_def)

subsection \<open>Errors\<close>

text \<open>
  \<open>'x\<close> are the errors of calls outside this component.  Wrapping with \<^verbatim>\<open>%w\<close> keeps the wrapped error
  visible to \<^verbatim>\<open>errors.Is\<close>: the sentinel errors are their own constructors, \<open>FailedState\<close> carries the
  error of the transition.
\<close>

datatype 'x sandbox_error =
    LimitExceededError uuid
  | ErrNotFound
  | InvalidStateTransitionError (eiCurrent: State) (eiTarget: State)
  | NotRunningError string State
  | ErrAlreadyExists
  | ErrEvictionInProgress
  | ErrEvictionNotNeeded
  | ErrNotExist string
  | FailedState "'x once_error"
  | UnexpectedTransition
  | ErrMaxInstanceLength
  | OtherError 'x

subsection \<open>The sandbox\<close>

record SandboxNetworkEgressConfig =
  egAllowed :: "string list"
  egDenied :: "string list"

record SandboxNetworkIngressConfig =
  inAllowPublicAccess :: "bool option"
  inMaskRequestHost :: "string option"

record SandboxNetworkConfig =
  ncEgress :: "SandboxNetworkEgressConfig option"
  ncIngress :: "SandboxNetworkIngressConfig option"

record SandboxVolumeMountConfig =
  vmID :: string
  vmType :: string
  vmName :: string
  vmPath :: string

record SandboxAutoResumeConfig =
  arPolicy :: string
  arTimeout :: int

record Sandbox =
  SandboxID :: string
  TemplateID :: string
  ClientID :: string
  Alias :: "string option"
  Domain :: "string option"
  ExecutionID :: string
  TeamID :: uuid
  BuildID :: uuid
  BaseTemplateID :: string
  sMetadata :: "string \<rightharpoonup> string"
  MaxInstanceLength :: duration
  StartTime :: time
  EndTime :: time
  VCpu :: int
  TotalDiskSizeMB :: int
  RamMB :: int
  KernelVersion :: string
  FirecrackerVersion :: string
  EnvdVersion :: string
  EnvdAccessToken :: "string option"
  TrafficAccessToken :: "string option"
  AllowInternetAccess :: "bool option"
  NodeID :: string
  ClusterID :: uuid
  AutoPause :: bool
  AutoResume :: "SandboxAutoResumeConfig option"
  Network :: "SandboxNetworkConfig option"
  VolumeMounts :: "SandboxVolumeMountConfig list"
  sState :: State

definition NewSandbox ::
  "string \<Rightarrow> string \<Rightarrow> string \<Rightarrow> string option \<Rightarrow> string \<Rightarrow> uuid \<Rightarrow> uuid \<Rightarrow> (string \<rightharpoonup> string) \<Rightarrow> duration \<Rightarrow>
   time \<Rightarrow> time \<Rightarrow> int \<Rightarrow> int \<Rightarrow> int \<Rightarrow> string \<Rightarrow> string \<Rightarrow> string \<Rightarrow> string \<Rightarrow> uuid \<Rightarrow> bool \<Rightarrow>
   SandboxAutoResumeConfig option \<Rightarrow> string option \<Rightarrow> bool option \<Rightarrow> string \<Rightarrow> string option \<Rightarrow>
   SandboxNetworkConfig option \<Rightarrow> string option \<Rightarrow> SandboxVolumeMountConfig list \<Rightarrow> Sandbox" where
  "NewSandbox sandboxID templateID clientID alias executionID teamID buildID metadata maxInstanceLength
     startTime endTime vcpu totalDiskSizeMB ramMB kernelVersion firecrackerVersion envdVersion nodeID clusterID
     autoPause autoResume envdAccessToken allowInternetAccess baseTemplateID domain network
     trafficAccessToken mounts =
     \<lparr>SandboxID = sandboxID, TemplateID = templateID, ClientID = clientID, Alias = alias, Domain = domain,
      ExecutionID = executionID, TeamID = teamID, BuildID = buildID, BaseTemplateID = baseTemplateID,
      sMetadata = metadata, MaxInstanceLength = maxInstanceLength, StartTime = startTime, EndTime = endTime,
      VCpu = vcpu, TotalDiskSizeMB = totalDiskSizeMB, RamMB = ramMB, KernelVersion = kernelVersion,
      FirecrackerVersion = firecrackerVersion, EnvdVersion = envdVersion, EnvdAccessToken = envdAccessToken,
      TrafficAccessToken = trafficAccessToken, AllowInternetAccess = allowInternetAccess, NodeID = nodeID,
      ClusterID = clusterID, AutoPause = autoPause, AutoResume = autoResume, Network = network,
      VolumeMounts = mounts, sState = StateRunning\<rparr>"

definition IsExpired :: "Sandbox \<Rightarrow> time \<Rightarrow> bool" where
  "IsExpired s now \<longleftrightarrow> now > EndTime s"

end
