(* ===== verification/Sandbox_Memory.thy ===== *)
theory Sandbox_Memory
  imports Sandbox_State
begin

text \<open>
  One sandbox of the in-memory storage, \<^verbatim>\<open>packages/api/internal/sandbox/storage/memory\<close>: \<^verbatim>\<open>sandbox.go\<close> and
  the transition protocol of \<^verbatim>\<open>operations.go\<close>, with the two update functions that
  \<^verbatim>\<open>packages/api/internal/orchestrator\<close> hands to \<^verbatim>\<open>Update\<close>.

  The goroutines of the API server share the object.  Each section that runs under its mutex is one
  definition, and so one step: \<open>startRemoving_enter\<close> is \<^verbatim>\<open>startRemoving\<close> up to its return or its wait,
  \<open>startRemoving_woken\<close> what follows the wait, \<open>finishTransition\<close> the callback that the caller who started
  a transition has to run.  \<^verbatim>\<open>transition\<close> is a pointer: \<open>msOnces\<close> holds the \<^verbatim>\<open>ErrorOnce\<close> objects in the
  order of their creation and the pointer is an index into it, so that a goroutine which still waits on
  an earlier transition keeps its object.
\<close>

record 'x memorySandbox =
  msData :: Sandbox
  msTransition :: "nat option"
  msOnces :: "'x ErrorOnce list"

definition newMemorySandbox :: "Sandbox \<Rightarrow> 'x memorySandbox" where
  "newMemorySandbox sbx = \<lparr>msData = sbx, msTransition = None, msOnces = []\<rparr>"

definition expireData :: "time \<Rightarrow> Sandbox \<Rightarrow> Sandbox" where
  "expireData now d = (if \<not> IsExpired d now then d\<lparr>EndTime := now\<rparr> else d)"

definition ms_SetExpired :: "time \<Rightarrow> 'x memorySandbox \<Rightarrow> 'x memorySandbox" where
  "ms_SetExpired now s = s\<lparr>msData := expireData now (msData s)\<rparr>"

definition ms_State :: "'x memorySandbox \<Rightarrow> State" where
  "ms_State s = sState (msData s)"

lemma expireData_simps [simp]:
  "sState (expireData now d) = sState d" "TeamID (expireData now d) = TeamID d"
  "SandboxID (expireData now d) = SandboxID d" "NodeID (expireData now d) = NodeID d"
  "StartTime (expireData now d) = StartTime d" "MaxInstanceLength (expireData now d) = MaxInstanceLength d"
  by (simp_all add: expireData_def)

lemma EndTime_expireData: "EndTime (expireData now d) = min now (EndTime d)"
  by (auto simp: expireData_def IsExpired_def)

subsection \<open>Starting and finishing a transition\<close>

datatype callback = NoopCallback | FinishCallback StateAction

datatype 'x start_outcome =
    Returns "('x sandbox_error, bool \<times> callback) go"
  | WaitsFor nat State

text \<open>\<open>now\<close> is the clock of the expiry check, \<open>now'\<close> the clock in \<^verbatim>\<open>setExpired\<close>.\<close>

definition startRemoving_enter ::
  "time \<Rightarrow> time \<Rightarrow> 'x memorySandbox \<Rightarrow> RemoveOpts \<Rightarrow> 'x start_outcome \<times> 'x memorySandbox" where
  "startRemoving_enter now now' s opts =
     (if roEviction opts \<and> msTransition s \<noteq> None then (Returns (Fail ErrEvictionInProgress), s)
      else if roEviction opts \<and> \<not> IsExpired (msData s) now then (Returns (Fail ErrEvictionNotNeeded), s)
      else
        (let newState = actTargetState (roAction opts); currentState = sState (msData s)
         in (case msTransition s of
               Some t \<Rightarrow>
                 if currentState \<noteq> newState \<and> \<not> AllowedTransitions currentState newState
                 then (Returns (Fail (InvalidStateTransitionError currentState newState)), s)
                 else (WaitsFor t currentState, s)
             | None \<Rightarrow>
                 if currentState = newState then (Returns (Ok (True, NoopCallback)), s)
                 else if \<not> AllowedTransitions currentState newState
                 then (Returns (Fail (InvalidStateTransitionError currentState newState)), s)
                 else
                   (let d = (if actEffect (roAction opts) = TransitionExpires then expireData now' (msData s)
                             else msData s)
                    in (Returns (Ok (False, FinishCallback (roAction opts))),
                        s\<lparr>msData := d\<lparr>sState := newState\<rparr>,
                          msTransition := Some (length (msOnces s)),
                          msOnces := msOnces s @ [NewErrorOnce]\<rparr>)))))"

text \<open>After the wait: return, or call \<^verbatim>\<open>startRemoving\<close> again without the eviction flag.\<close>

datatype 'x woken_outcome = WokenReturns "('x sandbox_error, bool \<times> callback) go" | WokenRetries RemoveOpts

definition startRemoving_woken ::
  "('x once_error, unit) go \<Rightarrow> State \<Rightarrow> RemoveOpts \<Rightarrow> 'x woken_outcome" where
  "startRemoving_woken r currentState opts =
     (case r of
        Fail e \<Rightarrow> WokenReturns (Fail (FailedState e))
      | Panic \<Rightarrow> WokenReturns Panic
      | Ok _ \<Rightarrow>
          (let newState = actTargetState (roAction opts)
           in if currentState = newState then WokenReturns (Ok (True, NoopCallback))
              else if AllowedTransitions currentState newState
              then WokenRetries \<lparr>roAction = roAction opts, roEviction = False\<rparr>
              else WokenReturns (Fail UnexpectedTransition)))"

text \<open>
  The callback.  The result of \<^verbatim>\<open>SetError\<close> is only logged; with no transition in place the call
  dereferences nil, after the state has been restored.
\<close>

definition finishTransition ::
  "StateAction \<Rightarrow> 'x option \<Rightarrow> 'x memorySandbox \<Rightarrow> ('x sandbox_error, unit) go \<times> 'x memorySandbox" where
  "finishTransition action err s =
     (let transient = (actEffect action = TransitionTransient);
          d = (if transient \<and> err = None \<and> sState (msData s) = actTargetState action
               then (msData s)\<lparr>sState := StateRunning\<rparr> else msData s);
          err' = (if transient then None else err);
          s1 = s\<lparr>msData := d\<rparr>
      in (case msTransition s of
            None \<Rightarrow> (Panic, s1)
          | Some t \<Rightarrow>
              (let s2 = s1\<lparr>msOnces := (msOnces s)[t := snd (eo_SetError (msOnces s ! t) err')]\<rparr>
               in (Ok (), if err' \<noteq> None then s2 else s2\<lparr>msTransition := None\<rparr>))))"

text \<open>\<^verbatim>\<open>waitForStateChange\<close> reads the pointer under the lock and then waits.\<close>

definition waitForStateChange ::
  "bool \<Rightarrow> bool \<Rightarrow> 'x memorySandbox \<Rightarrow> 'x memorySandbox \<Rightarrow> ('x once_error, unit) go option" where
  "waitForStateChange ctxDone preferCtx atRead later =
     (case msTransition atRead of
        None \<Rightarrow> Some (Ok ())
      | Some t \<Rightarrow> eo_WaitWithContext ctxDone preferCtx (msOnces later ! t))"

subsection \<open>Updates\<close>

text \<open>\<^verbatim>\<open>Storage.Update\<close> on the object it found; the caller's function sees the data under the lock.\<close>

definition ms_Update ::
  "uuid \<Rightarrow> (Sandbox \<Rightarrow> ('x sandbox_error, Sandbox) go) \<Rightarrow> 'x memorySandbox \<Rightarrow>
   ('x sandbox_error, Sandbox) go \<times> 'x memorySandbox" where
  "ms_Update teamID updateFunc s =
     (if TeamID (msData s) \<noteq> teamID then (Fail ErrNotFound, s)
      else (case updateFunc (msData s) of
              Ok sbx \<Rightarrow> (Ok sbx, s\<lparr>msData := sbx\<rparr>)
            | Fail e \<Rightarrow> (Fail e, s)
            | Panic \<Rightarrow> (Panic, s)))"

definition getMaxAllowedTTL :: "time \<Rightarrow> time \<Rightarrow> duration \<Rightarrow> duration \<Rightarrow> duration" where
  "getMaxAllowedTTL now startTime dur maxInstanceLength =
     (let timeLeft = i64 (maxInstanceLength - time_Sub now startTime)
      in if timeLeft \<le> 0 then 0 else min timeLeft dur)"

text \<open>The update function of \<^verbatim>\<open>KeepAliveFor\<close>; \<open>now'\<close> is the clock that \<^verbatim>\<open>time.Since\<close> reads.\<close>

definition keepAliveUpdate ::
  "time \<Rightarrow> time \<Rightarrow> string \<Rightarrow> duration \<Rightarrow> bool \<Rightarrow> Sandbox \<Rightarrow> ('x sandbox_error, Sandbox) go" where
  "keepAliveUpdate now now' sandboxID dur allowShorter sbx =
     (if sState sbx \<noteq> StateRunning then Fail (NotRunningError sandboxID (sState sbx))
      else
        (let ttl = getMaxAllowedTTL now (StartTime sbx) dur (MaxInstanceLength sbx); endTime = now + ttl
         in if time_Sub now' (StartTime sbx) > MaxInstanceLength sbx then Fail ErrMaxInstanceLength
            else if \<not> allowShorter \<and> endTime < EndTime sbx then Ok sbx
            else Ok (sbx\<lparr>EndTime := endTime\<rparr>)))"

text \<open>The update function of \<^verbatim>\<open>UpdateSandboxNetworkConfig\<close>.\<close>

definition networkUpdate ::
  "string \<Rightarrow> string list \<Rightarrow> string list \<Rightarrow> Sandbox \<Rightarrow> ('x sandbox_error, Sandbox) go" where
  "networkUpdate sandboxID allowedEntries deniedEntries sbx =
     (if sState sbx \<noteq> StateRunning then Fail (NotRunningError sandboxID (sState sbx))
      else
        (let net = (case Network sbx of None \<Rightarrow> \<lparr>ncEgress = None, ncIngress = None\<rparr> | Some n \<Rightarrow> n)
         in Ok (sbx\<lparr>Network :=
              Some (net\<lparr>ncEgress := Some \<lparr>egAllowed = allowedEntries, egDenied = deniedEntries\<rparr>\<rparr>)\<rparr>)))"

text \<open>What every update function of the server keeps.\<close>

definition keeps_state :: "(Sandbox \<Rightarrow> ('x sandbox_error, Sandbox) go) \<Rightarrow> bool" where
  "keeps_state f \<longleftrightarrow> (\<forall>d d'. f d = Ok d' \<longrightarrow>
     sState d = StateRunning \<and> sState d' = StateRunning \<and> SandboxID d' = SandboxID d \<and> TeamID d' = TeamID d)"

lemma keeps_state_keepAlive: "keeps_state (keepAliveUpdate now now' i dur short)"
  by (auto simp: keeps_state_def keepAliveUpdate_def Let_def split: if_splits)

lemma keeps_state_network: "keeps_state (networkUpdate i allowed denied)"
  by (auto simp: keeps_state_def networkUpdate_def Let_def split: if_splits)

end
