(* ===== verification/Concurrent_Map.thy ===== *)
theory Concurrent_Map
  imports E2B_Prelude "HOL-Library.AList"
begin

text \<open>
  The sharded map \<^verbatim>\<open>github.com/orcaman/concurrent-map/v2\<close> and its wrapper \<^verbatim>\<open>packages/shared/pkg/smap\<close>.

  The map itself is not part of the repository: its operations are the record \<open>cmap_ops\<close> that the
  definitions of the clients take as an argument, and the locale \<open>concurrent_map\<close> states what its
  documentation promises: \<^verbatim>\<open>Set\<close>, \<^verbatim>\<open>SetIfAbsent\<close>, \<^verbatim>\<open>Upsert\<close>, \<^verbatim>\<open>Remove\<close> and \<^verbatim>\<open>RemoveCb\<close> act on one key, \<^verbatim>\<open>IterCb\<close>
  visits every key once, in an order of its own.  A callback of \<^verbatim>\<open>Upsert\<close> or \<^verbatim>\<open>RemoveCb\<close> runs under the
  lock of its shard; what the source's closure assigns to captured variables is the extra result
  \<open>'r\<close> of the callback.
\<close>

record ('m, 'v) cmap_ops =
  cm_New :: 'm
  cm_Get :: "'m \<Rightarrow> string \<Rightarrow> 'v option"
  cm_Set :: "'m \<Rightarrow> string \<Rightarrow> 'v \<Rightarrow> 'm"
  cm_Remove :: "'m \<Rightarrow> string \<Rightarrow> 'm"
  cm_Keys :: "'m \<Rightarrow> string list"

locale concurrent_map =
  fixes cm :: "('m, 'v) cmap_ops"
  assumes Get_New: "cm_Get cm (cm_New cm) k = None"
    and Get_Set: "cm_Get cm (cm_Set cm m k v) k' = (if k' = k then Some v else cm_Get cm m k')"
    and Get_Remove: "cm_Get cm (cm_Remove cm m k) k' = (if k' = k then None else cm_Get cm m k')"
    and set_Keys: "set (cm_Keys cm m) = {k. cm_Get cm m k \<noteq> None}"
    and distinct_Keys: "distinct (cm_Keys cm m)"

subsection \<open>The other operations, as the documentation describes them in terms of these\<close>

definition cm_Has :: "('m, 'v) cmap_ops \<Rightarrow> 'm \<Rightarrow> string \<Rightarrow> bool" where
  "cm_Has cm m k \<longleftrightarrow> cm_Get cm m k \<noteq> None"

definition cm_SetIfAbsent :: "('m, 'v) cmap_ops \<Rightarrow> 'm \<Rightarrow> string \<Rightarrow> 'v \<Rightarrow> bool \<times> 'm" where
  "cm_SetIfAbsent cm m k v = (if cm_Has cm m k then (False, m) else (True, cm_Set cm m k v))"

definition cm_Upsert :: "('m, 'v) cmap_ops \<Rightarrow> 'm \<Rightarrow> string \<Rightarrow> ('v option \<Rightarrow> 'r \<times> 'v) \<Rightarrow> 'r \<times> 'm" where
  "cm_Upsert cm m k cb = (let (r, v) = cb (cm_Get cm m k) in (r, cm_Set cm m k v))"

text \<open>
  The callback of \<^verbatim>\<open>RemoveCb\<close> says whether the key goes; before that it may have changed the value in
  place, which is the value it returns.
\<close>

definition cm_RemoveCb :: "('m, 'v) cmap_ops \<Rightarrow> 'm \<Rightarrow> string \<Rightarrow> ('v option \<Rightarrow> bool \<times> 'v option) \<Rightarrow> 'm" where
  "cm_RemoveCb cm m k cb =
     (let (gone, v') = cb (cm_Get cm m k);
          m' = (case (cm_Get cm m k, v') of (Some _, Some v) \<Rightarrow> cm_Set cm m k v | _ \<Rightarrow> m)
      in if gone \<and> cm_Get cm m k \<noteq> None then cm_Remove cm m' k else m')"

definition cm_Items :: "('m, 'v) cmap_ops \<Rightarrow> 'm \<Rightarrow> (string \<times> 'v) list" where
  "cm_Items cm m = map (\<lambda>k. (k, the (cm_Get cm m k))) (cm_Keys cm m)"

definition cm_Count :: "('m, 'v) cmap_ops \<Rightarrow> 'm \<Rightarrow> int" where
  "cm_Count cm m = int (length (cm_Keys cm m))"

context concurrent_map
begin

lemma Has_iff: "cm_Has cm m k \<longleftrightarrow> k \<in> set (cm_Keys cm m)"
  by (simp add: cm_Has_def set_Keys)

lemma Items_mem: "(k, v) \<in> set (cm_Items cm m) \<longleftrightarrow> cm_Get cm m k = Some v"
  by (auto simp: cm_Items_def set_Keys image_iff)

lemma distinct_Items: "distinct (map fst (cm_Items cm m))"
  by (simp add: cm_Items_def comp_def distinct_Keys)

lemma Get_SetIfAbsent:
  "cm_Get cm (snd (cm_SetIfAbsent cm m k v)) k' =
     (if k' = k \<and> cm_Get cm m k = None then Some v else cm_Get cm m k')"
  by (auto simp: cm_SetIfAbsent_def cm_Has_def Get_Set)

lemma Get_Upsert:
  "cm_Get cm (snd (cm_Upsert cm m k cb)) k' = (if k' = k then Some (snd (cb (cm_Get cm m k))) else cm_Get cm m k')"
  by (simp add: cm_Upsert_def Get_Set split_def Let_def)

lemma Count_card: "cm_Count cm m = int (card {k. cm_Get cm m k \<noteq> None})"
  by (simp add: cm_Count_def distinct_card [OF distinct_Keys, symmetric] set_Keys)

lemmas cm_laws = Get_New Get_Set Get_Remove Has_iff Items_mem Get_SetIfAbsent Get_Upsert

end

subsection \<open>The wrapper of the repository\<close>

text \<open>\<^verbatim>\<open>smap.Map\<close> hands every call on; it is a concurrent map whenever the wrapped one is.\<close>

definition smap_New :: "('m, 'v) cmap_ops \<Rightarrow> 'm" where
  "smap_New cm = cm_New cm"

definition smap_Remove :: "('m, 'v) cmap_ops \<Rightarrow> 'm \<Rightarrow> string \<Rightarrow> 'm" where
  "smap_Remove cm m key = cm_Remove cm m key"

definition smap_Get :: "('m, 'v) cmap_ops \<Rightarrow> 'm \<Rightarrow> string \<Rightarrow> 'v option" where
  "smap_Get cm m key = cm_Get cm m key"

definition smap_Insert :: "('m, 'v) cmap_ops \<Rightarrow> 'm \<Rightarrow> string \<Rightarrow> 'v \<Rightarrow> 'm" where
  "smap_Insert cm m key v = cm_Set cm m key v"

definition smap_Upsert :: "('m, 'v) cmap_ops \<Rightarrow> 'm \<Rightarrow> string \<Rightarrow> ('v option \<Rightarrow> 'r \<times> 'v) \<Rightarrow> 'r \<times> 'm" where
  "smap_Upsert cm m key cb = cm_Upsert cm m key cb"

definition smap_InsertIfAbsent :: "('m, 'v) cmap_ops \<Rightarrow> 'm \<Rightarrow> string \<Rightarrow> 'v \<Rightarrow> bool \<times> 'm" where
  "smap_InsertIfAbsent cm m key v = cm_SetIfAbsent cm m key v"

definition smap_Items :: "('m, 'v) cmap_ops \<Rightarrow> 'm \<Rightarrow> (string \<times> 'v) list" where
  "smap_Items cm m = cm_Items cm m"

definition smap_RemoveCb :: "('m, 'v) cmap_ops \<Rightarrow> 'm \<Rightarrow> string \<Rightarrow> ('v option \<Rightarrow> bool \<times> 'v option) \<Rightarrow> 'm" where
  "smap_RemoveCb cm m key cb = cm_RemoveCb cm m key cb"

definition smap_Count :: "('m, 'v) cmap_ops \<Rightarrow> 'm \<Rightarrow> int" where
  "smap_Count cm m = cm_Count cm m"

lemmas smap_defs = smap_New_def smap_Remove_def smap_Get_def smap_Insert_def smap_Upsert_def
  smap_InsertIfAbsent_def smap_Items_def smap_RemoveCb_def smap_Count_def

definition smap_ops :: "('m, 'v) cmap_ops \<Rightarrow> ('m, 'v) cmap_ops" where
  "smap_ops cm = \<lparr>cm_New = smap_New cm, cm_Get = smap_Get cm, cm_Set = smap_Insert cm,
     cm_Remove = smap_Remove cm, cm_Keys = (\<lambda>m. map fst (smap_Items cm m))\<rparr>"

lemma smap_concurrent:
  assumes "concurrent_map cm"
  shows "concurrent_map (smap_ops cm)"
proof
  fix m
  show "set (cm_Keys (smap_ops cm) m) = {k. cm_Get (smap_ops cm) m k \<noteq> None}"
    by (simp add: smap_ops_def smap_defs cm_Items_def comp_def concurrent_map.set_Keys [OF assms])
  show "distinct (cm_Keys (smap_ops cm) m)"
    using concurrent_map.distinct_Items [OF assms, of m] by (simp add: smap_ops_def smap_defs)
qed (simp_all add: smap_ops_def smap_defs concurrent_map.Get_New [OF assms]
  concurrent_map.Get_Set [OF assms] concurrent_map.Get_Remove [OF assms])

subsection \<open>A concurrent map over association lists\<close>

definition list_cmap :: "((string \<times> 'v) list, 'v) cmap_ops" where
  "list_cmap = \<lparr>cm_New = [], cm_Get = map_of, cm_Set = (\<lambda>m k v. AList.update k v m),
     cm_Remove = (\<lambda>m k. AList.delete k m), cm_Keys = (\<lambda>m. remdups (map fst m))\<rparr>"

lemma list_cmap_simps [simp]:
  "cm_New list_cmap = []"
  "cm_Get list_cmap m k = map_of m k"
  "cm_Set list_cmap m k v = AList.update k v m"
  "cm_Remove list_cmap m k = AList.delete k m"
  "cm_Keys list_cmap m = remdups (map fst m)"
  by (simp_all add: list_cmap_def)

interpretation list_cmap: concurrent_map list_cmap
proof
  fix m :: "(string \<times> 'v) list"
  show "set (cm_Keys list_cmap m) = {k. cm_Get list_cmap m k \<noteq> None}"
    by (simp add: map_of_eq_None_iff)
qed (simp_all add: update_conv' delete_conv')

interpretation list_smap: concurrent_map "smap_ops list_cmap"
  by (rule smap_concurrent) (rule list_cmap.concurrent_map_axioms)

end
