(* ===== verification/Sandbox_Storage.thy ===== *)
theory Sandbox_Storage
  imports Sandbox_Memory Concurrent_Map
begin

text \<open>
  The in-memory storage of all sandboxes: \<^verbatim>\<open>operations.go\<close>, \<^verbatim>\<open>main.go\<close> and \<^verbatim>\<open>sync.go\<close> of
  \<^verbatim>\<open>packages/api/internal/sandbox/storage/memory\<close>.  The storage is a concurrent map from sandbox ids to
  objects; the definitions take its operations \<open>cm\<close>.  Each definition is the work of one call up to the
  point where it returns or waits for a transition; the waiting itself, which involves one object
  only, is \<open>Sandbox_Protocol\<close>.
\<close>

definition st_Name :: string where
  "st_Name = ''memory''"

definition NewStorage :: "('m, 'x memorySandbox) cmap_ops \<Rightarrow> 'm" where
  "NewStorage cm = cm_New cm"

definition st_Add ::
  "('m, 'x memorySandbox) cmap_ops \<Rightarrow> 'm \<Rightarrow> Sandbox \<Rightarrow> ('x sandbox_error, unit) go \<times> 'm" where
  "st_Add cm m sbx =
     (let (added, m') = cm_SetIfAbsent cm m (SandboxID sbx) (newMemorySandbox sbx)
      in if \<not> added then (Fail ErrAlreadyExists, m') else (Ok (), m'))"

definition st_exists :: "('m, 'x memorySandbox) cmap_ops \<Rightarrow> 'm \<Rightarrow> string \<Rightarrow> bool" where
  "st_exists cm m sandboxID = cm_Has cm m sandboxID"

definition st_get ::
  "('m, 'x memorySandbox) cmap_ops \<Rightarrow> 'm \<Rightarrow> string \<Rightarrow> ('x sandbox_error, 'x memorySandbox) go" where
  "st_get cm m sandboxID =
     (case cm_Get cm m sandboxID of None \<Rightarrow> Fail (ErrNotExist sandboxID) | Some item \<Rightarrow> Ok item)"

definition st_Get ::
  "('m, 'x memorySandbox) cmap_ops \<Rightarrow> 'm \<Rightarrow> uuid \<Rightarrow> string \<Rightarrow> ('x sandbox_error, Sandbox) go" where
  "st_Get cm m teamID sandboxID =
     (case cm_Get cm m sandboxID of
        None \<Rightarrow> Fail ErrNotFound
      | Some item \<Rightarrow> if TeamID (msData item) \<noteq> teamID then Fail ErrNotFound else Ok (msData item))"

definition st_Remove :: "('m, 'x memorySandbox) cmap_ops \<Rightarrow> 'm \<Rightarrow> uuid \<Rightarrow> string \<Rightarrow> 'm" where
  "st_Remove cm m teamID sandboxID = cm_Remove cm m sandboxID"

definition st_getItems ::
  "('m, 'x memorySandbox) cmap_ops \<Rightarrow> 'm \<Rightarrow> uuid option \<Rightarrow> State list \<Rightarrow> Sandbox list" where
  "st_getItems cm m teamID states =
     filter (\<lambda>data. \<not> (teamID \<noteq> None \<and> the teamID \<noteq> TeamID data) \<and>
                     \<not> (length states > 0 \<and> sState data \<notin> set states))
       (map (\<lambda>(_, item). msData item) (cm_Items cm m))"

definition st_TeamItems ::
  "('m, 'x memorySandbox) cmap_ops \<Rightarrow> 'm \<Rightarrow> uuid \<Rightarrow> State list \<Rightarrow> Sandbox list" where
  "st_TeamItems cm m teamID states = st_getItems cm m (Some teamID) states"

definition st_TeamsWithSandboxCount :: "('m, 'x memorySandbox) cmap_ops \<Rightarrow> 'm \<Rightarrow> uuid \<rightharpoonup> int" where
  "st_TeamsWithSandboxCount cm m =
     fold (\<lambda>(_, item) teams.
             teams(TeamID (msData item) \<mapsto>
               i64 ((case teams (TeamID (msData item)) of None \<Rightarrow> 0 | Some n \<Rightarrow> n) + 1)))
       (cm_Items cm m) Map.empty"

definition st_ExpiredItems :: "('m, 'x memorySandbox) cmap_ops \<Rightarrow> 'm \<Rightarrow> time \<Rightarrow> Sandbox list" where
  "st_ExpiredItems cm m now =
     filter (\<lambda>sbx. sState sbx = StateRunning \<and> IsExpired sbx now) (map (\<lambda>(_, item). msData item) (cm_Items cm m))"

definition st_Update ::
  "('m, 'x memorySandbox) cmap_ops \<Rightarrow> 'm \<Rightarrow> uuid \<Rightarrow> string \<Rightarrow> (Sandbox \<Rightarrow> ('x sandbox_error, Sandbox) go) \<Rightarrow>
   ('x sandbox_error, Sandbox) go \<times> 'm" where
  "st_Update cm m teamID sandboxID updateFunc =
     (case cm_Get cm m sandboxID of
        None \<Rightarrow> (Fail ErrNotFound, m)
      | Some item \<Rightarrow>
          (let (r, item') = ms_Update teamID updateFunc item in (r, cm_Set cm m sandboxID item')))"

text \<open>\<^verbatim>\<open>StartRemoving\<close> up to its return or its wait, with the data it returns.\<close>

definition st_StartRemoving ::
  "('m, 'x memorySandbox) cmap_ops \<Rightarrow> time \<Rightarrow> time \<Rightarrow> 'm \<Rightarrow> uuid \<Rightarrow> string \<Rightarrow> RemoveOpts \<Rightarrow>
   ('x sandbox_error, Sandbox \<times> 'x start_outcome) go \<times> 'm" where
  "st_StartRemoving cm now now' m teamID sandboxID opts =
     (case st_get cm m sandboxID of
        Ok sbx \<Rightarrow>
          if TeamID (msData sbx) \<noteq> teamID then (Fail ErrNotFound, m)
          else (let (out, sbx') = startRemoving_enter now now' sbx opts
                in (Ok (msData sbx', out), cm_Set cm m sandboxID sbx'))
      | _ \<Rightarrow> (Fail ErrNotFound, m))"

definition st_finish ::
  "('m, 'x memorySandbox) cmap_ops \<Rightarrow> 'm \<Rightarrow> string \<Rightarrow> StateAction \<Rightarrow> 'x option \<Rightarrow> 'm" where
  "st_finish cm m sandboxID action err =
     (case cm_Get cm m sandboxID of
        None \<Rightarrow> m
      | Some item \<Rightarrow> cm_Set cm m sandboxID (snd (finishTransition action err item)))"

definition st_WaitForStateChange ::
  "('m, 'x memorySandbox) cmap_ops \<Rightarrow> bool \<Rightarrow> bool \<Rightarrow> 'm \<Rightarrow> uuid \<Rightarrow> string \<Rightarrow> 'x memorySandbox \<Rightarrow>
   ('x sandbox_error, ('x once_error, unit) go option) go" where
  "st_WaitForStateChange cm ctxDone preferCtx m teamID sandboxID later =
     go_bind (st_get cm m sandboxID) (\<lambda>sbx. Ok (waitForStateChange ctxDone preferCtx sbx later))"

subsection \<open>Synchronisation with a node\<close>

definition syncSandboxRemoveGracePeriod :: duration where
  "syncSandboxRemoveGracePeriod = 10 * time_Second"

text \<open>
  \<open>clk key\<close> are the two instants at which the visit of \<open>key\<close> reads the clock: for \<^verbatim>\<open>time.Since\<close> and in
  \<^verbatim>\<open>SetExpired\<close>.
\<close>

definition reconcileItem ::
  "time \<Rightarrow> time \<times> time \<Rightarrow> Sandbox list \<Rightarrow> string \<Rightarrow> 'x memorySandbox \<Rightarrow> 'x memorySandbox" where
  "reconcileItem now clk sandboxes nodeID item =
     (let data = msData item
      in if IsExpired data now then item
         else if NodeID data \<noteq> nodeID then item
         else if time_Sub (fst clk) (StartTime data) \<le> syncSandboxRemoveGracePeriod then item
         else if SandboxID data \<notin> set (map SandboxID sandboxes) then ms_SetExpired (snd clk) item
         else item)"

definition reconcileExpire ::
  "('m, 'x memorySandbox) cmap_ops \<Rightarrow> time \<Rightarrow> (string \<Rightarrow> time \<times> time) \<Rightarrow> Sandbox list \<Rightarrow> string \<Rightarrow> 'm \<Rightarrow> 'm" where
  "reconcileExpire cm now clk sandboxes nodeID m =
     fold (\<lambda>key m. case cm_Get cm m key of
                      None \<Rightarrow> m
                    | Some item \<Rightarrow> cm_Set cm m key (reconcileItem now (clk key) sandboxes nodeID item))
       (cm_Keys cm m) m"

definition st_Reconcile ::
  "('m, 'x memorySandbox) cmap_ops \<Rightarrow> time \<Rightarrow> (string \<Rightarrow> time \<times> time) \<Rightarrow> 'm \<Rightarrow> Sandbox list \<Rightarrow> string \<Rightarrow>
   Sandbox list \<times> 'm" where
  "st_Reconcile cm now clk m sandboxes nodeID =
     (let m' = reconcileExpire cm now clk sandboxes nodeID m
      in (filter (\<lambda>sbx. \<not> st_exists cm m' (SandboxID sbx)) sandboxes, m'))"

subsection \<open>What the storage holds after each call\<close>

text \<open>A sandbox is stored under its own id.\<close>

definition st_ok :: "('m, 'x memorySandbox) cmap_ops \<Rightarrow> 'm \<Rightarrow> bool" where
  "st_ok cm m \<longleftrightarrow> (\<forall>k item. cm_Get cm m k = Some item \<longrightarrow> SandboxID (msData item) = k)"

text \<open>A sandbox ends at most its maximal length after its start.\<close>

definition within_limit :: "Sandbox \<Rightarrow> bool" where
  "within_limit d \<longleftrightarrow> EndTime d \<le> StartTime d + MaxInstanceLength d"

definition st_within_limits :: "('m, 'x memorySandbox) cmap_ops \<Rightarrow> 'm \<Rightarrow> bool" where
  "st_within_limits cm m \<longleftrightarrow> (\<forall>k item. cm_Get cm m k = Some item \<longrightarrow> within_limit (msData item))"

lemma reconcileItem_cases:
  "reconcileItem now clk sandboxes nodeID item = item \<or>
   reconcileItem now clk sandboxes nodeID item = ms_SetExpired (snd clk) item"
  by (simp add: reconcileItem_def Let_def)

context concurrent_map
begin

lemma Get_fold_Set:
  assumes "distinct ks"
  shows "cm_Get cm (fold (\<lambda>key m. case cm_Get cm m key of None \<Rightarrow> m | Some item \<Rightarrow> cm_Set cm m key (f key item)) ks m) k =
    (if k \<in> set ks then map_option (f k) (cm_Get cm m k) else cm_Get cm m k)"
  using assms
proof (induction ks arbitrary: m)
  case (Cons key ks)
  show ?case
    using Cons.prems by (auto simp: Cons.IH Get_Set split: option.splits)
qed simp

end

lemma Get_reconcileExpire:
  assumes "concurrent_map cm"
  shows "cm_Get cm (reconcileExpire cm now clk sandboxes nodeID m) k =
    map_option (reconcileItem now (clk k) sandboxes nodeID) (cm_Get cm m k)"
  using concurrent_map.Get_fold_Set [OF assms concurrent_map.distinct_Keys [OF assms],
      of "\<lambda>key. reconcileItem now (clk key) sandboxes nodeID" m m k]
    concurrent_map.set_Keys [OF assms, of m]
  by (cases "cm_Get cm m k") (auto simp: reconcileExpire_def)

end
