(* ===== verification/Sandbox_Reservation.thy ===== *)
theory Sandbox_Reservation
  imports Sandbox_State Concurrent_Map
begin

text \<open>
  The in-memory reservations of \<^verbatim>\<open>packages/api/internal/sandbox/reservations/reservation.go\<close>: per team
  the sandboxes that are starting or running, against which the team's limit is checked.

  A team's \<^verbatim>\<open>map[string]*sandboxReservation\<close> is an association list from sandbox ids to handles; a handle
  is an index into \<open>rsStarts\<close>, the \<^verbatim>\<open>SetOnce\<close> objects in the order of their creation.  The callbacks of
  \<^verbatim>\<open>Upsert\<close> and \<^verbatim>\<open>RemoveCb\<close> run under the lock of the team's shard, so each operation is one step.
  \<open>ustr\<close> is \<^verbatim>\<open>uuid.UUID.String\<close>.
\<close>

type_synonym TeamSandboxes = "(string \<times> nat) list"

record ('m, 'x) ReservationStorage =
  rsTeams :: 'm
  rsStarts :: "('x, Sandbox) SetOnce list"

datatype reserve_result = StartIt nat | WaitForStart nat

definition NewReservationStorage :: "('m, TeamSandboxes) cmap_ops \<Rightarrow> ('m, 'x) ReservationStorage" where
  "NewReservationStorage cm = \<lparr>rsTeams = smap_New cm, rsStarts = []\<rparr>"

datatype reserve_decision = AlreadyPresent nat | LimitExceeded | Reserved

text \<open>The closure that \<^verbatim>\<open>Upsert\<close> runs; \<open>fresh\<close> is the handle of the object it creates.\<close>

definition reserveUpsert ::
  "string \<Rightarrow> int \<Rightarrow> nat \<Rightarrow> TeamSandboxes option \<Rightarrow> reserve_decision \<times> TeamSandboxes" where
  "reserveUpsert sandboxID limit fresh old =
     (let ts = (case old of None \<Rightarrow> [] | Some ts \<Rightarrow> ts)
      in (case map_of ts sandboxID of
            Some h \<Rightarrow> (AlreadyPresent h, ts)
          | None \<Rightarrow>
              if limit \<ge> 0 \<and> int (length ts) \<ge> limit then (LimitExceeded, ts)
              else (Reserved, AList.update sandboxID fresh ts)))"

definition res_Reserve ::
  "('m, TeamSandboxes) cmap_ops \<Rightarrow> (uuid \<Rightarrow> string) \<Rightarrow> ('m, 'x) ReservationStorage \<Rightarrow> uuid \<Rightarrow> string \<Rightarrow> int \<Rightarrow>
   ('x sandbox_error, reserve_result) go \<times> ('m, 'x) ReservationStorage" where
  "res_Reserve cm ustr rs teamID sandboxID limit =
     (let (d, m) = smap_Upsert cm (rsTeams rs) (ustr teamID)
            (reserveUpsert sandboxID limit (length (rsStarts rs)));
          rs1 = rs\<lparr>rsTeams := m\<rparr>
      in (case d of
            LimitExceeded \<Rightarrow> (Fail (LimitExceededError teamID), rs1)
          | AlreadyPresent h \<Rightarrow> (Ok (WaitForStart h), rs1)
          | Reserved \<Rightarrow> (Ok (StartIt (length (rsStarts rs))), rs1\<lparr>rsStarts := rsStarts rs @ [NewSetOnce]\<rparr>)))"

definition res_Release ::
  "('m, TeamSandboxes) cmap_ops \<Rightarrow> (uuid \<Rightarrow> string) \<Rightarrow> ('m, 'x) ReservationStorage \<Rightarrow> uuid \<Rightarrow> string \<Rightarrow>
   ('m, 'x) ReservationStorage" where
  "res_Release cm ustr rs teamID sandboxID =
     rs\<lparr>rsTeams := smap_RemoveCb cm (rsTeams rs) (ustr teamID)
       (\<lambda>old. (case old of
                 None \<Rightarrow> (True, None)
               | Some ts \<Rightarrow> (let ts' = AList.delete sandboxID ts in (length ts' = 0, Some ts'))))\<rparr>"

text \<open>The \<^verbatim>\<open>finishStart\<close> closure of the caller that reserved handle \<open>h\<close>.\<close>

definition res_finishStart ::
  "('m, TeamSandboxes) cmap_ops \<Rightarrow> (uuid \<Rightarrow> string) \<Rightarrow> ('m, 'x) ReservationStorage \<Rightarrow> uuid \<Rightarrow> string \<Rightarrow> nat \<Rightarrow>
   Sandbox \<Rightarrow> 'x option \<Rightarrow> ('m, 'x) ReservationStorage" where
  "res_finishStart cm ustr rs teamID sandboxID h sbx err =
     (let rs1 = rs\<lparr>rsStarts := (rsStarts rs)[h := snd (SetResult (rsStarts rs ! h) sbx err)]\<rparr>
      in if err \<noteq> None then res_Release cm ustr rs1 teamID sandboxID else rs1)"

text \<open>The \<^verbatim>\<open>waitForStart\<close> closure of a caller that found handle \<open>h\<close>.\<close>

definition res_waitForStart ::
  "bool \<Rightarrow> bool \<Rightarrow> ('m, 'x) ReservationStorage \<Rightarrow> nat \<Rightarrow> ('x once_error, Sandbox) go option" where
  "res_waitForStart ctxDone preferCtx rs h = WaitWithContext ctxDone preferCtx (rsStarts rs ! h)"

subsection \<open>Reservations of a team\<close>

definition team_reservations ::
  "('m, TeamSandboxes) cmap_ops \<Rightarrow> (uuid \<Rightarrow> string) \<Rightarrow> ('m, 'x) ReservationStorage \<Rightarrow> uuid \<Rightarrow> TeamSandboxes" where
  "team_reservations cm ustr rs teamID =
     (case cm_Get cm (rsTeams rs) (ustr teamID) of None \<Rightarrow> [] | Some ts \<Rightarrow> ts)"

text \<open>Handles point to existing objects and a team has one entry per sandbox.\<close>

definition res_ok :: "('m, TeamSandboxes) cmap_ops \<Rightarrow> (uuid \<Rightarrow> string) \<Rightarrow> ('m, 'x) ReservationStorage \<Rightarrow> bool" where
  "res_ok cm ustr rs \<longleftrightarrow>
     (\<forall>team. distinct (map fst (team_reservations cm ustr rs team)) \<and>
        (\<forall>h \<in> snd ` set (team_reservations cm ustr rs team). h < length (rsStarts rs)))"

lemma length_update_alist:
  "length (AList.update k v m) = (if map_of m k = None then Suc (length m) else length m)"
  by (induction m) auto

lemma length_delete_alist: "length (AList.delete k m) \<le> length m"
  by (simp add: AList.delete_eq)

context concurrent_map
begin

lemma Get_RemoveCb:
  "cm_Get cm (cm_RemoveCb cm m k cb) k' =
     (if k' \<noteq> k then cm_Get cm m k'
      else (case cm_Get cm m k of
              None \<Rightarrow> None
            | Some v \<Rightarrow> if fst (cb (Some v)) then None
                else (case snd (cb (Some v)) of Some v' \<Rightarrow> Some v' | None \<Rightarrow> Some v)))"
  by (auto simp: cm_RemoveCb_def Let_def Get_Set Get_Remove split_def split: option.splits)

end

lemma team_Release:
  assumes "concurrent_map cm" "inj ustr"
  shows "team_reservations cm ustr (res_Release cm ustr rs team sid) team' =
    (if team' = team then AList.delete sid (team_reservations cm ustr rs team)
     else team_reservations cm ustr rs team')"
  using assms(2)
  by (auto simp: team_reservations_def res_Release_def smap_RemoveCb_def Let_def inj_eq
      concurrent_map.Get_RemoveCb [OF assms(1)] split: option.splits)

lemma team_Reserve:
  assumes "concurrent_map cm" "inj ustr"
  shows "team_reservations cm ustr (snd (res_Reserve cm ustr rs team sid limit)) team' =
    (if team' = team
     then snd (reserveUpsert sid limit (length (rsStarts rs)) (Some (team_reservations cm ustr rs team)))
     else team_reservations cm ustr rs team')"
proof -
  have up: "snd (reserveUpsert sid limit n old) =
      snd (reserveUpsert sid limit n (Some (case old of None \<Rightarrow> [] | Some ts \<Rightarrow> ts)))" for n old
    by (simp add: reserveUpsert_def split: option.splits)
  show ?thesis
    using assms(2) up [of "length (rsStarts rs)" "cm_Get cm (rsTeams rs) (ustr team)"]
    by (auto simp: team_reservations_def res_Reserve_def smap_Upsert_def Let_def inj_eq split_def
        concurrent_map.Get_Upsert [OF assms(1)] split: reserve_decision.splits)
qed

lemma rsStarts_Release [simp]: "rsStarts (res_Release cm ustr rs team sid) = rsStarts rs"
  by (simp add: res_Release_def)

lemma team_reservations_starts [simp]:
  "team_reservations cm ustr (rs\<lparr>rsStarts := x\<rparr>) team = team_reservations cm ustr rs team"
  by (simp add: team_reservations_def)

lemma team_finish:
  assumes "concurrent_map cm" "inj ustr"
  shows "team_reservations cm ustr (res_finishStart cm ustr rs team sid h sbx err) team' =
    (if team' = team \<and> err \<noteq> None then AList.delete sid (team_reservations cm ustr rs team)
     else team_reservations cm ustr rs team')"
  by (cases err) (simp_all add: res_finishStart_def Let_def team_Release [OF assms])

subsection \<open>Sequences of calls\<close>

datatype 'x res_op =
    ResReserve uuid string int
  | ResRelease uuid string
  | ResFinish uuid string nat Sandbox "'x option"

fun res_exec ::
  "('m, TeamSandboxes) cmap_ops \<Rightarrow> (uuid \<Rightarrow> string) \<Rightarrow> 'x res_op \<Rightarrow> ('m, 'x) ReservationStorage \<Rightarrow>
   ('m, 'x) ReservationStorage" where
  "res_exec cm ustr (ResReserve team sid limit) rs = snd (res_Reserve cm ustr rs team sid limit)"
| "res_exec cm ustr (ResRelease team sid) rs = res_Release cm ustr rs team sid"
| "res_exec cm ustr (ResFinish team sid h sbx err) rs = res_finishStart cm ustr rs team sid h sbx err"

definition res_run ::
  "('m, TeamSandboxes) cmap_ops \<Rightarrow> (uuid \<Rightarrow> string) \<Rightarrow> 'x res_op list \<Rightarrow> ('m, 'x) ReservationStorage" where
  "res_run cm ustr ops = fold (res_exec cm ustr) ops (NewReservationStorage cm)"

text \<open>
  The calls that respect a limit \<open>L\<close> of a team: a reservation for a new sandbox carries a limit up to
  \<open>L\<close>; \<^verbatim>\<open>Store.Add\<close> reserves with \<^verbatim>\<open>-1\<close>, which only finds the reservation that is already there.
\<close>

fun res_limited ::
  "('m, TeamSandboxes) cmap_ops \<Rightarrow> (uuid \<Rightarrow> string) \<Rightarrow> uuid \<Rightarrow> int \<Rightarrow> ('m, 'x) ReservationStorage \<Rightarrow>
   'x res_op list \<Rightarrow> bool" where
  "res_limited cm ustr team L rs [] \<longleftrightarrow> True"
| "res_limited cm ustr team L rs (op # ops) \<longleftrightarrow>
     (case op of
        ResReserve team' sid limit \<Rightarrow>
          team' = team \<longrightarrow> (0 \<le> limit \<and> limit \<le> L) \<or>
            map_of (team_reservations cm ustr rs team) sid \<noteq> None
      | _ \<Rightarrow> True) \<and>
     res_limited cm ustr team L (res_exec cm ustr op rs) ops"

lemma reserveUpsert_length:
  assumes "(0 \<le> limit \<and> limit \<le> L) \<or> map_of ts sid \<noteq> None" "int (length ts) \<le> L"
  shows "int (length (snd (reserveUpsert sid limit n (Some ts)))) \<le> L"
  using assms by (auto simp: reserveUpsert_def length_update_alist Let_def split: option.splits)

lemma res_exec_bounded:
  assumes cm: "concurrent_map cm" "inj ustr" and lim: "res_limited cm ustr team L rs (op # ops)"
    and bound: "int (length (team_reservations cm ustr rs team)) \<le> L"
  shows "int (length (team_reservations cm ustr (res_exec cm ustr op rs) team)) \<le> L"
proof (cases op)
  case (ResReserve team' sid limit)
  show ?thesis
  proof (cases "team' = team")
    case True
    then have "(0 \<le> limit \<and> limit \<le> L) \<or> map_of (team_reservations cm ustr rs team) sid \<noteq> None"
      using lim ResReserve by simp
    from reserveUpsert_length [OF this bound, of "length (rsStarts rs)"] show ?thesis
      using ResReserve True by (simp add: team_Reserve [OF cm])
  qed (use bound ResReserve in \<open>simp add: team_Reserve [OF cm]\<close>)
next
  case (ResRelease team' sid)
  then show ?thesis
    using bound length_delete_alist [of sid "team_reservations cm ustr rs team"] by (auto simp: team_Release [OF cm])
next
  case (ResFinish team' sid h sbx err)
  then show ?thesis
    using bound length_delete_alist [of sid "team_reservations cm ustr rs team"] by (auto simp: team_finish [OF cm])
qed

lemma res_fold_bounded:
  assumes "concurrent_map cm" "inj ustr" "res_limited cm ustr team L rs ops"
    and "int (length (team_reservations cm ustr rs team)) \<le> L"
  shows "int (length (team_reservations cm ustr (fold (res_exec cm ustr) ops rs) team)) \<le> L"
  using assms(3,4)
proof (induction ops arbitrary: rs)
  case (Cons op ops)
  from res_exec_bounded [OF assms(1,2) Cons.prems] Cons.prems(1) show ?case
    by (auto intro: Cons.IH)
qed simp

lemma team_reservations_New:
  "concurrent_map cm \<Longrightarrow> team_reservations cm ustr (NewReservationStorage cm) team = []"
  by (simp add: team_reservations_def NewReservationStorage_def smap_New_def concurrent_map.Get_New)

end
