(* ===== verification/Sandbox_Store.thy ===== *)
theory Sandbox_Store
  imports Sandbox_Storage Sandbox_Reservation
begin

text \<open>
  The sandbox store of the API server, \<^verbatim>\<open>packages/api/internal/sandbox/store.go\<close>.  It works on any
  \<^verbatim>\<open>Storage\<close> and any \<^verbatim>\<open>ReservationStorage\<close>: the records \<open>storage_ops\<close> and \<open>reservation_ops\<close> are these
  interfaces, the locale \<open>sandbox_storage\<close> is what the store relies on, and the in-memory backends of
  \<open>Sandbox_Storage\<close> and \<open>Sandbox_Reservation\<close> provide it.  The callbacks of the server are logs: the
  sandboxes handed to the routing table, to the asynchronous observer and to the orphan killer.
\<close>

record ('s, 'x) storage_ops =
  so_Name :: string
  so_Add :: "'s \<Rightarrow> Sandbox \<Rightarrow> ('x sandbox_error, unit) go \<times> 's"
  so_Get :: "'s \<Rightarrow> uuid \<Rightarrow> string \<Rightarrow> ('x sandbox_error, Sandbox) go"
  so_Remove :: "'s \<Rightarrow> uuid \<Rightarrow> string \<Rightarrow> ('x sandbox_error, unit) go \<times> 's"
  so_TeamItems :: "'s \<Rightarrow> uuid \<Rightarrow> State list \<Rightarrow> Sandbox list"
  so_ExpiredItems :: "'s \<Rightarrow> time \<Rightarrow> Sandbox list"
  so_TeamsWithSandboxCount :: "'s \<Rightarrow> uuid \<rightharpoonup> int"
  so_Update :: "'s \<Rightarrow> uuid \<Rightarrow> string \<Rightarrow> (Sandbox \<Rightarrow> ('x sandbox_error, Sandbox) go) \<Rightarrow>
     ('x sandbox_error, Sandbox) go \<times> 's"
  so_StartRemoving :: "time \<Rightarrow> time \<Rightarrow> 's \<Rightarrow> uuid \<Rightarrow> string \<Rightarrow> RemoveOpts \<Rightarrow>
     ('x sandbox_error, Sandbox \<times> 'x start_outcome) go \<times> 's"
  so_finish :: "'s \<Rightarrow> string \<Rightarrow> StateAction \<Rightarrow> 'x option \<Rightarrow> 's"
  so_Reconcile :: "time \<Rightarrow> (string \<Rightarrow> time \<times> time) \<Rightarrow> 's \<Rightarrow> Sandbox list \<Rightarrow> string \<Rightarrow> Sandbox list \<times> 's"

record ('r, 'x) reservation_ops =
  ro_Reserve :: "'r \<Rightarrow> uuid \<Rightarrow> string \<Rightarrow> int \<Rightarrow> ('x sandbox_error, reserve_result) go \<times> 'r"
  ro_Release :: "'r \<Rightarrow> uuid \<Rightarrow> string \<Rightarrow> 'r"
  ro_finishStart :: "'r \<Rightarrow> uuid \<Rightarrow> string \<Rightarrow> nat \<Rightarrow> Sandbox \<Rightarrow> 'x option \<Rightarrow> 'r"

record ('s, 'r) Store =
  stStorage :: 's
  stReservations :: 'r
  stRouted :: "Sandbox list"
  stNewlyCreated :: "Sandbox list"
  stOrphansKilled :: "Sandbox list"

definition StorageNameMemory :: string where "StorageNameMemory = ''memory''"
definition StorageNameRedis :: string where "StorageNameRedis = ''redis''"

definition NewStore :: "'s \<Rightarrow> 'r \<Rightarrow> ('s, 'r) Store" where
  "NewStore backend reservations =
     \<lparr>stStorage = backend, stReservations = reservations, stRouted = [], stNewlyCreated = [], stOrphansKilled = []\<rparr>"

text \<open>The end time that \<^verbatim>\<open>Add\<close> stores.\<close>

definition capEndTime :: "Sandbox \<Rightarrow> Sandbox" where
  "capEndTime sbx =
     (if time_Sub (EndTime sbx) (StartTime sbx) > MaxInstanceLength sbx
      then sbx\<lparr>EndTime := StartTime sbx + MaxInstanceLength sbx\<rparr> else sbx)"

text \<open>The reservation without a limit that \<^verbatim>\<open>Add\<close> makes for the storages other than Redis.\<close>

definition ensureReservation ::
  "('r, 'x) reservation_ops \<Rightarrow> 'r \<Rightarrow> Sandbox \<Rightarrow> 'r" where
  "ensureReservation rops r sbx =
     (let (res, r1) = ro_Reserve rops r (TeamID sbx) (SandboxID sbx) (- 1)
      in (case res of
            Ok (StartIt h) \<Rightarrow> ro_finishStart rops r1 (TeamID sbx) (SandboxID sbx) h sbx None
          | _ \<Rightarrow> r1))"

definition ss_Add ::
  "('s, 'x) storage_ops \<Rightarrow> ('r, 'x) reservation_ops \<Rightarrow> ('s, 'r) Store \<Rightarrow> Sandbox \<Rightarrow> bool \<Rightarrow>
   ('x sandbox_error, unit) go \<times> ('s, 'r) Store" where
  "ss_Add sops rops st sandbox newlyCreated =
     (let sbx = capEndTime sandbox;
          (r, s1) = so_Add sops (stStorage st) sbx;
          st1 = st\<lparr>stStorage := s1\<rparr>;
          continue = (\<lambda>st2.
            (let st3 = (if so_Name sops \<noteq> StorageNameRedis
                        then st2\<lparr>stReservations := ensureReservation rops (stReservations st2) sbx\<rparr> else st2)
             in (Ok (), if newlyCreated then st3\<lparr>stNewlyCreated := stNewlyCreated st3 @ [sbx]\<rparr> else st3)))
      in (case r of
            Ok _ \<Rightarrow> continue (st1\<lparr>stRouted := stRouted st1 @ [sbx]\<rparr>)
          | Fail ErrAlreadyExists \<Rightarrow> continue st1
          | Fail e \<Rightarrow> (Fail e, st1)
          | Panic \<Rightarrow> (Panic, st1)))"

definition ss_Get ::
  "('s, 'x) storage_ops \<Rightarrow> ('s, 'r) Store \<Rightarrow> uuid \<Rightarrow> string \<Rightarrow> ('x sandbox_error, Sandbox) go" where
  "ss_Get sops st teamID sandboxID = so_Get sops (stStorage st) teamID sandboxID"

definition ss_Remove ::
  "('s, 'x) storage_ops \<Rightarrow> ('r, 'x) reservation_ops \<Rightarrow> ('s, 'r) Store \<Rightarrow> uuid \<Rightarrow> string \<Rightarrow> ('s, 'r) Store" where
  "ss_Remove sops rops st teamID sandboxID =
     st\<lparr>stStorage := snd (so_Remove sops (stStorage st) teamID sandboxID),
        stReservations := ro_Release rops (stReservations st) teamID sandboxID\<rparr>"

definition ss_TeamItems ::
  "('s, 'x) storage_ops \<Rightarrow> ('s, 'r) Store \<Rightarrow> uuid \<Rightarrow> State list \<Rightarrow> Sandbox list" where
  "ss_TeamItems sops st teamID states = so_TeamItems sops (stStorage st) teamID states"

definition ss_ExpiredItems :: "('s, 'x) storage_ops \<Rightarrow> ('s, 'r) Store \<Rightarrow> time \<Rightarrow> Sandbox list" where
  "ss_ExpiredItems sops st now = so_ExpiredItems sops (stStorage st) now"

definition ss_TeamsWithSandboxes :: "('s, 'x) storage_ops \<Rightarrow> ('s, 'r) Store \<Rightarrow> uuid \<rightharpoonup> int" where
  "ss_TeamsWithSandboxes sops st = so_TeamsWithSandboxCount sops (stStorage st)"

definition ss_Update ::
  "('s, 'x) storage_ops \<Rightarrow> ('s, 'r) Store \<Rightarrow> uuid \<Rightarrow> string \<Rightarrow> (Sandbox \<Rightarrow> ('x sandbox_error, Sandbox) go) \<Rightarrow>
   ('x sandbox_error, Sandbox) go \<times> ('s, 'r) Store" where
  "ss_Update sops st teamID sandboxID updateFunc =
     (let (r, s) = so_Update sops (stStorage st) teamID sandboxID updateFunc in (r, st\<lparr>stStorage := s\<rparr>))"

definition ss_StartRemoving ::
  "('s, 'x) storage_ops \<Rightarrow> time \<Rightarrow> time \<Rightarrow> ('s, 'r) Store \<Rightarrow> uuid \<Rightarrow> string \<Rightarrow> RemoveOpts \<Rightarrow>
   ('x sandbox_error, Sandbox \<times> 'x start_outcome) go \<times> ('s, 'r) Store" where
  "ss_StartRemoving sops now now' st teamID sandboxID opts =
     (let (r, s) = so_StartRemoving sops now now' (stStorage st) teamID sandboxID opts in (r, st\<lparr>stStorage := s\<rparr>))"

text \<open>The killers of orphans run concurrently; the log has them in the order of the list.\<close>

definition ss_Reconcile ::
  "('s, 'x) storage_ops \<Rightarrow> ('r, 'x) reservation_ops \<Rightarrow> time \<Rightarrow> (string \<Rightarrow> time \<times> time) \<Rightarrow>
   ('s, 'r) Store \<Rightarrow> Sandbox list \<Rightarrow> string \<Rightarrow> ('s, 'r) Store" where
  "ss_Reconcile sops rops now clk st sandboxes nodeID =
     (let (toSync, s) = so_Reconcile sops now clk (stStorage st) sandboxes nodeID; st1 = st\<lparr>stStorage := s\<rparr>
      in if so_Name sops = StorageNameRedis then st1\<lparr>stOrphansKilled := stOrphansKilled st1 @ toSync\<rparr>
         else fold (\<lambda>sbx st. snd (ss_Add sops rops st sbx False)) toSync st1)"

datatype store_reserve = ReserveStart nat | ReserveWait nat | ReserveGet

text \<open>\<open>ReserveGet\<close>: the wait function reads the sandbox from the storage.\<close>

definition ss_Reserve ::
  "('r, 'x) reservation_ops \<Rightarrow> ('s, 'r) Store \<Rightarrow> uuid \<Rightarrow> string \<Rightarrow> int \<Rightarrow>
   ('x sandbox_error, store_reserve) go \<times> ('s, 'r) Store" where
  "ss_Reserve rops st teamID sandboxID limit =
     (let (res, r) = ro_Reserve rops (stReservations st) teamID sandboxID limit; st1 = st\<lparr>stReservations := r\<rparr>
      in (case res of
            Ok (StartIt h) \<Rightarrow> (Ok (ReserveStart h), st1)
          | Ok (WaitForStart h) \<Rightarrow> (Ok (ReserveWait h), st1)
          | Fail ErrAlreadyExists \<Rightarrow> (Ok ReserveGet, st1)
          | Fail e \<Rightarrow> (Fail e, st1)
          | Panic \<Rightarrow> (Panic, st1)))"

definition ss_Release ::
  "('r, 'x) reservation_ops \<Rightarrow> ('s, 'r) Store \<Rightarrow> uuid \<Rightarrow> string \<Rightarrow> ('s, 'r) Store" where
  "ss_Release rops st teamID sandboxID = st\<lparr>stReservations := ro_Release rops (stReservations st) teamID sandboxID\<rparr>"

subsection \<open>What the store relies on\<close>

text \<open>\<open>view\<close> is the content of a storage: the sandboxes by id.\<close>

locale sandbox_storage =
  fixes sops :: "('s, 'x) storage_ops"
    and view :: "'s \<Rightarrow> string \<rightharpoonup> Sandbox"
  assumes view_Add: "view (snd (so_Add sops s sbx)) =
      (if view s (SandboxID sbx) = None then (view s)(SandboxID sbx \<mapsto> sbx) else view s)"
    and result_Add: "fst (so_Add sops s sbx) = (if view s (SandboxID sbx) = None then Ok () else Fail ErrAlreadyExists)"
    and result_Get: "so_Get sops s team i =
      (case view s i of Some d \<Rightarrow> if TeamID d = team then Ok d else Fail ErrNotFound | None \<Rightarrow> Fail ErrNotFound)"
    and view_Remove: "view (snd (so_Remove sops s team i)) = (view s)(i := None)"
    and result_Reconcile: "fst (so_Reconcile sops now clk s sbxs node) = filter (\<lambda>d. view s (SandboxID d) = None) sbxs"
    and view_Reconcile: "(view (snd (so_Reconcile sops now clk s sbxs node)) i = None) = (view s i = None)"
begin

lemma view_ss_Add:
  "view (stStorage (snd (ss_Add sops rops st sbx new))) =
     (if view (stStorage st) (SandboxID sbx) = None
      then (view (stStorage st))(SandboxID sbx \<mapsto> capEndTime sbx) else view (stStorage st))"
  "fst (ss_Add sops rops st sbx new) = Ok ()"
proof -
  have id: "SandboxID (capEndTime sbx) = SandboxID sbx" by (simp add: capEndTime_def)
  show "view (stStorage (snd (ss_Add sops rops st sbx new))) =
     (if view (stStorage st) (SandboxID sbx) = None
      then (view (stStorage st))(SandboxID sbx \<mapsto> capEndTime sbx) else view (stStorage st))"
    "fst (ss_Add sops rops st sbx new) = Ok ()"
    using view_Add [of "stStorage st" "capEndTime sbx"] result_Add [of "stStorage st" "capEndTime sbx"] id
    by (auto simp: ss_Add_def Let_def split_def split: if_splits)
qed

lemma Get_after_Add:
  assumes "view (stStorage st) (SandboxID sbx) = None"
  shows "ss_Get sops (snd (ss_Add sops rops st sbx new)) (TeamID sbx) (SandboxID sbx) = Ok (capEndTime sbx)"
  using assms by (simp add: ss_Get_def result_Get view_ss_Add) (simp add: capEndTime_def)

lemma Get_after_Remove:
  "ss_Get sops (ss_Remove sops rops st team i) team' i = Fail ErrNotFound"
  by (simp add: ss_Get_def ss_Remove_def result_Get view_Remove)

lemma view_fold_Add:
  "view (stStorage (fold (\<lambda>sbx st. snd (ss_Add sops rops st sbx False)) sbxs st)) i = None \<longleftrightarrow>
     view (stStorage st) i = None \<and> i \<notin> SandboxID ` set sbxs"
proof (induction sbxs arbitrary: st)
  case (Cons sbx sbxs)
  show ?case by (auto simp: Cons.IH view_ss_Add split: if_splits)
qed simp

lemma view_fold_Add_other:
  "i \<notin> SandboxID ` set sbxs \<Longrightarrow>
     view (stStorage (fold (\<lambda>sbx st. snd (ss_Add sops rops st sbx False)) sbxs st)) i = view (stStorage st) i"
  by (induction sbxs arbitrary: st) (auto simp: view_ss_Add)

lemma unreported_after_Reconcile:
  assumes "so_Name sops \<noteq> StorageNameRedis" "i \<notin> SandboxID ` set sbxs"
  shows "view (stStorage (ss_Reconcile sops rops now clk st sbxs node)) i =
    view (snd (so_Reconcile sops now clk (stStorage st) sbxs node)) i"
proof -
  have "i \<notin> SandboxID ` set (fst (so_Reconcile sops now clk (stStorage st) sbxs node))"
    using assms(2) by (auto simp: result_Reconcile)
  with assms(1) show ?thesis by (simp add: ss_Reconcile_def Let_def split_def view_fold_Add_other)
qed

text \<open>After a synchronisation with a node, the store knows every sandbox that the node reported.\<close>

lemma known_after_Reconcile:
  assumes "so_Name sops \<noteq> StorageNameRedis"
  shows "view (stStorage (ss_Reconcile sops rops now clk st sbxs node)) i = None \<longleftrightarrow>
    view (stStorage st) i = None \<and> i \<notin> SandboxID ` set sbxs"
  using assms
  by (auto simp: ss_Reconcile_def Let_def split_def view_fold_Add result_Reconcile view_Reconcile)

end

subsection \<open>The in-memory storage provides it\<close>

definition memory_ops :: "('m, 'x memorySandbox) cmap_ops \<Rightarrow> ('m, 'x) storage_ops" where
  "memory_ops cm =
     \<lparr>so_Name = st_Name, so_Add = st_Add cm, so_Get = st_Get cm,
      so_Remove = (\<lambda>m team i. (Ok (), st_Remove cm m team i)), so_TeamItems = st_TeamItems cm,
      so_ExpiredItems = st_ExpiredItems cm, so_TeamsWithSandboxCount = st_TeamsWithSandboxCount cm,
      so_Update = st_Update cm, so_StartRemoving = st_StartRemoving cm, so_finish = st_finish cm,
      so_Reconcile = st_Reconcile cm\<rparr>"

definition memory_view :: "('m, 'x memorySandbox) cmap_ops \<Rightarrow> 'm \<Rightarrow> string \<rightharpoonup> Sandbox" where
  "memory_view cm m i = map_option msData (cm_Get cm m i)"

definition reservations_ops ::
  "('r, TeamSandboxes) cmap_ops \<Rightarrow> (uuid \<Rightarrow> string) \<Rightarrow> (('r, 'x) ReservationStorage, 'x) reservation_ops" where
  "reservations_ops cm ustr =
     \<lparr>ro_Reserve = res_Reserve cm ustr, ro_Release = res_Release cm ustr, ro_finishStart = res_finishStart cm ustr\<rparr>"

lemma memory_ops_sel:
  "so_Name (memory_ops cm) = ''memory''" "so_Reconcile (memory_ops cm) = st_Reconcile cm"
  "so_Get (memory_ops cm) = st_Get cm" "so_ExpiredItems (memory_ops cm) = st_ExpiredItems cm"
  by (simp_all add: memory_ops_def st_Name_def)

lemma memory_storage:
  assumes "concurrent_map cm"
  shows "sandbox_storage (memory_ops cm) (memory_view cm)"
proof
  note laws = concurrent_map.cm_laws [OF assms] concurrent_map.Get_Remove [OF assms]
    concurrent_map.Get_SetIfAbsent [OF assms]
  fix s sbx team i now clk sbxs node
  show "memory_view cm (snd (so_Add (memory_ops cm) s sbx)) =
      (if memory_view cm s (SandboxID sbx) = None then (memory_view cm s)(SandboxID sbx \<mapsto> sbx) else memory_view cm s)"
    by (rule ext) (simp add: memory_ops_def st_Add_def Let_def split_def memory_view_def laws newMemorySandbox_def)
  show "fst (so_Add (memory_ops cm) s sbx) =
      (if memory_view cm s (SandboxID sbx) = None then Ok () else Fail ErrAlreadyExists)"
    by (simp add: memory_ops_def st_Add_def Let_def split_def memory_view_def cm_SetIfAbsent_def cm_Has_def)
  show "so_Get (memory_ops cm) s team i =
      (case memory_view cm s i of Some d \<Rightarrow> if TeamID d = team then Ok d else Fail ErrNotFound | None \<Rightarrow> Fail ErrNotFound)"
    by (simp add: memory_ops_def st_Get_def memory_view_def split: option.splits)
  show "memory_view cm (snd (so_Remove (memory_ops cm) s team i)) = (memory_view cm s)(i := None)"
    by (rule ext) (simp add: memory_ops_def st_Remove_def memory_view_def laws)
  show "fst (so_Reconcile (memory_ops cm) now clk s sbxs node) =
      filter (\<lambda>d. memory_view cm s (SandboxID d) = None) sbxs"
    by (simp add: memory_ops_def st_Reconcile_def Let_def st_exists_def cm_Has_def memory_view_def
        Get_reconcileExpire [OF assms])
  show "(memory_view cm (snd (so_Reconcile (memory_ops cm) now clk s sbxs node)) i = None) =
      (memory_view cm s i = None)"
    by (simp add: memory_ops_def st_Reconcile_def Let_def memory_view_def Get_reconcileExpire [OF assms])
qed

interpretation list_memory: sandbox_storage "memory_ops list_cmap" "memory_view list_cmap"
  by (rule memory_storage) (rule list_cmap.concurrent_map_axioms)

end
