(* ===== verification/Sandbox_Protocol.thy ===== *)
theory Sandbox_Protocol
  imports Sandbox_Memory
begin

text \<open>
  The transition protocol of one sandbox under every interleaving of the goroutines that use it.

  A configuration is the shared object and, per goroutine, where it is in \<^verbatim>\<open>startRemoving\<close>: about to
  take the lock, waiting for somebody else's transition, holding the callback of the transition it
  started, or done.  The steps are the critical sections of \<open>Sandbox_Memory\<close>; a goroutine that holds a
  callback runs it once, as \<^verbatim>\<open>RemoveSandbox\<close> (by \<^verbatim>\<open>defer\<close>) and \<^verbatim>\<open>CreateSnapshotTemplate\<close> (by \<^verbatim>\<open>sync.Once\<close>) do.
\<close>

datatype 'x goroutine =
    Idle
  | Entering RemoveOpts
  | Waiting nat State RemoveOpts
  | Owning StateAction
  | Finished "('x sandbox_error, bool \<times> callback) go"

record 'x sconf =
  scSbx :: "'x memorySandbox"
  scThreads :: "nat \<Rightarrow> 'x goroutine"

definition server_actions :: "StateAction set" where
  "server_actions = {StateActionPause, StateActionKill, StateActionSnapshot}"

definition sconf_init :: "Sandbox \<Rightarrow> 'x sconf" where
  "sconf_init d = \<lparr>scSbx = newMemorySandbox d, scThreads = (\<lambda>_. Idle)\<rparr>"

fun after_enter :: "RemoveOpts \<Rightarrow> 'x start_outcome \<Rightarrow> 'x goroutine" where
  "after_enter opts (WaitsFor t cur) = Waiting t cur opts"
| "after_enter opts (Returns (Ok (False, FinishCallback a))) = Owning a"
| "after_enter opts (Returns r) = Finished r"

fun after_woken :: "'x woken_outcome \<Rightarrow> 'x goroutine" where
  "after_woken (WokenReturns r) = Finished r"
| "after_woken (WokenRetries opts) = Entering opts"

inductive sstep :: "'x sconf \<Rightarrow> 'x sconf \<Rightarrow> bool" where
  sstep_call:
    "scThreads c i = Idle \<Longrightarrow> roAction opts \<in> server_actions \<Longrightarrow>
     sstep c (c\<lparr>scThreads := (scThreads c)(i := Entering opts)\<rparr>)"
| sstep_enter:
    "scThreads c i = Entering opts \<Longrightarrow> startRemoving_enter now now' (scSbx c) opts = (out, s') \<Longrightarrow>
     sstep c (c\<lparr>scSbx := s', scThreads := (scThreads c)(i := after_enter opts out)\<rparr>)"
| sstep_wake:
    "scThreads c i = Waiting t cur opts \<Longrightarrow>
     eo_WaitWithContext ctxDone pref (msOnces (scSbx c) ! t) = Some r \<Longrightarrow>
     sstep c (c\<lparr>scThreads := (scThreads c)(i := after_woken (startRemoving_woken r cur opts))\<rparr>)"
| sstep_finish:
    "scThreads c i = Owning a \<Longrightarrow> finishTransition a err (scSbx c) = (res, s') \<Longrightarrow>
     sstep c (c\<lparr>scSbx := s', scThreads := (scThreads c)(i := Finished (Ok (False, FinishCallback a)))\<rparr>)"
| sstep_update:
    "keeps_state f \<Longrightarrow> ms_Update team f (scSbx c) = (res, s') \<Longrightarrow> sstep c (c\<lparr>scSbx := s'\<rparr>)"
| sstep_expire: "sstep c (c\<lparr>scSbx := ms_SetExpired now (scSbx c)\<rparr>)"

inductive sreach :: "Sandbox \<Rightarrow> 'x sconf \<Rightarrow> bool" for d where
  sreach_init: "sreach d (sconf_init d)"
| sreach_step: "sreach d c \<Longrightarrow> sstep c c' \<Longrightarrow> sreach d c'"

inductive_cases sstep_elim: "sstep c c'"

subsection \<open>The invariant\<close>

text \<open>A transition in progress: its pointer is set and its \<^verbatim>\<open>ErrorOnce\<close> is not.\<close>

definition live :: "'x memorySandbox \<Rightarrow> bool" where
  "live s \<longleftrightarrow> (\<exists>t. msTransition s = Some t \<and> \<not> eo_Done (msOnces s ! t))"

definition ms_ok :: "'x memorySandbox \<Rightarrow> bool" where
  "ms_ok s \<longleftrightarrow>
     (\<forall>o1 \<in> set (msOnces s). eo_ok o1) \<and>
     (\<forall>t. msTransition s = Some t \<longrightarrow> t < length (msOnces s)) \<and>
     (\<forall>t < length (msOnces s). msTransition s = Some t \<or> eo_Done (msOnces s ! t)) \<and>
     (\<forall>t. msTransition s = Some t \<and> eo_Done (msOnces s ! t) \<longrightarrow>
        (\<exists>e. eo_Error (msOnces s ! t) = Fail (OnceErr e)) \<and> sState (msData s) \<in> {StatePausing, StateKilling}) \<and>
     (msTransition s \<noteq> None \<longrightarrow> sState (msData s) \<noteq> StateRunning)"

definition owner :: "'x sconf \<Rightarrow> nat \<Rightarrow> bool" where
  "owner c i \<longleftrightarrow> (\<exists>a. scThreads c i = Owning a)"

fun thread_ok :: "'x memorySandbox \<Rightarrow> 'x goroutine \<Rightarrow> bool" where
  "thread_ok s (Entering opts) \<longleftrightarrow> roAction opts \<in> server_actions"
| "thread_ok s (Waiting t cur opts) \<longleftrightarrow> roAction opts \<in> server_actions \<and> t < length (msOnces s)"
| "thread_ok s (Owning a) \<longleftrightarrow> a \<in> server_actions \<and> live s \<and> sState (msData s) = actTargetState a"
| "thread_ok s Idle \<longleftrightarrow> True"
| "thread_ok s (Finished r) \<longleftrightarrow> True"

definition sconf_ok :: "'x sconf \<Rightarrow> bool" where
  "sconf_ok c \<longleftrightarrow> ms_ok (scSbx c) \<and> (\<forall>i. thread_ok (scSbx c) (scThreads c i)) \<and>
     (\<forall>i j. owner c i \<longrightarrow> owner c j \<longrightarrow> i = j) \<and> (live (scSbx c) \<longrightarrow> (\<exists>i. owner c i))"

lemma server_action_target: "a \<in> server_actions \<Longrightarrow> actTargetState a \<noteq> StateRunning"
  by (auto simp: server_actions_def StateAction_defs)

lemma server_action_Transient:
  "a \<in> server_actions \<Longrightarrow> actEffect a = TransitionTransient \<longleftrightarrow> actTargetState a = StateSnapshotting"
  by (auto simp: server_actions_def StateAction_defs)

lemma not_live_start: "msTransition s = None \<Longrightarrow> \<not> live s"
  by (simp add: live_def)

text \<open>What entering does to the object: it starts a transition, or it leaves the object alone.\<close>

lemma enter_cases [consumes 1, case_names start wait return]:
  assumes "startRemoving_enter now now' s opts = (out, s')"
  obtains (start) "msTransition s = None" "AllowedTransitions (sState (msData s)) (actTargetState (roAction opts))"
      "out = Returns (Ok (False, FinishCallback (roAction opts)))"
      "s' = s\<lparr>msData := (if actEffect (roAction opts) = TransitionExpires then expireData now' (msData s)
            else msData s)\<lparr>sState := actTargetState (roAction opts)\<rparr>,
          msTransition := Some (length (msOnces s)), msOnces := msOnces s @ [NewErrorOnce]\<rparr>"
    | (wait) t where "msTransition s = Some t" "out = WaitsFor t (sState (msData s))" "s' = s" "\<not> roEviction opts"
    | (return) r where "out = Returns r" "\<And>a. r \<noteq> Ok (False, FinishCallback a)" "s' = s"
proof (cases "out = Returns (Ok (False, FinishCallback (roAction opts)))")
  case True
  with assms show thesis
    by (intro start) (simp_all add: startRemoving_enter_def Let_def split: if_splits option.splits)
next
  case False
  show thesis
  proof (cases out)
    case (WaitsFor t cur)
    with assms show thesis
      by (intro wait [of t]) (auto simp: startRemoving_enter_def Let_def split: if_splits option.splits)
  next
    case (Returns r)
    with assms False show thesis
      by (intro return [of r]) (auto simp: startRemoving_enter_def Let_def split: if_splits option.splits)
  qed
qed

lemma ms_ok_start:
  assumes "ms_ok s" "msTransition s = None" "st \<noteq> StateRunning"
  shows "ms_ok (s\<lparr>msData := d\<lparr>sState := st\<rparr>, msTransition := Some (length (msOnces s)),
      msOnces := msOnces s @ [NewErrorOnce]\<rparr>)"
    and "live (s\<lparr>msData := d\<lparr>sState := st\<rparr>, msTransition := Some (length (msOnces s)),
      msOnces := msOnces s @ [NewErrorOnce]\<rparr>)"
  using assms by (auto simp: ms_ok_def live_def nth_append less_Suc_eq)

text \<open>What the callback does: it ends the transition, and a failed pause or kill stays visible.\<close>

lemma finish_cases:
  assumes "ms_ok s" "live s" "a \<in> server_actions" "sState (msData s) = actTargetState a"
    and "finishTransition a err s = (res, s')"
  obtains t where "msTransition s = Some t" "t < length (msOnces s)" "res = Ok ()"
    "msOnces s' = (msOnces s)[t := snd (eo_SetError (msOnces s ! t)
       (if actEffect a = TransitionTransient then None else err))]"
    "eo_ok (msOnces s' ! t)" "eo_Done (msOnces s' ! t)"
    "eo_Wait (msOnces s' ! t) =
       Some (case (if actEffect a = TransitionTransient then None else err) of
               None \<Rightarrow> Ok () | Some e \<Rightarrow> Fail (OnceErr e))"
    "msTransition s' = (if actEffect a = TransitionTransient \<or> err = None then None else Some t)"
    "sState (msData s') =
       (if actEffect a = TransitionTransient \<and> err = None then StateRunning else sState (msData s))"
proof -
  from \<open>live s\<close> obtain t where t: "msTransition s = Some t" "\<not> eo_Done (msOnces s ! t)"
    by (auto simp: live_def)
  with \<open>ms_ok s\<close> have l: "t < length (msOnces s)" and ok: "eo_ok (msOnces s ! t)"
    by (auto simp: ms_ok_def)
  note set = eo_SetError_first [OF ok t(2)]
  show thesis
    by (rule that [of t]) (use assms(4,5) t l set in \<open>auto simp: finishTransition_def Let_def split: if_splits\<close>)
qed

lemma ms_ok_finish:
  assumes "ms_ok s" "live s" "a \<in> server_actions" "sState (msData s) = actTargetState a"
    and fin: "finishTransition a err s = (res, s')"
  shows "ms_ok s'" "\<not> live s'" "length (msOnces s') = length (msOnces s)"
proof -
  from finish_cases [OF assms] obtain t where t: "msTransition s = Some t" "t < length (msOnces s)"
    and onces: "msOnces s' = (msOnces s)[t := msOnces s' ! t]"
    and isdone: "eo_ok (msOnces s' ! t)" "eo_Done (msOnces s' ! t)"
    and wait: "eo_Wait (msOnces s' ! t) =
       Some (case (if actEffect a = TransitionTransient then None else err) of
               None \<Rightarrow> Ok () | Some e \<Rightarrow> Fail (OnceErr e))"
    and tr: "msTransition s' = (if actEffect a = TransitionTransient \<or> err = None then None else Some t)"
    and st: "sState (msData s') =
       (if actEffect a = TransitionTransient \<and> err = None then StateRunning else sState (msData s))"
    by (metis nth_list_update_eq)
  from onces show len: "length (msOnces s') = length (msOnces s)" by (metis length_list_update)
  from isdone tr show "\<not> live s'" by (auto simp: live_def split: if_splits)
  have others: "msOnces s' ! i = msOnces s ! i" if "i \<noteq> t" for i
    using onces that by (metis nth_list_update_neq)
  have oks: "\<forall>o1 \<in> set (msOnces s'). eo_ok o1"
    using \<open>ms_ok s\<close> isdone(1) onces set_update_subset_insert [of "msOnces s" t "msOnces s' ! t"]
    unfolding ms_ok_def by (metis insert_iff subsetD)
  have alldone: "eo_Done (msOnces s' ! i)" if "i < length (msOnces s')" for i
    using \<open>ms_ok s\<close> isdone(2) others [of i] t that len by (cases "i = t") (auto simp: ms_ok_def)
  have failed: "\<exists>e. eo_Error (msOnces s' ! t) = Fail (OnceErr e)" if "msTransition s' = Some t"
    using wait tr that isdone(2)
    by (auto simp: eo_Wait_def Wait_def eo_Error_def eo_Done_def split: if_splits option.splits)
  have "sState (msData s') \<in> {StatePausing, StateKilling}" if "msTransition s' = Some t"
    using tr st that assms(3,4) by (auto simp: server_actions_def StateAction_defs split: if_splits)
  with oks alldone failed tr t len show "ms_ok s'"
    unfolding ms_ok_def by (auto split: if_splits)
qed

subsection \<open>Every step preserves it\<close>

lemma thread_ok_mono:
  assumes "thread_ok s g" "length (msOnces s) \<le> length (msOnces s')" "\<And>a. g \<noteq> Owning a"
  shows "thread_ok s' g"
  using assms by (cases g) auto

lemma sconf_ok_init: "sconf_ok (sconf_init d)"
  by (simp add: sconf_ok_def sconf_init_def newMemorySandbox_def ms_ok_def live_def owner_def)

lemma sconf_ok_thread:
  assumes "sconf_ok c" "\<not> owner c i" "thread_ok (scSbx c) g" "\<And>a. g \<noteq> Owning a"
  shows "sconf_ok (c\<lparr>scThreads := (scThreads c)(i := g)\<rparr>)"
proof -
  have "owner (c\<lparr>scThreads := (scThreads c)(i := g)\<rparr>) j \<longleftrightarrow> owner c j" for j
    using assms(2,4) by (auto simp: owner_def)
  with assms(1,3) show ?thesis by (auto simp: sconf_ok_def)
qed

lemma sconf_ok_enter:
  assumes ok: "sconf_ok c" and th: "scThreads c i = Entering opts"
    and enter: "startRemoving_enter now now' (scSbx c) opts = (out, s')"
  shows "sconf_ok (c\<lparr>scSbx := s', scThreads := (scThreads c)(i := after_enter opts out)\<rparr>)"
proof -
  have act: "roAction opts \<in> server_actions"
    using ok th by (metis sconf_ok_def thread_ok.simps(1))
  have notown: "\<not> owner c i" using th by (simp add: owner_def)
  from enter show ?thesis
  proof (cases rule: enter_cases)
    case start
    have none: "\<not> owner c j" for j
      using ok not_live_start [OF start(1)] unfolding sconf_ok_def owner_def by (metis thread_ok.simps(3))
    have ok': "ms_ok s'" "live s'"
      using ms_ok_start [OF _ start(1) server_action_target [OF act]] ok start(4) by (auto simp: sconf_ok_def)
    have "thread_ok s' (scThreads c j)" for j
      by (rule thread_ok_mono [of "scSbx c"]) (use ok none [of j] start(4) in \<open>auto simp: sconf_ok_def owner_def\<close>)
    with ok' act start(3,4) none show ?thesis
      by (auto simp: sconf_ok_def owner_def)
  next
    case (wait t)
    have "t < length (msOnces (scSbx c))" using ok wait(1) by (auto simp: sconf_ok_def ms_ok_def)
    with sconf_ok_thread [OF ok notown, of "Waiting t (sState (msData (scSbx c))) opts"] act wait
    show ?thesis by simp
  next
    case (return r)
    have "after_enter opts out = Finished r"
      using return(1,2) by (cases "(opts, out)" rule: after_enter.cases) auto
    with sconf_ok_thread [OF ok notown, of "Finished r"] return(3) show ?thesis by simp
  qed
qed

lemma sconf_ok_woken:
  assumes ok: "sconf_ok c" and th: "scThreads c i = Waiting t cur opts"
  shows "sconf_ok (c\<lparr>scThreads := (scThreads c)(i := after_woken (startRemoving_woken r cur opts))\<rparr>)"
proof -
  have "roAction opts \<in> server_actions" using ok th by (metis sconf_ok_def thread_ok.simps(2))
  then show ?thesis
    by (intro sconf_ok_thread)
      (use ok th in \<open>auto simp: owner_def startRemoving_woken_def Let_def split: go.splits\<close>)
qed

lemma sconf_ok_finish:
  assumes ok: "sconf_ok c" and th: "scThreads c i = Owning a"
    and fin: "finishTransition a err (scSbx c) = (res, s')"
  shows "sconf_ok (c\<lparr>scSbx := s', scThreads := (scThreads c)(i := Finished r)\<rparr>)"
proof -
  have th': "a \<in> server_actions" "live (scSbx c)" "sState (msData (scSbx c)) = actTargetState a" and "ms_ok (scSbx c)"
    using ok th unfolding sconf_ok_def by (metis thread_ok.simps(3))+
  note fin' = ms_ok_finish [OF \<open>ms_ok (scSbx c)\<close> th'(2,1,3) fin]
  have only: "j = i" if "owner c j" for j
    using ok th that by (auto simp: sconf_ok_def owner_def)
  have "thread_ok s' (scThreads c j)" if "j \<noteq> i" for j
    by (rule thread_ok_mono [of "scSbx c"])
      (use ok only [of j] that fin'(3) in \<open>auto simp: sconf_ok_def owner_def\<close>)
  with fin' only show ?thesis by (auto simp: sconf_ok_def owner_def)
qed

text \<open>Updates and expiry touch neither the state nor the transition.\<close>

lemma sconf_ok_data:
  assumes ok: "sconf_ok c" and st: "sState d = sState (msData (scSbx c))"
  shows "sconf_ok (c\<lparr>scSbx := (scSbx c)\<lparr>msData := d\<rparr>\<rparr>)"
proof -
  let ?s = "(scSbx c)\<lparr>msData := d\<rparr>"
  have l: "live ?s = live (scSbx c)" by (simp add: live_def)
  have m: "ms_ok ?s = ms_ok (scSbx c)" using st by (simp add: ms_ok_def)
  have "thread_ok ?s g = thread_ok (scSbx c) g" for g
    using st l by (cases g) auto
  with ok l m show ?thesis by (simp add: sconf_ok_def owner_def)
qed

lemma ms_Update_cases:
  assumes "keeps_state f" "ms_Update team f s = (res, s')"
  obtains "s' = s" | d where "s' = s\<lparr>msData := d\<rparr>" "sState d = sState (msData s)" "sState d = StateRunning"
  using assms unfolding ms_Update_def keeps_state_def by (auto split: if_splits go.splits)

lemma sconf_ok_step: "sstep c c' \<Longrightarrow> sconf_ok c \<Longrightarrow> sconf_ok c'"
proof (induction rule: sstep.induct)
  case (sstep_call c i opts)
  then show ?case by (intro sconf_ok_thread) (auto simp: owner_def)
next
  case (sstep_update f team c res s')
  from sstep_update(1,2) show ?case
    by (rule ms_Update_cases) (use sstep_update(3) in \<open>auto intro: sconf_ok_data\<close>)
next
  case (sstep_expire c now)
  then show ?case unfolding ms_SetExpired_def by (intro sconf_ok_data) simp_all
qed (auto intro: sconf_ok_enter sconf_ok_woken sconf_ok_finish)

lemma sreach_ok: "sreach d c \<Longrightarrow> sconf_ok c"
  by (induction rule: sreach.induct) (auto intro: sconf_ok_init sconf_ok_step)

lemma sreach_star: "sstep\<^sup>*\<^sup>* c c' \<Longrightarrow> sreach d c \<Longrightarrow> sreach d c'"
  by (induction rule: rtranclp_induct) (auto intro: sreach_step)

subsection \<open>Consequences\<close>

text \<open>What an owner's callback finds, and what it leaves.\<close>

lemma owner_facts:
  assumes "sconf_ok c" "scThreads c i = Owning a"
  shows "a \<in> server_actions" "live (scSbx c)" "sState (msData (scSbx c)) = actTargetState a" "ms_ok (scSbx c)"
  using assms unfolding sconf_ok_def by (metis thread_ok.simps(3))+

lemma state_rank_step:
  assumes "sstep c c'" "sconf_ok c"
  shows "state_rank (sState (msData (scSbx c))) \<le> state_rank (sState (msData (scSbx c')))"
  using assms
proof (cases rule: sstep.cases)
  case (sstep_enter i opts now now' out s')
  from sstep_enter(3) show ?thesis
    by (cases rule: enter_cases) (use sstep_enter(1) in \<open>auto dest: AllowedTransitions_rank\<close>)
next
  case (sstep_finish i a err res s')
  note own = owner_facts [OF assms(2) sstep_finish(2)]
  from finish_cases [OF own(4,2,1,3) sstep_finish(3)] obtain t where
    "sState (msData s') = (if actEffect a = TransitionTransient \<and> err = None then StateRunning
       else sState (msData (scSbx c)))" .
  with own(1,3) sstep_finish(1) show ?thesis
    by (auto simp: server_actions_def StateAction_defs)
next
  case (sstep_update f team res s')
  from sstep_update(2,3) show ?thesis
    by (rule ms_Update_cases) (use sstep_update(1) in auto)
qed (auto simp: ms_SetExpired_def)

lemma state_rank_star:
  assumes "sstep\<^sup>*\<^sup>* c c'" "sconf_ok c"
  shows "sconf_ok c' \<and> state_rank (sState (msData (scSbx c))) \<le> state_rank (sState (msData (scSbx c')))"
  using assms
  by (induction rule: rtranclp_induct) (auto intro: sconf_ok_step dest: state_rank_step)

text \<open>A transition that failed stays: nothing replaces it and nothing changes its error.\<close>

definition failed_at :: "'x memorySandbox \<Rightarrow> nat \<Rightarrow> 'x \<Rightarrow> bool" where
  "failed_at s t e \<longleftrightarrow> msTransition s = Some t \<and> t < length (msOnces s) \<and>
     eo_Done (msOnces s ! t) \<and> eo_Error (msOnces s ! t) = Fail (OnceErr e)"

lemma failed_at_not_live: "failed_at s t e \<Longrightarrow> \<not> live s"
  by (auto simp: failed_at_def live_def)

lemma failed_at_step:
  assumes "sstep c c'" "sconf_ok c" "failed_at (scSbx c) t e"
  shows "failed_at (scSbx c') t e"
  using assms(1)
proof (cases rule: sstep.cases)
  case (sstep_enter i opts now now' out s')
  from sstep_enter(3) show ?thesis
    by (cases rule: enter_cases) (use sstep_enter(1) assms(3) in \<open>auto simp: failed_at_def\<close>)
next
  case (sstep_finish i a err res s')
  with owner_facts(2) [OF assms(2)] failed_at_not_live [OF assms(3)] show ?thesis by blast
next
  case (sstep_update f team res s')
  from sstep_update(2,3) show ?thesis
    by (rule ms_Update_cases) (use sstep_update(1) assms(3) in \<open>auto simp: failed_at_def\<close>)
qed (use assms(3) in \<open>auto simp: ms_SetExpired_def failed_at_def\<close>)

lemma failed_at_star:
  assumes "sstep\<^sup>*\<^sup>* c c'" "sconf_ok c" "failed_at (scSbx c) t e"
  shows "sconf_ok c' \<and> failed_at (scSbx c') t e"
  using assms
  by (induction rule: rtranclp_induct) (auto intro: sconf_ok_step failed_at_step)

lemma failed_enter:
  assumes "failed_at s t e"
  shows "startRemoving_enter now now' s opts =
    (if roEviction opts then Returns (Fail ErrEvictionInProgress)
     else if sState (msData s) \<noteq> actTargetState (roAction opts) \<and>
        \<not> AllowedTransitions (sState (msData s)) (actTargetState (roAction opts))
     then Returns (Fail (InvalidStateTransitionError (sState (msData s)) (actTargetState (roAction opts))))
     else WaitsFor t (sState (msData s)), s)"
    and "eo_WaitWithContext False pref (msOnces s ! t) = Some (Fail (OnceErr e))"
    and "startRemoving_woken (Fail (OnceErr e)) cur opts = WokenReturns (Fail (FailedState (OnceErr e)))"
  using assms
  by (simp_all add: failed_at_def startRemoving_enter_def startRemoving_woken_def Let_def
      eo_WaitWithContext_def WaitWithContext_def eo_Done_def eo_Error_def)

text \<open>A goroutine that waits can go on, or somebody holds the callback that lets it.\<close>

lemma waiter_has_owner:
  assumes "sconf_ok c" "scThreads c i = Waiting t cur opts" "\<not> eo_Done (msOnces (scSbx c) ! t)"
  obtains j a where "scThreads c j = Owning a" "msTransition (scSbx c) = Some t" "j \<noteq> i"
proof -
  have "t < length (msOnces (scSbx c))"
    using assms(1,2) unfolding sconf_ok_def by (metis thread_ok.simps(2))
  with assms(1,3) have tr: "msTransition (scSbx c) = Some t" by (auto simp: sconf_ok_def ms_ok_def)
  with assms(1,3) obtain j where "owner c j" by (auto simp: sconf_ok_def live_def)
  then obtain a where a: "scThreads c j = Owning a" by (auto simp: owner_def)
  with assms(2) have "j \<noteq> i" by auto
  with a tr show thesis by (rule that)
qed

lemma finish_wakes:
  assumes "sconf_ok c" "scThreads c j = Owning a" "msTransition (scSbx c) = Some t"
  shows "fst (finishTransition a err (scSbx c)) = Ok ()"
    and "eo_WaitWithContext False pref (msOnces (snd (finishTransition a err (scSbx c))) ! t) =
      Some (case (if actEffect a = TransitionTransient then None else err) of
              None \<Rightarrow> Ok () | Some e \<Rightarrow> Fail (OnceErr e))"
proof -
  note own = owner_facts [OF assms(1,2)]
  obtain res s' where fin: "finishTransition a err (scSbx c) = (res, s')" by fastforce
  from finish_cases [OF own(4,2,1,3) fin] assms(3)
  have "res = Ok ()" "eo_Done (msOnces s' ! t)"
    "eo_Wait (msOnces s' ! t) = Some (case (if actEffect a = TransitionTransient then None else err) of
              None \<Rightarrow> Ok () | Some e \<Rightarrow> Fail (OnceErr e))"
    by (metis option.inject)+
  with fin show "fst (finishTransition a err (scSbx c)) = Ok ()"
    "eo_WaitWithContext False pref (msOnces (snd (finishTransition a err (scSbx c))) ! t) =
      Some (case (if actEffect a = TransitionTransient then None else err) of
              None \<Rightarrow> Ok () | Some e \<Rightarrow> Fail (OnceErr e))"
    by (simp_all add: eo_Wait_def Wait_def eo_WaitWithContext_def WaitWithContext_def eo_Done_def)
qed

end
