(* ===== verification/Sandbox_Lifecycle.thy ===== *)
theory Sandbox_Lifecycle
  imports Sandbox_Store Sandbox_Protocol
begin

text \<open>
  The operations of the API server on a stored sandbox, \<^verbatim>\<open>packages/api/internal/orchestrator\<close>: removal
  (\<^verbatim>\<open>delete_instance.go\<close>), keep-alive (\<^verbatim>\<open>keep_alive.go\<close>, \<^verbatim>\<open>update_instance.go\<close>), network updates
  (\<^verbatim>\<open>update_network.go\<close>), auto-resume (\<^verbatim>\<open>autoresume.go\<close>) and the evictor (\<^verbatim>\<open>evictor/evict.go\<close>).

  The nodes are remote: \<open>node_env\<close> holds their answers, with \<open>'x\<close> for their errors, and every call to a
  node or to the routing catalog is an entry of a log.
\<close>

subsection \<open>Removal\<close>

datatype node_call = RouteDelete string string | NodePause string | NodeKill string

record 'x node_env =
  ne_Node :: "uuid \<Rightarrow> string \<Rightarrow> bool option"
  ne_Local :: bool
  ne_Pause :: "Sandbox \<Rightarrow> 'x option"
  ne_Kill :: "Sandbox \<Rightarrow> 'x option"
  ne_ForeignKey :: "'x \<Rightarrow> bool"

datatype 'x remove_error =
    NodeNotFound string
  | PauseFailedTemplateGone 'x
  | PauseFailed 'x
  | KillFailed 'x

text \<open>\<open>ne_Node\<close> is \<^verbatim>\<open>getOrConnectNode\<close>: \<open>None\<close> when there is no such node, else whether Nomad manages it.\<close>

definition killSandboxOnNode :: "'x node_env \<Rightarrow> Sandbox \<Rightarrow> 'x remove_error option \<times> node_call list" where
  "killSandboxOnNode env sbx = (map_option KillFailed (ne_Kill env sbx), [NodeKill (SandboxID sbx)])"

definition removeSandboxFromNode ::
  "'x node_env \<Rightarrow> Sandbox \<Rightarrow> StateAction \<Rightarrow> 'x remove_error option \<times> node_call list" where
  "removeSandboxFromNode env sbx stateAction =
     (case ne_Node env (ClusterID sbx) (NodeID sbx) of
        None \<Rightarrow> (Some (NodeNotFound (NodeID sbx)), [])
      | Some nomad \<Rightarrow>
          (let route = (if nomad \<or> ne_Local env then [RouteDelete (SandboxID sbx) (ExecutionID sbx)] else [])
           in if stateAction = StateActionPause then
                (case ne_Pause env sbx of
                   None \<Rightarrow> (None, route @ [NodePause (SandboxID sbx)])
                 | Some err \<Rightarrow>
                     if ne_ForeignKey env err
                     then (Some (PauseFailedTemplateGone err),
                           route @ [NodePause (SandboxID sbx)] @ snd (killSandboxOnNode env sbx))
                     else (Some (PauseFailed err), route @ [NodePause (SandboxID sbx)]))
              else if stateAction = StateActionKill then
                (fst (killSandboxOnNode env sbx), route @ snd (killSandboxOnNode env sbx))
              else (None, route)))"

definition killOrphanSandbox :: "'x node_env \<Rightarrow> Sandbox \<Rightarrow> node_call list" where
  "killOrphanSandbox env sbx =
     (case ne_Node env (ClusterID sbx) (NodeID sbx) of None \<Rightarrow> [] | Some _ \<Rightarrow> snd (killSandboxOnNode env sbx))"

datatype 'y rm_error =
    ErrSandboxNotFound
  | ErrSandboxOperationFailed
  | SandboxInState State
  | EvictionError "'y sandbox_error"

text \<open>
  What \<^verbatim>\<open>RemoveSandbox\<close> answers when \<^verbatim>\<open>StartRemoving\<close> failed; \<open>state\<close> is the state of the sandbox that
  \<^verbatim>\<open>StartRemoving\<close> returned, the empty state when there was none.
\<close>

definition removeStartError ::
  "RemoveOpts \<Rightarrow> State option \<Rightarrow> 'y sandbox_error \<Rightarrow> ('y rm_error, unit) go" where
  "removeStartError opts state err =
     (if roEviction opts then Fail (EvictionError err)
      else if roAction opts = StateActionKill then
        (if err = ErrNotFound then Fail ErrSandboxNotFound
         else if state = Some StateKilling then Ok ()
         else Fail ErrSandboxOperationFailed)
      else if roAction opts = StateActionPause then
        (if err = ErrNotFound then Fail ErrSandboxNotFound
         else (case err of
                 InvalidStateTransitionError current target \<Rightarrow>
                   if current = StateKilling then Fail ErrSandboxNotFound else Fail (SandboxInState current)
               | _ \<Rightarrow> Fail ErrSandboxOperationFailed))
      else Fail ErrSandboxOperationFailed)"

text \<open>
  \<^verbatim>\<open>RemoveSandbox\<close> once \<^verbatim>\<open>StartRemoving\<close> has answered \<open>started\<close> with the data \<open>sbx\<close>.  \<open>obj\<close> is the object
  the transition belongs to.  The deferred calls run in reverse: the store forgets the sandbox, then
  the callback reports the error of the node, and only that error, to the object.
\<close>

definition RemoveSandbox ::
  "('s, 'x remove_error) storage_ops \<Rightarrow> ('r, 'x remove_error) reservation_ops \<Rightarrow> 'x node_env \<Rightarrow> ('s, 'r) Store \<Rightarrow>
   'x remove_error memorySandbox \<Rightarrow> uuid \<Rightarrow> string \<Rightarrow> RemoveOpts \<Rightarrow> Sandbox option \<Rightarrow>
   ('x remove_error sandbox_error, bool \<times> callback) go \<Rightarrow>
   ('x remove_error rm_error, unit) go \<times> ('s, 'r) Store \<times> 'x remove_error memorySandbox \<times> node_call list" where
  "RemoveSandbox sops rops env st obj teamID sandboxID opts sbx started =
     (case started of
        Fail err \<Rightarrow> (removeStartError opts (map_option sState sbx) err, st, obj, [])
      | Panic \<Rightarrow> (Panic, st, obj, [])
      | Ok (alreadyDone, cb) \<Rightarrow>
          (let finish = (\<lambda>err. (case cb of NoopCallback \<Rightarrow> obj | FinishCallback a \<Rightarrow> snd (finishTransition a err obj)))
           in if alreadyDone then (Ok (), st, finish None, [])
              else
                (let (err, calls) = removeSandboxFromNode env (the sbx) (roAction opts);
                     st1 = ss_Remove sops rops st teamID sandboxID
                 in (if err \<noteq> None then Fail ErrSandboxOperationFailed else Ok (), st1, finish err, calls))))"

subsection \<open>Keep-alive and network updates\<close>

datatype 'y api_error = APIError int "'y sandbox_error option"

text \<open>The answer of the node to an update: done, not found, or another error.\<close>

datatype node_update = NodeUpdated | NodeMissing | NodeUpdateFailed

definition updateErrorCode :: "bool \<Rightarrow> 'y sandbox_error \<Rightarrow> int" where
  "updateErrorCode keepAlive err =
     (case err of
        NotRunningError _ _ \<Rightarrow> 409
      | ErrNotFound \<Rightarrow> 404
      | ErrMaxInstanceLength \<Rightarrow> if keepAlive then 400 else 500
      | _ \<Rightarrow> 500)"

definition nodeUpdateResult :: "node_update \<Rightarrow> 'a \<Rightarrow> ('y api_error, 'a) go" where
  "nodeUpdateResult nu a =
     (case nu of
        NodeUpdated \<Rightarrow> Ok a
      | NodeMissing \<Rightarrow> Fail (APIError 404 None)
      | NodeUpdateFailed \<Rightarrow> Fail (APIError 500 None))"

definition KeepAliveFor ::
  "('s, 'x) storage_ops \<Rightarrow> time \<Rightarrow> time \<Rightarrow> (Sandbox \<Rightarrow> node_update) \<Rightarrow> ('s, 'r) Store \<Rightarrow> uuid \<Rightarrow> string \<Rightarrow>
   duration \<Rightarrow> bool \<Rightarrow> ('x api_error, Sandbox) go \<times> ('s, 'r) Store" where
  "KeepAliveFor sops now now' UpdateSandbox st teamID sandboxID dur allowShorter =
     (let (r, st1) = ss_Update sops st teamID sandboxID (keepAliveUpdate now now' sandboxID dur allowShorter)
      in (case r of
            Fail err \<Rightarrow> (Fail (APIError (updateErrorCode True err) (Some err)), st1)
          | Panic \<Rightarrow> (Panic, st1)
          | Ok sbx \<Rightarrow> (nodeUpdateResult (UpdateSandbox sbx) sbx, st1)))"

definition UpdateSandboxNetworkConfig ::
  "('s, 'x) storage_ops \<Rightarrow> (Sandbox \<Rightarrow> node_update) \<Rightarrow> ('s, 'r) Store \<Rightarrow> uuid \<Rightarrow> string \<Rightarrow> string list \<Rightarrow> string list \<Rightarrow>
   ('x api_error, unit) go \<times> ('s, 'r) Store" where
  "UpdateSandboxNetworkConfig sops updateOnNode st teamID sandboxID allowedEntries deniedEntries =
     (let (r, st1) = ss_Update sops st teamID sandboxID (networkUpdate sandboxID allowedEntries deniedEntries)
      in (case r of
            Fail err \<Rightarrow> (Fail (APIError (updateErrorCode False err) (Some err)), st1)
          | Panic \<Rightarrow> (Panic, st1)
          | Ok sbx \<Rightarrow> (nodeUpdateResult (updateOnNode sbx) (), st1)))"

subsection \<open>The evictor\<close>

text \<open>One tick: the removals it asks for.\<close>

definition evictRequest :: "Sandbox \<Rightarrow> uuid \<times> string \<times> RemoveOpts" where
  "evictRequest item =
     (TeamID item, SandboxID item,
      \<lparr>roAction = (if AutoPause item then StateActionPause else StateActionKill), roEviction = True\<rparr>)"

definition evictTick :: "('s, 'x) storage_ops \<Rightarrow> ('s, 'r) Store \<Rightarrow> time \<Rightarrow> (uuid \<times> string \<times> RemoveOpts) list" where
  "evictTick sops st now = map evictRequest (ss_ExpiredItems sops st now)"

subsection \<open>Auto-resume of an existing sandbox\<close>

definition MaxAutoResumeTransitionRetries :: nat where
  "MaxAutoResumeTransitionRetries = 3"

datatype resume_error =
    StillTransitioning
  | ResumeContext
  | WaitPauseFailed
  | WaitSnapshotFailed
  | RefreshFailed
  | ResumeNotFound
  | NoRoute

text \<open>
  \<open>waits n\<close> is what the \<open>n\<close>-th wait for the transition answers, \<open>gets n\<close> the refresh that follows it.  A
  failed wait carries whether the wait budget ran out while the caller's context was still good, and
  whether the error is a context error.
\<close>

record resume_env =
  re_waits :: "nat \<Rightarrow> (bool \<times> bool) option"
  re_gets :: "nat \<Rightarrow> (unit sandbox_error, Sandbox) go"
  re_node :: "Sandbox \<Rightarrow> string option"

function HandleExistingSandboxAutoResume ::
  "resume_env \<Rightarrow> nat \<Rightarrow> Sandbox \<Rightarrow> (resume_error, string option) go \<times> nat" where
  "HandleExistingSandboxAutoResume env attempts sbx =
     (case sState sbx of
        StateKilling \<Rightarrow> (Fail ResumeNotFound, attempts)
      | StateRunning \<Rightarrow>
          (case re_node env sbx of None \<Rightarrow> (Fail NoRoute, attempts) | Some ip \<Rightarrow> (Ok (Some ip), attempts))
      | transitioning \<Rightarrow>
          if attempts \<ge> MaxAutoResumeTransitionRetries then (Fail StillTransitioning, attempts)
          else
            (let attempts' = attempts + 1
             in (case re_waits env attempts' of
                   Some (budget, ctxErr) \<Rightarrow>
                     if budget then (Fail StillTransitioning, attempts')
                     else if ctxErr then (Fail ResumeContext, attempts')
                     else (Fail (if transitioning = StatePausing then WaitPauseFailed else WaitSnapshotFailed), attempts')
                 | None \<Rightarrow>
                     (case re_gets env attempts' of
                        Ok updated \<Rightarrow> HandleExistingSandboxAutoResume env attempts' updated
                      | Fail ErrNotFound \<Rightarrow> (Ok None, attempts')
                      | _ \<Rightarrow> (Fail RefreshFailed, attempts')))))"
  by pat_completeness auto

termination HandleExistingSandboxAutoResume
  by (relation "measure (\<lambda>(_, attempts, _). MaxAutoResumeTransitionRetries - attempts)") auto

declare HandleExistingSandboxAutoResume.simps [simp del]

lemma autoResume_attempts:
  assumes "attempts \<le> MaxAutoResumeTransitionRetries"
  shows "attempts \<le> snd (HandleExistingSandboxAutoResume env attempts sbx) \<and>
    snd (HandleExistingSandboxAutoResume env attempts sbx) \<le> MaxAutoResumeTransitionRetries"
  using assms
proof (induction env attempts sbx rule: HandleExistingSandboxAutoResume.induct)
  case (1 env attempts sbx)
  have rec: "attempts \<le> snd (HandleExistingSandboxAutoResume env (attempts + 1) updated) \<and>
      snd (HandleExistingSandboxAutoResume env (attempts + 1) updated) \<le> MaxAutoResumeTransitionRetries"
    if "sState sbx \<in> {StatePausing, StateSnapshotting}" "\<not> MaxAutoResumeTransitionRetries \<le> attempts"
      "re_waits env (attempts + 1) = None" "re_gets env (attempts + 1) = Ok updated" for updated
    using 1(1,2) [of "attempts + 1" updated] that by fastforce
  show ?case
    using rec 1(3)
    by (subst (1 2) HandleExistingSandboxAutoResume.simps)
      (auto simp: Let_def split: State.splits option.splits go.splits sandbox_error.splits)
qed

lemma autoResume_address:
  assumes "fst (HandleExistingSandboxAutoResume env attempts sbx) = Ok (Some ip)"
  shows "\<exists>d. sState d = StateRunning \<and> re_node env d = Some ip \<and> (d = sbx \<or> (\<exists>n. re_gets env n = Ok d))"
  using assms
proof (induction env attempts sbx rule: HandleExistingSandboxAutoResume.induct)
  case (1 env attempts sbx)
  show ?case
  proof (cases "sState sbx = StateRunning")
    case True
    with 1(3) show ?thesis by (subst (asm) HandleExistingSandboxAutoResume.simps) (auto split: option.splits)
  next
    case False
    with 1(3) obtain updated where st: "sState sbx \<in> {StatePausing, StateSnapshotting}"
      and lt: "\<not> MaxAutoResumeTransitionRetries \<le> attempts" and "re_waits env (attempts + 1) = None"
      and get: "re_gets env (attempts + 1) = Ok updated"
      and "fst (HandleExistingSandboxAutoResume env (attempts + 1) updated) = Ok (Some ip)"
      by (subst (asm) HandleExistingSandboxAutoResume.simps)
        (auto simp: Let_def split: State.splits option.splits go.splits sandbox_error.splits if_splits)
    with 1(1,2) [of "attempts + 1" updated] have "\<exists>d. sState d = StateRunning \<and> re_node env d = Some ip \<and>
        (d = updated \<or> (\<exists>n. re_gets env n = Ok d))"
      by fastforce
    with get show ?thesis by blast
  qed
qed

subsection \<open>The stored sandboxes as a state machine\<close>

text \<open>
  The calls that change the storage, with the clock they read: an instant after the start of the
  sandbox, and a second one that is not earlier.  A maximal length is a non-negative duration below
  the largest one.
\<close>

definition length_ok :: "Sandbox \<Rightarrow> bool" where
  "length_ok d \<longleftrightarrow> 0 \<le> MaxInstanceLength d \<and> MaxInstanceLength d < 9223372036854775807"

inductive api_step ::
  "('m, 'x memorySandbox) cmap_ops \<Rightarrow> ('r, 'x) reservation_ops \<Rightarrow> ('m, 'r) Store \<Rightarrow> ('m, 'r) Store \<Rightarrow> bool"
  for cm rops where
  api_add: "length_ok sbx \<Longrightarrow> api_step cm rops st (snd (ss_Add (memory_ops cm) rops st sbx new))"
| api_remove: "api_step cm rops st (ss_Remove (memory_ops cm) rops st team i)"
| api_keepalive:
    "(\<And>d. memory_view cm (stStorage st) i = Some d \<Longrightarrow> StartTime d \<le> now) \<Longrightarrow> now \<le> now' \<Longrightarrow>
     api_step cm rops st (snd (KeepAliveFor (memory_ops cm) now now' upd st team i dur short))"
| api_network:
    "api_step cm rops st (snd (UpdateSandboxNetworkConfig (memory_ops cm) upd st team i allowed denied))"
| api_start: "api_step cm rops st (snd (ss_StartRemoving (memory_ops cm) now now' st team i opts))"
| api_finish: "api_step cm rops st (st\<lparr>stStorage := so_finish (memory_ops cm) (stStorage st) i action err\<rparr>)"
| api_reconcile:
    "(\<And>d. d \<in> set sbxs \<Longrightarrow> length_ok d) \<Longrightarrow>
     api_step cm rops st (ss_Reconcile (memory_ops cm) rops now clk st sbxs node)"

inductive api_reach ::
  "('m, 'x memorySandbox) cmap_ops \<Rightarrow> ('r, 'x) reservation_ops \<Rightarrow> 'r \<Rightarrow> ('m, 'r) Store \<Rightarrow> bool"
  for cm rops r0 where
  api_init: "api_reach cm rops r0 (NewStore (NewStorage cm) r0)"
| api_next: "api_reach cm rops r0 st \<Longrightarrow> api_step cm rops st st' \<Longrightarrow> api_reach cm rops r0 st'"

definition data_ok :: "string \<Rightarrow> Sandbox \<Rightarrow> bool" where
  "data_ok i d \<longleftrightarrow> SandboxID d = i \<and> length_ok d \<and> within_limit d"

definition stored_ok :: "('m, 'x memorySandbox) cmap_ops \<Rightarrow> 'm \<Rightarrow> bool" where
  "stored_ok cm m \<longleftrightarrow> (\<forall>i item. cm_Get cm m i = Some item \<longrightarrow> data_ok i (msData item))"

lemma within_limit_cap: "length_ok d \<Longrightarrow> within_limit (capEndTime d)"
  using time_Sub_le [of "EndTime d" "StartTime d" "MaxInstanceLength d"]
  by (auto simp: within_limit_def capEndTime_def length_ok_def)

lemma within_limit_expire: "within_limit d \<Longrightarrow> within_limit (expireData now d)"
  by (simp add: within_limit_def EndTime_expireData)

lemma within_limit_keepAlive:
  assumes "keepAliveUpdate now now' i dur short d = Ok d'" "within_limit d" "length_ok d"
    and "StartTime d \<le> now" "now \<le> now'"
  shows "within_limit d'"
proof -
  let ?ttl = "getMaxAllowedTTL now (StartTime d) dur (MaxInstanceLength d)"
  have since: "time_Sub now' (StartTime d) \<le> MaxInstanceLength d"
    using assms(1) by (simp add: keepAliveUpdate_def Let_def split: if_splits)
  from time_Sub_le [OF this] assms(3) have now': "now' \<le> StartTime d + MaxInstanceLength d"
    by (simp add: length_ok_def)
  have sub: "time_Sub now (StartTime d) = now - StartTime d"
    using now' assms(3,4,5) by (simp add: time_Sub_def length_ok_def)
  have "now + ?ttl \<le> StartTime d + MaxInstanceLength d"
    using now' assms(3,4,5) by (simp add: getMaxAllowedTTL_def sub Let_def length_ok_def min_def)
  with assms(1,2) show ?thesis
    by (auto simp: keepAliveUpdate_def within_limit_def Let_def split: if_splits)
qed

text \<open>Each operation on one object keeps it.\<close>

lemma data_ok_state [simp]: "data_ok i (d\<lparr>sState := x\<rparr>) = data_ok i d"
  by (simp add: data_ok_def length_ok_def within_limit_def)

lemma data_ok_expire: "data_ok i d \<Longrightarrow> data_ok i (expireData now d)"
  by (auto simp: data_ok_def within_limit_expire length_ok_def)

lemma data_ok_cap: "length_ok d \<Longrightarrow> data_ok (SandboxID d) (capEndTime d)"
  using within_limit_cap [of d] by (auto simp: data_ok_def length_ok_def capEndTime_def)

lemma data_ok_enter: "data_ok i (msData s) \<Longrightarrow> data_ok i (msData (snd (startRemoving_enter now now' s opts)))"
  by (simp add: startRemoving_enter_def Let_def data_ok_expire split: option.splits)

lemma data_ok_finish: "data_ok i (msData s) \<Longrightarrow> data_ok i (msData (snd (finishTransition a err s)))"
  by (simp add: finishTransition_def Let_def split: option.splits)

lemma data_ok_Update:
  assumes "data_ok i (msData s)" "\<And>d'. f (msData s) = Ok d' \<Longrightarrow> data_ok i d'"
  shows "data_ok i (msData (snd (ms_Update team f s)))"
  using assms by (auto simp: ms_Update_def split: go.splits)

lemma data_ok_reconcile: "data_ok i (msData s) \<Longrightarrow> data_ok i (msData (reconcileItem now clk sbxs node s))"
  by (simp add: reconcileItem_def Let_def ms_SetExpired_def data_ok_expire)

lemma data_ok_keepAlive:
  assumes "keepAliveUpdate now now' j dur short d = Ok d'" "data_ok i d" "StartTime d \<le> now" "now \<le> now'"
  shows "data_ok i d'"
proof -
  have "SandboxID d' = SandboxID d \<and> MaxInstanceLength d' = MaxInstanceLength d"
    using assms(1) by (auto simp: keepAliveUpdate_def Let_def split: if_splits)
  with within_limit_keepAlive [OF assms(1)] assms show ?thesis by (simp add: data_ok_def length_ok_def)
qed

lemma data_ok_network: "networkUpdate j allowed denied d = Ok d' \<Longrightarrow> data_ok i d \<Longrightarrow> data_ok i d'"
  by (auto simp: networkUpdate_def Let_def data_ok_def length_ok_def within_limit_def split: if_splits)

text \<open>So does each operation on the storage.\<close>

lemma stored_ok_Set:
  "concurrent_map cm \<Longrightarrow> stored_ok cm m \<Longrightarrow> data_ok i (msData item) \<Longrightarrow> stored_ok cm (cm_Set cm m i item)"
  by (simp add: stored_ok_def concurrent_map.Get_Set)

lemma stored_ok_ss_Update:
  assumes "concurrent_map cm" "stored_ok cm (stStorage st)"
    and "\<And>d d'. memory_view cm (stStorage st) i = Some d \<Longrightarrow> f d = Ok d' \<Longrightarrow> data_ok i d \<Longrightarrow> data_ok i d'"
  shows "stored_ok cm (stStorage (snd (ss_Update (memory_ops cm) st team i f)))"
proof (cases "cm_Get cm (stStorage st) i")
  case None
  with assms(2) show ?thesis by (simp add: ss_Update_def memory_ops_def st_Update_def)
next
  case (Some item)
  with assms(2) have ok: "data_ok i (msData item)" by (simp add: stored_ok_def)
  have "data_ok i (msData (snd (ms_Update team f item)))"
    by (rule data_ok_Update [OF ok]) (use assms(3) Some ok in \<open>simp add: memory_view_def\<close>)
  with stored_ok_Set [OF assms(1,2)] Some show ?thesis
    by (simp add: ss_Update_def memory_ops_def st_Update_def split_def Let_def)
qed

lemma stored_ok_ss_Add:
  assumes "concurrent_map cm" "stored_ok cm (stStorage st)" "length_ok sbx"
  shows "stored_ok cm (stStorage (snd (ss_Add (memory_ops cm) rops st sbx new)))"
proof -
  have "cm_Get cm (snd (cm_SetIfAbsent cm (stStorage st) (SandboxID sbx) (newMemorySandbox (capEndTime sbx)))) i = Some item \<Longrightarrow>
      data_ok i (msData item)" for i item
    using assms(2) data_ok_cap [OF assms(3)]
    by (auto simp: stored_ok_def concurrent_map.Get_SetIfAbsent [OF assms(1)] newMemorySandbox_def split: if_splits)
  moreover have "stStorage (snd (ss_Add (memory_ops cm) rops st sbx new)) =
      snd (cm_SetIfAbsent cm (stStorage st) (SandboxID sbx) (newMemorySandbox (capEndTime sbx)))"
  proof -
    have "SandboxID (capEndTime sbx) = SandboxID sbx" by (simp add: capEndTime_def)
    then show ?thesis by (simp add: ss_Add_def memory_ops_def st_Add_def Let_def split_def)
  qed
  ultimately show ?thesis by (simp add: stored_ok_def)
qed

lemma stored_ok_fold_Add:
  assumes "concurrent_map cm"
  shows "stored_ok cm (stStorage st) \<Longrightarrow> (\<And>d. d \<in> set sbxs \<Longrightarrow> length_ok d) \<Longrightarrow>
    stored_ok cm (stStorage (fold (\<lambda>sbx st. snd (ss_Add (memory_ops cm) rops st sbx False)) sbxs st))"
  by (induction sbxs arbitrary: st) (auto intro: stored_ok_ss_Add [OF assms])

lemma stored_ok_Reconcile:
  assumes "concurrent_map cm" "stored_ok cm (stStorage st)" "\<And>d. d \<in> set sbxs \<Longrightarrow> length_ok d"
  shows "stored_ok cm (stStorage (ss_Reconcile (memory_ops cm) rops now clk st sbxs node))"
proof -
  have "stored_ok cm (reconcileExpire cm now clk sbxs node (stStorage st))"
    using assms(2) by (auto simp: stored_ok_def Get_reconcileExpire [OF assms(1)] data_ok_reconcile)
  then show ?thesis
    using assms(3)
    by (auto simp: ss_Reconcile_def memory_ops_sel StorageNameRedis_def st_Reconcile_def Let_def
        intro!: stored_ok_fold_Add [OF assms(1)])
qed

lemma stored_ok_step:
  assumes cm: "concurrent_map cm" and "api_step cm rops st st'" "stored_ok cm (stStorage st)"
  shows "stored_ok cm (stStorage st')"
  using assms(2,3)
proof (induction rule: api_step.induct)
  case (api_add sbx st new)
  then show ?case by (intro stored_ok_ss_Add [OF cm])
next
  case (api_remove st team i)
  then show ?case
    by (auto simp: ss_Remove_def memory_ops_def st_Remove_def stored_ok_def concurrent_map.Get_Remove [OF cm]
        split: if_splits)
next
  case (api_keepalive st i now now' upd team dur short)
  have "stored_ok cm (stStorage (snd (ss_Update (memory_ops cm) st team i (keepAliveUpdate now now' i dur short))))"
    by (rule stored_ok_ss_Update [OF cm api_keepalive(3)]) (use api_keepalive(1,2) data_ok_keepAlive in blast)
  then show ?case by (simp add: KeepAliveFor_def split_def Let_def split: go.splits)
next
  case (api_network st upd team i allowed denied)
  have "stored_ok cm (stStorage (snd (ss_Update (memory_ops cm) st team i (networkUpdate i allowed denied))))"
    by (rule stored_ok_ss_Update [OF cm api_network]) (use data_ok_network in blast)
  then show ?case by (simp add: UpdateSandboxNetworkConfig_def split_def Let_def split: go.splits)
next
  case (api_start now now' st team i opts)
  then show ?case
    by (auto simp: ss_StartRemoving_def memory_ops_def st_StartRemoving_def st_get_def split_def Let_def
        intro!: stored_ok_Set [OF cm] data_ok_enter split: option.splits) (simp add: stored_ok_def)
next
  case (api_finish st i action err)
  then show ?case
    by (auto simp: memory_ops_def st_finish_def intro!: stored_ok_Set [OF cm] data_ok_finish split: option.splits)
      (simp add: stored_ok_def)
next
  case (api_reconcile sbxs st now clk node)
  then show ?case by (intro stored_ok_Reconcile [OF cm])
qed

lemma api_reach_ok:
  assumes "concurrent_map cm" "api_reach cm rops r0 st"
  shows "stored_ok cm (stStorage st)"
  using assms(2)
proof (induction rule: api_reach.induct)
  case api_init
  show ?case by (simp add: NewStore_def NewStorage_def stored_ok_def concurrent_map.Get_New [OF assms(1)])
qed (rule stored_ok_step [OF assms(1)])

end
