(* ===== verification/Sandbox_Properties.thy ===== *)
theory Sandbox_Properties
  imports Sandbox_Lifecycle
begin

text \<open>
  The properties of the API server's sandbox store: the transition protocol of one sandbox under every
  interleaving, the team limits, the lifetime bound, and the operations that compose them.
\<close>

subsection \<open>A run for the witnesses\<close>

text \<open>A sandbox; caller 0 kills it and holds the callback, caller 1 wants to kill it too and waits.\<close>

definition demo_sbx :: Sandbox where
  "demo_sbx = NewSandbox ''i'' ''t'' ''c'' None ''e'' uuid_Nil uuid_Nil Map.empty 100 0 50 2 512 512 ''k'' ''f'' ''v'' ''n'' uuid_Nil
     False None None None ''b'' None None None []"

definition demo_kill :: RemoveOpts where
  "demo_kill = \<lparr>roAction = StateActionKill, roEviction = False\<rparr>"

definition demo_killing :: "'x memorySandbox" where
  "demo_killing = \<lparr>msData = demo_sbx\<lparr>EndTime := 10, sState := StateKilling\<rparr>, msTransition = Some 0, msOnces = [NewErrorOnce]\<rparr>"

definition demo_conf :: "'x sconf" where
  "demo_conf = \<lparr>scSbx = demo_killing,
     scThreads = (\<lambda>_. Idle)(0 := Owning StateActionKill, 1 := Waiting 0 StateKilling demo_kill)\<rparr>"

definition demo_failed :: "unit sconf" where
  "demo_failed = \<lparr>scSbx = demo_killing\<lparr>msOnces := [\<lparr>soDone = True, soRes = Some (Inl ())\<rparr>]\<rparr>,
     scThreads = (scThreads demo_conf)(0 := Finished (Ok (False, FinishCallback StateActionKill)))\<rparr>"

lemma demo_kill_action: "roAction demo_kill \<in> server_actions"
  by (simp add: demo_kill_def server_actions_def)

lemma demo_enter:
  "startRemoving_enter 10 10 (newMemorySandbox demo_sbx) demo_kill =
     (Returns (Ok (False, FinishCallback StateActionKill)), demo_killing)"
  "startRemoving_enter 10 10 demo_killing demo_kill = (WaitsFor 0 StateKilling, demo_killing)"
  by (simp_all add: startRemoving_enter_def newMemorySandbox_def demo_kill_def demo_killing_def demo_sbx_def
      NewSandbox_def StateActionKill_def AllowedTransitions_def expireData_def IsExpired_def)

lemma demo_finish:
  "finishTransition StateActionKill (Some ()) demo_killing = (Ok (), scSbx demo_failed)"
  by (simp add: finishTransition_def StateActionKill_def demo_killing_def demo_failed_def eo_SetError_def
      setResult_def NewErrorOnce_def NewSetOnce_def)

lemma demo_reach: "sreach demo_sbx (demo_conf :: 'x sconf)"
proof -
  let ?c1 = "sconf_init demo_sbx\<lparr>scThreads := (scThreads (sconf_init demo_sbx))(0 := Entering demo_kill)\<rparr>"
  have 1: "sreach demo_sbx (?c1 :: 'x sconf)"
    by (rule sreach_step [OF sreach_init]) (rule sstep_call [OF _ demo_kill_action], simp add: sconf_init_def)
  let ?c2 = "?c1\<lparr>scSbx := demo_killing, scThreads := (scThreads ?c1)(0 := Owning StateActionKill)\<rparr>"
  have 2: "sreach demo_sbx (?c2 :: 'x sconf)"
    using sstep_enter [of ?c1 0 demo_kill 10 10 _ demo_killing] demo_enter(1)
    by (intro sreach_step [OF 1]) (fastforce simp: sconf_init_def)
  let ?c3 = "?c2\<lparr>scThreads := (scThreads ?c2)(1 := Entering demo_kill)\<rparr>"
  have 3: "sreach demo_sbx (?c3 :: 'x sconf)"
    by (rule sreach_step [OF 2]) (rule sstep_call [OF _ demo_kill_action], simp add: sconf_init_def)
  have 4: "sreach demo_sbx ((?c3 :: 'x sconf)\<lparr>scSbx := demo_killing,
      scThreads := (scThreads ?c3)(1 := Waiting 0 StateKilling demo_kill)\<rparr>)"
    using sstep_enter [of ?c3 1 demo_kill 10 10 _ demo_killing] demo_enter(2)
    by (intro sreach_step [OF 3]) (fastforce simp: sconf_init_def)
  show ?thesis using 4 by (simp add: sconf_init_def demo_conf_def)
qed

lemma demo_failed_step: "sstep demo_conf demo_failed"
  using sstep_finish [of demo_conf 0 StateActionKill "Some ()" "Ok ()" "scSbx demo_failed"] demo_finish
  by (simp add: demo_conf_def demo_failed_def)

lemma demo_failed_reach: "sreach demo_sbx demo_failed"
  by (rule sreach_step [OF demo_reach demo_failed_step])

subsection \<open>The transition protocol\<close>

text \<open>
  C12.  One transition at a time.  In every reachable configuration at most one goroutine holds the
  callback of a transition; while one does, the sandbox is in the target state of that transition and
  its \<^verbatim>\<open>ErrorOnce\<close> is not set.  A running sandbox has no transition and nobody holds a callback.
\<close>

theorem one_transition_at_a_time:
  assumes "sreach d c"
  shows "(owner c i \<and> owner c j \<longrightarrow> i = j) \<and>
    (scThreads c i = Owning a \<longrightarrow> sState (msData (scSbx c)) = actTargetState a \<and> live (scSbx c)) \<and>
    (sState (msData (scSbx c)) = StateRunning \<longrightarrow> msTransition (scSbx c) = None \<and> \<not> owner c i)"
proof -
  note ok = sreach_ok [OF assms]
  have "\<not> owner c i" if "sState (msData (scSbx c)) = StateRunning"
    using owner_facts [OF ok] server_action_target that unfolding owner_def by metis
  with ok owner_facts(2,3) [OF ok] show ?thesis
    by (auto simp: sconf_ok_def ms_ok_def)
qed

theorem one_transition_at_a_time_witness:
  "owner (demo_conf :: unit sconf) 0 \<and> \<not> owner (demo_conf :: unit sconf) 1 \<and>
   sState (msData (scSbx (demo_conf :: unit sconf))) = StateKilling \<and> live (scSbx (demo_conf :: unit sconf))"
  using one_transition_at_a_time [OF demo_reach [where 'x = unit], of 0 1 StateActionKill]
  by (simp add: owner_def demo_conf_def StateActionKill_def)

text \<open>
  C13.  Tearing down is not undone.  Whatever the goroutines do from a reachable configuration on, a
  sandbox that is being killed stays in that state, and one that is being paused can only be killed:
  neither becomes running again.
\<close>

theorem teardown_never_reverts:
  assumes "sreach d c" "sstep\<^sup>*\<^sup>* c c'"
  shows "(sState (msData (scSbx c)) = StateKilling \<longrightarrow> sState (msData (scSbx c')) = StateKilling) \<and>
    (sState (msData (scSbx c)) = StatePausing \<longrightarrow> sState (msData (scSbx c')) \<in> {StatePausing, StateKilling})"
proof -
  have "state_rank (sState (msData (scSbx c))) \<le> state_rank (sState (msData (scSbx c')))"
    using state_rank_star [OF assms(2) sreach_ok [OF assms(1)]] by simp
  then show ?thesis
    by (cases "sState (msData (scSbx c'))") auto
qed

theorem teardown_never_reverts_witness: "sState (msData (scSbx demo_failed)) = StateKilling"
  using teardown_never_reverts [OF demo_reach r_into_rtranclp [of sstep, OF demo_failed_step]]
  by (simp add: demo_conf_def demo_killing_def)

text \<open>
  C14.  Nobody waits for ever on a transition that is over.  In every reachable configuration a
  goroutine that waits for a transition either can go on at once, because the transition has its
  result, or another goroutine holds the callback; that callback does not panic, whatever error it is
  given, and when it has run the waiter's wait returns with the outcome.
\<close>

theorem waiting_callers_are_woken:
  assumes "sreach d c" "scThreads c i = Waiting t cur opts"
  shows "(\<exists>r. eo_WaitWithContext False pref (msOnces (scSbx c) ! t) = Some r) \<or>
    (\<exists>j a. j \<noteq> i \<and> scThreads c j = Owning a \<and>
       (\<forall>err. fst (finishTransition a err (scSbx c)) = Ok () \<and>
          eo_WaitWithContext False pref (msOnces (snd (finishTransition a err (scSbx c))) ! t) =
            Some (case (if actEffect a = TransitionTransient then None else err) of
                    None \<Rightarrow> Ok () | Some e \<Rightarrow> Fail (OnceErr e))))"
proof (cases "eo_Done (msOnces (scSbx c) ! t)")
  case True
  then show ?thesis
    using eo_WaitWithContext_blocks [of False pref "msOnces (scSbx c) ! t"]
    by (cases "eo_WaitWithContext False pref (msOnces (scSbx c) ! t)") auto
next
  case False
  note ok = sreach_ok [OF assms(1)]
  from waiter_has_owner [OF ok assms(2) False] obtain j a where
    "scThreads c j = Owning a" "msTransition (scSbx c) = Some t" "j \<noteq> i" .
  with finish_wakes [OF ok] show ?thesis by blast
qed

theorem waiting_callers_are_woken_witness:
  "(\<exists>r. eo_WaitWithContext False True (msOnces (scSbx (demo_conf :: unit sconf)) ! 0) = Some r) \<or>
    (\<exists>j a. j \<noteq> 1 \<and> scThreads (demo_conf :: unit sconf) j = Owning a \<and>
       (\<forall>err. fst (finishTransition a err (scSbx (demo_conf :: unit sconf))) = Ok () \<and>
          eo_WaitWithContext False True (msOnces (snd (finishTransition a err (scSbx (demo_conf :: unit sconf)))) ! 0) =
            Some (case (if actEffect a = TransitionTransient then None else err) of
                    None \<Rightarrow> Ok () | Some e \<Rightarrow> Fail (OnceErr e))))"
  by (rule waiting_callers_are_woken [OF demo_reach, of 1 0 StateKilling demo_kill])
    (simp add: demo_conf_def)

text \<open>
  A failed pause or kill is final.  Once the callback of such a transition was given an error,
  then after any further steps every attempt to evict the sandbox answers \<^verbatim>\<open>ErrEvictionInProgress\<close>, and
  every other attempt answers that the transition is invalid or waits on the failed transition, which
  returns at once with the error: no transition of the sandbox ever starts again.
\<close>

theorem failed_teardown_is_final:
  assumes "sreach d c" "failed_at (scSbx c) t e" "sstep\<^sup>*\<^sup>* c c'"
  shows "snd (startRemoving_enter now now' (scSbx c') opts) = scSbx c' \<and>
    fst (startRemoving_enter now now' (scSbx c') opts) \<in>
      (if roEviction opts then {Returns (Fail ErrEvictionInProgress)}
       else {Returns (Fail (InvalidStateTransitionError (sState (msData (scSbx c'))) (actTargetState (roAction opts)))),
             WaitsFor t (sState (msData (scSbx c')))}) \<and>
    eo_WaitWithContext False pref (msOnces (scSbx c') ! t) = Some (Fail (OnceErr e)) \<and>
    startRemoving_woken (Fail (OnceErr e)) cur opts = WokenReturns (Fail (FailedState (OnceErr e)))"
proof -
  have "failed_at (scSbx c') t e"
    using failed_at_star [OF assms(3) sreach_ok [OF assms(1)] assms(2)] by simp
  from failed_enter [OF this] show ?thesis by simp
qed

theorem failed_teardown_is_final_witness:
  "fst (startRemoving_enter 20 20 (scSbx demo_failed) demo_kill) = WaitsFor 0 StateKilling \<and>
   eo_WaitWithContext False True (msOnces (scSbx demo_failed) ! 0) = Some (Fail (OnceErr ()))"
proof -
  have f: "failed_at (scSbx demo_failed) 0 ()"
    by (simp add: failed_at_def demo_failed_def demo_killing_def eo_Done_def eo_Error_def Result_def)
  from failed_teardown_is_final [OF demo_failed_reach f rtranclp.rtrancl_refl, of 20 20 demo_kill True StateKilling]
  show ?thesis
    by (simp add: demo_kill_def demo_failed_def demo_killing_def startRemoving_enter_def StateActionKill_def)
qed

subsection \<open>Team limits and shared starts\<close>

definition demo_ustr :: "uuid \<Rightarrow> string" where
  "demo_ustr u = map (\<lambda>b. char_of (unat b)) u"

lemma inj_demo_ustr: "inj demo_ustr"
proof -
  have "inj (\<lambda>b :: 8 word. char_of (unat b) :: char)"
  proof (rule injI)
    fix a b :: "8 word"
    assume "char_of (unat a) = (char_of (unat b) :: char)"
    moreover have "unat a < 256" "unat b < 256" using unsigned_less [of a, where 'a = nat] unsigned_less [of b, where 'a = nat] by simp_all
    ultimately have "unat a = unat b" by (metis mod_less of_char_of)
    then show "a = b" by (rule unsigned_word_eqI)
  qed
  then show ?thesis unfolding demo_ustr_def by (metis inj_mapI inj_def)
qed

text \<open>
  C15.  The limit of a team holds.  After any sequence of reservations, releases and finished starts, in
  which the reservations for sandboxes that the team does not have yet carry limits up to \<open>L\<close>, the team
  has at most \<open>L\<close> reservations, however the calls of other teams are interleaved with its own.
\<close>

theorem team_limit_holds:
  assumes "concurrent_map cm" "inj ustr" "0 \<le> L" "res_limited cm ustr team L (NewReservationStorage cm) ops"
  shows "int (length (team_reservations cm ustr (res_run cm ustr ops) team)) \<le> L"
  unfolding res_run_def
  by (rule res_fold_bounded [OF assms(1,2,4)]) (simp add: team_reservations_New [OF assms(1)] assms(3))

theorem team_limit_holds_witness:
  "length (team_reservations list_cmap demo_ustr
     (res_run list_cmap demo_ustr
        ([ResReserve uuid_Nil ''a'' 1, ResReserve uuid_Nil ''b'' 1, ResReserve uuid_Nil ''a'' (- 1)] :: unit res_op list))
     uuid_Nil) \<le> 1"
proof -
  let ?ops = "[ResReserve uuid_Nil ''a'' 1, ResReserve uuid_Nil ''b'' 1, ResReserve uuid_Nil ''a'' (- 1)] :: unit res_op list"
  have "res_limited list_cmap demo_ustr uuid_Nil 1 (NewReservationStorage list_cmap) ?ops"
    by (simp add: res_Reserve_def smap_Upsert_def cm_Upsert_def reserveUpsert_def NewReservationStorage_def
        smap_New_def team_reservations_def)
  from team_limit_holds [OF list_cmap.concurrent_map_axioms inj_demo_ustr _ this] show ?thesis by simp
qed

text \<open>
  Concurrent starts of one sandbox share a result.  When a caller has reserved a sandbox, every
  later caller for it gets a wait function on the same handle, whatever the limit, and changes nothing;
  when the first caller reports its sandbox, the wait returns that sandbox; when it reports an error,
  the wait returns the error and the sandbox is no longer reserved.
\<close>

theorem start_result_is_shared:
  assumes "concurrent_map cm" "inj ustr" "res_Reserve cm ustr rs team sid limit = (Ok (StartIt h), rs1)"
  shows "fst (res_Reserve cm ustr rs1 team sid limit') = Ok (WaitForStart h) \<and>
    rsStarts (snd (res_Reserve cm ustr rs1 team sid limit')) = rsStarts rs1 \<and>
    team_reservations cm ustr (snd (res_Reserve cm ustr rs1 team sid limit')) team = team_reservations cm ustr rs1 team \<and>
    res_waitForStart False pref rs1 h = None \<and>
    res_waitForStart False pref (res_finishStart cm ustr rs1 team sid h sbx None) h = Some (Ok sbx) \<and>
    res_waitForStart False pref (res_finishStart cm ustr rs1 team sid h sbx (Some e)) h = Some (Fail (OnceErr e)) \<and>
    map_of (team_reservations cm ustr (res_finishStart cm ustr rs1 team sid h sbx (Some e)) team) sid = None"
proof -
  let ?m = "cm_Get cm (rsTeams rs) (ustr team)"
  have h: "h = length (rsStarts rs)" and starts: "rsStarts rs1 = rsStarts rs @ [NewSetOnce]"
    and up: "fst (reserveUpsert sid limit h ?m) = Reserved"
    and teams: "rsTeams rs1 = cm_Set cm (rsTeams rs) (ustr team) (snd (reserveUpsert sid limit h ?m))"
    using assms(3)
    by (auto simp: res_Reserve_def smap_Upsert_def cm_Upsert_def Let_def split_def split: reserve_decision.splits)
  from up have ts: "map_of (snd (reserveUpsert sid limit h ?m)) sid = Some h"
    by (auto simp: reserveUpsert_def Let_def update_conv' split: option.splits if_splits)
  have get: "cm_Get cm (rsTeams rs1) (ustr team) = Some (snd (reserveUpsert sid limit h ?m))"
    by (simp add: teams concurrent_map.Get_Set [OF assms(1)])
  have again: "reserveUpsert sid limit' n (cm_Get cm (rsTeams rs1) (ustr team)) =
      (AlreadyPresent h, snd (reserveUpsert sid limit h ?m))" for n
    using ts by (simp add: get reserveUpsert_def)
  have second: "res_Reserve cm ustr rs1 team sid limit' =
      (Ok (WaitForStart h), rs1\<lparr>rsTeams := cm_Set cm (rsTeams rs1) (ustr team) (snd (reserveUpsert sid limit h ?m))\<rparr>)"
    by (simp add: res_Reserve_def smap_Upsert_def cm_Upsert_def again)
  have "map_of (team_reservations cm ustr (res_finishStart cm ustr rs1 team sid h sbx (Some e)) team) sid = None"
    by (simp add: team_finish [OF assms(1,2)] delete_conv')
  with second get starts h show ?thesis
    by (simp add: team_reservations_def concurrent_map.Get_Set [OF assms(1)] res_waitForStart_def res_finishStart_def
        WaitWithContext_def SetResult_def SetValue_def SetError_def setResult_def NewSetOnce_def Result_def)
qed

theorem start_result_is_shared_witness:
  "res_waitForStart False True
     (res_finishStart list_cmap demo_ustr
        (snd (res_Reserve list_cmap demo_ustr (NewReservationStorage list_cmap :: (_, unit) ReservationStorage)
           uuid_Nil ''a'' 1)) uuid_Nil ''a'' 0 demo_sbx None) 0 = Some (Ok demo_sbx)"
proof -
  have "res_Reserve list_cmap demo_ustr (NewReservationStorage list_cmap :: (_, unit) ReservationStorage) uuid_Nil ''a'' 1 =
      (Ok (StartIt 0), snd (res_Reserve list_cmap demo_ustr (NewReservationStorage list_cmap) uuid_Nil ''a'' 1))"
    by (simp add: res_Reserve_def smap_Upsert_def cm_Upsert_def reserveUpsert_def NewReservationStorage_def smap_New_def)
  from start_result_is_shared [OF list_cmap.concurrent_map_axioms inj_demo_ustr this]
  show ?thesis by simp
qed

subsection \<open>Stored sandboxes\<close>

abbreviation demo_rops :: "((_, unit) ReservationStorage, unit) reservation_ops" where
  "demo_rops \<equiv> reservations_ops list_cmap demo_ustr"

definition demo_store :: "((string \<times> unit memorySandbox) list, ((string \<times> TeamSandboxes) list, unit) ReservationStorage) Store" where
  "demo_store = snd (ss_Add (memory_ops list_cmap) demo_rops
     (NewStore (NewStorage list_cmap) (NewReservationStorage list_cmap)) demo_sbx True)"

lemma demo_store_reach: "api_reach list_cmap demo_rops (NewReservationStorage list_cmap) demo_store"
  unfolding demo_store_def
  by (rule api_next [OF api_init], rule api_add) (simp add: length_ok_def demo_sbx_def NewSandbox_def)

lemma demo_store_view: "memory_view list_cmap (stStorage demo_store) ''i'' = Some demo_sbx"
proof -
  have "capEndTime demo_sbx = demo_sbx" "SandboxID demo_sbx = ''i''"
    by (simp_all add: capEndTime_def demo_sbx_def NewSandbox_def time_Sub_def)
  then show ?thesis
    by (simp add: demo_store_def list_memory.view_ss_Add NewStore_def NewStorage_def memory_view_def)
qed

text \<open>
  C16.  No stored sandbox outlives its maximal length.  Over every sequence of additions, removals,
  keep-alive calls, network updates, transitions and node synchronisations, a sandbox is stored under
  its own id and its end time is at most its start time plus its maximal instance length.
\<close>

theorem sandbox_lifetime_is_bounded:
  assumes "concurrent_map cm" "api_reach cm rops r0 st" "memory_view cm (stStorage st) i = Some d"
  shows "SandboxID d = i \<and> EndTime d \<le> StartTime d + MaxInstanceLength d"
  using api_reach_ok [OF assms(1,2)] assms(3)
  by (auto simp: stored_ok_def memory_view_def data_ok_def within_limit_def)

theorem sandbox_lifetime_is_bounded_witness:
  "EndTime demo_sbx \<le> StartTime demo_sbx + MaxInstanceLength demo_sbx"
  using sandbox_lifetime_is_bounded [OF list_cmap.concurrent_map_axioms demo_store_reach demo_store_view] by simp

text \<open>
  The store answers for what was added, to its team only.  After a sandbox with a new id has been
  added, \<^verbatim>\<open>Get\<close> returns it to its team with the end time capped, and \<^verbatim>\<open>ErrNotFound\<close> to every other team; an
  update by another team changes nothing; after \<^verbatim>\<open>Remove\<close> nobody finds it.
\<close>

theorem store_serves_its_team:
  assumes "concurrent_map cm" "memory_view cm (stStorage st) (SandboxID sbx) = None"
  shows "ss_Get (memory_ops cm) (snd (ss_Add (memory_ops cm) rops st sbx new)) team (SandboxID sbx) =
      (if team = TeamID sbx then Ok (capEndTime sbx) else Fail ErrNotFound) \<and>
    (team \<noteq> TeamID sbx \<longrightarrow>
       fst (ss_Update (memory_ops cm) (snd (ss_Add (memory_ops cm) rops st sbx new)) team (SandboxID sbx) f) =
         Fail ErrNotFound) \<and>
    ss_Get (memory_ops cm) (ss_Remove (memory_ops cm) rops st' team' (SandboxID sbx)) team (SandboxID sbx) =
      Fail ErrNotFound"
proof -
  note mem = memory_storage [OF assms(1)]
  have cap: "TeamID (capEndTime sbx) = TeamID sbx" by (simp add: capEndTime_def)
  have view: "memory_view cm (stStorage (snd (ss_Add (memory_ops cm) rops st sbx new))) (SandboxID sbx) =
      Some (capEndTime sbx)"
    using assms(2) by (simp add: sandbox_storage.view_ss_Add [OF mem])
  then have "fst (ss_Update (memory_ops cm) (snd (ss_Add (memory_ops cm) rops st sbx new)) team (SandboxID sbx) f) =
      Fail ErrNotFound" if "team \<noteq> TeamID sbx"
    using that cap
    by (auto simp: memory_view_def ss_Update_def memory_ops_def st_Update_def ms_Update_def Let_def split_def)
  moreover have "ss_Get (memory_ops cm) (snd (ss_Add (memory_ops cm) rops st sbx new)) team (SandboxID sbx) =
      (if team = TeamID sbx then Ok (capEndTime sbx) else Fail ErrNotFound)"
    using view cap by (simp add: ss_Get_def sandbox_storage.result_Get [OF mem])
  moreover note sandbox_storage.Get_after_Remove [OF mem, of rops st' team' "SandboxID sbx" team]
  ultimately show ?thesis by blast
qed

theorem store_serves_its_team_witness:
  "ss_Get (memory_ops list_cmap) demo_store uuid_Nil ''i'' = Ok (capEndTime demo_sbx)"
proof -
  have i: "SandboxID demo_sbx = ''i''" "TeamID demo_sbx = uuid_Nil"
    by (simp_all add: demo_sbx_def NewSandbox_def)
  have "memory_view list_cmap (stStorage (NewStore (NewStorage list_cmap)
      (NewReservationStorage list_cmap :: ((string \<times> TeamSandboxes) list, unit) ReservationStorage)))
      (SandboxID demo_sbx) = (None :: Sandbox option)"
    by (simp add: NewStore_def NewStorage_def memory_view_def)
  from store_serves_its_team [OF list_cmap.concurrent_map_axioms this] i show ?thesis
    unfolding demo_store_def by metis
qed

text \<open>
  A synchronisation with a node makes the store agree with the node.  Afterwards the store knows
  exactly the sandboxes it knew before and those the node reported; a sandbox of that node which the
  node did not report, and which started longer ago than the grace period, is expired.
\<close>

theorem reconcile_agrees_with_node:
  assumes "concurrent_map cm"
  shows "(memory_view cm (stStorage (ss_Reconcile (memory_ops cm) rops now clk st sbxs node)) i = None \<longleftrightarrow>
      memory_view cm (stStorage st) i = None \<and> i \<notin> SandboxID ` set sbxs) \<and>
    (memory_view cm (stStorage st) i = Some d \<and> SandboxID d = i \<and> NodeID d = node \<and> i \<notin> SandboxID ` set sbxs \<and>
       time_Sub (fst (clk i)) (StartTime d) > syncSandboxRemoveGracePeriod \<longrightarrow>
       (\<exists>d'. memory_view cm (stStorage (ss_Reconcile (memory_ops cm) rops now clk st sbxs node)) i = Some d' \<and>
          EndTime d' \<le> max now (snd (clk i))))"
proof -
  note mem = memory_storage [OF assms]
  have name: "so_Name (memory_ops cm) \<noteq> StorageNameRedis" by (simp add: memory_ops_sel StorageNameRedis_def)
  have "\<exists>d'. memory_view cm (stStorage (ss_Reconcile (memory_ops cm) rops now clk st sbxs node)) i = Some d' \<and>
      EndTime d' \<le> max now (snd (clk i))"
    if i: "memory_view cm (stStorage st) i = Some d" "SandboxID d = i" "NodeID d = node" "i \<notin> SandboxID ` set sbxs"
      "time_Sub (fst (clk i)) (StartTime d) > syncSandboxRemoveGracePeriod"
  proof -
    from i(1) obtain item where item: "cm_Get cm (stStorage st) i = Some item" "msData item = d"
      by (auto simp: memory_view_def)
    have "EndTime (msData (reconcileItem now (clk i) sbxs node item)) \<le> max now (snd (clk i))"
      using i item(2) by (auto simp: reconcileItem_def IsExpired_def ms_SetExpired_def EndTime_expireData)
    moreover have "memory_view cm (stStorage (ss_Reconcile (memory_ops cm) rops now clk st sbxs node)) i =
        Some (msData (reconcileItem now (clk i) sbxs node item))"
      using item(1)
      by (simp add: sandbox_storage.unreported_after_Reconcile [OF mem name i(4)] memory_ops_sel st_Reconcile_def Let_def)
        (simp add: memory_view_def Get_reconcileExpire [OF assms])
    ultimately show ?thesis by simp
  qed
  with sandbox_storage.known_after_Reconcile [OF mem name] show ?thesis by blast
qed

theorem reconcile_agrees_with_node_witness:
  "memory_view list_cmap (stStorage (ss_Reconcile (memory_ops list_cmap) demo_rops 20 (\<lambda>_. (20, 20)) demo_store
     [demo_sbx\<lparr>SandboxID := ''j''\<rparr>] ''n'')) ''j'' \<noteq> None"
  using reconcile_agrees_with_node [OF list_cmap.concurrent_map_axioms, of demo_rops 20 "\<lambda>_. (20, 20)" demo_store
      "[demo_sbx\<lparr>SandboxID := ''j''\<rparr>]" "''n''" "''j''"] by simp

subsection \<open>Removal, eviction, auto-resume\<close>

text \<open>
  A removal cleans up whatever the node says.  When \<^verbatim>\<open>StartRemoving\<close> gave the caller the transition of
  a sandbox, then after \<^verbatim>\<open>RemoveSandbox\<close> the store does not find the sandbox any more, its reservation is
  gone, and the transition has its result, with the node's error for those who wait; the caller gets
  \<^verbatim>\<open>ErrSandboxOperationFailed\<close> exactly when the node failed.
\<close>

theorem removal_cleans_up:
  assumes cm: "concurrent_map cm" and rm: "concurrent_map rcm" "inj ustr"
    and reach: "sreach d c" and own: "scThreads c j = Owning a" and eff: "actEffect a = TransitionExpires"
    and act: "roAction opts = a"
    and rem: "RemoveSandbox (memory_ops cm) (reservations_ops rcm ustr) env st (scSbx c) team i opts (Some sbx)
      (Ok (False, FinishCallback a)) = (res, st', obj, calls)"
  shows "ss_Get (memory_ops cm) st' team' i = Fail ErrNotFound \<and>
    map_of (team_reservations rcm ustr (stReservations st') team) i = None \<and>
    (\<exists>t. msTransition (scSbx c) = Some t \<and>
       eo_Wait (msOnces obj ! t) =
         Some (case fst (removeSandboxFromNode env sbx a) of None \<Rightarrow> Ok () | Some e \<Rightarrow> Fail (OnceErr e))) \<and>
    res = (if fst (removeSandboxFromNode env sbx a) = None then Ok () else Fail ErrSandboxOperationFailed)"
proof -
  let ?err = "fst (removeSandboxFromNode env sbx a)"
  note own' = owner_facts [OF sreach_ok [OF reach] own]
  from rem act have st': "st' = ss_Remove (memory_ops cm) (reservations_ops rcm ustr) st team i"
    and obj: "obj = snd (finishTransition a ?err (scSbx c))"
    and res: "res = (if ?err = None then Ok () else Fail ErrSandboxOperationFailed)"
    by (auto simp: RemoveSandbox_def Let_def split_def split: if_splits)
  have fin: "finishTransition a ?err (scSbx c) = (fst (finishTransition a ?err (scSbx c)), obj)" by (simp add: obj)
  from finish_cases [OF own'(4,2,1,3) fin] obtain t where "msTransition (scSbx c) = Some t"
    "eo_Wait (msOnces obj ! t) =
       Some (case (if actEffect a = TransitionTransient then None else ?err) of
               None \<Rightarrow> Ok () | Some e \<Rightarrow> Fail (OnceErr e))" .
  moreover have "map_of (team_reservations rcm ustr (stReservations st') team) i = None"
    by (simp add: st' ss_Remove_def reservations_ops_def team_Release [OF rm] delete_conv')
  moreover have "ss_Get (memory_ops cm) st' team' i = Fail ErrNotFound"
    unfolding st' by (rule sandbox_storage.Get_after_Remove [OF memory_storage [OF cm]])
  ultimately show ?thesis using eff res by auto
qed

definition demo_env :: "unit node_env" where
  "demo_env = \<lparr>ne_Node = (\<lambda>_ _. None), ne_Local = False, ne_Pause = (\<lambda>_. None), ne_Kill = (\<lambda>_. None), ne_ForeignKey = (\<lambda>_. False)\<rparr>"

theorem removal_cleans_up_witness:
  "ss_Get (memory_ops list_cmap)
     (fst (snd (RemoveSandbox (memory_ops list_cmap) (reservations_ops list_cmap demo_ustr) demo_env
        (NewStore (NewStorage list_cmap) (NewReservationStorage list_cmap)) (scSbx (demo_conf :: unit remove_error sconf))
        uuid_Nil ''i'' demo_kill (Some demo_sbx) (Ok (False, FinishCallback StateActionKill))))) uuid_Nil ''i'' =
   Fail ErrNotFound"
proof -
  let ?r = "RemoveSandbox (memory_ops list_cmap) (reservations_ops list_cmap demo_ustr) demo_env
     (NewStore (NewStorage list_cmap) (NewReservationStorage list_cmap)) (scSbx (demo_conf :: unit remove_error sconf))
     uuid_Nil ''i'' demo_kill (Some demo_sbx) (Ok (False, FinishCallback StateActionKill))"
  have own: "scThreads (demo_conf :: unit remove_error sconf) 0 = Owning StateActionKill" by (simp add: demo_conf_def)
  have kill: "actEffect StateActionKill = TransitionExpires" "roAction demo_kill = StateActionKill"
    by (simp_all add: StateActionKill_def demo_kill_def)
  have "?r = (fst ?r, fst (snd ?r), fst (snd (snd ?r)), snd (snd (snd ?r)))" by simp
  from removal_cleans_up [OF list_cmap.concurrent_map_axioms list_cmap.concurrent_map_axioms inj_demo_ustr
      demo_reach own kill this]
  show ?thesis by blast
qed

text \<open>
  The evictor does not race with a keep-alive.  Every removal that a tick of the evictor asks for is
  of a sandbox that was running and expired at the tick, paused when it is set to pause and killed
  otherwise.  When the sandbox was extended in between, the request answers \<^verbatim>\<open>ErrEvictionNotNeeded\<close>, and
  when somebody else started a transition, \<^verbatim>\<open>ErrEvictionInProgress\<close>; both leave the sandbox as it is.
\<close>

theorem evictor_respects_keep_alive:
  assumes "concurrent_map cm" "(team, i, opts) \<in> set (evictTick (memory_ops cm) st now)"
  shows "(\<exists>k d. memory_view cm (stStorage st) k = Some d \<and> TeamID d = team \<and> SandboxID d = i \<and>
      sState d = StateRunning \<and> EndTime d < now \<and>
      roAction opts = (if AutoPause d then StateActionPause else StateActionKill)) \<and>
    (msTransition s = None \<and> now' \<le> EndTime (msData s) \<longrightarrow>
       startRemoving_enter now' now'' s opts = (Returns (Fail ErrEvictionNotNeeded), s)) \<and>
    (msTransition s \<noteq> None \<longrightarrow>
       startRemoving_enter now' now'' s opts = (Returns (Fail ErrEvictionInProgress), s))"
proof -
  from assms(2) obtain k item where item: "(k, item) \<in> set (cm_Items cm (stStorage st))"
    and d: "sState (msData item) = StateRunning" "IsExpired (msData item) now"
    and req: "(team, i, opts) = evictRequest (msData item)"
    by (auto simp: evictTick_def ss_ExpiredItems_def memory_ops_sel st_ExpiredItems_def)
  from item have "memory_view cm (stStorage st) k = Some (msData item)"
    by (simp add: memory_view_def concurrent_map.Items_mem [OF assms(1)])
  moreover from req have "roEviction opts" "TeamID (msData item) = team" "SandboxID (msData item) = i"
    "roAction opts = (if AutoPause (msData item) then StateActionPause else StateActionKill)"
    by (auto simp: evictRequest_def)
  ultimately show ?thesis
    using d by (auto simp: IsExpired_def startRemoving_enter_def)
qed

theorem evictor_respects_keep_alive_witness:
  "startRemoving_enter 60 60 (newMemorySandbox (demo_sbx\<lparr>EndTime := 99\<rparr>) :: unit memorySandbox)
     \<lparr>roAction = StateActionKill, roEviction = True\<rparr> =
     (Returns (Fail ErrEvictionNotNeeded), newMemorySandbox (demo_sbx\<lparr>EndTime := 99\<rparr>))"
proof -
  have d: "sState demo_sbx = StateRunning" "EndTime demo_sbx = 50" "\<not> AutoPause demo_sbx" "SandboxID demo_sbx = ''i''"
    by (simp_all add: demo_sbx_def NewSandbox_def)
  obtain item where "cm_Get list_cmap (stStorage demo_store) ''i'' = Some item" "msData item = demo_sbx"
    using demo_store_view by (auto simp: memory_view_def)
  then have "(''i'', item) \<in> set (cm_Items list_cmap (stStorage demo_store))"
    by (simp only: list_cmap.Items_mem)
  from imageI [OF this, of "\<lambda>(_, item). msData item"] \<open>msData item = demo_sbx\<close>
  have mem: "demo_sbx \<in> set (map (\<lambda>(_, item). msData item) (cm_Items list_cmap (stStorage demo_store)))"
    unfolding set_map by simp
  have "evictRequest demo_sbx \<in> set (evictTick (memory_ops list_cmap) demo_store 60)"
    unfolding evictTick_def ss_ExpiredItems_def memory_ops_sel st_ExpiredItems_def set_map set_filter
    by (rule imageI) (use mem d in \<open>simp add: IsExpired_def\<close>)
  then have "(TeamID demo_sbx, ''i'', \<lparr>roAction = StateActionKill, roEviction = True\<rparr>)
      \<in> set (evictTick (memory_ops list_cmap) demo_store 60)"
    using d by (simp add: evictRequest_def)
  from evictor_respects_keep_alive [OF list_cmap.concurrent_map_axioms this,
      of "newMemorySandbox (demo_sbx\<lparr>EndTime := 99\<rparr>) :: unit memorySandbox" 60 60]
  show ?thesis by (simp add: newMemorySandbox_def)
qed

text \<open>
  C17.  Auto-resume gives up after three waits.  Handling an existing sandbox always returns, after at most
  three waits for a transition; when it answers with an address, that is the address of the node of a
  sandbox it read in the running state.
\<close>

theorem autoresume_terminates:
  "snd (HandleExistingSandboxAutoResume env 0 sbx) \<le> 3 \<and>
   (fst (HandleExistingSandboxAutoResume env 0 sbx) = Ok (Some ip) \<longrightarrow>
     (\<exists>d. sState d = StateRunning \<and> re_node env d = Some ip \<and> (d = sbx \<or> (\<exists>n. re_gets env n = Ok d))))"
proof -
  have "snd (HandleExistingSandboxAutoResume env 0 sbx) \<le> MaxAutoResumeTransitionRetries"
    using autoResume_attempts [of 0 env sbx] by simp
  then show ?thesis
    using autoResume_address [of env 0 sbx ip] by (simp add: MaxAutoResumeTransitionRetries_def)
qed

theorem autoresume_terminates_witness:
  "snd (HandleExistingSandboxAutoResume
     \<lparr>re_waits = (\<lambda>_. None), re_gets = (\<lambda>_. Ok (demo_sbx\<lparr>sState := StatePausing\<rparr>)), re_node = (\<lambda>_. Some ''a'')\<rparr>
     0 (demo_sbx\<lparr>sState := StatePausing\<rparr>)) \<le> 3"
  using autoresume_terminates by blast

end
