(* ===== verification/Nbd_Dispatch.thy ===== *)
theory Nbd_Dispatch
  imports E2B_Prelude "HOL-Library.Sublist"
begin

text \<open>
  The block device server of a sandbox's disk, \<^verbatim>\<open>packages/orchestrator/pkg/sandbox/nbd/dispatch.go\<close>: the
  loop that reads requests of the NBD protocol from a socket and issues the commands.

  The socket is a byte list \<open>input\<close>, everything the client sends, and a schedule: the \<open>k\<close>-th call of
  \<^verbatim>\<open>Read\<close> fails, or returns as many bytes as the \<open>k\<close>-th entry says, up to the capacity of the buffer it is
  given.  When the input is used up a read returns the end of the file; when the schedule is used up it
  blocks.  The result is the list of the commands issued and how \<^verbatim>\<open>Handle\<close> ends.  What the other
  goroutines do to the loop is \<open>nbd_env\<close>: \<open>de_stop\<close> is what the \<^verbatim>\<open>select\<close> finds at its \<open>k\<close>-th check, a fatal
  error or the end of the context, \<open>de_down\<close> whether the server is shutting down when the \<open>j\<close>-th command is
  issued, and \<open>de_trim\<close> the error of the response that a trim writes itself.
\<close>

definition dispatchBufferSize :: nat where "dispatchBufferSize = 4194304"
definition dispatchMaxWriteBufferSize :: int where "dispatchMaxWriteBufferSize = 33554432"

definition NBDCmdRead :: int where "NBDCmdRead = 0"
definition NBDCmdWrite :: int where "NBDCmdWrite = 1"
definition NBDCmdDisconnect :: int where "NBDCmdDisconnect = 2"
definition NBDCmdFlush :: int where "NBDCmdFlush = 3"
definition NBDCmdTrim :: int where "NBDCmdTrim = 4"
definition NBDRequestMagic :: int where "NBDRequestMagic = 0x25609513"
definition NBDResponseMagic :: int where "NBDResponseMagic = 0x67446698"

lemmas nbd_consts = NBDCmdRead_def NBDCmdWrite_def NBDCmdDisconnect_def NBDCmdFlush_def NBDCmdTrim_def

record Request =
  rqMagic :: int
  rqType :: int
  rqHandle :: int
  rqFrom :: int
  rqLength :: int

text \<open>\<^verbatim>\<open>binary.BigEndian\<close>.\<close>

definition big_endian :: "byte list \<Rightarrow> int" where
  "big_endian bs = foldl (\<lambda>acc b. acc * 256 + uint b) 0 bs"

primrec put_big_endian :: "nat \<Rightarrow> int \<Rightarrow> byte list" where
  "put_big_endian 0 x = []"
| "put_big_endian (Suc n) x = put_big_endian n (x div 256) @ [word_of_int x]"

definition decodeRequest :: "byte list \<Rightarrow> Request" where
  "decodeRequest header =
     \<lparr>rqMagic = big_endian (take 4 header), rqType = big_endian (take 4 (drop 4 header)),
      rqHandle = big_endian (take 8 (drop 8 header)), rqFrom = big_endian (take 8 (drop 16 header)),
      rqLength = big_endian (take 4 (drop 24 header))\<rparr>"

datatype nbd_command =
    CmdRead int int int
  | CmdWrite int int "byte list"
  | CmdTrim int

datatype 'e nbd_error =
    NbdReadEOF
  | NbdWriteReadEOF
  | InvalidMagic
  | FlushNotSupported
  | WriteTooLong int
  | NotImplemented int
  | ErrShuttingDown
  | ReadError 'e
  | WriteReadError 'e
  | TrimError 'e
  | Stopped 'e

datatype 'e read_event = Got nat | ReadFails 'e

record 'e nbd_env =
  de_stop :: "nat \<Rightarrow> 'e option"
  de_down :: "nat \<Rightarrow> bool"
  de_trim :: "nat \<Rightarrow> 'e option"

text \<open>How a run ends: \<^verbatim>\<open>Handle\<close> returns nil or an error, or it waits for more bytes.\<close>

datatype 'e nbd_end = NbdReturns "'e nbd_error option" | NbdBlocks

subsection \<open>The body of a write\<close>

text \<open>
  The loop that reads the rest of a write's data straight into its buffer.  \<open>k\<close> counts the checks of the
  \<^verbatim>\<open>select\<close>.
\<close>

datatype 'e body_result =
    BodyDone "byte list" nat "'e read_event list" "byte list"
  | BodyEnds "'e nbd_end"

fun readBody ::
  "'e nbd_env \<Rightarrow> nat \<Rightarrow> nat \<Rightarrow> byte list \<Rightarrow> 'e read_event list \<Rightarrow> byte list \<Rightarrow> 'e body_result" where
  "readBody env k need data sched input =
     (if need \<le> length data then BodyDone data k sched input
      else
        (case sched of
           [] \<Rightarrow> BodyEnds NbdBlocks
         | ReadFails e # _ \<Rightarrow> BodyEnds (NbdReturns (Some (WriteReadError e)))
         | Got n # sched' \<Rightarrow>
             if input = [] then BodyEnds (NbdReturns (Some NbdWriteReadEOF))
             else
               (let m = min n (need - length data)
                in (case de_stop env k of
                      Some e \<Rightarrow> BodyEnds (NbdReturns (Some (Stopped e)))
                    | None \<Rightarrow> readBody env (Suc k) need (data @ take m input) sched' (drop m input)))))"

declare readBody.simps [simp del]

subsection \<open>The packets in the buffer\<close>

datatype 'e packets_result =
    PacketsMore "nbd_command list" nat "'e read_event list" "byte list" "byte list"
  | PacketsEnd "nbd_command list" "'e nbd_end"

fun addCommand :: "nbd_command \<Rightarrow> 'e packets_result \<Rightarrow> 'e packets_result" where
  "addCommand c (PacketsMore cs k sched input buf) = PacketsMore (c # cs) k sched input buf"
| "addCommand c (PacketsEnd cs e) = PacketsEnd (c # cs) e"

text \<open>
  The inner loop: \<open>buf\<close> is \<^verbatim>\<open>buffer[rp:wp]\<close> and \<open>j\<close> counts the commands.  It leaves the loop when the header
  of the next request is not complete.
\<close>

function packets ::
  "'e nbd_env \<Rightarrow> nat \<Rightarrow> nat \<Rightarrow> 'e read_event list \<Rightarrow> byte list \<Rightarrow> byte list \<Rightarrow> 'e packets_result" where
  "packets env k j sched input buf =
     (case de_stop env k of
        Some e \<Rightarrow> PacketsEnd [] (NbdReturns (Some (Stopped e)))
      | None \<Rightarrow>
          if length buf < 28 then PacketsMore [] (Suc k) sched input buf
          else
            (let request = decodeRequest (take 28 buf); rest = drop 28 buf
             in if rqMagic request \<noteq> NBDRequestMagic then PacketsEnd [] (NbdReturns (Some InvalidMagic))
                else if rqType request = NBDCmdDisconnect then PacketsEnd [] (NbdReturns None)
                else if rqType request = NBDCmdFlush then PacketsEnd [] (NbdReturns (Some FlushNotSupported))
                else if rqType request = NBDCmdRead then
                  (if de_down env j then PacketsEnd [] (NbdReturns (Some ErrShuttingDown))
                   else addCommand (CmdRead (rqHandle request) (rqFrom request) (rqLength request))
                          (packets env (Suc k) (Suc j) sched input rest))
                else if rqType request = NBDCmdWrite then
                  (if rqLength request > dispatchMaxWriteBufferSize
                   then PacketsEnd [] (NbdReturns (Some (WriteTooLong (rqLength request))))
                   else
                     (let need = nat (rqLength request)
                      in (case readBody env (Suc k) need (take need rest) sched input of
                            BodyEnds e \<Rightarrow> PacketsEnd [] e
                          | BodyDone data k' sched' input' \<Rightarrow>
                              if de_down env j then PacketsEnd [] (NbdReturns (Some ErrShuttingDown))
                              else addCommand (CmdWrite (rqHandle request) (rqFrom request) data)
                                     (packets env k' (Suc j) sched' input' (drop need rest)))))
                else if rqType request = NBDCmdTrim then
                  (case de_trim env j of
                     Some e \<Rightarrow> PacketsEnd [CmdTrim (rqHandle request)] (NbdReturns (Some (TrimError e)))
                   | None \<Rightarrow> addCommand (CmdTrim (rqHandle request)) (packets env (Suc k) (Suc j) sched input rest))
                else PacketsEnd [] (NbdReturns (Some (NotImplemented (rqType request))))))"
  by pat_completeness auto

termination
  by (relation "measure (\<lambda>(_, _, _, _, _, buf). length buf)") auto

declare packets.simps [simp del]

lemma readBody_sched: "readBody env k need data sched input = BodyDone d k' sched' input' \<Longrightarrow> length sched' \<le> length sched"
proof (induction env k need data sched input rule: readBody.induct)
  case (1 env k need data sched input)
  show ?case
    using 1(2)
    by (subst (asm) readBody.simps)
      (auto simp: Let_def split: if_splits list.splits read_event.splits option.splits dest!: 1(1))
qed

lemma addCommand_More: "addCommand c r = PacketsMore cs k sched input buf \<longleftrightarrow>
    (\<exists>cs'. cs = c # cs' \<and> r = PacketsMore cs' k sched input buf)"
  by (cases r) auto

lemma packets_sched:
  "packets env k j sched input buf = PacketsMore cs k' sched' input' buf' \<Longrightarrow> length sched' \<le> length sched"
proof (induction env k j sched input buf arbitrary: cs rule: packets.induct)
  case (1 env k j sched input buf)
  note ih_read = 1(1) and ih_write = 1(2) and ih_trim = 1(3)
  show ?case
  proof (cases "de_stop env k = None \<and> \<not> length buf < 28 \<and>
      rqMagic (decodeRequest (take 28 buf)) = NBDRequestMagic")
    case False
    then show ?thesis
      using 1(4) by (subst (asm) packets.simps) (auto simp: Let_def split: option.splits if_splits)
  next
    case True
    then have step: "packets env k j sched input buf = PacketsMore cs k' sched' input' buf'" "\<not> length buf < 28"
        "de_stop env k = None" "rqMagic (decodeRequest (take 28 buf)) = NBDRequestMagic"
      using 1(4) by auto
    consider "rqType (decodeRequest (take 28 buf)) = NBDCmdRead" | "rqType (decodeRequest (take 28 buf)) = NBDCmdWrite"
      | "rqType (decodeRequest (take 28 buf)) = NBDCmdTrim"
      using step by (subst (asm) packets.simps) (auto simp: Let_def split: if_splits)
    then show ?thesis
    proof cases
      case 1
      then show ?thesis
        using step ih_read by (subst (asm) packets.simps) (auto simp: Let_def nbd_consts addCommand_More split: if_splits)
    next
      case 2
      then show ?thesis
        using step ih_write
        by (subst (asm) packets.simps)
          (fastforce simp: Let_def nbd_consts addCommand_More split: if_splits body_result.splits dest: readBody_sched)
    next
      case 3
      then show ?thesis
        using step ih_trim
        by (subst (asm) packets.simps) (auto simp: Let_def nbd_consts addCommand_More split: if_splits option.splits)
    qed
  qed
qed

subsection \<open>The loop of \<^verbatim>\<open>Handle\<close>\<close>

text \<open>
  The outer loop; \<open>buf\<close> is the partial packet moved to the start of the buffer, so that the capacity of the
  read is what it leaves.
\<close>

function handleLoop ::
  "'e nbd_env \<Rightarrow> nat \<Rightarrow> nat \<Rightarrow> 'e read_event list \<Rightarrow> byte list \<Rightarrow> byte list \<Rightarrow> nbd_command list \<times> 'e nbd_end" where
  "handleLoop env k j [] input buf = ([], NbdBlocks)"
| "handleLoop env k j (ReadFails e # sched) input buf = ([], NbdReturns (Some (ReadError e)))"
| "handleLoop env k j (Got n # sched) input buf =
     (if input = [] then ([], NbdReturns (Some NbdReadEOF))
      else
        (let m = min n (dispatchBufferSize - length buf)
         in (case packets env k j sched (drop m input) (buf @ take m input) of
               PacketsEnd cs e \<Rightarrow> (cs, e)
             | PacketsMore cs k' sched' input' buf' \<Rightarrow>
                 (let (cs', e) = handleLoop env k' (j + length cs) sched' input' buf' in (cs @ cs', e)))))"
  by pat_completeness auto

termination
  by (relation "measure (\<lambda>(_, _, _, sched, _, _). length sched)") (auto dest: packets_sched)

definition nbd_Handle :: "'e nbd_env \<Rightarrow> 'e read_event list \<Rightarrow> byte list \<Rightarrow> nbd_command list \<times> 'e nbd_end" where
  "nbd_Handle env sched input = handleLoop env 0 0 sched input []"

subsection \<open>The requests of a whole stream\<close>

text \<open>
  The reference: the requests that a complete byte stream holds, with no buffer, no reads and no loop of
  loops, and how the server ends when the stream does.
\<close>

function nbd_spec :: "byte list \<Rightarrow> nbd_command list \<times> 'e nbd_error option" where
  "nbd_spec s =
     (if length s < 28 then ([], Some NbdReadEOF)
      else
        (let request = decodeRequest (take 28 s); rest = drop 28 s; need = nat (rqLength request)
         in if rqMagic request \<noteq> NBDRequestMagic then ([], Some InvalidMagic)
            else if rqType request = NBDCmdRead then
              (let (cs, e) = nbd_spec rest in (CmdRead (rqHandle request) (rqFrom request) (rqLength request) # cs, e))
            else if rqType request = NBDCmdWrite then
              (if rqLength request > dispatchMaxWriteBufferSize then ([], Some (WriteTooLong (rqLength request)))
               else if length rest < need then ([], Some NbdWriteReadEOF)
               else (let (cs, e) = nbd_spec (drop need rest)
                     in (CmdWrite (rqHandle request) (rqFrom request) (take need rest) # cs, e)))
            else if rqType request = NBDCmdTrim then
              (let (cs, e) = nbd_spec rest in (CmdTrim (rqHandle request) # cs, e))
            else if rqType request = NBDCmdDisconnect then ([], None)
            else if rqType request = NBDCmdFlush then ([], Some FlushNotSupported)
            else ([], Some (NotImplemented (rqType request)))))"
  by pat_completeness auto

termination
  by (relation "measure length") auto

declare nbd_spec.simps [simp del]

subsection \<open>The loop reads the requests of the stream\<close>

text \<open>A run that no other goroutine stops, on reads that do not fail, or that also return something.\<close>

definition quiet_env :: "'e nbd_env" where
  "quiet_env = \<lparr>de_stop = (\<lambda>_. None), de_down = (\<lambda>_. False), de_trim = (\<lambda>_. None)\<rparr>"

lemma quiet_env_simps [simp]: "de_stop quiet_env k = None" "de_down quiet_env k = False" "de_trim quiet_env k = None"
  by (simp_all add: quiet_env_def)

primrec got :: "nat \<Rightarrow> 'e read_event \<Rightarrow> bool" where
  "got n (Got m) \<longleftrightarrow> n \<le> m"
| "got n (ReadFails e) \<longleftrightarrow> False"

text \<open>Every read that returns something leaves at least as many reads for each byte that is left.\<close>

definition reads_left :: "'e read_event list \<Rightarrow> byte list \<Rightarrow> 'e read_event list \<Rightarrow> byte list \<Rightarrow> bool" where
  "reads_left sched input sched' input' \<longleftrightarrow>
     list_all (got 0) sched' \<and>
     (list_all (got 1) sched \<longrightarrow>
        list_all (got 1) sched' \<and> length sched + length input' \<le> length sched' + length input)"

lemma reads_left_refl: "list_all (got 0) sched \<Longrightarrow> reads_left sched input sched input"
  by (simp add: reads_left_def)

lemma reads_left_trans:
  "reads_left s1 i1 s2 i2 \<Longrightarrow> reads_left s2 i2 s3 i3 \<Longrightarrow> reads_left s1 i1 s3 i3"
  by (auto simp: reads_left_def)

lemma reads_left_got:
  assumes "list_all (got 0) (Got n # sched)" "input \<noteq> []" "0 < cap"
  shows "reads_left (Got n # sched) input sched (drop (min n cap) input)"
  using assms by (cases "length input \<le> min n cap") (auto simp: reads_left_def list_all_iff Suc_le_eq neq_Nil_conv)

definition reads_enough :: "'e read_event list \<Rightarrow> byte list \<Rightarrow> bool" where
  "reads_enough sched input \<longleftrightarrow> list_all (got 1) sched \<and> length input < length sched"

lemma reads_enough_left: "reads_left s i s' i' \<Longrightarrow> reads_enough s i \<Longrightarrow> reads_enough s' i'"
  by (auto simp: reads_left_def reads_enough_def)

fun body_ok :: "'e read_event list \<Rightarrow> byte list \<Rightarrow> nat \<Rightarrow> byte list \<Rightarrow> 'e body_result \<Rightarrow> bool" where
  "body_ok sched input need s (BodyDone d k' sched' input') \<longleftrightarrow>
     length d = need \<and> d @ input' = s \<and> reads_left sched input sched' input'"
| "body_ok sched input need s (BodyEnds (NbdReturns r)) \<longleftrightarrow> r = Some NbdWriteReadEOF \<and> length s < need"
| "body_ok sched input need s (BodyEnds NbdBlocks) \<longleftrightarrow> \<not> reads_enough sched input"

lemma body_ok_left:
  assumes "reads_left sched input sched' input'" "body_ok sched' input' need s r"
  shows "body_ok sched input need s r"
  using assms(2)
  by (cases rule: body_ok.cases[of "(sched', input', need, s, r)"])
    (auto dest: reads_left_trans[OF assms(1)] reads_enough_left[OF assms(1)])

lemma readBody_ok:
  "list_all (got 0) sched \<Longrightarrow> length data \<le> need \<Longrightarrow>
     body_ok sched input need (data @ input) (readBody quiet_env k need data sched input)"
proof (induction sched arbitrary: k data input)
  case Nil
  then show ?case
    by (subst readBody.simps) (auto simp: reads_left_def reads_enough_def)
next
  case (Cons ev sched)
  obtain n where ev: "ev = Got n"
    using Cons.prems(1) by (cases ev) auto
  show ?case
  proof (cases "need \<le> length data \<or> input = []")
    case True
    then show ?thesis
      using Cons.prems by (subst readBody.simps) (auto simp: ev reads_left_refl)
  next
    case False
    let ?m = "min n (need - length data)"
    have left: "reads_left (ev # sched) input sched (drop ?m input)"
      using reads_left_got[of n sched input "need - length data"] Cons.prems False by (simp add: ev)
    have "body_ok sched (drop ?m input) need ((data @ take ?m input) @ drop ?m input)
        (readBody quiet_env (Suc k) need (data @ take ?m input) sched (drop ?m input))"
      by (rule Cons.IH) (use Cons.prems in auto)
    then have "body_ok (ev # sched) input need (data @ input)
        (readBody quiet_env (Suc k) need (data @ take ?m input) sched (drop ?m input))"
      using body_ok_left[OF left] by simp
    then show ?thesis
      using False by (subst readBody.simps) (simp add: ev Let_def)
  qed
qed

text \<open>What the inner loop owes the stream \<open>s\<close> that its buffer and the rest of the input make up.\<close>

fun packets_ok :: "'e read_event list \<Rightarrow> byte list \<Rightarrow> byte list \<Rightarrow> 'e packets_result \<Rightarrow> bool" where
  "packets_ok sched input s (PacketsMore cs k' sched' input' buf') \<longleftrightarrow>
     length buf' < 28 \<and> reads_left sched input sched' input' \<and>
     (nbd_spec s :: nbd_command list \<times> 'e nbd_error option) =
       (cs @ fst (nbd_spec (buf' @ input') :: nbd_command list \<times> 'e nbd_error option), snd (nbd_spec (buf' @ input')))"
| "packets_ok sched input s (PacketsEnd cs (NbdReturns r)) \<longleftrightarrow> nbd_spec s = (cs, r)"
| "packets_ok sched input s (PacketsEnd cs NbdBlocks) \<longleftrightarrow>
     prefix cs (fst (nbd_spec s :: nbd_command list \<times> 'e nbd_error option)) \<and> \<not> reads_enough sched input"

lemma packets_ok_addCommand:
  fixes r :: "'e packets_result"
  assumes left: "reads_left sched input sched' input'" and r: "packets_ok sched' input' s' r"
    and spec: "(nbd_spec s :: nbd_command list \<times> 'e nbd_error option) =
      (c # fst (nbd_spec s' :: nbd_command list \<times> 'e nbd_error option), snd (nbd_spec s'))"
  shows "packets_ok sched input s (addCommand c r)"
  using r
  by (cases rule: packets_ok.cases[of "(sched', input', s', r)"])
    (auto simp: spec dest: reads_left_trans[OF left] reads_enough_left[OF left])

text \<open>The steps of the reference, one for each kind of request.\<close>

lemma nbd_spec_step:
  fixes s :: "byte list" and spec :: "byte list \<Rightarrow> nbd_command list \<times> 'e nbd_error option"
  defines "rq \<equiv> decodeRequest (take 28 s)" and "spec \<equiv> nbd_spec"
  assumes "\<not> length s < 28" "rqMagic rq = NBDRequestMagic"
  shows "rqType rq = NBDCmdRead \<Longrightarrow>
      spec s = (CmdRead (rqHandle rq) (rqFrom rq) (rqLength rq) # fst (spec (drop 28 s)), snd (spec (drop 28 s)))"
    and "rqType rq = NBDCmdTrim \<Longrightarrow>
      spec s = (CmdTrim (rqHandle rq) # fst (spec (drop 28 s)), snd (spec (drop 28 s)))"
    and "rqType rq = NBDCmdWrite \<Longrightarrow> rqLength rq \<le> dispatchMaxWriteBufferSize \<Longrightarrow>
      drop 28 s = d @ s' \<Longrightarrow> length d = nat (rqLength rq) \<Longrightarrow>
      spec s = (CmdWrite (rqHandle rq) (rqFrom rq) d # fst (spec s'), snd (spec s'))"
    and "rqType rq = NBDCmdWrite \<Longrightarrow> rqLength rq \<le> dispatchMaxWriteBufferSize \<Longrightarrow>
      length (drop 28 s) < nat (rqLength rq) \<Longrightarrow> spec s = ([], Some NbdWriteReadEOF)"
  using assms(3,4) unfolding rq_def spec_def
  by (subst nbd_spec.simps, simp add: Let_def case_prod_beta nbd_consts)+

lemma packets_body:
  fixes sched :: "'e read_event list" and s buf :: "byte list"
  defines "rq \<equiv> decodeRequest (take 28 buf)"
  assumes sched: "list_all (got 0) sched" and full: "\<not> length buf < 28" and magic: "rqMagic rq = NBDRequestMagic"
    and type: "rqType rq = NBDCmdWrite" and len: "rqLength rq \<le> dispatchMaxWriteBufferSize"
    and IH: "\<And>sched' :: 'e read_event list. \<And>input' n k' j'. list_all (got 0) sched' \<Longrightarrow>
      packets_ok sched' input' (drop (28 + n) buf @ input') (packets quiet_env k' j' sched' input' (drop (28 + n) buf))"
  shows "packets_ok sched input (buf @ input) (packets quiet_env k j sched input buf)"
proof -
  let ?need = "nat (rqLength rq)" and ?rest = "drop 28 buf"
  let ?r = "readBody quiet_env (Suc k) ?need (take ?need ?rest) sched input"
  have unf: "packets quiet_env k j sched input buf = (case ?r of BodyEnds e \<Rightarrow> PacketsEnd [] e
      | BodyDone data k' sched' input' \<Rightarrow> addCommand (CmdWrite (rqHandle rq) (rqFrom rq) data)
          (packets quiet_env k' (Suc j) sched' input' (drop ?need ?rest)))"
    using full magic type len by (subst packets.simps) (simp add: Let_def nbd_consts rq_def split: body_result.split)
  have rq: "rq = decodeRequest (take 28 (buf @ input))"
    using full by (simp add: rq_def)
  have long: "\<not> length (buf @ input) < 28"
    using full by simp
  note step = nbd_spec_step[of "buf @ input", folded rq, OF long magic]
  have ok: "body_ok sched input ?need (take ?need ?rest @ input) ?r"
    by (rule readBody_ok) (use sched in simp_all)
  show ?thesis
  proof (cases ?r)
    case r: (BodyDone d k' sched'' input'')
    then have d: "length d = ?need" "d @ input'' = take ?need ?rest @ input" "reads_left sched input sched'' input''"
      using ok by simp_all
    have "drop 28 (buf @ input) = d @ (drop (28 + ?need) buf @ input'')"
    proof (cases "?need \<le> length ?rest")
      case True
      then have "d = take ?need ?rest \<and> input'' = input"
        using d(1,2) by (intro append_eq_append_conv[THEN iffD1]) (auto simp: min_def)
      then show ?thesis
        using full append_take_drop_id[of ?need ?rest] by (simp del: append_take_drop_id add: ac_simps append_assoc[symmetric])
    next
      case False
      then show ?thesis
        using d(2) full by simp
    qed
    from packets_ok_addCommand[OF d(3) IH step(3)[OF type len this d(1)]] show ?thesis
      using d(3) unf by (simp add: r reads_left_def ac_simps)
  next
    case r: (BodyEnds e)
    show ?thesis
    proof (cases e)
      case (NbdReturns e')
      then have "e' = Some NbdWriteReadEOF" "length (drop 28 (buf @ input)) < ?need"
        using ok full by (auto simp: r min_def split: if_splits)
      then show ?thesis
        using unf[unfolded r] step(4)[OF type len] by (simp add: NbdReturns)
    next
      case NbdBlocks
      then show ?thesis
        using ok unf by (simp add: r)
    qed
  qed
qed

lemma packets_spec:
  fixes sched :: "'e read_event list"
  assumes "list_all (got 0) sched"
  shows "packets_ok sched input (buf @ input) (packets quiet_env k j sched input buf)"
  using assms
proof (induction "length buf" arbitrary: sched input buf k j rule: less_induct)
  case less
  let ?rq = "decodeRequest (take 28 buf)"
  have refl: "reads_left sched input sched input"
    using less.prems by (rule reads_left_refl)
  show ?case
  proof (cases "length buf < 28 \<or> rqMagic ?rq \<noteq> NBDRequestMagic")
    case True
    then show ?thesis
      using refl by (subst packets.simps) (auto simp: Let_def nbd_spec.simps[of "buf @ input"])
  next
    case False
    then have full: "\<not> length buf < 28" "\<not> length (buf @ input) < 28"
      and magic: "rqMagic ?rq = NBDRequestMagic" "rqMagic (decodeRequest (take 28 (buf @ input))) = NBDRequestMagic"
      by simp_all
    have IH: "packets_ok sched' input' (drop (28 + n) buf @ input')
        (packets quiet_env k' j' sched' input' (drop (28 + n) buf))"
      if "list_all (got 0) sched'" for sched' :: "'e read_event list" and input' n k' j'
      by (rule less.hyps[OF _ that]) (use full in \<open>simp add: less_diff_conv\<close>)
    have "drop 28 (buf @ input) = drop (28 + 0) buf @ input"
      using full by simp
    note spec = nbd_spec_step[of "buf @ input", OF full(2) magic(2), unfolded this]
    note step = packets_ok_addCommand[OF refl IH[OF less.prems, where n = 0]]
    consider "rqType ?rq = NBDCmdRead" | "rqType ?rq = NBDCmdTrim"
      | "rqType ?rq = NBDCmdWrite" "rqLength ?rq \<le> dispatchMaxWriteBufferSize"
      | (other) "rqType ?rq \<noteq> NBDCmdRead" "rqType ?rq \<noteq> NBDCmdTrim"
          "rqType ?rq = NBDCmdWrite \<longrightarrow> rqLength ?rq > dispatchMaxWriteBufferSize"
      by linarith
    then show ?thesis
    proof cases
      case 1
      then show ?thesis
        using step[OF spec(1)] full magic by (subst packets.simps) (simp add: Let_def nbd_consts)
    next
      case 2
      then show ?thesis
        using step[OF spec(2)] full magic by (subst packets.simps) (simp add: Let_def nbd_consts)
    next
      case 3
      show ?thesis
        by (rule packets_body[OF less.prems full(1) magic(1) 3 IH])
    next
      case other
      then show ?thesis
        using full magic by (subst packets.simps) (auto simp: Let_def nbd_consts nbd_spec.simps[of "buf @ input"])
    qed
  qed
qed

lemma handleLoop_spec:
  fixes sched :: "'e read_event list"
  assumes "list_all (got 0) sched" "length buf < 28"
  shows "packets_ok sched input (buf @ input)
    (case handleLoop quiet_env k j sched input buf of (cs, e) \<Rightarrow> PacketsEnd cs e)"
  using assms
proof (induction "length sched" arbitrary: sched input buf k j rule: less_induct)
  case less
  show ?case
  proof (cases sched)
    case Nil
    then show ?thesis by (simp add: reads_enough_def)
  next
    case (Cons ev sched1)
    obtain n where ev: "ev = Got n"
      using less.prems Cons by (cases ev) auto
    let ?m = "min n (dispatchBufferSize - length buf)"
    let ?r = "packets quiet_env k j sched1 (drop ?m input) (buf @ take ?m input)"
    show ?thesis
    proof (cases "input = []")
      case True
      then show ?thesis
        using less.prems by (simp add: Cons ev nbd_spec.simps)
    next
      case False
      have "dispatchBufferSize > 28" by (simp add: dispatchBufferSize_def)
      then have left: "reads_left sched input sched1 (drop ?m input)"
        using reads_left_got[of n sched1 input "dispatchBufferSize - length buf"] less.prems False
        by (simp add: Cons ev)
      have ok: "packets_ok sched1 (drop ?m input) (buf @ input) ?r"
        using packets_spec[of sched1 "drop ?m input" "buf @ take ?m input"] left by (simp add: reads_left_def)
      show ?thesis
      proof (cases ?r)
        case r: (PacketsEnd cs e)
        then show ?thesis
          using ok False reads_enough_left[OF left] by (cases e) (auto simp: Cons ev Let_def)
      next
        case r: (PacketsMore cs k' sched' input' buf')
        obtain cs' e where loop: "handleLoop quiet_env k' (j + length cs) sched' input' buf' = (cs', e)"
          by fastforce
        have "length sched' < length sched"
          using packets_sched[OF r] by (simp add: Cons)
        with ok have IH: "packets_ok sched' input' (buf' @ input') (PacketsEnd cs' e)"
          using less.hyps[of sched' buf' input' k' "j + length cs"] by (simp add: r reads_left_def loop)
        then show ?thesis
          using ok False reads_enough_left[OF left] reads_enough_left[of sched1 "drop ?m input" sched' input']
          by (cases e) (auto simp: Cons ev Let_def r loop)
      qed
    qed
  qed
qed

end
