(* ===== verification/Nbd_Response.thy ===== *)
theory Nbd_Response
  imports Nbd_Dispatch "HOL-Library.Multiset"
begin

text \<open>
  The responses of the block device server (\<^verbatim>\<open>Dispatch\<close> of
  \<^verbatim>\<open>packages/orchestrator/pkg/sandbox/nbd/dispatch.go\<close>).  Every read and every write runs in a goroutine of
  its own, and a response is written under \<^verbatim>\<open>writeLock\<close>, so that the bytes of one response are one step of
  the relation \<open>nbd_step\<close>.  \<open>dp_pending\<close> are the commands of the goroutines that \<^verbatim>\<open>pendingResponses\<close> counts;
  \<open>dp_drain\<close> is how far \<^verbatim>\<open>Drain\<close> has come, which holds \<^verbatim>\<open>shuttingDownLock\<close> while it waits.  What the
  provider returns and which calls of \<^verbatim>\<open>Write\<close> fail is chosen by the step.
\<close>

datatype drain_state = DrainIdle | DrainWaiting | DrainDone

record 'e Dispatch =
  dp_responseHeader :: "byte list"
  dp_out :: "byte list"
  dp_pending :: "nbd_command list"
  dp_shuttingDown :: bool
  dp_drain :: drain_state
  dp_fatal :: "'e option"

definition put_at :: "nat \<Rightarrow> byte list \<Rightarrow> byte list \<Rightarrow> byte list" where
  "put_at i bs xs = take i xs @ bs @ drop (i + length bs) xs"

definition NewDispatch :: "'e Dispatch" where
  "NewDispatch =
     \<lparr>dp_responseHeader = put_at 0 (put_big_endian 4 NBDResponseMagic) (replicate 16 0), dp_out = [],
      dp_pending = [], dp_shuttingDown = False, dp_drain = DrainIdle, dp_fatal = None\<rparr>"

text \<open>A call of \<^verbatim>\<open>fp.Write\<close> writes everything, or fails after some bytes.\<close>

datatype 'e write_event = Wrote | WriteFails nat 'e

fun fp_Write :: "'e write_event \<Rightarrow> byte list \<Rightarrow> 'e Dispatch \<Rightarrow> 'e option \<times> 'e Dispatch" where
  "fp_Write Wrote bs d = (None, d\<lparr>dp_out := dp_out d @ bs\<rparr>)"
| "fp_Write (WriteFails n e) bs d = (Some e, d\<lparr>dp_out := dp_out d @ take n bs\<rparr>)"

definition writeResponse ::
  "int \<Rightarrow> int \<Rightarrow> byte list \<Rightarrow> 'e write_event \<Rightarrow> 'e write_event \<Rightarrow> 'e Dispatch \<Rightarrow> 'e option \<times> 'e Dispatch" where
  "writeResponse respError respHandle chunk w1 w2 d =
     (let h1 = put_at 4 (put_big_endian 4 respError) (dp_responseHeader d);
          h2 = put_at 8 (put_big_endian 8 respHandle) h1;
          (err, d2) = fp_Write w1 h2 (d\<lparr>dp_responseHeader := h2\<rparr>)
      in case err of
           Some e \<Rightarrow> (Some e, d2)
         | None \<Rightarrow> if chunk \<noteq> [] then fp_Write w2 chunk d2 else (None, d2))"

text \<open>
  What the \<^verbatim>\<open>select\<close> of a goroutine finds: the end of the context, or the result of the provider, for a
  read with the bytes it has put into the buffer.
\<close>

datatype 'e provided = ContextDone | Provided "byte list" "'e option"

fun read_reply :: "'e provided \<Rightarrow> int \<Rightarrow> int \<times> byte list" where
  "read_reply ContextDone len = (1, [])"
| "read_reply (Provided filled (Some e)) len = (1, [])"
| "read_reply (Provided filled None) len = (0, put_at 0 (take (nat len) filled) (replicate (nat len) 0))"

fun write_reply :: "'e provided \<Rightarrow> int \<times> byte list" where
  "write_reply ContextDone = (1, [])"
| "write_reply (Provided filled (Some e)) = (1, [])"
| "write_reply (Provided filled None) = (0, [])"

fun command_reply :: "nbd_command \<Rightarrow> 'e provided \<Rightarrow> int \<times> byte list" where
  "command_reply (CmdRead h from len) o' = read_reply o' len"
| "command_reply (CmdWrite h from data) o' = write_reply o'"
| "command_reply (CmdTrim h) o' = (0, [])"

fun command_handle :: "nbd_command \<Rightarrow> int" where
  "command_handle (CmdRead h from len) = h"
| "command_handle (CmdWrite h from data) = h"
| "command_handle (CmdTrim h) = h"

text \<open>\<^verbatim>\<open>performRead\<close> and \<^verbatim>\<open>performWrite\<close>, which end in a response.\<close>

definition performCommand ::
  "nbd_command \<Rightarrow> 'e provided \<Rightarrow> 'e write_event \<Rightarrow> 'e write_event \<Rightarrow> 'e Dispatch \<Rightarrow> 'e option \<times> 'e Dispatch" where
  "performCommand c o' w1 w2 d =
     (let (respError, chunk) = command_reply c o' in writeResponse respError (command_handle c) chunk w1 w2 d)"

text \<open>The end of the goroutine: a fatal error goes to the channel when it has room, or is logged.\<close>

fun reportFatal :: "'e option \<Rightarrow> 'e Dispatch \<Rightarrow> 'e Dispatch" where
  "reportFatal None d = d"
| "reportFatal (Some e) d = (if dp_fatal d = None then d\<lparr>dp_fatal := Some e\<rparr> else d)"

text \<open>\<^verbatim>\<open>cmdRead\<close> and \<^verbatim>\<open>cmdWrite\<close>: the goroutine starts unless the server is shutting down.\<close>

definition startCommand :: "nbd_command \<Rightarrow> 'e Dispatch \<Rightarrow> 'e nbd_error option \<times> 'e Dispatch" where
  "startCommand c d =
     (if dp_shuttingDown d then (Some ErrShuttingDown, d) else (None, d\<lparr>dp_pending := dp_pending d @ [c]\<rparr>))"

definition Drain_begin :: "'e Dispatch \<Rightarrow> 'e Dispatch" where
  "Drain_begin d = d\<lparr>dp_shuttingDown := True, dp_drain := DrainWaiting\<rparr>"

text \<open>The fields of a command are in the range of their machine types, as those of a decoded request are.\<close>

fun command_ok :: "nbd_command \<Rightarrow> bool" where
  "command_ok (CmdRead h from len) \<longleftrightarrow> 0 \<le> h \<and> h < 2 ^ 64 \<and> 0 \<le> len \<and> len < 2 ^ 32"
| "command_ok (CmdWrite h from data) \<longleftrightarrow> 0 \<le> h \<and> h < 2 ^ 64"
| "command_ok (CmdTrim h) \<longleftrightarrow> 0 \<le> h \<and> h < 2 ^ 64"

datatype nbd_event =
    Issued nbd_command
  | Answered nbd_command int "byte list"
  | Unanswered nbd_command

definition answer_event :: "nbd_command \<Rightarrow> 'e provided \<Rightarrow> 'e option \<Rightarrow> nbd_event" where
  "answer_event c o' err =
     (case err of None \<Rightarrow> (case command_reply c o' of (e, chunk) \<Rightarrow> Answered c e chunk) | Some _ \<Rightarrow> Unanswered c)"

inductive nbd_step :: "'e Dispatch \<Rightarrow> nbd_event list \<Rightarrow> 'e Dispatch \<Rightarrow> bool" where
  start: "dp_drain d \<noteq> DrainWaiting \<Longrightarrow> command_ok c \<Longrightarrow> (\<forall>h. c \<noteq> CmdTrim h) \<Longrightarrow> startCommand c d = (None, d') \<Longrightarrow>
    nbd_step d [Issued c] d'"
| refuse: "dp_drain d \<noteq> DrainWaiting \<Longrightarrow> startCommand c d = (Some ErrShuttingDown, d') \<Longrightarrow> nbd_step d [] d'"
| finish: "dp_pending d = p @ c # q \<Longrightarrow> performCommand c o' w1 w2 d = (err, d') \<Longrightarrow>
    nbd_step d [answer_event c o' err] (reportFatal err (d'\<lparr>dp_pending := p @ q\<rparr>))"
| trim: "command_ok (CmdTrim h) \<Longrightarrow> performCommand (CmdTrim h) ContextDone w1 w2 d = (err, d') \<Longrightarrow>
    nbd_step d [Issued (CmdTrim h), answer_event (CmdTrim h) (ContextDone :: 'e provided) err] d'"
| drain: "dp_drain d \<noteq> DrainWaiting \<Longrightarrow> nbd_step d [] (Drain_begin d)"
| drained: "dp_drain d = DrainWaiting \<Longrightarrow> dp_pending d = [] \<Longrightarrow> nbd_step d [] (d\<lparr>dp_drain := DrainDone\<rparr>)"
| fatal: "nbd_step d [] (d\<lparr>dp_fatal := None\<rparr>)"

inductive nbd_run :: "nbd_event list \<Rightarrow> 'e Dispatch \<Rightarrow> bool" where
  init: "nbd_run [] NewDispatch"
| step: "nbd_run tr d \<Longrightarrow> nbd_step d evs d' \<Longrightarrow> nbd_run (tr @ evs) d'"

subsection \<open>The bytes of a response\<close>

definition response_bytes :: "int \<Rightarrow> int \<Rightarrow> byte list \<Rightarrow> byte list" where
  "response_bytes err h chunk =
     put_big_endian 4 NBDResponseMagic @ put_big_endian 4 err @ put_big_endian 8 h @ chunk"

lemma length_put_big_endian [simp]: "length (put_big_endian n x) = n"
  by (induction n arbitrary: x) simp_all

lemma big_endian_snoc: "big_endian (bs @ [b]) = big_endian bs * 256 + uint b"
  by (simp add: big_endian_def)

lemma big_endian_put: "big_endian (put_big_endian n x) = x mod 256 ^ n"
proof (induction n arbitrary: x)
  case 0
  then show ?case by (simp add: big_endian_def)
next
  case (Suc n)
  have "x mod (256 * 256 ^ n) = 256 * (x div 256 mod 256 ^ n) + x mod 256"
    by (rule zmod_zmult2_eq) simp
  then show ?case
    by (simp add: Suc big_endian_snoc uint_word_of_int take_bit_eq_mod)
qed

definition header_ok :: "'e Dispatch \<Rightarrow> bool" where
  "header_ok d \<longleftrightarrow> length (dp_responseHeader d) = 16 \<and>
     take 4 (dp_responseHeader d) = put_big_endian 4 NBDResponseMagic"

lemma header_ok_update [simp]:
  "header_ok (d\<lparr>dp_pending := p\<rparr>) = header_ok d" "header_ok (d\<lparr>dp_drain := s\<rparr>) = header_ok d"
  "header_ok (d\<lparr>dp_shuttingDown := b\<rparr>) = header_ok d" "header_ok (d\<lparr>dp_fatal := e\<rparr>) = header_ok d"
  by (simp_all add: header_ok_def)

lemma put_at_fields:
  assumes "length h = 16" "take 4 h = m" "length e = 4" "length r = 8"
  shows "put_at 8 r (put_at 4 e h) = m @ e @ r"
proof -
  have "length m = 4"
    using assms(1,2) by auto
  then show ?thesis
    using assms by (simp add: put_at_def)
qed

text \<open>Whatever a response does, only the header, the output and no other field change.\<close>

lemma writeResponse_ok:
  assumes "header_ok d" "writeResponse err h chunk w1 w2 d = (e, d')"
  shows "header_ok d'" "dp_pending d' = dp_pending d" "dp_shuttingDown d' = dp_shuttingDown d"
    "dp_drain d' = dp_drain d" "dp_fatal d' = dp_fatal d"
    "e = None \<Longrightarrow> dp_out d' = dp_out d @ response_bytes err h chunk"
  using assms put_at_fields[of "dp_responseHeader d" _ "put_big_endian 4 err" "put_big_endian 8 h"]
  by (cases w1; cases w2; auto simp: writeResponse_def header_ok_def response_bytes_def Let_def split: if_splits)+

subsection \<open>The invariant\<close>

primrec answered :: "nbd_event \<Rightarrow> nbd_command list" where
  "answered (Issued c) = []"
| "answered (Answered c err chunk) = [c]"
| "answered (Unanswered c) = [c]"

primrec issued :: "nbd_event \<Rightarrow> nbd_command list" where
  "issued (Issued c) = [c]"
| "issued (Answered c err chunk) = []"
| "issued (Unanswered c) = []"

primrec replies :: "nbd_event \<Rightarrow> (int \<times> int \<times> byte list) list" where
  "replies (Issued c) = []"
| "replies (Answered c err chunk) = [(command_handle c, err, chunk)]"
| "replies (Unanswered c) = []"

primrec failed_write :: "nbd_event \<Rightarrow> bool" where
  "failed_write (Issued c) = False"
| "failed_write (Answered c err chunk) = False"
| "failed_write (Unanswered c) = True"

text \<open>The data of a successful reply: as much as the read asks for, and none for the others.\<close>

primrec wanted :: "nbd_command \<Rightarrow> nat" where
  "wanted (CmdRead h from len) = nat len"
| "wanted (CmdWrite h from data) = 0"
| "wanted (CmdTrim h) = 0"

primrec event_ok :: "nbd_event \<Rightarrow> bool" where
  "event_ok (Issued c) = command_ok c"
| "event_ok (Answered c err chunk) \<longleftrightarrow>
     command_ok c \<and> (err = 0 \<or> err = 1) \<and> length chunk = (if err = 0 then wanted c else 0)"
| "event_ok (Unanswered c) = command_ok c"

definition reply_bytes :: "int \<times> int \<times> byte list \<Rightarrow> byte list" where
  "reply_bytes r = (case r of (h, err, chunk) \<Rightarrow> response_bytes err h chunk)"

definition nbd_inv :: "nbd_event list \<Rightarrow> 'e Dispatch \<Rightarrow> bool" where
  "nbd_inv tr d \<longleftrightarrow>
     header_ok d \<and> list_all event_ok tr \<and> list_all command_ok (dp_pending d) \<and>
     mset (concat (map issued tr)) = mset (concat (map answered tr)) + mset (dp_pending d) \<and>
     (dp_drain d = DrainDone \<longrightarrow> dp_pending d = []) \<and> (dp_shuttingDown d \<longleftrightarrow> dp_drain d \<noteq> DrainIdle) \<and>
     (list_all (\<lambda>ev. \<not> failed_write ev) tr \<longrightarrow>
        dp_out d = concat (map reply_bytes (concat (map replies tr))))"

lemma command_reply_ok: "command_ok c \<Longrightarrow> command_reply c o' = (err, chunk) \<Longrightarrow> event_ok (Answered c err chunk)"
  by (cases c; cases o' rule: write_reply.cases) (auto simp: put_at_def)

text \<open>A response of the command \<open>c\<close>, which is taken from the pending ones, keeps the invariant.\<close>

lemma performCommand_ok:
  assumes inv: "nbd_inv tr d" and c: "command_ok c" and run: "performCommand c o' w1 w2 d = (err, d')"
  defines "ev \<equiv> answer_event c o' err"
  shows "header_ok d'" "dp_pending d' = dp_pending d" "dp_shuttingDown d' = dp_shuttingDown d"
    "dp_drain d' = dp_drain d" "event_ok ev" "answered ev = [c]" "issued ev = []"
    "list_all (\<lambda>ev. \<not> failed_write ev) (tr @ [ev]) \<Longrightarrow>
       dp_out d' = concat (map reply_bytes (concat (map replies (tr @ [ev]))))"
proof -
  obtain e chunk where r: "command_reply c o' = (e, chunk)" by fastforce
  have w: "writeResponse e (command_handle c) chunk w1 w2 d = (err, d')"
    using run by (simp add: performCommand_def r)
  have hd: "header_ok d" using inv by (simp add: nbd_inv_def)
  note ok = writeResponse_ok[OF hd w]
  show "header_ok d'" "dp_pending d' = dp_pending d" "dp_shuttingDown d' = dp_shuttingDown d"
    "dp_drain d' = dp_drain d"
    by (fact ok)+
  show "event_ok ev" "answered ev = [c]" "issued ev = []"
    using command_reply_ok[OF c r] c by (auto simp: ev_def answer_event_def r split: option.splits)
  show "dp_out d' = concat (map reply_bytes (concat (map replies (tr @ [ev]))))"
    if "list_all (\<lambda>ev. \<not> failed_write ev) (tr @ [ev])"
    using that inv ok(6)
    by (auto simp: nbd_inv_def ev_def answer_event_def r reply_bytes_def split: option.splits)
qed

lemma reportFatal_fields [simp]:
  "header_ok (reportFatal err d) = header_ok d" "dp_pending (reportFatal err d) = dp_pending d"
  "dp_shuttingDown (reportFatal err d) = dp_shuttingDown d" "dp_drain (reportFatal err d) = dp_drain d"
  "dp_out (reportFatal err d) = dp_out d"
  by (cases err; simp)+

lemma nbd_inv_init: "nbd_inv [] NewDispatch"
  by (simp add: nbd_inv_def NewDispatch_def header_ok_def put_at_def)

lemma nbd_inv_step: "nbd_step d evs d' \<Longrightarrow> nbd_inv tr d \<Longrightarrow> nbd_inv (tr @ evs) d'"
proof (induction rule: nbd_step.induct)
  case (start d c d')
  then show ?case
    by (auto simp: nbd_inv_def startCommand_def split: if_splits)
next
  case (refuse d c d')
  then show ?case by (simp add: startCommand_def split: if_splits)
next
  case (finish d p c q o' w1 w2 err d')
  then have "command_ok c" by (simp add: nbd_inv_def)
  note ok = performCommand_ok[OF finish(3) this finish(2)]
  show ?case
    using finish(1,3) ok by (auto simp: nbd_inv_def)
next
  case (trim h w1 w2 d err d')
  note ok = performCommand_ok[OF trim(3,1,2)]
  show ?case
    using trim(1,3) ok by (auto simp: nbd_inv_def)
next
  case (drain d)
  then show ?case by (auto simp: nbd_inv_def Drain_begin_def)
next
  case (drained d)
  then show ?case by (auto simp: nbd_inv_def)
next
  case (fatal d)
  then show ?case by (simp add: nbd_inv_def)
qed

lemma nbd_run_inv: "nbd_run tr d \<Longrightarrow> nbd_inv tr d"
  by (induction rule: nbd_run.induct) (simp_all add: nbd_inv_init nbd_inv_step)

subsection \<open>The replies that a client reads\<close>

text \<open>
  The reference reader: it splits the bytes into replies, where \<open>len\<close> says how much data it expects with the
  successful reply to a handle.
\<close>

function nbd_replies :: "(int \<Rightarrow> nat) \<Rightarrow> byte list \<Rightarrow> (int \<times> int \<times> byte list) list" where
  "nbd_replies len s =
     (let err = big_endian (take 4 (drop 4 s)); h = big_endian (take 8 (drop 8 s));
          n = (if err = 0 then len h else 0)
      in if length s < 16 + n \<or> big_endian (take 4 s) \<noteq> NBDResponseMagic then []
         else (h, err, take n (drop 16 s)) # nbd_replies len (drop (16 + n) s))"
  by pat_completeness auto

termination
  by (relation "measure (\<lambda>(len, s). length s)") auto

declare nbd_replies.simps [simp del]

lemma nbd_replies_response:
  assumes "0 \<le> h" "h < 2 ^ 64" "err = 0 \<or> err = 1" "length chunk = (if err = 0 then len h else 0)"
  shows "nbd_replies len (response_bytes err h chunk @ s) = (h, err, chunk) # nbd_replies len s"
  using assms by (subst nbd_replies.simps) (auto simp: response_bytes_def big_endian_put NBDResponseMagic_def Let_def)

lemma nbd_replies_concat:
  assumes "list_all event_ok tr"
    and "list_all (\<lambda>c. wanted c = len (command_handle c)) (concat (map answered tr))"
  shows "nbd_replies len (concat (map reply_bytes (concat (map replies tr)))) = concat (map replies tr)"
  using assms
proof (induction tr)
  case Nil
  then show ?case by (subst nbd_replies.simps) simp
next
  case (Cons ev tr)
  have range: "0 \<le> command_handle c \<and> command_handle c < 2 ^ 64" if "command_ok c" for c
    using that by (cases c) auto
  show ?case
  proof (cases ev)
    case (Answered c err chunk)
    then show ?thesis
      using Cons nbd_replies_response[of "command_handle c" err chunk len] range[of c] by (auto simp: reply_bytes_def)
  qed (use Cons in simp_all)
qed

end
