(* ===== verification/Nbd_Properties.thy ===== *)
theory Nbd_Properties
  imports Nbd_Response
begin

text \<open>The properties of the block device server, with a concrete run for each of them.\<close>

subsection \<open>Requests\<close>

lemma big_endian_bound: "0 \<le> big_endian bs \<and> big_endian bs < 256 ^ length bs"
proof (induction bs rule: rev_induct)
  case Nil
  then show ?case by (simp add: big_endian_def)
next
  case (snoc b bs)
  have "uint b < 256" using uint_bounded[of b] by simp
  then show ?case using snoc by (simp add: big_endian_snoc)
qed

lemma decodeRequest_range:
  assumes "length header = 28"
  shows "0 \<le> rqHandle (decodeRequest header)" "rqHandle (decodeRequest header) < 2 ^ 64"
    "0 \<le> rqLength (decodeRequest header)" "rqLength (decodeRequest header) < 2 ^ 32"
  using assms big_endian_bound[of "take 8 (drop 8 header)"] big_endian_bound[of "take 4 (drop 24 header)"]
  by (simp_all add: decodeRequest_def)

lemma nbd_spec_command_ok:
  "list_all command_ok (fst (nbd_spec s :: nbd_command list \<times> 'e nbd_error option))"
proof (induction s rule: nbd_spec.induct)
  case (1 s)
  note range = decodeRequest_range[of "take 28 s"]
  show ?case
    using 1 range by (subst nbd_spec.simps) (auto simp: Let_def case_prod_beta not_less)
qed

text \<open>
  C20.  The commands that \<^verbatim>\<open>Handle\<close> issues do not depend on how the stream of requests is cut into reads:
  for every schedule of reads they are a prefix of the commands of the whole stream, with fields in the
  range of their types; when \<^verbatim>\<open>Handle\<close> returns, it has issued all of them and returns what the stream
  calls for; and it does return when there are more reads that deliver something than bytes.
\<close>

theorem nbd_Handle_segmentation:
  fixes sched :: "'e read_event list"
  assumes "list_all (got 0) sched" and "nbd_Handle quiet_env sched input = (cs, e)"
  shows "prefix cs (fst (nbd_spec input :: nbd_command list \<times> 'e nbd_error option)) \<and> list_all command_ok cs \<and>
    (\<forall>r. e = NbdReturns r \<longrightarrow> nbd_spec input = (cs, r)) \<and>
    (list_all (got 1) sched \<and> length input < length sched \<longrightarrow> e \<noteq> NbdBlocks)"
proof -
  have ok: "packets_ok sched input input (PacketsEnd cs e)"
    using handleLoop_spec[of sched "[]" input 0 0] assms by (simp add: nbd_Handle_def)
  then have p: "prefix cs (fst (nbd_spec input :: nbd_command list \<times> 'e nbd_error option))"
    by (cases e) auto
  then have "list_all command_ok cs"
    using nbd_spec_command_ok[of input, where 'e = 'e] by (auto simp: list_all_iff dest: set_mono_prefix)
  with p ok show ?thesis
    by (cases e) (auto simp: reads_enough_def)
qed

definition nbd_demo_input :: "byte list" where
  "nbd_demo_input =
     put_big_endian 4 NBDRequestMagic @ put_big_endian 4 NBDCmdWrite @ put_big_endian 8 7 @ put_big_endian 8 512 @
     put_big_endian 4 3 @ [1, 2, 3] @
     put_big_endian 4 NBDRequestMagic @ put_big_endian 4 NBDCmdDisconnect @ put_big_endian 8 0 @
     put_big_endian 8 0 @ put_big_endian 4 0"

lemma nbd_demo_spec: "nbd_spec nbd_demo_input = ([CmdWrite 7 512 [1, 2, 3]], None)"
  by (subst nbd_spec.simps, simp add: nbd_demo_input_def decodeRequest_def big_endian_put nbd_consts
      NBDRequestMagic_def dispatchMaxWriteBufferSize_def Let_def,
      subst nbd_spec.simps, simp add: decodeRequest_def big_endian_put nbd_consts NBDRequestMagic_def Let_def)

text \<open>The requests of the stream, delivered byte by byte.\<close>

theorem nbd_Handle_segmentation_witness:
  "nbd_Handle (quiet_env :: unit nbd_env) (replicate 60 (Got 1)) nbd_demo_input
     = ([CmdWrite 7 512 [1, 2, 3]], NbdReturns None)"
proof -
  obtain cs e where run: "nbd_Handle (quiet_env :: unit nbd_env) (replicate 60 (Got 1)) nbd_demo_input = (cs, e)"
    by fastforce
  have "length nbd_demo_input = 59"
    by (simp add: nbd_demo_input_def)
  then have "e \<noteq> NbdBlocks" "\<forall>r. e = NbdReturns r \<longrightarrow> nbd_spec nbd_demo_input = (cs, r)"
    using nbd_Handle_segmentation[OF _ run] by (simp_all add: list_all_length)
  then show ?thesis
    unfolding run by (cases e) (auto simp: nbd_demo_spec)
qed

subsection \<open>Responses\<close>

lemma replies_handles:
  "list_all (\<lambda>ev. \<not> failed_write ev) tr \<Longrightarrow>
     map fst (concat (map replies tr)) = map command_handle (concat (map answered tr))"
proof (induction tr)
  case (Cons ev tr)
  then show ?case by (cases ev) simp_all
qed simp

text \<open>
  C21.  In every interleaving of the command goroutines, of \<^verbatim>\<open>Drain\<close> and of new commands in which no write to
  the socket fails, a client that knows how much data each of its reads asks for reads exactly the replies
  that were sent, whole and in their order; every command is answered at most once, and those not yet
  answered are the pending ones; and once \<^verbatim>\<open>Drain\<close> has returned none is pending.
\<close>

theorem nbd_replies_run:
  assumes "nbd_run tr (d :: 'e Dispatch)" and "list_all (\<lambda>ev. \<not> failed_write ev) tr"
    and "list_all (\<lambda>c. wanted c = len (command_handle c)) (concat (map issued tr))"
  shows "nbd_replies len (dp_out d) = concat (map replies tr) \<and>
    mset (map fst (nbd_replies len (dp_out d))) + mset (map command_handle (dp_pending d))
      = mset (map command_handle (concat (map issued tr))) \<and>
    (dp_drain d = DrainDone \<longrightarrow> dp_pending d = [])"
proof -
  have inv: "nbd_inv tr d"
    using assms(1) by (rule nbd_run_inv)
  then have ms: "mset (concat (map issued tr)) = mset (concat (map answered tr)) + mset (dp_pending d)"
    by (simp add: nbd_inv_def)
  then have "set (concat (map answered tr)) \<subseteq> set (concat (map issued tr))"
    by (metis set_mset_mset set_mset_union sup_ge1)
  then have "list_all (\<lambda>c. wanted c = len (command_handle c)) (concat (map answered tr))"
    using assms(3) unfolding list_all_iff by blast
  then have r: "nbd_replies len (dp_out d) = concat (map replies tr)"
    using nbd_replies_concat[of tr len] inv assms(2) by (simp add: nbd_inv_def)
  have "image_mset command_handle (mset (concat (map issued tr)))
      = mset (map command_handle (concat (map answered tr))) + mset (map command_handle (dp_pending d))"
    by (simp add: ms)
  then show ?thesis
    using inv by (simp only: r replies_handles[OF assms(2)] mset_map) (simp add: nbd_inv_def)
qed

text \<open>
  A run that answers the write before the read that was issued first, and is then drained.
\<close>

definition nbd_demo_trace :: "nbd_event list" where
  "nbd_demo_trace =
     [Issued (CmdRead 1 0 2), Issued (CmdWrite 2 0 [5]), Answered (CmdWrite 2 0 [5]) 0 [],
      Answered (CmdRead 1 0 2) 0 [8, 9]]"

lemma nbd_demo_run: "\<exists>d :: unit Dispatch. nbd_run nbd_demo_trace d \<and> dp_drain d = DrainDone"
proof -
  let ?r = "CmdRead 1 0 2" and ?w = "CmdWrite 2 0 [5]"
  let ?pv = "Provided [8, 9] None :: unit provided"
  define d1 :: "unit Dispatch" where "d1 = snd (startCommand ?r NewDispatch)"
  define d2 where "d2 = snd (startCommand ?w d1)"
  define d3 where "d3 = (snd (performCommand ?w ?pv Wrote Wrote d2))\<lparr>dp_pending := [?r]\<rparr>"
  define d4 where "d4 = (snd (performCommand ?r ?pv Wrote Wrote d3))\<lparr>dp_pending := []\<rparr>"
  note defs = startCommand_def performCommand_def writeResponse_def Let_def NewDispatch_def
  have s1: "nbd_step NewDispatch [Issued ?r] d1" "nbd_step d1 [Issued ?w] d2"
    by (rule nbd_step.start; simp add: d1_def d2_def defs)+
  have r2: "nbd_run [Issued ?r, Issued ?w] d2"
    using nbd_run.step[OF nbd_run.step[OF nbd_run.init s1(1)] s1(2)] by simp
  have "dp_pending d2 = [] @ ?r # [?w]" "performCommand ?w ?pv Wrote Wrote d2 = (None, snd (performCommand ?w ?pv Wrote Wrote d2))"
    by (simp_all add: d1_def d2_def defs)
  then have r3: "nbd_run [Issued ?r, Issued ?w, Answered ?w 0 []] d3"
    using nbd_run.step[OF r2 nbd_step.finish[of d2 "[?r]" ?w "[]" ?pv Wrote Wrote None]]
    by (simp add: d3_def answer_event_def)
  have "dp_pending d3 = [] @ ?r # []" "performCommand ?r ?pv Wrote Wrote d3 = (None, snd (performCommand ?r ?pv Wrote Wrote d3))"
    by (simp_all add: d3_def defs put_at_def)
  then have r4: "nbd_run nbd_demo_trace d4"
    using nbd_run.step[OF r3 nbd_step.finish[of d3 "[]" ?r "[]" ?pv Wrote Wrote None]]
    by (simp add: d4_def answer_event_def nbd_demo_trace_def put_at_def)
  have idle: "dp_drain d4 = DrainIdle" "dp_pending d4 = []"
    by (simp_all add: d4_def d3_def d2_def d1_def defs put_at_def)
  have "nbd_run nbd_demo_trace (Drain_begin d4)"
    using nbd_run.step[OF r4 nbd_step.drain[of d4]] idle by simp
  then have "nbd_run nbd_demo_trace ((Drain_begin d4)\<lparr>dp_drain := DrainDone\<rparr>)"
    using nbd_run.step[OF _ nbd_step.drained[of "Drain_begin d4"]] idle by (fastforce simp: Drain_begin_def)
  then show ?thesis by force
qed

theorem nbd_replies_run_witness:
  "\<exists>d :: unit Dispatch. nbd_run nbd_demo_trace d \<and> dp_drain d = DrainDone \<and> dp_pending d = [] \<and>
     nbd_replies (\<lambda>h. if h = 1 then 2 else 0) (dp_out d) = [(2, 0, []), (1, 0, [8, 9])]"
proof -
  obtain d :: "unit Dispatch" where d: "nbd_run nbd_demo_trace d" "dp_drain d = DrainDone"
    using nbd_demo_run by blast
  then show ?thesis
    using nbd_replies_run[OF d(1), of "\<lambda>h. if h = 1 then 2 else 0"] by (auto simp: nbd_demo_trace_def)
qed

end
