(* ===== verification/Node_Manager.thy ===== *)
theory Node_Manager
  imports Sandbox_Store
begin

text \<open>
  A node of the API server, \<^verbatim>\<open>packages/api/internal/orchestrator/nodemanager\<close>: its status, labels, machine
  and metrics, the placements in progress, and the synchronisation with the orchestrator that runs on
  it.  Every method runs under a lock of the node or on an atomic counter, so it is one step.  Messages
  of the generated clients are records of the fields that are read.  The connection's state is a field,
  and the answers of the orchestrator are arguments.
\<close>

subsection \<open>Machines\<close>

record MachineInfo =
  CPUArchitecture :: string
  CPUFamily :: string
  CPUModel :: string
  CPUModelName :: string
  CPUFlags :: "string list"

definition noMachineInfo :: MachineInfo where
  "noMachineInfo = \<lparr>CPUArchitecture = [], CPUFamily = [], CPUModel = [], CPUModelName = [], CPUFlags = []\<rparr>"

definition IsCompatibleWith :: "MachineInfo \<Rightarrow> MachineInfo \<Rightarrow> bool" where
  "IsCompatibleWith m other \<longleftrightarrow>
     CPUArchitecture m = CPUArchitecture other \<and> CPUFamily m = CPUFamily other \<and> CPUModel m = CPUModel other"

text \<open>The message has the same fields; \<open>None\<close> is nil.\<close>

definition FromGRPCInfo :: "MachineInfo option \<Rightarrow> MachineInfo" where
  "FromGRPCInfo info =
     (case info of
        None \<Rightarrow> noMachineInfo
      | Some i \<Rightarrow>
          \<lparr>CPUArchitecture = CPUArchitecture i, CPUFamily = CPUFamily i, CPUModel = CPUModel i,
           CPUModelName = CPUModelName i, CPUFlags = CPUFlags i\<rparr>)"

subsection \<open>Metrics\<close>

record DiskMetrics =
  MountPoint :: string
  Device :: string
  FilesystemType :: string
  UsedBytes :: int
  TotalBytes :: int

record Metrics =
  CpuAllocated :: int
  CpuPercent :: int
  CpuCount :: int
  MemoryAllocatedBytes :: int
  MemoryUsedBytes :: int
  MemoryTotalBytes :: int
  SandboxCount :: int
  HostDisks :: "DiskMetrics list"

record SandboxResources =
  CPUs :: int
  MiBMemory :: int

record 'm PlacementMetrics =
  sandboxesInProgress :: 'm
  createSuccess :: int
  createFails :: int

definition newPlacementMetrics :: "('m, SandboxResources) cmap_ops \<Rightarrow> 'm PlacementMetrics" where
  "newPlacementMetrics cm = \<lparr>sandboxesInProgress = smap_New cm, createSuccess = 0, createFails = 0\<rparr>"

definition removeSandbox ::
  "('m, SandboxResources) cmap_ops \<Rightarrow> string \<Rightarrow> 'm PlacementMetrics \<Rightarrow> 'm PlacementMetrics" where
  "removeSandbox cm sandboxID p = p\<lparr>sandboxesInProgress := smap_Remove cm (sandboxesInProgress p) sandboxID\<rparr>"

definition pm_Success ::
  "('m, SandboxResources) cmap_ops \<Rightarrow> string \<Rightarrow> 'm PlacementMetrics \<Rightarrow> 'm PlacementMetrics" where
  "pm_Success cm sandboxID p = removeSandbox cm sandboxID (p\<lparr>createSuccess := u64 (createSuccess p + 1)\<rparr>)"

definition pm_Skip ::
  "('m, SandboxResources) cmap_ops \<Rightarrow> string \<Rightarrow> 'm PlacementMetrics \<Rightarrow> 'm PlacementMetrics" where
  "pm_Skip cm sandboxID p = removeSandbox cm sandboxID p"

definition pm_Fail ::
  "('m, SandboxResources) cmap_ops \<Rightarrow> string \<Rightarrow> 'm PlacementMetrics \<Rightarrow> 'm PlacementMetrics" where
  "pm_Fail cm sandboxID p = removeSandbox cm sandboxID (p\<lparr>createFails := u64 (createFails p + 1)\<rparr>)"

definition InProgress :: "('m, SandboxResources) cmap_ops \<Rightarrow> 'm PlacementMetrics \<Rightarrow> (string \<times> SandboxResources) list" where
  "InProgress cm p = smap_Items cm (sandboxesInProgress p)"

definition InProgressCount :: "('m, SandboxResources) cmap_ops \<Rightarrow> 'm PlacementMetrics \<Rightarrow> int" where
  "InProgressCount cm p = smap_Count cm (sandboxesInProgress p) mod 2 ^ 32"

definition StartPlacing ::
  "('m, SandboxResources) cmap_ops \<Rightarrow> string \<Rightarrow> SandboxResources \<Rightarrow> 'm PlacementMetrics \<Rightarrow> 'm PlacementMetrics" where
  "StartPlacing cm sandboxID resources p =
     p\<lparr>sandboxesInProgress := smap_Insert cm (sandboxesInProgress p) sandboxID resources\<rparr>"

lemmas placement_metrics_defs = removeSandbox_def pm_Success_def pm_Skip_def pm_Fail_def StartPlacing_def

subsection \<open>The node\<close>

datatype NodeStatus =
    NodeStatusConnecting
  | NodeStatusDraining
  | NodeStatusReady
  | NodeStatusStandby
  | NodeStatusUnhealthy

datatype connectivity = ConnIdle | ConnConnecting | ConnReady | ConnTransientFailure | ConnShutdown

record NodeMetadata =
  ServiceInstanceID :: string
  Commit :: string
  Version :: string

record 'm Node =
  ndNomadNodeShortID :: string
  ndID :: string
  ndClusterID :: uuid
  ndIPAddress :: string
  ndSandboxDomain :: "string option"
  ndConnection :: connectivity
  ndStatus :: NodeStatus
  ndMetrics :: Metrics
  ndMachineInfo :: MachineInfo
  ndLabels :: "string set"
  ndMeta :: NodeMetadata
  ndPlacementMetrics :: "'m PlacementMetrics"

definition UnknownNomadNodeShortID :: string where "UnknownNomadNodeShortID = ''unknown''"

definition IsNomadManaged :: "'m Node \<Rightarrow> bool" where
  "IsNomadManaged n \<longleftrightarrow> ndNomadNodeShortID n \<noteq> UnknownNomadNodeShortID"

definition node_Status :: "'m Node \<Rightarrow> NodeStatus" where
  "node_Status n =
     (if ndStatus n \<noteq> NodeStatusReady then ndStatus n
      else
        (case ndConnection n of
           ConnShutdown \<Rightarrow> NodeStatusUnhealthy
         | ConnTransientFailure \<Rightarrow> NodeStatusConnecting
         | ConnConnecting \<Rightarrow> NodeStatusConnecting
         | _ \<Rightarrow> ndStatus n))"

lemma node_Status_ready:
  "node_Status n = NodeStatusReady \<longleftrightarrow>
     ndStatus n = NodeStatusReady \<and> (ndConnection n = ConnIdle \<or> ndConnection n = ConnReady)"
  by (cases "ndConnection n") (auto simp: node_Status_def)

definition setStatus :: "NodeStatus \<Rightarrow> 'm Node \<Rightarrow> 'm Node" where
  "setStatus status n = (if ndStatus n \<noteq> status then n\<lparr>ndStatus := status\<rparr> else n)"

definition setLabels :: "string list \<Rightarrow> 'm Node \<Rightarrow> 'm Node" where
  "setLabels labels n = n\<lparr>ndLabels := set labels\<rparr>"

definition setMachineInfo :: "MachineInfo option \<Rightarrow> 'm Node \<Rightarrow> 'm Node" where
  "setMachineInfo info n = n\<lparr>ndMachineInfo := FromGRPCInfo info\<rparr>"

definition setMetadata :: "NodeMetadata \<Rightarrow> 'm Node \<Rightarrow> 'm Node" where
  "setMetadata md n = n\<lparr>ndMeta := md\<rparr>"

subsection \<open>Service information\<close>

text \<open>The service status is the number of the message, and only four numbers have a name.\<close>

record ServiceInfoResponse =
  siNodeId :: string
  siServiceStatus :: int
  siServiceId :: string
  siServiceCommit :: string
  siServiceVersion :: string
  siMachineInfo :: "MachineInfo option"
  siLabels :: "string list"
  siMetrics :: Metrics

definition ServiceInfoStatus_Healthy :: int where "ServiceInfoStatus_Healthy = 0"
definition ServiceInfoStatus_Draining :: int where "ServiceInfoStatus_Draining = 1"
definition ServiceInfoStatus_Unhealthy :: int where "ServiceInfoStatus_Unhealthy = 2"
definition ServiceInfoStatus_Standby :: int where "ServiceInfoStatus_Standby = 3"

lemmas service_status_defs = ServiceInfoStatus_Healthy_def ServiceInfoStatus_Draining_def
  ServiceInfoStatus_Unhealthy_def ServiceInfoStatus_Standby_def

definition OrchestratorToApiNodeStateMapper :: "int \<rightharpoonup> NodeStatus" where
  "OrchestratorToApiNodeStateMapper =
     [ServiceInfoStatus_Healthy \<mapsto> NodeStatusReady, ServiceInfoStatus_Draining \<mapsto> NodeStatusDraining,
      ServiceInfoStatus_Unhealthy \<mapsto> NodeStatusUnhealthy, ServiceInfoStatus_Standby \<mapsto> NodeStatusStandby]"

definition ApiNodeToOrchestratorStateMapper :: "NodeStatus \<rightharpoonup> int" where
  "ApiNodeToOrchestratorStateMapper =
     [NodeStatusReady \<mapsto> ServiceInfoStatus_Healthy, NodeStatusDraining \<mapsto> ServiceInfoStatus_Draining,
      NodeStatusUnhealthy \<mapsto> ServiceInfoStatus_Unhealthy, NodeStatusStandby \<mapsto> ServiceInfoStatus_Standby]"

text \<open>The two tables are inverse to each other.\<close>

lemma status_mappers_inverse:
  "OrchestratorToApiNodeStateMapper c = Some s \<longleftrightarrow> ApiNodeToOrchestratorStateMapper s = Some c"
  by (cases s) (auto simp: OrchestratorToApiNodeStateMapper_def ApiNodeToOrchestratorStateMapper_def
      service_status_defs split: if_splits)

text \<open>A status without a name is an error, the call to the orchestrator another.\<close>

datatype 'e status_error = UnknownServiceInfoStatus NodeStatus | OverrideFailed 'e

definition SendStatusChange :: "(int \<Rightarrow> 'e option) \<Rightarrow> NodeStatus \<Rightarrow> 'e status_error option" where
  "SendStatusChange override s =
     (case ApiNodeToOrchestratorStateMapper s of
        None \<Rightarrow> Some (UnknownServiceInfoStatus s)
      | Some c \<Rightarrow> (case override c of Some e \<Rightarrow> Some (OverrideFailed e) | None \<Rightarrow> None))"

definition serviceStatus :: "int \<Rightarrow> NodeStatus" where
  "serviceStatus c = (case OrchestratorToApiNodeStateMapper c of None \<Rightarrow> NodeStatusUnhealthy | Some s \<Rightarrow> s)"

definition serviceMetadata :: "ServiceInfoResponse \<Rightarrow> NodeMetadata" where
  "serviceMetadata info =
     \<lparr>ServiceInstanceID = siServiceId info, Commit = siServiceCommit info, Version = siServiceVersion info\<rparr>"

definition copyDisk :: "DiskMetrics \<Rightarrow> DiskMetrics" where
  "copyDisk d = \<lparr>MountPoint = MountPoint d, Device = Device d, FilesystemType = FilesystemType d,
     UsedBytes = UsedBytes d, TotalBytes = TotalBytes d\<rparr>"

definition UpdateMetricsFromServiceInfoResponse :: "ServiceInfoResponse \<Rightarrow> 'm Node \<Rightarrow> 'm Node" where
  "UpdateMetricsFromServiceInfoResponse info n =
     n\<lparr>ndMetrics := (ndMetrics n)\<lparr>CpuPercent := CpuPercent (siMetrics info),
       MemoryUsedBytes := MemoryUsedBytes (siMetrics info), CpuCount := CpuCount (siMetrics info),
       MemoryTotalBytes := MemoryTotalBytes (siMetrics info), CpuAllocated := CpuAllocated (siMetrics info),
       MemoryAllocatedBytes := MemoryAllocatedBytes (siMetrics info),
       SandboxCount := SandboxCount (siMetrics info), HostDisks := map copyDisk (HostDisks (siMetrics info))\<rparr>\<rparr>"

lemma map_copyDisk [simp]: "map copyDisk ds = ds"
  by (rule map_idI) (simp add: copyDisk_def)

lemma UpdateMetrics_replaces: "ndMetrics (UpdateMetricsFromServiceInfoResponse info n) = siMetrics info"
  by (rule Metrics.equality) (simp_all add: UpdateMetricsFromServiceInfoResponse_def)

definition noMetrics :: Metrics where
  "noMetrics = \<lparr>CpuAllocated = 0, CpuPercent = 0, CpuCount = 0, MemoryAllocatedBytes = 0, MemoryUsedBytes = 0,
     MemoryTotalBytes = 0, SandboxCount = 0, HostDisks = []\<rparr>"

subsection \<open>Constructors\<close>

record NomadServiceDiscovery =
  dsNomadNodeShortID :: string
  dsOrchestratorAddress :: string
  dsIPAddress :: string

datatype 'e node_error = ClientFailed 'e | ServiceInfoFailed 'e

text \<open>The client for an address and the answer to its first call are arguments; either may fail.\<close>

definition node_New ::
  "('m, SandboxResources) cmap_ops \<Rightarrow> (string \<Rightarrow> 'e + connectivity) \<Rightarrow> 'e + ServiceInfoResponse \<Rightarrow>
   NomadServiceDiscovery \<Rightarrow> ('e node_error, 'm Node) go" where
  "node_New cm newClient answer discovered =
     (case newClient (dsOrchestratorAddress discovered) of
        Inl e \<Rightarrow> Fail (ClientFailed e)
      | Inr conn \<Rightarrow>
          (case answer of
             Inl e \<Rightarrow> Fail (ServiceInfoFailed e)
           | Inr nodeInfo \<Rightarrow>
               Ok (setLabels (siLabels nodeInfo) (setMachineInfo (siMachineInfo nodeInfo)
                 (UpdateMetricsFromServiceInfoResponse nodeInfo
                   \<lparr>ndNomadNodeShortID = dsNomadNodeShortID discovered, ndID = siNodeId nodeInfo,
                    ndClusterID = uuid_Nil, ndIPAddress = dsIPAddress discovered, ndSandboxDomain = None,
                    ndConnection = conn, ndStatus = serviceStatus (siServiceStatus nodeInfo),
                    ndMetrics = noMetrics, ndMachineInfo = noMachineInfo, ndLabels = {},
                    ndMeta = serviceMetadata nodeInfo, ndPlacementMetrics = newPlacementMetrics cm\<rparr>)))))"

text \<open>The instance of a remote cluster says its own status; the call for its information may fail.\<close>

record ClusterInstance =
  ciNodeID :: string
  ciStatus :: int
  ciMeta :: NodeMetadata

definition NewClusterNode ::
  "('m, SandboxResources) cmap_ops \<Rightarrow> connectivity \<Rightarrow> uuid \<Rightarrow> string option \<Rightarrow> ClusterInstance \<Rightarrow>
   ServiceInfoResponse option \<Rightarrow> 'm Node" where
  "NewClusterNode cm conn clusterID sandboxDomain i answer =
     (let n = \<lparr>ndNomadNodeShortID = UnknownNomadNodeShortID, ndID = ciNodeID i, ndClusterID = clusterID,
               ndIPAddress = [], ndSandboxDomain = sandboxDomain, ndConnection = conn,
               ndStatus = serviceStatus (ciStatus i), ndMetrics = noMetrics, ndMachineInfo = noMachineInfo,
               ndLabels = {}, ndMeta = ciMeta i, ndPlacementMetrics = newPlacementMetrics cm\<rparr>
      in case answer of
           None \<Rightarrow> n
         | Some nodeInfo \<Rightarrow>
             setLabels (siLabels nodeInfo) (setMachineInfo (siMachineInfo nodeInfo)
               (UpdateMetricsFromServiceInfoResponse nodeInfo n)))"

subsection \<open>The sandboxes of a node\<close>

record IngressMessage =
  imTrafficAccessToken :: "string option"
  imMaskRequestHost :: "string option"

record EgressMessage =
  emAllowedCidrs :: "string list"
  emAllowedDomains :: "string list"
  emDeniedCidrs :: "string list"

record NetworkMessage =
  nmIngress :: "IngressMessage option"
  nmEgress :: "EgressMessage option"

record AutoResumeMessage =
  amPolicy :: string
  amTimeoutSeconds :: int

record SandboxConfig =
  scSandboxId :: string
  scTemplateId :: string
  scBaseTemplateId :: string
  scAlias :: "string option"
  scExecutionId :: string
  scTeamId :: string
  scBuildId :: string
  scMetadata :: "string \<rightharpoonup> string"
  scMaxSandboxLength :: int
  scVcpu :: int
  scTotalDiskSizeMb :: int
  scRamMb :: int
  scKernelVersion :: string
  scFirecrackerVersion :: string
  scEnvdVersion :: string
  scAutoPause :: bool
  scAutoResume :: "AutoResumeMessage option"
  scEnvdAccessToken :: "string option"
  scAllowInternetAccess :: "bool option"
  scNetwork :: "NetworkMessage option"
  scVolumeMounts :: "SandboxVolumeMountConfig list"

record RunningSandbox =
  rsConfig :: "SandboxConfig option"
  rsStartTime :: time
  rsEndTime :: time

datatype 'e list_error = ListFailed 'e | NilConfig RunningSandbox | BadTeamID string | BadBuildID string

definition consts_ClientID :: string where "consts_ClientID = ''6532622b''"

definition Hour :: duration where "Hour = 3600000000000"

definition ConvertOrchestratorMountsToDatabaseMounts ::
  "SandboxVolumeMountConfig list \<Rightarrow> SandboxVolumeMountConfig list" where
  "ConvertOrchestratorMountsToDatabaseMounts mounts =
     map (\<lambda>item. \<lparr>vmID = vmID item, vmType = vmType item, vmName = vmName item, vmPath = vmPath item\<rparr>) mounts"

definition ingressToken :: "NetworkMessage option \<Rightarrow> string option" where
  "ingressToken net =
     (case net of
        None \<Rightarrow> None
      | Some nm \<Rightarrow> (case nmIngress nm of None \<Rightarrow> None | Some i \<Rightarrow> imTrafficAccessToken i))"

definition networkConfig :: "NetworkMessage option \<Rightarrow> SandboxNetworkConfig option" where
  "networkConfig net =
     (case net of
        None \<Rightarrow> None
      | Some nm \<Rightarrow>
          Some \<lparr>ncEgress = map_option (\<lambda>e. \<lparr>egAllowed = emAllowedCidrs e @ emAllowedDomains e,
                                             egDenied = emDeniedCidrs e\<rparr>) (nmEgress nm),
                ncIngress = map_option (\<lambda>i. \<lparr>inAllowPublicAccess = Some (ingressToken net = None),
                                              inMaskRequestHost = imMaskRequestHost i\<rparr>) (nmIngress nm)\<rparr>)"

text \<open>\<^verbatim>\<open>uuid.Parse\<close> is an argument.\<close>

definition listedSandbox ::
  "(string \<Rightarrow> uuid option) \<Rightarrow> 'm Node \<Rightarrow> RunningSandbox \<Rightarrow> ('e list_error, Sandbox) go" where
  "listedSandbox uuid_Parse n sbx =
     (case rsConfig sbx of
        None \<Rightarrow> Fail (NilConfig sbx)
      | Some config \<Rightarrow>
          (case uuid_Parse (scTeamId config) of
             None \<Rightarrow> Fail (BadTeamID (scTeamId config))
           | Some teamID \<Rightarrow>
               (case uuid_Parse (scBuildId config) of
                  None \<Rightarrow> Fail (BadBuildID (scBuildId config))
                | Some buildID \<Rightarrow>
                    Ok (NewSandbox (scSandboxId config) (scTemplateId config) consts_ClientID (scAlias config)
                         (scExecutionId config) teamID buildID (scMetadata config)
                         (i64 (scMaxSandboxLength config * Hour)) (rsStartTime sbx) (rsEndTime sbx) (scVcpu config)
                         (scTotalDiskSizeMb config) (scRamMb config) (scKernelVersion config)
                         (scFirecrackerVersion config) (scEnvdVersion config) (ndID n) (ndClusterID n)
                         (scAutoPause config)
                         (map_option (\<lambda>a. \<lparr>arPolicy = amPolicy a, arTimeout = amTimeoutSeconds a\<rparr>) (scAutoResume config))
                         (scEnvdAccessToken config) (scAllowInternetAccess config) (scBaseTemplateId config)
                         (ndSandboxDomain n) (networkConfig (scNetwork config)) (ingressToken (scNetwork config))
                         (ConvertOrchestratorMountsToDatabaseMounts (scVolumeMounts config))))))"

primrec listedSandboxes ::
  "(string \<Rightarrow> uuid option) \<Rightarrow> 'm Node \<Rightarrow> RunningSandbox list \<Rightarrow> ('e list_error, Sandbox list) go" where
  "listedSandboxes uuid_Parse n [] = Ok []"
| "listedSandboxes uuid_Parse n (sbx # sbxs) =
     go_bind (listedSandbox uuid_Parse n sbx)
       (\<lambda>s. go_bind (listedSandboxes uuid_Parse n sbxs) (\<lambda>ss. Ok (s # ss)))"

definition GetSandboxes ::
  "(string \<Rightarrow> uuid option) \<Rightarrow> 'm Node \<Rightarrow> 'e + RunningSandbox list \<Rightarrow> ('e list_error, Sandbox list) go" where
  "GetSandboxes uuid_Parse n answer =
     (case answer of Inl e \<Rightarrow> Fail (ListFailed e) | Inr sandboxes \<Rightarrow> listedSandboxes uuid_Parse n sandboxes)"

text \<open>Every listed sandbox is running, on this node, and keeps its id; nothing is dropped.\<close>

lemma listedSandbox_Ok:
  assumes "listedSandbox uuid_Parse n sbx = Ok s"
  shows "\<exists>config. rsConfig sbx = Some config \<and> SandboxID s = scSandboxId config"
    "NodeID s = ndID n" "ClusterID s = ndClusterID n" "sState s = StateRunning" "EndTime s = rsEndTime sbx"
  using assms by (auto simp: listedSandbox_def NewSandbox_def split: option.splits)

lemma listedSandboxes_Ok:
  "listedSandboxes uuid_Parse n sbxs = Ok ss \<Longrightarrow>
     length ss = length sbxs \<and> list_all (\<lambda>s. NodeID s = ndID n \<and> sState s = StateRunning) ss"
  by (induction sbxs arbitrary: ss) (auto dest: listedSandbox_Ok)

subsection \<open>Synchronisation\<close>

definition syncMaxRetries :: nat where "syncMaxRetries = 4"

record 'e sync_answer =
  saInfo :: "ServiceInfoResponse option"
  saList :: "'e + RunningSandbox list"

definition syncNode :: "ServiceInfoResponse \<Rightarrow> 'm Node \<Rightarrow> 'm Node" where
  "syncNode nodeInfo n =
     UpdateMetricsFromServiceInfoResponse nodeInfo
       (setMetadata (serviceMetadata nodeInfo)
         (setLabels (siLabels nodeInfo)
           (setMachineInfo (siMachineInfo nodeInfo) (setStatus (serviceStatus (siServiceStatus nodeInfo)) n))))"

text \<open>The answers of the rounds are a list of at most \<open>syncMaxRetries\<close>; \<open>None\<close> is that none succeeded.\<close>

fun syncLoop ::
  "(string \<Rightarrow> uuid option) \<Rightarrow> 'e sync_answer list \<Rightarrow> 'm Node \<Rightarrow> 'm Node \<times> Sandbox list option" where
  "syncLoop uuid_Parse [] n = (n, None)"
| "syncLoop uuid_Parse (a # as) n =
     (case saInfo a of
        None \<Rightarrow> syncLoop uuid_Parse as n
      | Some nodeInfo \<Rightarrow>
          (let n' = syncNode nodeInfo n
           in (case GetSandboxes uuid_Parse n' (saList a) of
                 Ok activeInstances \<Rightarrow> (n', Some activeInstances)
               | _ \<Rightarrow> syncLoop uuid_Parse as n')))"

definition node_Sync ::
  "(string \<Rightarrow> uuid option) \<Rightarrow> ('s, 'x) storage_ops \<Rightarrow> ('r, 'x) reservation_ops \<Rightarrow> time \<Rightarrow>
   (string \<Rightarrow> time \<times> time) \<Rightarrow> 'e sync_answer list \<Rightarrow> ('s, 'r) Store \<Rightarrow> 'm Node \<Rightarrow> ('s, 'r) Store \<times> 'm Node" where
  "node_Sync uuid_Parse sops rops now clk answers store n =
     (case syncLoop uuid_Parse (take syncMaxRetries answers) n of
        (n', Some activeInstances) \<Rightarrow> (ss_Reconcile sops rops now clk store activeInstances (ndID n'), n')
      | (n', None) \<Rightarrow> (store, setStatus NodeStatusUnhealthy n'))"

lemma syncNode_ID [simp]: "ndID (syncNode nodeInfo n) = ndID n"
  by (simp add: syncNode_def UpdateMetricsFromServiceInfoResponse_def setMetadata_def setLabels_def
      setMachineInfo_def setStatus_def)

text \<open>
  After a synchronisation either the store was reconciled with sandboxes that all run on this node, or it
  is as before and the node is unhealthy.
\<close>

lemma syncLoop_result:
  "syncLoop uuid_Parse as n = (n', r) \<Longrightarrow>
     ndID n' = ndID n \<and> (\<forall>ss. r = Some ss \<longrightarrow> list_all (\<lambda>s. NodeID s = ndID n \<and> sState s = StateRunning) ss)"
  by (induction uuid_Parse as n rule: syncLoop.induct)
    (fastforce simp: Let_def GetSandboxes_def split: option.splits go.splits sum.splits dest: listedSandboxes_Ok)+

lemma node_Sync_result:
  assumes "node_Sync uuid_Parse sops rops now clk answers store n = (store', n')"
  shows "ndID n' = ndID n \<and>
    ((\<exists>ss. list_all (\<lambda>s. NodeID s = ndID n \<and> sState s = StateRunning) ss \<and>
        store' = ss_Reconcile sops rops now clk store ss (ndID n)) \<or>
     store' = store \<and> node_Status n' = NodeStatusUnhealthy)"
  using assms
  by (auto simp: node_Sync_def setStatus_def node_Status_def split: prod.splits option.splits if_splits
      dest!: syncLoop_result)

end
