(* ===== verification/Go_Float.thy ===== *)
theory Go_Float
  imports Complex_Main "HOL-Library.Log_Nat"
begin

text \<open>
  Go's \<^verbatim>\<open>float64\<close>: a finite value is the rational number it stands for, and every operation rounds its
  exact result to the nearest value of the format, to the even significand on a tie.  The sign of
  a zero is not kept; it shows only in a division by zero.
\<close>

datatype float64 = Fin rat | PosInf | NegInf | NaN

definition pow2 :: "int \<Rightarrow> rat" where
  "pow2 k = (if 0 \<le> k then 2 ^ nat k else 1 / 2 ^ nat (- k))"

text \<open>The exponent of a positive number: \<open>pow2 e \<le> x < pow2 (e + 1)\<close>.\<close>

definition exponent :: "rat \<Rightarrow> int" where
  "exponent x =
     (case quotient_of x of (p, q) \<Rightarrow>
        let e = int (floorlog 2 (nat p)) - int (floorlog 2 (nat q)) in if pow2 e \<le> x then e else e - 1)"

text \<open>To the nearest integer, to the even one on a tie.\<close>

definition round_even :: "rat \<Rightarrow> int" where
  "round_even x =
     (let n = \<lfloor>x\<rfloor>; d = x - of_int n
      in if d < 1 / 2 then n else if 1 / 2 < d then n + 1 else if even n then n else n + 1)"

text \<open>53 bits of significand, the smallest exponent \<open>-1074\<close>, and infinity from two to the 1024th.\<close>

definition round_pos :: "rat \<Rightarrow> float64" where
  "round_pos x =
     (let u = pow2 (max (exponent x - 52) (- 1074)); y = of_int (round_even (x / u)) * u
      in if pow2 1024 \<le> y then PosInf else Fin y)"

fun f64_uminus :: "float64 \<Rightarrow> float64" where
  "f64_uminus (Fin x) = Fin (- x)"
| "f64_uminus PosInf = NegInf"
| "f64_uminus NegInf = PosInf"
| "f64_uminus NaN = NaN"

definition f64_round :: "rat \<Rightarrow> float64" where
  "f64_round x = (if x = 0 then Fin 0 else if 0 < x then round_pos x else f64_uminus (round_pos (- x)))"

definition f64_of_int :: "int \<Rightarrow> float64" where
  "f64_of_int n = f64_round (of_int n)"

definition MaxFloat64 :: float64 where
  "MaxFloat64 = Fin ((2 ^ 53 - 1) * 2 ^ 971)"

fun f64_add :: "float64 \<Rightarrow> float64 \<Rightarrow> float64" where
  "f64_add (Fin x) (Fin y) = f64_round (x + y)"
| "f64_add NaN b = NaN"
| "f64_add a NaN = NaN"
| "f64_add PosInf NegInf = NaN"
| "f64_add NegInf PosInf = NaN"
| "f64_add PosInf b = PosInf"
| "f64_add a PosInf = PosInf"
| "f64_add NegInf b = NegInf"
| "f64_add a NegInf = NegInf"

definition signed_inf :: "rat \<Rightarrow> float64" where
  "signed_inf s = (if s = 0 then NaN else if 0 < s then PosInf else NegInf)"

fun f64_sgn :: "float64 \<Rightarrow> rat" where
  "f64_sgn (Fin x) = sgn x"
| "f64_sgn PosInf = 1"
| "f64_sgn NegInf = - 1"
| "f64_sgn NaN = 0"

definition f64_mult :: "float64 \<Rightarrow> float64 \<Rightarrow> float64" where
  "f64_mult a b =
     (case (a, b) of
        (Fin x, Fin y) \<Rightarrow> f64_round (x * y)
      | (NaN, _) \<Rightarrow> NaN
      | (_, NaN) \<Rightarrow> NaN
      | _ \<Rightarrow> signed_inf (f64_sgn a * f64_sgn b))"

definition f64_div :: "float64 \<Rightarrow> float64 \<Rightarrow> float64" where
  "f64_div a b =
     (case (a, b) of
        (Fin x, Fin y) \<Rightarrow> if y = 0 then signed_inf (sgn x) else f64_round (x / y)
      | (NaN, _) \<Rightarrow> NaN
      | (_, NaN) \<Rightarrow> NaN
      | (Fin x, _) \<Rightarrow> Fin 0
      | (_, Fin y) \<Rightarrow> if y = 0 then a else signed_inf (f64_sgn a * sgn y)
      | _ \<Rightarrow> NaN)"

text \<open>Every comparison with NaN is false.\<close>

fun f64_less :: "float64 \<Rightarrow> float64 \<Rightarrow> bool" where
  "f64_less (Fin x) (Fin y) \<longleftrightarrow> x < y"
| "f64_less (Fin x) PosInf \<longleftrightarrow> True"
| "f64_less NegInf (Fin y) \<longleftrightarrow> True"
| "f64_less NegInf PosInf \<longleftrightarrow> True"
| "f64_less a b \<longleftrightarrow> False"

definition f64_eq :: "float64 \<Rightarrow> float64 \<Rightarrow> bool" where
  "f64_eq a b \<longleftrightarrow> a = b \<and> a \<noteq> NaN"

definition f64_le :: "float64 \<Rightarrow> float64 \<Rightarrow> bool" where
  "f64_le a b \<longleftrightarrow> f64_less a b \<or> f64_eq a b"

subsection \<open>Order\<close>

lemma f64_less_trans: "f64_less a b \<Longrightarrow> f64_less b c \<Longrightarrow> f64_less a c"
  by (cases a; cases b; cases c) auto

lemma f64_less_irrefl [simp]: "\<not> f64_less a a"
  by (cases a) auto

lemma f64_not_less_trans:
  "\<not> f64_less a b \<Longrightarrow> f64_less c b \<Longrightarrow> a \<noteq> NaN \<Longrightarrow> f64_less c a"
  by (cases a; cases b; cases c) auto

subsection \<open>Small integers are exact\<close>

lemma pow2_add_nat: "pow2 k * 2 ^ n = pow2 (k + int n)"
proof (cases "0 \<le> k")
  case True
  then show ?thesis by (simp add: pow2_def nat_add_distrib power_add)
next
  case False
  then show ?thesis
    by (cases "0 \<le> k + int n")
      (auto simp: pow2_def field_simps simp flip: power_add intro!: arg_cong[of _ _ "(^) 2"])
qed

lemma pow2_pos [simp]: "0 < pow2 k"
  by (simp add: pow2_def)

lemma round_even_of_int [simp]: "round_even (of_int n) = n"
  by (simp add: round_even_def)

lemma round_even_of_nat [simp]: "round_even (of_nat n) = int n"
  using round_even_of_int[of "int n"] by simp

lemma exponent_of_int:
  assumes "0 < n" "n < 2 ^ 53" shows "exponent (of_int n) \<le> 52"
proof -
  have "floorlog 2 (nat n) \<le> 53"
    using assms by (intro floorlog_leI) (auto simp: nat_less_iff)
  moreover have "quotient_of (of_int n) = (n, 1)"
    using quotient_of_int[of n] by (simp add: Rat.of_int_def)
  moreover have "floorlog 2 (nat 1) = 1"
    by (simp add: floorlog_def)
  ultimately show ?thesis
    by (simp add: exponent_def Let_def)
qed

lemma f64_of_int_exact:
  assumes "0 \<le> n" "n < 2 ^ 53" shows "f64_of_int n = Fin (of_int n)"
proof (cases "n = 0")
  case True
  then show ?thesis by (simp add: f64_of_int_def f64_round_def)
next
  case False
  define k where "k = nat (- max (exponent (of_int n) - 52) (- 1074))"
  have k: "max (exponent (of_int n) - 52) (- 1074) = - int k"
    using exponent_of_int[of n] assms False by (simp add: k_def)
  have "of_int n / pow2 (- int k) = of_int (n * 2 ^ k)"
    by (simp add: pow2_def)
  then have r: "of_int (round_even (of_int n / pow2 (- int k))) * pow2 (- int k) = (of_int n :: rat)"
    by (simp add: pow2_def del: of_int_mult) (simp add: pow2_def)
  have "(of_int n :: rat) < of_int (2 ^ 53)"
    using assms by (subst of_int_less_iff) simp
  also have "\<dots> \<le> pow2 1024"
    by (simp add: pow2_def)
  finally show ?thesis
    using assms False by (simp add: f64_of_int_def f64_round_def round_pos_def k r Let_def)
qed

lemma f64_round_numeral [simp]:
  "(numeral w :: int) < 2 ^ 53 \<Longrightarrow> f64_round (numeral w) = Fin (numeral w)" "f64_round 1 = Fin 1" "f64_round 0 = Fin 0"
  using f64_of_int_exact[of "numeral w"] f64_of_int_exact[of 1] f64_of_int_exact[of 0] by (simp_all add: f64_of_int_def)

lemma f64_of_int_numeral [simp]:
  "(numeral w :: int) < 2 ^ 53 \<Longrightarrow> f64_of_int (numeral w) = Fin (numeral w)" "f64_of_int 1 = Fin 1" "f64_of_int 0 = Fin 0"
  by (simp_all add: f64_of_int_def)

end
