(* ===== verification/Placement.thy ===== *)
theory Placement
  imports Node_Manager Go_Float "HOL-Library.Multiset"
begin

text \<open>
  The choice of a node for a new sandbox, \<^verbatim>\<open>packages/api/internal/orchestrator/placement\<close>.

  Nodes are shared objects: the list \<open>nodes\<close> is all of them, and the cluster and the preferred node are
  indices into it.  \<^verbatim>\<open>rand.Intn\<close> is an argument of the sample, a function of its bound, because the
  bounds of the calls of one sample are all different.  Floating point expressions are evaluated one
  operation at a time, as the compiler does on amd64.
\<close>

definition maxRetries :: nat where "maxRetries = 3"
definition maxStartingInstancesPerNode :: int where "maxStartingInstancesPerNode = 3"

subsection \<open>Compatibility\<close>

definition isNodeCPUCompatible :: "'m Node \<Rightarrow> MachineInfo \<Rightarrow> bool" where
  "isNodeCPUCompatible node buildMachineInfo \<longleftrightarrow>
     (if CPUArchitecture buildMachineInfo = [] then True else IsCompatibleWith buildMachineInfo (ndMachineInfo node))"

definition defaultLabel :: string where "defaultLabel = ''default''"

definition effectiveNodeLabels :: "string set \<Rightarrow> string set" where
  "effectiveNodeLabels nodeLabels = (if nodeLabels = {} then {defaultLabel} else nodeLabels)"

definition effectiveSandboxLabels :: "string list \<Rightarrow> string list" where
  "effectiveSandboxLabels requiredLabels = (if requiredLabels = [] then [defaultLabel] else requiredLabels)"

definition isNodeLabelsCompatible :: "'m Node \<Rightarrow> string list \<Rightarrow> bool" where
  "isNodeLabelsCompatible node requiredLabels \<longleftrightarrow>
     list_all (\<lambda>req. req \<in> effectiveNodeLabels (ndLabels node)) (effectiveSandboxLabels requiredLabels)"

lemma isNodeLabelsCompatible_iff:
  "isNodeLabelsCompatible node requiredLabels \<longleftrightarrow>
     set (effectiveSandboxLabels requiredLabels) \<subseteq> effectiveNodeLabels (ndLabels node)"
  by (auto simp: isNodeLabelsCompatible_def list_all_iff)

subsection \<open>Score and fit\<close>

record BestOfKConfig =
  cfgR :: float64
  cfgAlpha :: float64
  cfgK :: int
  cfgTooManyStarting :: bool
  cfgCanFit :: bool

definition DefaultBestOfKConfig :: BestOfKConfig where
  "DefaultBestOfKConfig =
     \<lparr>cfgR = Fin 4, cfgAlpha = Fin (1 / 2), cfgK = 3, cfgTooManyStarting = False, cfgCanFit = False\<rparr>"

definition Score :: "'m Node \<Rightarrow> SandboxResources \<Rightarrow> BestOfKConfig \<Rightarrow> float64" where
  "Score node resources config =
     (let metrics = ndMetrics node; reserved = CpuAllocated metrics;
          usageAvg = f64_div (f64_of_int (CpuPercent metrics)) (Fin 100);
          cpuCount = f64_of_int (CpuCount metrics)
      in if f64_eq cpuCount (Fin 0) then MaxFloat64
         else
           (let totalCapacity = f64_mult (cfgR config) cpuCount; cpuRequested = f64_of_int (CPUs resources)
            in f64_div (f64_add (f64_add cpuRequested (f64_of_int reserved)) (f64_mult (cfgAlpha config) usageAvg))
                 totalCapacity))"

definition CanFit :: "'m Node \<Rightarrow> SandboxResources \<Rightarrow> BestOfKConfig \<Rightarrow> bool" where
  "CanFit node sandboxResources config =
     (let metrics = ndMetrics node; reserved = CpuAllocated metrics; cpuCount = f64_of_int (CpuCount metrics)
      in if f64_eq cpuCount (Fin 0) then False
         else f64_le (f64_of_int ((reserved + CPUs sandboxResources mod 2 ^ 32) mod 2 ^ 32))
                (f64_mult (cfgR config) cpuCount))"

text \<open>The arithmetic of the default ratio is exact, and wraps at 32 bits as the source's does.\<close>

lemma CanFit_default:
  assumes "0 \<le> CpuCount (ndMetrics node)" "CpuCount (ndMetrics node) < 2 ^ 32" "cfgR config = Fin 4"
  shows "CanFit node res config \<longleftrightarrow> 0 < CpuCount (ndMetrics node) \<and>
    (CpuAllocated (ndMetrics node) + CPUs res) mod 2 ^ 32 \<le> 4 * CpuCount (ndMetrics node)"
proof -
  let ?c = "CpuCount (ndMetrics node)" and ?a = "(CpuAllocated (ndMetrics node) + CPUs res) mod 2 ^ 32"
  have c: "f64_of_int ?c = Fin (of_int ?c)" and m: "f64_of_int (4 * ?c) = Fin (of_int (4 * ?c))"
    using assms f64_of_int_exact[of ?c] f64_of_int_exact[of "4 * ?c"] by simp_all
  have "0 \<le> ?a" "?a < 2 ^ 32" by simp_all
  then have a: "f64_of_int ?a = Fin (of_int ?a)"
    by (intro f64_of_int_exact) auto
  have "f64_mult (Fin 4) (Fin (of_int ?c)) = Fin (of_int (4 * ?c))"
    using m by (simp add: f64_mult_def f64_of_int_def)
  then show ?thesis
    using assms a by (auto simp: CanFit_def Let_def c f64_le_def f64_eq_def mod_simps simp flip: of_int_le_iff)
qed

subsection \<open>The sample\<close>

record place_request =
  rqResources :: SandboxResources
  rqMachine :: MachineInfo
  rqFilterByLabels :: bool
  rqLabels :: "string list"

definition eligible ::
  "('m, SandboxResources) cmap_ops \<Rightarrow> BestOfKConfig \<Rightarrow> place_request \<Rightarrow> string set \<Rightarrow> 'm Node \<Rightarrow> bool" where
  "eligible cm config rq excludedNodes n \<longleftrightarrow>
     ndID n \<notin> excludedNodes \<and> node_Status n = NodeStatusReady \<and> isNodeCPUCompatible n (rqMachine rq) \<and>
     (rqFilterByLabels rq \<longrightarrow> isNodeLabelsCompatible n (rqLabels rq)) \<and>
     (cfgCanFit config \<longrightarrow> CanFit n (rqResources rq) config) \<and>
     (cfgTooManyStarting config \<longrightarrow> InProgressCount cm (ndPlacementMetrics n) \<le> maxStartingInstancesPerNode)"

text \<open>The loop draws from the first \<open>remaining\<close> entries of \<open>indices\<close> and swaps what it has drawn out of them.\<close>

fun sampleLoop :: "(nat \<Rightarrow> nat) \<Rightarrow> (nat \<Rightarrow> bool) \<Rightarrow> int \<Rightarrow> nat list \<Rightarrow> nat \<Rightarrow> nat list \<Rightarrow> nat list" where
  "sampleLoop intn ok k indices 0 candidates = candidates"
| "sampleLoop intn ok k indices (Suc r) candidates =
     (if k \<le> int (length candidates) then candidates
      else
        (let j = intn (Suc r); pick = indices ! j; indices' = indices[j := indices ! r, r := pick]
         in sampleLoop intn ok k indices' r (if ok pick then candidates @ [pick] else candidates)))"

definition place_sample ::
  "('m, SandboxResources) cmap_ops \<Rightarrow> (nat \<Rightarrow> nat) \<Rightarrow> BestOfKConfig \<Rightarrow> place_request \<Rightarrow> 'm Node list \<Rightarrow>
   string set \<Rightarrow> nat list" where
  "place_sample cm intn config rq items excludedNodes =
     (if cfgK config \<le> 0 \<or> items = [] then []
      else sampleLoop intn (\<lambda>i. eligible cm config rq excludedNodes (items ! i)) (cfgK config)
             [0..<length items] (length items) [])"

lemma mset_take_swap:
  assumes "j \<le> r" "r < length xs"
  shows "add_mset (xs ! j) (mset (take r (xs[j := xs ! r, r := xs ! j]))) = mset (take (Suc r) xs)"
proof (cases "j = r")
  case True
  then show ?thesis using assms by (simp add: take_Suc_conv_app_nth)
next
  case False
  then have "j < r" using assms by simp
  then have "take r (xs[j := xs ! r, r := xs ! j]) = (take r xs)[j := xs ! r]"
    by (simp add: take_update_swap list_update_beyond)
  moreover have "xs ! j \<in> set (take r xs)"
    using assms \<open>j < r\<close> by (auto simp: in_set_conv_nth intro!: exI[of _ j])
  ultimately show ?thesis
    using assms \<open>j < r\<close> by (simp add: take_Suc_conv_app_nth mset_update)
qed

text \<open>
  The sample draws different entries that pass the filter, and as many as there are up to \<open>k\<close>.
\<close>

lemma sampleLoop_spec:
  assumes "\<And>n. 0 < n \<Longrightarrow> intn n < n" "r \<le> length indices" "distinct (take r indices)" "int (length cs) \<le> k"
  shows "\<exists>xs. sampleLoop intn ok k indices r cs = cs @ xs \<and> distinct xs \<and>
    set xs \<subseteq> set (filter ok (take r indices)) \<and>
    int (length (cs @ xs)) = min k (int (length cs) + int (length (filter ok (take r indices))))"
  using assms(2-4)
proof (induction r arbitrary: indices cs)
  case 0
  then show ?case by simp
next
  case (Suc r)
  let ?j = "intn (Suc r)"
  let ?ind = "indices[?j := indices ! r, r := indices ! ?j]"
  let ?cs = "if ok (indices ! ?j) then cs @ [indices ! ?j] else cs"
  show ?case
  proof (cases "k \<le> int (length cs)")
    case True
    then show ?thesis using Suc.prems by (intro exI[of _ "[]"]) auto
  next
    case False
    have j: "?j \<le> r" using assms(1)[of "Suc r"] by simp
    have ms: "mset (take (Suc r) indices) = add_mset (indices ! ?j) (mset (take r ?ind))"
      using mset_take_swap[OF j, of indices] Suc.prems by simp
    have d: "distinct (take r ?ind)" "indices ! ?j \<notin> set (take r ?ind)"
      using ms Suc.prems(2) by (metis distinct.simps(2) mset.simps(2) mset_eq_imp_distinct_iff)+
    have s: "set (take (Suc r) indices) = insert (indices ! ?j) (set (take r ?ind))"
      using ms by (metis set_mset_add_mset_insert set_mset_mset)
    have f: "length (filter ok (take (Suc r) indices)) =
        (if ok (indices ! ?j) then 1 else 0) + length (filter ok (take r ?ind))"
      using arg_cong[OF ms, of "\<lambda>m. size (filter_mset ok m)"] by (simp flip: mset_filter)
    have len: "r \<le> length ?ind" "int (length ?cs) \<le> k"
      using Suc.prems False by auto
    obtain xs where xs: "sampleLoop intn ok k ?ind r ?cs = ?cs @ xs" "distinct xs"
        "set xs \<subseteq> set (filter ok (take r ?ind))"
        "int (length (?cs @ xs)) = min k (int (length ?cs) + int (length (filter ok (take r ?ind))))"
      using Suc.IH[OF len(1) d(1) len(2)] by blast
    show ?thesis
    proof (cases "ok (indices ! ?j)")
      case True
      then show ?thesis
        using xs d(2) s f False by (intro exI[of _ "indices ! ?j # xs"]) (auto simp: Let_def)
    next
      case False': False
      then show ?thesis
        using xs s f False by (intro exI[of _ xs]) (auto simp: Let_def)
    qed
  qed
qed

subsection \<open>The choice\<close>

datatype choose_error = NoNodeAvailable

primrec bestLoop :: "(nat \<Rightarrow> float64) \<Rightarrow> nat list \<Rightarrow> nat option \<times> float64 \<Rightarrow> nat option \<times> float64" where
  "bestLoop score [] best = best"
| "bestLoop score (c # cs) best = bestLoop score cs (if f64_less (score c) (snd best) then (Some c, score c) else best)"

definition chooseNode ::
  "('m, SandboxResources) cmap_ops \<Rightarrow> place_request \<Rightarrow> BestOfKConfig \<times> (nat \<Rightarrow> nat) \<Rightarrow> 'm Node list \<Rightarrow>
   string set \<Rightarrow> (choose_error, nat) go" where
  "chooseNode cm rq draw nodes excludedNodes =
     (let (config, intn) = draw;
          candidates = place_sample cm intn config rq nodes excludedNodes;
          (bestNode, bestScore) = bestLoop (\<lambda>i. Score (nodes ! i) (rqResources rq) config) candidates (None, MaxFloat64)
      in case bestNode of None \<Rightarrow> Fail NoNodeAvailable | Some i \<Rightarrow> Ok i)"

definition best_ok :: "(nat \<Rightarrow> float64) \<Rightarrow> nat set \<Rightarrow> nat option \<times> float64 \<Rightarrow> bool" where
  "best_ok score seen best \<longleftrightarrow>
     snd best \<noteq> NaN \<and> (\<forall>c\<in>seen. \<not> f64_less (score c) (snd best)) \<and>
     (case fst best of
        None \<Rightarrow> snd best = MaxFloat64
      | Some i \<Rightarrow> i \<in> seen \<and> snd best = score i \<and> f64_less (score i) MaxFloat64)"

lemma best_ok_step:
  assumes "best_ok score seen best"
  shows "best_ok score (insert c seen) (if f64_less (score c) (snd best) then (Some c, score c) else best)"
proof (cases "f64_less (score c) (snd best)")
  case True
  have "score c \<noteq> NaN"
    using True by (cases "score c") auto
  moreover have "f64_less (score c) MaxFloat64"
    using True assms by (auto simp: best_ok_def split: option.splits dest: f64_less_trans)
  moreover have "\<not> f64_less (score d) (score c)" if "d \<in> seen" for d
    using True assms that f64_less_trans by (auto simp: best_ok_def)
  ultimately show ?thesis
    using True by (auto simp: best_ok_def)
next
  case False
  then show ?thesis
    using assms by (auto simp: best_ok_def split: option.splits)
qed

lemma bestLoop_ok: "best_ok score seen best \<Longrightarrow> best_ok score (seen \<union> set cs) (bestLoop score cs best)"
proof (induction cs arbitrary: seen best)
  case (Cons c cs)
  from Cons.IH[OF best_ok_step[OF Cons.prems, of c]] show ?case by simp
qed simp

lemma best_ok_init: "best_ok score {} (None, MaxFloat64)"
  by (simp add: best_ok_def MaxFloat64_def)

text \<open>The sample of a cluster: eligible nodes, and as many as there are up to \<^verbatim>\<open>K\<close>.\<close>

lemma place_sample_spec:
  fixes items :: "'m Node list" and cm :: "('m, SandboxResources) cmap_ops" and config rq excl
  assumes "\<And>n. 0 < n \<Longrightarrow> intn n < n"
  defines "ok \<equiv> \<lambda>i. eligible cm config rq excl (items ! i)"
  shows "distinct (place_sample cm intn config rq items excl)"
    "set (place_sample cm intn config rq items excl) \<subseteq> {i. i < length items \<and> ok i}"
    "int (length (place_sample cm intn config rq items excl)) =
       min (max 0 (cfgK config)) (int (card {i. i < length items \<and> ok i}))"
proof -
  have f: "length (filter ok [0..<length items]) = card {i. i < length items \<and> ok i}"
    by (subst distinct_card[symmetric]) (auto intro!: arg_cong[of _ _ card])
  have "distinct (place_sample cm intn config rq items excl) \<and>
    set (place_sample cm intn config rq items excl) \<subseteq> {i. i < length items \<and> ok i} \<and>
    int (length (place_sample cm intn config rq items excl)) =
       min (max 0 (cfgK config)) (int (card {i. i < length items \<and> ok i}))"
  proof (cases "cfgK config \<le> 0 \<or> items = []")
    case True
    then show ?thesis by (auto simp: place_sample_def)
  next
    case False
    then show ?thesis
      using sampleLoop_spec[OF assms(1), of "length items" "[0..<length items]" "[]" "cfgK config" ok] f
      by (auto simp: place_sample_def ok_def)
  qed
  then show "distinct (place_sample cm intn config rq items excl)"
    "set (place_sample cm intn config rq items excl) \<subseteq> {i. i < length items \<and> ok i}"
    "int (length (place_sample cm intn config rq items excl)) =
       min (max 0 (cfgK config)) (int (card {i. i < length items \<and> ok i}))"
    by auto
qed

lemma chooseNode_best:
  assumes "chooseNode cm rq (config, intn) nodes excl = r"
  shows "case r of
      Ok i \<Rightarrow> i \<in> set (place_sample cm intn config rq nodes excl) \<and>
        f64_less (Score (nodes ! i) (rqResources rq) config) MaxFloat64 \<and>
        (\<forall>c\<in>set (place_sample cm intn config rq nodes excl).
           \<not> f64_less (Score (nodes ! c) (rqResources rq) config) (Score (nodes ! i) (rqResources rq) config))
    | Fail e \<Rightarrow> \<forall>c\<in>set (place_sample cm intn config rq nodes excl).
        \<not> f64_less (Score (nodes ! c) (rqResources rq) config) MaxFloat64
    | Panic \<Rightarrow> False"
  using assms bestLoop_ok[OF best_ok_init, of "\<lambda>i. Score (nodes ! i) (rqResources rq) config"
      "place_sample cm intn config rq nodes excl"]
  by (auto simp: chooseNode_def best_ok_def split: prod.splits option.splits)

end
