(* ===== verification/Placement_Loop.thy ===== *)
theory Placement_Loop
  imports Placement
begin

text \<open>
  \<^verbatim>\<open>PlaceSandbox\<close> of \<^verbatim>\<open>packages/api/internal/orchestrator/placement/placement.go\<close>, over any \<^verbatim>\<open>Algorithm\<close>: the
  locale \<open>placement_algorithm\<close> is that interface, and \<open>chooseNode\<close> of \<open>Placement\<close> provides it.

  A node that is out of resources is not counted as an attempt, so the loop has no bound of its own: it
  follows a list of rounds.  A round says whether the context is done, what the other goroutines do to
  the nodes before the choice and while the node starts the sandbox, what the algorithm draws, and the
  answer of the node.  When the rounds are used up the result is \<open>None\<close>.  The calls of \<^verbatim>\<open>SandboxCreate\<close>
  are logged with their answers.
\<close>

text \<open>Status codes of gRPC; an error that is not a status counts as internal.\<close>

datatype code = ResourceExhausted | Internal | OtherCode int

datatype 'g create_error = StatusError code | PlainError 'g

fun statusCode :: "'g create_error \<Rightarrow> code" where
  "statusCode (StatusError c) = c"
| "statusCode (PlainError e) = Internal"

record ('m, 'd, 'g) place_round =
  prDone :: bool
  prBefore :: "'m Node list \<Rightarrow> 'm Node list"
  prDraw :: 'd
  prDuring :: "'m Node list \<Rightarrow> 'm Node list"
  prCreate :: "'g create_error option"

datatype 'e place_error = TimedOut nat | NoNodesAvailable | ChooseFailed 'e | SandboxCreateFailed

type_synonym 'g place_log = "(nat \<times> 'g create_error option) list"

definition onNode :: "nat \<Rightarrow> ('m PlacementMetrics \<Rightarrow> 'm PlacementMetrics) \<Rightarrow> 'm Node list \<Rightarrow> 'm Node list" where
  "onNode i f nodes = nodes[i := (nodes ! i)\<lparr>ndPlacementMetrics := f (ndPlacementMetrics (nodes ! i))\<rparr>]"

definition pickNode ::
  "('d \<Rightarrow> 'm Node list \<Rightarrow> string set \<Rightarrow> ('e, nat) go) \<Rightarrow> nat list \<Rightarrow> 'd \<Rightarrow> nat option \<Rightarrow> string set \<Rightarrow>
   'm Node list \<Rightarrow> ('e place_error, nat) go" where
  "pickNode alg clusterNodes d node nodesExcluded nodes =
     (case node of
        Some i \<Rightarrow> Ok i
      | None \<Rightarrow>
          if length clusterNodes \<le> card nodesExcluded then Fail NoNodesAvailable
          else
            (case alg d (map ((!) nodes) clusterNodes) nodesExcluded of
               Ok c \<Rightarrow> Ok (clusterNodes ! c)
             | Fail e \<Rightarrow> Fail (ChooseFailed e)
             | Panic \<Rightarrow> Panic))"

fun placeLoop ::
  "('m, SandboxResources) cmap_ops \<Rightarrow> ('d \<Rightarrow> 'm Node list \<Rightarrow> string set \<Rightarrow> ('e, nat) go) \<Rightarrow> nat list \<Rightarrow> string \<Rightarrow>
   SandboxResources \<Rightarrow> ('m, 'd, 'g) place_round list \<Rightarrow> nat \<Rightarrow> nat option \<Rightarrow> string set \<Rightarrow> 'm Node list \<Rightarrow>
   'g place_log \<Rightarrow> ('e place_error, nat) go option \<times> 'g place_log \<times> 'm Node list" where
  "placeLoop cm alg clusterNodes sid resources rounds attempt node nodesExcluded nodes calls =
     (if maxRetries \<le> attempt then (Some (Fail SandboxCreateFailed), calls, nodes)
      else
        (case rounds of
           [] \<Rightarrow> (None, calls, nodes)
         | r # rs \<Rightarrow>
             if prDone r then (Some (Fail (TimedOut (attempt + 1))), calls, nodes)
             else
               (let nodes0 = prBefore r nodes
                in (case pickNode alg clusterNodes (prDraw r) node nodesExcluded nodes0 of
                      Fail e \<Rightarrow> (Some (Fail e), calls, nodes0)
                    | Panic \<Rightarrow> (Some Panic, calls, nodes0)
                    | Ok i \<Rightarrow>
                        (let nodes1 = prDuring r (onNode i (StartPlacing cm sid resources) nodes0);
                             calls1 = calls @ [(i, prCreate r)]
                         in (case prCreate r of
                               None \<Rightarrow> (Some (Ok i), calls1, onNode i (pm_Success cm sid) nodes1)
                             | Some err \<Rightarrow>
                                 if statusCode err = ResourceExhausted
                                 then placeLoop cm alg clusterNodes sid resources rs attempt None nodesExcluded
                                        (onNode i (pm_Skip cm sid) nodes1) calls1
                                 else placeLoop cm alg clusterNodes sid resources rs (attempt + 1) None
                                        (insert (ndID (nodes1 ! i)) nodesExcluded)
                                        (onNode i (pm_Fail cm sid) nodes1) calls1))))))"

declare placeLoop.simps [simp del]

definition PlaceSandbox ::
  "('m, SandboxResources) cmap_ops \<Rightarrow> ('d \<Rightarrow> 'm Node list \<Rightarrow> string set \<Rightarrow> ('e, nat) go) \<Rightarrow> nat list \<Rightarrow> nat option \<Rightarrow>
   string \<Rightarrow> SandboxResources \<Rightarrow> ('m, 'd, 'g) place_round list \<Rightarrow> 'm Node list \<Rightarrow>
   ('e place_error, nat) go option \<times> 'g place_log \<times> 'm Node list" where
  "PlaceSandbox cm alg clusterNodes preferredNode sid resources rounds nodes =
     placeLoop cm alg clusterNodes sid resources rounds 0 preferredNode {} nodes []"

subsection \<open>The interface of an algorithm\<close>

locale placement_algorithm =
  fixes alg :: "'d \<Rightarrow> 'm Node list \<Rightarrow> string set \<Rightarrow> ('e, nat) go"
    and drawn :: "'d \<Rightarrow> bool"
  assumes chosen: "drawn d \<Longrightarrow> alg d items excl = Ok c \<Longrightarrow> c < length items \<and> ndID (items ! c) \<notin> excl"

text \<open>The other goroutines add no nodes, keep the ids, and leave the entries of this sandbox alone.\<close>

definition progress_of :: "('m, SandboxResources) cmap_ops \<Rightarrow> string \<Rightarrow> 'm Node \<Rightarrow> SandboxResources option" where
  "progress_of cm sid n = cm_Get cm (sandboxesInProgress (ndPlacementMetrics n)) sid"

definition same_nodes :: "('m, SandboxResources) cmap_ops \<Rightarrow> string \<Rightarrow> 'm Node list \<Rightarrow> 'm Node list \<Rightarrow> bool" where
  "same_nodes cm sid nodes nodes' \<longleftrightarrow>
     map ndID nodes' = map ndID nodes \<and> map (progress_of cm sid) nodes' = map (progress_of cm sid) nodes"

definition round_ok ::
  "('m, SandboxResources) cmap_ops \<Rightarrow> ('d \<Rightarrow> bool) \<Rightarrow> string \<Rightarrow> ('m, 'd, 'g) place_round \<Rightarrow> bool" where
  "round_ok cm drawn sid r \<longleftrightarrow>
     drawn (prDraw r) \<and> (\<forall>nodes. same_nodes cm sid nodes (prBefore r nodes)) \<and>
     (\<forall>nodes. same_nodes cm sid nodes (prDuring r nodes))"

primrec failure :: "'g create_error option \<Rightarrow> bool" where
  "failure None = False"
| "failure (Some err) = (statusCode err \<noteq> ResourceExhausted)"

definition failed_ids :: "string list \<Rightarrow> 'g place_log \<Rightarrow> string list" where
  "failed_ids ids calls = map (\<lambda>(i, _). ids ! i) (filter (\<lambda>(_, e). failure e) calls)"

lemma failed_ids_append [simp]: "failed_ids ids (l @ l') = failed_ids ids l @ failed_ids ids l'"
  by (simp add: failed_ids_def)

lemma failed_ids_simps [simp]:
  "failed_ids ids [] = []" "failed_ids ids ((i, e) # l) = (if failure e then [ids ! i] else []) @ failed_ids ids l"
  by (simp_all add: failed_ids_def)

text \<open>
  The state between two rounds: nothing has been started, the excluded ids are the different ones that
  have failed, as many as attempts, and no node that was tried still counts the sandbox as in progress.
\<close>

definition place_inv ::
  "('m, SandboxResources) cmap_ops \<Rightarrow> string \<Rightarrow> string list \<Rightarrow> nat \<Rightarrow> string set \<Rightarrow> 'm Node list \<Rightarrow> 'g place_log \<Rightarrow> bool" where
  "place_inv cm sid ids attempt excl nodes calls \<longleftrightarrow>
     map ndID nodes = ids \<and> distinct (failed_ids ids calls) \<and> excl = set (failed_ids ids calls) \<and>
     attempt = length (failed_ids ids calls) \<and>
     list_all (\<lambda>(i, e). i < length ids \<and> e \<noteq> None \<and> progress_of cm sid (nodes ! i) = None) calls"

text \<open>What holds at the end, whatever the result.\<close>

definition place_result ::
  "('m, SandboxResources) cmap_ops \<Rightarrow> string \<Rightarrow> string list \<Rightarrow> ('e place_error, nat) go option \<times> 'g place_log \<times> 'm Node list \<Rightarrow>
   bool" where
  "place_result cm sid ids out =
     (case out of (r, calls, nodes) \<Rightarrow>
        distinct (failed_ids ids calls) \<and> length (failed_ids ids calls) \<le> maxRetries \<and>
        list_all (\<lambda>(i, _). progress_of cm sid (nodes ! i) = None) calls \<and>
        filter (\<lambda>(_, e). e = None) calls = (case r of Some (Ok i) \<Rightarrow> [(i, None)] | _ \<Rightarrow> []) \<and>
        (r = None \<longrightarrow> length (failed_ids ids calls) < maxRetries))"

lemma onNode_ids [simp]: "map ndID (onNode i f nodes) = map ndID nodes"
  by (cases "i < length nodes") (simp_all add: onNode_def map_update list_update_same_conv list_update_beyond)

lemma length_onNode [simp]: "length (onNode i f nodes) = length nodes"
  by (simp add: onNode_def)

lemma progress_onNode:
  "j < length nodes \<Longrightarrow> progress_of cm sid (onNode i f nodes ! j) =
     (if i = j then cm_Get cm (sandboxesInProgress (f (ndPlacementMetrics (nodes ! i)))) sid
      else progress_of cm sid (nodes ! j))"
  by (simp add: onNode_def progress_of_def nth_list_update)

lemma same_nodes_nth:
  assumes "same_nodes cm sid nodes nodes'"
  shows "length nodes' = length nodes" "map ndID nodes' = map ndID nodes"
    "j < length nodes \<Longrightarrow> progress_of cm sid (nodes' ! j) = progress_of cm sid (nodes ! j)"
proof -
  show l: "length nodes' = length nodes" and "map ndID nodes' = map ndID nodes"
    using assms by (auto simp: same_nodes_def dest: map_eq_imp_length_eq)
  show "progress_of cm sid (nodes' ! j) = progress_of cm sid (nodes ! j)" if "j < length nodes"
    using assms that l nth_map[of j nodes "progress_of cm sid"] nth_map[of j nodes' "progress_of cm sid"]
    by (simp add: same_nodes_def)
qed

lemma place_inv_extend:
  assumes "place_inv cm sid ids attempt excl nodes calls" "i < length ids" "ids ! i \<notin> excl" "e \<noteq> None"
    and "map ndID nodes' = ids" "list_all (\<lambda>(j, _). progress_of cm sid (nodes' ! j) = None) (calls @ [(i, e)])"
  shows "place_inv cm sid ids (attempt + (if failure e then 1 else 0)) (if failure e then insert (ids ! i) excl else excl)
    nodes' (calls @ [(i, e)])"
proof -
  have "list_all (\<lambda>(j, e). j < length ids \<and> e \<noteq> None \<and> progress_of cm sid (nodes' ! j) = None) (calls @ [(i, e)])"
    using assms(1,2,4,6) unfolding place_inv_def list_all_iff by fastforce
  then show ?thesis
    using assms(1-5) by (simp add: place_inv_def)
qed

text \<open>The loop relies on both interfaces.\<close>

locale placement = concurrent_map cm + placement_algorithm alg drawn
  for cm :: "('m, SandboxResources) cmap_ops"
    and alg :: "'d \<Rightarrow> 'm Node list \<Rightarrow> string set \<Rightarrow> ('e, nat) go" and drawn
begin

lemma finish_progress:
  "cm_Get cm (sandboxesInProgress (pm_Success cm sid p)) sid = None"
  "cm_Get cm (sandboxesInProgress (pm_Skip cm sid p)) sid = None"
  "cm_Get cm (sandboxesInProgress (pm_Fail cm sid p)) sid = None"
  by (simp_all add: placement_metrics_defs smap_Remove_def Get_Remove)

text \<open>One attempt on node \<open>i\<close>, which ends in \<open>f\<close>.\<close>

lemma attempt_nodes:
  fixes g
  assumes inv: "place_inv cm sid ids attempt excl nodes calls" and i: "i < length ids" and r: "round_ok cm drawn sid r"
    and f: "\<And>p. cm_Get cm (sandboxesInProgress (f p)) sid = None"
  defines "nodes1 \<equiv> prDuring r (onNode i g (prBefore r nodes))"
  shows "map ndID (onNode i f nodes1) = ids" "ndID (nodes1 ! i) = ids ! i"
    "list_all (\<lambda>(j, _). progress_of cm sid (onNode i f nodes1 ! j) = None) (calls @ [(i, e)])"
proof -
  have b: "same_nodes cm sid nodes (prBefore r nodes)"
    and d: "same_nodes cm sid (onNode i g (prBefore r nodes)) nodes1"
    using r by (auto simp: round_ok_def nodes1_def)
  note bd = same_nodes_nth[OF b] same_nodes_nth[OF d]
  have ids: "map ndID nodes1 = ids"
    using inv bd by (simp add: place_inv_def)
  then show "map ndID (onNode i f nodes1) = ids" by simp
  have len: "length nodes1 = length ids" "length nodes = length ids"
    using arg_cong[OF ids, of length] bd(1,4) by simp_all
  then show "ndID (nodes1 ! i) = ids ! i"
    using ids i nth_map[of i nodes1 ndID] by simp
  have "progress_of cm sid (onNode i f nodes1 ! j) = (if i = j then None else progress_of cm sid (nodes ! j))"
    if "j < length ids" for j
    using that len bd f by (simp add: progress_onNode)
  then show "list_all (\<lambda>(j, _). progress_of cm sid (onNode i f nodes1 ! j) = None) (calls @ [(i, e)])"
    using inv i by (auto simp: place_inv_def list_all_iff)
qed

text \<open>The node of a round is one of the cluster that is not excluded, or the preferred one.\<close>

lemma pickNode_Ok:
  assumes "pickNode alg cluster d node excl nodes = Ok i" "drawn d" "list_all (\<lambda>i. i < length nodes) cluster"
    "list_all (\<lambda>i. i < length nodes) (case node of None \<Rightarrow> [] | Some i \<Rightarrow> [i])"
  shows "i < length nodes" "node = None \<Longrightarrow> ndID (nodes ! i) \<notin> excl"
proof -
  have "i < length nodes \<and> (node = None \<longrightarrow> ndID (nodes ! i) \<notin> excl)"
    using assms chosen[OF assms(2), of "map ((!) nodes) cluster" excl]
    by (auto simp: pickNode_def list_all_length split: option.splits if_splits go.splits)
  then show "i < length nodes" "node = None \<Longrightarrow> ndID (nodes ! i) \<notin> excl" by auto
qed

lemma placeLoop_result:
  fixes rounds :: "('m, 'd, 'g) place_round list"
  assumes "place_inv cm sid ids attempt excl nodes calls" "list_all (round_ok cm drawn sid) rounds"
    "list_all (\<lambda>i. i < length ids) cluster" "list_all (\<lambda>i. i < length ids) (case node of None \<Rightarrow> [] | Some i \<Rightarrow> [i])"
    "node \<noteq> None \<Longrightarrow> excl = {}" "attempt \<le> maxRetries"
  shows "place_result cm sid ids (placeLoop cm alg cluster sid resources rounds attempt node excl nodes calls)"
  using assms(1,2,4-6)
proof (induction rounds arbitrary: attempt node excl nodes calls)
  case Nil
  then show ?case
    by (subst placeLoop.simps) (auto simp: place_result_def place_inv_def list_all_iff filter_empty_conv)
next
  case (Cons r rs)
  let ?nodes0 = "prBefore r nodes"
  let ?nodes1 = "\<lambda>i. prDuring r (onNode i (StartPlacing cm sid resources) ?nodes0)"
  have early: "place_result cm sid ids (Some x, calls, nodes')"
    if "x = Panic \<or> (\<exists>e. x = Fail e)" "same_nodes cm sid nodes nodes'" for x :: "('e place_error, nat) go" and nodes'
    using Cons.prems(1,5) that same_nodes_nth(3)[OF that(2)]
    by (auto simp: place_result_def place_inv_def list_all_iff filter_empty_conv)
  show ?case
  proof (cases "maxRetries \<le> attempt \<or> prDone r \<or> (\<forall>i. pickNode alg cluster (prDraw r) node excl ?nodes0 \<noteq> Ok i)")
    case True
    have "same_nodes cm sid nodes nodes" "same_nodes cm sid nodes ?nodes0"
      using Cons.prems(2) by (auto simp: same_nodes_def round_ok_def)
    then show ?thesis
      using True early by (subst placeLoop.simps) (auto simp: Let_def split: go.splits)
  next
    case False
    then obtain i where go: "attempt < maxRetries" "\<not> prDone r"
        and pick: "pickNode alg cluster (prDraw r) node excl ?nodes0 = Ok i"
      by auto
    have r: "round_ok cm drawn sid r" and rs: "list_all (round_ok cm drawn sid) rs"
      using Cons.prems(2) by auto
    have n0: "map ndID ?nodes0 = ids"
      using r Cons.prems(1) by (simp add: round_ok_def same_nodes_def place_inv_def)
    then have len: "length ?nodes0 = length ids" by auto
    have i: "i < length ids" "ids ! i \<notin> excl"
      using pickNode_Ok[OF pick] r assms(3) Cons.prems(3,4) n0 nth_map[of i ?nodes0 ndID]
      by (auto simp: len round_ok_def)
    note step = attempt_nodes[OF Cons.prems(1) i(1) r, where g = "StartPlacing cm sid resources"]
    have unf: "placeLoop cm alg cluster sid resources (r # rs) attempt node excl nodes calls =
        (case prCreate r of
           None \<Rightarrow> (Some (Ok i), calls @ [(i, prCreate r)], onNode i (pm_Success cm sid) (?nodes1 i))
         | Some err \<Rightarrow>
             if statusCode err = ResourceExhausted
             then placeLoop cm alg cluster sid resources rs attempt None excl
                    (onNode i (pm_Skip cm sid) (?nodes1 i)) (calls @ [(i, prCreate r)])
             else placeLoop cm alg cluster sid resources rs (attempt + 1) None (insert (ids ! i) excl)
                    (onNode i (pm_Fail cm sid) (?nodes1 i)) (calls @ [(i, prCreate r)]))"
      using go pick step(2)[where f = "pm_Success cm sid", OF finish_progress(1)] by (subst placeLoop.simps) (simp add: Let_def split: option.split)
    show ?thesis
    proof (cases "prCreate r")
      case None
      then show ?thesis
        using Cons.prems(1) go step(3)[where f = "pm_Success cm sid" and e = "prCreate r", OF finish_progress(1)]
        unfolding unf by (auto simp: place_result_def place_inv_def filter_empty_conv list_all_iff)
    next
      case (Some err)
      let ?calls = "calls @ [(i, prCreate r)]"
      have inv: "place_inv cm sid ids (attempt + (if failure (prCreate r) then 1 else 0))
          (if failure (prCreate r) then insert (ids ! i) excl else excl) (onNode i f (?nodes1 i)) ?calls"
        if "\<And>p. cm_Get cm (sandboxesInProgress (f p)) sid = None" for f
        by (rule place_inv_extend[OF Cons.prems(1) i])
          (use step(1,3)[where f = f, OF that] Some in auto)
      show ?thesis
        using inv[of "pm_Skip cm sid", OF finish_progress(2)] inv[of "pm_Fail cm sid", OF finish_progress(3)] go
        unfolding unf by (auto simp: Some intro!: Cons.IH[OF _ rs])
    qed
  qed
qed

end

text \<open>Every round that does not end the loop sends one request.\<close>

lemma placeLoop_running:
  "placeLoop cm alg cluster sid resources rounds attempt node excl nodes calls = (None, calls', nodes') \<Longrightarrow>
     length calls' = length calls + length rounds"
proof (induction rounds arbitrary: attempt node excl nodes calls)
  case Nil
  then show ?case by (subst (asm) placeLoop.simps) (auto split: if_splits)
next
  case (Cons r rs)
  then show ?case
    by (subst (asm) placeLoop.simps) (auto simp: Let_def split: if_splits go.splits option.splits dest!: Cons.IH)
qed

subsection \<open>The algorithm of the source\<close>

text \<open>What \<^verbatim>\<open>rand.Intn\<close> promises.\<close>

definition draw_ok :: "BestOfKConfig \<times> (nat \<Rightarrow> nat) \<Rightarrow> bool" where
  "draw_ok d \<longleftrightarrow> (\<forall>n>0. snd d n < n)"

lemma chooseNode_algorithm: "placement_algorithm (chooseNode cm rq) draw_ok"
proof
  fix d :: "BestOfKConfig \<times> (nat \<Rightarrow> nat)" and items excl c
  assume d: "draw_ok d" "chooseNode cm rq d items excl = Ok c"
  obtain config intn where "d = (config, intn)" by fastforce
  with d show "c < length items \<and> ndID (items ! c) \<notin> excl"
    using chooseNode_best[of cm rq config intn items excl "Ok c"] place_sample_spec(2)[of intn cm config rq items excl]
    by (auto simp: draw_ok_def eligible_def)
qed

interpretation best_of_k: placement_algorithm "chooseNode cm rq" draw_ok for cm rq
  by (rule chooseNode_algorithm)

interpretation list_placement: placement list_cmap "chooseNode list_cmap rq" draw_ok for rq
  by unfold_locales

lemma best_of_k_placement: "concurrent_map cm \<Longrightarrow> placement cm (chooseNode cm rq) draw_ok"
  by (rule placement.intro) (simp_all add: chooseNode_algorithm)

lemma place_inv_init: "place_inv cm sid (map ndID nodes) 0 {} nodes []"
  by (simp add: place_inv_def)

end
