(* ===== verification/Placement_Properties.thy ===== *)
theory Placement_Properties
  imports Placement_Loop
begin

text \<open>The properties of placement, with a concrete cluster for each of them.\<close>

text \<open>
  C22.  The node that \<^verbatim>\<open>chooseNode\<close> returns passes every filter and has the best score of a sample of eligible
  nodes that is as large as \<^verbatim>\<open>K\<close> and their number allow, so that it is the best of all of them when there are
  no more than \<^verbatim>\<open>K\<close>; and when every eligible node has a score below the largest number, it fails only
  if no node is eligible.
\<close>

theorem chooseNode_best_of_k:
  fixes cm :: "('m, SandboxResources) cmap_ops" and nodes :: "'m Node list" and config rq excl
  defines "E \<equiv> {i. i < length nodes \<and> eligible cm config rq excl (nodes ! i)}"
    and "score \<equiv> \<lambda>i. Score (nodes ! i) (rqResources rq) config"
  assumes "draw_ok (config, intn)" "0 < cfgK config"
  shows "\<exists>S \<subseteq> E. int (card S) = min (cfgK config) (int (card E)) \<and> (int (card E) \<le> cfgK config \<longrightarrow> S = E) \<and>
    (case chooseNode cm rq (config, intn) nodes excl of
       Ok i \<Rightarrow> i \<in> S \<and> f64_less (score i) MaxFloat64 \<and> (\<forall>c\<in>S. \<not> f64_less (score c) (score i))
     | Fail e \<Rightarrow> (\<forall>c\<in>S. \<not> f64_less (score c) MaxFloat64) \<and> ((\<forall>c\<in>E. f64_less (score c) MaxFloat64) \<longrightarrow> E = {})
     | Panic \<Rightarrow> False)"
proof -
  let ?S = "place_sample cm intn config rq nodes excl"
  note spec = place_sample_spec[of intn cm config rq nodes excl, folded E_def]
  have intn: "\<And>n. 0 < n \<Longrightarrow> intn n < n"
    using assms(3) by (simp add: draw_ok_def)
  have card: "int (card (set ?S)) = min (cfgK config) (int (card E))"
    using spec(3)[OF intn] assms(4) by (simp add: distinct_card[OF spec(1)[OF intn]])
  have sub: "set ?S \<subseteq> E" and fin: "finite E"
    using spec(2)[OF intn] by (auto simp: E_def)
  have full: "int (card E) \<le> cfgK config \<longrightarrow> set ?S = E"
    using card card_subset_eq[OF fin sub] by (auto simp: min_def split: if_splits)
  have "E = {}" if "\<forall>c\<in>E. f64_less (score c) MaxFloat64" "\<forall>c\<in>set ?S. \<not> f64_less (score c) MaxFloat64"
  proof -
    have "c \<notin> set ?S" for c using that sub by auto
    then have "set ?S = {}" using equals0I by metis
    then have "card E = 0" using card assms(4) by (simp add: min_def split: if_splits)
    then show ?thesis using fin by simp
  qed
  with card sub full show ?thesis
    using chooseNode_best[of cm rq config intn nodes excl, OF refl]
    by (intro exI[of _ "set ?S"]) (auto simp: score_def split: go.splits)
qed

definition place_demo_node :: "string \<Rightarrow> int \<Rightarrow> (string \<times> SandboxResources) list Node" where
  "place_demo_node nid allocated =
     \<lparr>ndNomadNodeShortID = nid, ndID = nid, ndClusterID = uuid_Nil, ndIPAddress = [], ndSandboxDomain = None,
      ndConnection = ConnReady, ndStatus = NodeStatusReady,
      ndMetrics = noMetrics\<lparr>CpuAllocated := allocated, CpuPercent := 200, CpuCount := 4\<rparr>, ndMachineInfo = noMachineInfo,
      ndLabels = {}, ndMeta = \<lparr>ServiceInstanceID = [], Commit = [], Version = []\<rparr>,
      ndPlacementMetrics = newPlacementMetrics list_cmap\<rparr>"

definition place_demo_request :: "place_request" where
  "place_demo_request =
     \<lparr>rqResources = \<lparr>CPUs = 2, MiBMemory = 512\<rparr>, rqMachine = noMachineInfo, rqFilterByLabels = True, rqLabels = []\<rparr>"

definition place_demo_nodes :: "(string \<times> SandboxResources) list Node list" where
  "place_demo_nodes = [place_demo_node ''a'' 29, place_demo_node ''b'' 13]"

lemma place_demo_score:
  "Score (place_demo_node nid 29) (rqResources place_demo_request) DefaultBestOfKConfig = Fin 2"
  "Score (place_demo_node nid 13) (rqResources place_demo_request) DefaultBestOfKConfig = Fin 1"
  by (simp_all add: Score_def place_demo_node_def place_demo_request_def DefaultBestOfKConfig_def noMetrics_def
      Let_def f64_div_def f64_mult_def f64_eq_def)

lemma place_demo_K: "cfgK DefaultBestOfKConfig = 3"
  by (simp add: DefaultBestOfKConfig_def)

lemma place_demo_eligible:
  "eligible list_cmap DefaultBestOfKConfig place_demo_request excl (place_demo_node nid allocated) \<longleftrightarrow> nid \<notin> excl"
  by (simp add: eligible_def place_demo_node_def place_demo_request_def DefaultBestOfKConfig_def node_Status_def
      isNodeCPUCompatible_def noMachineInfo_def isNodeLabelsCompatible_def effectiveNodeLabels_def effectiveSandboxLabels_def)

theorem chooseNode_best_of_k_witness:
  "chooseNode list_cmap place_demo_request (DefaultBestOfKConfig, \<lambda>n. 0) place_demo_nodes {} = Ok 1"
proof -
  let ?E = "{i. i < length place_demo_nodes \<and>
    eligible list_cmap DefaultBestOfKConfig place_demo_request {} (place_demo_nodes ! i)}"
  let ?r = "chooseNode list_cmap place_demo_request (DefaultBestOfKConfig, \<lambda>n. 0) place_demo_nodes {}"
  have E: "?E = {0, 1}"
    using place_demo_eligible by (auto simp: place_demo_nodes_def less_Suc_eq)
  have "draw_ok (DefaultBestOfKConfig, \<lambda>n. 0)" by (simp add: draw_ok_def)
  from chooseNode_best_of_k[OF this, of place_demo_nodes list_cmap place_demo_request "{}"]
  show ?thesis
    unfolding E by (cases ?r) (auto simp: place_demo_K place_demo_nodes_def place_demo_score MaxFloat64_def)
qed

text \<open>
  C23.  \<^verbatim>\<open>PlaceSandbox\<close>, with the algorithm of the source and whatever the other goroutines do to the nodes:
  the sandbox is started at most once, on the node that is returned, and not at all on an error; a
  node that failed is not tried again, and at most \<^verbatim>\<open>maxRetries\<close> fail; no node that was tried still counts
  the sandbox as in progress; and as long as the loop runs, all but \<^verbatim>\<open>maxRetries\<close> - 1 of the requests sent, one
  per round, were answered that the node is out of resources.
\<close>

theorem PlaceSandbox_at_most_once:
  fixes cm :: "('m, SandboxResources) cmap_ops" and rounds :: "('m, BestOfKConfig \<times> (nat \<Rightarrow> nat), 'g) place_round list"
  assumes "concurrent_map cm" "list_all (round_ok cm draw_ok sid) rounds"
    "list_all (\<lambda>i. i < length nodes) (clusterNodes @ (case preferredNode of None \<Rightarrow> [] | Some i \<Rightarrow> [i]))"
    "PlaceSandbox cm (chooseNode cm rq) clusterNodes preferredNode sid resources rounds nodes = (r, calls, nodes')"
  shows "filter (\<lambda>(_, e). e = None) calls = (case r of Some (Ok i) \<Rightarrow> [(i, None)] | _ \<Rightarrow> []) \<and>
    distinct (failed_ids (map ndID nodes) calls) \<and> length (failed_ids (map ndID nodes) calls) \<le> maxRetries \<and>
    list_all (\<lambda>(i, _). progress_of cm sid (nodes' ! i) = None) calls \<and>
    (r = None \<longrightarrow> length calls = length rounds \<and> length (failed_ids (map ndID nodes) calls) < maxRetries)"
proof -
  note loop = placement.placeLoop_result[OF best_of_k_placement[OF assms(1), of rq] place_inv_init assms(2)]
  have "place_result cm sid (map ndID nodes) (r, calls, nodes')"
    using loop[of nodes clusterNodes preferredNode resources] assms(3,4)
    by (simp add: PlaceSandbox_def)
  then show ?thesis
    using placeLoop_running[of cm "chooseNode cm rq" clusterNodes sid resources rounds 0 preferredNode "{}" nodes "[]" calls nodes']
      assms(4)
    by (auto simp: place_result_def PlaceSandbox_def)
qed

text \<open>The preferred node fails and the other one starts the sandbox.\<close>

definition place_demo_round ::
  "code option \<Rightarrow> ((string \<times> SandboxResources) list, BestOfKConfig \<times> (nat \<Rightarrow> nat), unit) place_round" where
  "place_demo_round c =
     \<lparr>prDone = False, prBefore = (\<lambda>nodes. nodes), prDraw = (DefaultBestOfKConfig, \<lambda>n. 0), prDuring = (\<lambda>nodes. nodes),
      prCreate = map_option StatusError c\<rparr>"

definition place_demo_rounds ::
  "((string \<times> SandboxResources) list, BestOfKConfig \<times> (nat \<Rightarrow> nat), unit) place_round list" where
  "place_demo_rounds = [place_demo_round (Some Internal), place_demo_round None]"

lemma place_demo_run:
  "fst (PlaceSandbox list_cmap (chooseNode list_cmap place_demo_request) [0, 1] (Some 1) ''s''
      (rqResources place_demo_request) place_demo_rounds place_demo_nodes) = Some (Ok 0)"
proof -
  have "chooseNode list_cmap place_demo_request (DefaultBestOfKConfig, \<lambda>n. 0)
      [place_demo_node ''a'' 29, (place_demo_node ''b'' 13)\<lparr>ndPlacementMetrics := pm\<rparr>] {''b''} = Ok 0" for pm
  proof -
    have "\<not> eligible list_cmap DefaultBestOfKConfig place_demo_request {''b''}
        ((place_demo_node ''b'' 13)\<lparr>ndPlacementMetrics := pm\<rparr>)"
      by (simp add: eligible_def place_demo_node_def)
    then show ?thesis
      using place_demo_score(1)[of "''a''"]
      by (simp add: chooseNode_def place_sample_def place_demo_eligible place_demo_K MaxFloat64_def
          eval_nat_numeral)
  qed
  then show ?thesis
    by (simp add: PlaceSandbox_def place_demo_rounds_def place_demo_round_def placeLoop.simps pickNode_def maxRetries_def
        onNode_def place_demo_nodes_def Let_def place_demo_node_def)
qed

theorem PlaceSandbox_at_most_once_witness:
  "\<exists>calls nodes'. PlaceSandbox list_cmap (chooseNode list_cmap place_demo_request) [0, 1] (Some 1) ''s''
      (rqResources place_demo_request) place_demo_rounds place_demo_nodes = (Some (Ok 0), calls, nodes') \<and>
    filter (\<lambda>(_, e). e = None) calls = [(0, None)] \<and>
    list_all (\<lambda>(i, _). progress_of list_cmap ''s'' (nodes' ! i) = None) calls"
proof -
  let ?out = "PlaceSandbox list_cmap (chooseNode list_cmap place_demo_request) [0, 1] (Some 1) ''s''
      (rqResources place_demo_request) place_demo_rounds place_demo_nodes"
  obtain r calls nodes' where out: "?out = (r, calls, nodes')"
    by (cases ?out) auto
  have r: "r = Some (Ok 0)"
    using place_demo_run unfolding out by simp
  have "list_all (round_ok list_cmap draw_ok ''s'') place_demo_rounds"
    by (simp add: place_demo_rounds_def place_demo_round_def round_ok_def draw_ok_def same_nodes_def)
  from PlaceSandbox_at_most_once[OF list_cmap.concurrent_map_axioms this _ out] show ?thesis
    unfolding out r by (simp add: place_demo_nodes_def)
qed

end
