(* ===== verification/Go_Net.thy ===== *)
theory Go_Net
  imports E2B_Prelude
begin

text \<open>
  What the repository uses of Go's \<^verbatim>\<open>strconv\<close> and \<^verbatim>\<open>net\<close> packages: decimal numbers, IP addresses, networks in
  CIDR notation and their text forms.  An address is a number of 32 or of 128 bits; as in Go, an IPv6
  address that embeds an IPv4 address is that address.
\<close>

subsection \<open>Decimal numbers\<close>

definition digit :: "nat \<Rightarrow> char" where
  "digit d = char_of (48 + d)"

definition is_digit :: "char \<Rightarrow> bool" where
  "is_digit c \<longleftrightarrow> 48 \<le> (of_char c :: nat) \<and> (of_char c :: nat) \<le> 57"

definition digit_value :: "char \<Rightarrow> nat" where
  "digit_value c = of_char c - 48"

fun nat_string :: "nat \<Rightarrow> string" where
  "nat_string n = (if n < 10 then [digit n] else nat_string (n div 10) @ [digit (n mod 10)])"

declare nat_string.simps [simp del]

definition decimal_value :: "string \<Rightarrow> nat" where
  "decimal_value s = foldl (\<lambda>n c. 10 * n + digit_value c) 0 s"

text \<open>\<^verbatim>\<open>strconv.Itoa\<close>.\<close>

definition Itoa :: "int \<Rightarrow> string" where
  "Itoa i = (if i < 0 then ''-'' @ nat_string (nat (- i)) else nat_string (nat i))"

lemma digit_code: "d < 10 \<Longrightarrow> (of_char (digit d) :: nat) = 48 + d"
  by (simp add: digit_def)

lemma digit_simps [simp]: "d < 10 \<Longrightarrow> is_digit (digit d)" "d < 10 \<Longrightarrow> digit_value (digit d) = d"
  by (simp_all add: is_digit_def digit_value_def digit_code)

lemma decimal_value_snoc: "decimal_value (s @ [c]) = 10 * decimal_value s + digit_value c"
  by (simp add: decimal_value_def)

lemma decimal_value_nat_string [simp]: "decimal_value (nat_string n) = n"
proof (induction n rule: nat_string.induct)
  case (1 n)
  show ?case
  proof (cases "n < 10")
    case True
    then show ?thesis by (subst nat_string.simps) (simp add: decimal_value_def)
  next
    case False
    then show ?thesis using 1 by (subst nat_string.simps) (simp add: decimal_value_snoc)
  qed
qed

lemma nat_string_digits [simp]: "list_all is_digit (nat_string n)" "nat_string n \<noteq> []"
proof (induction n rule: nat_string.induct)
  case (1 n)
  {
    case 1
    show ?case using \<open>\<not> n < 10 \<Longrightarrow> list_all is_digit (nat_string (n div 10))\<close> by (subst nat_string.simps) simp
  next
    case 2
    show ?case by (subst nat_string.simps) simp
  }
qed

lemma nat_string_inject [simp]: "nat_string m = nat_string n \<longleftrightarrow> m = n"
  by (metis decimal_value_nat_string)

lemma nat_string_hd: "n \<noteq> 0 \<Longrightarrow> hd (nat_string n) \<noteq> digit 0"
proof (induction n rule: nat_string.induct)
  case (1 n)
  show ?case
  proof (cases "n < 10")
    case True
    then have "of_char (digit n) \<noteq> (of_char (digit 0) :: nat)" using 1(2) by (simp add: digit_code)
    then show ?thesis using True by (subst nat_string.simps) auto
  next
    case False
    then show ?thesis using 1(1) by (subst nat_string.simps) simp
  qed
qed

lemma digit_not_minus: "is_digit c \<Longrightarrow> c \<noteq> CHR ''-''"
  by (auto simp: is_digit_def)

lemma Itoa_inject: "Itoa i = Itoa j \<longleftrightarrow> i = j"
proof -
  have m: "nat_string n \<noteq> ''-'' @ nat_string k" for n k
    using nat_string_digits(1)[of n] digit_not_minus by (cases "nat_string n") auto
  show ?thesis
    using m m[symmetric] by (auto simp: Itoa_def)
qed

subsection \<open>Addresses\<close>

datatype ip = IPv4 int | IPv6 int

definition ip16 :: "int \<Rightarrow> ip" where
  "ip16 v = (if v div 2 ^ 32 = 65535 then IPv4 (v mod 2 ^ 32) else IPv6 v)"

fun IsUnspecified :: "ip \<Rightarrow> bool" where
  "IsUnspecified (IPv4 v) \<longleftrightarrow> v = 0"
| "IsUnspecified (IPv6 v) \<longleftrightarrow> v = 0"

text \<open>The text of an IPv4 address.\<close>

definition dotted :: "int \<Rightarrow> string" where
  "dotted v =
     nat_string (nat (v div 2 ^ 24 mod 256)) @ ''.'' @ nat_string (nat (v div 2 ^ 16 mod 256)) @ ''.'' @
     nat_string (nat (v div 2 ^ 8 mod 256)) @ ''.'' @ nat_string (nat (v mod 256))"

text \<open>The fields between separators, at least one.\<close>

fun split_on :: "char \<Rightarrow> string \<Rightarrow> string list" where
  "split_on sep [] = [[]]"
| "split_on sep (c # s) =
     (if c = sep then [] # split_on sep s
      else (case split_on sep s of f # fs \<Rightarrow> (c # f) # fs | [] \<Rightarrow> [[c]]))"

text \<open>An octet has digits only, no leading zero and is at most 255.\<close>

definition octet_ok :: "string \<Rightarrow> bool" where
  "octet_ok f \<longleftrightarrow> f \<noteq> [] \<and> list_all is_digit f \<and> (hd f = digit 0 \<longrightarrow> length f = 1) \<and> decimal_value f \<le> 255"

definition parseIPv4 :: "string \<Rightarrow> int option" where
  "parseIPv4 s =
     (case split_on CHR ''.'' s of
        [a, b, c, d] \<Rightarrow>
          if list_all octet_ok [a, b, c, d]
          then Some (int (decimal_value a) * 2 ^ 24 + int (decimal_value b) * 2 ^ 16 +
                     int (decimal_value c) * 2 ^ 8 + int (decimal_value d))
          else None
      | _ \<Rightarrow> None)"

lemma split_on_digits: "list_all is_digit s \<Longrightarrow> split_on CHR ''.'' (s @ ''.'' @ r) = s # split_on CHR ''.'' r"
  by (induction s) (auto simp: is_digit_def split: list.split)

lemma split_on_last: "list_all is_digit s \<Longrightarrow> split_on CHR ''.'' s = [s]"
  by (induction s) (auto simp: is_digit_def)

lemma octet_ok_nat_string: "n \<le> 255 \<Longrightarrow> octet_ok (nat_string n)"
proof (cases "n = 0")
  case True
  then show ?thesis by (simp add: octet_ok_def nat_string.simps[of 0] decimal_value_def)
next
  case False
  then show "octet_ok (nat_string n)" if "n \<le> 255"
    using that nat_string_hd[of n] by (simp add: octet_ok_def)
qed

lemma octets_value:
  assumes "0 \<le> v" "v < (2::int) ^ 32"
  shows "v div 2 ^ 24 mod 256 * 2 ^ 24 + v div 2 ^ 16 mod 256 * 2 ^ 16 + v div 2 ^ 8 mod 256 * 2 ^ 8 + v mod 256 = v"
proof -
  define a b c where "a = v div 256" and "b = a div 256" and "c = b div 256"
  have abc: "v div 2 ^ 8 = a" "v div 2 ^ 16 = b" "v div 2 ^ 24 = c"
    by (simp_all add: a_def b_def c_def flip: zdiv_zmult2_eq)
  have "v = 256 * a + v mod 256" "a = 256 * b + a mod 256" "b = 256 * c + b mod 256"
    by (simp_all add: a_def b_def c_def)
  moreover have "c mod 256 = c"
    using assms by (simp add: a_def b_def c_def flip: zdiv_zmult2_eq)
  ultimately show ?thesis
    unfolding abc by (simp only:) simp
qed

lemma parseIPv4_octets:
  assumes "a \<le> 255" "b \<le> 255" "c \<le> 255" "d \<le> 255"
  shows "parseIPv4 (nat_string a @ ''.'' @ nat_string b @ ''.'' @ nat_string c @ ''.'' @ nat_string d) =
    Some (int a * 2 ^ 24 + int b * 2 ^ 16 + int c * 2 ^ 8 + int d)"
proof -
  have "split_on CHR ''.'' (nat_string a @ ''.'' @ nat_string b @ ''.'' @ nat_string c @ ''.'' @ nat_string d) =
      [nat_string a, nat_string b, nat_string c, nat_string d]"
    by (simp only: split_on_digits split_on_last nat_string_digits)
  then show ?thesis
    unfolding parseIPv4_def using assms by (simp only: list.case list.pred_inject octet_ok_nat_string decimal_value_nat_string) simp
qed

lemma parse_dotted:
  assumes "0 \<le> v" "v < 2 ^ 32"
  shows "parseIPv4 (dotted v) = Some v"
proof -
  have o: "nat (x mod 256) \<le> 255" "int (nat (x mod 256)) = x mod 256" for x :: int by simp_all
  show ?thesis
    unfolding dotted_def parseIPv4_octets[OF o(1) o(1) o(1) o(1)] o(2) octets_value[OF assms] by simp
qed

subsection \<open>IPv6\<close>

definition hex_value :: "char \<Rightarrow> int option" where
  "hex_value c =
     (let n = of_char c :: int
      in if 48 \<le> n \<and> n \<le> 57 then Some (n - 48)
         else if 97 \<le> n \<and> n \<le> 102 then Some (n - 87)
         else if 65 \<le> n \<and> n \<le> 70 then Some (n - 55)
         else None)"

text \<open>The value of the hexadecimal digits at the start, and what follows them.\<close>

definition hex_group :: "string \<Rightarrow> int \<times> string" where
  "hex_group s =
     (foldl (\<lambda>n c. 16 * n + the (hex_value c)) 0 (takeWhile (\<lambda>c. hex_value c \<noteq> None) s),
      dropWhile (\<lambda>c. hex_value c \<noteq> None) s)"

text \<open>
  The 16-bit groups of an IPv6 address, read until the text ends; \<open>k\<close> is the number of groups so far and
  \<open>el\<close> the position of the double colon.  The result is the groups and that position.
\<close>

function parseGroups :: "nat \<Rightarrow> nat option \<Rightarrow> string \<Rightarrow> (int list \<times> nat option) option" where
  "parseGroups k el s =
     (if 8 \<le> k then None
      else
        (let (acc, s1) = hex_group s; n = length s - length s1
         in if n = 0 \<or> 4 < n then None
            else if s1 = [] then Some ([acc], el)
            else if hd s1 = CHR ''.'' then
              (if el = None \<and> k \<noteq> 6 \<or> 6 < k then None
               else map_option (\<lambda>v. ([v div 2 ^ 16, v mod 2 ^ 16], el)) (parseIPv4 s))
            else if hd s1 \<noteq> CHR '':'' \<or> length s1 = 1 then None
            else
              (let s2 = tl s1
               in if hd s2 = CHR '':'' then
                    (if el \<noteq> None then None
                     else if tl s2 = [] then Some ([acc], Some (Suc k))
                     else if Suc k = 8 then None
                     else map_option (\<lambda>(gs, e). (acc # gs, e)) (parseGroups (Suc k) (Some (Suc k)) (tl s2)))
                  else if Suc k = 8 then None
                  else map_option (\<lambda>(gs, e). (acc # gs, e)) (parseGroups (Suc k) el s2))))"
  by pat_completeness auto

termination
  by (relation "measure (\<lambda>(k, _, _). 8 - k)") auto

declare parseGroups.simps [simp del]

definition groups_value :: "int list \<Rightarrow> int" where
  "groups_value gs = foldl (\<lambda>v g. 65536 * v + g) 0 gs"

definition parseIPv6 :: "string \<Rightarrow> int option" where
  "parseIPv6 s =
     (if s = ''::'' then Some 0
      else
        (case (if take 2 s = ''::'' then parseGroups 0 (Some 0) (drop 2 s) else parseGroups 0 None s) of
           None \<Rightarrow> None
         | Some (gs, el) \<Rightarrow>
             if length gs < 8 then
               (case el of
                  None \<Rightarrow> None
                | Some e \<Rightarrow> Some (groups_value (take e gs @ replicate (8 - length gs) 0 @ drop e gs)))
             else if length gs = 8 \<and> el = None then Some (groups_value gs)
             else None))"

text \<open>The first separator decides the family; a zone is refused.\<close>

datatype parsed = Parsed4 int | Parsed6 int

definition ParseAddr :: "string \<Rightarrow> parsed option" where
  "ParseAddr s =
     (case filter (\<lambda>c. c = CHR ''.'' \<or> c = CHR '':'' \<or> c = CHR ''%'') s of
        c # _ \<Rightarrow>
          if c = CHR ''.'' then map_option Parsed4 (parseIPv4 s)
          else if c = CHR '':'' \<and> CHR ''%'' \<notin> set s then map_option Parsed6 (parseIPv6 s)
          else None
      | [] \<Rightarrow> None)"

fun parsed_ip :: "parsed \<Rightarrow> ip" where
  "parsed_ip (Parsed4 v) = IPv4 v"
| "parsed_ip (Parsed6 v) = ip16 v"

definition ParseIP :: "string \<Rightarrow> ip option" where
  "ParseIP s = map_option parsed_ip (ParseAddr s)"

subsection \<open>Networks\<close>

text \<open>
  A network is its first address and its mask, \<open>netOnes\<close> leading ones of \<open>netBits\<close>.  \<^verbatim>\<open>Contains\<close> reads the last
  32 bits of a long mask when the network's address is an embedded IPv4 address.
\<close>

record ipnet =
  netIP :: ip
  netOnes :: nat
  netBits :: nat

definition mask_to :: "nat \<Rightarrow> nat \<Rightarrow> int \<Rightarrow> int" where
  "mask_to bits ones v = v div 2 ^ (bits - ones) * 2 ^ (bits - ones)"

definition Contains :: "ipnet \<Rightarrow> ip \<Rightarrow> bool" where
  "Contains n a \<longleftrightarrow>
     (case (netIP n, a) of
        (IPv4 b, IPv4 v) \<Rightarrow>
          (let ones = netOnes n - (netBits n - 32) in mask_to 32 ones b = mask_to 32 ones v)
      | (IPv6 b, IPv6 v) \<Rightarrow> mask_to 128 (netOnes n) b = mask_to 128 (netOnes n) v
      | _ \<Rightarrow> False)"

definition ipnet4 :: "int \<Rightarrow> nat \<Rightarrow> ipnet" where
  "ipnet4 v ones = \<lparr>netIP = IPv4 (mask_to 32 ones v), netOnes = ones, netBits = 32\<rparr>"

definition ipnet6 :: "int \<Rightarrow> nat \<Rightarrow> ipnet" where
  "ipnet6 v ones = \<lparr>netIP = ip16 (mask_to 128 ones v), netOnes = ones, netBits = 128\<rparr>"

text \<open>The digits of a prefix length; a number that is too large is no prefix length either.\<close>

definition ParseCIDR :: "string \<Rightarrow> (ip \<times> ipnet) option" where
  "ParseCIDR s =
     (if CHR ''/'' \<notin> set s then None
      else
        (let addr = takeWhile (\<lambda>c. c \<noteq> CHR ''/'') s; mask = tl (dropWhile (\<lambda>c. c \<noteq> CHR ''/'') s)
         in if mask = [] \<or> \<not> list_all is_digit mask then None
            else
              (let ones = decimal_value mask
               in (case ParseAddr addr of
                     Some (Parsed4 v) \<Rightarrow> if ones \<le> 32 then Some (IPv4 v, ipnet4 v ones) else None
                   | Some (Parsed6 v) \<Rightarrow> if ones \<le> 128 then Some (ip16 v, ipnet6 v ones) else None
                   | None \<Rightarrow> None))))"

subsection \<open>Text of addresses\<close>

fun hex_string :: "nat \<Rightarrow> string" where
  "hex_string n =
     (let d = (if n mod 16 < 10 then digit (n mod 16) else char_of (87 + n mod 16))
      in if n < 16 then [d] else hex_string (n div 16) @ [d])"

declare hex_string.simps [simp del]

definition ip6_groups :: "int \<Rightarrow> nat list" where
  "ip6_groups v = map (\<lambda>i. nat (v div 65536 ^ (7 - i) mod 65536)) [0..<8]"

text \<open>The first of the longest runs of at least two zero groups: where it starts and ends.\<close>

definition zero_run :: "nat list \<Rightarrow> nat \<times> nat" where
  "zero_run gs =
     foldl (\<lambda>(a, b) i. let l = length (takeWhile (\<lambda>g. g = 0) (drop i gs))
                       in if 2 \<le> l \<and> b - a < l then (i, i + l) else (a, b)) (8, 8) [0..<8]"

definition ip6_string :: "int \<Rightarrow> string" where
  "ip6_string v =
     (let gs = ip6_groups v; (a, b) = zero_run gs;
          text = \<lambda>is. concat (map (\<lambda>i. (if i = 0 \<or> i = b then [] else '':'') @ hex_string (gs ! i)) is)
      in text [0..<a] @ (if a < 8 then ''::'' else []) @ text [b..<8])"

fun ip_String :: "ip \<Rightarrow> string" where
  "ip_String (IPv4 v) = dotted v"
| "ip_String (IPv6 v) = ip6_string v"

lemma dotted_chars: "c \<in> set (dotted v) \<Longrightarrow> is_digit c \<or> c = CHR ''.''"
  using nat_string_digits(1) by (fastforce simp: dotted_def list_all_iff)

lemma ParseAddr_dotted:
  assumes "0 \<le> v" "v < 2 ^ 32"
  shows "ParseAddr (dotted v) = Some (Parsed4 v)"
proof -
  let ?sep = "\<lambda>c. c = CHR ''.'' \<or> c = CHR '':'' \<or> c = CHR ''%''"
  have "CHR ''.'' \<in> set (filter ?sep (dotted v))"
    by (simp add: dotted_def)
  moreover have "set (filter ?sep (dotted v)) \<subseteq> {CHR ''.''}"
    using dotted_chars[of _ v] by (fastforce simp: is_digit_def)
  ultimately obtain cs where "filter ?sep (dotted v) = CHR ''.'' # cs"
    by (cases "filter ?sep (dotted v)") auto
  then show ?thesis
    using parse_dotted[OF assms] by (simp add: ParseAddr_def)
qed

text \<open>Printing an IPv4 address with a prefix length and reading it back.\<close>

lemma ParseCIDR_dotted:
  assumes "0 \<le> v" "v < 2 ^ 32" "ones \<le> 32"
  shows "ParseCIDR (dotted v @ ''/'' @ nat_string ones) = Some (IPv4 v, ipnet4 v ones)"
proof -
  have no: "c \<noteq> CHR ''/''" if "c \<in> set (dotted v)" for c
    using dotted_chars[OF that] by (auto simp: is_digit_def)
  have "takeWhile (\<lambda>c. c \<noteq> CHR ''/'') (dotted v @ ''/'' @ nat_string ones) = dotted v"
    "dropWhile (\<lambda>c. c \<noteq> CHR ''/'') (dotted v @ ''/'' @ nat_string ones) = ''/'' @ nat_string ones"
    using no by (simp_all add: takeWhile_append2 dropWhile_append2)
  then show ?thesis
    using assms by (simp add: ParseCIDR_def ParseAddr_dotted)
qed

end
