(* ===== verification/Network_Slot.thy ===== *)
theory Network_Slot
  imports Go_Net Node_Manager
begin

text \<open>
  A network slot of a sandbox, \<^verbatim>\<open>packages/orchestrator/pkg/sandbox/network/slot.go\<close>: the plan of its
  addresses and names, and the switches of its firewall.

  The networks of the host and of the virtual links come from the environment.  \<^verbatim>\<open>GetIndexedIP\<close> of
  \<^verbatim>\<open>k8s.io/utils/net\<close> is not part of the repository; it is an argument, and the locale \<open>indexed_ip\<close> states what
  its documentation says.  The calls into the network name space are arguments that hold their results.
\<close>

subsection \<open>Networks\<close>

definition defaultHostNetworkCIDR :: string where "defaultHostNetworkCIDR = ''10.11.0.0/16''"
definition defaultVrtNetworkCIDR :: string where "defaultVrtNetworkCIDR = ''10.12.0.0/16''"
definition hostMask :: nat where "hostMask = 32"
definition vrtMask :: nat where "vrtMask = 31"
definition vrtAddressPerSlot :: int where "vrtAddressPerSlot = 2 ^ (32 - vrtMask)"
definition tapMask :: nat where "tapMask = 30"
definition tapInterfaceName :: string where "tapInterfaceName = ''tap0''"
definition tapIp :: string where "tapIp = ''169.254.0.22''"
definition tapMAC :: string where "tapMAC = ''02:FC:00:00:00:05''"

lemmas slot_consts = hostMask_def vrtMask_def vrtAddressPerSlot_def tapMask_def tapIp_def

definition GetEnv :: "(string \<Rightarrow> string) \<Rightarrow> string \<Rightarrow> string \<Rightarrow> string" where
  "GetEnv getenv key defaultValue = (if getenv key = [] then defaultValue else getenv key)"

text \<open>A network that cannot be parsed ends the process, which is a panic here.\<close>

definition getHostNetworkCIDR :: "(string \<Rightarrow> string) \<Rightarrow> ('e, ipnet) go" where
  "getHostNetworkCIDR getenv =
     (case ParseCIDR (GetEnv getenv ''SANDBOXES_HOST_NETWORK_CIDR'' defaultHostNetworkCIDR) of
        None \<Rightarrow> Panic
      | Some (_, subnet) \<Rightarrow> Ok subnet)"

definition getVrtNetworkCIDR :: "(string \<Rightarrow> string) \<Rightarrow> ('e, ipnet) go" where
  "getVrtNetworkCIDR getenv =
     (case ParseCIDR (GetEnv getenv ''SANDBOXES_VRT_NETWORK_CIDR'' defaultVrtNetworkCIDR) of
        None \<Rightarrow> Panic
      | Some (_, subnet) \<Rightarrow> Ok subnet)"

text \<open>A negative shift is a panic.\<close>

definition GetVrtSlotsSize :: "ipnet \<Rightarrow> ('e, int) go" where
  "GetVrtSlotsSize vrt =
     (if 32 < netOnes vrt then Panic
      else
        (let totalIPs = i64 (2 ^ (32 - netOnes vrt))
         in Ok (i64 (totalIPs sdiv vrtAddressPerSlot - vrtAddressPerSlot))))"

text \<open>The package's variables.\<close>

record network_vars =
  hostNetworkCIDR :: ipnet
  vrtNetworkCIDR :: ipnet
  vrtSlotsSize :: int

definition network_init :: "(string \<Rightarrow> string) \<Rightarrow> ('e, network_vars) go" where
  "network_init getenv =
     go_bind (getHostNetworkCIDR getenv) (\<lambda>h.
       go_bind (getVrtNetworkCIDR getenv) (\<lambda>v.
         go_bind (GetVrtSlotsSize v) (\<lambda>n.
           Ok \<lparr>hostNetworkCIDR = h, vrtNetworkCIDR = v, vrtSlotsSize = n\<rparr>)))"

subsection \<open>Slots\<close>

record Config =
  OrchestratorInSandboxIPAddress :: string
  HyperloopProxyPort :: int
  NFSProxyPort :: int
  PortmapperPort :: int
  UseLocalNamespaceStorage :: bool
  SandboxTCPFirewallHTTPPort :: int
  SandboxTCPFirewallTLSPort :: int
  SandboxTCPFirewallOtherPort :: int

record Slot =
  slKey :: string
  slIdx :: int
  slFirewall :: bool
  slCustomRules :: bool
  slVPeerIp :: ip
  slVEthIp :: ip
  slVrtMask :: "nat \<times> nat"
  slTapIp :: ip
  slTapMask :: "nat \<times> nat"
  slHostIP :: ip
  slHostNet :: ipnet
  slHostCIDR :: string
  slHyperloopPort :: string
  slConfig :: Config

datatype slot_error =
    SlotIndexOutOfRange int int
  | VethIPFailed
  | VpeerIPFailed
  | VrtCIDRFailed string
  | HostIPFailed
  | HostCIDRFailed string
  | TapCIDRFailed string

definition net_mask :: "ipnet \<Rightarrow> nat \<times> nat" where
  "net_mask n = (netOnes n, netBits n)"

definition NewSlot ::
  "(ipnet \<Rightarrow> int \<Rightarrow> ip option) \<Rightarrow> network_vars \<Rightarrow> string \<Rightarrow> int \<Rightarrow> Config \<Rightarrow> (slot_error, Slot) go" where
  "NewSlot getIndexedIP vars key idx config =
     (if idx < 1 \<or> vrtSlotsSize vars < idx then Fail (SlotIndexOutOfRange idx (vrtSlotsSize vars))
      else
        (case getIndexedIP (vrtNetworkCIDR vars) (i64 (idx * vrtAddressPerSlot)) of
           None \<Rightarrow> Fail VethIPFailed
         | Some vEthIp \<Rightarrow>
             (case getIndexedIP (vrtNetworkCIDR vars) (i64 (idx * vrtAddressPerSlot + 1)) of
                None \<Rightarrow> Fail VpeerIPFailed
              | Some vPeerIp \<Rightarrow>
                  (let vrtCIDR = ip_String vPeerIp @ ''/'' @ nat_string vrtMask
                   in case ParseCIDR vrtCIDR of
                        None \<Rightarrow> Fail (VrtCIDRFailed vrtCIDR)
                      | Some (_, vrtNet) \<Rightarrow>
                          (case getIndexedIP (hostNetworkCIDR vars) idx of
                             None \<Rightarrow> Fail HostIPFailed
                           | Some hostIp \<Rightarrow>
                               (let hostCIDR = ip_String hostIp @ ''/'' @ nat_string hostMask
                                in case ParseCIDR hostCIDR of
                                     None \<Rightarrow> Fail (HostCIDRFailed hostCIDR)
                                   | Some (_, hostNet) \<Rightarrow>
                                       (let tapCIDR = tapIp @ ''/'' @ nat_string tapMask
                                        in case ParseCIDR tapCIDR of
                                             None \<Rightarrow> Fail (TapCIDRFailed tapCIDR)
                                           | Some (tip, tapNet) \<Rightarrow>
                                               Ok \<lparr>slKey = key, slIdx = idx, slFirewall = False, slCustomRules = False,
                                                   slVPeerIp = vPeerIp, slVEthIp = vEthIp, slVrtMask = net_mask vrtNet,
                                                   slTapIp = tip, slTapMask = net_mask tapNet, slHostIP = hostIp,
                                                   slHostNet = hostNet, slHostCIDR = hostCIDR,
                                                   slHyperloopPort = Itoa (HyperloopProxyPort config),
                                                   slConfig = config\<rparr>)))))))"

definition VpeerName :: "Slot \<Rightarrow> string" where "VpeerName s = ''eth0''"
definition VethName :: "Slot \<Rightarrow> string" where "VethName s = ''veth-'' @ Itoa (slIdx s)"
definition HostIPString :: "Slot \<Rightarrow> string" where "HostIPString s = ip_String (slHostIP s)"
definition NamespaceIP :: "Slot \<Rightarrow> string" where "NamespaceIP s = ''169.254.0.21''"
definition NamespaceID :: "Slot \<Rightarrow> string" where "NamespaceID s = ''ns-'' @ Itoa (slIdx s)"
definition TapName :: "Slot \<Rightarrow> string" where "TapName s = tapInterfaceName"
definition TapIPString :: "Slot \<Rightarrow> string" where "TapIPString s = ip_String (slTapIp s)"

text \<open>\<^verbatim>\<open>net.CIDRMask\<close> printed as an address.\<close>

definition TapMaskString :: "Slot \<Rightarrow> string" where
  "TapMaskString s = dotted (2 ^ 32 - 2 ^ (32 - tapMask))"

subsection \<open>The firewall of a slot\<close>

datatype 'e internet_error =
    FirewallAlreadyInitialized string
  | FirewallInitFailed 'e
  | FirewallCloseFailed 'e
  | NamespaceFailed string 'e
  | NamespaceRunFailed string 'e

definition InitializeFirewall :: "'e option \<Rightarrow> Slot \<Rightarrow> 'e internet_error option \<times> Slot" where
  "InitializeFirewall newFirewall s =
     (if slFirewall s then (Some (FirewallAlreadyInitialized (slKey s)), s)
      else
        (case newFirewall of
           Some e \<Rightarrow> (Some (FirewallInitFailed e), s)
         | None \<Rightarrow> (None, s\<lparr>slFirewall := True\<rparr>)))"

definition CloseFirewall :: "'e option \<Rightarrow> Slot \<Rightarrow> 'e internet_error option \<times> Slot" where
  "CloseFirewall close s =
     (if \<not> slFirewall s then (None, s)
      else
        (case close of
           Some e \<Rightarrow> (Some (FirewallCloseFailed e), s)
         | None \<Rightarrow> (None, s\<lparr>slFirewall := False\<rparr>)))"

text \<open>
  The result of entering the name space and of \<^verbatim>\<open>ReplaceUserRules\<close> there: \<open>Inl\<close> is the first call, \<open>Inr\<close> the
  second.  A name space that is entered with no firewall is a nil dereference.
\<close>

definition inNamespace :: "('e + 'e) option \<Rightarrow> Slot \<Rightarrow> ('e internet_error, unit) go" where
  "inNamespace answer s =
     (case answer of
        Some (Inl e) \<Rightarrow> Fail (NamespaceFailed (NamespaceID s) e)
      | Some (Inr e) \<Rightarrow> if slFirewall s then Fail (NamespaceRunFailed (NamespaceID s) e) else Panic
      | None \<Rightarrow> if slFirewall s then Ok () else Panic)"

definition ConfigureInternet ::
  "('e + 'e) option \<Rightarrow> EgressMessage option \<Rightarrow> Slot \<Rightarrow> ('e internet_error, unit) go \<times> Slot" where
  "ConfigureInternet answer egress s =
     (if (case egress of
            None \<Rightarrow> True
          | Some eg \<Rightarrow> emAllowedCidrs eg = [] \<and> emDeniedCidrs eg = [] \<and> emAllowedDomains eg = [])
      then (Ok (), s)
      else (let s1 = s\<lparr>slCustomRules := True\<rparr> in (inNamespace answer s1, s1)))"

definition UpdateInternet :: "('e + 'e) option \<Rightarrow> Slot \<Rightarrow> ('e internet_error, unit) go \<times> Slot" where
  "UpdateInternet answer s =
     (case inNamespace answer s of
        Ok _ \<Rightarrow> (Ok (), s\<lparr>slCustomRules := True\<rparr>)
      | r \<Rightarrow> (r, s))"

definition ResetInternet :: "('e + 'e) option \<Rightarrow> Slot \<Rightarrow> ('e internet_error, unit) go \<times> Slot" where
  "ResetInternet answer s =
     (if \<not> slCustomRules s then (Ok (), s)
      else (let s1 = s\<lparr>slCustomRules := False\<rparr> in (inNamespace answer s1, s1)))"

subsection \<open>The address plan\<close>

locale indexed_ip =
  fixes getIndexedIP :: "ipnet \<Rightarrow> int \<Rightarrow> ip option"
  assumes indexed: "netIP n = IPv4 b \<Longrightarrow> netBits n = 32 \<Longrightarrow> 0 \<le> i \<Longrightarrow> b + i < 2 ^ 32 \<Longrightarrow>
    getIndexedIP n i = (if Contains n (IPv4 (b + i)) then Some (IPv4 (b + i)) else None)"

text \<open>A variable state of IPv4 networks that are large enough for every slot.\<close>

definition plan_ok :: "network_vars \<Rightarrow> int \<Rightarrow> nat \<Rightarrow> int \<Rightarrow> nat \<Rightarrow> bool" where
  "plan_ok vars h hones v vones \<longleftrightarrow>
     hostNetworkCIDR vars = ipnet4 h hones \<and> vrtNetworkCIDR vars = ipnet4 v vones \<and>
     0 \<le> h \<and> h < 2 ^ 32 \<and> 0 \<le> v \<and> v < 2 ^ 32 \<and> hones \<le> 32 \<and> vones \<le> 32 \<and>
     GetVrtSlotsSize (ipnet4 v vones) = (Ok (vrtSlotsSize vars) :: (unit, int) go) \<and>
     vrtSlotsSize vars < 2 ^ (32 - hones)"

lemma mask_to_block:
  assumes "0 \<le> v" "ones \<le> 32"
  shows "mask_to 32 ones v \<le> v" "0 \<le> mask_to 32 ones v" "v < 2 ^ 32 \<Longrightarrow> mask_to 32 ones v + 2 ^ (32 - ones) \<le> 2 ^ 32"
proof -
  let ?k = "(2::int) ^ (32 - ones)"
  have k: "0 < ?k" by simp
  show "mask_to 32 ones v \<le> v" "0 \<le> mask_to 32 ones v"
    using block_floor(1)[OF k, of v] assms(1) by (simp_all add: mask_to_def pos_imp_zdiv_nonneg_iff)
  have d: "?k dvd 2 ^ 32"
    by (rule le_imp_power_dvd) simp
  show "mask_to 32 ones v + ?k \<le> 2 ^ 32" if "v < 2 ^ 32"
    by (rule dvd_less_add_le[OF _ d k]) (use \<open>mask_to 32 ones v \<le> v\<close> that in \<open>auto simp: mask_to_def\<close>)
qed

lemma Contains_ipnet4:
  assumes "0 \<le> i" "i < 2 ^ (32 - ones)"
  shows "Contains (ipnet4 v ones) (IPv4 (mask_to 32 ones v + i))"
  using assms by (simp add: Contains_def ipnet4_def mask_to_def)

lemma slots_size:
  assumes "plan_ok vars h hones v vones"
  shows "vrtSlotsSize vars = 2 ^ (32 - vones) div 2 - 2"
proof -
  have le: "(2::int) ^ (32 - vones) \<le> 4294967296" "(0::int) < 2 ^ (32 - vones)"
    using power_increasing[of "32 - vones" 32 "2::int"] by simp_all
  have "i64 (2 ^ (32 - vones)) = 2 ^ (32 - vones)" "i64 (2 ^ (32 - vones) div 2 - 2) = 2 ^ (32 - vones) div 2 - 2"
    by (rule i64_id; use le in linarith)+
  then show ?thesis
    using assms by (simp add: plan_ok_def GetVrtSlotsSize_def ipnet4_def Let_def slot_consts split: if_splits)
qed

definition vrt_base :: "network_vars \<Rightarrow> int" where
  "vrt_base vars = (case netIP (vrtNetworkCIDR vars) of IPv4 b \<Rightarrow> b | IPv6 b \<Rightarrow> b)"

definition host_base :: "network_vars \<Rightarrow> int" where
  "host_base vars = (case netIP (hostNetworkCIDR vars) of IPv4 b \<Rightarrow> b | IPv6 b \<Rightarrow> b)"

text \<open>The plan: two neighbouring addresses of the virtual network, and one of the host network.\<close>

definition slot_plan :: "network_vars \<Rightarrow> Slot \<Rightarrow> bool" where
  "slot_plan vars s \<longleftrightarrow>
     1 \<le> slIdx s \<and> slIdx s \<le> vrtSlotsSize vars \<and>
     slVEthIp s = IPv4 (vrt_base vars + 2 * slIdx s) \<and> slVPeerIp s = IPv4 (vrt_base vars + 2 * slIdx s + 1) \<and>
     slHostIP s = IPv4 (host_base vars + slIdx s) \<and>
     slHostNet s = \<lparr>netIP = slHostIP s, netOnes = 32, netBits = 32\<rparr> \<and> slVrtMask s = (31, 32) \<and>
     slTapMask s = (30, 32) \<and>
     Contains (vrtNetworkCIDR vars) (slVEthIp s) \<and> Contains (vrtNetworkCIDR vars) (slVPeerIp s) \<and>
     Contains (hostNetworkCIDR vars) (slHostIP s)"

lemma tap_parse: "ParseCIDR (tapIp @ ''/'' @ nat_string tapMask) = Some (IPv4 2851995670, ipnet4 2851995670 30)"
proof -
  have "dotted 2851995670 = tapIp"
    by code_simp
  then show ?thesis
    using ParseCIDR_dotted[of 2851995670 30] by (simp add: tapMask_def)
qed

context indexed_ip
begin

lemma indexed_ipnet4:
  assumes "0 \<le> v" "v < 2 ^ 32" "ones \<le> 32" "0 \<le> i" "i < 2 ^ (32 - ones)"
  shows "getIndexedIP (ipnet4 v ones) i = Some (IPv4 (mask_to 32 ones v + i))"
    "0 \<le> mask_to 32 ones v + i" "mask_to 32 ones v + i < 2 ^ 32"
proof -
  show r: "0 \<le> mask_to 32 ones v + i" "mask_to 32 ones v + i < 2 ^ 32"
    using mask_to_block[OF assms(1,3)] assms by linarith+
  show "getIndexedIP (ipnet4 v ones) i = Some (IPv4 (mask_to 32 ones v + i))"
    using indexed[of "ipnet4 v ones" "mask_to 32 ones v" i] Contains_ipnet4[OF assms(4,5)] assms(4) r
    by (simp add: ipnet4_def)
qed

text \<open>Every index of the range has a slot, and its addresses are those of the plan.\<close>

lemma NewSlot_plan:
  assumes plan: "plan_ok vars h hones v vones" and idx: "1 \<le> idx" "idx \<le> vrtSlotsSize vars"
  shows "\<exists>s. NewSlot getIndexedIP vars key idx config = Ok s \<and> slot_plan vars s \<and> slIdx s = idx \<and> slKey s = key \<and>
    \<not> slFirewall s \<and> \<not> slCustomRules s \<and> slConfig s = config"
proof -
  let ?B = "mask_to 32 vones v" and ?H = "mask_to 32 hones h"
  have nets: "hostNetworkCIDR vars = ipnet4 h hones" "vrtNetworkCIDR vars = ipnet4 v vones" "0 \<le> h" "h < 2 ^ 32"
    "0 \<le> v" "v < 2 ^ 32" "hones \<le> 32" "vones \<le> 32" "idx < 2 ^ (32 - hones)"
    using plan idx by (auto simp: plan_ok_def)
  have two: "2 * idx + 1 < 2 ^ (32 - vones)"
    using idx slots_size[OF plan] by linarith
  have "(2::int) ^ (32 - vones) \<le> 2 ^ 32"
    by (rule power_increasing) simp_all
  then have i: "i64 (idx * 2) = 2 * idx" "i64 (idx * 2 + 1) = 2 * idx + 1"
    using idx two by (subst i64_id; simp)+
  have e: "0 \<le> 2 * idx" "2 * idx < 2 ^ (32 - vones)" "0 \<le> 2 * idx + 1" "0 \<le> idx"
    using idx two by auto
  note veth = indexed_ipnet4[OF nets(5,6,8) e(1,2)] and vpeer = indexed_ipnet4[OF nets(5,6,8) e(3) two]
    and host = indexed_ipnet4[OF nets(3,4,7) e(4) nets(9)]
  have c: "ParseCIDR (dotted (?B + (2 * idx + 1)) @ ''/'' @ nat_string vrtMask) = Some (IPv4 (?B + (2 * idx + 1)),
      ipnet4 (?B + (2 * idx + 1)) 31)"
    "ParseCIDR (dotted (?H + idx) @ ''/'' @ nat_string hostMask) = Some (IPv4 (?H + idx), ipnet4 (?H + idx) 32)"
    using ParseCIDR_dotted[OF vpeer(2,3), of 31] ParseCIDR_dotted[OF host(2,3), of 32] by (simp_all add: slot_consts)
  have b: "vrt_base vars = ?B" "host_base vars = ?H"
    by (simp_all add: vrt_base_def host_base_def nets ipnet4_def)
  have cont: "Contains (ipnet4 v vones) (IPv4 (?B + 2 * idx))" "Contains (ipnet4 v vones) (IPv4 (?B + (2 * idx + 1)))"
    "Contains (ipnet4 h hones) (IPv4 (?H + idx))"
    by (rule Contains_ipnet4; use e two nets in simp)+
  show ?thesis
    using idx i veth(1) vpeer(1) host(1) c tap_parse cont
    by (auto simp: NewSlot_def nets slot_plan_def Let_def vrtAddressPerSlot_def vrtMask_def b net_mask_def ipnet4_def
        mask_to_def add.assoc)
qed

end

subsection \<open>Slots do not share addresses or names\<close>

lemma slot_plans_disjoint:
  assumes "slot_plan vars s" "slot_plan vars t" "slIdx s \<noteq> slIdx t"
  shows "{slVEthIp s, slVPeerIp s} \<inter> {slVEthIp t, slVPeerIp t} = {}" "slHostIP s \<noteq> slHostIP t"
  using assms by (auto simp: slot_plan_def)

lemma slot_names_inject:
  "VethName s = VethName t \<longleftrightarrow> slIdx s = slIdx t" "NamespaceID s = NamespaceID t \<longleftrightarrow> slIdx s = slIdx t"
  by (simp_all add: VethName_def NamespaceID_def Itoa_inject)

subsection \<open>An instance of \<^verbatim>\<open>GetIndexedIP\<close>\<close>

fun addIPOffset :: "ip \<Rightarrow> int \<Rightarrow> ip" where
  "addIPOffset (IPv4 b) i = IPv4 (b + i)"
| "addIPOffset (IPv6 b) i = ip16 (b + i)"

definition indexedIP :: "ipnet \<Rightarrow> int \<Rightarrow> ip option" where
  "indexedIP n i = (let a = addIPOffset (netIP n) i in if Contains n a then Some a else None)"

interpretation indexedIP: indexed_ip indexedIP
  by unfold_locales (simp add: indexedIP_def)

definition default_vars :: network_vars where
  "default_vars = \<lparr>hostNetworkCIDR = ipnet4 168493056 16, vrtNetworkCIDR = ipnet4 168558592 16, vrtSlotsSize = 32766\<rparr>"

lemma default_vars_init: "network_init (\<lambda>_. []) = (Ok default_vars :: ('e, network_vars) go)"
proof -
  have "dotted 168493056 @ ''/'' @ nat_string 16 = defaultHostNetworkCIDR"
    "dotted 168558592 @ ''/'' @ nat_string 16 = defaultVrtNetworkCIDR"
    by code_simp+
  then show ?thesis
    using ParseCIDR_dotted[of 168493056 16] ParseCIDR_dotted[of 168558592 16]
    by (simp add: network_init_def getHostNetworkCIDR_def getVrtNetworkCIDR_def GetEnv_def GetVrtSlotsSize_def
        default_vars_def ipnet4_def slot_consts)
qed

lemma default_plan_ok: "plan_ok default_vars 168493056 16 168558592 16"
  by (simp add: plan_ok_def default_vars_def GetVrtSlotsSize_def ipnet4_def slot_consts)

end
