(* ===== verification/Network_Storage.thy ===== *)
theory Network_Storage
  imports Network_Slot
begin

text \<open>
  The storages of network slots, \<^verbatim>\<open>storage.go\<close>, \<^verbatim>\<open>storage_memory.go\<close>, \<^verbatim>\<open>storage_local.go\<close> and \<^verbatim>\<open>storage_kv.go\<close> of
  \<^verbatim>\<open>packages/orchestrator/pkg/sandbox/network\<close>.  The locale \<open>slot_storage\<close> is the interface \<^verbatim>\<open>Storage\<close> with what the
  pool relies on; the three storages provide it.
\<close>

datatype 'e storage_error =
    NoEmptySlots
  | AcquireTimeout
  | NamespaceCheckFailed 'e
  | SlotError slot_error
  | KVWriteFailed 'e
  | KVReadFailed 'e
  | KVDeleteFailed 'e
  | AlreadyReleased int
  | AlreadyReallocated int

subsection \<open>The interface\<close>

text \<open>
  \<open>held\<close> are the indices that the storage has given out or blocks for itself.  An index is never given out
  twice, and releasing a slot frees no other.  \<open>'a\<close> is what a call draws from outside: clocks, files, numbers.
\<close>

locale slot_storage =
  fixes acquire :: "'a \<Rightarrow> 'st \<Rightarrow> ('e storage_error, Slot) go \<times> 'st"
    and release :: "'a \<Rightarrow> Slot \<Rightarrow> 'st \<Rightarrow> ('e storage_error, unit) go \<times> 'st"
    and held :: "'st \<Rightarrow> int set"
    and ok :: "'st \<Rightarrow> bool"
    and good :: "Slot \<Rightarrow> bool"
  assumes acquire_Ok: "ok st \<Longrightarrow> acquire x st = (Ok s, st') \<Longrightarrow>
      ok st' \<and> good s \<and> slIdx s \<notin> held st \<and> held st' = insert (slIdx s) (held st)"
    and acquire_error: "ok st \<Longrightarrow> acquire x st = (Fail e, st') \<Longrightarrow> ok st' \<and> held st \<subseteq> held st'"
    and acquire_Panic: "ok st \<Longrightarrow> acquire x st \<noteq> (Panic, st')"
    and release_held: "ok st \<Longrightarrow> good s \<Longrightarrow> release x s st = (r, st') \<Longrightarrow>
      ok st' \<and> held st - {slIdx s} \<subseteq> held st' \<and> held st' \<subseteq> held st"
    and release_Panic: "ok st \<Longrightarrow> good s \<Longrightarrow> slIdx s \<in> held st \<Longrightarrow> release x s st \<noteq> (Panic, st')"

subsection \<open>In memory\<close>

record StorageMemory =
  smSlotsSize :: int
  smFreeSlots :: "bool list"

definition NewStorageMemory :: "int \<Rightarrow> StorageMemory" where
  "NewStorageMemory slotsSize = \<lparr>smSlotsSize = slotsSize, smFreeSlots = replicate (nat slotsSize) False\<rparr>"

definition getMemoryKey :: "int \<Rightarrow> string" where "getMemoryKey slotIdx = Itoa slotIdx"

function memoryLoop ::
  "(string \<Rightarrow> int \<Rightarrow> (slot_error, Slot) go) \<Rightarrow> int \<Rightarrow> StorageMemory \<Rightarrow> ('e storage_error, Slot) go \<times> StorageMemory" where
  "memoryLoop newSlot slotIdx st =
     (if slotIdx \<ge> smSlotsSize st then (Fail NoEmptySlots, st)
      else if slotIdx < 0 \<or> slotIdx \<ge> int (length (smFreeSlots st)) then (Panic, st)
      else if \<not> smFreeSlots st ! nat slotIdx then
        (let st' = st\<lparr>smFreeSlots := (smFreeSlots st)[nat slotIdx := True]\<rparr>
         in case newSlot (getMemoryKey slotIdx) slotIdx of
              Ok s \<Rightarrow> (Ok s, st')
            | Fail e \<Rightarrow> (Fail (SlotError e), st')
            | Panic \<Rightarrow> (Panic, st'))
      else memoryLoop newSlot (slotIdx + 1) st)"
  by pat_completeness auto

termination
  by (relation "measure (\<lambda>(_, i, st). nat (smSlotsSize st - i))") auto

declare memoryLoop.simps [simp del]

definition memory_Acquire ::
  "(string \<Rightarrow> int \<Rightarrow> (slot_error, Slot) go) \<Rightarrow> StorageMemory \<Rightarrow> ('e storage_error, Slot) go \<times> StorageMemory" where
  "memory_Acquire newSlot st = memoryLoop newSlot 1 st"

definition memory_Release :: "Slot \<Rightarrow> StorageMemory \<Rightarrow> ('e storage_error, unit) go \<times> StorageMemory" where
  "memory_Release ips st =
     (if slIdx ips < 0 \<or> slIdx ips \<ge> int (length (smFreeSlots st)) then (Panic, st)
      else (Ok (), st\<lparr>smFreeSlots := (smFreeSlots st)[nat (slIdx ips) := False]\<rparr>))"

subsection \<open>On the local machine\<close>

record StorageLocal =
  stSlotsSize :: int
  stForeignNs :: "string set"
  stAcquiredNs :: "string set"

definition netNamespacesDir :: string where "netNamespacesDir = ''/var/run/netns''"

definition getSlotName :: "int \<Rightarrow> string" where "getSlotName slotIdx = ''ns-'' @ Itoa slotIdx"
definition getLocalKey :: "int \<Rightarrow> string" where "getLocalKey slotIdx = Itoa slotIdx"

datatype 'e stat_result = StatOk | StatNotExist | StatError 'e

definition isNamespaceAvailable :: "(string \<Rightarrow> 'e stat_result) \<Rightarrow> string \<Rightarrow> ('e, bool) go" where
  "isNamespaceAvailable stat name =
     (case stat (netNamespacesDir @ ''/'' @ name) of
        StatNotExist \<Rightarrow> Ok True
      | StatError e \<Rightarrow> Fail e
      | StatOk \<Rightarrow> Ok False)"

datatype 'e readdir_result = ReadDir "(string \<times> bool) list" | ReadDirNotExist | ReadDirError 'e

definition getForeignNamespaces :: "'e readdir_result \<Rightarrow> ('e, string list) go" where
  "getForeignNamespaces r =
     (case r of
        ReadDirNotExist \<Rightarrow> Ok []
      | ReadDirError e \<Rightarrow> Fail e
      | ReadDir files \<Rightarrow> Ok (map fst (filter (\<lambda>(name, isDir). \<not> isDir \<and> name \<noteq> ''host'') files)))"

definition NewStorageLocal :: "'e readdir_result \<Rightarrow> int \<Rightarrow> ('e, StorageLocal) go" where
  "NewStorageLocal r slotsSize =
     go_bind (getForeignNamespaces r)
       (\<lambda>foreignNs. Ok \<lparr>stSlotsSize = slotsSize, stForeignNs = set foreignNs, stAcquiredNs = {}\<rparr>)"

text \<open>The loop runs until the context is done, after \<open>ticks\<close> rounds.\<close>

fun localLoop ::
  "(string \<Rightarrow> int \<Rightarrow> (slot_error, Slot) go) \<Rightarrow> (string \<Rightarrow> 'e stat_result) \<Rightarrow> nat \<Rightarrow> int \<Rightarrow> StorageLocal \<Rightarrow>
   ('e storage_error, Slot) go \<times> StorageLocal" where
  "localLoop newSlot stat 0 slotIdx st = (Fail AcquireTimeout, st)"
| "localLoop newSlot stat (Suc ticks) slotIdx st =
     (if int (card (stAcquiredNs st)) > stSlotsSize st then (Fail NoEmptySlots, st)
      else
        (let slotIdx1 = slotIdx + 1; slotName = getSlotName slotIdx1
         in if slotName \<in> stForeignNs st then localLoop newSlot stat ticks slotIdx1 st
            else if slotName \<in> stAcquiredNs st then localLoop newSlot stat ticks slotIdx1 st
            else
              (case isNamespaceAvailable stat slotName of
                 Fail e \<Rightarrow> (Fail (NamespaceCheckFailed e), st)
               | Panic \<Rightarrow> (Panic, st)
               | Ok available \<Rightarrow>
                   if \<not> available
                   then localLoop newSlot stat ticks slotIdx1 (st\<lparr>stForeignNs := insert slotName (stForeignNs st)\<rparr>)
                   else
                     (let st' = st\<lparr>stAcquiredNs := insert slotName (stAcquiredNs st)\<rparr>
                      in case newSlot (getLocalKey slotIdx1) slotIdx1 of
                           Ok s \<Rightarrow> (Ok s, st')
                         | Fail e \<Rightarrow> (Fail (SlotError e), st')
                         | Panic \<Rightarrow> (Panic, st')))))"

definition local_Acquire ::
  "(string \<Rightarrow> int \<Rightarrow> (slot_error, Slot) go) \<Rightarrow> (string \<Rightarrow> 'e stat_result) \<times> nat \<Rightarrow> StorageLocal \<Rightarrow>
   ('e storage_error, Slot) go \<times> StorageLocal" where
  "local_Acquire newSlot x st = localLoop newSlot (fst x) (snd x) 1 st"

definition local_Release :: "Slot \<Rightarrow> StorageLocal \<Rightarrow> ('e storage_error, unit) go \<times> StorageLocal" where
  "local_Release ips st = (Ok (), st\<lparr>stAcquiredNs := stAcquiredNs st - {getSlotName (slIdx ips)}\<rparr>)"

subsection \<open>In Consul\<close>

text \<open>
  The key-value store is a service: its operations are an argument, and the locale \<open>consul_kv\<close> states what its
  documentation says of a check-and-set with index 0 and of a conditional delete.  A call that returns an
  error may have had its effect.
\<close>

record ('kv, 'e) consul_ops =
  cs_CAS :: "'kv \<Rightarrow> string \<Rightarrow> ('e + bool) \<times> 'kv"
  cs_Keys :: "'kv \<Rightarrow> string \<Rightarrow> 'e + string list"
  cs_Get :: "'kv \<Rightarrow> string \<Rightarrow> 'e + int option"
  cs_DeleteCAS :: "'kv \<Rightarrow> string \<Rightarrow> int \<Rightarrow> ('e + bool) \<times> 'kv"

locale consul_kv =
  fixes ops :: "('kv, 'e) consul_ops" and keys :: "'kv \<Rightarrow> string set"
  assumes CAS_True: "cs_CAS ops kv k = (Inr True, kv') \<Longrightarrow> k \<notin> keys kv \<and> keys kv' = insert k (keys kv)"
    and CAS_False: "cs_CAS ops kv k = (Inr False, kv') \<Longrightarrow> keys kv' = keys kv"
    and CAS_error: "cs_CAS ops kv k = (Inl e, kv') \<Longrightarrow> keys kv \<subseteq> keys kv' \<and> keys kv' \<subseteq> insert k (keys kv)"
    and DeleteCAS: "cs_DeleteCAS ops kv k i = (r, kv') \<Longrightarrow> keys kv - {k} \<subseteq> keys kv' \<and> keys kv' \<subseteq> keys kv"

definition getKVKey :: "string \<Rightarrow> int \<Rightarrow> string" where
  "getKVKey nodeID slotIdx = nodeID @ ''/'' @ Itoa slotIdx"

definition trySlot ::
  "(string \<Rightarrow> int \<Rightarrow> (slot_error, Slot) go) \<Rightarrow> ('kv, 'e) consul_ops \<Rightarrow> string \<Rightarrow> int \<Rightarrow> 'kv \<Rightarrow>
   ('e storage_error, Slot option) go \<times> 'kv" where
  "trySlot newSlot ops nodeID slotIdx kv =
     (case cs_CAS ops kv (getKVKey nodeID slotIdx) of
        (Inl e, kv') \<Rightarrow> (Fail (KVWriteFailed e), kv')
      | (Inr status, kv') \<Rightarrow>
          if status
          then (case newSlot (getKVKey nodeID slotIdx) slotIdx of
                  Ok s \<Rightarrow> (Ok (Some s), kv')
                | Fail e \<Rightarrow> (Fail (SlotError e), kv')
                | Panic \<Rightarrow> (Panic, kv'))
          else (Ok None, kv'))"

text \<open>Candidates one after the other until one is taken; the random tries and the fallback both are that.\<close>

fun trySlots ::
  "(string \<Rightarrow> int \<Rightarrow> (slot_error, Slot) go) \<Rightarrow> ('kv, 'e) consul_ops \<Rightarrow> string \<Rightarrow> int list \<Rightarrow> 'kv \<Rightarrow>
   ('e storage_error, Slot option) go \<times> 'kv" where
  "trySlots newSlot ops nodeID [] kv = (Ok None, kv)"
| "trySlots newSlot ops nodeID (i # is) kv =
     (case trySlot newSlot ops nodeID i kv of
        (Ok None, kv') \<Rightarrow> trySlots newSlot ops nodeID is kv'
      | r \<Rightarrow> r)"

text \<open>\<open>draws\<close> are the results of \<^verbatim>\<open>rand.Intn(slotsSize)\<close>, of which the first ten are used.\<close>

definition kv_Acquire ::
  "(string \<Rightarrow> int \<Rightarrow> (slot_error, Slot) go) \<Rightarrow> ('kv, 'e) consul_ops \<Rightarrow> string \<Rightarrow> int \<Rightarrow> int list \<Rightarrow> 'kv \<Rightarrow>
   ('e storage_error, Slot) go \<times> 'kv" where
  "kv_Acquire newSlot ops nodeID slotsSize draws kv =
     (case trySlots newSlot ops nodeID (take 10 draws) kv of
        (Ok (Some s), kv1) \<Rightarrow> (Ok s, kv1)
      | (Fail e, kv1) \<Rightarrow> (Fail e, kv1)
      | (Panic, kv1) \<Rightarrow> (Panic, kv1)
      | (Ok None, kv1) \<Rightarrow>
          (case cs_Keys ops kv1 (nodeID @ ''/'') of
             Inl e \<Rightarrow> (Fail (KVReadFailed e), kv1)
           | Inr reservedKeys \<Rightarrow>
               (case trySlots newSlot ops nodeID
                       (filter (\<lambda>i. getKVKey nodeID i \<notin> set reservedKeys) [0..slotsSize - 1]) kv1 of
                  (Ok (Some s), kv2) \<Rightarrow> (Ok s, kv2)
                | (Fail e, kv2) \<Rightarrow> (Fail e, kv2)
                | (Panic, kv2) \<Rightarrow> (Panic, kv2)
                | (Ok None, kv2) \<Rightarrow> (Fail NoEmptySlots, kv2))))"

definition kv_Release :: "('kv, 'e) consul_ops \<Rightarrow> Slot \<Rightarrow> 'kv \<Rightarrow> ('e storage_error, unit) go \<times> 'kv" where
  "kv_Release ops ips kv =
     (case cs_Get ops kv (slKey ips) of
        Inl e \<Rightarrow> (Fail (KVReadFailed e), kv)
      | Inr None \<Rightarrow> (Fail (AlreadyReleased (slIdx ips)), kv)
      | Inr (Some modifyIndex) \<Rightarrow>
          (case cs_DeleteCAS ops kv (slKey ips) modifyIndex of
             (Inl e, kv') \<Rightarrow> (Fail (KVDeleteFailed e), kv')
           | (Inr status, kv') \<Rightarrow> (if status then Ok () else Fail (AlreadyReallocated (slIdx ips)), kv')))"

subsection \<open>The storages provide the interface\<close>

definition newSlot_law :: "(string \<Rightarrow> int \<Rightarrow> (slot_error, Slot) go) \<Rightarrow> (int \<Rightarrow> string) \<Rightarrow> (Slot \<Rightarrow> bool) \<Rightarrow> bool" where
  "newSlot_law newSlot key good \<longleftrightarrow>
     (\<forall>idx. newSlot (key idx) idx \<noteq> Panic \<and> (\<forall>s. newSlot (key idx) idx = Ok s \<longrightarrow> slIdx s = idx \<and> good s))"

text \<open>One fact about acquiring gives the three laws.\<close>

lemma slot_storageI:
  assumes "\<And>x st r st'. ok st \<Longrightarrow> acquire x st = (r, st') \<Longrightarrow>
      ok st' \<and> r \<noteq> Panic \<and> held st \<subseteq> held st' \<and>
      (\<forall>s. r = Ok s \<longrightarrow> good s \<and> slIdx s \<notin> held st \<and> held st' = insert (slIdx s) (held st))"
    and "\<And>x s st r st'. ok st \<Longrightarrow> good s \<Longrightarrow> release x s st = (r, st') \<Longrightarrow>
      ok st' \<and> held st - {slIdx s} \<subseteq> held st' \<and> held st' \<subseteq> held st \<and> (slIdx s \<in> held st \<longrightarrow> r \<noteq> Panic)"
  shows "slot_storage acquire release held ok good"
  using assms(2) by unfold_locales (blast dest: assms(1) assms(2))+

definition memory_held :: "StorageMemory \<Rightarrow> int set" where
  "memory_held st = {i. 0 \<le> i \<and> i < int (length (smFreeSlots st)) \<and> smFreeSlots st ! nat i}"

definition memory_ok :: "StorageMemory \<Rightarrow> bool" where
  "memory_ok st \<longleftrightarrow> length (smFreeSlots st) = nat (smSlotsSize st)"

lemma memory_held_update:
  assumes "0 \<le> i" "i < int (length (smFreeSlots st))"
  shows "memory_held (st\<lparr>smFreeSlots := (smFreeSlots st)[nat i := b]\<rparr>) =
    (if b then insert i (memory_held st) else memory_held st - {i})"
  using assms by (auto simp: memory_held_def nth_list_update)

lemma memoryLoop_result:
  assumes "newSlot_law newSlot getMemoryKey good" and "memory_ok st" "0 \<le> i" and "memoryLoop newSlot i st = (r, st')"
  shows "memory_ok st' \<and> r \<noteq> Panic \<and> memory_held st \<subseteq> memory_held st' \<and>
    (\<forall>s. r = Ok s \<longrightarrow> good s \<and> slIdx s \<notin> memory_held st \<and> memory_held st' = insert (slIdx s) (memory_held st))"
  using assms
proof (induction newSlot i st rule: memoryLoop.induct)
  case (1 newSlot i st)
  show ?case
  proof (cases "i < smSlotsSize st \<and> \<not> smFreeSlots st ! nat i")
    case True
    then have i: "0 \<le> i" "i < int (length (smFreeSlots st))" "i \<notin> memory_held st"
      using 1(3,4) by (auto simp: memory_ok_def memory_held_def)
    let ?st = "st\<lparr>smFreeSlots := (smFreeSlots st)[nat i := True]\<rparr>"
    have st': "st' = ?st" and "(\<exists>e. r = Fail e) \<or> (\<exists>s. r = Ok s \<and> newSlot (getMemoryKey i) i = Ok s)"
      using 1(2,5) True i by (subst (asm) memoryLoop.simps; auto simp: Let_def newSlot_law_def split: go.splits)+
    then show ?thesis
      using 1(2,3) i memory_held_update[OF i(1,2), of True] by (auto simp: memory_ok_def newSlot_law_def)
  next
    case False
    then show ?thesis
      using 1 by (subst (asm) memoryLoop.simps) (auto simp: memory_ok_def split: if_splits)
  qed
qed

lemma memory_Release_result:
  assumes "memory_ok st" "memory_Release s st = (r, st')"
  shows "memory_ok st' \<and> (memory_held st' = memory_held st \<or> memory_held st' = memory_held st - {slIdx s}) \<and>
    (slIdx s \<in> memory_held st \<longrightarrow> r \<noteq> Panic)"
proof (cases "0 \<le> slIdx s \<and> slIdx s < int (length (smFreeSlots st))")
  case True
  then have "st' = st\<lparr>smFreeSlots := (smFreeSlots st)[nat (slIdx s) := False]\<rparr>"
    using assms(2) by (simp add: memory_Release_def)
  then show ?thesis
    using True assms memory_held_update[of "slIdx s" st False] by (auto simp: memory_ok_def memory_Release_def)
next
  case False
  then show ?thesis using assms by (auto simp: memory_Release_def memory_held_def split: if_splits)
qed

lemma memory_slot_storage:
  assumes "newSlot_law newSlot getMemoryKey good"
  shows "slot_storage (\<lambda>_. memory_Acquire newSlot) (\<lambda>_. memory_Release) memory_held memory_ok good"
proof (rule slot_storageI)
  show "memory_ok st' \<and> r \<noteq> Panic \<and> memory_held st \<subseteq> memory_held st' \<and>
      (\<forall>s. r = Ok s \<longrightarrow> good s \<and> slIdx s \<notin> memory_held st \<and> memory_held st' = insert (slIdx s) (memory_held st))"
    if "memory_ok st" "memory_Acquire newSlot st = (r, st')" for st r st'
    by (rule memoryLoop_result[OF assms that(1) _ that(2)[unfolded memory_Acquire_def]]) simp
  show "memory_ok st' \<and> memory_held st - {slIdx s} \<subseteq> memory_held st' \<and> memory_held st' \<subseteq> memory_held st \<and>
      (slIdx s \<in> memory_held st \<longrightarrow> r \<noteq> Panic)"
    if "memory_ok st" "memory_Release s st = (r, st')" for s st and r :: "('e storage_error, unit) go" and st'
    using memory_Release_result[OF that] by blast
qed

definition local_held :: "StorageLocal \<Rightarrow> int set" where
  "local_held st = {i. getSlotName i \<in> stAcquiredNs st}"

definition local_ok :: "StorageLocal \<Rightarrow> bool" where
  "local_ok st \<longleftrightarrow> finite (stAcquiredNs st)"

lemma getSlotName_inject [simp]: "getSlotName i = getSlotName j \<longleftrightarrow> i = j"
  by (simp add: getSlotName_def Itoa_inject)

lemma getKVKey_inject [simp]: "getKVKey n i = getKVKey n j \<longleftrightarrow> i = j"
  by (simp add: getKVKey_def Itoa_inject)

lemma local_held_insert: "local_held (st\<lparr>stAcquiredNs := insert (getSlotName i) (stAcquiredNs st)\<rparr>) = insert i (local_held st)"
  by (auto simp: local_held_def)

lemma isNamespaceAvailable_Panic [simp]: "isNamespaceAvailable stat n \<noteq> Panic"
  by (simp add: isNamespaceAvailable_def split: stat_result.split)

lemma localLoop_result:
  assumes "newSlot_law newSlot getLocalKey good" "local_ok st" "localLoop newSlot stat ticks i st = (r, st')"
  shows "local_ok st' \<and> r \<noteq> Panic \<and> local_held st \<subseteq> local_held st' \<and>
    (\<forall>s. r = Ok s \<longrightarrow> good s \<and> slIdx s \<notin> local_held st \<and> local_held st' = insert (slIdx s) (local_held st))"
  using assms
proof (induction newSlot stat ticks i st rule: localLoop.induct)
  case (2 newSlot stat ticks i st)
  let ?n = "getSlotName (i + 1)"
  show ?case
  proof (cases "int (card (stAcquiredNs st)) > stSlotsSize st \<or> ?n \<in> stForeignNs st \<or> ?n \<in> stAcquiredNs st \<or>
      isNamespaceAvailable stat ?n \<noteq> Ok True")
    case True
    have "local_held (st\<lparr>stForeignNs := f\<rparr>) = local_held st" "local_ok (st\<lparr>stForeignNs := f\<rparr>) = local_ok st" for f
      by (simp_all add: local_held_def local_ok_def)
    then show ?thesis
      using 2 True by (auto simp: Let_def split: if_splits go.splits)
  next
    case False
    then have "i + 1 \<notin> local_held st" by (simp add: local_held_def)
    moreover have "st' = st\<lparr>stAcquiredNs := insert ?n (stAcquiredNs st)\<rparr>"
      "(\<exists>e. r = Fail e) \<or> (\<exists>s. r = Ok s \<and> newSlot (getLocalKey (i + 1)) (i + 1) = Ok s)"
      using False 2(4,6) by (auto simp: Let_def newSlot_law_def split: go.splits)
    ultimately show ?thesis
      using 2(4,5) by (auto simp: local_held_insert newSlot_law_def) (simp_all add: local_ok_def)
  qed
qed auto

lemma local_slot_storage:
  assumes "newSlot_law newSlot getLocalKey good"
  shows "slot_storage (local_Acquire newSlot) (\<lambda>_. local_Release) local_held local_ok good"
proof (rule slot_storageI)
  show "local_ok st' \<and> r \<noteq> Panic \<and> local_held st \<subseteq> local_held st' \<and>
      (\<forall>s. r = Ok s \<longrightarrow> good s \<and> slIdx s \<notin> local_held st \<and> local_held st' = insert (slIdx s) (local_held st))"
    if "local_ok st" "local_Acquire newSlot x st = (r, st')" for st and x :: "(string \<Rightarrow> 'e stat_result) \<times> nat" and r st'
    by (rule localLoop_result[OF assms that(1) that(2)[unfolded local_Acquire_def]])
qed (auto simp: local_Release_def local_held_def local_ok_def)

definition kv_good :: "string \<Rightarrow> (Slot \<Rightarrow> bool) \<Rightarrow> Slot \<Rightarrow> bool" where
  "kv_good nodeID good s \<longleftrightarrow> good s \<and> slKey s = getKVKey nodeID (slIdx s)"

definition kv_held :: "('kv \<Rightarrow> string set) \<Rightarrow> string \<Rightarrow> 'kv \<Rightarrow> int set" where
  "kv_held keys nodeID kv = {i. getKVKey nodeID i \<in> keys kv}"

context consul_kv
begin

lemma trySlot_result:
  assumes "newSlot_law newSlot (getKVKey nodeID) good" "trySlot newSlot ops nodeID i kv = (r, kv')"
  shows "r \<noteq> Panic \<and> kv_held keys nodeID kv \<subseteq> kv_held keys nodeID kv' \<and> (r = Ok None \<longrightarrow> kv_held keys nodeID kv' = kv_held keys nodeID kv) \<and>
    (\<forall>s. r = Ok (Some s) \<longrightarrow> good s \<and> slIdx s \<notin> kv_held keys nodeID kv \<and>
       kv_held keys nodeID kv' = insert (slIdx s) (kv_held keys nodeID kv))"
proof -
  obtain c kv1 where cas: "cs_CAS ops kv (getKVKey nodeID i) = (c, kv1)" by fastforce
  then have [simp]: "kv' = kv1"
    using assms(2) by (auto simp: trySlot_def split: sum.splits if_splits go.splits)
  show ?thesis
  proof (cases c)
    case (Inl e)
    then show ?thesis
      using assms(2) cas CAS_error[of kv "getKVKey nodeID i" e kv1] by (auto simp: trySlot_def kv_held_def)
  next
    case (Inr status)
    then show ?thesis
      using assms cas CAS_True[of kv "getKVKey nodeID i" kv1] CAS_False[of kv "getKVKey nodeID i" kv1]
      by (cases status) (auto simp: trySlot_def kv_held_def newSlot_law_def split: go.splits)
  qed
qed

lemma trySlots_result:
  assumes "newSlot_law newSlot (getKVKey nodeID) good" "trySlots newSlot ops nodeID is kv = (r, kv')"
  shows "r \<noteq> Panic \<and> kv_held keys nodeID kv \<subseteq> kv_held keys nodeID kv' \<and> (r = Ok None \<longrightarrow> kv_held keys nodeID kv' = kv_held keys nodeID kv) \<and>
    (\<forall>s. r = Ok (Some s) \<longrightarrow> good s \<and> slIdx s \<notin> kv_held keys nodeID kv \<and>
       kv_held keys nodeID kv' = insert (slIdx s) (kv_held keys nodeID kv))"
  using assms(2)
proof (induction "is" arbitrary: kv)
  case (Cons i "is")
  obtain r1 kv1 where t: "trySlot newSlot ops nodeID i kv = (r1, kv1)" by fastforce
  show ?case
  proof (cases "r1 = Ok None")
    case True
    then show ?thesis
      using Cons.IH[of kv1] Cons.prems trySlot_result[OF assms(1) t] by (simp add: t)
  next
    case False
    then have "r = r1 \<and> kv' = kv1"
      using Cons.prems by (auto simp: t split: go.splits option.splits)
    then show ?thesis
      using trySlot_result[OF assms(1) t] by blast
  qed
qed auto

lemma kv_slot_storage:
  assumes law: "newSlot_law newSlot (getKVKey nodeID) (kv_good nodeID good)"
  shows "slot_storage (kv_Acquire newSlot ops nodeID slotsSize) (\<lambda>_. kv_Release ops) (kv_held keys nodeID) (\<lambda>_. True)
    (kv_good nodeID good)"
proof (rule slot_storageI)
  fix draws kv r kv'
  assume acq: "kv_Acquire newSlot ops nodeID slotsSize draws kv = (r, kv')"
  obtain r1 kv1 where t1: "trySlots newSlot ops nodeID (take 10 draws) kv = (r1, kv1)" by fastforce
  note res = trySlots_result[OF law]
  show "True \<and> r \<noteq> Panic \<and> kv_held keys nodeID kv \<subseteq> kv_held keys nodeID kv' \<and>
      (\<forall>s. r = Ok s \<longrightarrow> kv_good nodeID good s \<and> slIdx s \<notin> kv_held keys nodeID kv \<and>
         kv_held keys nodeID kv' = insert (slIdx s) (kv_held keys nodeID kv))"
    using acq res[OF t1]
    by (auto simp: kv_Acquire_def t1 split: go.splits option.splits sum.splits prod.splits dest!: res)
next
  fix draws s kv and r :: "('e storage_error, unit) go" and kv'
  assume "kv_good nodeID good s" "kv_Release ops s kv = (r, kv')"
  then have "kv_held keys nodeID kv - {slIdx s} \<subseteq> kv_held keys nodeID kv' \<and> kv_held keys nodeID kv' \<subseteq> kv_held keys nodeID kv"
    "r \<noteq> Panic"
    using DeleteCAS[of kv "slKey s"]
    by (fastforce simp: kv_Release_def kv_held_def kv_good_def split: sum.splits option.splits prod.splits,
        auto simp: kv_Release_def split: sum.splits option.splits prod.splits if_splits)
  then show "True \<and> kv_held keys nodeID kv - {slIdx s} \<subseteq> kv_held keys nodeID kv' \<and> kv_held keys nodeID kv' \<subseteq> kv_held keys nodeID kv \<and>
      (slIdx s \<in> kv_held keys nodeID kv \<longrightarrow> r \<noteq> Panic)"
    by simp
qed

end

subsection \<open>Instances\<close>

lemma NewSlot_fields:
  assumes "NewSlot getIndexedIP vars key idx config = Ok s"
  shows "slIdx s = idx" "slKey s = key" "1 \<le> idx" "idx \<le> vrtSlotsSize vars"
  using assms by (auto simp: NewSlot_def Let_def split: if_splits option.splits)

lemma NewSlot_Panic [simp]: "NewSlot getIndexedIP vars key idx config \<noteq> Panic"
  by (simp add: NewSlot_def Let_def split: option.split)

definition planned :: "network_vars \<Rightarrow> (int \<Rightarrow> string) \<Rightarrow> Slot \<Rightarrow> bool" where
  "planned vars key s \<longleftrightarrow> slot_plan vars s \<and> slKey s = key (slIdx s)"

context indexed_ip
begin

lemma NewSlot_law:
  assumes "plan_ok vars h hones v vones"
  shows "newSlot_law (\<lambda>key idx. NewSlot getIndexedIP vars key idx config) key (planned vars key)"
  unfolding newSlot_law_def planned_def
proof (intro allI conjI impI)
  fix idx s
  assume s: "NewSlot getIndexedIP vars (key idx) idx config = Ok s"
  show "slIdx s = idx" "slKey s = key (slIdx s)" using NewSlot_fields[OF s] by simp_all
  show "slot_plan vars s"
    using NewSlot_plan[OF assms NewSlot_fields(3,4)[OF s], of "key idx" config] s by auto
qed simp

end

definition default_newSlot :: "Config \<Rightarrow> string \<Rightarrow> int \<Rightarrow> (slot_error, Slot) go" where
  "default_newSlot config key idx = NewSlot indexedIP default_vars key idx config"

lemma default_newSlot_law: "newSlot_law (default_newSlot config) key (planned default_vars key)"
  using indexedIP.NewSlot_law[OF default_plan_ok, of config key] by (simp add: default_newSlot_def[abs_def])

interpretation memory_slots: slot_storage "\<lambda>_. memory_Acquire (default_newSlot config)" "\<lambda>_. memory_Release"
    memory_held memory_ok "planned default_vars getMemoryKey" for config
  by (rule memory_slot_storage) (rule default_newSlot_law)

interpretation local_slots: slot_storage "local_Acquire (default_newSlot config)" "\<lambda>_. local_Release"
    local_held local_ok "planned default_vars getLocalKey" for config
  by (rule local_slot_storage) (rule default_newSlot_law)

text \<open>A key-value store in a list, without failures; the index of a key is its position in time.\<close>

definition list_consul :: "((string \<times> int) list, 'e) consul_ops" where
  "list_consul =
     \<lparr>cs_CAS = (\<lambda>kv k. if k \<in> fst ` set kv then (Inr False, kv) else (Inr True, (k, int (length kv) + 1) # kv)),
      cs_Keys = (\<lambda>kv p. Inr (filter (\<lambda>k. take (length p) k = p) (map fst kv))),
      cs_Get = (\<lambda>kv k. Inr (map_of kv k)),
      cs_DeleteCAS = (\<lambda>kv k i. if map_of kv k = Some i then (Inr True, filter (\<lambda>(k', _). k' \<noteq> k) kv) else (Inr False, kv))\<rparr>"

interpretation list_consul: consul_kv list_consul "\<lambda>kv. fst ` set kv"
  by unfold_locales (auto simp: list_consul_def split: if_splits)

interpretation kv_slots: slot_storage "kv_Acquire (default_newSlot config) list_consul nodeID slotsSize"
    "\<lambda>_. kv_Release list_consul" "kv_held (\<lambda>kv. fst ` set kv) nodeID" "\<lambda>_. True"
    "kv_good nodeID (planned default_vars (getKVKey nodeID))" for config nodeID slotsSize
proof (rule list_consul.kv_slot_storage)
  show "newSlot_law (default_newSlot config) (getKVKey nodeID) (kv_good nodeID (planned default_vars (getKVKey nodeID)))"
    using default_newSlot_law[of config "getKVKey nodeID"] by (auto simp: newSlot_law_def kv_good_def planned_def)
qed

text \<open>
  The key-value storage draws the index 0, which no slot has: the key is taken for good, and the call fails.
\<close>

lemma kv_Acquire_zero:
  assumes "getKVKey nodeID 0 \<notin> fst ` set kv"
  shows "\<exists>kv'. kv_Acquire (default_newSlot config) list_consul nodeID slotsSize (0 # draws) kv =
      (Fail (SlotError (SlotIndexOutOfRange 0 32766)), kv') \<and> getKVKey nodeID 0 \<in> fst ` set kv'"
  using assms
  by (simp add: kv_Acquire_def trySlot_def list_consul_def default_newSlot_def NewSlot_def default_vars_def)

end
