(* ===== verification/Network_Setup.thy ===== *)
theory Network_Setup
  imports Network_Slot "HOL-Library.Multiset"
begin

text \<open>
  Building and removing the network of a slot, \<^verbatim>\<open>packages/orchestrator/pkg/sandbox/network/network.go\<close>.

  Both functions are sequences of calls into the kernel.  A call is a value of \<open>net_cmd\<close>; which calls fail
  is an argument, \<open>answer\<close>, of the position and the call.  The result holds the calls that were made
  successfully, in their order.
\<close>

datatype netns = HostNs | SlotNs string

datatype net_cmd =
    GetNs
  | NewNamed string
  | SetNs netns
  | DeleteNamed string
  | LinkAddVeth string string
  | LinkAddTap string
  | LinkByName string
  | LinkSetUp string
  | LinkSetNsHost string
  | LinkDel string
  | AddrAdd string ip "nat \<times> nat"
  | RouteAddDefault ip
  | RouteAdd ip ipnet
  | RouteDel ip ipnet
  | IptablesNew
  | Append string string "string list"
  | Delete string string "string list"
  | OnSlotCreate
  | OnSlotDelete
  | NewFirewallCall
  | FirewallClose

definition loopbackInterface :: string where "loopbackInterface = ''lo''"

subsection \<open>The rules\<close>

text \<open>The rules of the host that a slot needs: chain, table and arguments, as they are appended and deleted.\<close>

definition forwardOut :: "string \<Rightarrow> Slot \<Rightarrow> string \<times> string \<times> string list" where
  "forwardOut gw s = (''filter'', ''FORWARD'', [''-i'', VethName s, ''-o'', gw, ''-j'', ''ACCEPT''])"

definition forwardIn :: "string \<Rightarrow> Slot \<Rightarrow> string \<times> string \<times> string list" where
  "forwardIn gw s = (''filter'', ''FORWARD'', [''-i'', gw, ''-o'', VethName s, ''-j'', ''ACCEPT''])"

definition masquerade :: "string \<Rightarrow> Slot \<Rightarrow> string \<times> string \<times> string list" where
  "masquerade gw s = (''nat'', ''POSTROUTING'', [''-s'', slHostCIDR s, ''-o'', gw, ''-j'', ''MASQUERADE''])"

definition hyperloopRule :: "Slot \<Rightarrow> string \<times> string \<times> string list" where
  "hyperloopRule s =
     (''nat'', ''PREROUTING'',
      [''-i'', VethName s, ''-p'', ''tcp'', ''-d'', OrchestratorInSandboxIPAddress (slConfig s), ''--dport'', ''80'',
       ''-j'', ''REDIRECT'', ''--to-port'', slHyperloopPort s])"

definition redirectRule :: "string \<Rightarrow> int \<Rightarrow> Slot \<Rightarrow> string \<times> string \<times> string list" where
  "redirectRule dport port s =
     (''nat'', ''PREROUTING'',
      [''--in-interface'', VethName s, ''--protocol'', ''tcp'', ''--destination'',
       OrchestratorInSandboxIPAddress (slConfig s), ''--dport'', dport, ''--jump'', ''REDIRECT'', ''--to-port'', Itoa port])"

definition portmapperRule :: "Slot \<Rightarrow> string \<times> string \<times> string list" where
  "portmapperRule s = redirectRule ''111'' (PortmapperPort (slConfig s)) s"

definition nfsRule :: "Slot \<Rightarrow> string \<times> string \<times> string list" where
  "nfsRule s = redirectRule ''2049'' (NFSProxyPort (slConfig s)) s"

definition append_rule :: "string \<times> string \<times> string list \<Rightarrow> net_cmd" where
  "append_rule r = (case r of (t, c, a) \<Rightarrow> Append t c a)"

definition delete_rule :: "string \<times> string \<times> string list \<Rightarrow> net_cmd" where
  "delete_rule r = (case r of (t, c, a) \<Rightarrow> Delete t c a)"

subsection \<open>CreateNetwork\<close>

text \<open>The calls before and after the firewall is initialised.\<close>

definition createBefore :: "Slot \<Rightarrow> net_cmd list" where
  "createBefore s =
     [GetNs, NewNamed (NamespaceID s), LinkAddVeth (VethName s) (VpeerName s), LinkByName (VpeerName s),
      LinkSetUp (VpeerName s), AddrAdd (VpeerName s) (slVPeerIp s) (slVrtMask s), LinkSetNsHost (VethName s),
      SetNs HostNs, LinkByName (VethName s), LinkSetUp (VethName s), AddrAdd (VethName s) (slVEthIp s) (slVrtMask s),
      SetNs (SlotNs (NamespaceID s)), LinkAddTap (TapName s), LinkSetUp (TapName s),
      AddrAdd (TapName s) (slTapIp s) (slTapMask s), LinkByName loopbackInterface, LinkSetUp loopbackInterface,
      RouteAddDefault (slVEthIp s), IptablesNew,
      Append ''nat'' ''POSTROUTING'' [''-o'', VpeerName s, ''-s'', NamespaceIP s, ''-j'', ''SNAT'', ''--to'', HostIPString s],
      Append ''nat'' ''PREROUTING'' [''-i'', VpeerName s, ''-d'', HostIPString s, ''-j'', ''DNAT'', ''--to'', NamespaceIP s]]"

definition createAfter :: "string \<Rightarrow> Slot \<Rightarrow> net_cmd list" where
  "createAfter gw s =
     [SetNs HostNs, RouteAdd (slVPeerIp s) (slHostNet s), append_rule (forwardOut gw s), append_rule (forwardIn gw s),
      append_rule (masquerade gw s), append_rule (hyperloopRule s), append_rule (portmapperRule s),
      append_rule (nfsRule s), OnSlotCreate]"

text \<open>Calls one after the other, up to the first that fails.\<close>

fun runCmds :: "(nat \<Rightarrow> net_cmd \<Rightarrow> 'e option) \<Rightarrow> nat \<Rightarrow> net_cmd list \<Rightarrow> net_cmd list \<times> (net_cmd \<times> 'e) option" where
  "runCmds answer k [] = ([], None)"
| "runCmds answer k (c # cs) =
     (case answer k c of
        Some e \<Rightarrow> ([], Some (c, e))
      | None \<Rightarrow> (let (made, err) = runCmds answer (Suc k) cs in (c # made, err)))"

datatype 'e create_error = CreateFailed net_cmd 'e | CreateFirewallFailed "'e internet_error"

text \<open>The thread goes back to the name space of the host whatever happens, once that is known.\<close>

definition restoreNs :: "net_cmd list \<Rightarrow> net_cmd list" where
  "restoreNs made = (if GetNs \<in> set made then made @ [SetNs HostNs] else made)"

definition CreateNetwork ::
  "string \<Rightarrow> (nat \<Rightarrow> net_cmd \<Rightarrow> 'e option) \<Rightarrow> Slot \<Rightarrow> 'e create_error option \<times> net_cmd list \<times> Slot" where
  "CreateNetwork gw answer s =
     (case runCmds answer 0 (createBefore s) of
        (made, Some (c, e)) \<Rightarrow> (Some (CreateFailed c e), restoreNs made, s)
      | (made, None) \<Rightarrow>
          (let k = length made
           in (case InitializeFirewall (answer k NewFirewallCall) s of
                 (Some e, s1) \<Rightarrow> (Some (CreateFirewallFailed e), restoreNs made, s1)
               | (None, s1) \<Rightarrow>
                   (case runCmds answer (Suc k) (createAfter gw s1) of
                      (made2, err) \<Rightarrow>
                        (map_option (\<lambda>(c, e). CreateFailed c e) err,
                         restoreNs (made @ NewFirewallCall # made2), s1)))))"

subsection \<open>RemoveNetwork\<close>

text \<open>Calls that are all made, with the errors of those that fail.\<close>

fun tryCmds :: "(nat \<Rightarrow> net_cmd \<Rightarrow> 'e option) \<Rightarrow> nat \<Rightarrow> net_cmd list \<Rightarrow> net_cmd list \<times> (net_cmd \<times> 'e) list" where
  "tryCmds answer k [] = ([], [])"
| "tryCmds answer k (c # cs) =
     (let (made, errs) = tryCmds answer (Suc k) cs
      in (case answer k c of
            Some e \<Rightarrow> (made, (c, e) # errs)
          | None \<Rightarrow> (c # made, errs)))"

definition removeRules :: "string \<Rightarrow> Slot \<Rightarrow> net_cmd list" where
  "removeRules gw s =
     [delete_rule (forwardOut gw s), delete_rule (forwardIn gw s), delete_rule (masquerade gw s),
      delete_rule (hyperloopRule s), OnSlotDelete]"

definition removeLate :: "Slot \<Rightarrow> net_cmd list" where
  "removeLate s = [delete_rule (nfsRule s), delete_rule (portmapperRule s), DeleteNamed (NamespaceID s)]"

text \<open>
  The tables are nil when they could not be opened, and the last rules are deleted through them all the
  same: a panic.  The calls made before it have happened.
\<close>

definition RemoveNetwork ::
  "string \<Rightarrow> (nat \<Rightarrow> net_cmd \<Rightarrow> 'e option) \<Rightarrow> Slot \<Rightarrow>
   ('e create_error, (net_cmd \<times> 'e) list) go \<times> net_cmd list \<times> Slot" where
  "RemoveNetwork gw answer s =
     (let close = (if slFirewall s then answer 0 FirewallClose else None);
          (cerr, s1) = CloseFirewall close s;
          made0 = (if slFirewall s \<and> cerr = None then [FirewallClose] else []);
          errs0 = (case close of None \<Rightarrow> [] | Some e \<Rightarrow> [(FirewallClose, e)]);
          tables = answer 1 IptablesNew;
          (made1, errs1) = (case tables of
              Some e \<Rightarrow> ([], [(IptablesNew, e)])
            | None \<Rightarrow> (let (m, es) = tryCmds answer 2 (removeRules gw s) in (IptablesNew # m, es)));
          (made2, errs2) = tryCmds answer 7 [RouteDel (slVPeerIp s) (slHostNet s)];
          (made3, errs3) = (case runCmds answer 8 [LinkByName (VethName s), LinkDel (VethName s)] of
              (m, None) \<Rightarrow> (m, []) | (m, Some ce) \<Rightarrow> (m, [ce]));
          made = made0 @ made1 @ made2 @ made3
      in if tables \<noteq> None then (Panic, made, s1)
         else
           (let (made4, errs4) = tryCmds answer 10 (removeLate s)
            in (Ok (errs0 @ errs1 @ errs2 @ errs3 @ errs4), made @ made4, s1)))"

subsection \<open>What is left on the host\<close>

text \<open>
  The resources of the host: the name space, the link, the route, the rules and what the egress proxy set
  up.  Links, addresses, routes and rules inside the name space go with it.  \<open>host\<close> says in which name space
  the thread is; \<^verbatim>\<open>NewNamed\<close> enters the new one.
\<close>

datatype host_resource =
    NamespaceR string
  | LinkR string
  | RouteR ip ipnet
  | RuleR string string "string list"
  | EgressR
  | FirewallR

fun acquired :: "bool \<Rightarrow> net_cmd list \<Rightarrow> host_resource list" where
  "acquired host [] = []"
| "acquired host (NewNamed n # cs) = NamespaceR n # acquired False cs"
| "acquired host (SetNs ns # cs) = acquired (ns = HostNs) cs"
| "acquired host (LinkSetNsHost l # cs) = LinkR l # acquired host cs"
| "acquired host (RouteAdd gw dst # cs) = (if host then [RouteR gw dst] else []) @ acquired host cs"
| "acquired host (Append t c a # cs) = (if host then [RuleR t c a] else []) @ acquired host cs"
| "acquired host (OnSlotCreate # cs) = EgressR # acquired host cs"
| "acquired host (NewFirewallCall # cs) = FirewallR # acquired host cs"
| "acquired host (c # cs) = acquired host cs"

fun released :: "net_cmd \<Rightarrow> host_resource list" where
  "released (DeleteNamed n) = [NamespaceR n]"
| "released (LinkDel l) = [LinkR l]"
| "released (RouteDel gw dst) = [RouteR gw dst]"
| "released (Delete t c a) = [RuleR t c a]"
| "released OnSlotDelete = [EgressR]"
| "released FirewallClose = [FirewallR]"
| "released c = []"

lemma runCmds_ok: "runCmds answer k cs = (made, None) \<Longrightarrow> made = cs"
  by (induction answer k cs arbitrary: made rule: runCmds.induct) (auto split: option.splits prod.splits)

lemma tryCmds_quiet: "(\<And>k c. answer k c = None) \<Longrightarrow> tryCmds answer k cs = (cs, [])"
  by (induction cs arbitrary: k) simp_all

lemma runCmds_quiet: "(\<And>k c. answer k c = None) \<Longrightarrow> runCmds answer k cs = (cs, None)"
  by (induction cs arbitrary: k) simp_all

lemmas rule_defs = append_rule_def delete_rule_def forwardOut_def forwardIn_def masquerade_def hyperloopRule_def
  portmapperRule_def nfsRule_def redirectRule_def

text \<open>The resources of a slot's network.\<close>

definition network_resources :: "string \<Rightarrow> Slot \<Rightarrow> host_resource list" where
  "network_resources gw s =
     [NamespaceR (NamespaceID s), LinkR (VethName s), RouteR (slVPeerIp s) (slHostNet s), FirewallR, EgressR] @
     map (\<lambda>(t, c, a). RuleR t c a) [forwardOut gw s, forwardIn gw s, masquerade gw s, hyperloopRule s, portmapperRule s, nfsRule s]"

lemma CreateNetwork_ok:
  assumes "CreateNetwork gw answer s = (None, made, s')"
  shows "s' = s\<lparr>slFirewall := True\<rparr>" "mset (acquired True made) = mset (network_resources gw s)"
proof -
  have fw: "InitializeFirewall x s = (None, s1) \<Longrightarrow> s1 = s\<lparr>slFirewall := True\<rparr>" for x :: "'a option" and s1
    by (auto simp: InitializeFirewall_def split: if_splits option.splits)
  have n: "createAfter gw (s\<lparr>slFirewall := True\<rparr>) = createAfter gw s"
    by (simp add: createAfter_def rule_defs VethName_def)
  have m: "made = restoreNs (createBefore s @ NewFirewallCall # createAfter gw s)" and s: "s' = s\<lparr>slFirewall := True\<rparr>"
    using assms by (auto simp: CreateNetwork_def Let_def n split: prod.splits option.splits dest!: runCmds_ok fw)
  show "s' = s\<lparr>slFirewall := True\<rparr>" by (fact s)
  show "mset (acquired True made) = mset (network_resources gw s)"
    by (simp add: m restoreNs_def createBefore_def createAfter_def network_resources_def rule_defs)
qed

lemma RemoveNetwork_quiet:
  assumes "\<And>k c. answer k c = (None :: 'e option)" "slFirewall s"
  shows "\<exists>made. RemoveNetwork gw answer s = (Ok [], made, s\<lparr>slFirewall := False\<rparr>) \<and>
    mset (concat (map released made)) = mset (network_resources gw s)"
  using assms(2)
  by (simp add: RemoveNetwork_def Let_def CloseFirewall_def tryCmds_quiet[of answer, OF assms(1)] runCmds_quiet[of answer, OF assms(1)]
      assms(1) removeRules_def removeLate_def network_resources_def rule_defs)

text \<open>
  When the tables cannot be opened the removal panics, with the name space and the rules still there.
\<close>

lemma RemoveNetwork_without_tables:
  assumes "answer 1 IptablesNew = Some e"
  shows "\<exists>made s'. RemoveNetwork gw answer s = (Panic, made, s') \<and>
    NamespaceR n \<notin> set (concat (map released made)) \<and> RuleR t c a \<notin> set (concat (map released made))"
  using assms
  by (auto simp: RemoveNetwork_def Let_def split: prod.splits option.splits if_splits)

text \<open>A creation that fails after the first step leaves the name space behind.\<close>

lemma runCmds_prefix: "runCmds answer k cs = (made, Some (c, e)) \<Longrightarrow> \<exists>rest. cs = made @ c # rest"
proof (induction answer k cs arbitrary: made rule: runCmds.induct)
  case (2 answer k c' cs)
  then show ?case by (cases "answer k c'") (force split: prod.splits)+
qed simp

lemma acquired_namespace: "NewNamed n \<in> set cs \<Longrightarrow> NamespaceR n \<in> set (acquired host cs)"
  by (induction host cs rule: acquired.induct) auto

end
