(* ===== verification/Network_Pool.thy ===== *)
theory Network_Pool
  imports Network_Storage Network_Setup
begin

text \<open>
  The pool of network slots, \<^verbatim>\<open>packages/orchestrator/pkg/sandbox/network/pool.go\<close>.

  The goroutines that run the pool's methods share its channels, its \<^verbatim>\<open>done\<close> channel and the slot storage.
  A goroutine is a value of \<open>routine\<close>, which holds the point it has reached and the slot it owns; the four
  methods are step relations on the shared state and one goroutine, and \<open>pool_step\<close> interleaves them.  A call
  that only touches a slot the goroutine owns is part of the step before it.  A \<^verbatim>\<open>select\<close> is a choice among
  its ready cases, and a context may be cancelled at any time unless it was made with \<^verbatim>\<open>WithoutCancel\<close>.
\<close>

subsection \<open>State\<close>

record ('a, 'st, 'e) pool_env =
  peAcquire :: "'a \<Rightarrow> 'st \<Rightarrow> ('e storage_error, Slot) go \<times> 'st"
  peRelease :: "'a \<Rightarrow> Slot \<Rightarrow> 'st \<Rightarrow> ('e storage_error, unit) go \<times> 'st"
  peGateway :: string
  peNewSlotsPoolSize :: int
  peReusedSlotsPoolSize :: int

record 'st Pool =
  plDone :: bool
  plNewSlots :: "Slot list"
  plNewClosed :: bool
  plReusedSlots :: "Slot list"
  plReusedClosed :: bool
  plStorage :: 'st

text \<open>\<^verbatim>\<open>make\<close> panics on a negative size.\<close>

definition NewPool :: "('a, 'st, 'e) pool_env \<Rightarrow> 'st \<Rightarrow> (unit, 'st Pool) go" where
  "NewPool env slotStorage =
     (if peNewSlotsPoolSize env - 1 < 0 \<or> peReusedSlotsPoolSize env < 0 then Panic
      else Ok \<lparr>plDone = False, plNewSlots = [], plNewClosed = False, plReusedSlots = [], plReusedClosed = False,
               plStorage = slotStorage\<rparr>)"

datatype 'e cleanup_error =
    CannotRemoveNetwork int "(net_cmd \<times> 'e) list"
  | FailedToRelease int "'e storage_error"

datatype 'e pool_result =
    PoolErrClosed
  | PoolCtxErr
  | ConfigureError "'e internet_error"
  | ResetError "'e internet_error" "'e cleanup_error list"
  | Returned "'e cleanup_error list"
  | Closed "'e cleanup_error list"
  | Populated

text \<open>What follows a cleanup: the end of \<^verbatim>\<open>Return\<close>, or the next round of one of the loops of \<^verbatim>\<open>Close\<close>.\<close>

datatype 'e after_cleanup =
    AfterReset "'e internet_error"
  | AfterFull
  | AfterNew "'e cleanup_error list"
  | AfterReused "'e cleanup_error list"

datatype 'e routine =
    GetStart "EgressMessage option"
  | GetWait "EgressMessage option"
  | InUse Slot
  | ReturnStart bool Slot
  | ReturnSend bool Slot
  | Cleaning Slot "'e after_cleanup"
  | PopulateLoop
  | PopulateCreate Slot
  | PopulateSend Slot
  | CloseStart
  | CloseNew "'e cleanup_error list"
  | CloseReused "'e cleanup_error list"
  | Ended "'e pool_result"

text \<open>The panics that the code can run into.\<close>

datatype pool_panic =
    NilSlot
  | NilFirewall
  | NilTables
  | SendOnClosed
  | CloseOfClosed
  | StoragePanic

type_synonym 'e outcome = "pool_panic + 'e routine \<times> 'e routine list"

subsection \<open>Methods\<close>

definition cleanup ::
  "('a, 'st, 'e) pool_env \<Rightarrow> 'a \<Rightarrow> (nat \<Rightarrow> net_cmd \<Rightarrow> 'e option) \<Rightarrow> Slot \<Rightarrow> 'st \<Rightarrow>
   (pool_panic + 'e cleanup_error list) \<times> 'st" where
  "cleanup env x answer slot st =
     (case RemoveNetwork (peGateway env) answer slot of
        (Ok errs, made, slot1) \<Rightarrow>
          (let errs1 = (if errs = [] then [] else [CannotRemoveNetwork (slIdx slot) errs])
           in case peRelease env x slot1 st of
                (Ok _, st1) \<Rightarrow> (Inr errs1, st1)
              | (Fail e, st1) \<Rightarrow> (Inr (errs1 @ [FailedToRelease (slIdx slot) e]), st1)
              | (Panic, st1) \<Rightarrow> (Inl StoragePanic, st1))
      | _ \<Rightarrow> (Inl NilTables, st))"

fun resume_after :: "'e after_cleanup \<Rightarrow> 'e cleanup_error list \<Rightarrow> 'e routine" where
  "resume_after (AfterReset e) errs = Ended (ResetError e errs)"
| "resume_after AfterFull errs = Ended (Returned errs)"
| "resume_after (AfterNew before) errs = CloseNew (before @ errs)"
| "resume_after (AfterReused before) errs = CloseReused (before @ errs)"

inductive cleanup_step ::
  "('a, 'st, 'e) pool_env \<Rightarrow> 'st Pool \<Rightarrow> 'e routine \<Rightarrow> 'st Pool \<Rightarrow> 'e outcome \<Rightarrow> bool" for env where
  cleaned: "cleanup env x answer slot (plStorage p) = (Inr errs, st) \<Longrightarrow>
    cleanup_step env p (Cleaning slot k) (p\<lparr>plStorage := st\<rparr>) (Inr (resume_after k errs, []))"
| clean_panic: "cleanup env x answer slot (plStorage p) = (Inl c, st) \<Longrightarrow>
    cleanup_step env p (Cleaning slot k) (p\<lparr>plStorage := st\<rparr>) (Inl c)"

text \<open>\<^verbatim>\<open>createNetworkSlot\<close> acquires an index, builds its network and gives the index back when that fails.\<close>

inductive populate_step ::
  "('a, 'st, 'e) pool_env \<Rightarrow> 'st Pool \<Rightarrow> 'e routine \<Rightarrow> 'st Pool \<Rightarrow> 'e outcome \<Rightarrow> bool" for env where
  populate_end: "\<not> plNewClosed p \<Longrightarrow>
    populate_step env p PopulateLoop (p\<lparr>plNewClosed := True\<rparr>) (Inr (Ended Populated, []))"
| populate_end_twice: "plNewClosed p \<Longrightarrow> populate_step env p PopulateLoop p (Inl CloseOfClosed)"
| populate_acquired: "\<not> plDone p \<Longrightarrow> peAcquire env x (plStorage p) = (Ok slot, st) \<Longrightarrow>
    populate_step env p PopulateLoop (p\<lparr>plStorage := st\<rparr>) (Inr (PopulateCreate slot, []))"
| populate_not_acquired: "\<not> plDone p \<Longrightarrow> peAcquire env x (plStorage p) = (Fail e, st) \<Longrightarrow>
    populate_step env p PopulateLoop (p\<lparr>plStorage := st\<rparr>) (Inr (PopulateLoop, []))"
| populate_acquire_panic: "\<not> plDone p \<Longrightarrow> peAcquire env x (plStorage p) = (Panic, st) \<Longrightarrow>
    populate_step env p PopulateLoop (p\<lparr>plStorage := st\<rparr>) (Inl StoragePanic)"
| populate_created: "CreateNetwork (peGateway env) (answer :: nat \<Rightarrow> net_cmd \<Rightarrow> 'e option) slot = (None, made, slot1) \<Longrightarrow>
    populate_step env p (PopulateCreate slot) p (Inr (PopulateSend slot1, []))"
| populate_not_created: "CreateNetwork (peGateway env) (answer :: nat \<Rightarrow> net_cmd \<Rightarrow> 'e option) slot = (Some e, made, slot1) \<Longrightarrow>
    peRelease env x slot1 (plStorage p) = (r, st) \<Longrightarrow> r \<noteq> Panic \<Longrightarrow>
    populate_step env p (PopulateCreate slot) (p\<lparr>plStorage := st\<rparr>) (Inr (PopulateLoop, []))"
| populate_release_panic: "CreateNetwork (peGateway env) (answer :: nat \<Rightarrow> net_cmd \<Rightarrow> 'e option) slot = (Some e, made, slot1) \<Longrightarrow>
    peRelease env x slot1 (plStorage p) = (Panic, st) \<Longrightarrow>
    populate_step env p (PopulateCreate slot) (p\<lparr>plStorage := st\<rparr>) (Inl StoragePanic)"
| populate_send: "\<not> plNewClosed p \<Longrightarrow> int (length (plNewSlots p)) < peNewSlotsPoolSize env - 1 \<Longrightarrow>
    populate_step env p (PopulateSend slot) (p\<lparr>plNewSlots := plNewSlots p @ [slot]\<rparr>) (Inr (PopulateLoop, []))"
| populate_send_closed: "plNewClosed p \<Longrightarrow> populate_step env p (PopulateSend slot) p (Inl SendOnClosed)"

text \<open>The end of \<^verbatim>\<open>Get\<close>, once it has a slot.\<close>

definition configured :: "('e + 'e) option \<Rightarrow> EgressMessage option \<Rightarrow> Slot \<Rightarrow> 'e outcome" where
  "configured answer network slot =
     (case ConfigureInternet answer network slot of
        (Ok _, slot1) \<Rightarrow> Inr (InUse slot1, [])
      | (Fail e, slot1) \<Rightarrow> Inr (Ended (ConfigureError e), [ReturnStart False slot1])
      | (Panic, slot1) \<Rightarrow> Inl NilFirewall)"

text \<open>A receive from a closed and empty channel gives nil, whose name space cannot be named.\<close>

inductive get_step ::
  "('a, 'st, 'e) pool_env \<Rightarrow> 'st Pool \<Rightarrow> 'e routine \<Rightarrow> 'st Pool \<Rightarrow> 'e outcome \<Rightarrow> bool" for env where
  get_closed: "plDone p \<Longrightarrow> get_step env p (GetStart network) p (Inr (Ended PoolErrClosed, []))"
| get_reused: "plReusedSlots p = slot # slots \<Longrightarrow>
    get_step env p (GetStart network) (p\<lparr>plReusedSlots := slots\<rparr>) (configured answer network slot)"
| get_reused_nil: "plReusedSlots p = [] \<Longrightarrow> plReusedClosed p \<Longrightarrow> get_step env p (GetStart network) p (Inl NilSlot)"
| get_default: "\<not> plDone p \<Longrightarrow> plReusedSlots p = [] \<Longrightarrow> \<not> plReusedClosed p \<Longrightarrow>
    get_step env p (GetStart network) p (Inr (GetWait network, []))"
| get_wait_closed: "plDone p \<Longrightarrow> get_step env p (GetWait network) p (Inr (Ended PoolErrClosed, []))"
| get_wait_ctx: "get_step env p (GetWait network) p (Inr (Ended PoolCtxErr, []))"
| get_new: "plNewSlots p = slot # slots \<Longrightarrow>
    get_step env p (GetWait network) (p\<lparr>plNewSlots := slots\<rparr>) (configured answer network slot)"
| get_new_nil: "plNewSlots p = [] \<Longrightarrow> plNewClosed p \<Longrightarrow> get_step env p (GetWait network) p (Inl NilSlot)"

text \<open>A sandbox changes its rules while it has the slot, and gives the slot back with a context of its own.\<close>

inductive use_step :: "'st Pool \<Rightarrow> 'e routine \<Rightarrow> 'st Pool \<Rightarrow> 'e outcome \<Rightarrow> bool" where
  use_update: "UpdateInternet (answer :: ('e + 'e) option) slot = (r, slot1) \<Longrightarrow> r \<noteq> Panic \<Longrightarrow> use_step p (InUse slot) p (Inr (InUse slot1, []))"
| use_panic: "UpdateInternet (answer :: ('e + 'e) option) slot = (Panic, slot1) \<Longrightarrow> use_step p (InUse slot) p (Inl NilFirewall)"
| use_return: "use_step p (InUse slot) p (Inr (ReturnStart c slot, []))"

definition reset :: "('e + 'e) option \<Rightarrow> bool \<Rightarrow> Slot \<Rightarrow> 'e outcome" where
  "reset answer c slot =
     (case ResetInternet answer slot of
        (Ok _, slot1) \<Rightarrow> Inr (ReturnSend c slot1, [])
      | (Fail e, slot1) \<Rightarrow> Inr (Cleaning slot1 (AfterReset e), [])
      | (Panic, slot1) \<Rightarrow> Inl NilFirewall)"

text \<open>\<open>c\<close> says whether the context can be cancelled.  A send to a closed channel is a ready case, and panics.\<close>

inductive return_step ::
  "('a, 'st, 'e) pool_env \<Rightarrow> 'st Pool \<Rightarrow> 'e routine \<Rightarrow> 'st Pool \<Rightarrow> 'e outcome \<Rightarrow> bool" for env where
  return_ctx: "c \<Longrightarrow> return_step env p (ReturnStart c slot) p (Inr (Ended PoolCtxErr, []))"
| return_closed: "plDone p \<Longrightarrow> return_step env p (ReturnStart c slot) p (Inr (Ended PoolErrClosed, []))"
| return_reset: "\<not> plDone p \<Longrightarrow> return_step env p (ReturnStart c slot) p (reset answer c slot)"
| return_send_ctx: "c \<Longrightarrow> return_step env p (ReturnSend c slot) p (Inr (Ended PoolCtxErr, []))"
| return_send_closed: "plDone p \<Longrightarrow> return_step env p (ReturnSend c slot) p (Inr (Ended PoolErrClosed, []))"
| return_send: "\<not> plReusedClosed p \<Longrightarrow> int (length (plReusedSlots p)) < peReusedSlotsPoolSize env \<Longrightarrow>
    return_step env p (ReturnSend c slot) (p\<lparr>plReusedSlots := plReusedSlots p @ [slot]\<rparr>) (Inr (Ended (Returned []), []))"
| return_send_panic: "plReusedClosed p \<Longrightarrow> return_step env p (ReturnSend c slot) p (Inl SendOnClosed)"
| return_full: "\<not> plDone p \<Longrightarrow> \<not> plReusedClosed p \<Longrightarrow> peReusedSlotsPoolSize env \<le> int (length (plReusedSlots p)) \<Longrightarrow>
    return_step env p (ReturnSend c slot) p (Inr (Cleaning slot AfterFull, []))"

inductive close_step :: "'st Pool \<Rightarrow> 'e routine \<Rightarrow> 'st Pool \<Rightarrow> 'e outcome \<Rightarrow> bool" where
  close_done: "close_step p CloseStart (p\<lparr>plDone := True\<rparr>) (Inr (CloseNew [], []))"
| close_new: "plNewSlots p = slot # slots \<Longrightarrow>
    close_step p (CloseNew errs) (p\<lparr>plNewSlots := slots\<rparr>) (Inr (Cleaning slot (AfterNew errs), []))"
| close_new_end: "plNewSlots p = [] \<Longrightarrow> plNewClosed p \<Longrightarrow> \<not> plReusedClosed p \<Longrightarrow>
    close_step p (CloseNew errs) (p\<lparr>plReusedClosed := True\<rparr>) (Inr (CloseReused errs, []))"
| close_twice: "plNewSlots p = [] \<Longrightarrow> plNewClosed p \<Longrightarrow> plReusedClosed p \<Longrightarrow>
    close_step p (CloseNew errs) p (Inl CloseOfClosed)"
| close_reused: "plReusedSlots p = slot # slots \<Longrightarrow>
    close_step p (CloseReused errs) (p\<lparr>plReusedSlots := slots\<rparr>) (Inr (Cleaning slot (AfterReused errs), []))"
| close_reused_end: "plReusedSlots p = [] \<Longrightarrow> plReusedClosed p \<Longrightarrow>
    close_step p (CloseReused errs) p (Inr (Ended (Closed errs), []))"

subsection \<open>Interleaving\<close>

definition routine_step ::
  "('a, 'st, 'e) pool_env \<Rightarrow> 'st Pool \<Rightarrow> 'e routine \<Rightarrow> 'st Pool \<Rightarrow> 'e outcome \<Rightarrow> bool" where
  "routine_step env p t p' r \<longleftrightarrow>
     cleanup_step env p t p' r \<or> populate_step env p t p' r \<or> get_step env p t p' r \<or> use_step p t p' r \<or>
     return_step env p t p' r \<or> close_step p t p' r"

datatype ('st, 'e) pool_state = Running "'st Pool" "'e routine list" | Crashed pool_panic

text \<open>\<open>handoff\<close>: a send meets a receive that waits for the channel of new slots, whose buffer is empty.\<close>

inductive received :: "'e routine \<Rightarrow> Slot \<Rightarrow> 'e outcome \<Rightarrow> bool" where
  received_get: "received (GetWait network) slot (configured answer network slot)"
| received_close: "received (CloseNew errs) slot (Inr (Cleaning slot (AfterNew errs), []))"

definition entry :: "'e routine \<Rightarrow> bool" where
  "entry t \<longleftrightarrow> t = PopulateLoop \<or> t = CloseStart \<or> (\<exists>network. t = GetStart network)"

inductive pool_step ::
  "('a, 'st, 'e) pool_env \<Rightarrow> ('st, 'e) pool_state \<Rightarrow> ('st, 'e) pool_state \<Rightarrow> bool" for env where
  start: "entry t \<Longrightarrow> pool_step env (Running p ts) (Running p (ts @ [t]))"
| run: "i < length ts \<Longrightarrow> routine_step env p (ts ! i) p' (Inr (t, new)) \<Longrightarrow>
    pool_step env (Running p ts) (Running p' (ts[i := t] @ new))"
| crash: "i < length ts \<Longrightarrow> routine_step env p (ts ! i) p' (Inl c) \<Longrightarrow> pool_step env (Running p ts) (Crashed c)"
| handoff: "i < length ts \<Longrightarrow> j < length ts \<Longrightarrow> i \<noteq> j \<Longrightarrow> ts ! i = PopulateSend slot \<Longrightarrow> plNewSlots p = [] \<Longrightarrow>
    \<not> plNewClosed p \<Longrightarrow> received (ts ! j) slot (Inr (t, new)) \<Longrightarrow>
    pool_step env (Running p ts) (Running p (ts[i := PopulateLoop, j := t] @ new))"
| handoff_crash: "i < length ts \<Longrightarrow> j < length ts \<Longrightarrow> i \<noteq> j \<Longrightarrow> ts ! i = PopulateSend slot \<Longrightarrow> plNewSlots p = [] \<Longrightarrow>
    \<not> plNewClosed p \<Longrightarrow> received (ts ! j) slot (Inl c) \<Longrightarrow> pool_step env (Running p ts) (Crashed c)"

definition pool_reachable :: "('a, 'st, 'e) pool_env \<Rightarrow> 'st \<Rightarrow> ('st, 'e) pool_state \<Rightarrow> bool" where
  "pool_reachable env st c \<longleftrightarrow> (\<exists>p. NewPool env st = Ok p \<and> (pool_step env)\<^sup>*\<^sup>* (Running p []) c)"

inductive_cases cleanup_stepE: "cleanup_step env p t p' r"
inductive_cases populate_stepE: "populate_step env p t p' r"
inductive_cases get_stepE: "get_step env p t p' r"
inductive_cases use_stepE: "use_step p t p' r"
inductive_cases return_stepE: "return_step env p t p' r"
inductive_cases close_stepE: "close_step p t p' r"

subsection \<open>Where the slots are\<close>

text \<open>The identity of a slot is everything but its two switches.\<close>

definition core :: "Slot \<Rightarrow> Slot" where
  "core s = s\<lparr>slFirewall := False, slCustomRules := False\<rparr>"

fun routine_slots :: "'e routine \<Rightarrow> Slot list" where
  "routine_slots (InUse s) = [s]"
| "routine_slots (ReturnStart c s) = [s]"
| "routine_slots (ReturnSend c s) = [s]"
| "routine_slots (Cleaning s k) = [s]"
| "routine_slots (PopulateCreate s) = [s]"
| "routine_slots (PopulateSend s) = [s]"
| "routine_slots t = []"

definition places :: "'st Pool \<Rightarrow> 'e routine list \<Rightarrow> Slot list" where
  "places p ts = plNewSlots p @ plReusedSlots p @ concat (map routine_slots ts)"

definition cores :: "'st Pool \<Rightarrow> 'e routine list \<Rightarrow> Slot multiset" where
  "cores p ts = image_mset core (mset (places p ts))"

lemma core_simps [simp]: "slIdx (core s) = slIdx s" "core (s\<lparr>slFirewall := b\<rparr>) = core s"
  "core (s\<lparr>slCustomRules := b\<rparr>) = core s" "core (core s) = core s"
  by (simp_all add: core_def)

lemma routine_slots_resume [simp]: "routine_slots (resume_after k errs) = []"
  by (cases k) simp_all

lemma ConfigureInternet_core: "ConfigureInternet a eg s = (r, s1) \<Longrightarrow> core s1 = core s"
  by (auto simp: ConfigureInternet_def Let_def split: if_splits)

lemma ResetInternet_core: "ResetInternet a s = (r, s1) \<Longrightarrow> core s1 = core s"
  by (auto simp: ResetInternet_def Let_def split: if_splits)

lemma UpdateInternet_core: "UpdateInternet a s = (r, s1) \<Longrightarrow> core s1 = core s"
  by (auto simp: UpdateInternet_def split: go.splits)

lemma CreateNetwork_core: "CreateNetwork gw answer s = (r, made, s1) \<Longrightarrow> core s1 = core s"
  by (auto simp: CreateNetwork_def InitializeFirewall_def Let_def split: prod.splits option.splits if_splits)

lemma RemoveNetwork_core: "RemoveNetwork gw answer s = (r, made, s1) \<Longrightarrow> core s1 = core s"
  by (auto simp: RemoveNetwork_def CloseFirewall_def Let_def split: prod.splits option.splits if_splits)

lemmas switch_cores = ConfigureInternet_core ResetInternet_core UpdateInternet_core CreateNetwork_core RemoveNetwork_core

lemma configured_cores:
  "configured a eg s = Inr (t, new) \<Longrightarrow> image_mset core (mset (concat (map routine_slots (t # new)))) = {#core s#}"
  by (auto simp: configured_def split: prod.splits go.splits dest: ConfigureInternet_core)

lemma reset_cores:
  "reset a c s = Inr (t, new) \<Longrightarrow> image_mset core (mset (concat (map routine_slots (t # new)))) = {#core s#}"
  by (auto simp: reset_def split: prod.splits go.splits dest: ResetInternet_core)

text \<open>What a step does with the storage and with the slots that it touches.\<close>

inductive slot_move ::
  "('a, 'st, 'e) pool_env \<Rightarrow> 'st \<Rightarrow> Slot multiset \<Rightarrow> 'st \<Rightarrow> Slot multiset \<Rightarrow> bool" for env where
  move_keep: "N \<subseteq># M \<Longrightarrow> slot_move env st M st N"
| move_acquire: "peAcquire env x st = (Ok s, st') \<Longrightarrow> slot_move env st M st' (M + {#core s#})"
| move_not_acquired: "peAcquire env x st = (Fail e, st') \<Longrightarrow> slot_move env st M st' M"
| move_release: "peRelease env x s st = (r, st') \<Longrightarrow> slot_move env st (M + {#core s#}) st' M"

lemma cleanup_step_move:
  assumes "cleanup_step env p t p' (Inr (t', new))"
  shows "slot_move env (plStorage p) (cores p [t]) (plStorage p') (cores p' (t' # new))"
  using assms
proof cases
  case (cleaned x answer slot errs st k)
  then obtain s1 r where r: "peRelease env x s1 (plStorage p) = (r, st)" and c: "core s1 = core slot"
    by (auto simp: cleanup_def Let_def split: prod.splits go.splits dest: RemoveNetwork_core)
  show ?thesis
    using move_release[OF r, of "cores p' (t' # new)"] cleaned c by (simp add: cores_def places_def ac_simps)
qed

lemma keep_moves:
  assumes "get_step env p t p' (Inr (t', new)) \<or> use_step p t p' (Inr (t', new)) \<or>
    return_step env p t p' (Inr (t', new)) \<or> close_step p t p' (Inr (t', new))"
  shows "plStorage p' = plStorage p \<and> cores p' (t' # new) \<subseteq># cores p [t]"
proof -
  have "plStorage p' = plStorage p \<and> cores p' (t' # new) \<subseteq># cores p [t]" if "get_step env p t p' (Inr (t', new))"
    using that by cases (auto simp: cores_def places_def dest!: configured_cores[OF sym])
  moreover have "plStorage p' = plStorage p \<and> cores p' (t' # new) \<subseteq># cores p [t]" if "use_step p t p' (Inr (t', new))"
    using that by cases (auto simp: cores_def places_def dest: UpdateInternet_core)
  moreover have "plStorage p' = plStorage p \<and> cores p' (t' # new) \<subseteq># cores p [t]" if "return_step env p t p' (Inr (t', new))"
    using that by cases (auto simp: cores_def places_def dest!: reset_cores[OF sym])
  moreover have "plStorage p' = plStorage p \<and> cores p' (t' # new) \<subseteq># cores p [t]" if "close_step p t p' (Inr (t', new))"
    using that by cases (auto simp: cores_def places_def)
  ultimately show ?thesis using assms by blast
qed

lemma populate_step_move:
  assumes "populate_step env p t p' (Inr (t', new))"
  shows "slot_move env (plStorage p) (cores p [t]) (plStorage p') (cores p' (t' # new))"
  using assms
proof cases
  case (populate_acquired x slot st)
  then show ?thesis
    using move_acquire[OF populate_acquired(6), of "cores p [t]"] by (simp add: cores_def places_def ac_simps)
next
  case (populate_not_created answer slot e made slot1 x r st)
  then show ?thesis
    using move_release[OF populate_not_created(6), of "cores p' (t' # new)"]
    by (simp add: cores_def places_def ac_simps CreateNetwork_core[OF populate_not_created(5)])
qed (auto simp: cores_def places_def intro: move_keep move_not_acquired dest!: CreateNetwork_core)

lemma routine_step_move:
  assumes "routine_step env p t p' (Inr (t', new))"
  shows "slot_move env (plStorage p) (cores p [t]) (plStorage p') (cores p' (t' # new))"
  using assms cleanup_step_move[of env p t p' t' new] populate_step_move[of env p t p' t' new]
    keep_moves[of env p t p' t' new] move_keep[of "cores p' (t' # new)" "cores p [t]" env "plStorage p"]
  by (auto simp: routine_step_def)

lemma distinct_if_count: "(\<And>i. count (mset xs) i \<le> 1) \<Longrightarrow> distinct xs"
proof (induction xs)
  case (Cons x xs)
  have "count (mset xs) i \<le> 1" for i
    by (rule order_trans[OF _ Cons.prems[of i]]) simp
  moreover have "x \<notin> set xs"
    using Cons.prems[of x] count_greater_zero_iff[of "mset xs" x] by auto
  ultimately show ?case using Cons.IH by simp
qed simp

subsection \<open>The invariant\<close>

text \<open>
  Every slot is one of the storage, and its index is held there; no index is in two places, be they the
  buffers of the channels or goroutines.
\<close>

definition pool_inv :: "('st \<Rightarrow> int set) \<Rightarrow> ('st \<Rightarrow> bool) \<Rightarrow> (Slot \<Rightarrow> bool) \<Rightarrow> 'st \<Rightarrow> Slot multiset \<Rightarrow> bool" where
  "pool_inv held ok good st M \<longleftrightarrow>
     ok st \<and> (\<forall>s\<in>#M. good s) \<and> (\<forall>i. count (image_mset slIdx M) i \<le> of_bool (i \<in> held st))"

lemma cores_Cons: "cores p (t # ts) = cores p [t] + image_mset core (mset (concat (map routine_slots ts)))"
  by (simp add: cores_def places_def)

lemma cores_append: "cores p (ts @ us) = cores p ts + image_mset core (mset (concat (map routine_slots us)))"
  by (simp add: cores_def places_def)

lemma cores_update:
  fixes p :: "'st Pool"
  assumes "i < length ts"
  shows "\<exists>R. cores p ts = cores p [ts ! i] + R \<and> (\<forall>(q :: 'st Pool) u. cores q (ts[i := u]) = cores q [u] + R)"
  by (rule exI[of _ "image_mset core (mset (concat (map routine_slots (take i ts @ drop (Suc i) ts))))"])
    (subst id_take_nth_drop[OF assms], simp add: upd_conv_take_nth_drop[OF assms] cores_def places_def ac_simps)

lemma received_cores:
  "received u slot (Inr (t, new)) \<Longrightarrow>
    routine_slots u = [] \<and> image_mset core (mset (concat (map routine_slots (t # new)))) = {#core slot#}"
  by (cases rule: received.cases) (auto dest!: configured_cores[OF sym])

lemma handoff_cores:
  fixes p :: "'st Pool" and ts :: "'e routine list"
  assumes "i < length ts" "j < length ts" "i \<noteq> j" "ts ! i = PopulateSend slot"
    and r: "received (ts ! j) slot (Inr (t, new))"
  shows "cores p (ts[i := PopulateLoop, j := t] @ new) = cores p ts"
proof -
  obtain R where R: "cores p ts = cores p [ts ! i] + R" "\<And>(q :: 'st Pool) u. cores q (ts[i := u]) = cores q [u] + R"
    using cores_update[OF assms(1)] by blast
  obtain S where S: "cores p (ts[i := PopulateLoop]) = cores p [ts ! j] + S"
      "\<And>(q :: 'st Pool) u. cores q (ts[i := PopulateLoop, j := u]) = cores q [u] + S"
    using cores_update[of j "ts[i := PopulateLoop]" p] assms(2,3) by auto
  have "cores p [PopulateLoop :: 'e routine] + R = cores p [ts ! j] + S"
    using R(2)[of p PopulateLoop] S(1) by simp
  then show ?thesis
    using received_cores[OF r] R(1) S(2) assms(4) by (simp add: cores_append cores_def places_def ac_simps)
qed

subsection \<open>Firewalls and closed channels\<close>

fun routine_ready :: "'e routine \<Rightarrow> bool" where
  "routine_ready (PopulateCreate s) = True"
| "routine_ready t = (\<forall>s\<in>set (routine_slots t). slFirewall s)"

text \<open>
  A slot that can be given out has its firewall, and the channel of used slots is closed after that of new
  ones, by a call of \<^verbatim>\<open>Close\<close>.
\<close>

definition pool_ready :: "'st Pool \<Rightarrow> 'e routine list \<Rightarrow> bool" where
  "pool_ready p ts \<longleftrightarrow>
     (\<forall>s\<in>set (plNewSlots p @ plReusedSlots p). slFirewall s) \<and> (\<forall>t\<in>set ts. routine_ready t) \<and>
     (plReusedClosed p \<longrightarrow> plNewClosed p)"

lemma routine_ready_resume [simp]: "routine_ready (resume_after k errs)"
  by (cases k) simp_all

lemma configured_ready:
  assumes "slFirewall s"
  shows "configured a eg s \<noteq> Inl c" "configured a eg s = Inr (t, new) \<Longrightarrow> \<forall>t\<in>set (t # new). routine_ready t"
  using assms by (auto simp: configured_def ConfigureInternet_def inNamespace_def Let_def
      split: prod.splits go.splits option.splits sum.splits if_splits)

lemma reset_ready:
  assumes "slFirewall s"
  shows "reset a c s \<noteq> Inl d" "reset a c s = Inr (t, new) \<Longrightarrow> \<forall>t\<in>set (t # new). routine_ready t"
  using assms by (auto simp: reset_def ResetInternet_def inNamespace_def Let_def
      split: prod.splits go.splits option.splits sum.splits if_splits)

lemma UpdateInternet_ready:
  assumes "slFirewall s" "UpdateInternet a s = (r, s1)"
  shows "r \<noteq> Panic" "slFirewall s1"
  using assms by (auto simp: UpdateInternet_def inNamespace_def split: go.splits option.splits sum.splits)

lemma routine_step_ready:
  assumes "routine_step env p t p' (Inr (t', new))" and r: "pool_ready p [t]"
  shows "pool_ready p' (t' # new)"
proof -
  have "pool_ready p' (t' # new)" if "cleanup_step env p t p' (Inr (t', new))"
    using that r by cases (simp add: pool_ready_def)
  moreover have "pool_ready p' (t' # new)" if "populate_step env p t p' (Inr (t', new))"
    using that r by cases (auto simp: pool_ready_def dest: CreateNetwork_ok(1))
  moreover have "pool_ready p' (t' # new)" if "get_step env p t p' (Inr (t', new))"
    using that r by cases (auto simp: pool_ready_def dest!: configured_ready(2)[OF _ sym, rotated])
  moreover have "pool_ready p' (t' # new)" if "use_step p t p' (Inr (t', new))"
    using that r by cases (auto simp: pool_ready_def dest: UpdateInternet_ready)
  moreover have "pool_ready p' (t' # new)" if "return_step env p t p' (Inr (t', new))"
    using that r by cases (auto simp: pool_ready_def dest!: reset_ready(2)[OF _ sym, rotated])
  moreover have "pool_ready p' (t' # new)" if "close_step p t p' (Inr (t', new))"
    using that r by cases (auto simp: pool_ready_def)
  ultimately show ?thesis using assms(1) unfolding routine_step_def by blast
qed

lemma received_ready:
  assumes "received u slot r" "slFirewall slot"
  shows "r \<noteq> Inl c" "r = Inr (t, new) \<Longrightarrow> \<forall>t\<in>set (t # new). routine_ready t"
proof -
  show "r \<noteq> Inl c"
    using assms(1) configured_ready(1)[OF assms(2)] by cases simp_all
  show "\<forall>t\<in>set (t # new). routine_ready t" if "r = Inr (t, new)"
    using assms(1)
  proof cases
    case (received_get network answer)
    with that show ?thesis by (intro configured_ready(2)[OF assms(2)]) simp
  qed (use that assms(2) in auto)
qed

lemma pool_step_ready:
  assumes "pool_step env (Running p ts) (Running p' ts')" and r: "pool_ready p ts"
  shows "pool_ready p' ts'"
  using assms(1)
proof cases
  case (start t)
  then show ?thesis using r by (auto simp: pool_ready_def entry_def)
next
  case (run i t new)
  have "pool_ready p [ts ! i]" using r run(2) by (simp add: pool_ready_def)
  from routine_step_ready[OF run(3) this] show ?thesis
    using r run(1) by (auto simp: pool_ready_def dest!: set_update_subset_insert[THEN subsetD])
next
  case (handoff i j slot t new)
  have "slFirewall slot" using r handoff(3,6) by (force simp: pool_ready_def in_set_conv_nth)
  from received_ready(2)[OF handoff(9) this refl] show ?thesis
    using r handoff(1,2) by (auto simp: pool_ready_def dest!: set_update_subset_insert[THEN subsetD])
qed

text \<open>The panics of a running pool.\<close>

definition closed_panic :: "'st Pool \<Rightarrow> pool_panic \<Rightarrow> bool" where
  "closed_panic p c \<longleftrightarrow> c = NilTables \<or> c \<in> {NilSlot, SendOnClosed, CloseOfClosed} \<and> plNewClosed p"

locale network_pool = slot_storage "peAcquire env" "peRelease env" held ok good
  for env :: "('a, 'st, 'e) pool_env" and held ok good +
  assumes good_core: "good (core s) \<longleftrightarrow> good s"
begin

lemma slot_move_inv:
  assumes "slot_move env st M st' N" and inv: "pool_inv held ok good st (M + F)"
  shows "pool_inv held ok good st' (N + F)"
  using assms(1)
proof cases
  case move_keep
  then have le: "count (image_mset slIdx (N + F)) i \<le> count (image_mset slIdx (M + F)) i" for i
    by (intro mset_subset_eq_count image_mset_subseteq_mono) simp
  have "count (image_mset slIdx (N + F)) i \<le> of_bool (i \<in> held st)" for i
    by (rule order_trans[OF le]) (use inv in \<open>simp add: pool_inv_def\<close>)
  moreover have "good s" if "s \<in># N + F" for s
    using that inv mset_subset_eqD[OF move_keep(2), of s] by (auto simp: pool_inv_def)
  ultimately show ?thesis
    using inv move_keep(1) by (auto simp only: pool_inv_def)
next
  case (move_acquire x s)
  have ok: "ok st" and c: "count (image_mset slIdx (M + F)) i \<le> of_bool (i \<in> held st)" for i
    using inv by (auto simp: pool_inv_def)
  note a = acquire_Ok[OF ok move_acquire(2)]
  have "count (image_mset slIdx (N + F)) i \<le> of_bool (i \<in> held st')" for i
    using a c[of i] move_acquire(1) by (cases "i = slIdx s") auto
  then show ?thesis using a inv move_acquire(1) by (auto simp: pool_inv_def good_core)
next
  case (move_not_acquired x e)
  have a: "ok st' \<and> held st \<subseteq> held st'"
    using inv by (intro acquire_error[OF _ move_not_acquired(2)]) (simp add: pool_inv_def)
  then have "of_bool (i \<in> held st) \<le> (of_bool (i \<in> held st') :: nat)" for i by auto
  then show ?thesis
    using inv move_not_acquired(1) a unfolding pool_inv_def by (meson order_trans)
next
  case (move_release x s r)
  have ok: "ok st" and g: "good s" and c: "count (image_mset slIdx (M + F)) i \<le> of_bool (i \<in> held st)" for i
    using inv move_release(1) good_core by (auto simp: pool_inv_def)
  note a = release_held[OF ok g move_release(2)]
  have "count (image_mset slIdx (N + F)) i \<le> of_bool (i \<in> held st')" for i
    using a c[of i] move_release(1) by (cases "i = slIdx s") (auto simp: of_bool_def split: if_splits)
  then show ?thesis using a inv move_release(1) by (auto simp: pool_inv_def)
qed

lemma pool_step_inv:
  assumes "pool_step env (Running p ts) (Running p' ts')"
    and inv: "pool_inv held ok good (plStorage p) (cores p ts)"
  shows "pool_inv held ok good (plStorage p') (cores p' ts')"
  using assms(1)
proof cases
  case (start t)
  then show ?thesis using inv by (auto simp: cores_append entry_def)
next
  case (run i t new)
  obtain R where R: "cores p ts = cores p [ts ! i] + R" "\<And>(q :: 'st Pool) u. cores q (ts[i := u]) = cores q [u] + R"
    using cores_update[OF run(2)] by blast
  have "cores p' ts' = cores p' (t # new) + R"
    using run(1) R(2) by (simp add: cores_append cores_Cons[of _ t new] ac_simps)
  then show ?thesis
    using slot_move_inv[OF routine_step_move[OF run(3)]] inv R(1) by simp
next
  case (handoff i j slot t new)
  have "cores p ts' = cores p ts"
    using handoff_cores[OF handoff(3-6,9)] handoff(2) by simp
  then show ?thesis using inv handoff(1) by simp
qed

lemma cleanup_panic:
  assumes "cleanup env x answer slot st = (Inl c, st')" "ok st" "good (core slot)" "slIdx slot \<in> held st"
  shows "c = NilTables"
proof (rule ccontr)
  assume "c \<noteq> NilTables"
  then obtain r made s1 where s1: "RemoveNetwork (peGateway env) answer slot = (r, made, s1)"
      "peRelease env x s1 st = (Panic, st')"
    using assms(1) by (auto simp: cleanup_def Let_def split: prod.splits go.splits)
  have "core s1 = core slot" by (rule RemoveNetwork_core[OF s1(1)])
  then have "good s1" "slIdx s1 \<in> held st"
    using assms(3,4) good_core core_simps(1) by metis+
  with release_Panic[OF assms(2)] s1(2) show False by blast
qed

lemma routine_step_panic:
  assumes step: "routine_step env p t p' (Inl c)" and ready: "pool_ready p [t]"
    and "ok (plStorage p)" and slots: "\<And>s. s \<in> set (routine_slots t) \<Longrightarrow> good (core s) \<and> slIdx s \<in> held (plStorage p)"
  shows "closed_panic p c"
proof -
  have "closed_panic p c" if "cleanup_step env p t p' (Inl c)"
    using that slots cleanup_panic[OF _ assms(3)] by cases (auto simp: closed_panic_def)
  moreover have "closed_panic p c" if "populate_step env p t p' (Inl c)"
    using that
  proof cases
    case (populate_release_panic answer slot e made slot1 x st)
    have "core slot1 = core slot" by (rule CreateNetwork_core[OF populate_release_panic(4)])
    then have "good slot1" "slIdx slot1 \<in> held (plStorage p)"
      using slots[of slot] populate_release_panic(1) good_core[of slot1] core_simps(1)[of slot1] core_simps(1)[of slot]
      by simp_all
    with release_Panic[OF assms(3)] populate_release_panic(5) show ?thesis by blast
  qed (use acquire_Panic[OF assms(3)] in \<open>auto simp: closed_panic_def\<close>)
  moreover have "closed_panic p c" if "get_step env p t p' (Inl c)"
    using that ready by cases (auto simp: pool_ready_def closed_panic_def configured_ready(1)[THEN not_sym])
  moreover have "closed_panic p c" if "use_step p t p' (Inl c)"
    using that ready by cases (auto simp: pool_ready_def dest: UpdateInternet_ready)
  moreover have "closed_panic p c" if "return_step env p t p' (Inl c)"
    using that ready by cases (auto simp: pool_ready_def closed_panic_def reset_ready(1)[THEN not_sym])
  moreover have "closed_panic p c" if "close_step p t p' (Inl c)"
    using that by cases (auto simp: closed_panic_def)
  ultimately show ?thesis using step unfolding routine_step_def by blast
qed

lemma places_held:
  assumes "pool_inv held ok good (plStorage p) (cores p ts)" "s \<in> set (places p ts)"
  shows "good s" "slIdx s \<in> held (plStorage p)"
proof -
  have s: "core s \<in># cores p ts" using assms(2) by (simp add: cores_def)
  show "good s" using assms(1) s good_core unfolding pool_inv_def by blast
  have "slIdx (core s) \<in># image_mset slIdx (cores p ts)" using s by (metis image_eqI set_image_mset)
  then have "0 < count (image_mset slIdx (cores p ts)) (slIdx s)" by (simp add: count_greater_zero_iff)
  also have "\<dots> \<le> of_bool (slIdx s \<in> held (plStorage p))" using assms(1) by (simp add: pool_inv_def)
  finally show "slIdx s \<in> held (plStorage p)" by (simp split: if_splits)
qed

lemma pool_step_panic:
  assumes "pool_step env (Running p ts) (Crashed c)" and ready: "pool_ready p ts"
    and inv: "pool_inv held ok good (plStorage p) (cores p ts)"
  shows "closed_panic p c"
  using assms(1)
proof cases
  case (crash i p')
  have slots: "good (core s) \<and> slIdx s \<in> held (plStorage p)" if "s \<in> set (routine_slots (ts ! i))" for s
  proof -
    have "s \<in> set (places p ts)" using that crash(1) by (auto simp: places_def)
    then show ?thesis using places_held[OF inv] good_core by blast
  qed
  show ?thesis
  proof (rule routine_step_panic[OF crash(2) _ _ slots])
    show "pool_ready p [ts ! i]" using ready crash(1) by (simp add: pool_ready_def)
    show "ok (plStorage p)" using inv by (simp add: pool_inv_def)
  qed
next
  case (handoff_crash i j slot)
  have "slFirewall slot" using ready handoff_crash(1,4) by (force simp: pool_ready_def in_set_conv_nth)
  then show ?thesis using received_ready(1)[OF handoff_crash(7)] by blast
qed

lemma pool_steps_inv:
  assumes "(pool_step env)\<^sup>*\<^sup>* (Running p []) (Running p' ts)" "NewPool env st = Ok p" "ok st"
  shows "pool_ready p' ts \<and> pool_inv held ok good (plStorage p') (cores p' ts)"
  using assms(1)
proof (induction "Running p' ts" arbitrary: p' ts rule: rtranclp_induct)
  case base
  show ?case
    using assms(2,3) by (auto simp: NewPool_def pool_ready_def pool_inv_def cores_def places_def split: if_splits)
next
  case (step c)
  then obtain q us where c: "c = Running q us" by (cases c) (auto elim: pool_step.cases)
  with step pool_step_inv[of q us p' ts] pool_step_ready[of env q us p' ts] show ?case by blast
qed

text \<open>No two slots of the pool, in a channel or with a goroutine, have the same index.\<close>

lemma reachable_exclusive:
  assumes "pool_reachable env st (Running p ts)" "ok st"
  shows "distinct (map slIdx (places p ts))" "s \<in> set (places p ts) \<Longrightarrow> good s \<and> slIdx s \<in> held (plStorage p)"
proof -
  have inv: "pool_inv held ok good (plStorage p) (cores p ts)"
    using assms pool_steps_inv by (auto simp: pool_reachable_def)
  have "count (mset (map slIdx (places p ts))) i = count (image_mset slIdx (cores p ts)) i" for i
    by (simp add: cores_def image_mset.compositionality comp_def)
  moreover have "count (image_mset slIdx (cores p ts)) i \<le> 1" for i
    using inv unfolding pool_inv_def by (metis of_bool_def order_trans zero_le_one le_refl)
  ultimately show "distinct (map slIdx (places p ts))"
    by (intro distinct_if_count) simp
  show "s \<in> set (places p ts) \<Longrightarrow> good s \<and> slIdx s \<in> held (plStorage p)"
    using places_held[OF inv] by blast
qed

lemma reachable_panic:
  assumes "pool_reachable env st (Running p ts)" "ok st" "pool_step env (Running p ts) (Crashed c)"
  shows "closed_panic p c"
  using assms pool_steps_inv pool_step_panic[OF assms(3)] by (auto simp: pool_reachable_def)

end

subsection \<open>Pools on the storages\<close>

definition local_pool_env ::
  "(string \<Rightarrow> int \<Rightarrow> (slot_error, Slot) go) \<Rightarrow> string \<Rightarrow> int \<Rightarrow> int \<Rightarrow>
   ((string \<Rightarrow> 'e stat_result) \<times> nat, StorageLocal, 'e) pool_env" where
  "local_pool_env newSlot gw m n =
     \<lparr>peAcquire = local_Acquire newSlot, peRelease = (\<lambda>_. local_Release), peGateway = gw,
      peNewSlotsPoolSize = m, peReusedSlotsPoolSize = n\<rparr>"

definition kv_pool_env ::
  "Config \<Rightarrow> string \<Rightarrow> int \<Rightarrow> string \<Rightarrow> int \<Rightarrow> int \<Rightarrow> (int list, (string \<times> int) list, 'e) pool_env" where
  "kv_pool_env config nodeID slotsSize gw m n =
     \<lparr>peAcquire = kv_Acquire (default_newSlot config) list_consul nodeID slotsSize,
      peRelease = (\<lambda>_. kv_Release list_consul), peGateway = gw,
      peNewSlotsPoolSize = m, peReusedSlotsPoolSize = n\<rparr>"

lemma planned_core: "planned vars key (core s) \<longleftrightarrow> planned vars key s"
  by (simp add: planned_def slot_plan_def core_def)

lemma local_network_pool:
  assumes "newSlot_law newSlot getLocalKey (planned vars getLocalKey)"
  shows "network_pool (local_pool_env newSlot gw m n) local_held local_ok (planned vars getLocalKey)"
  using local_slot_storage[OF assms]
  by (intro network_pool.intro network_pool_axioms.intro) (simp_all add: local_pool_env_def planned_core)

interpretation local_pool: network_pool "local_pool_env (default_newSlot config) gw m n" local_held local_ok
    "planned default_vars getLocalKey" for config gw m n
  by (rule local_network_pool) (rule default_newSlot_law)

interpretation kv_pool: network_pool "kv_pool_env config nodeID slotsSize gw m n" "kv_held (\<lambda>kv. fst ` set kv) nodeID"
    "\<lambda>_. True" "kv_good nodeID (planned default_vars (getKVKey nodeID))"
  for config nodeID slotsSize gw m n
  by (intro network_pool.intro network_pool_axioms.intro)
    (simp_all add: kv_pool_env_def planned_core kv_slots.slot_storage_axioms kv_good_def, simp add: core_def)

subsection \<open>Races of the shutdown\<close>

lemma run_at:
  assumes "routine_step env p t p' (Inr (t', []))"
  shows "pool_step env (Running p (as @ t # bs)) (Running p' (as @ t' # bs))"
  using run[of "length as" "as @ t # bs" env p p' t' "[]"] assms by simp

lemma crash_at: "routine_step env p t p' (Inl c) \<Longrightarrow> pool_step env (Running p (as @ t # bs)) (Crashed c)"
  using crash[of "length as" "as @ t # bs" env p p' c] by simp

lemma handoff_at:
  assumes "plNewSlots p = []" "\<not> plNewClosed p" "received u slot (Inr (t, []))"
  shows "pool_step env (Running p [u, PopulateSend slot]) (Running p [t, PopulateLoop])"
  using handoff[of 1 "[u, PopulateSend slot]" 0 slot p t "[]" env] assms by simp

lemma populate_ends: "\<not> plNewClosed p \<Longrightarrow>
  pool_step env (Running p (as @ PopulateLoop # bs)) (Running (p\<lparr>plNewClosed := True\<rparr>) (as @ Ended Populated # bs))"
  by (rule run_at) (simp add: routine_step_def populate_end)

lemma close_starts:
  "pool_step env (Running p (as @ CloseStart # bs)) (Running (p\<lparr>plDone := True\<rparr>) (as @ CloseNew [] # bs))"
  by (rule run_at) (simp add: routine_step_def close_done)

lemma close_ends_new: "plNewSlots p = [] \<Longrightarrow> plNewClosed p \<Longrightarrow> \<not> plReusedClosed p \<Longrightarrow>
  pool_step env (Running p (as @ CloseNew errs # bs)) (Running (p\<lparr>plReusedClosed := True\<rparr>) (as @ CloseReused errs # bs))"
  by (rule run_at) (simp add: routine_step_def close_new_end)

lemma reset_quiet: "slFirewall slot \<Longrightarrow> \<exists>s. reset None c slot = Inr (ReturnSend c s, [])"
  by (simp add: reset_def ResetInternet_def inNamespace_def Let_def)

text \<open>\<^verbatim>\<open>Populate\<close> ends while a \<^verbatim>\<open>Get\<close> waits: the closed channel gives it a nil slot.\<close>

lemma get_race:
  assumes "NewPool env st = Ok p"
  shows "(pool_step env)\<^sup>*\<^sup>* (Running p []) (Crashed NilSlot)"
proof -
  have p: "plNewSlots p = []" "plReusedSlots p = []" "\<not> plDone p" "\<not> plReusedClosed p" "\<not> plNewClosed p"
    using assms by (auto simp: NewPool_def split: if_splits)
  let ?q = "p\<lparr>plNewClosed := True\<rparr>"
  have "pool_step env (Running p []) (Running p [PopulateLoop])"
    "pool_step env (Running p [PopulateLoop]) (Running p [PopulateLoop, GetStart None])"
    using start[of PopulateLoop env p "[]"] start[of "GetStart None" env p "[PopulateLoop]"] by (simp_all add: entry_def)
  moreover have "pool_step env (Running p [PopulateLoop, GetStart None]) (Running p [PopulateLoop, GetWait None])"
    using run_at[of env p "GetStart None" p "GetWait None" "[PopulateLoop]" "[]"] p
    by (simp add: routine_step_def get_default)
  moreover have "pool_step env (Running p [PopulateLoop, GetWait None]) (Running ?q [Ended Populated, GetWait None])"
    using populate_ends[OF p(5), of env "[]" "[GetWait None]"] by simp
  moreover have "pool_step env (Running ?q [Ended Populated, GetWait None]) (Crashed NilSlot)"
    using crash_at[of env ?q "GetWait None" ?q NilSlot "[Ended Populated]" "[]"] p
    by (simp add: routine_step_def get_new_nil)
  ultimately show ?thesis by - ((erule converse_rtranclp_into_rtranclp)+, rule rtranclp.rtrancl_refl)
qed

text \<open>Two calls of \<^verbatim>\<open>Close\<close> both close the channel of used slots.\<close>

lemma close_race:
  assumes "NewPool env st = Ok p"
  shows "(pool_step env)\<^sup>*\<^sup>* (Running p []) (Crashed CloseOfClosed)"
proof -
  have p: "plNewSlots p = []" "\<not> plReusedClosed p" "\<not> plNewClosed p"
    using assms by (auto simp: NewPool_def split: if_splits)
  let ?p1 = "p\<lparr>plNewClosed := True\<rparr>"
  let ?p2 = "?p1\<lparr>plDone := True\<rparr>"
  let ?p3 = "?p2\<lparr>plReusedClosed := True\<rparr>"
  have "pool_step env (Running p []) (Running p [PopulateLoop])"
    "pool_step env (Running p [PopulateLoop]) (Running p [PopulateLoop, CloseStart])"
    "pool_step env (Running p [PopulateLoop, CloseStart]) (Running p [PopulateLoop, CloseStart, CloseStart])"
    using start[of PopulateLoop env p "[]"] start[of CloseStart env p "[PopulateLoop]"]
      start[of CloseStart env p "[PopulateLoop, CloseStart]"] by (simp_all add: entry_def)
  moreover have "pool_step env (Running p [PopulateLoop, CloseStart, CloseStart]) (Running ?p1 [Ended Populated, CloseStart, CloseStart])"
    using populate_ends[OF p(3), of env "[]" "[CloseStart, CloseStart]"] by simp
  moreover have "pool_step env (Running ?p1 [Ended Populated, CloseStart, CloseStart]) (Running ?p2 [Ended Populated, CloseNew [], CloseStart])"
    "pool_step env (Running ?p2 [Ended Populated, CloseNew [], CloseStart]) (Running ?p2 [Ended Populated, CloseNew [], CloseNew []])"
    using close_starts[of env ?p1 "[Ended Populated]" "[CloseStart]"]
      close_starts[of env ?p2 "[Ended Populated, CloseNew []]" "[]"] by simp_all
  moreover have "pool_step env (Running ?p2 [Ended Populated, CloseNew [], CloseNew []]) (Running ?p3 [Ended Populated, CloseReused [], CloseNew []])"
    using close_ends_new[of ?p2 env "[Ended Populated]" "[]" "[CloseNew []]"] p by simp
  moreover have "pool_step env (Running ?p3 [Ended Populated, CloseReused [], CloseNew []]) (Crashed CloseOfClosed)"
    using crash_at[of env ?p3 "CloseNew []" ?p3 CloseOfClosed "[Ended Populated, CloseReused []]" "[]"] p
    by (simp add: routine_step_def close_twice)
  ultimately show ?thesis by - ((erule converse_rtranclp_into_rtranclp)+, rule rtranclp.rtrancl_refl)
qed

text \<open>
  A \<^verbatim>\<open>Return\<close> that has reset its slot meets a \<^verbatim>\<open>Close\<close> that has closed the channel of used slots.  The first
  part brings a slot to that point.
\<close>

lemma slot_returns:
  fixes env :: "('a, 'st, 'e) pool_env" and answer :: "nat \<Rightarrow> net_cmd \<Rightarrow> 'e option"
  assumes p: "plNewSlots p = []" "plReusedSlots p = []" "\<not> plDone p" "\<not> plReusedClosed p" "\<not> plNewClosed p"
    and acq: "peAcquire env x (plStorage p) = (Ok slot, st')"
    and crt: "CreateNetwork (peGateway env) answer slot = (None, made, slot1)"
    and res: "(reset None False slot1 :: 'e outcome) = Inr (ReturnSend False slot2, [])"
  defines "q \<equiv> p\<lparr>plStorage := st'\<rparr>"
  shows "(pool_step env)\<^sup>*\<^sup>* (Running p []) (Running q [ReturnSend False slot2, PopulateLoop])"
proof -
  have q: "plNewSlots q = []" "\<not> plDone q" "\<not> plNewClosed q" using p by (simp_all add: q_def)
  have "pool_step env (Running p []) (Running p [GetStart None])"
    "pool_step env (Running p [GetStart None]) (Running p [GetStart None, PopulateLoop])"
    using start[of "GetStart None" env p "[]"] start[of PopulateLoop env p "[GetStart None]"] by (simp_all add: entry_def)
  moreover have "pool_step env (Running p [GetStart None, PopulateLoop]) (Running p [GetWait None, PopulateLoop])"
    using run_at[of env p "GetStart None" p "GetWait None" "[]" "[PopulateLoop]"] p by (simp add: routine_step_def get_default)
  moreover have "pool_step env (Running p [GetWait None, PopulateLoop]) (Running q [GetWait None, PopulateCreate slot])"
    using run_at[of env p PopulateLoop q "PopulateCreate slot" "[GetWait None]" "[]"] populate_acquired[OF p(3) acq]
    by (simp add: routine_step_def q_def)
  moreover have "pool_step env (Running q [GetWait None, PopulateCreate slot]) (Running q [GetWait None, PopulateSend slot1])"
    using run_at[of env q "PopulateCreate slot" q "PopulateSend slot1" "[GetWait None]" "[]"] populate_created[OF crt]
    by (simp add: routine_step_def)
  moreover have "pool_step env (Running q [GetWait None, PopulateSend slot1]) (Running q [InUse slot1, PopulateLoop])"
    using received_get[of None slot1 None] by (intro handoff_at q) (simp add: configured_def ConfigureInternet_def)
  moreover have "pool_step env (Running q [InUse slot1, PopulateLoop]) (Running q [ReturnStart False slot1, PopulateLoop])"
    using run_at[of env q "InUse slot1" q "ReturnStart False slot1" "[]" "[PopulateLoop]"] by (simp add: routine_step_def use_return)
  moreover have "pool_step env (Running q [ReturnStart False slot1, PopulateLoop]) (Running q [ReturnSend False slot2, PopulateLoop])"
    using run_at[of env q "ReturnStart False slot1" q "ReturnSend False slot2" "[]" "[PopulateLoop]"]
      return_reset[OF q(2), of env False slot1 None] res by (simp add: routine_step_def)
  ultimately show ?thesis by - ((erule converse_rtranclp_into_rtranclp)+, rule rtranclp.rtrancl_refl)
qed

lemma return_race_end:
  assumes p: "plNewSlots p = []" "\<not> plReusedClosed p" "\<not> plNewClosed p"
  shows "(pool_step env)\<^sup>*\<^sup>* (Running p [ReturnSend c slot, PopulateLoop]) (Crashed SendOnClosed)"
proof -
  let ?p1 = "p\<lparr>plNewClosed := True\<rparr>"
  let ?p2 = "?p1\<lparr>plDone := True\<rparr>"
  let ?p3 = "?p2\<lparr>plReusedClosed := True\<rparr>"
  let ?r = "ReturnSend c slot"
  have "pool_step env (Running p [?r, PopulateLoop]) (Running ?p1 [?r, Ended Populated])"
    using populate_ends[OF p(3), of env "[?r]" "[]"] by simp
  moreover have "pool_step env (Running ?p1 [?r, Ended Populated]) (Running ?p1 [?r, Ended Populated, CloseStart])"
    using start[of CloseStart env ?p1 "[?r, Ended Populated]"] by (simp add: entry_def)
  moreover have "pool_step env (Running ?p1 [?r, Ended Populated, CloseStart]) (Running ?p2 [?r, Ended Populated, CloseNew []])"
    using close_starts[of env ?p1 "[?r, Ended Populated]" "[]"] by simp
  moreover have "pool_step env (Running ?p2 [?r, Ended Populated, CloseNew []]) (Running ?p3 [?r, Ended Populated, CloseReused []])"
    using close_ends_new[of ?p2 env "[?r, Ended Populated]" "[]" "[]"] p by simp
  moreover have "pool_step env (Running ?p3 [?r, Ended Populated, CloseReused []]) (Crashed SendOnClosed)"
    using crash_at[of env ?p3 ?r ?p3 SendOnClosed "[]" "[Ended Populated, CloseReused []]"]
    by (simp add: routine_step_def return_send_panic)
  ultimately show ?thesis by - ((erule converse_rtranclp_into_rtranclp)+, rule rtranclp.rtrancl_refl)
qed

lemma return_race:
  fixes env :: "('a, 'st, 'e) pool_env" and answer :: "nat \<Rightarrow> net_cmd \<Rightarrow> 'e option"
  assumes new: "NewPool env st = Ok p" and acq: "peAcquire env x st = (Ok slot, st')"
    and crt: "CreateNetwork (peGateway env) answer slot = (None, made, slot1)"
  shows "(pool_step env)\<^sup>*\<^sup>* (Running p []) (Crashed SendOnClosed)"
proof -
  have p: "plNewSlots p = []" "plReusedSlots p = []" "\<not> plDone p" "\<not> plReusedClosed p" "\<not> plNewClosed p" "plStorage p = st"
    using new by (auto simp: NewPool_def split: if_splits)
  have "slFirewall slot1" using CreateNetwork_ok(1)[OF crt] by simp
  then obtain slot2 where r: "(reset None False slot1 :: 'e outcome) = Inr (ReturnSend False slot2, [])" using reset_quiet by blast
  show ?thesis
    using slot_returns[OF p(1-5) _ crt r, of x st'] acq p(6) return_race_end[of "p\<lparr>plStorage := st'\<rparr>" env False slot2] p
    by simp
qed

end
