(* ===== verification/Network_Properties.thy ===== *)
theory Network_Properties
  imports Network_Pool
begin

text \<open>
  The properties of the sandbox network: the address plan of the slots, the removal of a network, the
  exclusive use of slots and the panics of the pool.
\<close>

text \<open>
  C25.  The plan of addresses, for IPv4 networks of which the host network has an address for every slot
  (\<open>plan_ok\<close>, which the default networks fulfil).  Every index from 1 to the number of slots \<open>n\<close>, \<open>n\<close> included, has a slot and
  no other index has one.  The slot with index \<open>i\<close> owns the two addresses of the \<open>i\<close>-th block of two of the
  virtual network, the first for Veth and the second for Vpeer, and the \<open>i\<close>-th address of the host network with
  a mask of one address.  Slots of different indices share no address, no name space and no link name.

  The code disagrees here with two of its own texts, and the theorem is about the code: the comment on \<^verbatim>\<open>Slot\<close>
  gives the first address to Vpeer and the second to Veth, and the error of \<^verbatim>\<open>NewSlot\<close> calls the range
  \<^verbatim>\<open>[1, n)\<close>.
\<close>

theorem slot_plan_ok:
  assumes "indexed_ip getIndexedIP" and "plan_ok vars h hones v vones"
  shows "(case NewSlot getIndexedIP vars key i config of
        Ok s \<Rightarrow> 1 \<le> i \<and> i \<le> vrtSlotsSize vars \<and> slIdx s = i \<and> slot_plan vars s
      | Fail e \<Rightarrow> (i < 1 \<or> vrtSlotsSize vars < i) \<and> e = SlotIndexOutOfRange i (vrtSlotsSize vars)
      | Panic \<Rightarrow> False) \<and>
    (NewSlot getIndexedIP vars key i config = Ok s \<and> NewSlot getIndexedIP vars key' j config = Ok t \<and> i \<noteq> j \<longrightarrow>
      {slVEthIp s, slVPeerIp s} \<inter> {slVEthIp t, slVPeerIp t} = {} \<and> slHostIP s \<noteq> slHostIP t \<and>
      NamespaceID s \<noteq> NamespaceID t \<and> VethName s \<noteq> VethName t)"
proof -
  have ok: "1 \<le> i \<and> i \<le> vrtSlotsSize vars \<and> slIdx s = i \<and> slot_plan vars s"
    if "NewSlot getIndexedIP vars key i config = Ok s" for key i s
    using NewSlot_fields[OF that] indexed_ip.NewSlot_plan[OF assms, of i key config] that by auto
  have out: "NewSlot getIndexedIP vars key i config = Fail (SlotIndexOutOfRange i (vrtSlotsSize vars))"
    if "\<not> (1 \<le> i \<and> i \<le> vrtSlotsSize vars)" for key i
    using that by (auto simp: NewSlot_def)
  show ?thesis
  proof (intro conjI impI; (elim conjE)?)
    show "case NewSlot getIndexedIP vars key i config of
        Ok s \<Rightarrow> 1 \<le> i \<and> i \<le> vrtSlotsSize vars \<and> slIdx s = i \<and> slot_plan vars s
      | Fail e \<Rightarrow> (i < 1 \<or> vrtSlotsSize vars < i) \<and> e = SlotIndexOutOfRange i (vrtSlotsSize vars)
      | Panic \<Rightarrow> False"
      using ok[of key i] out[of i key] indexed_ip.NewSlot_plan[OF assms, of i key config]
      by (cases "1 \<le> i \<and> i \<le> vrtSlotsSize vars") (auto split: go.splits)
    fix dummy :: unit
    assume st: "NewSlot getIndexedIP vars key i config = Ok s" "NewSlot getIndexedIP vars key' j config = Ok t" "i \<noteq> j"
    then show "{slVEthIp s, slVPeerIp s} \<inter> {slVEthIp t, slVPeerIp t} = {}" "slHostIP s \<noteq> slHostIP t"
        "NamespaceID s \<noteq> NamespaceID t" "VethName s \<noteq> VethName t"
      using ok[OF st(1)] ok[OF st(2)] slot_plans_disjoint[of vars s t] slot_names_inject[of s t] by simp_all
  qed
qed

definition a_slot :: Slot where
  "a_slot = \<lparr>slKey = ''1'', slIdx = 1, slFirewall = False, slCustomRules = False, slVPeerIp = IPv4 168558595,
     slVEthIp = IPv4 168558594, slVrtMask = (31, 32), slTapIp = IPv4 2851995670, slTapMask = (30, 32),
     slHostIP = IPv4 168493057, slHostNet = ipnet4 168493057 32, slHostCIDR = ''10.11.0.1/32'', slHyperloopPort = ''5010'',
     slConfig = \<lparr>OrchestratorInSandboxIPAddress = ''192.0.2.1'', HyperloopProxyPort = 5010, NFSProxyPort = 5011,
       PortmapperPort = 5012, UseLocalNamespaceStorage = True, SandboxTCPFirewallHTTPPort = 5016,
       SandboxTCPFirewallTLSPort = 5017, SandboxTCPFirewallOtherPort = 5018\<rparr>\<rparr>"

theorem slot_plan_ok_witness:
  "(case NewSlot indexedIP default_vars ''7'' 7 (slConfig a_slot) of
        Ok s \<Rightarrow> 1 \<le> (7::int) \<and> 7 \<le> vrtSlotsSize default_vars \<and> slIdx s = 7 \<and> slot_plan default_vars s
      | Fail e \<Rightarrow> ((7::int) < 1 \<or> vrtSlotsSize default_vars < 7) \<and> e = SlotIndexOutOfRange 7 (vrtSlotsSize default_vars)
      | Panic \<Rightarrow> False)"
  using slot_plan_ok[OF indexedIP.indexed_ip_axioms default_plan_ok, where key = "''7''" and i = 7 and config = "slConfig a_slot"]
  by blast

text \<open>
  C26.  After a creation that succeeded, a removal in which no call fails takes away exactly what the
  creation left on the host: the name space, the link, the route, the rules, the firewall and what the
  egress proxy set up, each as often as it was made; it reports no error, and the slot is as it was.
\<close>

theorem removal_undoes_creation:
  assumes "CreateNetwork gw answer s = (None, made, s')" and "\<not> slFirewall s"
  shows "\<exists>removed. RemoveNetwork gw (\<lambda>k c. None :: 'e option) s' = (Ok [], removed, s) \<and>
    mset (concat (map released removed)) = mset (acquired True made)"
proof -
  note c = CreateNetwork_ok[OF assms(1)]
  have f: "slFirewall s'" using c(1) by simp
  have s: "s\<lparr>slFirewall := False\<rparr> = s" using assms(2) by (cases s) simp
  have n: "network_resources gw s' = network_resources gw s"
    by (simp add: c(1) network_resources_def rule_defs VethName_def NamespaceID_def)
  show ?thesis
    using RemoveNetwork_quiet[of "\<lambda>k c. None :: 'e option" s' gw] f c(2) n s by (simp add: c(1))
qed

lemma CreateNetwork_quiet:
  "\<not> slFirewall s \<Longrightarrow> \<exists>made. CreateNetwork gw (\<lambda>k c. None :: 'e option) s = (None, made, s\<lparr>slFirewall := True\<rparr>)"
  by (simp add: CreateNetwork_def runCmds_quiet InitializeFirewall_def Let_def)

theorem removal_undoes_creation_witness:
  "\<exists>made s' removed. CreateNetwork ''eth0'' (\<lambda>k c. None :: unit option) a_slot = (None, made, s') \<and>
    RemoveNetwork ''eth0'' (\<lambda>k c. None :: unit option) s' = (Ok [], removed, a_slot) \<and>
    mset (concat (map released removed)) = mset (acquired True made)"
proof -
  have f: "\<not> slFirewall a_slot" by (simp add: a_slot_def)
  obtain made where m: "CreateNetwork ''eth0'' (\<lambda>k c. None :: unit option) a_slot = (None, made, a_slot\<lparr>slFirewall := True\<rparr>)"
    using CreateNetwork_quiet[OF f] by blast
  show ?thesis using removal_undoes_creation[OF m f] m by blast
qed

text \<open>A pool of the default networks, from which two slots are made.\<close>

abbreviation a_env :: "((string \<Rightarrow> unit stat_result) \<times> nat, StorageLocal, unit) pool_env" where
  "a_env \<equiv> local_pool_env (\<lambda>key idx. NewSlot indexedIP default_vars key idx (slConfig a_slot)) ''eth0'' 32 100"

definition a_storage :: StorageLocal where
  "a_storage = \<lparr>stSlotsSize = 32766, stForeignNs = {}, stAcquiredNs = {}\<rparr>"

lemma a_slot_exists:
  assumes "1 \<le> i" "i \<le> 32766"
  shows "\<exists>s. NewSlot indexedIP default_vars key i (slConfig a_slot) = Ok s \<and> \<not> slFirewall s"
  using indexedIP.NewSlot_plan[OF default_plan_ok assms(1), of key "slConfig a_slot"] assms(2)
  by (auto simp: default_vars_def)

lemma a_acquire:
  "\<exists>s st. peAcquire a_env (\<lambda>_. StatNotExist, 5) a_storage = (Ok s, st) \<and> \<not> slFirewall s \<and>
     st = a_storage\<lparr>stAcquiredNs := {getSlotName 2}\<rparr>"
  "\<exists>s st. peAcquire a_env (\<lambda>_. StatNotExist, 5) (a_storage\<lparr>stAcquiredNs := {getSlotName 2}\<rparr>) = (Ok s, st)"
  using a_slot_exists[of 2 "getLocalKey 2"] a_slot_exists[of 3 "getLocalKey 3"]
  by (auto simp: local_pool_env_def local_Acquire_def eval_nat_numeral isNamespaceAvailable_def a_storage_def Let_def)

text \<open>
  C24.  In every reachable state of a pool on the local storage, under every interleaving of \<^verbatim>\<open>Get\<close>, \<^verbatim>\<open>Return\<close>,
  \<^verbatim>\<open>Populate\<close> and \<^verbatim>\<open>Close\<close> and whatever calls fail, two slots in different places (the buffers, the sandboxes
  that use them, the goroutines that create or clean them) share no address, no name space and no link, and
  the storage still holds their indices, so that it gives them to nobody else.
\<close>

theorem pool_slots_exclusive:
  assumes "indexed_ip getIndexedIP" and "plan_ok vars h hones v vones" and "local_ok st"
    and "pool_reachable (local_pool_env (\<lambda>key idx. NewSlot getIndexedIP vars key idx config) gw m n) st (Running p ts)"
    and "a < b" and "b < length (places p ts)"
  shows "{slVEthIp (places p ts ! a), slVPeerIp (places p ts ! a)} \<inter> {slVEthIp (places p ts ! b), slVPeerIp (places p ts ! b)} = {} \<and>
    slHostIP (places p ts ! a) \<noteq> slHostIP (places p ts ! b) \<and> NamespaceID (places p ts ! a) \<noteq> NamespaceID (places p ts ! b) \<and>
    VethName (places p ts ! a) \<noteq> VethName (places p ts ! b) \<and> slIdx (places p ts ! a) \<in> local_held (plStorage p)"
proof -
  let ?s = "places p ts ! a" and ?t = "places p ts ! b"
  note ex = network_pool.reachable_exclusive[OF local_network_pool[OF indexed_ip.NewSlot_law[OF assms(1,2)]] assms(4,3)]
  have mem: "?s \<in> set (places p ts)" "?t \<in> set (places p ts)" using assms(5,6) by simp_all
  have i: "slIdx ?s \<noteq> slIdx ?t"
    using ex(1) assms(5,6) nth_eq_iff_index_eq[of "map slIdx (places p ts)" a b] by simp
  have "slot_plan vars ?s" "slot_plan vars ?t" using ex(2)[OF mem(1)] ex(2)[OF mem(2)] by (simp_all add: planned_def)
  then show ?thesis
    using slot_plans_disjoint[OF _ _ i] slot_names_inject[of ?s ?t] i ex(2)[OF mem(1)] by simp
qed

lemma a_storage_ok: "local_ok a_storage"
  by (simp add: local_ok_def a_storage_def)

lemma a_pool: "NewPool a_env st = Ok \<lparr>plDone = False, plNewSlots = [], plNewClosed = False, plReusedSlots = [],
    plReusedClosed = False, plStorage = st\<rparr>"
  by (simp add: NewPool_def local_pool_env_def)

text \<open>A pool with one slot in the channel and one that is being created.\<close>

lemma two_slots: "\<exists>p s t. pool_reachable a_env a_storage (Running p [PopulateCreate t]) \<and> plNewSlots p = [s] \<and> plReusedSlots p = []"
proof -
  let ?p = "\<lparr>plDone = False, plNewSlots = [], plNewClosed = False, plReusedSlots = [], plReusedClosed = False, plStorage = a_storage\<rparr>"
  obtain s st where s: "peAcquire a_env (\<lambda>_. StatNotExist, 5) a_storage = (Ok s, st)" "\<not> slFirewall s"
      "st = a_storage\<lparr>stAcquiredNs := {getSlotName 2}\<rparr>"
    using a_acquire(1) by blast
  then obtain t st' where t: "peAcquire a_env (\<lambda>_. StatNotExist, 5) st = (Ok t, st')" using a_acquire(2) by blast
  obtain made where c: "CreateNetwork (peGateway a_env) (\<lambda>k c. None :: unit option) s = (None, made, s\<lparr>slFirewall := True\<rparr>)"
    using CreateNetwork_quiet[OF s(2)] by blast
  let ?p1 = "?p\<lparr>plStorage := st\<rparr>" and ?s = "s\<lparr>slFirewall := True\<rparr>"
  let ?p2 = "?p1\<lparr>plNewSlots := [?s]\<rparr>" let ?p3 = "?p2\<lparr>plStorage := st'\<rparr>"
  have "pool_step a_env (Running ?p []) (Running ?p [PopulateLoop])"
    using start[of PopulateLoop a_env ?p "[]"] by (simp add: entry_def)
  moreover have "pool_step a_env (Running ?p [PopulateLoop]) (Running ?p1 [PopulateCreate s])"
    using run_at[of a_env ?p PopulateLoop ?p1 "PopulateCreate s" "[]" "[]"] populate_acquired[of ?p a_env] s(1)
    by (simp add: routine_step_def)
  moreover have "pool_step a_env (Running ?p1 [PopulateCreate s]) (Running ?p1 [PopulateSend ?s])"
    using run_at[of a_env ?p1 "PopulateCreate s" ?p1 "PopulateSend ?s" "[]" "[]"] populate_created[OF c, of ?p1]
    by (simp add: routine_step_def)
  moreover have "pool_step a_env (Running ?p1 [PopulateSend ?s]) (Running ?p2 [PopulateLoop])"
    using run_at[of a_env ?p1 "PopulateSend ?s" ?p2 PopulateLoop "[]" "[]"] populate_send[of ?p1 a_env ?s]
    by (simp add: routine_step_def local_pool_env_def)
  moreover have "pool_step a_env (Running ?p2 [PopulateLoop]) (Running ?p3 [PopulateCreate t])"
    using run_at[of a_env ?p2 PopulateLoop ?p3 "PopulateCreate t" "[]" "[]"] populate_acquired[of ?p2 a_env] t
    by (simp add: routine_step_def)
  ultimately have "(pool_step a_env)\<^sup>*\<^sup>* (Running ?p []) (Running ?p3 [PopulateCreate t])"
    by - ((erule converse_rtranclp_into_rtranclp)+, rule rtranclp.rtrancl_refl)
  then show ?thesis using a_pool by (fastforce simp: pool_reachable_def)
qed

theorem pool_slots_exclusive_witness:
  "\<exists>p ts. pool_reachable a_env a_storage (Running p ts) \<and> length (places p ts) = 2 \<and>
    slHostIP (places p ts ! 0) \<noteq> slHostIP (places p ts ! 1) \<and> NamespaceID (places p ts ! 0) \<noteq> NamespaceID (places p ts ! 1)"
proof -
  obtain p s t where p: "pool_reachable a_env a_storage (Running p [PopulateCreate t])" "plNewSlots p = [s]" "plReusedSlots p = []"
    using two_slots by blast
  have l: "length (places p [PopulateCreate t :: unit routine]) = 2" using p(2,3) by (simp add: places_def)
  show ?thesis
    using pool_slots_exclusive[OF indexedIP.indexed_ip_axioms default_plan_ok a_storage_ok p(1), of 0 1] l p(1) by auto
qed

text \<open>
  While \<^verbatim>\<open>Populate\<close> has not ended, the pool on the local storage has one panic only: a cleanup for which the
  tables cannot be opened.  No slot is given out without its firewall, and the storage never panics.
\<close>

theorem pool_panics:
  assumes "indexed_ip getIndexedIP" and "plan_ok vars h hones v vones" and "local_ok st"
    and "pool_reachable (local_pool_env (\<lambda>key idx. NewSlot getIndexedIP vars key idx config) gw m n) st (Running p ts)"
    and "pool_step (local_pool_env (\<lambda>key idx. NewSlot getIndexedIP vars key idx config) gw m n) (Running p ts) (Crashed c)"
  shows "c = NilTables \<or> plNewClosed p \<and> c \<in> {NilSlot, SendOnClosed, CloseOfClosed}"
  using network_pool.reachable_panic[OF local_network_pool[OF indexed_ip.NewSlot_law[OF assms(1,2)]] assms(4,3,5)]
  by (auto simp: closed_panic_def)

theorem pool_panics_witness:
  "\<exists>p ts. pool_reachable a_env a_storage (Running p ts) \<and> pool_step a_env (Running p ts) (Crashed NilSlot) \<and>
    (NilSlot = NilTables \<or> plNewClosed p \<and> NilSlot \<in> {NilSlot, SendOnClosed, CloseOfClosed})"
proof -
  let ?p = "\<lparr>plDone = False, plNewSlots = [], plNewClosed = False, plReusedSlots = [], plReusedClosed = False, plStorage = a_storage\<rparr>"
  obtain c where c: "(pool_step a_env)\<^sup>*\<^sup>* (Running ?p []) c" "pool_step a_env c (Crashed NilSlot)"
    using get_race[OF a_pool[of a_storage]] by (cases rule: rtranclp.cases) auto
  then obtain p ts where r: "c = Running p ts" by (cases c) (auto elim: pool_step.cases)
  have "pool_reachable a_env a_storage (Running p ts)" using c(1) r a_pool by (auto simp: pool_reachable_def)
  then show ?thesis
    using pool_panics[OF indexedIP.indexed_ip_axioms default_plan_ok a_storage_ok _ c(2)[unfolded r]] c(2) r by blast
qed

text \<open>
  C27.  The shutdown of a pool can crash the process in three ways: a \<^verbatim>\<open>Get\<close> that waits when \<^verbatim>\<open>Populate\<close> ends
  receives a nil slot; two calls of \<^verbatim>\<open>Close\<close> close one channel twice; and, once one slot can be made, a
  \<^verbatim>\<open>Return\<close> that has passed its first check sends to the channel that \<^verbatim>\<open>Close\<close> has closed.
\<close>

theorem pool_shutdown_races:
  fixes env :: "('a, 'st, 'e) pool_env" and answer :: "nat \<Rightarrow> net_cmd \<Rightarrow> 'e option"
  assumes "NewPool env st = Ok p" and "peAcquire env x st = (Ok slot, st')"
    and "CreateNetwork (peGateway env) answer slot = (None, made, slot1)"
  shows "pool_reachable env st (Crashed NilSlot) \<and> pool_reachable env st (Crashed CloseOfClosed) \<and>
    pool_reachable env st (Crashed SendOnClosed)"
  using get_race[OF assms(1)] close_race[OF assms(1)] return_race[OF assms] assms(1) by (auto simp: pool_reachable_def)

theorem pool_shutdown_races_witness:
  "pool_reachable a_env a_storage (Crashed NilSlot) \<and> pool_reachable a_env a_storage (Crashed CloseOfClosed) \<and>
    pool_reachable a_env a_storage (Crashed SendOnClosed)"
proof -
  obtain s st where s: "peAcquire a_env (\<lambda>_. StatNotExist, 5) a_storage = (Ok s, st)" "\<not> slFirewall s"
    using a_acquire(1) by blast
  obtain made where "CreateNetwork (peGateway a_env) (\<lambda>k c. None :: unit option) s = (None, made, s\<lparr>slFirewall := True\<rparr>)"
    using CreateNetwork_quiet[OF s(2)] by blast
  then show ?thesis by (rule pool_shutdown_races[OF a_pool s(1)])
qed

end
