(* ===== verification/Egress_Rules.thy ===== *)
theory Egress_Rules
  imports Network_Setup
begin

text \<open>
  The egress rules of a sandbox, from the request to the decision: the checks of the API
  (\<^verbatim>\<open>validateNetworkConfig\<close> of \<^verbatim>\<open>api/internal/handlers/sandbox_create.go\<close>), the message to the orchestrator
  (\<^verbatim>\<open>buildNetworkConfig\<close> of \<^verbatim>\<open>api/internal/orchestrator/create_instance.go\<close>), the helpers of
  \<^verbatim>\<open>shared/pkg/sandbox-network/firewall.go\<close>, and the TCP firewall of the orchestrator
  (\<^verbatim>\<open>orchestrator/pkg/tcpfirewall\<close>).

  Host names and patterns are ASCII text, for which \<^verbatim>\<open>strings.ToLower\<close> and \<^verbatim>\<open>strings.EqualFold\<close> change
  the letters A to Z only.  \<^verbatim>\<open>idna\<close> is not part of the repository and is an argument.
\<close>

subsection \<open>Strings and host ports\<close>

definition to_lower_char :: "char \<Rightarrow> char" where
  "to_lower_char c = (let n = of_char c :: nat in if 65 \<le> n \<and> n \<le> 90 then char_of (n + 32) else c)"

definition ToLower :: "string \<Rightarrow> string" where "ToLower s = map to_lower_char s"

definition EqualFold :: "string \<Rightarrow> string \<Rightarrow> bool" where "EqualFold s t \<longleftrightarrow> ToLower s = ToLower t"

definition HasPrefix :: "string \<Rightarrow> string \<Rightarrow> bool" where "HasPrefix s p \<longleftrightarrow> take (length p) s = p"

definition HasSuffix :: "string \<Rightarrow> string \<Rightarrow> bool" where
  "HasSuffix s p \<longleftrightarrow> length p \<le> length s \<and> drop (length s - length p) s = p"

fun str_Contains :: "string \<Rightarrow> string \<Rightarrow> bool" where
  "str_Contains [] p \<longleftrightarrow> p = []"
| "str_Contains (c # s) p \<longleftrightarrow> HasPrefix (c # s) p \<or> str_Contains s p"

text \<open>\<^verbatim>\<open>net.SplitHostPort\<close>; the error is the text of its \<^verbatim>\<open>AddrError\<close>.\<close>

definition addrError :: "string \<Rightarrow> string \<Rightarrow> string" where
  "addrError addr err = (if addr = [] then err else ''address '' @ addr @ '': '' @ err)"

definition SplitHostPort :: "string \<Rightarrow> string + string \<times> string" where
  "SplitHostPort hp =
     (let port = rev (takeWhile (\<lambda>c. c \<noteq> CHR '':'') (rev hp)); i = length hp - length port - 1
      in if CHR '':'' \<notin> set hp then Inl (addrError hp ''missing port in address'')
         else if hd hp = CHR ''['' then
           (let e = length (takeWhile (\<lambda>c. c \<noteq> CHR '']'') hp)
            in if CHR '']'' \<notin> set hp then Inl (addrError hp ''missing ']' in address'')
               else if e + 1 = length hp then Inl (addrError hp ''missing port in address'')
               else if e + 1 \<noteq> i then
                 Inl (addrError hp (if hp ! (e + 1) = CHR '':'' then ''too many colons in address'' else ''missing port in address''))
               else if CHR ''['' \<in> set (drop 1 hp) then Inl (addrError hp ''unexpected '[' in address'')
               else if CHR '']'' \<in> set (drop (e + 1) hp) then Inl (addrError hp ''unexpected ']' in address'')
               else Inr (take (e - 1) (drop 1 hp), port))
         else if CHR '':'' \<in> set (take i hp) then Inl (addrError hp ''too many colons in address'')
         else if CHR ''['' \<in> set hp then Inl (addrError hp ''unexpected '[' in address'')
         else if CHR '']'' \<in> set hp then Inl (addrError hp ''unexpected ']' in address'')
         else Inr (take i hp, port))"

definition JoinHostPort :: "string \<Rightarrow> string \<Rightarrow> string" where
  "JoinHostPort host port =
     (if CHR '':'' \<in> set host then ''['' @ host @ '']:'' @ port else host @ '':'' @ port)"

definition splitHostPortOptional :: "string \<Rightarrow> string + string \<times> string" where
  "splitHostPortOptional hostport =
     (case SplitHostPort hostport of
        Inl err \<Rightarrow> if str_Contains err ''missing port'' then Inr (hostport, []) else Inl err
      | Inr hp \<Rightarrow> Inr hp)"

subsection \<open>Addresses in rules\<close>

definition AllInternetTrafficCIDR :: string where "AllInternetTrafficCIDR = ''0.0.0.0/0''"
definition DefaultNameserver :: string where "DefaultNameserver = ''8.8.8.8''"

definition DeniedSandboxCIDRs :: "string list" where
  "DeniedSandboxCIDRs =
     [''10.0.0.0/8'', ''127.0.0.0/8'', ''169.254.0.0/16'', ''172.16.0.0/12'', ''192.168.0.0/16'',
      ''::1/128'', ''fc00::/7'', ''fe80::/10'']"

definition AddressStringToCIDR :: "string \<Rightarrow> string" where
  "AddressStringToCIDR addressString =
     (if str_Contains addressString ''/'' then addressString else addressString @ ''/32'')"

fun AddressStringsToCIDRs :: "string list \<Rightarrow> string list" where
  "AddressStringsToCIDRs [] = []"
| "AddressStringsToCIDRs (a # as) = AddressStringToCIDR a # AddressStringsToCIDRs as"

definition IsIPOrCIDR :: "string \<Rightarrow> bool" where
  "IsIPOrCIDR s \<longleftrightarrow> ParseIP s \<noteq> None \<or> ParseCIDR s \<noteq> None"

definition IsSpecifiedIPOrCIDR :: "string \<Rightarrow> bool" where
  "IsSpecifiedIPOrCIDR s =
     (if \<not> IsIPOrCIDR s then False
      else if s = AllInternetTrafficCIDR then True
      else
        (case ParseIP s of
           Some a \<Rightarrow> \<not> IsUnspecified a
         | None \<Rightarrow>
             (case ParseCIDR s of
                None \<Rightarrow> False
              | Some (a, _) \<Rightarrow> \<not> IsUnspecified a)))"

fun ParseAddressesAndDomains :: "string list \<Rightarrow> string list \<times> string list" where
  "ParseAddressesAndDomains [] = ([], [])"
| "ParseAddressesAndDomains (entry # entries) =
     (let (addresses, domains) = ParseAddressesAndDomains entries
      in if IsIPOrCIDR entry then (entry # addresses, domains) else (addresses, entry # domains))"

subsection \<open>The checks of the API\<close>

datatype network_api_error =
    InvalidMaskRequestHost string
  | MaskRequestHostNotASCII string
  | InvalidDeniedCIDR string
  | InvalidAllowedAddress string
  | DomainsRequireBlockAll

definition validateEgressRules :: "string list \<Rightarrow> string list \<Rightarrow> (network_api_error, unit) go" where
  "validateEgressRules allowOut denyOut =
     (case find (\<lambda>cidr. \<not> IsSpecifiedIPOrCIDR cidr) denyOut of
        Some cidr \<Rightarrow> Fail (InvalidDeniedCIDR cidr)
      | None \<Rightarrow>
          if allowOut \<noteq> [] then
            (let (allowedAddresses, allowedDomains) = ParseAddressesAndDomains allowOut
             in case find (\<lambda>addr. \<not> IsSpecifiedIPOrCIDR addr) allowedAddresses of
                  Some addr \<Rightarrow> Fail (InvalidAllowedAddress addr)
                | None \<Rightarrow>
                    if allowedDomains \<noteq> [] \<and> AllInternetTrafficCIDR \<notin> set denyOut then Fail DomainsRequireBlockAll
                    else Ok ())
          else Ok ())"

record api_SandboxNetworkConfig =
  anMaskRequestHost :: "string option"
  anAllowOut :: "string list option"
  anDenyOut :: "string list option"

definition DerefOrDefault :: "'a option \<Rightarrow> 'a \<Rightarrow> 'a" where
  "DerefOrDefault p d = (case p of None \<Rightarrow> d | Some v \<Rightarrow> v)"

text \<open>\<open>toASCII\<close> is \<^verbatim>\<open>idna.Display.ToASCII\<close>.\<close>

definition validateMask :: "(string \<Rightarrow> string option) \<Rightarrow> string \<Rightarrow> (network_api_error, unit) go" where
  "validateMask toASCII maskRequestHost =
     (case splitHostPortOptional maskRequestHost of
        Inl _ \<Rightarrow> Fail (InvalidMaskRequestHost maskRequestHost)
      | Inr (hostname, _) \<Rightarrow>
          (case toASCII hostname of
             None \<Rightarrow> Fail (InvalidMaskRequestHost maskRequestHost)
           | Some host \<Rightarrow> if \<not> EqualFold host hostname then Fail (MaskRequestHostNotASCII hostname) else Ok ()))"

definition validateNetworkConfig ::
  "(string \<Rightarrow> string option) \<Rightarrow> api_SandboxNetworkConfig option \<Rightarrow> (network_api_error, unit) go" where
  "validateNetworkConfig toASCII network =
     (case network of
        None \<Rightarrow> Ok ()
      | Some n \<Rightarrow>
          go_bind (case anMaskRequestHost n of None \<Rightarrow> Ok () | Some m \<Rightarrow> validateMask toASCII m)
            (\<lambda>_. validateEgressRules (DerefOrDefault (anAllowOut n) []) (DerefOrDefault (anDenyOut n) [])))"

subsection \<open>The message to the orchestrator\<close>

definition buildEgressConfig :: "string list \<Rightarrow> string list \<Rightarrow> EgressMessage" where
  "buildEgressConfig allowedEntries deniedEntries =
     (let (allowedAddresses, allowedDomains) = ParseAddressesAndDomains allowedEntries;
          allowedAddresses1 = (if allowedDomains \<noteq> [] then allowedAddresses @ [DefaultNameserver] else allowedAddresses)
      in \<lparr>emAllowedCidrs = AddressStringsToCIDRs allowedAddresses1, emAllowedDomains = allowedDomains,
          emDeniedCidrs = AddressStringsToCIDRs deniedEntries\<rparr>)"

definition empty_egress :: EgressMessage where
  "empty_egress = \<lparr>emAllowedCidrs = [], emAllowedDomains = [], emDeniedCidrs = []\<rparr>"

definition buildNetworkConfig ::
  "SandboxNetworkConfig option \<Rightarrow> bool option \<Rightarrow> string option \<Rightarrow> NetworkMessage" where
  "buildNetworkConfig network allowInternetAccess trafficAccessToken =
     (let egress = (case Option.bind network ncEgress of
            None \<Rightarrow> empty_egress
          | Some e \<Rightarrow> buildEgressConfig (egAllowed e) (egDenied e));
          mask = (case Option.bind network ncIngress of None \<Rightarrow> None | Some i \<Rightarrow> inMaskRequestHost i);
          egress1 = (if allowInternetAccess = Some False then egress\<lparr>emDeniedCidrs := [AllInternetTrafficCIDR]\<rparr> else egress)
      in \<lparr>nmIngress = Some \<lparr>imTrafficAccessToken = trafficAccessToken, imMaskRequestHost = mask\<rparr>, nmEgress = Some egress1\<rparr>)"

text \<open>What \<^verbatim>\<open>Create\<close> of the orchestrator's server does with the message, by the node's or the request's setting.\<close>

definition restrictNetwork :: "bool \<Rightarrow> bool option \<Rightarrow> NetworkMessage option \<Rightarrow> NetworkMessage option" where
  "restrictNetwork allowSandboxInternet allowInternetAccess network =
     (let allowInternet = DerefOrDefault allowInternetAccess allowSandboxInternet
      in if \<not> allowInternet then
           (let n = DerefOrDefault network \<lparr>nmIngress = None, nmEgress = None\<rparr>;
                e = DerefOrDefault (nmEgress n) empty_egress
            in Some (n\<lparr>nmEgress := Some (e\<lparr>emDeniedCidrs := [AllInternetTrafficCIDR]\<rparr>)\<rparr>))
         else network)"

subsection \<open>The decision\<close>

datatype MatchType = MatchTypeDomain | MatchTypeCIDR | MatchTypeNone

datatype egress_error = InvalidAllowed string | InvalidDenied string

definition matchDomain :: "string \<Rightarrow> string \<Rightarrow> bool" where
  "matchDomain hostname pattern =
     (if pattern = [] then False
      else if EqualFold pattern hostname then True
      else if EqualFold pattern ''*'' then True
      else if HasPrefix pattern ''*.'' then HasSuffix (ToLower hostname) (ToLower (drop 1 pattern))
      else False)"

text \<open>A loop over networks: the first that contains the address, or the first that cannot be read.\<close>

fun cidrLoop :: "string list \<Rightarrow> ip \<Rightarrow> string + bool" where
  "cidrLoop [] a = Inr False"
| "cidrLoop (cidr # cidrs) a =
     (case ParseCIDR cidr of
        None \<Rightarrow> Inl cidr
      | Some (_, ipNet) \<Rightarrow> if Contains ipNet a then Inr True else cidrLoop cidrs a)"

definition isEgressAllowed :: "EgressMessage option \<Rightarrow> string \<Rightarrow> ip \<Rightarrow> (egress_error, bool \<times> MatchType) go" where
  "isEgressAllowed egress hostname a =
     (case egress of
        None \<Rightarrow> Ok (True, MatchTypeNone)
      | Some e \<Rightarrow>
          if hostname \<noteq> [] \<and> (\<exists>domain \<in> set (emAllowedDomains e). matchDomain hostname domain)
          then Ok (True, MatchTypeDomain)
          else
            (case cidrLoop (emAllowedCidrs e) a of
               Inl cidr \<Rightarrow> Fail (InvalidAllowed cidr)
             | Inr True \<Rightarrow> Ok (True, MatchTypeCIDR)
             | Inr False \<Rightarrow>
                 (case cidrLoop (emDeniedCidrs e) a of
                    Inl cidr \<Rightarrow> Fail (InvalidDenied cidr)
                  | Inr True \<Rightarrow> Ok (False, MatchTypeCIDR)
                  | Inr False \<Rightarrow> Ok (True, MatchTypeNone))))"

fun deniedLoop :: "string list \<Rightarrow> ip \<Rightarrow> bool" where
  "deniedLoop [] a = False"
| "deniedLoop (cidr # cidrs) a =
     (case ParseCIDR cidr of
        None \<Rightarrow> deniedLoop cidrs a
      | Some (_, ipNet) \<Rightarrow> if Contains ipNet a then True else deniedLoop cidrs a)"

definition isIPInAlwaysDeniedCIDRs :: "ip \<Rightarrow> bool" where
  "isIPInAlwaysDeniedCIDRs a = deniedLoop DeniedSandboxCIDRs a"

subsection \<open>The handlers of connections\<close>

text \<open>
  A connection is closed, handed to a host name that is resolved again, or to an address.  \<^verbatim>\<open>ControlContext\<close>
  runs on every address that the name resolves to, before \<^verbatim>\<open>connect\<close>; \<open>resolved\<close> are these addresses.
\<close>

datatype upstream = CloseConn | DialHost string | DialAddr string

definition domainHandler :: "EgressMessage option \<Rightarrow> string \<Rightarrow> ip \<Rightarrow> int \<Rightarrow> upstream" where
  "domainHandler egress hostname dstIP dstPort =
     (case isEgressAllowed egress hostname dstIP of
        Ok (allowed, matchType) \<Rightarrow>
          if \<not> allowed then CloseConn
          else if matchType = MatchTypeDomain then DialHost (JoinHostPort hostname (Itoa dstPort))
          else DialAddr (JoinHostPort (ip_String dstIP) (Itoa dstPort))
      | _ \<Rightarrow> CloseConn)"

definition cidrOnlyHandler :: "EgressMessage option \<Rightarrow> ip \<Rightarrow> int \<Rightarrow> upstream" where
  "cidrOnlyHandler egress dstIP dstPort =
     (case isEgressAllowed egress [] dstIP of
        Ok (allowed, matchType) \<Rightarrow>
          if \<not> allowed then CloseConn else DialAddr (JoinHostPort (ip_String dstIP) (Itoa dstPort))
      | _ \<Rightarrow> CloseConn)"

definition controlContext :: "string \<Rightarrow> bool" where
  "controlContext addr =
     (case SplitHostPort addr of
        Inl _ \<Rightarrow> False
      | Inr (host, _) \<Rightarrow>
          (case ParseIP host of
             None \<Rightarrow> False
           | Some a \<Rightarrow> \<not> isIPInAlwaysDeniedCIDRs a))"

definition connects :: "upstream \<Rightarrow> string list \<Rightarrow> string list" where
  "connects u resolved =
     (case u of
        CloseConn \<Rightarrow> []
      | DialHost _ \<Rightarrow> filter controlContext resolved
      | DialAddr a \<Rightarrow> [a])"

text \<open>The original destination of a connection, from the 16 bytes of the socket option.\<close>

definition getOriginalDst :: "byte list \<Rightarrow> ip \<times> int" where
  "getOriginalDst addr =
     (let b = \<lambda>i. uint (addr ! i)
      in (IPv4 (b 4 * 2 ^ 24 + b 5 * 2 ^ 16 + b 6 * 2 ^ 8 + b 7), b 2 * 256 + b 3))"

subsection \<open>The rules of the host\<close>

record proxyRule =
  prDstPort :: string
  prProxyPort :: string

definition proxyRules :: "Config \<Rightarrow> proxyRule list" where
  "proxyRules c =
     [\<lparr>prDstPort = ''80'', prProxyPort = Itoa (SandboxTCPFirewallHTTPPort c)\<rparr>,
      \<lparr>prDstPort = ''443'', prProxyPort = Itoa (SandboxTCPFirewallTLSPort c)\<rparr>,
      \<lparr>prDstPort = [], prProxyPort = Itoa (SandboxTCPFirewallOtherPort c)\<rparr>]"

definition ruleArgs :: "Slot \<Rightarrow> proxyRule \<Rightarrow> string list" where
  "ruleArgs s rule =
     [''-i'', VethName s, ''-p'', ''tcp''] @ (if prDstPort rule \<noteq> [] then [''--dport'', prDstPort rule] else []) @
     [''-j'', ''REDIRECT'', ''--to-port'', prProxyPort rule]"

definition proxy_OnSlotCreate ::
  "(nat \<Rightarrow> net_cmd \<Rightarrow> 'e option) \<Rightarrow> Config \<Rightarrow> Slot \<Rightarrow> net_cmd list \<times> (net_cmd \<times> 'e) option" where
  "proxy_OnSlotCreate answer c s = runCmds answer 0 (map (\<lambda>r. Append ''nat'' ''PREROUTING'' (ruleArgs s r)) (proxyRules c))"

definition proxy_OnSlotDelete ::
  "(nat \<Rightarrow> net_cmd \<Rightarrow> 'e option) \<Rightarrow> Config \<Rightarrow> Slot \<Rightarrow> net_cmd list \<times> (net_cmd \<times> 'e) list" where
  "proxy_OnSlotDelete answer c s = tryCmds answer 0 (map (\<lambda>r. Delete ''nat'' ''PREROUTING'' (ruleArgs s r)) (proxyRules c))"

subsection \<open>Texts of addresses have no slash\<close>

lemma split_on_set: "c \<in> set s \<Longrightarrow> c = sep \<or> (\<exists>f\<in>set (split_on sep s). c \<in> set f)"
  by (induction sep s rule: split_on.induct) (auto split: list.splits if_splits)

lemma parseIPv4_chars:
  assumes "parseIPv4 s = Some v" "c \<in> set s"
  shows "is_digit c \<or> c = CHR ''.''"
proof -
  have "list_all octet_ok (split_on CHR ''.'' s)"
    using assms(1) by (auto simp: parseIPv4_def split: list.splits if_splits)
  then show ?thesis
    using split_on_set[OF assms(2), of "CHR ''.''"] by (auto simp: octet_ok_def list_all_iff)
qed

definition ip6_char :: "char \<Rightarrow> bool" where
  "ip6_char c \<longleftrightarrow> hex_value c \<noteq> None \<or> c = CHR '':'' \<or> c = CHR ''.''"

lemma hex_digit: "is_digit c \<Longrightarrow> hex_value c \<noteq> None"
  by (simp add: is_digit_def hex_value_def Let_def) (metis of_nat_le_iff of_nat_numeral of_nat_of_char)

lemma hex_group_chars: "hex_group s = (acc, s1) \<Longrightarrow> c \<in> set s \<Longrightarrow> hex_value c \<noteq> None \<or> c \<in> set s1"
proof -
  assume "hex_group s = (acc, s1)" "c \<in> set s"
  then have "c \<in> set (takeWhile (\<lambda>c. hex_value c \<noteq> None) s @ s1)"
    unfolding hex_group_def by (metis snd_conv takeWhile_dropWhile_id)
  then show ?thesis using set_takeWhileD[of c "\<lambda>c. hex_value c \<noteq> None" s] by auto
qed

lemma parseGroups_chars:
  "parseGroups k el s = Some r \<Longrightarrow> c \<in> set s \<Longrightarrow> ip6_char c"
proof (induction k el s arbitrary: r rule: parseGroups.induct)
  case (1 k el s)
  obtain acc s1 where g: "hex_group s = (acc, s1)" by fastforce
  from hex_group_chars[OF g 1(4)] consider "ip6_char c" | "c \<in> set s1" by (auto simp: ip6_char_def)
  then show ?case
  proof cases
    case 2
    then obtain d s2 where s1: "s1 = d # s2" by (cases s1) auto
    show ?thesis
    proof (cases "d = CHR ''.''")
      case True
      then obtain v where "parseIPv4 s = Some v"
        using 1(3) g s1 by (subst (asm) parseGroups.simps) (auto split: if_splits)
      from parseIPv4_chars[OF this 1(4)] show ?thesis using hex_digit by (auto simp: ip6_char_def)
    next
      case False
      note e = 1(3)[unfolded parseGroups.simps[of k el s] g, simplified s1 Let_def prod.case list.sel]
      have d: "d = CHR '':''" using e False by (auto split: if_splits)
      have "s2 \<noteq> []" using e False by (auto split: if_splits)
      then obtain x s3 where s2: "s2 = x # s3" by (cases s2) auto
      show ?thesis
      proof (cases "x = CHR '':''")
        case True
        then show ?thesis
          using 1(1)[of "(acc, s1)" acc s1] e 2 d g s1 s2 by (auto simp: ip6_char_def split: if_splits)
      next
        case False
        then show ?thesis
          using 1(2)[of "(acc, s1)" acc s1] e 2 d g s1 s2 by (auto simp: ip6_char_def split: if_splits)
      qed
    qed
  qed
qed

lemma ParseAddr_no_slash:
  assumes "ParseAddr s = Some a"
  shows "CHR ''/'' \<notin> set s"
proof
  assume slash: "CHR ''/'' \<in> set s"
  have no6: "\<not> ip6_char CHR ''/''"
    by (simp add: ip6_char_def hex_value_def)
  have no4: "parseIPv4 s \<noteq> Some v" for v
    using parseIPv4_chars[OF _ slash] by (auto simp: is_digit_def)
  have "parseIPv6 s \<noteq> Some v" for v
  proof
    assume v: "parseIPv6 s = Some v"
    then have "s \<noteq> ''::''" using slash by auto
    moreover have "set s = set (take 2 s) \<union> set (drop 2 s)"
      by (metis append_take_drop_id set_append)
    then have "CHR ''/'' \<in> set (drop 2 s)" if "take 2 s = ''::''"
      using slash unfolding that by auto
    ultimately show False
      using v slash no6 parseGroups_chars[of 0 "Some 0" "drop 2 s" _ "CHR ''/''"] parseGroups_chars[of 0 None s _ "CHR ''/''"]
      by (auto simp: parseIPv6_def split: if_splits option.splits)
  qed
  with no4 assms show False
    by (auto simp: ParseAddr_def split: list.splits if_splits)
qed

lemma str_Contains_char: "str_Contains s [c] \<longleftrightarrow> c \<in> set s"
  by (induction s) (auto simp: HasPrefix_def)

subsection \<open>What an entry stands for\<close>

definition cidr_contains :: "string \<Rightarrow> ip \<Rightarrow> bool" where
  "cidr_contains cidr a = (case ParseCIDR cidr of None \<Rightarrow> False | Some (_, ipNet) \<Rightarrow> Contains ipNet a)"

definition entry_matches :: "string \<Rightarrow> ip \<Rightarrow> bool" where
  "entry_matches entry a = cidr_contains (AddressStringToCIDR entry) a"

lemma ParseCIDR_plain:
  assumes "ParseAddr s = Some a"
  shows "ParseCIDR (s @ ''/32'') =
    Some (parsed_ip a, case a of Parsed4 v \<Rightarrow> ipnet4 v 32 | Parsed6 v \<Rightarrow> ipnet6 v 32)"
proof -
  have no: "\<And>c. c \<in> set s \<Longrightarrow> c \<noteq> CHR ''/''" using ParseAddr_no_slash[OF assms] by auto
  have "takeWhile (\<lambda>c. c \<noteq> CHR ''/'') (s @ ''/32'') = s" "dropWhile (\<lambda>c. c \<noteq> CHR ''/'') (s @ ''/32'') = ''/32''"
    using no by (simp_all add: takeWhile_append2 dropWhile_append2)
  moreover have "list_all is_digit ''32''" "decimal_value ''32'' = 32" by code_simp+
  ultimately show ?thesis using assms by (cases a) (simp_all add: ParseCIDR_def)
qed

lemma AddressStringToCIDR_slash: "CHR ''/'' \<in> set (AddressStringToCIDR s)"
  by (simp add: AddressStringToCIDR_def str_Contains_char)

lemma AddressStringToCIDR_idem: "AddressStringToCIDR (AddressStringToCIDR s) = AddressStringToCIDR s"
  using AddressStringToCIDR_slash[of s] by (simp add: AddressStringToCIDR_def[of "AddressStringToCIDR s"] str_Contains_char)

text \<open>Every entry that passes the check is a network after the conversion.\<close>

lemma entry_parses:
  assumes "IsIPOrCIDR s"
  shows "ParseCIDR (AddressStringToCIDR s) \<noteq> None"
proof (cases "CHR ''/'' \<in> set s")
  case True
  then show ?thesis
    using assms ParseAddr_no_slash by (auto simp: IsIPOrCIDR_def ParseIP_def AddressStringToCIDR_def str_Contains_char)
next
  case False
  then have "ParseAddr s \<noteq> None"
    using assms by (auto simp: IsIPOrCIDR_def ParseIP_def ParseCIDR_def)
  then show ?thesis
    using False ParseCIDR_plain by (auto simp: AddressStringToCIDR_def str_Contains_char)
qed

lemma entry_stays_address: "IsIPOrCIDR s \<Longrightarrow> IsIPOrCIDR (AddressStringToCIDR s)"
  using entry_parses by (simp add: IsIPOrCIDR_def)

lemma Contains_single: "Contains (ipnet4 v 32) a \<longleftrightarrow> a = IPv4 v"
  by (cases a) (auto simp: Contains_def ipnet4_def mask_to_def)

text \<open>
  An IPv4 address stands for itself.  An IPv6 address stands for all that share its first 32 bits; one that
  embeds an IPv4 address stands for no IPv4 address at all.
\<close>

lemma entry_meaning:
  "ParseAddr s = Some (Parsed4 v) \<Longrightarrow> entry_matches s a \<longleftrightarrow> a = IPv4 v"
  "ParseAddr s = Some (Parsed6 w) \<Longrightarrow> ip16 w = IPv4 v \<Longrightarrow> \<not> entry_matches s (IPv4 u)"
proof -
  assume p: "ParseAddr s = Some (Parsed4 v)"
  have "AddressStringToCIDR s = s @ ''/32''"
    using ParseAddr_no_slash[OF p] by (simp add: AddressStringToCIDR_def str_Contains_char)
  then show "entry_matches s a \<longleftrightarrow> a = IPv4 v"
    using ParseCIDR_plain[OF p] by (simp add: entry_matches_def cidr_contains_def Contains_single)
next
  assume p: "ParseAddr s = Some (Parsed6 w)" and w: "ip16 w = IPv4 v"
  have d: "w div 4294967296 = 65535" using w by (simp add: ip16_def split: if_splits)
  have "w div 79228162514264337593543950336 = w div 4294967296 div 18446744073709551616"
    by (simp flip: zdiv_zmult2_eq)
  then have "mask_to 128 32 w = 0" using d by (simp add: mask_to_def)
  then have n: "netIP (ipnet6 w 32) = IPv6 0" by (simp add: ipnet6_def ip16_def)
  have "AddressStringToCIDR s = s @ ''/32''"
    using ParseAddr_no_slash[OF p] by (simp add: AddressStringToCIDR_def str_Contains_char)
  then show "\<not> entry_matches s (IPv4 u)"
    using ParseCIDR_plain[OF p] by (simp add: entry_matches_def cidr_contains_def Contains_def n)
qed

lemma bare_ipv6_covers_block:
  assumes p: "ParseAddr s = Some (Parsed6 w)"
  shows "entry_matches s (IPv6 x) \<longleftrightarrow> w div 2 ^ 96 = x div 2 ^ 96"
proof -
  let ?m = "w div 2 ^ 96 * 2 ^ 96"
  have "?m div 2 ^ 32 = w div 2 ^ 96 * 2 ^ 64" by simp
  then have "2 ^ 64 dvd ?m div 2 ^ 32" by simp
  moreover have "\<not> (2 :: int) ^ 64 dvd 65535" by simp
  ultimately have "?m div 2 ^ 32 \<noteq> 65535" by metis
  then have n: "netIP (ipnet6 w 32) = IPv6 ?m" by (simp add: ipnet6_def ip16_def mask_to_def)
  have "AddressStringToCIDR s = s @ ''/32''"
    using ParseAddr_no_slash[OF p] by (simp add: AddressStringToCIDR_def str_Contains_char)
  then show ?thesis
    using ParseCIDR_plain[OF p] by (simp add: entry_matches_def cidr_contains_def Contains_def n mask_to_def) (simp add: ipnet6_def)
qed

lemma cidrLoop_Inr:
  "\<forall>c\<in>set cs. ParseCIDR c \<noteq> None \<Longrightarrow> cidrLoop cs a = Inr (\<exists>c\<in>set cs. cidr_contains c a)"
  by (induction cs) (auto simp: cidr_contains_def)

lemma AddressStringsToCIDRs_map: "AddressStringsToCIDRs as = map AddressStringToCIDR as"
  by (induction as) simp_all

lemma ParseAddressesAndDomains_filter:
  "ParseAddressesAndDomains es = (filter IsIPOrCIDR es, filter (\<lambda>e. \<not> IsIPOrCIDR e) es)"
  by (induction es) simp_all

lemma deniedLoop_ex: "deniedLoop cs a \<longleftrightarrow> (\<exists>c\<in>set cs. cidr_contains c a)"
  by (induction cs) (auto simp: cidr_contains_def split: option.splits)

subsection \<open>The specification\<close>

text \<open>
  The rules as a user states them.  A destination is allowed when its host name matches an allowed domain,
  when an allowed address stands for it, when it is the name server and some domain is allowed, or when no
  denied address stands for it.
\<close>

definition nameserver :: ip where "nameserver = IPv4 134744072"

definition egress_spec :: "string list \<Rightarrow> string list \<Rightarrow> string \<Rightarrow> ip \<Rightarrow> bool" where
  "egress_spec allow deny host a \<longleftrightarrow>
     host \<noteq> [] \<and> (\<exists>d\<in>set allow. \<not> IsIPOrCIDR d \<and> matchDomain host d) \<or>
     (\<exists>e\<in>set allow. IsIPOrCIDR e \<and> entry_matches e a) \<or>
     a = nameserver \<and> (\<exists>d\<in>set allow. \<not> IsIPOrCIDR d) \<or>
     (\<forall>e\<in>set deny. \<not> entry_matches e a)"

lemma nameserver_parse: "ParseAddr DefaultNameserver = Some (Parsed4 134744072)"
  using ParseAddr_dotted[of 134744072] by (simp add: DefaultNameserver_def) code_simp

lemma nameserver_entry: "IsIPOrCIDR DefaultNameserver" "entry_matches DefaultNameserver a \<longleftrightarrow> a = nameserver"
  using entry_meaning(1)[OF nameserver_parse] by (simp_all add: IsIPOrCIDR_def ParseIP_def nameserver_parse nameserver_def)

lemma all_traffic_entry: "IsIPOrCIDR AllInternetTrafficCIDR" "0 \<le> v \<Longrightarrow> v < 2 ^ 32 \<Longrightarrow> entry_matches AllInternetTrafficCIDR (IPv4 v)"
proof -
  have "dotted 0 @ ''/'' @ nat_string 0 = AllInternetTrafficCIDR" by code_simp
  then have p: "ParseCIDR AllInternetTrafficCIDR = Some (IPv4 0, ipnet4 0 0)"
    using ParseCIDR_dotted[of 0 0] by simp
  then show "IsIPOrCIDR AllInternetTrafficCIDR" by (simp add: IsIPOrCIDR_def)
  have "AddressStringToCIDR AllInternetTrafficCIDR = AllInternetTrafficCIDR" by code_simp
  then show "0 \<le> v \<Longrightarrow> v < 2 ^ 32 \<Longrightarrow> entry_matches AllInternetTrafficCIDR (IPv4 v)"
    using p by (auto simp: entry_matches_def cidr_contains_def Contains_def ipnet4_def mask_to_def)
qed

lemma specified_is_address: "IsSpecifiedIPOrCIDR e \<Longrightarrow> IsIPOrCIDR e"
  by (simp add: IsSpecifiedIPOrCIDR_def split: if_splits)

lemma validateEgressRules_denied:
  "validateEgressRules allow deny = Ok () \<Longrightarrow> \<forall>e\<in>set deny. IsIPOrCIDR e"
  using specified_is_address by (auto simp: validateEgressRules_def find_None_iff split: option.splits)

lemma buildEgressConfig_decides:
  assumes "\<forall>e\<in>set deny. IsIPOrCIDR e"
  shows "\<exists>m. isEgressAllowed (Some (buildEgressConfig allow deny)) host a = Ok (egress_spec allow deny host a, m)"
proof -
  let ?e = "buildEgressConfig allow deny"
  let ?as = "filter IsIPOrCIDR allow @ (if \<exists>d\<in>set allow. \<not> IsIPOrCIDR d then [DefaultNameserver] else [])"
  have e: "emAllowedCidrs ?e = map AddressStringToCIDR ?as" "emDeniedCidrs ?e = map AddressStringToCIDR deny"
    "set (emAllowedDomains ?e) = {d \<in> set allow. \<not> IsIPOrCIDR d}"
    by (auto simp: buildEgressConfig_def ParseAddressesAndDomains_filter AddressStringsToCIDRs_map Let_def filter_empty_conv)
  have as: "\<forall>c\<in>set (emAllowedCidrs ?e). ParseCIDR c \<noteq> None"
    unfolding e(1) using entry_parses nameserver_entry(1) by auto
  have ds: "\<forall>c\<in>set (emDeniedCidrs ?e). ParseCIDR c \<noteq> None"
    unfolding e(2) using entry_parses assms by auto
  have am: "(\<exists>c\<in>set (emAllowedCidrs ?e). cidr_contains c a) \<longleftrightarrow>
      (\<exists>e\<in>set allow. IsIPOrCIDR e \<and> entry_matches e a) \<or> a = nameserver \<and> (\<exists>d\<in>set allow. \<not> IsIPOrCIDR d)"
    unfolding e(1) using nameserver_entry(2) by (auto simp: entry_matches_def)
  have dm: "(\<exists>c\<in>set (emDeniedCidrs ?e). cidr_contains c a) \<longleftrightarrow> (\<exists>e\<in>set deny. entry_matches e a)"
    unfolding e(2) by (simp add: entry_matches_def)
  show ?thesis
    unfolding isEgressAllowed_def option.case cidrLoop_Inr[OF as] cidrLoop_Inr[OF ds] am dm e(3) egress_spec_def
    by (auto split: bool.split)
qed

subsection \<open>The meaning of a rule\<close>

text \<open>
  What a rule for IPv4 says, independent of the functions above that carry it out.  An entry is an address, or
  an address and the length of a prefix; it covers the addresses with the same leading bits, for an address
  without a prefix length itself alone.  A name pattern is \<^verbatim>\<open>*\<close> for every host, \<^verbatim>\<open>*.\<close> followed by a
  domain for the hosts below it, or a host name; letters count without case.
\<close>

definition ipv4_rule :: "string \<Rightarrow> (int \<times> nat) option" where
  "ipv4_rule e =
     (let addr = takeWhile (\<lambda>c. c \<noteq> CHR ''/'') e; rest = dropWhile (\<lambda>c. c \<noteq> CHR ''/'') e
      in (case parseIPv4 addr of
            None \<Rightarrow> None
          | Some v \<Rightarrow>
              if rest = [] then Some (v, 32)
              else if tl rest \<noteq> [] \<and> list_all is_digit (tl rest) \<and> decimal_value (tl rest) \<le> 32
              then Some (v, decimal_value (tl rest))
              else None))"

definition rule_covers :: "string \<Rightarrow> int \<Rightarrow> bool" where
  "rule_covers e u = (case ipv4_rule e of None \<Rightarrow> False | Some (v, n) \<Rightarrow> u div 2 ^ (32 - n) = v div 2 ^ (32 - n))"

definition name_covers :: "string \<Rightarrow> string \<Rightarrow> bool" where
  "name_covers d host \<longleftrightarrow>
     d = ''*'' \<or> d \<noteq> [] \<and> map to_lower_char d = map to_lower_char host \<or>
     take 2 d = ''*.'' \<and> (\<exists>n \<le> length host. map to_lower_char (drop n host) = map to_lower_char (drop 1 d))"

text \<open>The functions of the code agree with it on text without a colon, which no IPv6 text is.\<close>

lemma split_on_none: "sep \<notin> set s \<Longrightarrow> split_on sep s = [s]"
  by (induction s) auto

lemma ParseAddr_no_colon:
  assumes "CHR '':'' \<notin> set s"
  shows "ParseAddr s = map_option Parsed4 (parseIPv4 s)"
proof (cases "filter (\<lambda>c. c = CHR ''.'' \<or> c = CHR '':'' \<or> c = CHR ''%'') s")
  case Nil
  then have "CHR ''.'' \<notin> set s" by (auto simp: filter_empty_conv)
  then have "parseIPv4 s = None" by (simp add: parseIPv4_def split_on_none)
  with Nil show ?thesis by (simp add: ParseAddr_def)
next
  case (Cons c cs)
  then have "c \<in> set (filter (\<lambda>c. c = CHR ''.'' \<or> c = CHR '':'' \<or> c = CHR ''%'') s)" by simp
  with assms have c: "c = CHR ''.'' \<or> c = CHR ''%''" "c \<in> set s" by auto
  have "parseIPv4 s = None" if "c = CHR ''%''"
    using parseIPv4_chars[of s _ c] c(2) that by (cases "parseIPv4 s") (auto simp: is_digit_def)
  with c(1) Cons show ?thesis by (auto simp: ParseAddr_def)
qed

lemma slash_parts:
  "CHR ''/'' \<notin> set s \<Longrightarrow> takeWhile (\<lambda>c. c \<noteq> CHR ''/'') s = s"
  "CHR ''/'' \<notin> set s \<Longrightarrow> dropWhile (\<lambda>c. c \<noteq> CHR ''/'') s = []"
  "CHR ''/'' \<in> set s \<Longrightarrow> dropWhile (\<lambda>c. c \<noteq> CHR ''/'') s \<noteq> []"
  by (auto simp: dropWhile_eq_Nil_conv takeWhile_eq_all_conv)

lemma parseIPv4_no_slash: "parseIPv4 s = Some v \<Longrightarrow> CHR ''/'' \<notin> set s"
  using parseIPv4_chars[of s v "CHR ''/''"] by (auto simp: is_digit_def)

lemma ParseCIDR_rule:
  assumes "CHR '':'' \<notin> set e" "CHR ''/'' \<in> set e"
  shows "ParseCIDR e = map_option (\<lambda>(v, n). (IPv4 v, ipnet4 v n)) (ipv4_rule e)"
proof -
  have "CHR '':'' \<notin> set (takeWhile (\<lambda>c. c \<noteq> CHR ''/'') e)" using assms(1) by (auto dest: set_takeWhileD)
  from ParseAddr_no_colon[OF this] show ?thesis
    using slash_parts(3)[OF assms(2)] assms(2) unfolding ParseCIDR_def ipv4_rule_def Let_def
    by (cases "parseIPv4 (takeWhile (\<lambda>c. c \<noteq> CHR ''/'') e)") (simp_all del: dropWhile_eq_Nil_conv)
qed

lemma ipv4_rule_plain: "CHR ''/'' \<notin> set e \<Longrightarrow> ipv4_rule e = map_option (\<lambda>v. (v, 32)) (parseIPv4 e)"
  by (cases "parseIPv4 e") (simp_all add: ipv4_rule_def Let_def slash_parts(1,2))

lemma IsIPOrCIDR_rule:
  assumes "CHR '':'' \<notin> set e"
  shows "IsIPOrCIDR e \<longleftrightarrow> ipv4_rule e \<noteq> None"
proof (cases "CHR ''/'' \<in> set e")
  case True
  then have "parseIPv4 e = None" using parseIPv4_no_slash by (cases "parseIPv4 e") auto
  then show ?thesis
    using ParseCIDR_rule[OF assms True] by (simp add: IsIPOrCIDR_def ParseIP_def ParseAddr_no_colon[OF assms])
next
  case False
  then show ?thesis
    using ipv4_rule_plain[OF False] ParseAddr_no_colon[OF assms]
    by (simp add: IsIPOrCIDR_def ParseIP_def ParseCIDR_def)
qed

lemma Contains_prefix: "Contains (ipnet4 v n) (IPv4 u) \<longleftrightarrow> u div 2 ^ (32 - n) = v div 2 ^ (32 - n)"
  by (auto simp: Contains_def ipnet4_def mask_to_def)

lemma entry_matches_rule:
  assumes "CHR '':'' \<notin> set e"
  shows "IsIPOrCIDR e \<Longrightarrow> entry_matches e (IPv4 u) \<longleftrightarrow> rule_covers e u"
proof (cases "CHR ''/'' \<in> set e")
  case True
  then have "AddressStringToCIDR e = e" by (simp add: AddressStringToCIDR_def str_Contains_char)
  then show ?thesis
    using ParseCIDR_rule[OF assms True]
    by (auto simp: entry_matches_def cidr_contains_def rule_covers_def Contains_prefix split: option.splits)
next
  assume ip: "IsIPOrCIDR e"
  case False
  then obtain v where v: "parseIPv4 e = Some v"
    using ip IsIPOrCIDR_rule[OF assms] ipv4_rule_plain[OF False] by auto
  then have "ParseAddr e = Some (Parsed4 v)" using ParseAddr_no_colon[OF assms] by simp
  from entry_meaning(1)[OF this] show ?thesis
    using v ipv4_rule_plain[OF False] by (auto simp: rule_covers_def)
qed

lemma lower_star: "to_lower_char c = CHR ''*'' \<longleftrightarrow> c = CHR ''*''"
proof -
  have "to_lower_char c \<noteq> CHR ''*''" if n: "65 \<le> (of_char c :: nat)" "of_char c \<le> (90 :: nat)"
  proof
    assume "to_lower_char c = CHR ''*''"
    then have "(of_char (char_of (of_char c + 32 :: nat)) :: nat) = 42" using n by (simp add: to_lower_char_def Let_def)
    with n show False by simp
  qed
  then show ?thesis by (auto simp: to_lower_char_def Let_def)
qed

lemma matchDomain_name: "matchDomain host d \<longleftrightarrow> name_covers d host"
proof -
  have "to_lower_char CHR ''*'' = CHR ''*''" by (simp add: lower_star)
  then have "EqualFold d ''*'' \<longleftrightarrow> map to_lower_char d = ''*''" by (simp add: EqualFold_def ToLower_def)
  also have "\<dots> \<longleftrightarrow> d = ''*''" by (auto simp: lower_star map_eq_Cons_conv)
  finally have star: "EqualFold d ''*'' \<longleftrightarrow> d = ''*''" .
  have suf: "HasSuffix (ToLower host) (ToLower t) \<longleftrightarrow>
      (\<exists>n \<le> length host. map to_lower_char (drop n host) = map to_lower_char t)" for t
  proof
    assume "HasSuffix (ToLower host) (ToLower t)"
    then show "\<exists>n \<le> length host. map to_lower_char (drop n host) = map to_lower_char t"
      by (intro exI[of _ "length host - length t"]) (simp add: HasSuffix_def ToLower_def drop_map)
  next
    assume "\<exists>n \<le> length host. map to_lower_char (drop n host) = map to_lower_char t"
    then obtain n where n: "n \<le> length host" "map to_lower_char (drop n host) = map to_lower_char t" by blast
    then have "length host - n = length t" by (metis length_drop length_map)
    with n have "n = length host - length t" "length t \<le> length host" by linarith+
    with n(2) show "HasSuffix (ToLower host) (ToLower t)" by (simp add: HasSuffix_def ToLower_def drop_map)
  qed
  show ?thesis
    unfolding matchDomain_def name_covers_def star suf
    by (auto simp: EqualFold_def ToLower_def HasPrefix_def numeral_2_eq_2)
qed

text \<open>The decision of \<open>egress_spec\<close> in terms of these meanings.\<close>

lemma egress_spec_meaning:
  assumes "\<forall>e\<in>set (allow @ deny). CHR '':'' \<notin> set e" and "\<forall>e\<in>set deny. IsIPOrCIDR e"
  shows "egress_spec allow deny host (IPv4 u) \<longleftrightarrow>
     host \<noteq> [] \<and> (\<exists>d\<in>set allow. ipv4_rule d = None \<and> name_covers d host) \<or>
     (\<exists>e\<in>set allow. rule_covers e u) \<or>
     u = 8 * 2 ^ 24 + 8 * 2 ^ 16 + 8 * 2 ^ 8 + 8 \<and> (\<exists>d\<in>set allow. ipv4_rule d = None) \<or>
     (\<forall>e\<in>set deny. \<not> rule_covers e u)"
proof -
  have ip: "IsIPOrCIDR e \<longleftrightarrow> ipv4_rule e \<noteq> None" if "e \<in> set allow" for e
    using assms(1) that by (intro IsIPOrCIDR_rule) auto
  have name: "(\<exists>d\<in>set allow. \<not> IsIPOrCIDR d \<and> P d) \<longleftrightarrow> (\<exists>d\<in>set allow. ipv4_rule d = None \<and> P d)" for P
    using ip by metis
  have "IsIPOrCIDR e \<and> entry_matches e (IPv4 u) \<longleftrightarrow> rule_covers e u" if "e \<in> set allow" for e
  proof (cases "ipv4_rule e")
    case (Some r)
    with ip that assms(1) show ?thesis by (simp add: entry_matches_rule)
  qed (use ip that in \<open>simp add: rule_covers_def\<close>)
  then have allowed: "(\<exists>e\<in>set allow. IsIPOrCIDR e \<and> entry_matches e (IPv4 u)) \<longleftrightarrow> (\<exists>e\<in>set allow. rule_covers e u)"
    by metis
  have denied: "(\<forall>e\<in>set deny. \<not> entry_matches e (IPv4 u)) \<longleftrightarrow> (\<forall>e\<in>set deny. \<not> rule_covers e u)"
    using entry_matches_rule assms by auto
  show ?thesis
    using name[of "\<lambda>_. True"]
    by (simp add: egress_spec_def name allowed denied matchDomain_name nameserver_def)
qed

end
