(* ===== verification/Conn_Limit.thy ===== *)
theory Conn_Limit
  imports Concurrent_Map
begin

text \<open>
  The limit on the connections of a sandbox: \<^verbatim>\<open>shared/pkg/connlimit/limiter.go\<close> and \<^verbatim>\<open>HandleConn\<close> of
  \<^verbatim>\<open>orchestrator/pkg/tcpfirewall/proxy.go\<close>, which takes a place before it serves a connection and gives it
  back afterwards.

  A counter is an atomic integer behind a pointer; the concurrent map, an argument, holds the pointer of each
  sandbox.  A connection
  is a value of \<open>conn\<close> that says where it is; between two atomic operations other connections go on.
  \<open>lim_step\<close> lets a connection arrive, lets one do its next atomic operation, or removes a sandbox.
\<close>

subsection \<open>State\<close>

record 'm ConnectionLimiter =
  clConnections :: 'm
  clCounters :: "int list"

definition NewConnectionLimiter :: "('m, nat) cmap_ops \<Rightarrow> 'm ConnectionLimiter" where
  "NewConnectionLimiter cm = \<lparr>clConnections = smap_New cm, clCounters = []\<rparr>"

datatype conn =
    Arrived string int
  | Trying string int nat
  | TryLoaded string int nat int
  | Serving string
  | Releasing string nat
  | RelLoaded string nat int
  | Refused string
  | Finished string

subsection \<open>Operations\<close>

text \<open>\<^verbatim>\<open>getCounter\<close> inserts a new counter when there is none, under the lock of the map.\<close>

definition getCounter :: "('m, nat) cmap_ops \<Rightarrow> string \<Rightarrow> 'm ConnectionLimiter \<Rightarrow> nat \<times> 'm ConnectionLimiter" where
  "getCounter cm sandboxID l =
     (let new = length (clCounters l);
          (p, m) = smap_Upsert cm (clConnections l) sandboxID
            (\<lambda>valueInMap. case valueInMap of Some v \<Rightarrow> (v, v) | None \<Rightarrow> (new, new))
      in (p, l\<lparr>clConnections := m, clCounters := clCounters l @ (if p = new then [0] else [])\<rparr>))"

definition at_limit :: "int \<Rightarrow> int \<Rightarrow> bool" where
  "at_limit maxLimit current \<longleftrightarrow> maxLimit \<ge> 0 \<and> current \<ge> maxLimit"

definition CompareAndSwap :: "nat \<Rightarrow> int \<Rightarrow> int \<Rightarrow> 'm ConnectionLimiter \<Rightarrow> bool \<times> 'm ConnectionLimiter" where
  "CompareAndSwap p old new l =
     (if clCounters l ! p = old then (True, l\<lparr>clCounters := (clCounters l)[p := new]\<rparr>) else (False, l))"

text \<open>The next atomic operation of \<^verbatim>\<open>TryAcquire\<close>.\<close>

fun TryAcquire_step :: "('m, nat) cmap_ops \<Rightarrow> conn \<Rightarrow> 'm ConnectionLimiter \<Rightarrow> conn \<times> 'm ConnectionLimiter" where
  "TryAcquire_step cm (Arrived sandboxID maxLimit) l =
     (let (p, l1) = getCounter cm sandboxID l in (Trying sandboxID maxLimit p, l1))"
| "TryAcquire_step cm (Trying sandboxID maxLimit p) l = (TryLoaded sandboxID maxLimit p (clCounters l ! p), l)"
| "TryAcquire_step cm (TryLoaded sandboxID maxLimit p current) l =
     (if at_limit maxLimit current then (Refused sandboxID, l)
      else
        (case CompareAndSwap p current (i64 (current + 1)) l of
           (True, l1) \<Rightarrow> (Serving sandboxID, l1)
         | (False, l1) \<Rightarrow> (Trying sandboxID maxLimit p, l1)))"
| "TryAcquire_step cm c l = (c, l)"

text \<open>The next atomic operation of \<^verbatim>\<open>Release\<close>, which runs when the connection has been served.\<close>

fun Release_step :: "('m, nat) cmap_ops \<Rightarrow> conn \<Rightarrow> 'm ConnectionLimiter \<Rightarrow> conn \<times> 'm ConnectionLimiter" where
  "Release_step cm (Serving sandboxID) l =
     (case smap_Get cm (clConnections l) sandboxID of
        None \<Rightarrow> (Finished sandboxID, l)
      | Some p \<Rightarrow> (Releasing sandboxID p, l))"
| "Release_step cm (Releasing sandboxID p) l = (RelLoaded sandboxID p (clCounters l ! p), l)"
| "Release_step cm (RelLoaded sandboxID p current) l =
     (if current \<le> 0 then (Finished sandboxID, l)
      else
        (case CompareAndSwap p current (i64 (current - 1)) l of
           (True, l1) \<Rightarrow> (Finished sandboxID, l1)
         | (False, l1) \<Rightarrow> (Releasing sandboxID p, l1)))"
| "Release_step cm c l = (c, l)"

definition Remove_counter :: "('m, nat) cmap_ops \<Rightarrow> string \<Rightarrow> 'm ConnectionLimiter \<Rightarrow> 'm ConnectionLimiter" where
  "Remove_counter cm sandboxID l = l\<lparr>clConnections := smap_Remove cm (clConnections l) sandboxID\<rparr>"

definition Count :: "('m, nat) cmap_ops \<Rightarrow> string \<Rightarrow> 'm ConnectionLimiter \<Rightarrow> int" where
  "Count cm sandboxID l = (case smap_Get cm (clConnections l) sandboxID of Some p \<Rightarrow> clCounters l ! p | None \<Rightarrow> 0)"

definition HandleConn_step :: "('m, nat) cmap_ops \<Rightarrow> conn \<Rightarrow> 'm ConnectionLimiter \<Rightarrow> conn \<times> 'm ConnectionLimiter" where
  "HandleConn_step cm c l =
     (case c of
        Arrived _ _ \<Rightarrow> TryAcquire_step cm c l
      | Trying _ _ _ \<Rightarrow> TryAcquire_step cm c l
      | TryLoaded _ _ _ _ \<Rightarrow> TryAcquire_step cm c l
      | _ \<Rightarrow> Release_step cm c l)"

datatype conn_event = Arrive string int | Go nat | SandboxRemoved string

fun lim_step ::
  "('m, nat) cmap_ops \<Rightarrow> conn_event \<Rightarrow> conn list \<times> 'm ConnectionLimiter \<Rightarrow> conn list \<times> 'm ConnectionLimiter" where
  "lim_step cm (Arrive sandboxID maxLimit) (cs, l) = (cs @ [Arrived sandboxID maxLimit], l)"
| "lim_step cm (Go i) (cs, l) =
     (if i < length cs then (let (c, l1) = HandleConn_step cm (cs ! i) l in (cs[i := c], l1)) else (cs, l))"
| "lim_step cm (SandboxRemoved sandboxID) (cs, l) = (cs, Remove_counter cm sandboxID l)"

definition lim_run :: "('m, nat) cmap_ops \<Rightarrow> conn_event list \<Rightarrow> conn list \<times> 'm ConnectionLimiter" where
  "lim_run cm evs = fold (lim_step cm) evs ([], NewConnectionLimiter cm)"

subsection \<open>The invariant\<close>

text \<open>The connections of a sandbox that have a place and have not given it back.\<close>

fun has_place :: "string \<Rightarrow> conn \<Rightarrow> bool" where
  "has_place i (Serving j) \<longleftrightarrow> i = j"
| "has_place i (Releasing j p) \<longleftrightarrow> i = j"
| "has_place i (RelLoaded j p n) \<longleftrightarrow> i = j"
| "has_place i c \<longleftrightarrow> False"

definition served :: "string \<Rightarrow> conn list \<Rightarrow> nat" where
  "served i cs = length (filter (has_place i) cs)"

text \<open>The sandbox of a connection, and the counter it holds a pointer to.\<close>

fun conn_of :: "conn \<Rightarrow> string" where
  "conn_of (Arrived i n) = i"
| "conn_of (Trying i n p) = i"
| "conn_of (TryLoaded i n p k) = i"
| "conn_of (Serving i) = i"
| "conn_of (Releasing i p) = i"
| "conn_of (RelLoaded i p k) = i"
| "conn_of (Refused i) = i"
| "conn_of (Finished i) = i"

fun conn_counter :: "conn \<Rightarrow> nat option" where
  "conn_counter (Trying i n p) = Some p"
| "conn_counter (TryLoaded i n p k) = Some p"
| "conn_counter (Releasing i p) = Some p"
| "conn_counter (RelLoaded i p k) = Some p"
| "conn_counter c = None"

text \<open>
  The invariant of one sandbox \<open>i\<close> whose counter is \<open>m\<close>.  Its own connections use that counter; those of
  other sandboxes may hold counters that their sandbox has lost by a removal, but never this one.
\<close>

fun own_ok :: "int \<Rightarrow> nat option \<Rightarrow> conn \<Rightarrow> bool" where
  "own_ok L m (Arrived i n) \<longleftrightarrow> 0 \<le> n \<and> n \<le> L"
| "own_ok L m (Trying i n p) \<longleftrightarrow> 0 \<le> n \<and> n \<le> L \<and> m = Some p"
| "own_ok L m (TryLoaded i n p k) \<longleftrightarrow> 0 \<le> n \<and> n \<le> L \<and> m = Some p"
| "own_ok L m (Serving i) \<longleftrightarrow> m \<noteq> None"
| "own_ok L m (Releasing i p) \<longleftrightarrow> m = Some p"
| "own_ok L m (RelLoaded i p k) \<longleftrightarrow> m = Some p \<and> 1 \<le> k"
| "own_ok L m (Refused i) \<longleftrightarrow> True"
| "own_ok L m (Finished i) \<longleftrightarrow> True"

definition conn_ok :: "string \<Rightarrow> int \<Rightarrow> nat option \<Rightarrow> nat \<Rightarrow> conn \<Rightarrow> bool" where
  "conn_ok i L m n c \<longleftrightarrow>
     (if conn_of c = i then own_ok L m c else (\<forall>q. conn_counter c = Some q \<longrightarrow> q < n \<and> m \<noteq> Some q))"

definition lim_inv :: "('m, nat) cmap_ops \<Rightarrow> string \<Rightarrow> int \<Rightarrow> conn list \<Rightarrow> 'm ConnectionLimiter \<Rightarrow> bool" where
  "lim_inv cm i L cs l \<longleftrightarrow>
     (let m = cm_Get cm (clConnections l); n = length (clCounters l)
      in (\<forall>c\<in>set cs. conn_ok i L (m i) n c) \<and>
         (\<forall>j q. m j = Some q \<longrightarrow> q < n \<and> (j \<noteq> i \<longrightarrow> m i \<noteq> Some q)) \<and>
         (\<forall>p. m i = Some p \<longrightarrow> clCounters l ! p = int (served i cs)) \<and> int (served i cs) \<le> L)"

lemma lim_invD:
  assumes "lim_inv cm i L cs l"
  shows "c \<in> set cs \<Longrightarrow> conn_ok i L (cm_Get cm (clConnections l) i) (length (clCounters l)) c"
    and "cm_Get cm (clConnections l) j = Some q \<Longrightarrow> q < length (clCounters l)"
    and "cm_Get cm (clConnections l) j = Some q \<Longrightarrow> j \<noteq> i \<Longrightarrow> cm_Get cm (clConnections l) i \<noteq> Some q"
    and "cm_Get cm (clConnections l) i = Some p \<Longrightarrow> clCounters l ! p = int (served i cs)"
    and "int (served i cs) \<le> L"
  using assms by (simp_all add: lim_inv_def Let_def)

lemma lim_invI:
  assumes "\<And>c. c \<in> set cs \<Longrightarrow> conn_ok i L (cm_Get cm (clConnections l) i) (length (clCounters l)) c"
    and "\<And>j q. cm_Get cm (clConnections l) j = Some q \<Longrightarrow> q < length (clCounters l) \<and> (j \<noteq> i \<longrightarrow> cm_Get cm (clConnections l) i \<noteq> Some q)"
    and "\<And>p. cm_Get cm (clConnections l) i = Some p \<Longrightarrow> clCounters l ! p = int (served i cs)"
    and "int (served i cs) \<le> L"
  shows "lim_inv cm i L cs l"
  using assms by (simp add: lim_inv_def Let_def)

lemma served_update:
  "k < length cs \<Longrightarrow> served i (cs[k := c]) + of_bool (has_place i (cs ! k)) = served i cs + of_bool (has_place i c)"
proof (induction cs arbitrary: k)
  case (Cons d cs)
  then show ?case by (cases k) (auto simp: served_def)
qed simp

lemma place_of: "has_place i c \<Longrightarrow> conn_of c = i"
  by (cases c) auto

text \<open>
  A step of one connection that keeps the map: the counter of the sandbox has to follow the number of its
  places.
\<close>

lemma lim_inv_move:
  assumes inv: "lim_inv cm i L cs l" and k: "k < length cs"
    and l': "clConnections l' = clConnections l" "length (clCounters l') = length (clCounters l)"
    and c: "conn_ok i L (cm_Get cm (clConnections l) i) (length (clCounters l)) c"
    and n: "\<And>p. cm_Get cm (clConnections l) i = Some p \<Longrightarrow> clCounters l' ! p = int (served i (cs[k := c]))"
    and le: "int (served i (cs[k := c])) \<le> L"
  shows "lim_inv cm i L (cs[k := c]) l'"
proof (rule lim_invI; (unfold l')?)
  fix d assume "d \<in> set (cs[k := c])"
  then have "d \<in> set cs \<or> d = c" using set_update_subset_insert[of cs k c] by blast
  then show "conn_ok i L (cm_Get cm (clConnections l) i) (length (clCounters l)) d" using lim_invD(1)[OF inv] c by blast
qed (use lim_invD(2,3)[OF inv] n le in auto)

lemma lim_inv_stutter:
  assumes inv: "lim_inv cm i L cs l" and k: "k < length cs" and "has_place i c = has_place i (cs ! k)"
    and "conn_ok i L (cm_Get cm (clConnections l) i) (length (clCounters l)) c"
  shows "lim_inv cm i L (cs[k := c]) l"
proof -
  have "served i (cs[k := c]) = served i cs" using served_update[OF k, of i c] assms(3) by simp
  then show ?thesis using lim_invD(4,5)[OF inv] by (intro lim_inv_move[OF inv k refl refl assms(4)]) auto
qed

text \<open>A connection of another sandbox writes to a counter that is not the one of \<open>i\<close>.\<close>

lemma lim_inv_foreign:
  assumes inv: "lim_inv cm i L cs l" and k: "k < length cs" and "conn_of (cs ! k) \<noteq> i" "conn_of c = conn_of (cs ! k)"
    and "conn_ok i L (cm_Get cm (clConnections l) i) (length (clCounters l)) c"
    and l': "l' = l \<or> (\<exists>q x. conn_counter (cs ! k) = Some q \<and> l' = l\<lparr>clCounters := (clCounters l)[q := x]\<rparr>)"
  shows "lim_inv cm i L (cs[k := c]) l'"
proof (rule lim_inv_move[OF inv k])
  have "served i (cs[k := c]) = served i cs"
    using served_update[OF k, of i c] place_of[of i] assms(3,4) by (cases "has_place i c"; cases "has_place i (cs ! k)") auto
  moreover have "cm_Get cm (clConnections l) i \<noteq> Some q" if "conn_counter (cs ! k) = Some q" for q
    using lim_invD(1)[OF inv nth_mem[OF k]] assms(3) that by (auto simp: conn_ok_def)
  ultimately show "clCounters l' ! p = int (served i (cs[k := c]))" if "cm_Get cm (clConnections l) i = Some p" for p
    using l' lim_invD(4)[OF inv that] that by (auto simp: nth_list_update)
  show "int (served i (cs[k := c])) \<le> L" using lim_invD(5)[OF inv] \<open>served i (cs[k := c]) = served i cs\<close> by simp
qed (use l' assms(5) in auto)

text \<open>A sandbox without a counter has no connection with a place.\<close>

lemma served_none:
  assumes "lim_inv cm i L cs l" "cm_Get cm (clConnections l) i = None"
  shows "served i cs = 0"
proof -
  have "\<not> has_place i c" if "c \<in> set cs" for c
    using lim_invD(1)[OF assms(1) that] assms(2) by (cases c) (auto simp: conn_ok_def)
  then show ?thesis by (simp add: served_def filter_empty_conv)
qed

text \<open>
  The runs of the theorem, for a sandbox \<open>i\<close>: the limits of its connections are at most \<open>L\<close>, and when it is
  removed none of its connections holds its counter, that is, they have not begun to take a place or
  have given it back.  Other sandboxes do as they like.
\<close>

fun event_ok :: "string \<Rightarrow> int \<Rightarrow> conn list \<Rightarrow> conn_event \<Rightarrow> bool" where
  "event_ok i L cs (Arrive j n) \<longleftrightarrow> j = i \<longrightarrow> 0 \<le> n \<and> n \<le> L"
| "event_ok i L cs (Go k) \<longleftrightarrow> True"
| "event_ok i L cs (SandboxRemoved j) \<longleftrightarrow>
     j = i \<longrightarrow> list_all (\<lambda>c. conn_of c = i \<longrightarrow> conn_counter c = None \<and> \<not> has_place i c) cs"

fun run_ok :: "('m, nat) cmap_ops \<Rightarrow> string \<Rightarrow> int \<Rightarrow> conn_event list \<Rightarrow> conn list \<times> 'm ConnectionLimiter \<Rightarrow> bool" where
  "run_ok cm i L [] st \<longleftrightarrow> True"
| "run_ok cm i L (e # evs) st \<longleftrightarrow> event_ok i L (fst st) e \<and> run_ok cm i L evs (lim_step cm e st)"

locale conn_limiter = concurrent_map cm for cm :: "('m, nat) cmap_ops"
begin

lemma getCounter_cases:
  assumes inv: "lim_inv cm i L cs l" and g: "getCounter cm j l = (p, l')"
  obtains "cm_Get cm (clConnections l) j = Some p" "\<And>k. cm_Get cm (clConnections l') k = cm_Get cm (clConnections l) k"
      "clCounters l' = clCounters l"
    | "cm_Get cm (clConnections l) j = None" "p = length (clCounters l)" "clCounters l' = clCounters l @ [0]"
      "\<And>k. cm_Get cm (clConnections l') k = (if k = j then Some p else cm_Get cm (clConnections l) k)"
proof -
  have up: "clConnections l' = snd (cm_Upsert cm (clConnections l) j
      (\<lambda>v. case v of Some v \<Rightarrow> (v, v) | None \<Rightarrow> (length (clCounters l), length (clCounters l))))"
    "p = fst (cm_Upsert cm (clConnections l) j
      (\<lambda>v. case v of Some v \<Rightarrow> (v, v) | None \<Rightarrow> (length (clCounters l), length (clCounters l))))"
    "clCounters l' = clCounters l @ (if p = length (clCounters l) then [0] else [])"
    using g by (auto simp: getCounter_def smap_defs Let_def split: prod.splits)
  show thesis
  proof (cases "cm_Get cm (clConnections l) j")
    case None
    then have p: "p = length (clCounters l)" unfolding up(2) by (simp add: cm_Upsert_def)
    show thesis using None up(3) p by (intro that(2)) (simp_all add: up(1) Get_Upsert)
  next
    case (Some q)
    then have p: "p = q" unfolding up(2) by (simp add: cm_Upsert_def)
    show thesis using Some up(3) p lim_invD(2)[OF inv Some] by (intro that(1)) (auto simp: up(1) Get_Upsert)
  qed
qed

lemma getCounter_inv:
  assumes inv: "lim_inv cm i L cs l" and g: "getCounter cm j l = (p, l')"
  shows "lim_inv cm i L cs l'" "cm_Get cm (clConnections l') j = Some p"
proof -
  have "lim_inv cm i L cs l' \<and> cm_Get cm (clConnections l') j = Some p"
  proof (rule getCounter_cases[OF inv g])
    assume old: "cm_Get cm (clConnections l) j = Some p"
      "\<And>k. cm_Get cm (clConnections l') k = cm_Get cm (clConnections l) k" "clCounters l' = clCounters l"
    then show ?thesis using inv by (simp add: lim_inv_def Let_def)
  next
    assume none: "cm_Get cm (clConnections l) j = None" and p: "p = length (clCounters l)" "clCounters l' = clCounters l @ [0]"
      and m: "\<And>k. cm_Get cm (clConnections l') k = (if k = j then Some p else cm_Get cm (clConnections l) k)"
    have c: "conn_ok i L (cm_Get cm (clConnections l') i) (length (clCounters l')) c" if "c \<in> set cs" for c
      using lim_invD(1)[OF inv that] none p m by (cases c) (auto simp: conn_ok_def)
    have "clCounters l' ! q = int (served i cs)" if "cm_Get cm (clConnections l') i = Some q" for q
      using that m[of i] none p served_none[OF inv] lim_invD(2,4)[OF inv] by (auto simp: nth_append split: if_splits)
    moreover have "q < length (clCounters l') \<and> (k \<noteq> i \<longrightarrow> cm_Get cm (clConnections l') i \<noteq> Some q)"
      if "cm_Get cm (clConnections l') k = Some q" for k q
      using that m[of k] m[of i] p lim_invD(2)[OF inv, of k q] lim_invD(2)[OF inv, of i q] lim_invD(3)[OF inv, of k q]
      by (auto split: if_splits)
    ultimately have "lim_inv cm i L cs l'" using c lim_invD(5)[OF inv] by (intro lim_invI) auto
    then show ?thesis using m[of j] by simp
  qed
  then show "lim_inv cm i L cs l'" "cm_Get cm (clConnections l') j = Some p" by simp_all
qed

lemma acquire_inv:
  assumes inv: "lim_inv cm i L cs l" and L: "L < 9223372036854775808" and k: "k < length cs" "cs ! k = TryLoaded i n p cur"
    and st: "HandleConn_step cm (cs ! k) l = (c, l')"
  shows "lim_inv cm i L (cs[k := c]) l'"
proof (cases "\<not> at_limit n cur \<and> clCounters l ! p = cur")
  case True
  have m: "cm_Get cm (clConnections l) i = Some p" and n: "n \<le> L" "0 \<le> n"
    using lim_invD(1)[OF inv nth_mem[OF k(1)]] k(2) by (simp_all add: conn_ok_def)
  have c: "c = Serving i" "l' = l\<lparr>clCounters := (clCounters l)[p := i64 (cur + 1)]\<rparr>" and cur: "cur < n"
    using True st k(2) n by (auto simp: HandleConn_step_def CompareAndSwap_def at_limit_def)
  have s: "served i (cs[k := c]) = served i cs + 1"
    using served_update[OF k(1), of i c] k(2) c by simp
  have "cur = int (served i cs)" using True lim_invD(4)[OF inv m] by simp
  then have "i64 (cur + 1) = int (served i (cs[k := c]))" "int (served i (cs[k := c])) \<le> L"
    using s cur n L by simp_all
  then show ?thesis
    using m c lim_invD(2)[OF inv m] by (intro lim_inv_move[OF inv k(1)]) (auto simp: conn_ok_def)
next
  case False
  then have l: "l' = l" and c: "c = Refused i \<or> c = Trying i n p"
    using st k(2) by (auto simp: HandleConn_step_def CompareAndSwap_def split: if_splits)
  show ?thesis
    unfolding l using c k(2) lim_invD(1)[OF inv nth_mem[OF k(1)]]
    by (intro lim_inv_stutter[OF inv k(1)]) (auto simp: conn_ok_def)
qed

lemma release_inv:
  assumes inv: "lim_inv cm i L cs l" and L: "L < 9223372036854775808" and k: "k < length cs" "cs ! k = RelLoaded i p cur"
    and st: "HandleConn_step cm (cs ! k) l = (c, l')"
  shows "lim_inv cm i L (cs[k := c]) l'"
proof (cases "clCounters l ! p = cur")
  case True
  have m: "cm_Get cm (clConnections l) i = Some p" and cur: "1 \<le> cur"
    using lim_invD(1)[OF inv nth_mem[OF k(1)]] k(2) by (simp_all add: conn_ok_def)
  have c: "c = Finished i" "l' = l\<lparr>clCounters := (clCounters l)[p := i64 (cur - 1)]\<rparr>"
    using True st k(2) cur by (auto simp: HandleConn_step_def CompareAndSwap_def)
  have s: "served i (cs[k := c]) + 1 = served i cs"
    using served_update[OF k(1), of i c] k(2) c by simp
  have "cur = int (served i cs)" using True lim_invD(4)[OF inv m] by simp
  then have "i64 (cur - 1) = int (served i (cs[k := c]))" "int (served i (cs[k := c])) \<le> L"
    using s cur lim_invD(5)[OF inv] L by simp_all
  then show ?thesis
    using m c lim_invD(2)[OF inv m] by (intro lim_inv_move[OF inv k(1)]) (auto simp: conn_ok_def)
next
  case False
  have l: "l' = l" and c: "c = Releasing i p"
    using False st k(2) lim_invD(1)[OF inv nth_mem[OF k(1)]] by (auto simp: HandleConn_step_def CompareAndSwap_def conn_ok_def)
  show ?thesis
    unfolding l using c k(2) lim_invD(1)[OF inv nth_mem[OF k(1)]]
    by (intro lim_inv_stutter[OF inv k(1)]) (auto simp: conn_ok_def)
qed

text \<open>A step of a connection of the sandbox itself, and of another one.\<close>

lemma own_step_inv:
  assumes inv: "lim_inv cm i L cs l" and L: "L < 9223372036854775808" and k: "k < length cs" and own: "conn_of (cs ! k) = i"
    and st: "HandleConn_step cm (cs ! k) l = (c, l')"
  shows "lim_inv cm i L (cs[k := c]) l'"
proof -
  note ok = lim_invD(1)[OF inv nth_mem[OF k], unfolded conn_ok_def if_P[OF own]]
  show ?thesis
  proof (cases "cs ! k")
    case (Arrived j n)
    then obtain p where g: "getCounter cm i l = (p, l')" "c = Trying i n p"
      using st own by (auto simp: HandleConn_step_def split: prod.splits)
    show ?thesis
      using getCounter_inv(2)[OF inv g(1)] ok Arrived g(2) own
      by (intro lim_inv_stutter[OF getCounter_inv(1)[OF inv g(1)] k]) (simp_all add: conn_ok_def)
  next
    case (TryLoaded j n p cur)
    then show ?thesis using acquire_inv[OF inv L k _ st] own by simp
  next
    case (RelLoaded j p cur)
    then show ?thesis using release_inv[OF inv L k _ st] own by simp
  next
    case (Releasing j p)
    have m: "cm_Get cm (clConnections l) i = Some p" using ok Releasing by simp
    have "0 < served i cs" using nth_mem[OF k] Releasing own by (force simp: served_def filter_empty_conv)
    then have "c = RelLoaded i p (clCounters l ! p)" "l' = l" "1 \<le> clCounters l ! p"
      using st Releasing own lim_invD(4)[OF inv m] by (auto simp: HandleConn_step_def)
    then show ?thesis using Releasing m own by (auto intro!: lim_inv_stutter[OF inv k] simp: conn_ok_def)
  next
    case (Serving j)
    then obtain p where "cm_Get cm (clConnections l) i = Some p" "c = Releasing i p" "l' = l"
      using st ok own by (auto simp: HandleConn_step_def smap_defs)
    then show ?thesis using Serving own by (auto intro!: lim_inv_stutter[OF inv k] simp: conn_ok_def)
  next
    case (Trying j n p)
    then have "c = TryLoaded i n p (clCounters l ! p)" "l' = l" using st own by (auto simp: HandleConn_step_def)
    then show ?thesis using Trying ok own by (auto intro!: lim_inv_stutter[OF inv k] simp: conn_ok_def)
  qed (use st inv k in \<open>auto simp: HandleConn_step_def list_update_id\<close>)
qed

lemma other_step_inv:
  assumes inv: "lim_inv cm i L cs l" and k: "k < length cs" and other: "conn_of (cs ! k) \<noteq> i"
    and st: "HandleConn_step cm (cs ! k) l = (c, l')"
  shows "lim_inv cm i L (cs[k := c]) l'"
proof -
  note ok = lim_invD(1)[OF inv nth_mem[OF k], unfolded conn_ok_def if_not_P[OF other]]
  show ?thesis
  proof (cases "cs ! k")
    case (Arrived j n)
    then obtain p where g: "getCounter cm j l = (p, l')" "c = Trying j n p"
      using st by (auto simp: HandleConn_step_def split: prod.splits)
    note inv' = getCounter_inv[OF inv g(1)]
    show ?thesis
      using lim_invD(2,3)[OF inv'(1) inv'(2)] Arrived g(2) other
      by (intro lim_inv_stutter[OF inv'(1) k]) (simp_all add: conn_ok_def)
  next
    case (Serving j)
    have "l' = l \<and> (c = Finished j \<or> (\<exists>p. cm_Get cm (clConnections l) j = Some p \<and> c = Releasing j p))"
      using st Serving by (auto simp: HandleConn_step_def smap_defs split: option.splits)
    then show ?thesis
      using Serving other lim_invD(2,3)[OF inv, of j] by (auto intro!: lim_inv_foreign[OF inv k] simp: conn_ok_def)
  qed (use st ok other in \<open>auto intro!: lim_inv_foreign[OF inv k] simp: conn_ok_def HandleConn_step_def CompareAndSwap_def
      split: if_splits\<close>)
qed

lemma remove_inv:
  assumes inv: "lim_inv cm i L cs l" and "event_ok i L cs (SandboxRemoved j)"
  shows "lim_inv cm i L cs (Remove_counter cm j l)"
proof (rule lim_invI)
  let ?l = "Remove_counter cm j l"
  have m: "cm_Get cm (clConnections ?l) k = (if k = j then None else cm_Get cm (clConnections l) k)" for k
    by (simp add: Remove_counter_def smap_defs Get_Remove)
  have n: "clCounters ?l = clCounters l" by (simp add: Remove_counter_def)
  show "conn_ok i L (cm_Get cm (clConnections ?l) i) (length (clCounters ?l)) c" if "c \<in> set cs" for c
    using lim_invD(1)[OF inv that] assms(2) that m n by (cases c) (auto simp: conn_ok_def list_all_iff)
  show "q < length (clCounters ?l) \<and> (k \<noteq> i \<longrightarrow> cm_Get cm (clConnections ?l) i \<noteq> Some q)"
    if "cm_Get cm (clConnections ?l) k = Some q" for k q
    using that lim_invD(2,3)[OF inv, of k q] m n by (auto split: if_splits)
  show "clCounters ?l ! p = int (served i cs)" if "cm_Get cm (clConnections ?l) i = Some p" for p
    using that lim_invD(4)[OF inv] m n by (auto split: if_splits)
qed (rule lim_invD(5)[OF inv])

lemma lim_step_inv:
  assumes inv: "lim_inv cm i L cs l" and L: "L < 9223372036854775808" and ok: "event_ok i L cs e"
    and st: "lim_step cm e (cs, l) = (cs', l')"
  shows "lim_inv cm i L cs' l'"
proof (cases e)
  case (Arrive j n)
  have "served i (cs @ [Arrived j n]) = served i cs" by (simp add: served_def)
  then show ?thesis using st inv Arrive ok by (auto simp: lim_inv_def Let_def conn_ok_def)
next
  case (Go k)
  then show ?thesis
    using st inv own_step_inv[OF inv L] other_step_inv[OF inv]
    by (cases "k < length cs"; cases "conn_of (cs ! k) = i") (auto split: prod.splits)
next
  case (SandboxRemoved j)
  then show ?thesis using remove_inv[OF inv] ok st by auto
qed

lemma lim_fold_inv:
  assumes "lim_inv cm i L (fst st) (snd st)" "L < 9223372036854775808" "run_ok cm i L evs st"
    and "fold (lim_step cm) evs st = (cs, l)"
  shows "lim_inv cm i L cs l"
  using assms
proof (induction evs arbitrary: st)
  case (Cons e evs)
  have "lim_inv cm i L (fst (lim_step cm e st)) (snd (lim_step cm e st))"
    using lim_step_inv[OF Cons.prems(1,2), of e] Cons.prems(3) by (cases st; cases "lim_step cm e st") auto
  then show ?case using Cons by simp
qed simp

lemma lim_run_inv:
  assumes "run_ok cm i L evs ([], NewConnectionLimiter cm)" "0 \<le> L" "L < 9223372036854775808" "lim_run cm evs = (cs, l)"
  shows "lim_inv cm i L cs l"
proof (rule lim_fold_inv[OF _ assms(3,1)])
  show "lim_inv cm i L (fst ([], NewConnectionLimiter cm)) (snd ([], NewConnectionLimiter cm))"
    using assms(2) by (auto simp: lim_inv_def NewConnectionLimiter_def smap_defs Get_New served_def)
  show "fold (lim_step cm) evs ([], NewConnectionLimiter cm) = (cs, l)" using assms(4) by (simp add: lim_run_def)
qed

end

interpretation list_limiter: conn_limiter list_cmap
  by unfold_locales

text \<open>
  When a sandbox is removed while one of its connections is served, that connection keeps its place in the old
  counter, and its release goes to the counter of the sandbox's next life: the run is not one of \<open>run_ok\<close>, and the
  limit of the next life is exceeded.
\<close>

definition overrun :: "conn_event list" where
  "overrun = [Arrive ''s'' 1, Go 0, Go 0, Go 0, SandboxRemoved ''s'', Arrive ''s'' 1, Go 1, Go 1, Go 1,
     Go 0, Go 0, Go 0, Arrive ''s'' 1, Go 2, Go 2, Go 2]"

lemma overrun_serves_two: "map (has_place ''s'') (fst (lim_run list_cmap overrun)) = [False, True, True]"
  by code_simp

end
