(* ===== verification/Egress_Properties.thy ===== *)
theory Egress_Properties
  imports Egress_Rules Conn_Limit
begin

text \<open>
  The properties of the egress rules: what a validated configuration means in the firewall, that it keeps its
  meaning when the API reads it back from a node, where connections go, and the limit on connections.
\<close>

abbreviation egress_network :: "string list \<Rightarrow> string list \<Rightarrow> SandboxNetworkIngressConfig option \<Rightarrow> SandboxNetworkConfig" where
  "egress_network allow deny ing \<equiv> \<lparr>ncEgress = Some \<lparr>egAllowed = allow, egDenied = deny\<rparr>, ncIngress = ing\<rparr>"

lemma buildNetworkConfig_egress:
  "nmEgress (buildNetworkConfig (Some (egress_network allow deny ing)) internet tok) =
     Some (if internet = Some False then (buildEgressConfig allow deny)\<lparr>emDeniedCidrs := [AllInternetTrafficCIDR]\<rparr>
           else buildEgressConfig allow deny)"
  by (simp add: buildNetworkConfig_def Let_def)

lemma no_internet_egress:
  "(buildEgressConfig allow deny)\<lparr>emDeniedCidrs := [AllInternetTrafficCIDR]\<rparr> = buildEgressConfig allow [AllInternetTrafficCIDR]"
proof -
  have "AddressStringToCIDR AllInternetTrafficCIDR = AllInternetTrafficCIDR" by code_simp
  then show ?thesis by (simp add: buildEgressConfig_def Let_def split: prod.splits)
qed

lemma built_egress_decides:
  assumes "\<forall>e\<in>set deny. IsIPOrCIDR e"
  shows "\<exists>m. isEgressAllowed (nmEgress (buildNetworkConfig (Some (egress_network allow deny ing)) internet tok)) host a =
    Ok (egress_spec allow (if internet = Some False then [AllInternetTrafficCIDR] else deny) host a, m)"
  unfolding buildNetworkConfig_egress no_internet_egress
  using buildEgressConfig_decides[of deny allow host a] buildEgressConfig_decides[of "[AllInternetTrafficCIDR]" allow host a]
    assms all_traffic_entry(1) by simp

text \<open>
  C28.  IPv4 rules that the API has accepted never make the firewall's check fail, and it decides as they say, in
  the sense of \<open>rule_covers\<close> and \<open>name_covers\<close>, which do not use the functions that carry the rules out: an
  IPv4 destination is allowed when a name pattern among the allowed entries covers its host name, when an
  allowed address or network covers it, when it is the name server 8.8.8.8 and some name is allowed, or when
  internet access is not off and no denied address or network covers it.

  The theorem is for lists without IPv6 text, which is the text with a colon.  The comment on
  \<^verbatim>\<open>AddressStringToCIDR\<close> says that only IPv4 is supported; the API does accept IPv6 addresses, and what they then
  mean is not what they say: without a prefix length one covers all addresses with its first 32 bits
  (\<open>bare_ipv6_covers_block\<close>), and one that embeds an IPv4 address covers no IPv4 address (\<open>entry_meaning\<close>).
\<close>

theorem validated_egress_decides:
  assumes ok: "validateEgressRules allow deny = Ok ()" and v4: "\<forall>e\<in>set (allow @ deny). CHR '':'' \<notin> set e"
    and u: "0 \<le> u" "u < 2 ^ 32"
  shows "\<exists>m. isEgressAllowed (nmEgress (buildNetworkConfig (Some (egress_network allow deny ing)) internet tok)) host (IPv4 u) =
    Ok (host \<noteq> [] \<and> (\<exists>d\<in>set allow. ipv4_rule d = None \<and> name_covers d host) \<or>
        (\<exists>e\<in>set allow. rule_covers e u) \<or>
        u = 8 * 2 ^ 24 + 8 * 2 ^ 16 + 8 * 2 ^ 8 + 8 \<and> (\<exists>d\<in>set allow. ipv4_rule d = None) \<or>
        internet \<noteq> Some False \<and> (\<forall>e\<in>set deny. \<not> rule_covers e u), m)"
proof -
  note deny = validateEgressRules_denied[OF ok]
  note decides = built_egress_decides[OF deny, of allow ing internet tok host "IPv4 u"]
  show ?thesis
  proof (cases "internet = Some False")
    case True
    have "\<forall>e\<in>set (allow @ [AllInternetTrafficCIDR]). CHR '':'' \<notin> set e"
      using v4 by (simp add: AllInternetTrafficCIDR_def)
    note spec = egress_spec_meaning[OF this, of host u]
    have "rule_covers AllInternetTrafficCIDR u"
      using entry_matches_rule[of AllInternetTrafficCIDR u] all_traffic_entry u by (simp add: AllInternetTrafficCIDR_def)
    with spec decides True all_traffic_entry(1) show ?thesis by simp
  next
    case False
    with egress_spec_meaning[OF v4 deny, of host u] decides show ?thesis by simp
  qed
qed

abbreviation demo_egress :: "EgressMessage option" where
  "demo_egress \<equiv> nmEgress (buildNetworkConfig
     (Some (egress_network [''*.example.com'', ''1.1.1.0/24''] [''0.0.0.0/0''] None)) None None)"

theorem validated_egress_decides_witness:
  "validateEgressRules [''*.example.com'', ''1.1.1.0/24''] [''0.0.0.0/0''] = Ok () \<and>
   (\<exists>m. isEgressAllowed demo_egress ''A.Example.com'' (IPv4 134744073) = Ok (True, m)) \<and>
   (\<exists>m. isEgressAllowed demo_egress ''b.com'' (IPv4 16843009) = Ok (True, m)) \<and>
   (\<exists>m. isEgressAllowed demo_egress ''b.com'' (IPv4 16843265) = Ok (False, m))"
proof -
  let ?allow = "[''*.example.com'', ''1.1.1.0/24'']" and ?deny = "[''0.0.0.0/0'']"
  have v: "validateEgressRules ?allow ?deny = Ok ()" by code_simp
  have c: "\<forall>e\<in>set (?allow @ ?deny). CHR '':'' \<notin> set e" by simp
  have n: "ipv4_rule ''*.example.com'' = None" "name_covers ''*.example.com'' ''A.Example.com''"
    "\<not> name_covers ''*.example.com'' ''b.com''" unfolding matchDomain_name[symmetric] by code_simp+
  have r: "rule_covers ''1.1.1.0/24'' 16843009" "\<not> rule_covers ''1.1.1.0/24'' 16843265"
    "\<not> rule_covers ''*.example.com'' 16843265" "rule_covers ''0.0.0.0/0'' 16843265"
    "ipv4_rule ''1.1.1.0/24'' \<noteq> None" by code_simp+
  note decides = validated_egress_decides[OF v c, where ing = None and internet = None and tok = None]
  have a: "\<exists>m. isEgressAllowed demo_egress ''A.Example.com'' (IPv4 134744073) = Ok (True, m)"
    using decides[of 134744073 "''A.Example.com''"] n(1,2) by (simp only: list.set bex_simps) simp
  have b: "\<exists>m. isEgressAllowed demo_egress ''b.com'' (IPv4 16843009) = Ok (True, m)"
    using decides[of 16843009 "''b.com''"] r(1) by (simp only: list.set bex_simps) simp
  have "\<exists>m. isEgressAllowed demo_egress ''b.com'' (IPv4 16843265) = Ok (False, m)"
    using decides[of 16843265 "''b.com''"] n(3) r(2-5) by (simp only: list.set bex_simps ball_simps) simp
  with v a b show ?thesis by blast
qed

text \<open>
  The API reads the network of a sandbox back from the node that runs it.  The rules that it then
  has decide every connection as the ones it sent, when the sandbox is started from them again: plain
  addresses have become networks, and the name server is one of the allowed addresses, but their meaning
  is the same.
\<close>

lemma read_back_egress:
  assumes "buildNetworkConfig (Some (egress_network allow deny ing)) None tok = msg"
  shows "\<exists>ing' as. networkConfig (Some msg) =
      Some (egress_network (map AddressStringToCIDR as @ filter (\<lambda>e. \<not> IsIPOrCIDR e) allow) (map AddressStringToCIDR deny) ing') \<and>
    set as = {e \<in> set allow. IsIPOrCIDR e} \<union> (if \<exists>d\<in>set allow. \<not> IsIPOrCIDR d then {DefaultNameserver} else {})"
  unfolding assms[symmetric]
  by (rule exI[of _ "ncIngress (the (networkConfig (Some msg)))"], rule exI[of _ "filter IsIPOrCIDR allow @ (if \<exists>d\<in>set allow. \<not> IsIPOrCIDR d then [DefaultNameserver] else [])"])
    (auto simp: assms[symmetric] networkConfig_def ingressToken_def buildNetworkConfig_def buildEgressConfig_def ParseAddressesAndDomains_filter
      AddressStringsToCIDRs_map Let_def filter_empty_conv)

lemma entry_matches_idem: "entry_matches (AddressStringToCIDR e) a \<longleftrightarrow> entry_matches e a"
  by (simp add: entry_matches_def AddressStringToCIDR_idem)

lemma egress_spec_read_back:
  assumes as: "set as = {e \<in> set allow. IsIPOrCIDR e} \<union> (if \<exists>d\<in>set allow. \<not> IsIPOrCIDR d then {DefaultNameserver} else {})"
  shows "egress_spec (map AddressStringToCIDR as @ filter (\<lambda>e. \<not> IsIPOrCIDR e) allow) (map AddressStringToCIDR deny) host a \<longleftrightarrow>
    egress_spec allow deny host a"
proof -
  have ip: "IsIPOrCIDR (AddressStringToCIDR e)" if "e \<in> set as" for e
    using that as nameserver_entry(1) entry_stays_address by (auto split: if_splits)
  let ?new = "set (map AddressStringToCIDR as @ filter (\<lambda>e. \<not> IsIPOrCIDR e) allow)"
  have d: "{d \<in> ?new. \<not> IsIPOrCIDR d} = {d \<in> set allow. \<not> IsIPOrCIDR d}" using ip by auto
  have "(\<exists>e\<in>?new. IsIPOrCIDR e \<and> entry_matches e a) \<longleftrightarrow> (\<exists>e\<in>set as. entry_matches e a)"
    using ip entry_matches_idem by auto
  also have "\<dots> \<longleftrightarrow> (\<exists>e\<in>set allow. IsIPOrCIDR e \<and> entry_matches e a) \<or> a = nameserver \<and> (\<exists>d\<in>set allow. \<not> IsIPOrCIDR d)"
    unfolding as using nameserver_entry(2) by auto
  finally show ?thesis
    using d unfolding egress_spec_def by (simp add: entry_matches_idem) blast
qed

theorem egress_survives_sync:
  assumes "\<forall>e\<in>set deny. IsIPOrCIDR e"
    and "buildNetworkConfig (Some (egress_network allow deny ing)) None tok = msg" and "networkConfig (Some msg) = Some net"
  shows "\<exists>b m m'. isEgressAllowed (nmEgress msg) host a = Ok (b, m) \<and>
    isEgressAllowed (nmEgress (buildNetworkConfig (Some net) None tok')) host a = Ok (b, m')"
proof -
  obtain ing' as where net: "net = egress_network (map AddressStringToCIDR as @ filter (\<lambda>e. \<not> IsIPOrCIDR e) allow)
        (map AddressStringToCIDR deny) ing'"
      and as: "set as = {e \<in> set allow. IsIPOrCIDR e} \<union> (if \<exists>d\<in>set allow. \<not> IsIPOrCIDR d then {DefaultNameserver} else {})"
    using read_back_egress[OF assms(2)] assms(3) by auto
  have deny': "\<forall>e\<in>set (map AddressStringToCIDR deny). IsIPOrCIDR e" using assms(1) entry_stays_address by auto
  show ?thesis
    using built_egress_decides[OF assms(1), of allow ing None tok host a]
      built_egress_decides[OF deny', of "map AddressStringToCIDR as @ filter (\<lambda>e. \<not> IsIPOrCIDR e) allow" ing' None tok' host a]
      egress_spec_read_back[OF as, of deny host a]
    by (auto simp: assms(2) net)
qed

theorem egress_survives_sync_witness:
  "\<exists>b m m'. isEgressAllowed (nmEgress (buildNetworkConfig (Some (egress_network [''example.com''] [''10.0.0.1'', ''0.0.0.0/0''] None)) None None))
       ''b.com'' (IPv4 167772161) = Ok (b, m) \<and>
    isEgressAllowed (nmEgress (buildNetworkConfig (networkConfig (Some (buildNetworkConfig
       (Some (egress_network [''example.com''] [''10.0.0.1'', ''0.0.0.0/0''] None)) None None))) None None)) ''b.com'' (IPv4 167772161) = Ok (b, m')"
proof -
  let ?msg = "buildNetworkConfig (Some (egress_network [''example.com''] [''10.0.0.1'', ''0.0.0.0/0''] None)) None None"
  have d: "\<forall>e\<in>set [''10.0.0.1'', ''0.0.0.0/0'']. IsIPOrCIDR e" by code_simp
  obtain net where n: "networkConfig (Some ?msg) = Some net" by (simp add: networkConfig_def)
  show ?thesis using egress_survives_sync[OF d refl n, of "''b.com''" "IPv4 167772161" None] unfolding n .
qed



text \<open>
  C30.  However the connections of a sandbox arrive, are served and end, at every moment between their
  atomic operations at most as many have a place as the largest limit in force allows, and the counter is
  their number; so a place is given back exactly once.  This holds over any number of lives of the sandbox as long as
  each removal finds none of its connections between taking a place and giving it back (\<open>run_ok\<close>); other
  sandboxes arrive, are served and are removed at any time.  The condition is needed, and the code does not see to
  it: after a removal with a connection still served the limit is exceeded (\<open>overrun_serves_two\<close>).
\<close>

theorem connections_within_limit:
  assumes "concurrent_map cm" and "run_ok cm i L evs ([], NewConnectionLimiter cm)" and "0 \<le> L"
    and "L < 9223372036854775808" and "lim_run cm evs = (cs, l)"
  shows "int (served i cs) \<le> L \<and> Count cm i l = int (served i cs)"
proof -
  have inv: "lim_inv cm i L cs l"
    using conn_limiter.lim_run_inv[OF conn_limiter.intro[OF assms(1)] assms(2-5)] .
  show ?thesis
    using lim_invD(4,5)[OF inv] served_none[OF inv]
    by (auto simp: Count_def smap_defs split: option.splits)
qed

definition two_lives :: "conn_event list" where
  "two_lives = [Arrive ''s'' 1, Arrive ''t'' 5, Go 1, Go 0, Go 0, Go 0, Go 0, Go 0, Go 0, SandboxRemoved ''s'', SandboxRemoved ''t'',
     Arrive ''s'' 1, Arrive ''s'' 1, Go 2, Go 3, Go 2, Go 3, Go 2, Go 3, Go 3, Go 3, Go 1, Go 1]"

theorem connections_within_limit_witness:
  "run_ok list_cmap ''s'' 1 two_lives ([], NewConnectionLimiter list_cmap) \<and>
   (let (cs, l) = lim_run list_cmap two_lives
    in served ''s'' cs = 1 \<and> int (served ''s'' cs) \<le> 1 \<and> Count list_cmap ''s'' l = 1)"
proof -
  have ok: "run_ok list_cmap ''s'' 1 two_lives ([], NewConnectionLimiter list_cmap)" by code_simp
  have s: "served ''s'' (fst (lim_run list_cmap two_lives)) = 1" by code_simp
  obtain cs l where r: "lim_run list_cmap two_lives = (cs, l)" by fastforce
  show ?thesis
    using connections_within_limit[OF list_cmap.concurrent_map_axioms ok _ _ r] ok s r by simp
qed

end
