(* ===== verification/Uffd_Mapping.thy ===== *)
theory Uffd_Mapping
  imports Block_Range
begin

text \<open>
  The map between the memory file of a guest and the addresses at which its virtual machine sees it,
  \<^verbatim>\<open>packages/orchestrator/pkg/sandbox/uffd/memory/region.go\<close> and \<^verbatim>\<open>mapping.go\<close>.  Addresses and sizes are
  \<^verbatim>\<open>uintptr\<close>, offsets are \<^verbatim>\<open>int64\<close>; every sum is wrapped as the source's types wrap it.
\<close>

subsection \<open>Regions\<close>

record Region =
  rgBaseHostVirtAddr :: int
  rgSize :: int
  rgOffset :: int
  rgPageSize :: int

definition endOffset :: "Region \<Rightarrow> int" where
  "endOffset r = i64 (u64 (rgOffset r + rgSize r))"

definition endHostVirtAddr :: "Region \<Rightarrow> int" where
  "endHostVirtAddr r = u64 (rgBaseHostVirtAddr r + rgSize r)"

definition shiftedOffset :: "Region \<Rightarrow> int \<Rightarrow> int" where
  "shiftedOffset r addr = i64 (u64 (u64 (addr - rgBaseHostVirtAddr r) + rgOffset r))"

definition shiftedHostVirtAddr :: "Region \<Rightarrow> int \<Rightarrow> int" where
  "shiftedHostVirtAddr r off = u64 (u64 (u64 off + rgBaseHostVirtAddr r) - rgOffset r)"

subsection \<open>Mappings\<close>

record Mapping =
  mgRegions :: "Region list"

definition NewMapping :: "Region list \<Rightarrow> Mapping" where
  "NewMapping regions = \<lparr>mgRegions = regions\<rparr>"

datatype mapping_error = AddressNotFoundError int | OffsetNotFoundError int | MissingRegionFields nat

text \<open>A region as Firecracker reports it, every field optional.\<close>

record GuestMemoryRegionMapping =
  gmBaseHostVirtAddr :: "int option"
  gmSize :: "int option"
  gmOffset :: "int option"
  gmPageSize :: "int option"

fun regionsFromFc :: "nat \<Rightarrow> GuestMemoryRegionMapping list \<Rightarrow> (mapping_error, Region list) go" where
  "regionsFromFc i [] = Ok []"
| "regionsFromFc i (g # gs) =
     (case (gmBaseHostVirtAddr g, gmSize g, gmOffset g, gmPageSize g) of
        (Some b, Some s, Some off, Some p) \<Rightarrow>
          go_bind (regionsFromFc (Suc i) gs) (\<lambda>rs.
            Ok (\<lparr>rgBaseHostVirtAddr = u64 b, rgSize = u64 s, rgOffset = u64 off, rgPageSize = u64 p\<rparr> # rs))
      | _ \<Rightarrow> Fail (MissingRegionFields i))"

definition NewMappingFromFc :: "GuestMemoryRegionMapping list \<Rightarrow> (mapping_error, Mapping) go" where
  "NewMappingFromFc regions = go_bind (regionsFromFc 0 regions) (\<lambda>r. Ok (NewMapping r))"

definition GetOffset :: "Mapping \<Rightarrow> int \<Rightarrow> (mapping_error, int \<times> int) go" where
  "GetOffset m hostVirtAddr =
     (case find (\<lambda>r. hostVirtAddr \<ge> rgBaseHostVirtAddr r \<and> hostVirtAddr < endHostVirtAddr r) (mgRegions m) of
        Some r \<Rightarrow> Ok (shiftedOffset r hostVirtAddr, rgPageSize r)
      | None \<Rightarrow> Fail (AddressNotFoundError hostVirtAddr))"

definition getHostVirtRegion :: "Mapping \<Rightarrow> int \<Rightarrow> (mapping_error, Region) go" where
  "getHostVirtRegion m off =
     (case find (\<lambda>r. off \<ge> i64 (rgOffset r) \<and> off < endOffset r) (mgRegions m) of
        Some r \<Rightarrow> Ok r
      | None \<Rightarrow> Fail (OffsetNotFoundError off))"

definition GetHostVirtAddr :: "Mapping \<Rightarrow> int \<Rightarrow> (mapping_error, int \<times> int) go" where
  "GetHostVirtAddr m off =
     go_bind (getHostVirtRegion m off) (\<lambda>region. Ok (shiftedHostVirtAddr region off, rgPageSize region))"

text \<open>The loop ends when a region is entered before its end; \<open>None\<close> is a loop that does not.\<close>

partial_function (option) hostVirtLoop ::
  "Mapping \<Rightarrow> int \<Rightarrow> int \<Rightarrow> int \<Rightarrow> Range list \<Rightarrow> (mapping_error, Range list) go option" where
  "hostVirtLoop m off sz n ranges =
     (if n < sz then
        (let currentOff = i64 (off + n)
         in case getHostVirtRegion m currentOff of
              Fail e \<Rightarrow> Some (Fail e)
            | Panic \<Rightarrow> Some Panic
            | Ok region \<Rightarrow>
                (let start = shiftedHostVirtAddr region currentOff;
                     remainingSize = min (i64 (u64 (endHostVirtAddr region - start))) (i64 (sz - n));
                     r = NewRange (i64 start) remainingSize
                 in hostVirtLoop m off sz (i64 (n + rSize r)) (ranges @ [r])))
      else Some (Ok ranges))"

definition GetHostVirtRanges :: "Mapping \<Rightarrow> int \<Rightarrow> int \<Rightarrow> (mapping_error, Range list) go option" where
  "GetHostVirtRanges m off sz = hostVirtLoop m off sz 0 []"

subsection \<open>Well-formed mappings\<close>

text \<open>Regions inside the address space whose offsets are not shared, nor are their addresses.\<close>

definition region_ok :: "Region \<Rightarrow> bool" where
  "region_ok r \<longleftrightarrow> 0 \<le> rgBaseHostVirtAddr r \<and> 0 < rgSize r \<and> 0 \<le> rgOffset r \<and>
     rgBaseHostVirtAddr r + rgSize r < 9223372036854775808 \<and> rgOffset r + rgSize r < 9223372036854775808"

definition has_offset :: "Region \<Rightarrow> int \<Rightarrow> bool" where
  "has_offset r off \<longleftrightarrow> rgOffset r \<le> off \<and> off < rgOffset r + rgSize r"

definition has_addr :: "Region \<Rightarrow> int \<Rightarrow> bool" where
  "has_addr r a \<longleftrightarrow> rgBaseHostVirtAddr r \<le> a \<and> a < rgBaseHostVirtAddr r + rgSize r"

definition wf_mapping :: "Mapping \<Rightarrow> bool" where
  "wf_mapping m \<longleftrightarrow>
     (\<forall>r\<in>set (mgRegions m). region_ok r) \<and>
     (\<forall>r\<in>set (mgRegions m). \<forall>s\<in>set (mgRegions m). \<forall>x. has_offset r x \<and> has_offset s x \<longrightarrow> r = s) \<and>
     (\<forall>r\<in>set (mgRegions m). \<forall>s\<in>set (mgRegions m). \<forall>x. has_addr r x \<and> has_addr s x \<longrightarrow> r = s)"

definition addr_at :: "Region \<Rightarrow> int \<Rightarrow> int" where
  "addr_at r off = rgBaseHostVirtAddr r + (off - rgOffset r)"

lemma region_arith:
  assumes "region_ok r"
  shows "i64 (rgOffset r) = rgOffset r" "endOffset r = rgOffset r + rgSize r" "endHostVirtAddr r = rgBaseHostVirtAddr r + rgSize r"
    "has_offset r off \<Longrightarrow> shiftedHostVirtAddr r off = addr_at r off" "has_addr r a \<Longrightarrow> shiftedOffset r a = rgOffset r + (a - rgBaseHostVirtAddr r)"
proof -
  have b: "0 \<le> rgBaseHostVirtAddr r" "0 < rgSize r" "0 \<le> rgOffset r" "rgBaseHostVirtAddr r + rgSize r < 9223372036854775808"
    "rgOffset r + rgSize r < 9223372036854775808"
    using assms by (simp_all add: region_ok_def)
  show "i64 (rgOffset r) = rgOffset r" using b by simp
  show "endOffset r = rgOffset r + rgSize r" using b by (simp add: endOffset_def)
  show "endHostVirtAddr r = rgBaseHostVirtAddr r + rgSize r" using b by (simp add: endHostVirtAddr_def)
  show "shiftedHostVirtAddr r off = addr_at r off" if "has_offset r off"
    using b that by (simp add: shiftedHostVirtAddr_def has_offset_def addr_at_def)
  show "shiftedOffset r a = rgOffset r + (a - rgBaseHostVirtAddr r)" if "has_addr r a"
    using b that by (simp add: shiftedOffset_def has_addr_def)
qed

lemma wf_mapping_unique:
  assumes "wf_mapping m" "r \<in> set (mgRegions m)" "s \<in> set (mgRegions m)"
  shows "has_offset r x \<Longrightarrow> has_offset s x \<Longrightarrow> r = s" "has_addr r x \<Longrightarrow> has_addr s x \<Longrightarrow> r = s"
  using assms unfolding wf_mapping_def by blast+

lemma find_region_offset:
  assumes "wf_mapping m"
  shows "find (\<lambda>r. off \<ge> i64 (rgOffset r) \<and> off < endOffset r) (mgRegions m) = find (\<lambda>r. has_offset r off) (mgRegions m)"
  using assms by (intro find_cong) (auto simp: wf_mapping_def region_arith has_offset_def)

lemma find_region_addr:
  assumes "wf_mapping m"
  shows "find (\<lambda>r. a \<ge> rgBaseHostVirtAddr r \<and> a < endHostVirtAddr r) (mgRegions m) = find (\<lambda>r. has_addr r a) (mgRegions m)"
  using assms by (intro find_cong) (auto simp: wf_mapping_def region_arith has_addr_def)

text \<open>The functions on a region that has the offset or the address.\<close>

lemma getHostVirtRegion_ok:
  assumes "wf_mapping m" "r \<in> set (mgRegions m)" "has_offset r off"
  shows "getHostVirtRegion m off = Ok r"
proof -
  have "find (\<lambda>r. has_offset r off) (mgRegions m) = Some r"
    using assms wf_mapping_unique[OF assms(1) _ assms(2)] by (intro find_unique) blast+
  then show ?thesis by (simp add: getHostVirtRegion_def find_region_offset[OF assms(1)])
qed

lemma getHostVirtRegion_none:
  assumes "wf_mapping m" "\<forall>r\<in>set (mgRegions m). \<not> has_offset r off"
  shows "getHostVirtRegion m off = Fail (OffsetNotFoundError off)"
proof -
  have "find (\<lambda>r. has_offset r off) (mgRegions m) = None" using assms(2) by (simp add: find_None_iff)
  then show ?thesis by (simp add: getHostVirtRegion_def find_region_offset[OF assms(1)])
qed

lemma GetOffset_ok:
  assumes "wf_mapping m" "r \<in> set (mgRegions m)" "has_addr r a"
  shows "GetOffset m a = Ok (rgOffset r + (a - rgBaseHostVirtAddr r), rgPageSize r)"
proof -
  have "find (\<lambda>r. has_addr r a) (mgRegions m) = Some r"
    using assms wf_mapping_unique[OF assms(1) _ assms(2)] by (intro find_unique) blast+
  then show ?thesis
    using assms by (simp add: GetOffset_def find_region_addr[OF assms(1)] region_arith wf_mapping_def)
qed

lemma GetOffset_none:
  assumes "wf_mapping m" "\<forall>r\<in>set (mgRegions m). \<not> has_addr r a"
  shows "GetOffset m a = Fail (AddressNotFoundError a)"
proof -
  have "find (\<lambda>r. has_addr r a) (mgRegions m) = None" using assms(2) by (simp add: find_None_iff)
  then show ?thesis by (simp add: GetOffset_def find_region_addr[OF assms(1)])
qed

subsection \<open>The ranges of an interval of offsets\<close>

definition range_addrs :: "Range \<Rightarrow> int list" where
  "range_addrs r = [rStart r .. rStart r + rSize r - 1]"

definition mapped :: "Mapping \<Rightarrow> int \<Rightarrow> bool" where
  "mapped m off \<longleftrightarrow> (\<exists>r\<in>set (mgRegions m). has_offset r off)"

lemma GetHostVirtAddr_ok:
  assumes "wf_mapping m" "r \<in> set (mgRegions m)" "has_offset r off"
  shows "GetHostVirtAddr m off = Ok (addr_at r off, rgPageSize r)"
  using assms by (simp add: GetHostVirtAddr_def getHostVirtRegion_ok[OF assms] wf_mapping_def region_arith)

text \<open>One round: a piece of the region that holds the current offset.\<close>

lemma hostVirtLoop_round:
  assumes wf: "wf_mapping m" and r: "r \<in> set (mgRegions m)" "has_offset r (off + n)"
    and b: "0 \<le> off" "0 \<le> n" "n < sz" "off + sz < 9223372036854775808"
  defines "k \<equiv> min (rgOffset r + rgSize r - (off + n)) (sz - n)"
  shows "hostVirtLoop m off sz n acc = hostVirtLoop m off sz (n + k) (acc @ [NewRange (addr_at r (off + n)) k])" "0 < k" "k \<le> sz - n"
    "list_all2 (\<lambda>a x. GetHostVirtAddr m x = Ok (a, rgPageSize r)) (range_addrs (NewRange (addr_at r (off + n)) k)) [off + n .. off + n + k - 1]"
proof -
  have ok: "region_ok r" using wf r(1) by (simp add: wf_mapping_def)
  note ar = region_arith[OF ok]
  show k: "0 < k" "k \<le> sz - n" using r(2) b by (auto simp: k_def has_offset_def)
  have x: "rgOffset r \<le> off + n" "off + n < rgOffset r + rgSize r" using r(2) by (auto simp: has_offset_def)
  have s: "endHostVirtAddr r - addr_at r (off + n) = rgOffset r + rgSize r - (off + n)"
    using ar(3) by (simp add: addr_at_def)
  have rg: "0 \<le> rgOffset r" "0 \<le> rgBaseHostVirtAddr r" "rgOffset r + rgSize r < 9223372036854775808"
    "rgBaseHostVirtAddr r + rgSize r < 9223372036854775808"
    using ok by (auto simp: region_ok_def)
  have i: "i64 (off + n) = off + n" "i64 (sz - n) = sz - n" "i64 (n + k) = n + k" "i64 (addr_at r (off + n)) = addr_at r (off + n)"
    "i64 (endHostVirtAddr r - addr_at r (off + n)) = rgOffset r + rgSize r - (off + n)"
    using b x rg k unfolding s by (simp_all add: addr_at_def)
  show "hostVirtLoop m off sz n acc = hostVirtLoop m off sz (n + k) (acc @ [NewRange (addr_at r (off + n)) k])"
    by (subst hostVirtLoop.simps)
      (simp add: i b(3) getHostVirtRegion_ok[OF wf r] ar(4)[OF r(2)] Let_def NewRange_def flip: k_def)
  have "GetHostVirtAddr m (off + n + int j) = Ok (addr_at r (off + n) + int j, rgPageSize r)" if "int j < k" for j
  proof -
    have "has_offset r (off + n + int j)" using that x by (auto simp: has_offset_def k_def)
    then show ?thesis using GetHostVirtAddr_ok[OF wf r(1)] by (simp add: addr_at_def)
  qed
  then show "list_all2 (\<lambda>a x. GetHostVirtAddr m x = Ok (a, rgPageSize r)) (range_addrs (NewRange (addr_at r (off + n)) k)) [off + n .. off + n + k - 1]"
    using k by (auto simp: list_all2_conv_all_nth range_addrs_def NewRange_def)
qed

text \<open>The loop covers the mapped offsets up to \<open>x\<close>, which is the end or the first that is not mapped.\<close>

lemma hostVirtLoop_result:
  assumes wf: "wf_mapping m" and "0 \<le> off" "off + sz < 9223372036854775808"
    and "0 \<le> n" "off + n \<le> x" "x \<le> off + sz" "\<forall>y. off + n \<le> y \<and> y < x \<longrightarrow> mapped m y" "x < off + sz \<longrightarrow> \<not> mapped m x"
  shows "\<exists>rs. hostVirtLoop m off sz n acc = Some (if x < off + sz then Fail (OffsetNotFoundError x) else Ok (acc @ rs)) \<and>
    list_all2 (\<lambda>a y. \<exists>p. GetHostVirtAddr m y = Ok (a, p)) (concat (map range_addrs rs)) [off + n .. x - 1]"
  using assms(4-8)
proof (induction "nat (sz - n)" arbitrary: n acc rule: less_induct)
  case less
  show ?case
  proof (cases "off + n < x")
    case False
    then have x: "x = off + n" using less.prems by simp
    show ?thesis
    proof (cases "n < sz")
      case True
      then have "getHostVirtRegion m (off + n) = Fail (OffsetNotFoundError (off + n))"
        using less.prems x by (intro getHostVirtRegion_none[OF wf]) (auto simp: mapped_def)
      then show ?thesis
        using True x assms(2,3) less.prems(1) by (intro exI[of _ "[]"], subst hostVirtLoop.simps) simp
    next
      case False
      then show ?thesis using x by (intro exI[of _ "[]"], subst hostVirtLoop.simps) simp
    qed
  next
    case True
    then obtain r where r: "r \<in> set (mgRegions m)" "has_offset r (off + n)" using less.prems(4) by (auto simp: mapped_def)
    have n: "n < sz" using True less.prems by simp
    define k where "k = min (rgOffset r + rgSize r - (off + n)) (sz - n)"
    note round = hostVirtLoop_round[OF wf r assms(2) less.prems(1) n assms(3), folded k_def]
    have kx: "off + n + k \<le> x"
    proof (rule ccontr)
      assume "\<not> off + n + k \<le> x"
      then have "has_offset r x" "x < off + sz" using r(2) True by (auto simp: has_offset_def k_def)
      with less.prems(5) r(1) show False by (auto simp: mapped_def)
    qed
    obtain rs where rs: "hostVirtLoop m off sz (n + k) (acc @ [NewRange (addr_at r (off + n)) k]) =
          Some (if x < off + sz then Fail (OffsetNotFoundError x) else Ok ((acc @ [NewRange (addr_at r (off + n)) k]) @ rs))"
        "list_all2 (\<lambda>a y. \<exists>p. GetHostVirtAddr m y = Ok (a, p)) (concat (map range_addrs rs)) [off + (n + k) .. x - 1]"
      using less.hyps[of "n + k" "acc @ [NewRange (addr_at r (off + n)) k]"] less.prems round(2,3) n kx by auto
    have "[off + n .. x - 1] = [off + n .. off + n + k - 1] @ [off + (n + k) .. x - 1]"
      using upto_split1[of "off + n" "off + n + k" "x - 1"] round(2) kx
      by (cases "off + n + k = x") (auto simp: algebra_simps)
    moreover have "list_all2 (\<lambda>a y. \<exists>p. GetHostVirtAddr m y = Ok (a, p)) (range_addrs (NewRange (addr_at r (off + n)) k)) [off + n .. off + n + k - 1]"
      by (rule list_all2_mono[OF round(4)]) blast
    ultimately show ?thesis
      using rs round(1)[of acc] by (intro exI[of _ "NewRange (addr_at r (off + n)) k # rs"]) (simp add: list_all2_appendI)
  qed
qed

end
