(* ===== verification/Uffd_Serve.thy ===== *)
theory Uffd_Serve
  imports Uffd_Mapping
begin

unbundle bit_operations_syntax

text \<open>
  The page-fault handler of a sandbox, \<^verbatim>\<open>packages/orchestrator/pkg/sandbox/uffd/userfaultfd/userfaultfd.go\<close>, with
  \<^verbatim>\<open>fd.go\<close> and the trackers of \<^verbatim>\<open>block/prefetch_tracker.go\<close>.

  \<^verbatim>\<open>Serve\<close> reads messages of the kernel and starts a goroutine per fault; its answers are an argument.  The
  goroutines run \<^verbatim>\<open>faultPage\<close>: they read a page of the source and have the kernel put it into the guest.
  \<open>uffd_step\<close> interleaves them.  The kernel puts a page where none is and answers \<^verbatim>\<open>EEXIST\<close> otherwise, as
  the documentation of \<^verbatim>\<open>UFFDIO_COPY\<close> says; it may also fail.
\<close>

subsection \<open>The tracker of accesses\<close>

datatype AccessType = AccessRead | AccessWrite | AccessPrefetch

record PrefetchBlockEntry =
  peIndex :: int
  peOrder :: int
  peAccessType :: AccessType

record PrefetchTracker =
  ptBlockSize :: int
  ptBlockEntries :: "int \<Rightarrow> PrefetchBlockEntry option"
  ptOrderCounter :: int
  ptIsTracking :: bool

definition NewPrefetchTracker :: "int \<Rightarrow> PrefetchTracker" where
  "NewPrefetchTracker blockSize =
     \<lparr>ptBlockSize = blockSize, ptBlockEntries = (\<lambda>_. None), ptOrderCounter = 1, ptIsTracking = True\<rparr>"

definition prefetch_Add :: "int \<Rightarrow> AccessType \<Rightarrow> PrefetchTracker \<Rightarrow> ('e, PrefetchTracker) go" where
  "prefetch_Add off accessType t =
     (if \<not> ptIsTracking t then Ok t
      else
        go_bind (BlockIdx off (ptBlockSize t)) (\<lambda>i.
          let idx = u64 i
          in Ok (if ptBlockEntries t idx = None
                 then t\<lparr>ptBlockEntries := (ptBlockEntries t)
                            (idx \<mapsto> \<lparr>peIndex = idx, peOrder = ptOrderCounter t, peAccessType = accessType\<rparr>),
                        ptOrderCounter := u64 (ptOrderCounter t + 1)\<rparr>
                 else t)))"

definition PrefetchData :: "PrefetchTracker \<Rightarrow> ((int \<Rightarrow> PrefetchBlockEntry option) \<times> int) \<times> PrefetchTracker" where
  "PrefetchData t = ((ptBlockEntries t, ptBlockSize t), t\<lparr>ptIsTracking := False\<rparr>)"

subsection \<open>The handler\<close>

record ('b, 'e) Userfaultfd =
  ufSlice :: "int \<Rightarrow> int \<Rightarrow> ('e, byte list) go"
  ufMapping :: Mapping
  ufMissingRequests :: "'b Tracker"
  ufPrefetchTracker :: PrefetchTracker

datatype uffd_error =
    BlockSizeMismatch int int int
  | MapFailed mapping_error
  | DataLengthMismatch int int

definition NewUserfaultfdFromFd ::
  "'b bitset_ops \<Rightarrow> (int \<Rightarrow> int \<Rightarrow> ('e, byte list) go) \<Rightarrow> int \<Rightarrow> Mapping \<Rightarrow> (uffd_error, ('b, 'e) Userfaultfd) go" where
  "NewUserfaultfdFromFd ops src blockSize m =
     (case find (\<lambda>region. rgPageSize region \<noteq> u64 blockSize) (mgRegions m) of
        Some region \<Rightarrow> Fail (BlockSizeMismatch (rgPageSize region) blockSize (rgBaseHostVirtAddr region))
      | None \<Rightarrow>
          Ok \<lparr>ufSlice = src, ufMapping = m, ufMissingRequests = NewTracker ops blockSize,
              ufPrefetchTracker = NewPrefetchTracker blockSize\<rparr>)"

text \<open>\<^verbatim>\<open>copy\<close> clears the low bits of the address.\<close>

definition copy_dst :: "int \<Rightarrow> int \<Rightarrow> int" where
  "copy_dst addr pagesize = addr AND NOT (u64 (pagesize - 1))"

subsection \<open>The loop of messages\<close>

text \<open>A request for a page, as it is handed to a goroutine.\<close>

record fault =
  faAddr :: int
  faOffset :: int
  faPageSize :: int
  faAccess :: AccessType

datatype 'e uffd_read = ReadEINTR | ReadEAGAIN | ReadFailed 'e | ReadMsg int int int

datatype 'e uffd_poll = PollRetry | PollFailed 'e | Polled bool bool "'e uffd_read list"

datatype 'e serve_error =
    PollError 'e
  | ReadError 'e
  | HandleError 'e
  | ErrUnexpectedEventType int
  | ServeMapError mapping_error
  | UnexpectedFlags int

definition UFFD_EVENT_PAGEFAULT :: int where "UFFD_EVENT_PAGEFAULT = 18"
definition UFFD_PAGEFAULT_FLAG_WRITE :: int where "UFFD_PAGEFAULT_FLAG_WRITE = 1"

text \<open>Reads are repeated while they are interrupted; \<open>None\<close> is a read that does not return.\<close>

fun readLoop :: "'e uffd_read list \<Rightarrow> 'e uffd_read option" where
  "readLoop [] = None"
| "readLoop (ReadEINTR # rs) = readLoop rs"
| "readLoop (r # rs) = Some r"

definition handleMsg :: "Mapping \<Rightarrow> int \<Rightarrow> int \<Rightarrow> int \<Rightarrow> 'e serve_error + fault" where
  "handleMsg m event flags addr =
     (if event \<noteq> UFFD_EVENT_PAGEFAULT then Inl (ErrUnexpectedEventType event)
      else
        (case GetOffset m addr of
           Ok (offset, pagesize) \<Rightarrow>
             if flags AND UFFD_PAGEFAULT_FLAG_WRITE \<noteq> 0
             then Inr \<lparr>faAddr = addr, faOffset = offset, faPageSize = pagesize, faAccess = AccessWrite\<rparr>
             else if flags = 0
             then Inr \<lparr>faAddr = addr, faOffset = offset, faPageSize = pagesize, faAccess = AccessRead\<rparr>
             else Inl (UnexpectedFlags flags)
         | Fail e \<Rightarrow> Inl (ServeMapError e)
         | Panic \<Rightarrow> Inl (UnexpectedFlags flags)))"

text \<open>
  The loop gives the faults it has handed to goroutines and its result, \<open>None\<close> while it waits for the kernel.
  \<open>waited\<close> is the error of the goroutines that \<^verbatim>\<open>wg.Wait\<close> returns.
\<close>

fun Serve :: "Mapping \<Rightarrow> 'e option \<Rightarrow> 'e uffd_poll list \<Rightarrow> fault list \<times> 'e serve_error option option" where
  "Serve m waited [] = ([], None)"
| "Serve m waited (PollRetry # ps) = Serve m waited ps"
| "Serve m waited (PollFailed e # ps) = ([], Some (Some (PollError e)))"
| "Serve m waited (Polled exit ready reads # ps) =
     (if exit then ([], Some (map_option HandleError waited))
      else if \<not> ready then Serve m waited ps
      else
        (case readLoop reads of
           None \<Rightarrow> ([], None)
         | Some (ReadMsg event flags addr) \<Rightarrow>
             (case handleMsg m event flags addr of
                Inl e \<Rightarrow> ([], Some (Some e))
              | Inr f \<Rightarrow> (let (fs, r) = Serve m waited ps in (f # fs, r)))
         | Some (ReadFailed e) \<Rightarrow> ([], Some (Some (ReadError e)))
         | Some _ \<Rightarrow> Serve m waited ps))"

subsection \<open>The goroutines\<close>

text \<open>
  The phases of \<^verbatim>\<open>faultPage\<close>: before its lock, with the lock and about to read the source, with the data, after
  the copy, after the first tracker, and done.  A prefault brings its data.
\<close>

datatype 'e request =
    Waiting fault "byte list option"
  | Locked fault "byte list option"
  | WithData fault "byte list"
  | PageCopied fault
  | MissingTracked fault
  | RequestDone "'e option"

definition Prefault :: "Mapping \<Rightarrow> int \<Rightarrow> byte list \<Rightarrow> uffd_error + 'e request" where
  "Prefault m offset data =
     (case GetHostVirtAddr m offset of
        Ok (addr, pagesize) \<Rightarrow>
          if int (length data) \<noteq> pagesize then Inl (DataLengthMismatch (int (length data)) pagesize)
          else Inr (Waiting \<lparr>faAddr = addr, faOffset = offset, faPageSize = pagesize, faAccess = AccessPrefetch\<rparr> (Some data))
      | Fail e \<Rightarrow> Inl (MapFailed e)
      | Panic \<Rightarrow> Inl (DataLengthMismatch 0 0))"

text \<open>
  The pages of the guest, by their addresses.  The kernel copies a page from where the data starts, whatever
  its length: \<open>c\<close> below is the data, cut to a page, or the data with what lies behind it in memory.
\<close>

type_synonym guest = "int \<Rightarrow> byte list option"

inductive request_step ::
  "'b bitset_ops \<Rightarrow> ('b, 'e) Userfaultfd \<Rightarrow> guest \<Rightarrow> 'e request \<Rightarrow> ('b, 'e) Userfaultfd \<Rightarrow> guest \<Rightarrow> 'e request \<Rightarrow> bool"
  for ops where
  lock: "request_step ops u g (Waiting f d) u g (Locked f d)"
| source: "ufSlice u (faOffset f) (i64 (faPageSize f)) = Ok b \<Longrightarrow> request_step ops u g (Locked f None) u g (WithData f b)"
| source_error: "ufSlice u (faOffset f) (i64 (faPageSize f)) = Fail e \<Longrightarrow>
    request_step ops u g (Locked f None) u g (RequestDone (Some e))"
| source_panic: "ufSlice u (faOffset f) (i64 (faPageSize f)) = Panic \<Longrightarrow> request_step ops u g (Locked f None) u g (RequestDone None)"
| direct: "request_step ops u g (Locked f (Some b)) u g (WithData f b)"
| no_data: "b = [] \<Longrightarrow> request_step ops u g (WithData f b) u g (RequestDone None)"
| copied: "b \<noteq> [] \<Longrightarrow> g (copy_dst (faAddr f) (faPageSize f)) = None \<Longrightarrow> int (length c) = faPageSize f \<Longrightarrow>
    take (length c) b = take (length b) c \<Longrightarrow>
    request_step ops u g (WithData f b) u (g(copy_dst (faAddr f) (faPageSize f) \<mapsto> c)) (PageCopied f)"
| already_mapped: "b \<noteq> [] \<Longrightarrow> g (copy_dst (faAddr f) (faPageSize f)) \<noteq> None \<Longrightarrow>
    request_step ops u g (WithData f b) u g (RequestDone None)"
| copy_error: "b \<noteq> [] \<Longrightarrow> request_step ops u g (WithData f b) u g (RequestDone (Some e))"
| track: "tracker_Add ops (ufMissingRequests u) (faOffset f) = (Ok t :: (unit, 'b Tracker) go) \<Longrightarrow>
    request_step ops u g (PageCopied f) (u\<lparr>ufMissingRequests := t\<rparr>) g (MissingTracked f)"
| track_access: "prefetch_Add (faOffset f) (faAccess f) (ufPrefetchTracker u) = (Ok t :: (unit, PrefetchTracker) go) \<Longrightarrow>
    request_step ops u g (MissingTracked f) (u\<lparr>ufPrefetchTracker := t\<rparr>) g (RequestDone None)"

text \<open>
  Faults arrive through \<^verbatim>\<open>Serve\<close>, prefaults from the prefetcher, which took their data from the same source.
  Neither waits for the other.  \<^verbatim>\<open>PrefetchData\<close> and \<^verbatim>\<open>faulted\<close> take the lock of all requests: none of them is
  between its lock and its end.
\<close>

fun in_flight :: "'e request \<Rightarrow> bool" where
  "in_flight (Waiting f d) \<longleftrightarrow> False"
| "in_flight (RequestDone e) \<longleftrightarrow> False"
| "in_flight r \<longleftrightarrow> True"

inductive uffd_step ::
  "'b bitset_ops \<Rightarrow> ('b, 'e) Userfaultfd \<times> guest \<times> 'e request list \<Rightarrow> ('b, 'e) Userfaultfd \<times> guest \<times> 'e request list \<Rightarrow> bool"
  for ops where
  serve: "Serve (ufMapping u) (waited :: 'e option) ps = (fs, r) \<Longrightarrow> f \<in> set fs \<Longrightarrow> faAddr f mod faPageSize f = 0 \<Longrightarrow>
    uffd_step ops (u, g, rs) (u, g, rs @ [Waiting f None])"
| prefault: "Prefault (ufMapping u) offset d = Inr r \<Longrightarrow> ufSlice u offset (int (length d)) = Ok d \<Longrightarrow> offset mod int (length d) = 0 \<Longrightarrow>
    uffd_step ops (u, g, rs) (u, g, rs @ [r])"
| request: "i < length rs \<Longrightarrow> request_step ops u g (rs ! i) u' g' r \<Longrightarrow> uffd_step ops (u, g, rs) (u', g', rs[i := r])"
| prefetch_data: "\<forall>r\<in>set rs. \<not> in_flight r \<Longrightarrow>
    uffd_step ops (u, g, rs) (u\<lparr>ufPrefetchTracker := snd (PrefetchData (ufPrefetchTracker u))\<rparr>, g, rs)"

definition faulted :: "('b, 'e) Userfaultfd \<Rightarrow> 'b Tracker" where
  "faulted u = tracker_Clone (ufMissingRequests u)"

subsection \<open>Pages\<close>

text \<open>A mapping whose regions are made of pages of \<open>2 ^ k\<close> bytes.\<close>

definition paged :: "nat \<Rightarrow> Mapping \<Rightarrow> bool" where
  "paged k m \<longleftrightarrow> wf_mapping m \<and> k < 63 \<and>
     (\<forall>r\<in>set (mgRegions m). rgPageSize r = 2 ^ k \<and> rgBaseHostVirtAddr r mod 2 ^ k = 0 \<and> rgOffset r mod 2 ^ k = 0)"

text \<open>An address and the offset of its page.\<close>

definition page_at :: "nat \<Rightarrow> Mapping \<Rightarrow> int \<Rightarrow> int \<Rightarrow> bool" where
  "page_at k m a off \<longleftrightarrow> a mod 2 ^ k = 0 \<and> GetOffset m a = Ok (off, 2 ^ k)"

lemma mod_sum_diff: "x mod n = 0 \<Longrightarrow> y mod n = 0 \<Longrightarrow> z mod n = 0 \<Longrightarrow> (x + (y - z)) mod n = (0 :: int)"
  unfolding mod_eq_0_iff_dvd by (intro dvd_add dvd_diff)

lemma copy_dst_aligned:
  assumes "a mod 2 ^ k = 0" "k < 63"
  shows "copy_dst a (2 ^ k) = a"
proof -
  have "(2::int) ^ k < 2 ^ 63" using assms(2) by (rule power_strict_increasing) simp
  then have m: "u64 (2 ^ k - 1) = mask k" by (simp add: mask_eq_exp_minus_1)
  obtain q where q: "a = push_bit k q"
    using assms(1) by (metis mod_0_imp_dvd dvd_def mult.commute push_bit_eq_mult)
  show ?thesis
    unfolding copy_dst_def m q by (rule bit_eqI) (auto simp: bit_simps)
qed

lemma page_at_region:
  assumes "paged k m" "page_at k m a off"
  obtains r where "r \<in> set (mgRegions m)" "has_addr r a" "has_offset r off" "off = rgOffset r + (a - rgBaseHostVirtAddr r)"
    "off mod 2 ^ k = 0" "0 \<le> off" "off < 9223372036854775808"
proof -
  have wf: "wf_mapping m" using assms(1) by (simp add: paged_def)
  obtain r where r: "r \<in> set (mgRegions m)" "has_addr r a"
    using assms(2) GetOffset_none[OF wf, of a] by (auto simp: page_at_def)
  have off: "off = rgOffset r + (a - rgBaseHostVirtAddr r)"
    using GetOffset_ok[OF wf r] assms(2) by (simp add: page_at_def)
  have al: "rgBaseHostVirtAddr r mod 2 ^ k = 0" "rgOffset r mod 2 ^ k = 0" "a mod 2 ^ k = 0"
    using assms r(1) by (auto simp: paged_def page_at_def)
  have page: "off mod 2 ^ k = 0"
    using al unfolding off by (intro mod_sum_diff)
  have "region_ok r" using wf r(1) by (simp add: wf_mapping_def)
  then have o: "has_offset r off" "0 \<le> off" "off < 9223372036854775808"
    using r(2) by (auto simp: off has_offset_def has_addr_def region_ok_def)
  show ?thesis by (rule that[OF r o(1) off page o(2,3)])
qed

lemma page_offset:
  assumes "paged k m" "page_at k m a off"
  shows "off mod 2 ^ k = 0" "0 \<le> off" "off < 9223372036854775808"
proof -
  obtain r where "off mod 2 ^ k = 0" "0 \<le> off" "off < 9223372036854775808" using page_at_region[OF assms] .
  then show "off mod 2 ^ k = 0" "0 \<le> off" "off < 9223372036854775808" .
qed

lemma page_at_addr:
  assumes "paged k m" "page_at k m a off"
  shows "GetHostVirtAddr m off = Ok (a, 2 ^ k)"
proof -
  obtain r where r: "r \<in> set (mgRegions m)" "has_offset r off" "off = rgOffset r + (a - rgBaseHostVirtAddr r)"
    using page_at_region[OF assms] .
  show ?thesis
    using GetHostVirtAddr_ok[OF _ r(1,2)] r assms(1) by (simp add: paged_def addr_at_def)
qed

lemma page_at_inject:
  assumes "paged k m" "page_at k m a off" "page_at k m a' off"
  shows "a = a'"
  using page_at_addr[OF assms(1,2)] page_at_addr[OF assms(1,3)] by simp

lemma page_of_offset:
  assumes "paged k m" "GetHostVirtAddr m off = Ok (a, p)" "off mod 2 ^ k = 0"
  shows "page_at k m a off" "p = 2 ^ k"
proof -
  have wf: "wf_mapping m" using assms(1) by (simp add: paged_def)
  obtain r where r: "r \<in> set (mgRegions m)" "has_offset r off"
    using assms(2) getHostVirtRegion_none[OF wf, of off] by (cases "\<forall>r\<in>set (mgRegions m). \<not> has_offset r off") (auto simp: GetHostVirtAddr_def)
  have a: "a = addr_at r off" "p = rgPageSize r" using GetHostVirtAddr_ok[OF wf r] assms(2) by auto
  then show "p = 2 ^ k" using assms(1) r(1) by (simp add: paged_def)
  have h: "has_addr r a" using r(2) by (auto simp: a addr_at_def has_addr_def has_offset_def)
  have al: "rgBaseHostVirtAddr r mod 2 ^ k = 0" "rgOffset r mod 2 ^ k = 0" using assms(1) r(1) by (auto simp: paged_def)
  have "a mod 2 ^ k = 0"
    using al assms(3) unfolding a(1) addr_at_def by (intro mod_sum_diff)
  then show "page_at k m a off"
    using GetOffset_ok[OF wf r(1) h] assms(1) r(1) by (simp add: page_at_def a(1) addr_at_def paged_def)
qed

subsection \<open>The invariant\<close>

definition fault_ok :: "nat \<Rightarrow> Mapping \<Rightarrow> fault \<Rightarrow> bool" where
  "fault_ok k m f \<longleftrightarrow> page_at k m (faAddr f) (faOffset f) \<and> faPageSize f = 2 ^ k"

fun request_ok :: "nat \<Rightarrow> Mapping \<Rightarrow> (int \<Rightarrow> int \<Rightarrow> ('e, byte list) go) \<Rightarrow> 'e request \<Rightarrow> bool" where
  "request_ok k m src (Waiting f d) \<longleftrightarrow> fault_ok k m f \<and> (\<forall>b. d = Some b \<longrightarrow> src (faOffset f) (2 ^ k) = Ok b)"
| "request_ok k m src (Locked f d) \<longleftrightarrow> fault_ok k m f \<and> (\<forall>b. d = Some b \<longrightarrow> src (faOffset f) (2 ^ k) = Ok b)"
| "request_ok k m src (WithData f b) \<longleftrightarrow> fault_ok k m f \<and> src (faOffset f) (2 ^ k) = Ok b"
| "request_ok k m src (PageCopied f) \<longleftrightarrow> fault_ok k m f"
| "request_ok k m src (MissingTracked f) \<longleftrightarrow> fault_ok k m f"
| "request_ok k m src (RequestDone e) \<longleftrightarrow> True"

fun copied_at :: "int \<Rightarrow> 'e request \<Rightarrow> bool" where
  "copied_at off (PageCopied f) \<longleftrightarrow> faOffset f = off"
| "copied_at off r \<longleftrightarrow> False"

text \<open>
  Every page of the guest is the page of the source at its offset.  The offset is in the tracker, or a
  goroutine that has copied the page is about to put it there.
\<close>

definition page_tracked :: "'b bitset_ops \<Rightarrow> ('b, 'e) Userfaultfd \<Rightarrow> int \<Rightarrow> bool" where
  "page_tracked ops u off \<longleftrightarrow> tracker_Has ops (ufMissingRequests u) off = (Ok True :: (unit, bool) go)"

definition uffd_inv ::
  "nat \<Rightarrow> Mapping \<Rightarrow> (int \<Rightarrow> int \<Rightarrow> ('e, byte list) go) \<Rightarrow> 'b bitset_ops \<Rightarrow> ('b, 'e) Userfaultfd \<times> guest \<times> 'e request list \<Rightarrow> bool" where
  "uffd_inv k m src ops s \<longleftrightarrow>
     (case s of (u, g, rs) \<Rightarrow>
        ufMapping u = m \<and> ufSlice u = src \<and> tBlockSize (ufMissingRequests u) = 2 ^ k \<and>
        (\<forall>r\<in>set rs. request_ok k m src r) \<and>
        (\<forall>a b. g a = Some b \<longrightarrow> (\<exists>off. page_at k m a off \<and> src off (2 ^ k) = Ok b)) \<and>
        (\<forall>a off. page_at k m a off \<longrightarrow> (g a \<noteq> None \<longleftrightarrow> page_tracked ops u off \<or> (\<exists>r\<in>set rs. copied_at off r))))"

lemma ex_set_update:
  assumes "i < length rs"
  shows "(\<exists>x\<in>set (rs[i := r]). P x) \<longleftrightarrow> P r \<or> (\<exists>j<length rs. j \<noteq> i \<and> P (rs ! j))"
    "(\<exists>x\<in>set rs. P x) \<longleftrightarrow> P (rs ! i) \<or> (\<exists>j<length rs. j \<noteq> i \<and> P (rs ! j))"
proof -
  have ex: "(\<exists>x\<in>set xs. P x) \<longleftrightarrow> (\<exists>j<length xs. P (xs ! j))" for xs by (metis in_set_conv_nth)
  show "(\<exists>x\<in>set (rs[i := r]). P x) \<longleftrightarrow> P r \<or> (\<exists>j<length rs. j \<noteq> i \<and> P (rs ! j))"
    unfolding ex using assms by (auto simp: nth_list_update)
  show "(\<exists>x\<in>set rs. P x) \<longleftrightarrow> P (rs ! i) \<or> (\<exists>j<length rs. j \<noteq> i \<and> P (rs ! j))"
    unfolding ex using assms by blast
qed

lemma Serve_faults:
  "Serve m waited ps = (fs, r) \<Longrightarrow> f \<in> set fs \<Longrightarrow> GetOffset m (faAddr f) = Ok (faOffset f, faPageSize f)"
proof (induction m waited ps arbitrary: fs r rule: Serve.induct)
  case (4 m waited exit ready reads ps)
  then show ?case
    by (auto simp: handleMsg_def split: if_splits option.splits uffd_read.splits sum.splits go.splits prod.splits)
qed auto

lemma page_size_in_range:
  assumes "k < 63"
  shows "i64 (2 ^ k) = 2 ^ k"
proof (rule i64_id)
  show "(2::int) ^ k < 9223372036854775808"
    using power_strict_increasing[OF assms, of "2::int"] by simp
  show "- 9223372036854775808 \<le> (2::int) ^ k"
    by (rule order_trans[of _ 0]) simp_all
qed

lemma find_member: "find P xs = Some x \<Longrightarrow> x \<in> set xs"
  by (auto simp: find_Some_iff)

lemma new_request_ok:
  assumes "paged k m"
  shows "Serve m waited ps = (fs, r) \<Longrightarrow> f \<in> set fs \<Longrightarrow> faAddr f mod faPageSize f = 0 \<Longrightarrow> request_ok k m src (Waiting f None)"
    "Prefault m offset d = Inr q \<Longrightarrow> src offset (int (length d)) = Ok d \<Longrightarrow> offset mod int (length d) = 0 \<Longrightarrow> request_ok k m src q"
proof -
  assume s: "Serve m waited ps = (fs, r)" "f \<in> set fs" "faAddr f mod faPageSize f = 0"
  have g: "GetOffset m (faAddr f) = Ok (faOffset f, faPageSize f)" by (rule Serve_faults[OF s(1,2)])
  then obtain x where x: "x \<in> set (mgRegions m)" "rgPageSize x = faPageSize f"
    by (auto simp: GetOffset_def split: option.splits dest: find_member)
  then have "faPageSize f = 2 ^ k" using assms by (auto simp: paged_def)
  then show "request_ok k m src (Waiting f None)" using g s(3) by (simp add: fault_ok_def page_at_def)
next
  assume p: "Prefault m offset d = Inr q" "src offset (int (length d)) = Ok d" "offset mod int (length d) = 0"
  obtain addr where a: "GetHostVirtAddr m offset = Ok (addr, int (length d))"
      "q = Waiting \<lparr>faAddr = addr, faOffset = offset, faPageSize = int (length d), faAccess = AccessPrefetch\<rparr> (Some d)"
    using p(1) by (auto simp: Prefault_def split: go.splits if_splits)
  obtain x where "x \<in> set (mgRegions m)" "rgPageSize x = int (length d)"
    using a(1) by (auto simp: GetHostVirtAddr_def getHostVirtRegion_def split: option.splits dest: find_member)
  then have l: "int (length d) = 2 ^ k" using assms by (auto simp: paged_def)
  show "request_ok k m src q"
    using page_of_offset[OF assms a(1)] p(2,3) a(2) l by (simp add: fault_ok_def)
qed

text \<open>A step of one goroutine that changes neither the guest nor the tracker of offsets.\<close>

lemma uffd_inv_quiet:
  assumes inv: "uffd_inv k m src ops (u, g, rs)" and i: "i < length rs" and ok: "request_ok k m src r"
    and c: "\<And>off. \<not> copied_at off r" "\<And>off. \<not> copied_at off (rs ! i)"
    and u: "ufMapping u' = ufMapping u" "ufSlice u' = ufSlice u" "ufMissingRequests u' = ufMissingRequests u"
  shows "uffd_inv k m src ops (u', g, rs[i := r])"
proof -
  have "(\<exists>x\<in>set (rs[i := r]). copied_at off x) \<longleftrightarrow> (\<exists>x\<in>set rs. copied_at off x)" for off
    unfolding ex_set_update[OF i] using c by simp
  moreover have "request_ok k m src x" if "x \<in> set (rs[i := r])" for x
    using that ok inv set_update_subset_insert[of rs i r] by (auto simp: uffd_inv_def)
  moreover have "page_tracked ops u' off = page_tracked ops u off" for off
    by (simp add: page_tracked_def u)
  ultimately show ?thesis using inv by (simp add: uffd_inv_def u)
qed

lemma uffd_inv_copy:
  assumes inv: "uffd_inv k m src ops (u, g, rs)" and p: "paged k m" and i: "i < length rs" "rs ! i = WithData f b"
    and len: "\<And>off b. src off (2 ^ k) = Ok b \<Longrightarrow> int (length b) = 2 ^ k"
    and none: "g (copy_dst (faAddr f) (faPageSize f)) = None" and c: "int (length c) = faPageSize f" "take (length c) b = take (length b) c"
  shows "uffd_inv k m src ops (u, g(copy_dst (faAddr f) (faPageSize f) \<mapsto> c), rs[i := PageCopied f])"
proof -
  have ok: "fault_ok k m f" "src (faOffset f) (2 ^ k) = Ok b"
    using inv nth_mem[OF i(1)] i(2) by (auto simp: uffd_inv_def)
  have a: "copy_dst (faAddr f) (faPageSize f) = faAddr f"
    using ok(1) p copy_dst_aligned[of "faAddr f" k] by (simp add: fault_ok_def page_at_def paged_def)
  have pg: "page_at k m (faAddr f) (faOffset f)" using ok(1) by (simp add: fault_ok_def)
  have "length b = length c" using len[OF ok(2)] c(1) ok(1) by (simp add: fault_ok_def)
  then have cb: "c = b" using c(2) by simp
  have tr: "(g(faAddr f \<mapsto> c)) a' \<noteq> None \<longleftrightarrow> page_tracked ops u off \<or> (\<exists>r\<in>set (rs[i := PageCopied f]). copied_at off r)"
    if "page_at k m a' off" for a' off
  proof (cases "a' = faAddr f")
    case True
    then have "off = faOffset f" using that pg by (simp add: page_at_def)
    then show ?thesis using True unfolding ex_set_update(1)[OF i(1)] by simp
  next
    case False
    then have "faOffset f \<noteq> off" using page_at_inject[OF p that, of "faAddr f"] pg by blast
    then have "(\<exists>r\<in>set (rs[i := PageCopied f]). copied_at off r) \<longleftrightarrow> (\<exists>r\<in>set rs. copied_at off r)"
      unfolding ex_set_update[OF i(1)] using i(2) by simp
    moreover have "g a' \<noteq> None \<longleftrightarrow> page_tracked ops u off \<or> (\<exists>r\<in>set rs. copied_at off r)"
      using inv that unfolding uffd_inv_def by blast
    ultimately show ?thesis using False by simp
  qed
  have "request_ok k m src x" if "x \<in> set (rs[i := PageCopied f])" for x
    using that ok(1) inv set_update_subset_insert[of rs i "PageCopied f"] by (auto simp: uffd_inv_def)
  moreover have "\<exists>off. page_at k m a' off \<and> src off (2 ^ k) = Ok d" if "(g(faAddr f \<mapsto> c)) a' = Some d" for a' d
    using that inv pg ok(2) cb by (auto simp: uffd_inv_def split: if_splits)
  ultimately show ?thesis using inv tr unfolding a uffd_inv_def by simp
qed

lemma uffd_inv_track:
  assumes inv: "uffd_inv k m src ops (u, g, rs)" and p: "paged k m" and laws: "bitset_laws ops"
    and i: "i < length rs" "rs ! i = PageCopied f"
    and t: "tracker_Add ops (ufMissingRequests u) (faOffset f) = (Ok t :: (unit, 'b Tracker) go)"
  shows "uffd_inv k m src ops (u\<lparr>ufMissingRequests := t\<rparr>, g, rs[i := MissingTracked f])"
proof -
  have ok: "fault_ok k m f" using inv nth_mem[OF i(1)] i(2) by (auto simp: uffd_inv_def)
  have pg: "page_at k m (faAddr f) (faOffset f)" using ok by (simp add: fault_ok_def)
  have bs: "tBlockSize (ufMissingRequests u) = 2 ^ k" using inv by (simp add: uffd_inv_def)
  have x: "faOffset f mod 2 ^ k = 0" "0 \<le> faOffset f" "faOffset f < 9223372036854775808"
    using page_offset[OF p pg] .
  have tb: "tBlockSize t = 2 ^ k"
    using t bs by (auto simp: tracker_Add_def BlockIdx_def split: if_splits)
  have has: "page_tracked ops (u\<lparr>ufMissingRequests := t\<rparr>) off \<longleftrightarrow> off = faOffset f \<or> page_tracked ops u off" if pg': "page_at k m a off" for a off
  proof -
    have y: "off mod 2 ^ k = 0" "0 \<le> off" "off < 9223372036854775808"
      using page_offset[OF p pg'] .
    have "off div 2 ^ k = faOffset f div 2 ^ k \<longleftrightarrow> off = faOffset f"
      using x(1) y(1) by (metis div_mult_mod_eq)
    moreover have "0 \<le> off div 2 ^ k" "off div 2 ^ k \<le> off" "0 \<le> faOffset f div 2 ^ k" "faOffset f div 2 ^ k \<le> faOffset f"
      using x(2) y(2) by (simp_all add: pos_imp_zdiv_nonneg_iff div_le_dividend_int)
    ultimately show ?thesis
      using t x y bs tb laws by (auto simp: page_tracked_def tracker_Has_def tracker_Add_def bitset_laws_def)
  qed
  have "g a \<noteq> None \<longleftrightarrow> page_tracked ops (u\<lparr>ufMissingRequests := t\<rparr>) off \<or> (\<exists>r\<in>set (rs[i := MissingTracked f]). copied_at off r)"
    if "page_at k m a off" for a off
  proof -
    have "g a \<noteq> None \<longleftrightarrow> page_tracked ops u off \<or> (\<exists>r\<in>set rs. copied_at off r)"
      using inv that unfolding uffd_inv_def by blast
    then show ?thesis unfolding has[OF that] ex_set_update[OF i(1)] using i(2) by auto
  qed
  moreover have "request_ok k m src r" if "r \<in> set (rs[i := MissingTracked f])" for r
    using that ok inv set_update_subset_insert[of rs i "MissingTracked f"] by (auto simp: uffd_inv_def)
  ultimately show ?thesis using inv tb by (simp add: uffd_inv_def)
qed

lemma uffd_inv_start:
  "uffd_inv k m src ops (u, g, rs) \<Longrightarrow> request_ok k m src r \<Longrightarrow> (\<And>off. \<not> copied_at off r) \<Longrightarrow> uffd_inv k m src ops (u, g, rs @ [r])"
  by (simp add: uffd_inv_def)

lemma request_step_inv:
  assumes inv: "uffd_inv k m src ops (u, g, rs)" and p: "paged k m" and laws: "bitset_laws ops"
    and len: "\<And>off b. src off (2 ^ k) = Ok b \<Longrightarrow> int (length b) = 2 ^ k"
    and i: "i < length rs" and st: "request_step ops u g (rs ! i) u' g' r"
  shows "uffd_inv k m src ops (u', g', rs[i := r])"
proof -
  have ok: "request_ok k m src (rs ! i)" using inv nth_mem[OF i] by (simp add: uffd_inv_def)
  have src: "ufSlice u = src" using inv by (simp add: uffd_inv_def)
  have ps: "i64 (2 ^ k) = 2 ^ k" using p page_size_in_range by (simp add: paged_def)
  note quiet = uffd_inv_quiet[OF inv i]
  show ?thesis
    using st
  proof cases
    case (source f b)
    have f: "fault_ok k m f" using ok source(1) by simp
    have "src (faOffset f) (2 ^ k) = Ok b" using source(5) f ps unfolding src by (simp add: fault_ok_def)
    with f have "request_ok k m src r" unfolding source(4) by simp
    moreover have "\<not> copied_at off r" "\<not> copied_at off (rs ! i)" for off unfolding source(1,4) by simp_all
    ultimately show ?thesis unfolding source(2,3) by (intro quiet) simp_all
  next
    case (copied b f c)
    then show ?thesis using uffd_inv_copy[OF inv p i copied(1) len] by simp
  next
    case (track f t)
    then show ?thesis using uffd_inv_track[OF inv p laws i track(1) track(5)] by simp
  qed (use ok in \<open>auto intro!: quiet\<close>)
qed

lemma uffd_step_inv:
  assumes "uffd_inv k m src ops s" "uffd_step ops s s'" "paged k m" "bitset_laws ops"
    "\<And>off b. src off (2 ^ k) = Ok b \<Longrightarrow> int (length b) = 2 ^ k"
  shows "uffd_inv k m src ops s'"
  using assms(2)
proof cases
  case (serve u waited ps fs r f g rs)
  have "ufMapping u = m" using assms(1) serve(1) by (simp add: uffd_inv_def)
  then show ?thesis
    using assms(1) new_request_ok(1)[OF assms(3) _ serve(4,5)] serve by (auto intro!: uffd_inv_start)
next
  case (prefault u offset d r g rs)
  have u: "ufMapping u = m" "ufSlice u = src" using assms(1) prefault(1) by (simp_all add: uffd_inv_def)
  have "\<not> copied_at off r" for off using prefault(3) by (auto simp: Prefault_def split: go.splits if_splits)
  then show ?thesis
    using assms(1) new_request_ok(2)[OF assms(3), of offset d r src] prefault u by (auto intro!: uffd_inv_start)
next
  case (request i rs u g u' g' r)
  then show ?thesis using request_step_inv[OF _ assms(3-5) request(3,4)] assms(1) by simp
next
  case (prefetch_data rs u g)
  then show ?thesis using assms(1) by (simp add: uffd_inv_def page_tracked_def)
qed

lemma uffd_steps_inv:
  assumes "(uffd_step ops)\<^sup>*\<^sup>* (u0, \<lambda>_. None, []) s" and new: "NewUserfaultfdFromFd ops src (2 ^ k) m = Ok u0"
    and "paged k m" "bitset_laws ops" "\<And>off b. src off (2 ^ k) = Ok b \<Longrightarrow> int (length b) = 2 ^ k"
  shows "uffd_inv k m src ops s"
  using assms(1)
proof (induction rule: rtranclp_induct)
  case base
  have u: "u0 = \<lparr>ufSlice = src, ufMapping = m, ufMissingRequests = NewTracker ops (2 ^ k), ufPrefetchTracker = NewPrefetchTracker (2 ^ k)\<rparr>"
    using new by (simp add: NewUserfaultfdFromFd_def split: option.splits)
  have "\<not> page_tracked ops u0 off" for off
    using assms(4) by (simp add: u page_tracked_def tracker_Has_def NewTracker_def BlockIdx_def bitset_laws_def)
  then show ?case by (simp add: uffd_inv_def) (simp add: u NewTracker_def)
next
  case (step s s')
  show ?case by (rule uffd_step_inv[OF step.IH step.hyps(2) assms(3-5)])
qed

end
