(* ===== verification/Uffd_Properties.thy ===== *)
theory Uffd_Properties
  imports Uffd_Serve Bitset_List
begin

text \<open>
  The properties of the page-fault handler: offsets and addresses correspond, the ranges of an interval cover
  it, and whatever order faults and prefaults are handled in, the guest sees the memory file.
\<close>

subsection \<open>Offsets and addresses\<close>

lemma GetHostVirtAddr_region:
  assumes "wf_mapping m" "GetHostVirtAddr m off = Ok (a, p)"
  obtains r where "r \<in> set (mgRegions m)" "has_offset r off" "a = addr_at r off" "p = rgPageSize r"
proof -
  obtain r where r: "r \<in> set (mgRegions m)" "has_offset r off"
    using assms(2) getHostVirtRegion_none[OF assms(1), of off] by (cases "mapped m off") (auto simp: GetHostVirtAddr_def mapped_def)
  show ?thesis using assms GetHostVirtAddr_ok[OF assms(1) r] by (intro that[OF r]) simp_all
qed

lemma GetOffset_region:
  assumes "wf_mapping m" "GetOffset m a = Ok (off, p)"
  obtains r where "r \<in> set (mgRegions m)" "has_addr r a" "off = rgOffset r + (a - rgBaseHostVirtAddr r)" "p = rgPageSize r"
proof -
  obtain r where r: "r \<in> set (mgRegions m)" "has_addr r a"
    using assms GetOffset_none[OF assms(1), of a] by auto
  show ?thesis using assms GetOffset_ok[OF assms(1) r] by (intro that[OF r]) simp_all
qed

lemma addr_offset_inverse:
  assumes "wf_mapping m"
  shows "GetHostVirtAddr m off = Ok (a, p) \<longleftrightarrow> GetOffset m a = Ok (off, p)"
proof
  assume "GetHostVirtAddr m off = Ok (a, p)"
  then obtain r where r: "r \<in> set (mgRegions m)" "has_offset r off" "a = addr_at r off" "p = rgPageSize r"
    by (rule GetHostVirtAddr_region[OF assms])
  then have "has_addr r a" by (auto simp: has_addr_def has_offset_def addr_at_def)
  then show "GetOffset m a = Ok (off, p)" using GetOffset_ok[OF assms r(1)] r by (simp add: addr_at_def)
next
  assume "GetOffset m a = Ok (off, p)"
  then obtain r where r: "r \<in> set (mgRegions m)" "has_addr r a" "off = rgOffset r + (a - rgBaseHostVirtAddr r)" "p = rgPageSize r"
    by (rule GetOffset_region[OF assms])
  then have "has_offset r off" by (auto simp: has_addr_def has_offset_def)
  then show "GetHostVirtAddr m off = Ok (a, p)" using GetHostVirtAddr_ok[OF assms r(1)] r by (simp add: addr_at_def)
qed

text \<open>
  C32.  In a mapping made of the regions Firecracker reports, the address of an offset and the offset of an
  address are inverse to each other, with the page size of their region.  An interval of offsets all of which are
  mapped is turned into ranges whose addresses, in order, are the addresses of the offsets of the interval,
  across as many regions as it takes; otherwise the result is an error that names the first offset that is not
  mapped.  The loop over the ranges always ends.
\<close>

theorem offsets_and_addresses:
  assumes "NewMappingFromFc gs = Ok m" "wf_mapping m" "0 \<le> off" "0 \<le> sz" "off + sz < 9223372036854775808"
  shows "(\<forall>x a p. GetHostVirtAddr m x = Ok (a, p) \<longleftrightarrow> GetOffset m a = Ok (x, p)) \<and>
    ((\<forall>y. off \<le> y \<and> y < off + sz \<longrightarrow> mapped m y) \<longrightarrow>
       (\<exists>rs. GetHostVirtRanges m off sz = Some (Ok rs) \<and>
          list_all2 (\<lambda>a y. \<exists>p. GetHostVirtAddr m y = Ok (a, p)) (concat (map range_addrs rs)) [off .. off + sz - 1])) \<and>
    (\<forall>x. off \<le> x \<and> x < off + sz \<and> \<not> mapped m x \<and> (\<forall>y. off \<le> y \<and> y < x \<longrightarrow> mapped m y) \<longrightarrow>
       GetHostVirtRanges m off sz = Some (Fail (OffsetNotFoundError x)))"
proof (intro conjI allI impI)
  show "GetHostVirtAddr m x = Ok (a, p) \<longleftrightarrow> GetOffset m a = Ok (x, p)" for x a p
    by (rule addr_offset_inverse[OF assms(2)])
next
  assume "\<forall>y. off \<le> y \<and> y < off + sz \<longrightarrow> mapped m y"
  then show "\<exists>rs. GetHostVirtRanges m off sz = Some (Ok rs) \<and>
      list_all2 (\<lambda>a y. \<exists>p. GetHostVirtAddr m y = Ok (a, p)) (concat (map range_addrs rs)) [off .. off + sz - 1]"
    using hostVirtLoop_result[OF assms(2,3,5), of 0 "off + sz" "[]"] assms(4) by (simp add: GetHostVirtRanges_def)
next
  fix x
  assume "off \<le> x \<and> x < off + sz \<and> \<not> mapped m x \<and> (\<forall>y. off \<le> y \<and> y < x \<longrightarrow> mapped m y)"
  then show "GetHostVirtRanges m off sz = Some (Fail (OffsetNotFoundError x))"
    using hostVirtLoop_result[OF assms(2,3,5), of 0 x "[]"] by (auto simp: GetHostVirtRanges_def)
qed

definition two_regions :: "GuestMemoryRegionMapping list" where
  "two_regions =
     [\<lparr>gmBaseHostVirtAddr = Some 65536, gmSize = Some 8192, gmOffset = Some 0, gmPageSize = Some 4096\<rparr>,
      \<lparr>gmBaseHostVirtAddr = Some 131072, gmSize = Some 4096, gmOffset = Some 8192, gmPageSize = Some 4096\<rparr>]"

definition two_regions_mapping :: Mapping where
  "two_regions_mapping = \<lparr>mgRegions =
     [\<lparr>rgBaseHostVirtAddr = 65536, rgSize = 8192, rgOffset = 0, rgPageSize = 4096\<rparr>,
      \<lparr>rgBaseHostVirtAddr = 131072, rgSize = 4096, rgOffset = 8192, rgPageSize = 4096\<rparr>]\<rparr>"

lemma two_regions_ok:
  "NewMappingFromFc two_regions = Ok two_regions_mapping" "wf_mapping two_regions_mapping" "paged 12 two_regions_mapping"
  by (simp_all add: two_regions_def two_regions_mapping_def NewMappingFromFc_def NewMapping_def wf_mapping_def paged_def
      region_ok_def has_offset_def has_addr_def)

lemma two_regions_mapped: "mapped two_regions_mapping y \<longleftrightarrow> 0 \<le> y \<and> y < 12288"
  by (auto simp: mapped_def two_regions_mapping_def has_offset_def)

theorem offsets_and_addresses_witness:
  "GetOffset two_regions_mapping 131072 = Ok (8192, 4096) \<and>
   (\<exists>rs. GetHostVirtRanges two_regions_mapping 4096 8192 = Some (Ok rs) \<and> length (concat (map range_addrs rs)) = 8192) \<and>
   GetHostVirtRanges two_regions_mapping 4096 12288 = Some (Fail (OffsetNotFoundError 12288))"
proof -
  note t = offsets_and_addresses[OF two_regions_ok(1,2)]
  have "GetHostVirtAddr two_regions_mapping 8192 = Ok (131072, 4096)" by code_simp
  then have 1: "GetOffset two_regions_mapping 131072 = Ok (8192, 4096)" using t[of 0 0] by simp
  have p: "0 \<le> (4096 :: int)" "0 \<le> (8192 :: int)" "4096 + 8192 < (9223372036854775808 :: int)" by simp_all
  have c: "\<forall>y. 4096 \<le> y \<and> y < 4096 + 8192 \<longrightarrow> mapped two_regions_mapping y" by (simp add: two_regions_mapped)
  obtain rs where rs: "GetHostVirtRanges two_regions_mapping 4096 8192 = Some (Ok rs)"
      "list_all2 (\<lambda>a y. \<exists>p. GetHostVirtAddr two_regions_mapping y = Ok (a, p)) (concat (map range_addrs rs)) [4096 .. 4096 + 8192 - 1]"
    using t[OF p] c by blast
  have 2: "length (concat (map range_addrs rs)) = 8192" using list_all2_lengthD[OF rs(2)] by (simp only: length_upto)
  have q: "0 \<le> (4096 :: int)" "0 \<le> (12288 :: int)" "4096 + 12288 < (9223372036854775808 :: int)" by simp_all
  have d: "4096 \<le> (12288 :: int) \<and> (12288 :: int) < 4096 + 12288 \<and> \<not> mapped two_regions_mapping 12288 \<and>
      (\<forall>y. 4096 \<le> y \<and> y < 12288 \<longrightarrow> mapped two_regions_mapping y)"
    by (simp add: two_regions_mapped)
  have 3: "GetHostVirtRanges two_regions_mapping 4096 12288 = Some (Fail (OffsetNotFoundError 12288))"
    using t[OF q] d by blast
  show ?thesis using 1 2 3 rs(1) by blast
qed

subsection \<open>The memory of the guest\<close>

text \<open>
  C31.  Start the handler on a guest without pages, and let faults and prefaults come, be handled and fail in any
  order.  Then every page the guest sees is the page of the memory file at the offset of its address.  While no
  goroutine holds the lock of the requests, which is when \<^verbatim>\<open>faulted\<close> is called, the tracker has the offsets of
  exactly the pages of the guest.
\<close>

theorem guest_memory_is_source:
  assumes "NewUserfaultfdFromFd ops src (2 ^ k) m = Ok u0" "paged k m" "bitset_laws ops"
    "\<And>x b. src x (2 ^ k) = Ok b \<Longrightarrow> int (length b) = 2 ^ k"
    "(uffd_step ops)\<^sup>*\<^sup>* (u0, \<lambda>_. None, []) (u, g, rs)"
  shows "(g a = Some b \<longrightarrow> (\<exists>off. GetOffset m a = Ok (off, 2 ^ k) \<and> src off (2 ^ k) = Ok b)) \<and>
    ((\<forall>r\<in>set rs. \<not> in_flight r) \<and> a mod 2 ^ k = 0 \<and> GetOffset m a = Ok (off, 2 ^ k) \<longrightarrow>
       (tracker_Has ops (faulted u) off = (Ok True :: (unit, bool) go) \<longleftrightarrow> g a \<noteq> None))"
proof -
  have inv: "uffd_inv k m src ops (u, g, rs)"
    using assms by (intro uffd_steps_inv[OF assms(5,1-3)])
  have quiet: "\<not> copied_at off r" if "\<not> in_flight r" for r using that by (cases r) auto
  have f: "faulted u = ufMissingRequests u" by (simp add: faulted_def tracker_Clone_def)
  show ?thesis
  proof (intro conjI impI)
    show "\<exists>off. GetOffset m a = Ok (off, 2 ^ k) \<and> src off (2 ^ k) = Ok b" if "g a = Some b"
      using inv that by (auto simp: uffd_inv_def page_at_def)
    show "tracker_Has ops (faulted u) off = (Ok True :: (unit, bool) go) \<longleftrightarrow> g a \<noteq> None"
      if "(\<forall>r\<in>set rs. \<not> in_flight r) \<and> a mod 2 ^ k = 0 \<and> GetOffset m a = Ok (off, 2 ^ k)"
      using inv that quiet by (auto simp: uffd_inv_def page_at_def page_tracked_def f)
  qed
qed

definition page_source :: "int \<Rightarrow> int \<Rightarrow> (unit, byte list) go" where
  "page_source x n = Ok (replicate (nat n) (word_of_int (x div 4096)))"

definition one_fault :: fault where
  "one_fault = \<lparr>faAddr = 131072, faOffset = 8192, faPageSize = 4096, faAccess = AccessWrite\<rparr>"

definition fresh_uffd :: "(bool list, unit) Userfaultfd" where
  "fresh_uffd = \<lparr>ufSlice = page_source, ufMapping = two_regions_mapping, ufMissingRequests = NewTracker list_bitset 4096,
     ufPrefetchTracker = NewPrefetchTracker 4096\<rparr>"

definition faulted_uffd :: "(bool list, unit) Userfaultfd" where
  "faulted_uffd = fresh_uffd\<lparr>ufMissingRequests := \<lparr>tBitset = [False, False, True], tBlockSize = 4096\<rparr>\<rparr>"

lemma one_fault_served: "Serve two_regions_mapping (None :: unit option) [PollRetry, Polled False True [ReadEINTR, ReadMsg 18 1 131072]] = ([one_fault], None)"
  by code_simp

lemma one_fault_tracked:
  "tracker_Add list_bitset (ufMissingRequests fresh_uffd) (faOffset one_fault) =
     (Ok \<lparr>tBitset = [False, False, True], tBlockSize = 4096\<rparr> :: (unit, bool list Tracker) go)"
  by code_simp

lemma one_fault_run:
  "(uffd_step list_bitset)\<^sup>*\<^sup>* (fresh_uffd, \<lambda>_. None, []) (faulted_uffd, [131072 \<mapsto> replicate 4096 2], [MissingTracked one_fault])"
proof -
  have f: "faAddr one_fault = 131072" "faPageSize one_fault = 4096" "faOffset one_fault = 8192" by (simp_all add: one_fault_def)
  have d: "copy_dst 131072 4096 = 131072" using copy_dst_aligned[of 131072 12] by simp
  have m: "ufMapping fresh_uffd = two_regions_mapping" by (simp add: fresh_uffd_def)
  have 1: "uffd_step list_bitset (fresh_uffd, \<lambda>_. None, []) (fresh_uffd, \<lambda>_. None, [] @ [Waiting one_fault None])"
    by (rule uffd_step.serve[OF one_fault_served[folded m]]) (simp_all add: f)
  have st: "uffd_step list_bitset (u, g, [q]) (u', g', [r])" if "request_step list_bitset u g q u' g' r" for u g q u' g' and r :: "unit request"
    using uffd_step.request[of 0 "[q]" list_bitset u g u' g' r] that by simp
  have 2: "uffd_step list_bitset (fresh_uffd, \<lambda>_. None, [Waiting one_fault None]) (fresh_uffd, \<lambda>_. None, [Locked one_fault None])"
    by (intro st request_step.lock)
  have 3: "uffd_step list_bitset (fresh_uffd, \<lambda>_. None, [Locked one_fault None]) (fresh_uffd, \<lambda>_. None, [WithData one_fault (replicate 4096 2)])"
    by (intro st request_step.source) (simp add: f fresh_uffd_def page_source_def)
  have 4: "uffd_step list_bitset (fresh_uffd, \<lambda>_. None, [WithData one_fault (replicate 4096 2)])
      (fresh_uffd, [131072 \<mapsto> replicate 4096 2], [PageCopied one_fault])"
    using request_step.copied[of "replicate 4096 (2 :: byte)" "\<lambda>_. None" one_fault "replicate 4096 2" list_bitset fresh_uffd]
    by (intro st) (simp add: f d)
  have 5: "uffd_step list_bitset (fresh_uffd, [131072 \<mapsto> replicate 4096 2], [PageCopied one_fault])
      (faulted_uffd, [131072 \<mapsto> replicate 4096 2], [MissingTracked one_fault])"
    unfolding faulted_uffd_def by (intro st request_step.track one_fault_tracked)
  show ?thesis using 1 2 3 4 5 by simp
qed

theorem guest_memory_is_source_witness:
  "\<exists>off. GetOffset two_regions_mapping 131072 = Ok (off, 2 ^ 12) \<and> page_source off (2 ^ 12) = Ok (replicate 4096 2)"
proof -
  have new: "NewUserfaultfdFromFd list_bitset page_source (2 ^ 12) two_regions_mapping = Ok fresh_uffd"
    by (simp add: NewUserfaultfdFromFd_def fresh_uffd_def two_regions_mapping_def)
  have len: "int (length b) = 2 ^ 12" if "page_source x (2 ^ 12) = Ok b" for x b using that by (auto simp: page_source_def)
  show ?thesis
    using guest_memory_is_source[OF new two_regions_ok(3) list_bitset_laws len one_fault_run, where a = 131072 and b = "replicate 4096 2"] by simp
qed

end
