(* ===== verification/Orchestrator_Map.thy ===== *)
theory Orchestrator_Map
  imports Egress_Rules Concurrent_Map
begin

text \<open>
  The sandboxes of an orchestrator, \<^verbatim>\<open>packages/orchestrator/pkg/sandbox/map.go\<close>, and how its server takes one for a
  snapshot, \<^verbatim>\<open>acquireSandboxForSnapshot\<close> of \<^verbatim>\<open>packages/orchestrator/pkg/server/sandboxes.go\<close>.

  A sandbox of the map is a pointer to an object with an atomic status; an identifier of a sandbox is used again by
  its next lives, which differ in their \<^verbatim>\<open>LifecycleID\<close>.  The map of the library is an argument.
  \<^verbatim>\<open>go m.trigger(...)\<close> puts an event into \<open>omTriggers\<close>.  \<open>omap_step\<close> interleaves the callers of the map.
\<close>

subsection \<open>State\<close>

datatype SandboxStatus = StatusStarting | StatusRunning | StatusStopping

record SandboxObj =
  soSandboxID :: string
  soLifecycleID :: string
  soSlot :: Slot
  soStatus :: SandboxStatus

datatype sub_event = OnInsert nat | OnRemove nat

record 'm SandboxMap =
  omSandboxes :: 'm
  omObjs :: "SandboxObj list"
  omSubs :: "nat list"
  omTriggers :: "sub_event list"

definition NewSandboxesMap :: "('m, nat) cmap_ops \<Rightarrow> 'm SandboxMap" where
  "NewSandboxesMap cm = \<lparr>omSandboxes = smap_New cm, omObjs = [], omSubs = [], omTriggers = []\<rparr>"

definition om_Subscribe :: "nat \<Rightarrow> 'm SandboxMap \<Rightarrow> 'm SandboxMap" where
  "om_Subscribe subscriber m = m\<lparr>omSubs := omSubs m @ [subscriber]\<rparr>"

text \<open>The calls that a triggered event makes.\<close>

definition om_trigger :: "'m SandboxMap \<Rightarrow> sub_event \<Rightarrow> (nat \<times> sub_event) list" where
  "om_trigger m e = map (\<lambda>subscriber. (subscriber, e)) (omSubs m)"

subsection \<open>Queries\<close>

definition IsRunning :: "'m SandboxMap \<Rightarrow> nat \<Rightarrow> bool" where
  "IsRunning m p \<longleftrightarrow> soStatus (omObjs m ! p) = StatusRunning"

definition om_Items :: "('m, nat) cmap_ops \<Rightarrow> 'm SandboxMap \<Rightarrow> (string \<times> nat) list" where
  "om_Items cm m = filter (\<lambda>(k, v). IsRunning m v) (smap_Items cm (omSandboxes m))"

fun countRunning :: "'m SandboxMap \<Rightarrow> (string \<times> nat) list \<Rightarrow> int \<Rightarrow> int" where
  "countRunning m [] n = n"
| "countRunning m ((k, v) # items) n = countRunning m items (if IsRunning m v then i64 (n + 1) else n)"

definition om_Count :: "('m, nat) cmap_ops \<Rightarrow> 'm SandboxMap \<Rightarrow> int" where
  "om_Count cm m = countRunning m (smap_Items cm (omSandboxes m)) 0"

definition om_Get :: "('m, nat) cmap_ops \<Rightarrow> 'm SandboxMap \<Rightarrow> string \<Rightarrow> nat option" where
  "om_Get cm m sandboxID =
     (case smap_Get cm (omSandboxes m) sandboxID of
        None \<Rightarrow> None
      | Some sbx \<Rightarrow> if \<not> IsRunning m sbx then None else Some sbx)"

datatype host_port_error = RemoteAddressInvalid string | SandboxAddressNotFound string

definition GetByHostPort :: "('m, nat) cmap_ops \<Rightarrow> 'm SandboxMap \<Rightarrow> string \<Rightarrow> (host_port_error, nat) go" where
  "GetByHostPort cm m hostPort =
     (case SplitHostPort hostPort of
        Inl _ \<Rightarrow> Fail (RemoteAddressInvalid hostPort)
      | Inr (reqIP, _) \<Rightarrow>
          (case find (\<lambda>(k, sbx). HostIPString (soSlot (omObjs m ! sbx)) = reqIP) (smap_Items cm (omSandboxes m)) of
             Some (_, sbx) \<Rightarrow> Ok sbx
           | None \<Rightarrow> Fail (SandboxAddressNotFound hostPort)))"

subsection \<open>Changes\<close>

definition status_CompareAndSwap :: "SandboxStatus \<Rightarrow> SandboxStatus \<Rightarrow> nat \<Rightarrow> 'm SandboxMap \<Rightarrow> bool \<times> 'm SandboxMap" where
  "status_CompareAndSwap old new p m =
     (if soStatus (omObjs m ! p) = old then (True, m\<lparr>omObjs := (omObjs m)[p := (omObjs m ! p)\<lparr>soStatus := new\<rparr>]\<rparr>)
      else (False, m))"

definition om_Insert :: "('m, nat) cmap_ops \<Rightarrow> nat \<Rightarrow> 'm SandboxMap \<Rightarrow> 'm SandboxMap" where
  "om_Insert cm sbx m = m\<lparr>omSandboxes := smap_Insert cm (omSandboxes m) (soSandboxID (omObjs m ! sbx)) sbx\<rparr>"

definition MarkRunning :: "nat \<Rightarrow> 'm SandboxMap \<Rightarrow> 'm SandboxMap" where
  "MarkRunning sbx m =
     (case status_CompareAndSwap StatusStarting StatusRunning sbx m of
        (False, m1) \<Rightarrow> m1
      | (True, m1) \<Rightarrow> m1\<lparr>omTriggers := omTriggers m1 @ [OnInsert sbx]\<rparr>)"

text \<open>The callbacks run under the lock of the key; that of \<^verbatim>\<open>MarkStopping\<close> always keeps the key.\<close>

definition MarkStopping :: "('m, nat) cmap_ops \<Rightarrow> string \<Rightarrow> string \<Rightarrow> 'm SandboxMap \<Rightarrow> 'm SandboxMap" where
  "MarkStopping cm sandboxID lifecycleID m =
     (let m1 = m\<lparr>omSandboxes := smap_RemoveCb cm (omSandboxes m) sandboxID (\<lambda>v. (False, v))\<rparr>
      in case smap_Get cm (omSandboxes m) sandboxID of
           None \<Rightarrow> m1
         | Some sbx \<Rightarrow>
             if soLifecycleID (omObjs m ! sbx) \<noteq> lifecycleID then m1
             else snd (status_CompareAndSwap StatusRunning StatusStopping sbx m1))"

definition om_Remove :: "('m, nat) cmap_ops \<Rightarrow> string \<Rightarrow> string \<Rightarrow> 'm SandboxMap \<Rightarrow> 'm SandboxMap" where
  "om_Remove cm sandboxID lifecycleID m =
     (let same = (\<lambda>v. case v of None \<Rightarrow> False | Some sbx \<Rightarrow> soLifecycleID (omObjs m ! sbx) = lifecycleID);
          m1 = m\<lparr>omSandboxes := smap_RemoveCb cm (omSandboxes m) sandboxID (\<lambda>v. (same v, v))\<rparr>
      in case smap_Get cm (omSandboxes m) sandboxID of
           Some sbx \<Rightarrow> if same (Some sbx) then m1\<lparr>omTriggers := omTriggers m1 @ [OnRemove sbx]\<rparr> else m1
         | None \<Rightarrow> m1)"

subsection \<open>The callers\<close>

text \<open>
  \<^verbatim>\<open>acquireSandboxForSnapshot\<close> runs under a mutex.  It finds the pointer, reads the status, marks the sandbox and
  returns it; between these other callers of the map go on, which do not take the mutex.
\<close>

datatype acquiring = AcquireIdle | AcquireFound nat | AcquireRunning nat

record 'm omap_state =
  osMap :: "'m SandboxMap"
  osAcquiring :: acquiring
  osAcquired :: "nat list"

inductive omap_step :: "('m, nat) cmap_ops \<Rightarrow> 'm omap_state \<Rightarrow> 'm omap_state \<Rightarrow> bool"
  for cm where
  create: "sbx = \<lparr>soSandboxID = i, soLifecycleID = l, soSlot = s, soStatus = StatusStarting\<rparr> \<Longrightarrow>
    l \<notin> soLifecycleID ` set (omObjs (osMap st)) \<Longrightarrow>
    omap_step cm st (st\<lparr>osMap := om_Insert cm (length (omObjs (osMap st))) ((osMap st)\<lparr>omObjs := omObjs (osMap st) @ [sbx]\<rparr>)\<rparr>)"
| running: "p < length (omObjs (osMap st)) \<Longrightarrow> omap_step cm st (st\<lparr>osMap := MarkRunning p (osMap st)\<rparr>)"
| stopping: "omap_step cm st (st\<lparr>osMap := MarkStopping cm i l (osMap st)\<rparr>)"
| remove: "omap_step cm st (st\<lparr>osMap := om_Remove cm i l (osMap st)\<rparr>)"
| subscribe: "omap_step cm st (st\<lparr>osMap := om_Subscribe sub (osMap st)\<rparr>)"
| acquire_found: "osAcquiring st = AcquireIdle \<Longrightarrow> smap_Get cm (omSandboxes (osMap st)) i = Some p \<Longrightarrow>
    omap_step cm st (st\<lparr>osAcquiring := AcquireFound p\<rparr>)"
| acquire_not_found: "osAcquiring st = AcquireFound p \<Longrightarrow> \<not> IsRunning (osMap st) p \<Longrightarrow>
    omap_step cm st (st\<lparr>osAcquiring := AcquireIdle\<rparr>)"
| acquire_running: "osAcquiring st = AcquireFound p \<Longrightarrow> IsRunning (osMap st) p \<Longrightarrow>
    omap_step cm st (st\<lparr>osAcquiring := AcquireRunning p\<rparr>)"
| acquire_mark: "osAcquiring st = AcquireRunning p \<Longrightarrow> sbx = omObjs (osMap st) ! p \<Longrightarrow>
    omap_step cm st (st\<lparr>osMap := MarkStopping cm (soSandboxID sbx) (soLifecycleID sbx) (osMap st),
      osAcquiring := AcquireIdle, osAcquired := osAcquired st @ [p]\<rparr>)"

definition omap_start :: "('m, nat) cmap_ops \<Rightarrow> 'm omap_state" where
  "omap_start cm = \<lparr>osMap = NewSandboxesMap cm, osAcquiring = AcquireIdle, osAcquired = []\<rparr>"

subsection \<open>The invariant\<close>

definition in_map :: "('m, nat) cmap_ops \<Rightarrow> 'm SandboxMap \<Rightarrow> nat \<Rightarrow> bool" where
  "in_map cm m p \<longleftrightarrow> p < length (omObjs m) \<and> cm_Get cm (omSandboxes m) (soSandboxID (omObjs m ! p)) = Some p"

text \<open>
  The keys are those of the objects and every life is one object.  A life has announced its start when it has been
  running, and its removal at most once, when it is no longer in the map.
\<close>

definition map_ok :: "('m, nat) cmap_ops \<Rightarrow> 'm SandboxMap \<Rightarrow> bool" where
  "map_ok cm m \<longleftrightarrow>
     (\<forall>k p. cm_Get cm (omSandboxes m) k = Some p \<longrightarrow> p < length (omObjs m) \<and> soSandboxID (omObjs m ! p) = k) \<and>
     distinct (map soLifecycleID (omObjs m)) \<and>
     (\<forall>p. count_list (omTriggers m) (OnInsert p) = (if p < length (omObjs m) \<and> soStatus (omObjs m ! p) \<noteq> StatusStarting then 1 else 0)) \<and>
     (\<forall>p. count_list (omTriggers m) (OnRemove p) + of_bool (in_map cm m p) \<le> of_bool (p < length (omObjs m)))"

text \<open>A life that has been taken for a snapshot is not in the map any more, or marked.\<close>

definition taken_ok :: "('m, nat) cmap_ops \<Rightarrow> 'm SandboxMap \<Rightarrow> nat \<Rightarrow> bool" where
  "taken_ok cm m p \<longleftrightarrow> p < length (omObjs m) \<and> soStatus (omObjs m ! p) \<noteq> StatusStarting \<and>
     (in_map cm m p \<longrightarrow> soStatus (omObjs m ! p) = StatusStopping)"

fun acquiring_ok :: "'m SandboxMap \<Rightarrow> nat list \<Rightarrow> acquiring \<Rightarrow> bool" where
  "acquiring_ok m taken AcquireIdle \<longleftrightarrow> True"
| "acquiring_ok m taken (AcquireFound p) \<longleftrightarrow> p < length (omObjs m) \<and> (p \<in> set taken \<longrightarrow> soStatus (omObjs m ! p) = StatusStopping)"
| "acquiring_ok m taken (AcquireRunning p) \<longleftrightarrow> p < length (omObjs m) \<and> p \<notin> set taken \<and> soStatus (omObjs m ! p) \<noteq> StatusStarting"

definition omap_inv :: "('m, nat) cmap_ops \<Rightarrow> 'm omap_state \<Rightarrow> bool" where
  "omap_inv cm st \<longleftrightarrow> map_ok cm (osMap st) \<and> distinct (osAcquired st) \<and>
     (\<forall>p\<in>set (osAcquired st). taken_ok cm (osMap st) p) \<and> acquiring_ok (osMap st) (osAcquired st) (osAcquiring st)"

text \<open>
  What every change of the map keeps: lives stay where they are, their statuses go forward only, and no old life
  comes into the map.
\<close>

fun status_rank :: "SandboxStatus \<Rightarrow> nat" where
  "status_rank StatusStarting = 0"
| "status_rank StatusRunning = 1"
| "status_rank StatusStopping = 2"

definition same_life :: "SandboxObj \<Rightarrow> SandboxObj \<Rightarrow> bool" where
  "same_life a b \<longleftrightarrow> soSandboxID b = soSandboxID a \<and> soLifecycleID b = soLifecycleID a \<and> soSlot b = soSlot a \<and>
     status_rank (soStatus a) \<le> status_rank (soStatus b)"

definition map_forward :: "('m, nat) cmap_ops \<Rightarrow> 'm SandboxMap \<Rightarrow> 'm SandboxMap \<Rightarrow> bool" where
  "map_forward cm m m' \<longleftrightarrow> length (omObjs m) \<le> length (omObjs m') \<and>
     (\<forall>p<length (omObjs m). same_life (omObjs m ! p) (omObjs m' ! p)) \<and>
     (\<forall>p<length (omObjs m). in_map cm m' p \<longrightarrow> in_map cm m p)"

lemma same_life_update:
  "status_rank (soStatus (xs ! q)) \<le> status_rank x \<Longrightarrow> p < length xs \<Longrightarrow> same_life (xs ! p) (xs[q := (xs ! q)\<lparr>soStatus := x\<rparr>] ! p)"
  by (cases "q = p") (simp_all add: same_life_def)

lemma same_life_refl [simp]: "same_life a a"
  by (simp add: same_life_def)

lemma lifecycles_update: "map soLifecycleID (xs[q := (xs ! q)\<lparr>soStatus := x\<rparr>]) = map soLifecycleID xs"
  by (cases "q < length xs") (simp_all add: map_update list_update_same_conv list_update_beyond)

locale sandbox_map = concurrent_map cm for cm :: "('m, nat) cmap_ops"
begin

lemma RemoveCb_Get:
  "cm_Get cm (smap_RemoveCb cm m k (\<lambda>v. (g v, v))) k' =
     (if k' = k \<and> g (cm_Get cm m k) then None else cm_Get cm m k')"
  by (auto simp: smap_RemoveCb_def cm_RemoveCb_def Get_Set Get_Remove Let_def split: option.splits)

lemma MarkStopping_objs:
  "omObjs (MarkStopping cm i l m) =
     (case cm_Get cm (omSandboxes m) i of
        Some p \<Rightarrow> if soLifecycleID (omObjs m ! p) = l \<and> soStatus (omObjs m ! p) = StatusRunning
                  then (omObjs m)[p := (omObjs m ! p)\<lparr>soStatus := StatusStopping\<rparr>] else omObjs m
      | None \<Rightarrow> omObjs m)"
  by (auto simp: MarkStopping_def status_CompareAndSwap_def smap_Get_def Let_def split: option.splits)

lemma MarkStopping_rest:
  "cm_Get cm (omSandboxes (MarkStopping cm i l m)) k = cm_Get cm (omSandboxes m) k" "omTriggers (MarkStopping cm i l m) = omTriggers m"
  by (auto simp: MarkStopping_def status_CompareAndSwap_def Let_def RemoveCb_Get split: option.splits)

lemma Remove_rest:
  "omObjs (om_Remove cm i l m) = omObjs m"
  "cm_Get cm (omSandboxes (om_Remove cm i l m)) k =
     (if k = i \<and> (\<exists>p. cm_Get cm (omSandboxes m) i = Some p \<and> soLifecycleID (omObjs m ! p) = l) then None else cm_Get cm (omSandboxes m) k)"
  "omTriggers (om_Remove cm i l m) = omTriggers m @
     (case cm_Get cm (omSandboxes m) i of Some p \<Rightarrow> if soLifecycleID (omObjs m ! p) = l then [OnRemove p] else [] | None \<Rightarrow> [])"
  by (auto simp: om_Remove_def Let_def RemoveCb_Get smap_Get_def split: option.splits)

lemma MarkStopping_forward:
  "map_forward cm m (MarkStopping cm i l m)"
proof -
  have "same_life (omObjs m ! p) (omObjs (MarkStopping cm i l m) ! p)" if "p < length (omObjs m)" for p
    using that by (simp add: MarkStopping_objs same_life_update split: option.split)
  moreover have "length (omObjs (MarkStopping cm i l m)) = length (omObjs m)"
    by (simp add: MarkStopping_objs split: option.split)
  ultimately show ?thesis by (simp add: map_forward_def in_map_def MarkStopping_rest same_life_def)
qed

lemma Remove_forward: "map_forward cm m (om_Remove cm i l m)"
  by (simp add: map_forward_def in_map_def Remove_rest)

lemma MarkRunning_objs:
  "omObjs (MarkRunning p m) =
     (if soStatus (omObjs m ! p) = StatusStarting then (omObjs m)[p := (omObjs m ! p)\<lparr>soStatus := StatusRunning\<rparr>] else omObjs m)"
  "omSandboxes (MarkRunning p m) = omSandboxes m"
  "omTriggers (MarkRunning p m) = omTriggers m @ (if soStatus (omObjs m ! p) = StatusStarting then [OnInsert p] else [])"
  by (simp_all add: MarkRunning_def status_CompareAndSwap_def)

lemma MarkRunning_forward: "map_forward cm m (MarkRunning q m)"
proof -
  have "same_life (omObjs m ! p) (omObjs (MarkRunning q m) ! p)" if "p < length (omObjs m)" for p
    using that by (simp add: MarkRunning_objs same_life_update)
  then show ?thesis by (auto simp: map_forward_def in_map_def MarkRunning_objs same_life_def)
qed

lemma create_forward:
  assumes "map_ok cm m"
  shows "map_forward cm m (om_Insert cm (length (omObjs m)) (m\<lparr>omObjs := omObjs m @ [sbx]\<rparr>))"
  using assms by (auto simp: map_forward_def in_map_def om_Insert_def smap_Insert_def Get_Set nth_append split: if_splits)

lemma MarkStopping_ok:
  assumes "map_ok cm m"
  shows "map_ok cm (MarkStopping cm i l m)"
proof -
  have "map soLifecycleID (omObjs (MarkStopping cm i l m)) = map soLifecycleID (omObjs m)"
    by (simp add: MarkStopping_objs lifecycles_update split: option.split)
  moreover have "soStatus (omObjs (MarkStopping cm i l m) ! p) = StatusStarting \<longleftrightarrow> soStatus (omObjs m ! p) = StatusStarting"
    if "p < length (omObjs m)" for p
  proof -
    have "soStatus ((omObjs m)[q := (omObjs m ! q)\<lparr>soStatus := StatusStopping\<rparr>] ! p) = StatusStarting \<longleftrightarrow> soStatus (omObjs m ! p) = StatusStarting"
      if "soStatus (omObjs m ! q) = StatusRunning" for q
      using that \<open>p < length (omObjs m)\<close> by (cases "q = p") simp_all
    then show ?thesis by (auto simp: MarkStopping_objs split: option.split)
  qed
  moreover have "soSandboxID (omObjs (MarkStopping cm i l m) ! p) = soSandboxID (omObjs m ! p)" if "p < length (omObjs m)" for p
    using that MarkStopping_forward[of m i l] by (simp add: map_forward_def same_life_def)
  moreover have "length (omObjs (MarkStopping cm i l m)) = length (omObjs m)"
    by (auto simp: MarkStopping_objs split: option.splits)
  moreover from calculation have "in_map cm (MarkStopping cm i l m) p = in_map cm m p" for p
    by (auto simp: in_map_def MarkStopping_rest)
  ultimately show ?thesis using assms by (simp add: map_ok_def MarkStopping_rest)
qed

lemma Remove_ok:
  assumes "map_ok cm m"
  shows "map_ok cm (om_Remove cm i l m)"
proof -
  have "count_list (omTriggers (om_Remove cm i l m)) (OnRemove p) + of_bool (in_map cm (om_Remove cm i l m) p) \<le> of_bool (p < length (omObjs m))" for p
  proof (cases "cm_Get cm (omSandboxes m) i = Some p \<and> soLifecycleID (omObjs m ! p) = l")
    case True
    then have "in_map cm m p" "\<not> in_map cm (om_Remove cm i l m) p"
      using assms by (auto simp: map_ok_def in_map_def Remove_rest)
    moreover have "count_list (omTriggers m) (OnRemove p) + of_bool (in_map cm m p) \<le> of_bool (p < length (omObjs m))"
      using assms by (simp add: map_ok_def)
    ultimately show ?thesis using True by (simp add: Remove_rest)
  next
    case False
    then have "count_list (omTriggers (om_Remove cm i l m)) (OnRemove p) = count_list (omTriggers m) (OnRemove p)"
      by (auto simp: Remove_rest split: option.splits)
    moreover have "in_map cm (om_Remove cm i l m) p \<Longrightarrow> in_map cm m p"
      by (auto simp: in_map_def Remove_rest split: if_splits)
    moreover have "count_list (omTriggers m) (OnRemove p) + of_bool (in_map cm m p) \<le> of_bool (p < length (omObjs m))"
      using assms by (simp add: map_ok_def)
    ultimately show ?thesis by (auto simp: of_bool_def split: if_splits)
  qed
  moreover have "count_list (omTriggers (om_Remove cm i l m)) (OnInsert p) = count_list (omTriggers m) (OnInsert p)" for p
    by (simp add: Remove_rest split: option.splits)
  ultimately show ?thesis using assms by (auto simp: map_ok_def Remove_rest split: if_splits)
qed

lemma MarkRunning_ok:
  assumes "map_ok cm m" "q < length (omObjs m)"
  shows "map_ok cm (MarkRunning q m)"
proof -
  have f: "same_life (omObjs m ! p) (omObjs (MarkRunning q m) ! p)" if "p < length (omObjs m)" for p
    using MarkRunning_forward[of m q] that by (simp add: map_forward_def)
  have len: "length (omObjs (MarkRunning q m)) = length (omObjs m)" by (simp add: MarkRunning_objs)
  have "in_map cm (MarkRunning q m) p = in_map cm m p" for p
    using f[of p] len by (auto simp: in_map_def same_life_def MarkRunning_objs(2))
  moreover have "count_list (omTriggers (MarkRunning q m)) (OnRemove p) = count_list (omTriggers m) (OnRemove p)" for p
    by (simp add: MarkRunning_objs)
  moreover have "count_list (omTriggers (MarkRunning q m)) (OnInsert p) =
      (if p < length (omObjs m) \<and> soStatus (omObjs (MarkRunning q m) ! p) \<noteq> StatusStarting then 1 else 0)" for p
    using assms by (cases "p = q") (auto simp: MarkRunning_objs map_ok_def)
  moreover have "map soLifecycleID (omObjs (MarkRunning q m)) = map soLifecycleID (omObjs m)"
    by (simp add: MarkRunning_objs lifecycles_update)
  moreover have "cm_Get cm (omSandboxes (MarkRunning q m)) k = Some p \<Longrightarrow> p < length (omObjs m) \<and> soSandboxID (omObjs (MarkRunning q m) ! p) = k" for k p
    using assms(1) f[of p] by (auto simp: map_ok_def same_life_def MarkRunning_objs(2))
  ultimately show ?thesis using assms(1) len by (simp add: map_ok_def)
qed

lemma create_ok:
  assumes "map_ok cm m" "soLifecycleID sbx \<notin> soLifecycleID ` set (omObjs m)" "soStatus sbx = StatusStarting"
  shows "map_ok cm (om_Insert cm (length (omObjs m)) (m\<lparr>omObjs := omObjs m @ [sbx]\<rparr>))" (is "map_ok cm ?m")
proof -
  let ?n = "length (omObjs m)"
  have g: "cm_Get cm (omSandboxes ?m) k = (if k = soSandboxID sbx then Some ?n else cm_Get cm (omSandboxes m) k)" for k
    by (simp add: om_Insert_def smap_Insert_def Get_Set)
  have o: "omObjs ?m = omObjs m @ [sbx]" "omTriggers ?m = omTriggers m" by (simp_all add: om_Insert_def)
  have c: "count_list (omTriggers m) (OnInsert p) = (if p < ?n \<and> soStatus (omObjs m ! p) \<noteq> StatusStarting then 1 else 0)"
    "count_list (omTriggers m) (OnRemove p) + of_bool (in_map cm m p) \<le> of_bool (p < ?n)" for p
    using assms(1) by (auto simp: map_ok_def)
  have "count_list (omTriggers m) (OnRemove p) + of_bool (in_map cm ?m p) \<le> of_bool (p < Suc ?n)" for p
  proof (cases "p < ?n")
    case True
    then have "in_map cm ?m p \<Longrightarrow> in_map cm m p" by (auto simp: in_map_def g o nth_append split: if_splits)
    then show ?thesis using c(2)[of p] True by (auto simp: of_bool_def split: if_splits)
  next
    case False
    then show ?thesis using c(2)[of p] by (auto simp: in_map_def o of_bool_def split: if_splits)
  qed
  moreover have "count_list (omTriggers m) (OnInsert p) =
      (if p < Suc ?n \<and> soStatus ((omObjs m @ [sbx]) ! p) \<noteq> StatusStarting then 1 else 0)" for p
    using c(1)[of p] assms(3) by (auto simp: nth_append less_Suc_eq)
  moreover have "p < Suc ?n \<and> soSandboxID ((omObjs m @ [sbx]) ! p) = k" if "cm_Get cm (omSandboxes ?m) k = Some p" for k p
  proof (cases "k = soSandboxID sbx")
    case True
    then show ?thesis using that g by (auto simp: nth_append)
  next
    case False
    then have "p < ?n \<and> soSandboxID (omObjs m ! p) = k" using that g assms(1) by (auto simp: map_ok_def)
    then show ?thesis by (simp add: nth_append)
  qed
  ultimately show ?thesis using assms(1,2) unfolding map_ok_def o by (simp add: o)
qed

lemma forward_status:
  assumes "map_forward cm m m'" "p < length (omObjs m)"
  shows "soStatus (omObjs m ! p) \<noteq> StatusStarting \<Longrightarrow> soStatus (omObjs m' ! p) \<noteq> StatusStarting"
    "soStatus (omObjs m ! p) = StatusStopping \<Longrightarrow> soStatus (omObjs m' ! p) = StatusStopping"
proof -
  have r: "status_rank (soStatus (omObjs m ! p)) \<le> status_rank (soStatus (omObjs m' ! p))"
    using assms by (simp add: map_forward_def same_life_def)
  show "soStatus (omObjs m' ! p) \<noteq> StatusStarting" if "soStatus (omObjs m ! p) \<noteq> StatusStarting"
    using r that by (cases "soStatus (omObjs m ! p)"; cases "soStatus (omObjs m' ! p)") simp_all
  show "soStatus (omObjs m' ! p) = StatusStopping" if "soStatus (omObjs m ! p) = StatusStopping"
    using r that by (cases "soStatus (omObjs m' ! p)") simp_all
qed

lemma forward_taken:
  assumes "map_forward cm m m'" "taken_ok cm m p"
  shows "taken_ok cm m' p"
proof -
  have p: "p < length (omObjs m)" using assms(2) by (simp add: taken_ok_def)
  have "length (omObjs m) \<le> length (omObjs m')" "in_map cm m' p \<Longrightarrow> in_map cm m p"
    using assms(1) p by (auto simp: map_forward_def)
  with assms(2) p show ?thesis using forward_status[OF assms(1) p] by (auto simp: taken_ok_def)
qed

lemma forward_acquiring:
  assumes "map_forward cm m m'" "acquiring_ok m taken a"
  shows "acquiring_ok m' taken a"
proof -
  have "length (omObjs m) \<le> length (omObjs m')" using assms(1) by (simp add: map_forward_def)
  then show ?thesis using assms(2) forward_status[OF assms(1)] by (cases a) auto
qed

lemma omap_inv_forward:
  assumes "omap_inv cm st" "map_forward cm (osMap st) m'" "map_ok cm m'"
  shows "omap_inv cm (st\<lparr>osMap := m'\<rparr>)"
  using assms forward_taken[OF assms(2)] forward_acquiring[OF assms(2)] by (simp add: omap_inv_def)

lemma acquire_mark_taken:
  assumes "map_ok cm m" "p < length (omObjs m)" "soStatus (omObjs m ! p) \<noteq> StatusStarting"
  shows "taken_ok cm (MarkStopping cm (soSandboxID (omObjs m ! p)) (soLifecycleID (omObjs m ! p)) m) p"
    (is "taken_ok cm ?m p")
proof -
  note f = MarkStopping_forward[of m "soSandboxID (omObjs m ! p)" "soLifecycleID (omObjs m ! p)"]
  have "soStatus (omObjs ?m ! p) = StatusStopping" if "in_map cm ?m p"
  proof -
    have "cm_Get cm (omSandboxes m) (soSandboxID (omObjs m ! p)) = Some p"
      using f that assms(2) by (auto simp: map_forward_def in_map_def)
    then show ?thesis using assms(2,3) by (cases "soStatus (omObjs m ! p)") (auto simp: MarkStopping_objs)
  qed
  moreover have "soStatus (omObjs ?m ! p) \<noteq> StatusStarting" by (rule forward_status(1)[OF f assms(2,3)])
  moreover have "p < length (omObjs ?m)" using f assms(2) by (auto simp: map_forward_def)
  ultimately show ?thesis by (simp add: taken_ok_def)
qed

lemma map_forward_same:
  "map_forward cm m m" "map_forward cm m (m\<lparr>omSubs := x\<rparr>)"
  by (simp_all add: map_forward_def in_map_def)

lemma Subscribe_ok: "map_ok cm (m\<lparr>omSubs := x\<rparr>) \<longleftrightarrow> map_ok cm m"
proof -
  have "in_map cm (m\<lparr>omSubs := x\<rparr>) p \<longleftrightarrow> in_map cm m p" for p by (simp add: in_map_def)
  then show ?thesis unfolding map_ok_def by simp
qed

lemma omap_step_inv:
  assumes inv: "omap_inv cm st" and "omap_step cm st st'"
  shows "omap_inv cm st'"
proof -
  have ok: "map_ok cm (osMap st)" using inv by (simp add: omap_inv_def)
  show ?thesis
    using assms(2)
  proof cases
    case (create sbx i l s)
    then show ?thesis using omap_inv_forward[OF inv create_forward[OF ok, of sbx] create_ok[OF ok, of sbx]] by simp
  next
    case (running p)
    then show ?thesis using omap_inv_forward[OF inv MarkRunning_forward MarkRunning_ok[OF ok]] by simp
  next
    case (stopping i l)
    then show ?thesis using omap_inv_forward[OF inv MarkStopping_forward MarkStopping_ok[OF ok]] by simp
  next
    case (remove i l)
    then show ?thesis using omap_inv_forward[OF inv Remove_forward Remove_ok[OF ok]] by simp
  next
    case (subscribe sub)
    then show ?thesis
      using omap_inv_forward[OF inv map_forward_same(2)] ok by (simp add: om_Subscribe_def Subscribe_ok)
  next
    case (acquire_found i p)
    then have p: "p < length (omObjs (osMap st))" "in_map cm (osMap st) p"
      using ok by (auto simp: map_ok_def in_map_def smap_Get_def)
    then show ?thesis using inv acquire_found by (auto simp: omap_inv_def taken_ok_def)
  next
    case (acquire_mark p sbx)
    have p: "p < length (omObjs (osMap st))" "p \<notin> set (osAcquired st)" "soStatus (omObjs (osMap st) ! p) \<noteq> StatusStarting"
      using inv acquire_mark(2) by (simp_all add: omap_inv_def)
    note f = MarkStopping_forward[of "osMap st" "soSandboxID sbx" "soLifecycleID sbx"]
    show ?thesis
      using inv p acquire_mark_taken[OF ok p(1,3)] MarkStopping_ok[OF ok] forward_taken[OF f] acquire_mark by (simp add: omap_inv_def)
  qed (use inv in \<open>auto simp: omap_inv_def IsRunning_def\<close>)
qed

lemma omap_run_inv:
  assumes "(omap_step cm)\<^sup>*\<^sup>* (omap_start cm) st"
  shows "omap_inv cm st"
  using assms
proof (induction rule: rtranclp_induct)
  case base
  show ?case by (simp add: omap_inv_def map_ok_def in_map_def omap_start_def NewSandboxesMap_def smap_New_def Get_New)
qed (rule omap_step_inv)

lemma omap_step_forward:
  assumes "omap_inv cm st" "omap_step cm st st'"
  shows "map_forward cm (osMap st) (osMap st')"
proof -
  have "map_ok cm (osMap st)" using assms(1) by (simp add: omap_inv_def)
  note fw = create_forward[OF this] MarkRunning_forward MarkStopping_forward Remove_forward map_forward_same
  show ?thesis using assms(2) by cases (simp_all add: fw om_Subscribe_def)
qed

text \<open>A life outside the map whose removal was not announced: it will never be.\<close>

lemma Remove_not_announced:
  assumes "map_ok cm m" "\<not> in_map cm m p"
  shows "OnRemove p \<in> set (omTriggers (om_Remove cm i l m)) \<longleftrightarrow> OnRemove p \<in> set (omTriggers m)"
  using assms by (auto simp: Remove_rest map_ok_def in_map_def split: option.splits)

lemma step_not_announced:
  assumes inv: "omap_inv cm st" and st: "omap_step cm st st'" and p: "\<not> in_map cm (osMap st) p"
  shows "OnRemove p \<in> set (omTriggers (osMap st')) \<longleftrightarrow> OnRemove p \<in> set (omTriggers (osMap st))"
proof -
  have ok: "map_ok cm (osMap st)" using inv by (simp add: omap_inv_def)
  show ?thesis
    using st Remove_not_announced[OF ok p]
    by cases (simp_all add: om_Insert_def MarkRunning_objs MarkStopping_rest om_Subscribe_def)
qed

lemma replaced_life_steps:
  assumes "(omap_step cm)\<^sup>*\<^sup>* st st'" "omap_inv cm st" "p < length (omObjs (osMap st))"
    "\<not> in_map cm (osMap st) p" "OnRemove p \<notin> set (omTriggers (osMap st))"
  shows "OnRemove p \<notin> set (omTriggers (osMap st')) \<and> \<not> in_map cm (osMap st') p"
proof -
  have "omap_inv cm st' \<and> p < length (omObjs (osMap st')) \<and> \<not> in_map cm (osMap st') p \<and> OnRemove p \<notin> set (omTriggers (osMap st'))"
    using assms(1)
  proof (induction rule: rtranclp_induct)
    case (step s s')
    then show ?case
      using omap_step_inv[of s s'] omap_step_forward[of s s'] step_not_announced[of s s' p]
      by (auto simp: map_forward_def)
  qed (use assms in simp)
  then show ?thesis by simp
qed

lemma in_map_key: "map_ok cm m \<Longrightarrow> cm_Get cm (omSandboxes m) k = Some p \<longleftrightarrow> in_map cm m p \<and> soSandboxID (omObjs m ! p) = k"
  by (auto simp: map_ok_def in_map_def)

lemma find_by_host:
  assumes "map_ok cm m" "in_map cm m p" "HostIPString (soSlot (omObjs m ! p)) = a"
    "\<And>q. in_map cm m q \<Longrightarrow> HostIPString (soSlot (omObjs m ! q)) = a \<Longrightarrow> q = p"
  shows "find (\<lambda>(k, sbx). HostIPString (soSlot (omObjs m ! sbx)) = a) (smap_Items cm (omSandboxes m)) =
    Some (soSandboxID (omObjs m ! p), p)"
proof -
  have "(k, q) \<in> set (smap_Items cm (omSandboxes m)) \<longleftrightarrow> in_map cm m q \<and> soSandboxID (omObjs m ! q) = k" for k q
    by (simp add: smap_Items_def Items_mem in_map_key[OF assms(1)])
  note items = this
  show ?thesis
  proof (rule find_unique)
    show "(soSandboxID (omObjs m ! p), p) \<in> set (smap_Items cm (omSandboxes m))" using items assms(2) by simp
    show "case (soSandboxID (omObjs m ! p), p) of (k, sbx) \<Rightarrow> HostIPString (soSlot (omObjs m ! sbx)) = a" using assms(3) by simp
  next
    fix y
    assume "y \<in> set (smap_Items cm (omSandboxes m))" "case y of (k, sbx) \<Rightarrow> HostIPString (soSlot (omObjs m ! sbx)) = a"
    moreover obtain k q where "y = (k, q)" by (cases y)
    ultimately show "y = (soSandboxID (omObjs m ! p), p)" using items assms(4) by auto
  qed
qed

end

interpretation list_sandbox_map: sandbox_map list_cmap
  by (intro sandbox_map.intro list_cmap.concurrent_map_axioms)

end
