(* ===== verification/Sandbox_Cleanup.thy ===== *)
theory Sandbox_Cleanup
  imports E2B_Prelude "HOL-Library.Multiset" "HOL-Library.Sublist"
begin

text \<open>
  The functions that undo the creation of a sandbox, \<^verbatim>\<open>packages/orchestrator/pkg/sandbox/cleanup.go\<close>.

  \<^verbatim>\<open>Add\<close> reads an atomic flag and then takes the mutex; \<^verbatim>\<open>run\<close>, behind a \<^verbatim>\<open>sync.Once\<close>, sets the flag, takes the
  mutex and calls the functions.  \<open>cleanup_event\<close> interleaves the goroutines that add with the one that runs: an event
  that waits for the mutex changes nothing.  \<open>answer\<close> is the error of a function.
\<close>

subsection \<open>State\<close>

datatype ('f, 'e) once_body = NotRun | FlagStored | RunningFns "'f list" "'e list" | OnceDone

record ('f, 'e) Cleanup =
  cuCleanup :: "'f list"
  cuPriority :: "'f list"
  cuError :: "'e list"
  cuOnce :: "('f, 'e) once_body"
  cuHasRun :: bool
  cuRan :: "'f list"

definition NewCleanup :: "('f, 'e) Cleanup" where
  "NewCleanup = \<lparr>cuCleanup = [], cuPriority = [], cuError = [], cuOnce = NotRun, cuHasRun = False, cuRan = []\<rparr>"

text \<open>The mutex is held while the functions run; \<^verbatim>\<open>Add\<close> holds it within one step.\<close>

fun mu_held :: "('f, 'e) once_body \<Rightarrow> bool" where
  "mu_held (RunningFns _ _) \<longleftrightarrow> True"
| "mu_held _ \<longleftrightarrow> False"

datatype 'f adder = Adding bool 'f | FlagRead bool 'f | Added bool 'f

subsection \<open>Operations\<close>

text \<open>\<^verbatim>\<open>Add\<close> and \<^verbatim>\<open>AddPriority\<close>; the flag of an adder tells them apart.\<close>

fun cleanup_Add :: "'f adder \<Rightarrow> ('f, 'e) Cleanup \<Rightarrow> 'f adder \<times> ('f, 'e) Cleanup" where
  "cleanup_Add (Adding prio f) c =
     (if cuHasRun c then (Added prio f, c\<lparr>cuRan := cuRan c @ [f]\<rparr>) else (FlagRead prio f, c))"
| "cleanup_Add (FlagRead prio f) c =
     (if mu_held (cuOnce c) then (FlagRead prio f, c)
      else if prio then (Added prio f, c\<lparr>cuPriority := cuPriority c @ [f]\<rparr>)
      else (Added prio f, c\<lparr>cuCleanup := cuCleanup c @ [f]\<rparr>))"
| "cleanup_Add (Added prio f) c = (Added prio f, c)"

text \<open>The body of \<^verbatim>\<open>once.Do\<close>, a step at a time.\<close>

definition cleanup_run :: "('f \<Rightarrow> 'e option) \<Rightarrow> ('f, 'e) Cleanup \<Rightarrow> ('f, 'e) Cleanup" where
  "cleanup_run answer c =
     (case cuOnce c of
        NotRun \<Rightarrow> c\<lparr>cuHasRun := True, cuOnce := FlagStored\<rparr>
      | FlagStored \<Rightarrow> c\<lparr>cuOnce := RunningFns (rev (cuPriority c) @ rev (cuCleanup c)) []\<rparr>
      | RunningFns (f # fs) errs \<Rightarrow>
          c\<lparr>cuRan := cuRan c @ [f],
            cuOnce := RunningFns fs (case answer f of None \<Rightarrow> errs | Some err \<Rightarrow> errs @ [err])\<rparr>
      | RunningFns [] errs \<Rightarrow> c\<lparr>cuError := errs, cuOnce := OnceDone\<rparr>
      | OnceDone \<Rightarrow> c)"

text \<open>\<^verbatim>\<open>Run\<close> returns the error when the body has ended, whoever ran it.\<close>

definition cleanup_Run :: "('f, 'e) Cleanup \<Rightarrow> 'e list option" where
  "cleanup_Run c = (if cuOnce c = OnceDone then Some (cuError c) else None)"

datatype 'f cleanup_event = StartAdd bool 'f | GoAdd nat | GoRun

fun cleanup_step :: "('f \<Rightarrow> 'e option) \<Rightarrow> 'f cleanup_event \<Rightarrow> 'f adder list \<times> ('f, 'e) Cleanup \<Rightarrow> 'f adder list \<times> ('f, 'e) Cleanup" where
  "cleanup_step answer (StartAdd prio f) (as, c) = (as @ [Adding prio f], c)"
| "cleanup_step answer (GoAdd i) (as, c) =
     (if i < length as then (let (a, c1) = cleanup_Add (as ! i) c in (as[i := a], c1)) else (as, c))"
| "cleanup_step answer GoRun (as, c) = (as, cleanup_run answer c)"

definition cleanup_events :: "('f \<Rightarrow> 'e option) \<Rightarrow> 'f cleanup_event list \<Rightarrow> 'f adder list \<times> ('f, 'e) Cleanup \<Rightarrow> 'f adder list \<times> ('f, 'e) Cleanup" where
  "cleanup_events answer evs s = fold (cleanup_step answer) evs s"

subsection \<open>Functions that were added, and functions that were called\<close>

fun adder_fn :: "'f adder \<Rightarrow> 'f" where
  "adder_fn (Adding _ f) = f"
| "adder_fn (FlagRead _ f) = f"
| "adder_fn (Added _ f) = f"

fun added_fn :: "'f adder \<Rightarrow> 'f multiset" where
  "added_fn (Added _ f) = {#f#}"
| "added_fn _ = {#}"

fun flag_read :: "'f adder \<Rightarrow> bool" where
  "flag_read (FlagRead _ _) \<longleftrightarrow> True"
| "flag_read _ \<longleftrightarrow> False"

fun added :: "'f adder list \<Rightarrow> 'f multiset" where
  "added [] = {#}"
| "added (a # as) = added_fn a + added as"

fun pending_fns :: "('f, 'e) Cleanup \<Rightarrow> 'f multiset" where
  "pending_fns c = (case cuOnce c of NotRun \<Rightarrow> mset (cuPriority c @ cuCleanup c) | FlagStored \<Rightarrow> mset (cuPriority c @ cuCleanup c)
     | RunningFns fs _ \<Rightarrow> mset fs | OnceDone \<Rightarrow> {#})"

lemma added_append [simp]: "added (as @ bs) = added as + added bs"
  by (induction as) simp_all

lemma added_update:
  "i < length as \<Longrightarrow> added_fn (as ! i) = {#} \<Longrightarrow> added (as[i := a]) = added as + added_fn a"
proof (induction as arbitrary: i)
  case (Cons b bs)
  then show ?case by (cases i) (auto simp: ac_simps)
qed simp

lemma added_subset: "added as \<subseteq># mset (map adder_fn as)"
proof (induction as)
  case (Cons a as)
  have "added_fn a \<subseteq># {#adder_fn a#}" by (cases a) simp_all
  from subset_mset.add_mono[OF this Cons] show ?case by simp
qed simp

lemma update_added: "as ! i = Added prio f \<Longrightarrow> as[i := Added prio f] = as"
  by (metis list_update_id)

text \<open>What has been called or is still to be called has been added; until the end it is all that has been added.\<close>

definition cleanup_inv :: "'f adder list \<times> ('f, 'e) Cleanup \<Rightarrow> bool" where
  "cleanup_inv s \<longleftrightarrow> (case s of (as, c) \<Rightarrow>
     mset (cuRan c) + pending_fns c \<subseteq># added as \<and> cuHasRun c = (cuOnce c \<noteq> NotRun) \<and>
     (cuOnce c \<noteq> OnceDone \<longrightarrow> mset (cuRan c) + pending_fns c = added as))"

lemma cleanup_step_inv: "cleanup_inv s \<Longrightarrow> cleanup_inv (cleanup_step answer ev s)"
proof (induction answer ev s rule: cleanup_step.induct)
  case (2 answer i as c)
  show ?case
  proof (cases "i < length as")
    case True
    note u = added_update[OF True]
    show ?thesis
      using 2 True u update_added[of as i]
      by (cases "as ! i") (auto simp: cleanup_inv_def split: once_body.splits intro: subset_mset.order_trans)
  qed (use 2 in simp)
next
  case (3 answer as c)
  then show ?case
    by (auto simp: cleanup_inv_def cleanup_run_def split: once_body.splits list.splits option.splits)
qed (simp add: cleanup_inv_def)

lemma cleanup_events_inv: "cleanup_inv s \<Longrightarrow> cleanup_inv (cleanup_events answer evs s)"
  unfolding cleanup_events_def by (induction evs arbitrary: s) (simp_all add: cleanup_step_inv)

lemma NewCleanup_inv: "cleanup_inv ([], NewCleanup)"
  by (simp add: cleanup_inv_def NewCleanup_def)

subsection \<open>A run that nobody races with\<close>

fun remaining_steps :: "('f, 'e) once_body \<Rightarrow> nat \<Rightarrow> nat" where
  "remaining_steps NotRun n = n + 3"
| "remaining_steps FlagStored n = n + 2"
| "remaining_steps (RunningFns fs errs) n = length fs + 1"
| "remaining_steps OnceDone n = 0"

fun order_ok :: "('f \<Rightarrow> 'e option) \<Rightarrow> 'f list \<Rightarrow> ('f, 'e) Cleanup \<Rightarrow> bool" where
  "order_ok answer fns c = (case cuOnce c of
       NotRun \<Rightarrow> False
     | FlagStored \<Rightarrow> rev (cuPriority c) @ rev (cuCleanup c) = fns
     | RunningFns fs errs \<Rightarrow> (\<exists>called. fns = called @ fs \<and> subseq called (cuRan c) \<and> errs = List.map_filter answer called)
     | OnceDone \<Rightarrow> subseq fns (cuRan c) \<and> cuError c = List.map_filter answer fns)"

definition quiet_inv :: "('f \<Rightarrow> 'e option) \<Rightarrow> 'f list \<Rightarrow> 'f adder list \<times> ('f, 'e) Cleanup \<Rightarrow> bool" where
  "quiet_inv answer fns s \<longleftrightarrow> (case s of (as, c) \<Rightarrow>
     (\<forall>a\<in>set as. \<not> flag_read a) \<and> cuHasRun c \<and> mset (cuRan c) + pending_fns c = added as \<and> order_ok answer fns c)"

lemma subseq_snoc: "subseq xs ys \<Longrightarrow> subseq (xs @ [x]) (ys @ [x])" "subseq xs ys \<Longrightarrow> subseq xs (ys @ [y])"
  by (auto intro: list_emb_append_mono list_emb_append2)

lemma map_filter_snoc: "List.map_filter f (xs @ [x]) = List.map_filter f xs @ (case f x of None \<Rightarrow> [] | Some y \<Rightarrow> [y])"
  by (simp add: List.map_filter_def split: option.splits)

lemma quiet_GoRun:
  assumes "quiet_inv answer fns (as, c)"
  shows "quiet_inv answer fns (as, cleanup_run answer c)"
    "remaining_steps (cuOnce (cleanup_run answer c)) (length fns) = remaining_steps (cuOnce c) (length fns) - 1"
proof -
  show "quiet_inv answer fns (as, cleanup_run answer c)"
  proof (cases "cuOnce c")
    case (RunningFns fs errs)
    show ?thesis
    proof (cases fs)
      case (Cons f gs)
      obtain called where d: "fns = called @ fs" "subseq called (cuRan c)" "errs = List.map_filter answer called"
        using assms RunningFns by (auto simp: quiet_inv_def)
      then have "fns = (called @ [f]) @ gs" "subseq (called @ [f]) (cuRan c @ [f])"
          "(case answer f of None \<Rightarrow> errs | Some err \<Rightarrow> errs @ [err]) = List.map_filter answer (called @ [f])"
        using Cons subseq_snoc(1)[OF d(2)] by (simp_all add: map_filter_snoc split: option.splits)
      then show ?thesis
        using assms RunningFns Cons unfolding quiet_inv_def by (simp add: cleanup_run_def) blast
    qed (use assms RunningFns in \<open>auto simp: quiet_inv_def cleanup_run_def\<close>)
  qed (use assms in \<open>auto simp: quiet_inv_def cleanup_run_def\<close>)
  show "remaining_steps (cuOnce (cleanup_run answer c)) (length fns) = remaining_steps (cuOnce c) (length fns) - 1"
    using assms by (auto simp: quiet_inv_def cleanup_run_def split: once_body.splits list.splits)
qed

lemma quiet_GoAdd:
  assumes "quiet_inv answer fns (as, c)" "i < length as" "cleanup_Add (as ! i) c = (a, c1)"
  shows "quiet_inv answer fns (as[i := a], c1)" "cuOnce c1 = cuOnce c"
proof -
  have nf: "\<not> flag_read (as ! i)" using assms(1,2) by (simp add: quiet_inv_def)
  show "quiet_inv answer fns (as[i := a], c1)"
  proof (cases "as ! i")
    case (Adding prio f)
    then have a: "a = Added prio f" "c1 = c\<lparr>cuRan := cuRan c @ [f]\<rparr>" using assms(1,3) by (auto simp: quiet_inv_def)
    have "added (as[i := a]) = added as + {#f#}" using added_update[OF assms(2), of a] Adding a by simp
    moreover have "\<not> flag_read x" if "x \<in> set (as[i := a])" for x
      using that assms(1) a set_update_subset_insert[of as i a] by (auto simp: quiet_inv_def)
    moreover have "order_ok answer fns c1"
      using assms(1) a by (auto simp: quiet_inv_def intro: subseq_snoc(2) split: once_body.splits)
    ultimately show ?thesis using assms(1) a by (simp add: quiet_inv_def split: once_body.splits)
  qed (use assms nf update_added[of as i] in auto)
  show "cuOnce c1 = cuOnce c"
    using assms(3) by (cases "as ! i") (auto split: if_splits)
qed

lemma quiet_events:
  assumes "quiet_inv answer fns (as, c)"
  shows "quiet_inv answer fns (cleanup_events answer evs (as, c)) \<and>
    remaining_steps (cuOnce (snd (cleanup_events answer evs (as, c)))) (length fns) =
      remaining_steps (cuOnce c) (length fns) - count_list evs GoRun"
  using assms
proof (induction evs arbitrary: as c)
  case (Cons ev evs)
  show ?case
  proof (cases ev)
    case (StartAdd prio f)
    have "quiet_inv answer fns (as @ [Adding prio f], c)" using Cons.prems by (simp add: quiet_inv_def)
    from Cons.IH[OF this] show ?thesis by (simp add: cleanup_events_def StartAdd)
  next
    case (GoAdd i)
    obtain a c1 where a: "cleanup_Add (as ! i) c = (a, c1)" by fastforce
    show ?thesis
    proof (cases "i < length as")
      case True
      from Cons.IH[OF quiet_GoAdd(1)[OF Cons.prems True a]] quiet_GoAdd(2)[OF Cons.prems True a]
      show ?thesis by (simp add: cleanup_events_def GoAdd True a)
    qed (use Cons in \<open>simp add: cleanup_events_def GoAdd\<close>)
  next
    case GoRun
    from Cons.IH[OF quiet_GoRun(1)[OF Cons.prems]] quiet_GoRun(2)[OF Cons.prems]
    show ?thesis by (simp add: cleanup_events_def GoRun)
  qed
qed (simp add: cleanup_events_def)

end
