(* ===== verification/Orchestrator_Properties.thy ===== *)
theory Orchestrator_Properties
  imports Orchestrator_Map Sandbox_Cleanup Network_Properties
begin

text \<open>
  The properties of the orchestrator's map of sandboxes and of the cleanup of a sandbox.
\<close>

subsection \<open>Lives\<close>

lemma reachable_map:
  assumes "concurrent_map cm" "(omap_step cm)\<^sup>*\<^sup>* (omap_start cm) st"
  shows "sandbox_map cm" "omap_inv cm st" "map_ok cm (osMap st)"
proof -
  show l: "sandbox_map cm" using assms(1) by (rule sandbox_map.intro)
  show "omap_inv cm st" by (rule sandbox_map.omap_run_inv[OF l assms(2)])
  then show "map_ok cm (osMap st)" by (simp add: omap_inv_def)
qed

text \<open>A sandbox that is created, runs and is taken for a snapshot.\<close>

definition a_life :: "string \<Rightarrow> SandboxStatus \<Rightarrow> SandboxObj" where
  "a_life l s = \<lparr>soSandboxID = ''s'', soLifecycleID = l, soSlot = a_slot, soStatus = s\<rparr>"

definition a_map :: "SandboxStatus \<Rightarrow> sub_event list \<Rightarrow> (string \<times> nat) list SandboxMap" where
  "a_map s ts = \<lparr>omSandboxes = [(''s'', 0)], omObjs = [a_life ''a'' s], omSubs = [], omTriggers = ts\<rparr>"

definition a_taken :: "(string \<times> nat) list omap_state" where
  "a_taken = \<lparr>osMap = a_map StatusStopping [OnInsert 0], osAcquiring = AcquireIdle, osAcquired = [0]\<rparr>"

lemma a_life_taken: "(omap_step list_cmap)\<^sup>*\<^sup>* (omap_start list_cmap) a_taken"
proof -
  let ?st = "\<lambda>m a. \<lparr>osMap = m, osAcquiring = a, osAcquired = []\<rparr>"
  have 1: "omap_step list_cmap (omap_start list_cmap) (?st (a_map StatusStarting []) AcquireIdle)"
    using omap_step.create[of "a_life ''a'' StatusStarting" "''s''" "''a''" a_slot "omap_start list_cmap" list_cmap]
    by (simp add: omap_start_def NewSandboxesMap_def a_map_def a_life_def om_Insert_def smap_defs)
  have 2: "omap_step list_cmap (?st (a_map StatusStarting []) AcquireIdle) (?st (a_map StatusRunning [OnInsert 0]) AcquireIdle)"
    using omap_step.running[of 0 "?st (a_map StatusStarting []) AcquireIdle" list_cmap]
    by (simp add: a_map_def a_life_def MarkRunning_def status_CompareAndSwap_def)
  have 3: "omap_step list_cmap (?st (a_map StatusRunning [OnInsert 0]) AcquireIdle) (?st (a_map StatusRunning [OnInsert 0]) (AcquireFound 0))"
    using omap_step.acquire_found[of "?st (a_map StatusRunning [OnInsert 0]) AcquireIdle" list_cmap "''s''" 0] by (simp add: a_map_def smap_defs)
  have 4: "omap_step list_cmap (?st (a_map StatusRunning [OnInsert 0]) (AcquireFound 0)) (?st (a_map StatusRunning [OnInsert 0]) (AcquireRunning 0))"
    using omap_step.acquire_running[of "?st (a_map StatusRunning [OnInsert 0]) (AcquireFound 0)" 0 list_cmap]
    by (simp add: a_map_def a_life_def IsRunning_def)
  have 5: "omap_step list_cmap (?st (a_map StatusRunning [OnInsert 0]) (AcquireRunning 0)) a_taken"
    using omap_step.acquire_mark[of "?st (a_map StatusRunning [OnInsert 0]) (AcquireRunning 0)" 0 "a_life ''a'' StatusRunning" list_cmap]
    by (simp add: a_map_def a_life_def a_taken_def MarkStopping_def status_CompareAndSwap_def smap_defs cm_RemoveCb_def Let_def)
  show ?thesis using 1 2 3 4 5 by simp
qed

text \<open>
  C33.  Whatever the callers of the map do and however they interleave, a life of a sandbox is handed to a snapshot
  at most once, even though deletions do not take the mutex of snapshots; it announces its start exactly when it has
  been running, once, and its removal at most once, when it is out of the map.  A status only goes
  forward, and a life that has left the map never comes back into it.
\<close>

theorem lives_are_taken_once:
  assumes "concurrent_map cm" "(omap_step cm)\<^sup>*\<^sup>* (omap_start cm) st" "p < length (omObjs (osMap st))"
  shows "distinct (osAcquired st) \<and>
    count_list (omTriggers (osMap st)) (OnInsert p) = of_bool (soStatus (omObjs (osMap st) ! p) \<noteq> StatusStarting) \<and>
    count_list (omTriggers (osMap st)) (OnRemove p) + of_bool (in_map cm (osMap st) p) \<le> 1 \<and>
    (\<forall>st'. omap_step cm st st' \<longrightarrow>
       status_rank (soStatus (omObjs (osMap st) ! p)) \<le> status_rank (soStatus (omObjs (osMap st') ! p)) \<and>
       (in_map cm (osMap st') p \<longrightarrow> in_map cm (osMap st) p))"
proof (intro conjI allI impI)
  note r = reachable_map[OF assms(1,2)]
  show "distinct (osAcquired st)" using r(2) by (simp add: omap_inv_def)
  show "count_list (omTriggers (osMap st)) (OnInsert p) = of_bool (soStatus (omObjs (osMap st) ! p) \<noteq> StatusStarting)"
    using r(3) assms(3) by (simp add: map_ok_def)
  have "count_list (omTriggers (osMap st)) (OnRemove p) + of_bool (in_map cm (osMap st) p) \<le> of_bool (p < length (omObjs (osMap st)))"
    using r(3) unfolding map_ok_def by blast
  then show "count_list (omTriggers (osMap st)) (OnRemove p) + of_bool (in_map cm (osMap st) p) \<le> 1"
    using assms(3) by simp
next
  fix st'
  assume "omap_step cm st st'"
  from sandbox_map.omap_step_forward[OF reachable_map(1,2)[OF assms(1,2)] this]
  show "status_rank (soStatus (omObjs (osMap st) ! p)) \<le> status_rank (soStatus (omObjs (osMap st') ! p))"
    "in_map cm (osMap st') p \<Longrightarrow> in_map cm (osMap st) p"
    using assms(3) by (auto simp: map_forward_def same_life_def)
qed

theorem lives_are_taken_once_witness:
  "osAcquired a_taken = [0] \<and> distinct (osAcquired a_taken) \<and> count_list (omTriggers (osMap a_taken)) (OnInsert 0) = 1"
  using lives_are_taken_once[OF list_cmap.concurrent_map_axioms a_life_taken, of 0]
  by (simp add: a_taken_def a_map_def a_life_def)

text \<open>
  Lives of one sandbox do not disturb each other.  A call of \<^verbatim>\<open>MarkStopping\<close> or \<^verbatim>\<open>Remove\<close> for one life changes
  no other life and leaves it in the map or out of it.  For a life in the map, \<^verbatim>\<open>MarkStopping\<close> ends its being found by
  identifier and keeps its being found by address, in whatever state it is, as long as no other sandbox of the map has its
  address; \<^verbatim>\<open>Remove\<close> takes it out and announces it.
\<close>

theorem lives_are_separate:
  assumes "concurrent_map cm" "(omap_step cm)\<^sup>*\<^sup>* (omap_start cm) st" "m = osMap st" "p < length (omObjs m)"
    "m1 = MarkStopping cm i l m" "m2 = om_Remove cm i l m"
  shows "(soLifecycleID (omObjs m ! p) \<noteq> l \<longrightarrow>
      omObjs m1 ! p = omObjs m ! p \<and> omObjs m2 ! p = omObjs m ! p \<and>
      in_map cm m1 p = in_map cm m p \<and> in_map cm m2 p = in_map cm m p) \<and>
    (in_map cm m p \<and> soSandboxID (omObjs m ! p) = i \<and> soLifecycleID (omObjs m ! p) = l \<longrightarrow>
      om_Get cm m1 i = None \<and> in_map cm m1 p \<and>
      (\<forall>hp port. SplitHostPort hp = Inr (HostIPString (soSlot (omObjs m ! p)), port) \<and>
         (\<forall>q. in_map cm m q \<and> HostIPString (soSlot (omObjs m ! q)) = HostIPString (soSlot (omObjs m ! p)) \<longrightarrow> q = p) \<longrightarrow>
         GetByHostPort cm m hp = Ok p \<and> GetByHostPort cm m1 hp = Ok p) \<and>
      \<not> in_map cm m2 p \<and> omTriggers m2 = omTriggers m @ [OnRemove p])"
proof -
  have sm: "sandbox_map cm" and ok: "map_ok cm m" using reachable_map[OF assms(1,2)] assms(3) by simp_all
  note stop = sandbox_map.MarkStopping_objs[OF sm, of i l m] and rest = sandbox_map.MarkStopping_rest[OF sm, of i l m]
  note rem = sandbox_map.Remove_rest[OF sm, of i l m]
  have ok1: "map_ok cm m1" unfolding assms(5) by (rule sandbox_map.MarkStopping_ok[OF sm ok])
  have fw: "same_life (omObjs m ! q) (omObjs m1 ! q)" if "q < length (omObjs m)" for q
    using sandbox_map.MarkStopping_forward[OF sm, of m i l] that by (simp add: map_forward_def assms(5))
  have len: "length (omObjs m1) = length (omObjs m)" by (simp add: assms(5) stop split: option.split)
  have im1: "in_map cm m1 q = in_map cm m q" for q
    using fw[of q] len rest(1) by (auto simp: in_map_def assms(5) same_life_def)
  have other1: "omObjs m1 ! p = omObjs m ! p" if "soLifecycleID (omObjs m ! p) \<noteq> l"
  proof (cases "cm_Get cm (omSandboxes m) i")
    case (Some q)
    then show ?thesis using that by (cases "q = p") (simp_all add: assms(5) stop)
  qed (simp add: assms(5) stop)
  have other2: "in_map cm m2 p = in_map cm m p" if "soLifecycleID (omObjs m ! p) \<noteq> l"
    using that by (auto simp: assms(6) rem in_map_def)
  have host: "GetByHostPort cm m hp = Ok p \<and> GetByHostPort cm m1 hp = Ok p"
    if "in_map cm m p" "SplitHostPort hp = Inr (HostIPString (soSlot (omObjs m ! p)), port)"
      "\<forall>q. in_map cm m q \<and> HostIPString (soSlot (omObjs m ! q)) = HostIPString (soSlot (omObjs m ! p)) \<longrightarrow> q = p" for hp port
  proof -
    have s: "soSlot (omObjs m1 ! q) = soSlot (omObjs m ! q)" if "in_map cm m q" for q
      using fw[of q] that by (simp add: in_map_def same_life_def)
    have "find (\<lambda>(k, sbx). HostIPString (soSlot (omObjs m ! sbx)) = HostIPString (soSlot (omObjs m ! p))) (smap_Items cm (omSandboxes m)) =
        Some (soSandboxID (omObjs m ! p), p)"
      by (rule sandbox_map.find_by_host[OF sm ok that(1)]) (use that(3) in auto)
    moreover have "find (\<lambda>(k, sbx). HostIPString (soSlot (omObjs m1 ! sbx)) = HostIPString (soSlot (omObjs m ! p))) (smap_Items cm (omSandboxes m1)) =
        Some (soSandboxID (omObjs m1 ! p), p)"
      by (rule sandbox_map.find_by_host[OF sm ok1]) (use that(1,3) im1 s in auto)
    ultimately show ?thesis by (simp add: GetByHostPort_def that(2))
  qed
  have own: "om_Get cm m1 i = None" "\<not> in_map cm m2 p" "omTriggers m2 = omTriggers m @ [OnRemove p]"
    if "in_map cm m p" "soSandboxID (omObjs m ! p) = i" "soLifecycleID (omObjs m ! p) = l"
    using that rest(1) by (auto simp: om_Get_def smap_Get_def IsRunning_def in_map_def assms(5,6) stop rem split: option.split)
  show ?thesis using other1 other2 own host im1 rem(1) assms(6) by auto
qed

theorem lives_are_separate_witness:
  "GetByHostPort list_cmap (osMap a_taken) ''10.11.0.1:80'' = Ok 0 \<and>
   omTriggers (om_Remove list_cmap ''s'' ''a'' (osMap a_taken)) = [OnInsert 0, OnRemove 0] \<and>
   omObjs (om_Remove list_cmap ''s'' ''b'' (osMap a_taken)) ! 0 = a_life ''a'' StatusStopping"
proof -
  have i: "in_map list_cmap (osMap a_taken) q \<longleftrightarrow> q = 0" for q
    by (cases q) (auto simp: in_map_def a_taken_def a_map_def a_life_def)
  have o: "0 < length (omObjs (osMap a_taken))" "omObjs (osMap a_taken) ! 0 = a_life ''a'' StatusStopping" "omTriggers (osMap a_taken) = [OnInsert 0]"
    by (simp_all add: a_taken_def a_map_def)
  have h: "SplitHostPort ''10.11.0.1:80'' = Inr (HostIPString (soSlot (a_life ''a'' StatusStopping)), ''80'')" by code_simp
  note t = lives_are_separate[OF list_cmap.concurrent_map_axioms a_life_taken refl o(1) refl refl]
  from t[of "''a''" "''s''"] have "GetByHostPort list_cmap (osMap a_taken) ''10.11.0.1:80'' = Ok 0"
      "omTriggers (om_Remove list_cmap ''s'' ''a'' (osMap a_taken)) = [OnInsert 0, OnRemove 0]"
    using h by (auto simp: i o a_life_def)
  moreover from t[of "''b''" "''s''"] have "omObjs (om_Remove list_cmap ''s'' ''b'' (osMap a_taken)) ! 0 = a_life ''a'' StatusStopping"
    by (simp add: o a_life_def)
  ultimately show ?thesis by simp
qed

text \<open>
  C34.  When a sandbox is created again while an older life of it is still in the map, as a checkpoint does, the
  older life leaves the map at that moment, before its virtual machine has stopped, and its removal is never announced:
  the later \<^verbatim>\<open>Remove\<close> for it finds the other life.
\<close>

theorem replaced_life_is_not_announced:
  assumes "concurrent_map cm" "(omap_step cm)\<^sup>*\<^sup>* (omap_start cm) st" "in_map cm (osMap st) p"
    "sbx = \<lparr>soSandboxID = soSandboxID (omObjs (osMap st) ! p), soLifecycleID = l, soSlot = s, soStatus = StatusStarting\<rparr>"
    "l \<notin> soLifecycleID ` set (omObjs (osMap st))"
    "(omap_step cm)\<^sup>*\<^sup>* (st\<lparr>osMap := om_Insert cm (length (omObjs (osMap st))) ((osMap st)\<lparr>omObjs := omObjs (osMap st) @ [sbx]\<rparr>)\<rparr>) st'"
  shows "\<not> in_map cm (osMap st') p \<and> OnRemove p \<notin> set (omTriggers (osMap st'))"
proof -
  note r = reachable_map[OF assms(1,2)]
  let ?st = "st\<lparr>osMap := om_Insert cm (length (omObjs (osMap st))) ((osMap st)\<lparr>omObjs := omObjs (osMap st) @ [sbx]\<rparr>)\<rparr>"
  have p: "p < length (omObjs (osMap st))" using assms(3) by (simp add: in_map_def)
  have inv: "omap_inv cm ?st"
    by (rule sandbox_map.omap_step_inv[OF r(1,2)]) (rule omap_step.create[OF assms(4,5)])
  have out: "\<not> in_map cm (osMap ?st) p"
    using p by (simp add: in_map_def om_Insert_def smap_Insert_def nth_append concurrent_map.Get_Set[OF assms(1)] assms(4))
  have "count_list (omTriggers (osMap st)) (OnRemove p) + of_bool (in_map cm (osMap st) p) \<le> of_bool (p < length (omObjs (osMap st)))"
    using r(3) unfolding map_ok_def by blast
  then have "OnRemove p \<notin> set (omTriggers (osMap ?st))"
    using assms(3) p by (simp add: count_list_0_iff om_Insert_def)
  then show ?thesis
    using sandbox_map.replaced_life_steps[OF r(1) assms(6) inv _ out] p by (simp add: om_Insert_def)
qed

theorem replaced_life_is_not_announced_witness:
  "\<exists>st'. omap_step list_cmap a_taken st' \<and> omObjs (osMap st') ! 0 = a_life ''a'' StatusStopping \<and>
     \<not> in_map list_cmap (osMap st') 0 \<and> OnRemove 0 \<notin> set (omTriggers (osMap (st'\<lparr>osMap := om_Remove list_cmap ''s'' ''a'' (osMap st')\<rparr>)))"
proof -
  let ?st = "a_taken\<lparr>osMap := om_Insert list_cmap (length (omObjs (osMap a_taken))) ((osMap a_taken)\<lparr>omObjs := omObjs (osMap a_taken) @ [a_life ''b'' StatusStarting]\<rparr>)\<rparr>"
  have i: "in_map list_cmap (osMap a_taken) 0" by (simp add: in_map_def a_taken_def a_map_def a_life_def)
  have b: "a_life ''b'' StatusStarting = \<lparr>soSandboxID = soSandboxID (omObjs (osMap a_taken) ! 0), soLifecycleID = ''b'', soSlot = a_slot, soStatus = StatusStarting\<rparr>"
    "''b'' \<notin> soLifecycleID ` set (omObjs (osMap a_taken))"
    by (simp_all add: a_taken_def a_map_def a_life_def)
  note t = replaced_life_is_not_announced[OF list_cmap.concurrent_map_axioms a_life_taken i b]
  have "omap_step list_cmap a_taken ?st" by (rule omap_step.create[OF b])
  moreover have "omObjs (osMap ?st) ! 0 = a_life ''a'' StatusStopping" by (simp add: om_Insert_def a_taken_def a_map_def)
  moreover have "\<not> in_map list_cmap (osMap ?st) 0" using t[OF rtranclp.rtrancl_refl] by simp
  moreover have "OnRemove 0 \<notin> set (omTriggers (osMap (?st\<lparr>osMap := om_Remove list_cmap ''s'' ''a'' (osMap ?st)\<rparr>)))"
    using t[OF r_into_rtranclp[where r = "omap_step list_cmap", OF omap_step.remove[of list_cmap ?st "''s''" "''a''"]]] by simp
  ultimately show ?thesis by blast
qed

subsection \<open>Cleanup\<close>

text \<open>
  C35.  No function is called more often than it was added.  Once \<^verbatim>\<open>Run\<close> has set its flag, and if no call of \<^verbatim>\<open>Add\<close> has
  then read the flag without having appended its function, \<^verbatim>\<open>Run\<close> comes to its end: the functions registered by then
  are called, those with priority first and the last added first, whatever errors they return, and \<^verbatim>\<open>Run\<close>
  returns their errors in this order.  At any later moment exactly the functions that have been added were called.
\<close>

theorem cleanup_calls_everything:
  assumes "cleanup_events answer evs ([], NewCleanup) = (as, c)" "cuOnce c = FlagStored" "\<forall>a\<in>set as. \<not> flag_read a"
    "cleanup_events answer evs' (as, c) = (as', c')" "length (cuPriority c) + length (cuCleanup c) + 2 \<le> count_list evs' GoRun"
  shows "mset (cuRan c') = added as' \<and> added as' \<subseteq># mset (map adder_fn as') \<and>
    subseq (rev (cuPriority c) @ rev (cuCleanup c)) (cuRan c') \<and>
    cleanup_Run c' = Some (List.map_filter answer (rev (cuPriority c) @ rev (cuCleanup c)))"
proof -
  let ?fns = "rev (cuPriority c) @ rev (cuCleanup c)"
  have inv: "cleanup_inv (as, c)" using cleanup_events_inv[OF NewCleanup_inv, of answer evs] assms(1) by simp
  have "quiet_inv answer ?fns (as, c)" using inv assms(2,3) by (simp add: quiet_inv_def cleanup_inv_def)
  from quiet_events[OF this, of evs'] have q: "quiet_inv answer ?fns (as', c')" and "remaining_steps (cuOnce c') (length ?fns) = 0"
    using assms(2,4,5) by simp_all
  then have "cuOnce c' = OnceDone" by (cases "cuOnce c'") simp_all
  then show ?thesis using q using added_subset[of as'] by (simp add: quiet_inv_def cleanup_Run_def)
qed

definition two_cleanups :: "string cleanup_event list" where
  "two_cleanups = [StartAdd False ''files'', GoAdd 0, GoAdd 0, StartAdd True ''stop'', GoAdd 1, GoAdd 1, GoRun]"

theorem cleanup_calls_everything_witness:
  "\<exists>as c as' c'. cleanup_events Some two_cleanups ([], NewCleanup) = (as, c) \<and>
     cleanup_events Some [StartAdd False ''late'', GoRun, GoAdd 2, GoRun, GoRun, GoRun] (as, c) = (as', c') \<and>
     mset (cuRan c') = {#''files'', ''stop'', ''late''#} \<and> cleanup_Run c' = Some [''stop'', ''files'']"
proof -
  obtain as c where ac: "cleanup_events Some two_cleanups ([], NewCleanup) = (as, c)" by fastforce
  obtain as' c' where ac': "cleanup_events Some [StartAdd False ''late'', GoRun, GoAdd 2, GoRun, GoRun, GoRun] (as, c) = (as', c')" by fastforce
  have c: "as = [Added False ''files'', Added True ''stop'']"
    "c = \<lparr>cuCleanup = [''files''], cuPriority = [''stop''], cuError = [], cuOnce = FlagStored, cuHasRun = True, cuRan = []\<rparr>"
    using ac by (simp_all add: cleanup_events_def two_cleanups_def NewCleanup_def cleanup_run_def)
  have as': "as' = [Added False ''files'', Added True ''stop'', Added False ''late'']"
    using ac' by (simp add: c cleanup_events_def cleanup_run_def nth_append numeral_2_eq_2)
  have "mset (cuRan c') = added as' \<and> cleanup_Run c' = Some (List.map_filter Some (rev (cuPriority c) @ rev (cuCleanup c)))"
    using cleanup_calls_everything[OF ac _ _ ac'] by (simp add: c)
  then show ?thesis using ac ac' as' c by (auto simp: List.map_filter_def)
qed

text \<open>
  A function that is added while \<^verbatim>\<open>Run\<close> starts can get lost: \<^verbatim>\<open>Add\<close> reads the flag before \<^verbatim>\<open>Run\<close> sets it and appends after
  \<^verbatim>\<open>Run\<close> has gone through the lists.
\<close>

lemma late_cleanup_is_lost:
  "cleanup_events (\<lambda>_. None) [StartAdd False ''link'', GoAdd 0, GoRun, GoRun, GoRun, GoAdd 0] ([], NewCleanup :: (string, unit) Cleanup) =
     ([Added False ''link''],
      \<lparr>cuCleanup = [''link''], cuPriority = [], cuError = [], cuOnce = OnceDone, cuHasRun = True, cuRan = []\<rparr>)"
  by (simp add: cleanup_events_def NewCleanup_def cleanup_run_def)

end
