(* ===== verification/Redis_Client.thy ===== *)
theory Redis_Client
  imports Sandbox_State "HOL-Library.AList"
begin

text \<open>
  The Redis server as the API uses it, and the keys under which it keeps its data:
  \<^verbatim>\<open>packages/shared/pkg/redis/keys.go\<close> and \<^verbatim>\<open>lock.go\<close>, \<^verbatim>\<open>packages/api/internal/sandbox/storage/redis/utils.go\<close> and
  \<^verbatim>\<open>packages/api/internal/sandbox/reservations/redis/utils.go\<close>.

  Redis is not part of the repository: its commands are the record \<open>redis_ops\<close>, an argument of the definitions, and the
  locale \<open>redis\<close> states what its documentation promises of strings, sets and sorted sets.  Scores, which are
  doubles, are whole numbers here: the program uses times in seconds and milliseconds, which a double holds exactly.
\<close>

subsection \<open>Keys\<close>

definition separator :: string where "separator = '':''"

fun CreateKey :: "string list \<Rightarrow> string" where
  "CreateKey [] = []"
| "CreateKey [part] = part"
| "CreateKey (part # parts) = part @ separator @ CreateKey parts"

definition SameSlot :: "string \<Rightarrow> string" where
  "SameSlot key = ''{'' @ key @ ''}''"

definition lockKeyPrefix :: string where "lockKeyPrefix = ''lock:''"

definition GetLockKey :: "string \<Rightarrow> string" where
  "GetLockKey key = lockKeyPrefix @ key"

definition sandboxKeyPrefix :: string where "sandboxKeyPrefix = ''sandbox:storage''"
definition transitionKeyPrefix :: string where "transitionKeyPrefix = ''transition''"
definition notifySuffix :: string where "notifySuffix = ''notify''"
definition sandboxesKey :: string where "sandboxesKey = ''sandboxes''"
definition indexKey :: string where "indexKey = ''index''"

definition globalTeamsSet :: string where
  "globalTeamsSet = CreateKey [sandboxKeyPrefix, ''global:teams'']"

definition globalExpirationSet :: string where
  "globalExpirationSet = CreateKey [sandboxKeyPrefix, ''global:expiration'']"

definition globalTransitionNotifyChannel :: string where
  "globalTransitionNotifyChannel = CreateKey [sandboxKeyPrefix, transitionKeyPrefix, notifySuffix]"

definition expirationMember :: "string \<Rightarrow> string \<Rightarrow> string" where
  "expirationMember teamID sandboxID = CreateKey [teamID, sandboxID]"

text \<open>\<^verbatim>\<open>strings.Cut\<close> at the first separator.\<close>

definition parseExpirationMember :: "string \<Rightarrow> (string \<times> string) option" where
  "parseExpirationMember member =
     (case dropWhile (\<lambda>c. c \<noteq> CHR '':'') member of
        [] \<Rightarrow> None
      | _ # sandboxID \<Rightarrow> Some (takeWhile (\<lambda>c. c \<noteq> CHR '':'') member, sandboxID))"

definition GetTeamPrefix :: "string \<Rightarrow> string" where
  "GetTeamPrefix teamID = CreateKey [sandboxKeyPrefix, SameSlot teamID]"

definition getSandboxKey :: "string \<Rightarrow> string \<Rightarrow> string" where
  "getSandboxKey teamID sandboxID = CreateKey [GetTeamPrefix teamID, sandboxesKey, sandboxID]"

definition GetSandboxStorageTeamIndexKey :: "string \<Rightarrow> string" where
  "GetSandboxStorageTeamIndexKey teamID = CreateKey [GetTeamPrefix teamID, indexKey]"

definition getTransitionKey :: "string \<Rightarrow> string \<Rightarrow> string" where
  "getTransitionKey teamID sandboxID = CreateKey [GetTeamPrefix teamID, transitionKeyPrefix, sandboxID]"

definition getTransitionResultKey :: "string \<Rightarrow> string \<Rightarrow> string \<Rightarrow> string" where
  "getTransitionResultKey teamID sandboxID transitionID = CreateKey [getTransitionKey teamID sandboxID, transitionID]"

definition getTransitionRoutingKey :: "string \<Rightarrow> string \<Rightarrow> string \<Rightarrow> string" where
  "getTransitionRoutingKey teamID sandboxID transitionID =
     CreateKey [GetTeamPrefix teamID, transitionKeyPrefix, sandboxID, transitionID, notifySuffix]"

definition reservationsKey :: string where "reservationsKey = ''reservations''"
definition pendingKey :: string where "pendingKey = ''pending''"
definition resultKey :: string where "resultKey = ''result''"

definition getStorageIndexKey :: "string \<Rightarrow> string" where
  "getStorageIndexKey teamID = GetSandboxStorageTeamIndexKey teamID"

definition getReservationPrefix :: "string \<Rightarrow> string" where
  "getReservationPrefix teamID = CreateKey [GetTeamPrefix teamID, reservationsKey]"

definition getPendingSetKey :: "string \<Rightarrow> string" where
  "getPendingSetKey teamID = CreateKey [getReservationPrefix teamID, pendingKey]"

definition getResultKey :: "string \<Rightarrow> string \<Rightarrow> string" where
  "getResultKey teamID sandboxID = CreateKey [getReservationPrefix teamID, sandboxID, resultKey]"

lemmas key_defs = GetTeamPrefix_def getSandboxKey_def GetSandboxStorageTeamIndexKey_def getTransitionKey_def getTransitionResultKey_def
  getStorageIndexKey_def getReservationPrefix_def getPendingSetKey_def getResultKey_def globalTeamsSet_def globalExpirationSet_def
  separator_def SameSlot_def sandboxKeyPrefix_def transitionKeyPrefix_def notifySuffix_def sandboxesKey_def indexKey_def
  reservationsKey_def pendingKey_def resultKey_def

subsection \<open>Keys do not collide\<close>

text \<open>The text of a team has no brace and no colon, as the text of a UUID; the text of a sandbox has no colon.\<close>

definition plain_team :: "string \<Rightarrow> bool" where
  "plain_team t \<longleftrightarrow> CHR ''}'' \<notin> set t \<and> CHR '':'' \<notin> set t"

definition plain_id :: "string \<Rightarrow> bool" where
  "plain_id i \<longleftrightarrow> CHR '':'' \<notin> set i"

lemma append_mark_eq:
  assumes "c \<notin> set x" "c \<notin> set y"
  shows "x @ c # xs = y @ c # ys \<longleftrightarrow> x = y \<and> xs = ys"
proof
  assume e: "x @ c # xs = y @ c # ys"
  have t: "takeWhile (\<lambda>d. d \<noteq> c) (z @ c # zs) = z" if "c \<notin> set z" for z zs
    using that by (induction z) auto
  have "x = y" using t[OF assms(1), of xs] t[OF assms(2), of ys] e by simp
  then show "x = y \<and> xs = ys" using e by simp
qed simp

definition team_key :: "string \<Rightarrow> string \<Rightarrow> string" where
  "team_key t rest = ''sandbox:storage:{'' @ t @ CHR ''}'' # rest"

lemma team_key_eq:
  assumes "plain_team t" "plain_team u"
  shows "team_key t xs = team_key u ys \<longleftrightarrow> t = u \<and> xs = ys"
  using assms append_mark_eq[of "CHR ''}''" t u xs ys] by (simp add: team_key_def plain_team_def)

lemma key_forms:
  "getSandboxKey t i = team_key t ('':sandboxes:'' @ i)"
  "GetSandboxStorageTeamIndexKey t = team_key t '':index''"
  "getTransitionKey t i = team_key t ('':transition:'' @ i)"
  "getTransitionResultKey t i x = team_key t ('':transition:'' @ i @ CHR '':'' # x)"
  "getPendingSetKey t = team_key t '':reservations:pending''"
  "getResultKey t i = team_key t ('':reservations:'' @ i @ '':result'')"
  by (simp_all add: key_defs team_key_def)

lemma result_suffix: "i @ '':result'' \<noteq> ''pending''"
proof
  assume "i @ '':result'' = ''pending''"
  then have "last (i @ '':result'') = last ''pending''" by (rule arg_cong)
  then show False by simp
qed

lemma transition_result_eq:
  assumes "plain_id i" "plain_id j"
  shows "i @ CHR '':'' # x = j @ CHR '':'' # y \<longleftrightarrow> i = j \<and> x = y" "i @ CHR '':'' # x \<noteq> j"
  using assms append_mark_eq[of "CHR '':''" i j x y] by (auto simp: plain_id_def)

lemma keys_differ [simp]:
  assumes "plain_team t" "plain_team u"
  shows "getSandboxKey t i = getSandboxKey u j \<longleftrightarrow> t = u \<and> i = j"
    "GetSandboxStorageTeamIndexKey t = GetSandboxStorageTeamIndexKey u \<longleftrightarrow> t = u"
    "getTransitionKey t i = getTransitionKey u j \<longleftrightarrow> t = u \<and> i = j"
    "getPendingSetKey t = getPendingSetKey u \<longleftrightarrow> t = u"
    "getResultKey t i = getResultKey u j \<longleftrightarrow> t = u \<and> i = j"
    "getSandboxKey t i \<noteq> GetSandboxStorageTeamIndexKey u" "GetSandboxStorageTeamIndexKey u \<noteq> getSandboxKey t i"
    "getSandboxKey t i \<noteq> getTransitionKey u j" "getTransitionKey u j \<noteq> getSandboxKey t i"
    "getSandboxKey t i \<noteq> getTransitionResultKey u j x" "getTransitionResultKey u j x \<noteq> getSandboxKey t i"
    "getSandboxKey t i \<noteq> getPendingSetKey u" "getPendingSetKey u \<noteq> getSandboxKey t i"
    "getSandboxKey t i \<noteq> getResultKey u j" "getResultKey u j \<noteq> getSandboxKey t i"
    "GetSandboxStorageTeamIndexKey t \<noteq> getTransitionKey u j" "getTransitionKey u j \<noteq> GetSandboxStorageTeamIndexKey t"
    "GetSandboxStorageTeamIndexKey t \<noteq> getTransitionResultKey u j x" "getTransitionResultKey u j x \<noteq> GetSandboxStorageTeamIndexKey t"
    "GetSandboxStorageTeamIndexKey t \<noteq> getPendingSetKey u" "getPendingSetKey u \<noteq> GetSandboxStorageTeamIndexKey t"
    "GetSandboxStorageTeamIndexKey t \<noteq> getResultKey u j" "getResultKey u j \<noteq> GetSandboxStorageTeamIndexKey t"
    "getPendingSetKey t \<noteq> getResultKey u j" "getResultKey u j \<noteq> getPendingSetKey t"
  using assms result_suffix by (simp_all add: key_forms team_key_eq)

lemma global_keys_differ [simp]:
  "globalTeamsSet \<noteq> globalExpirationSet" "globalExpirationSet \<noteq> globalTeamsSet"
  "getSandboxKey t i \<noteq> globalTeamsSet" "getSandboxKey t i \<noteq> globalExpirationSet"
  "GetSandboxStorageTeamIndexKey t \<noteq> globalTeamsSet" "GetSandboxStorageTeamIndexKey t \<noteq> globalExpirationSet"
  "getTransitionKey t i \<noteq> globalTeamsSet" "getTransitionKey t i \<noteq> globalExpirationSet"
  "getTransitionResultKey t i x \<noteq> globalTeamsSet" "getTransitionResultKey t i x \<noteq> globalExpirationSet"
  by (simp_all add: key_defs)

lemma transition_keys_differ:
  assumes "plain_team t" "plain_team u" "plain_id i" "plain_id j"
  shows "getTransitionResultKey t i x = getTransitionResultKey u j y \<longleftrightarrow> t = u \<and> i = j \<and> x = y"
    "getTransitionResultKey t i x \<noteq> getTransitionKey u j" "getTransitionKey u j \<noteq> getTransitionResultKey t i x"
  using assms transition_result_eq[OF assms(3,4), of x] by (auto simp: key_forms team_key_eq)

lemma lock_keys_differ [simp]:
  "GetLockKey k = GetLockKey l \<longleftrightarrow> k = l"
  "GetLockKey k \<noteq> getSandboxKey t i" "getSandboxKey t i \<noteq> GetLockKey k"
  "GetLockKey k \<noteq> GetSandboxStorageTeamIndexKey t" "GetSandboxStorageTeamIndexKey t \<noteq> GetLockKey k"
  "GetLockKey k \<noteq> getTransitionKey t i" "getTransitionKey t i \<noteq> GetLockKey k"
  "GetLockKey k \<noteq> getTransitionResultKey t i x" "getTransitionResultKey t i x \<noteq> GetLockKey k"
  "GetLockKey k \<noteq> getPendingSetKey t" "getPendingSetKey t \<noteq> GetLockKey k"
  "GetLockKey k \<noteq> getResultKey t i" "getResultKey t i \<noteq> GetLockKey k"
  "GetLockKey k \<noteq> globalTeamsSet" "globalTeamsSet \<noteq> GetLockKey k"
  "GetLockKey k \<noteq> globalExpirationSet" "globalExpirationSet \<noteq> GetLockKey k"
  by (simp_all add: GetLockKey_def lockKeyPrefix_def key_defs)

lemma reservation_keys_differ [simp]:
  assumes "plain_team t" "plain_team u"
  shows "getTransitionKey t i \<noteq> getPendingSetKey u" "getPendingSetKey u \<noteq> getTransitionKey t i"
    "getTransitionKey t i \<noteq> getResultKey u j" "getResultKey u j \<noteq> getTransitionKey t i"
  using assms by (simp_all add: key_forms team_key_eq)

lemma parse_member: "plain_team t \<Longrightarrow> parseExpirationMember (expirationMember t i) = Some (t, i)"
proof -
  assume "plain_team t"
  then have t: "\<And>c. c \<in> set t \<Longrightarrow> c \<noteq> CHR '':''" by (auto simp: plain_team_def)
  have "takeWhile (\<lambda>c. c \<noteq> CHR '':'') (t @ CHR '':'' # i) = t" "dropWhile (\<lambda>c. c \<noteq> CHR '':'') (t @ CHR '':'' # i) = CHR '':'' # i"
    using t by (simp_all add: takeWhile_append2 dropWhile_append2)
  then show ?thesis by (simp add: parseExpirationMember_def expirationMember_def separator_def)
qed

lemma member_eq:
  assumes "plain_team t" "plain_team u"
  shows "expirationMember t i = expirationMember u j \<longleftrightarrow> t = u \<and> i = j"
proof
  assume "expirationMember t i = expirationMember u j"
  then have "parseExpirationMember (expirationMember t i) = parseExpirationMember (expirationMember u j)" by (rule arg_cong)
  then show "t = u \<and> i = j" unfolding parse_member[OF assms(1)] parse_member[OF assms(2)] by simp
qed simp

subsection \<open>The server\<close>

record 'r redis_ops =
  rd_Get :: "'r \<Rightarrow> string \<Rightarrow> string option"
  rd_Set :: "'r \<Rightarrow> string \<Rightarrow> string \<Rightarrow> 'r"
  rd_Del :: "'r \<Rightarrow> string \<Rightarrow> 'r"
  rd_SMembers :: "'r \<Rightarrow> string \<Rightarrow> string list"
  rd_SAdd :: "'r \<Rightarrow> string \<Rightarrow> string \<Rightarrow> 'r"
  rd_SRem :: "'r \<Rightarrow> string \<Rightarrow> string \<Rightarrow> 'r"
  rd_ZRange :: "'r \<Rightarrow> string \<Rightarrow> (string \<times> int) list"
  rd_ZAdd :: "'r \<Rightarrow> string \<Rightarrow> int \<Rightarrow> string \<Rightarrow> 'r"
  rd_ZRem :: "'r \<Rightarrow> string \<Rightarrow> string \<Rightarrow> 'r"

text \<open>
  Every command changes the value of one key.  What a command does to a key that holds a value of another type is
  left open; the program never does it.
\<close>

locale redis =
  fixes rd :: "'r redis_ops"
  assumes Get_Set: "rd_Get rd (rd_Set rd r k v) k' = (if k' = k then Some v else rd_Get rd r k')"
    and Get_Del: "rd_Get rd (rd_Del rd r k) k' = (if k' = k then None else rd_Get rd r k')"
    and Get_other: "k' \<noteq> k \<Longrightarrow> rd_Get rd (rd_SAdd rd r k x) k' = rd_Get rd r k'"
      "k' \<noteq> k \<Longrightarrow> rd_Get rd (rd_SRem rd r k x) k' = rd_Get rd r k'"
      "k' \<noteq> k \<Longrightarrow> rd_Get rd (rd_ZAdd rd r k n x) k' = rd_Get rd r k'"
      "k' \<noteq> k \<Longrightarrow> rd_Get rd (rd_ZRem rd r k x) k' = rd_Get rd r k'"
    and SMembers_SAdd: "set (rd_SMembers rd (rd_SAdd rd r k x) k) = insert x (set (rd_SMembers rd r k))"
    and SMembers_SRem: "set (rd_SMembers rd (rd_SRem rd r k x) k) = set (rd_SMembers rd r k) - {x}"
    and distinct_SMembers: "distinct (rd_SMembers rd r k)"
    and SMembers_other: "k' \<noteq> k \<Longrightarrow> rd_SMembers rd (rd_SAdd rd r k x) k' = rd_SMembers rd r k'"
      "k' \<noteq> k \<Longrightarrow> rd_SMembers rd (rd_SRem rd r k x) k' = rd_SMembers rd r k'"
      "k' \<noteq> k \<Longrightarrow> rd_SMembers rd (rd_Set rd r k v) k' = rd_SMembers rd r k'"
      "k' \<noteq> k \<Longrightarrow> rd_SMembers rd (rd_Del rd r k) k' = rd_SMembers rd r k'"
      "k' \<noteq> k \<Longrightarrow> rd_SMembers rd (rd_ZAdd rd r k n x) k' = rd_SMembers rd r k'"
      "k' \<noteq> k \<Longrightarrow> rd_SMembers rd (rd_ZRem rd r k x) k' = rd_SMembers rd r k'"
    and ZRange_ZAdd: "map_of (rd_ZRange rd (rd_ZAdd rd r k n x) k) = (map_of (rd_ZRange rd r k))(x \<mapsto> n)"
    and ZRange_ZRem: "map_of (rd_ZRange rd (rd_ZRem rd r k x) k) = (map_of (rd_ZRange rd r k))(x := None)"
    and distinct_ZRange: "distinct (map fst (rd_ZRange rd r k))"
    and sorted_ZRange: "sorted (map snd (rd_ZRange rd r k))"
    and ZRange_other: "k' \<noteq> k \<Longrightarrow> rd_ZRange rd (rd_SAdd rd r k x) k' = rd_ZRange rd r k'"
      "k' \<noteq> k \<Longrightarrow> rd_ZRange rd (rd_SRem rd r k x) k' = rd_ZRange rd r k'"
      "k' \<noteq> k \<Longrightarrow> rd_ZRange rd (rd_Set rd r k v) k' = rd_ZRange rd r k'"
      "k' \<noteq> k \<Longrightarrow> rd_ZRange rd (rd_Del rd r k) k' = rd_ZRange rd r k'"
      "k' \<noteq> k \<Longrightarrow> rd_ZRange rd (rd_ZAdd rd r k n x) k' = rd_ZRange rd r k'"
      "k' \<noteq> k \<Longrightarrow> rd_ZRange rd (rd_ZRem rd r k x) k' = rd_ZRange rd r k'"
begin

lemmas reads = Get_Set Get_Del Get_other SMembers_SAdd SMembers_SRem SMembers_other ZRange_ZAdd ZRange_ZRem ZRange_other

end

subsection \<open>The commands that the documentation describes by others\<close>

definition rd_SIsMember :: "'r redis_ops \<Rightarrow> 'r \<Rightarrow> string \<Rightarrow> string \<Rightarrow> bool" where
  "rd_SIsMember rd r k x \<longleftrightarrow> x \<in> set (rd_SMembers rd r k)"

definition rd_SCard :: "'r redis_ops \<Rightarrow> 'r \<Rightarrow> string \<Rightarrow> int" where
  "rd_SCard rd r k = int (length (rd_SMembers rd r k))"

definition rd_ZScore :: "'r redis_ops \<Rightarrow> 'r \<Rightarrow> string \<Rightarrow> string \<Rightarrow> int option" where
  "rd_ZScore rd r k x = map_of (rd_ZRange rd r k) x"

definition rd_ZCard :: "'r redis_ops \<Rightarrow> 'r \<Rightarrow> string \<Rightarrow> int" where
  "rd_ZCard rd r k = int (length (rd_ZRange rd r k))"

text \<open>Members with a score up to a bound: all of them, or the first ones; their removal.\<close>

definition rd_ZRangeByScore :: "'r redis_ops \<Rightarrow> 'r \<Rightarrow> string \<Rightarrow> int \<Rightarrow> string list" where
  "rd_ZRangeByScore rd r k m = map fst (filter (\<lambda>(x, n). n \<le> m) (rd_ZRange rd r k))"

definition rd_ZRemRangeByScore :: "'r redis_ops \<Rightarrow> 'r \<Rightarrow> string \<Rightarrow> int \<Rightarrow> 'r" where
  "rd_ZRemRangeByScore rd r k m = fold (\<lambda>x r. rd_ZRem rd r k x) (rd_ZRangeByScore rd r k m) r"

definition rd_MGet :: "'r redis_ops \<Rightarrow> 'r \<Rightarrow> string list \<Rightarrow> string option list" where
  "rd_MGet rd r ks = map (rd_Get rd r) ks"

context redis
begin

lemma fold_ZRem:
  "map_of (rd_ZRange rd (fold (\<lambda>x r. rd_ZRem rd r k x) xs r) k) x = (if x \<in> set xs then None else map_of (rd_ZRange rd r k) x)"
  by (induction xs arbitrary: r) (auto simp: ZRange_ZRem)

lemma fold_ZRem_other:
  "k' \<noteq> k \<Longrightarrow> rd_Get rd (fold (\<lambda>x r. rd_ZRem rd r k x) xs r) k' = rd_Get rd r k'"
  "k' \<noteq> k \<Longrightarrow> rd_SMembers rd (fold (\<lambda>x r. rd_ZRem rd r k x) xs r) k' = rd_SMembers rd r k'"
  "k' \<noteq> k \<Longrightarrow> rd_ZRange rd (fold (\<lambda>x r. rd_ZRem rd r k x) xs r) k' = rd_ZRange rd r k'"
  by (induction xs arbitrary: r) (simp_all add: reads)

lemma ZScore_some: "rd_ZScore rd r k x = Some n \<longleftrightarrow> (x, n) \<in> set (rd_ZRange rd r k)"
  using distinct_ZRange by (simp add: rd_ZScore_def)

lemma ZRemRange_score:
  "rd_ZScore rd (rd_ZRemRangeByScore rd r k m) k x =
     (case rd_ZScore rd r k x of Some n \<Rightarrow> if n \<le> m then None else Some n | None \<Rightarrow> None)"
proof -
  have "x \<in> set (rd_ZRangeByScore rd r k m) \<longleftrightarrow> (\<exists>n. rd_ZScore rd r k x = Some n \<and> n \<le> m)"
    unfolding ZScore_some by (force simp: rd_ZRangeByScore_def)
  then show ?thesis
    by (auto simp: rd_ZRemRangeByScore_def rd_ZScore_def fold_ZRem split: option.splits)
qed

lemma ZCard_scores: "rd_ZCard rd r k = int (card {x. rd_ZScore rd r k x \<noteq> None})"
proof -
  have "{x. rd_ZScore rd r k x \<noteq> None} = set (map fst (rd_ZRange rd r k))"
    by (simp add: rd_ZScore_def map_of_eq_None_iff)
  then show ?thesis using distinct_card[OF distinct_ZRange, of r k] by (simp add: rd_ZCard_def)
qed

lemma SCard_members: "rd_SCard rd r k = int (card (set (rd_SMembers rd r k)))"
  using distinct_card[OF distinct_SMembers, of r k] by (simp add: rd_SCard_def)

end

subsection \<open>Locks\<close>

text \<open>
  \<^verbatim>\<open>redislock\<close>, as its documentation describes it: one try of \<^verbatim>\<open>Obtain\<close> sets the key to the token of the call if there is
  no such key; \<^verbatim>\<open>Release\<close> deletes the key if it still has that token.
\<close>

locale redislock = redis rd for rd :: "'r redis_ops" +
  fixes try_lock :: "'r \<Rightarrow> string \<Rightarrow> string \<Rightarrow> 'r option" and unlock :: "'r \<Rightarrow> string \<Rightarrow> string \<Rightarrow> 'r"
  assumes try_lock: "try_lock r k token = (if rd_Get rd r k = None then Some (rd_Set rd r k token) else None)"
    and unlock: "unlock r k token = (if rd_Get rd r k = Some token then rd_Del rd r k else r)"

subsection \<open>A server of lists\<close>

record list_redis =
  lrStrings :: "(string \<times> string) list"
  lrSets :: "string \<Rightarrow> string list"
  lrZSets :: "string \<Rightarrow> (string \<times> int) list"

definition lr_empty :: list_redis where
  "lr_empty = \<lparr>lrStrings = [], lrSets = (\<lambda>_. []), lrZSets = (\<lambda>_. [])\<rparr>"

text \<open>Sets are kept without repetition and sorted sets in the order of their scores.\<close>

definition lr_ops :: "list_redis redis_ops" where
  "lr_ops = \<lparr>rd_Get = (\<lambda>r k. map_of (lrStrings r) k),
     rd_Set = (\<lambda>r k v. r\<lparr>lrStrings := AList.update k v (lrStrings r)\<rparr>),
     rd_Del = (\<lambda>r k. r\<lparr>lrStrings := AList.delete k (lrStrings r)\<rparr>),
     rd_SMembers = (\<lambda>r k. remdups (lrSets r k)),
     rd_SAdd = (\<lambda>r k x. r\<lparr>lrSets := (lrSets r)(k := x # lrSets r k)\<rparr>),
     rd_SRem = (\<lambda>r k x. r\<lparr>lrSets := (lrSets r)(k := filter (\<lambda>y. y \<noteq> x) (lrSets r k))\<rparr>),
     rd_ZRange = (\<lambda>r k. sort_key snd (AList.clearjunk (lrZSets r k))),
     rd_ZAdd = (\<lambda>r k n x. r\<lparr>lrZSets := (lrZSets r)(k := (x, n) # lrZSets r k)\<rparr>),
     rd_ZRem = (\<lambda>r k x. r\<lparr>lrZSets := (lrZSets r)(k := AList.delete x (lrZSets r k))\<rparr>)\<rparr>"

lemma map_of_sort_key:
  assumes "distinct (map fst xs)"
  shows "map_of (sort_key f xs) = map_of xs"
proof -
  have "distinct (map fst (sort_key f xs))"
    using assms by (metis distinct_map distinct_sort set_sort)
  then show ?thesis using assms by (intro map_of_inject_set[THEN iffD2]) simp_all
qed

lemma lr_zset: "map_of (sort_key snd (AList.clearjunk xs)) = map_of xs"
  by (simp add: map_of_sort_key distinct_clearjunk map_of_clearjunk)

lemma lr_ZRange: "map_of (rd_ZRange lr_ops r k) = map_of (lrZSets r k)"
  by (simp add: lr_ops_def lr_zset)

interpretation list_redis: redis lr_ops
proof
  fix r k
  show "distinct (map fst (rd_ZRange lr_ops r k))"
    by (simp add: lr_ops_def) (metis distinct_clearjunk distinct_map distinct_sort set_sort)
  show "map_of (rd_ZRange lr_ops (rd_ZAdd lr_ops r k n x) k) = (map_of (rd_ZRange lr_ops r k))(x \<mapsto> n)"
    "map_of (rd_ZRange lr_ops (rd_ZRem lr_ops r k x) k) = (map_of (rd_ZRange lr_ops r k))(x := None)" for n x
    unfolding lr_ZRange by (simp_all add: lr_ops_def delete_conv')
qed (auto simp: lr_ops_def update_conv' delete_conv')

definition lr_try_lock :: "list_redis \<Rightarrow> string \<Rightarrow> string \<Rightarrow> list_redis option" where
  "lr_try_lock r k token = (if map_of (lrStrings r) k = None then Some (r\<lparr>lrStrings := AList.update k token (lrStrings r)\<rparr>) else None)"

definition lr_unlock :: "list_redis \<Rightarrow> string \<Rightarrow> string \<Rightarrow> list_redis" where
  "lr_unlock r k token = (if map_of (lrStrings r) k = Some token then r\<lparr>lrStrings := AList.delete k (lrStrings r)\<rparr> else r)"

interpretation list_redislock: redislock lr_ops lr_try_lock lr_unlock
  by unfold_locales (simp_all add: lr_ops_def lr_try_lock_def lr_unlock_def)

end
