(* ===== verification/Redis_Prog.thy ===== *)
theory Redis_Prog
  imports Redis_Client
begin

text \<open>
  Operations that talk to Redis, as programs of atomic commands, and their interleaving.

  \<open>Cmd g f\<close> waits for \<open>g\<close> and then does one command: \<open>f\<close> gets the outcome, \<open>None\<close> or an error together with whether the
  server carried the command out nevertheless, and gives the new state and the rest of the program.  \<open>prog_step\<close> lets
  one of many programs do its next command; \<open>env\<close> is what happens by itself, such as the expiry of a key.  Invariants
  of such systems are proved by rely and guarantee (\<open>rg\<close>): what a program relies on at each of its points is stable
  under the commands of the others.
\<close>

subsection \<open>Programs\<close>

datatype ('s, 'e, 'a) prog =
    Done 'a
  | Cmd "'s \<Rightarrow> bool" "('e \<times> bool) option \<Rightarrow> 's \<Rightarrow> 's \<times> ('s, 'e, 'a) prog"

primrec prog_bind :: "('s, 'e, 'a) prog \<Rightarrow> ('a \<Rightarrow> ('s, 'e, 'b) prog) \<Rightarrow> ('s, 'e, 'b) prog" where
  "prog_bind (Done a) k = k a"
| "prog_bind (Cmd g f) k = Cmd g (\<lambda>oc s. map_prod id (\<lambda>p. prog_bind p k) (f oc s))"

text \<open>A command with its answer and its effect; \<open>w'\<close> is what a failure without effect on the server means otherwise.\<close>

definition prog_attempt :: "('s \<Rightarrow> 'a \<times> 's) \<Rightarrow> ('s \<Rightarrow> 's) \<Rightarrow> ('s, 'e, 'e + 'a) prog" where
  "prog_attempt w w' = Cmd (\<lambda>_. True) (\<lambda>oc s. case oc of
       None \<Rightarrow> (snd (w s), Done (Inr (fst (w s))))
     | Some (e, did) \<Rightarrow> (if did then snd (w s) else w' s, Done (Inl e)))"

definition prog_script :: "('s \<Rightarrow> 'a \<times> 's) \<Rightarrow> ('s, 'e, 'e + 'a) prog" where
  "prog_script w = prog_attempt w (\<lambda>s. s)"

text \<open>A command that waits; the wait can fail.  \<open>w'\<close> is its effect when the server did it and the answer was lost.\<close>

definition prog_await :: "('s \<Rightarrow> bool) \<Rightarrow> ('s \<Rightarrow> 's) \<Rightarrow> ('s \<Rightarrow> 's) \<Rightarrow> ('s, 'e, 'e + unit) prog" where
  "prog_await g w w' = Cmd g (\<lambda>oc s. case oc of
       None \<Rightarrow> (w s, Done (Inr ()))
     | Some (e, did) \<Rightarrow> (if did then w' s else s, Done (Inl e)))"

text \<open>A step inside the process, which cannot fail.\<close>

definition prog_local :: "('s \<Rightarrow> 'a \<times> 's) \<Rightarrow> ('s, 'e, 'a) prog" where
  "prog_local w = Cmd (\<lambda>_. True) (\<lambda>_ s. (snd (w s), Done (fst (w s))))"

text \<open>Continue after success; an error ends the program with a value.\<close>

definition prog_try :: "('s, 'e, 'e + 'a) prog \<Rightarrow> ('e \<Rightarrow> ('s, 'e, 'b) prog) \<Rightarrow> ('a \<Rightarrow> ('s, 'e, 'b) prog) \<Rightarrow> ('s, 'e, 'b) prog" where
  "prog_try p h k = prog_bind p (\<lambda>x. case x of Inl e \<Rightarrow> h e | Inr a \<Rightarrow> k a)"

subsection \<open>Runs\<close>

inductive prog_step ::
  "('s \<Rightarrow> 's \<Rightarrow> bool) \<Rightarrow> 's \<times> ('s, 'e, 'a) prog list \<Rightarrow> 's \<times> ('s, 'e, 'a) prog list \<Rightarrow> bool" for env where
  command: "i < length ps \<Longrightarrow> ps ! i = Cmd g f \<Longrightarrow> g s \<or> (\<exists>e. oc = Some (e, False)) \<Longrightarrow> f oc s = (s', p) \<Longrightarrow>
    prog_step env (s, ps) (s', ps[i := p])"
| environment: "env s s' \<Longrightarrow> prog_step env (s, ps) (s', ps)"

text \<open>A schedule names the program of each step and the outcome of its command; a step that has to wait does nothing.\<close>

fun prog_turn :: "nat \<times> ('e \<times> bool) option \<Rightarrow> 's \<times> ('s, 'e, 'a) prog list \<Rightarrow> 's \<times> ('s, 'e, 'a) prog list" where
  "prog_turn (i, oc) (s, ps) =
     (if i < length ps
      then (case ps ! i of
              Done a \<Rightarrow> (s, ps)
            | Cmd g f \<Rightarrow> if g s then (let (s', p) = f oc s in (s', ps[i := p])) else (s, ps))
      else (s, ps))"

lemma prog_turn_step: "prog_turn t c = c \<or> prog_step env c (prog_turn t c)"
proof -
  obtain i oc s ps where c: "t = (i, oc)" "c = (s, ps)" by (cases t; cases c)
  show ?thesis
  proof (cases "ps ! i")
    case (Cmd g f)
    then show ?thesis by (cases "f oc s") (auto simp: c intro: prog_step.command)
  qed (simp add: c)
qed

lemma prog_turns_run: "(prog_step env)\<^sup>*\<^sup>* c (fold prog_turn ts c)"
proof (induction ts arbitrary: c)
  case (Cons t ts)
  have "(prog_step env)\<^sup>*\<^sup>* c (prog_turn t c)" using prog_turn_step[of t c env] by (metis r_into_rtranclp rtranclp.rtrancl_refl)
  then show ?case using Cons.IH[of "prog_turn t c"] by simp
qed simp

subsection \<open>Rely and guarantee\<close>

definition stable :: "('s \<Rightarrow> 's \<Rightarrow> bool) \<Rightarrow> ('s \<Rightarrow> bool) \<Rightarrow> bool" where
  "stable R P \<longleftrightarrow> (\<forall>s s'. P s \<longrightarrow> R s s' \<longrightarrow> P s')"

text \<open>\<open>rg R G Q P p\<close>: from a state with \<open>P\<close>, while the others do steps in \<open>R\<close>, every command of \<open>p\<close> is a step in \<open>G\<close>, and a result \<open>a\<close> comes with \<open>Q a\<close>.\<close>

inductive rg :: "('s \<Rightarrow> 's \<Rightarrow> bool) \<Rightarrow> ('s \<Rightarrow> 's \<Rightarrow> bool) \<Rightarrow> ('a \<Rightarrow> 's \<Rightarrow> bool) \<Rightarrow> ('s \<Rightarrow> bool) \<Rightarrow> ('s, 'e, 'a) prog \<Rightarrow> bool"
  for R G and Q :: "'a \<Rightarrow> 's \<Rightarrow> bool" where
  rg_Done: "stable R P \<Longrightarrow> (\<And>s. P s \<Longrightarrow> Q a s) \<Longrightarrow> rg R G Q P (Done a)"
| rg_Cmd: "stable R P \<Longrightarrow>
    (\<And>oc s. P s \<Longrightarrow> g s \<or> (\<exists>e. oc = Some (e, False)) \<Longrightarrow> G s (fst (f oc s)) \<and> (\<exists>P'. P' (fst (f oc s)) \<and> rg R G Q P' (snd (f oc s)))) \<Longrightarrow>
    rg R G Q P (Cmd g f)"

lemma rg_stable: "rg R G Q P p \<Longrightarrow> stable R P"
  by (induction rule: rg.induct)

inductive_cases rg_CmdE: "rg R G Q P (Cmd g f)"

lemma rg_weaken: "rg R G Q P p \<Longrightarrow> (\<And>s. P' s \<Longrightarrow> P s) \<Longrightarrow> stable R P' \<Longrightarrow> rg R G Q P' p"
proof (induction arbitrary: P' rule: rg.induct)
  case (rg_Cmd P g f)
  show ?case
  proof (rule rg.rg_Cmd[OF rg_Cmd.prems(2)], goal_cases)
    case (1 oc s)
    then show ?case using rg_Cmd.prems(1) rg_Cmd.IH by blast
  qed
qed (auto intro: rg.rg_Done)

lemma rg_False: "rg R G Q (\<lambda>_. False) p"
  by (cases p) (auto intro: rg.intros simp: stable_def)

lemma rg_bind:
  assumes "rg R G Q P p" "\<And>a. rg R G Q' (Q a) (k a)"
  shows "rg R G Q' P (prog_bind p k)"
  using assms(1)
proof induction
  case (rg_Done P a)
  then show ?case using rg_weaken[OF assms(2)[of a]] by simp
next
  case (rg_Cmd P g f)
  show ?case unfolding prog_bind.simps
  proof (rule rg.rg_Cmd[OF rg_Cmd.hyps(1)], goal_cases)
    case (1 oc s)
    obtain P' where "G s (fst (f oc s))" "P' (fst (f oc s))" "rg R G Q' P' (prog_bind (snd (f oc s)) k)"
      using rg_Cmd.IH[OF 1] by blast
    then show ?case by auto
  qed
qed

lemma rg_try:
  assumes "rg R G Q P p" "\<And>e. rg R G Q' (Q (Inl e)) (h e)" "\<And>a. rg R G Q' (Q (Inr a)) (k a)"
  shows "rg R G Q' P (prog_try p h k)"
  unfolding prog_try_def by (rule rg_bind[OF assms(1)]) (use assms(2,3) in \<open>auto split: sum.splits\<close>)

text \<open>The rules for the commands: a failed command may have been carried out.\<close>

lemma rg_result: "stable R (Q x) \<Longrightarrow> Q x s \<Longrightarrow> \<exists>P. P s \<and> rg R G Q P (Done x)"
  by (rule exI[of _ "Q x"]) (simp add: rg.rg_Done)

lemma rg_attempt:
  assumes "stable R P" "\<And>x. stable R (Q x)" "\<And>s. P s \<Longrightarrow> G s (w' s) \<and> G s (snd (w s))"
    and "\<And>s. P s \<Longrightarrow> Q (Inr (fst (w s))) (snd (w s))" "\<And>e s. P s \<Longrightarrow> Q (Inl e) (w' s) \<and> Q (Inl e) (snd (w s))"
  shows "rg R G Q P (prog_attempt w w')"
  unfolding prog_attempt_def
proof (rule rg.rg_Cmd[OF assms(1)], goal_cases)
  case (1 oc s)
  note 1 = 1(1)
  show ?case
  proof (cases oc)
    case None
    show ?thesis using assms(3)[OF 1] rg_result[where Q = Q and G = G, OF assms(2) assms(4)[OF 1]] by (simp add: None)
  next
    case (Some x)
    obtain e did where x: "x = (e, did)" by (cases x)
    have q: "Q (Inl e) (w' s)" "Q (Inl e) (snd (w s))" using assms(5)[OF 1] by simp_all
    show ?thesis using assms(3)[OF 1]
      by (simp add: Some x rg_result[where Q = Q, OF assms(2) q(1)] rg_result[where Q = Q, OF assms(2) q(2)])
  qed
qed

lemma rg_script:
  assumes "stable R P" "\<And>x. stable R (Q x)" "\<And>s. P s \<Longrightarrow> G s s \<and> G s (snd (w s))"
    and "\<And>s. P s \<Longrightarrow> Q (Inr (fst (w s))) (snd (w s))" "\<And>e s. P s \<Longrightarrow> Q (Inl e) s \<and> Q (Inl e) (snd (w s))"
  shows "rg R G Q P (prog_script w)"
  unfolding prog_script_def using assms by (rule rg_attempt)

lemma rg_await:
  assumes "stable R P" "\<And>x. stable R (Q x)" "\<And>s. P s \<Longrightarrow> G s s \<and> (\<forall>e. Q (Inl e) s)"
    and "\<And>s. P s \<Longrightarrow> g s \<Longrightarrow> G s (w s) \<and> Q (Inr ()) (w s)" "\<And>s e. P s \<Longrightarrow> g s \<Longrightarrow> G s (w' s) \<and> Q (Inl e) (w' s)"
  shows "rg R G Q P (prog_await g w w')"
  unfolding prog_await_def
proof (rule rg.rg_Cmd[OF assms(1)], goal_cases)
  case (1 oc s)
  show ?case
  proof (cases oc)
    case None
    then have g: "g s" using 1 by simp
    show ?thesis using assms(4)[OF 1(1) g] rg_result[where Q = Q and G = G and x = "Inr ()" and s = "w s", OF assms(2)] by (simp add: None)
  next
    case (Some x)
    obtain e did where x: "x = (e, did)" by (cases x)
    have q: "Q (Inl e) s" "G s s" using assms(3)[OF 1(1)] by simp_all
    have q': "Q (Inl e) (w' s)" "G s (w' s)" if did using assms(5)[OF 1(1), of e] 1(2) that by (simp_all add: Some x)
    show ?thesis using q(2) q'(2) by (simp add: Some x rg_result[where Q = Q, OF assms(2) q(1)] rg_result[where Q = Q, OF assms(2) q'(1)])
  qed
qed

lemma rg_local:
  assumes "stable R P" "\<And>x. stable R (Q x)" "\<And>s. P s \<Longrightarrow> G s (snd (w s)) \<and> Q (fst (w s)) (snd (w s))"
  shows "rg R G Q P (prog_local w)"
  unfolding prog_local_def
proof (rule rg.rg_Cmd[OF assms(1)], goal_cases)
  case (1 oc s)
  show ?case using assms(3)[OF 1(1)] rg_result[where Q = Q and G = G and x = "fst (w s)" and s = "snd (w s)", OF assms(2)] by simp
qed

subsection \<open>Composition\<close>

text \<open>Programs whose guarantees the others rely on: every step is one of the guarantees, or of the environment.\<close>

definition pool_ok :: "(nat \<Rightarrow> 's \<Rightarrow> 's \<Rightarrow> bool) \<Rightarrow> (nat \<Rightarrow> 's \<Rightarrow> 's \<Rightarrow> bool) \<Rightarrow> 's \<times> ('s, 'e, 'a) prog list \<Rightarrow> bool" where
  "pool_ok R G c \<longleftrightarrow> (\<forall>i<length (snd c). \<exists>P Q. P (fst c) \<and> rg (R i) (G i) Q P (snd c ! i))"

lemma pool_step:
  assumes ok: "pool_ok R G c" and st: "prog_step env c c'"
    and rely: "\<And>i j s s'. i \<noteq> j \<Longrightarrow> G j s s' \<Longrightarrow> R i s s'" "\<And>i s s'. env s s' \<Longrightarrow> R i s s'"
  shows "pool_ok R G c' \<and> (env (fst c) (fst c') \<or> (\<exists>i. G i (fst c) (fst c')))"
  using st
proof cases
  case (command i ps g f s oc s' p)
  obtain P Q where P: "P s" "rg (R i) (G i) Q P (Cmd g f)" using ok command unfolding pool_ok_def by auto
  have "G i s (fst (f oc s)) \<and> (\<exists>P'. P' (fst (f oc s)) \<and> rg (R i) (G i) Q P' (snd (f oc s)))"
    using P(2) by (rule rg_CmdE) (use P(1) command(5) in blast)
  then obtain P' where G: "G i s s'" and P': "P' s'" "rg (R i) (G i) Q P' p" using command(6) by auto
  have "\<exists>P Q. P s' \<and> rg (R j) (G j) Q P (ps[i := p] ! j)" if j: "j < length ps" for j
  proof (cases "j = i")
    case True
    then show ?thesis using P' command(3) by auto
  next
    case False
    obtain P Q where Q: "P s" "rg (R j) (G j) Q P (ps ! j)" using ok command(1) j unfolding pool_ok_def by auto
    have "P s'" using rg_stable[OF Q(2)] Q(1) rely(1)[OF False G] by (auto simp: stable_def)
    then show ?thesis using Q(2) False by auto
  qed
  then show ?thesis using G command(1,2) by (auto simp: pool_ok_def)
next
  case (environment s s' ps)
  have "\<exists>P Q. P s' \<and> rg (R j) (G j) Q P (ps ! j)" if j: "j < length ps" for j
  proof -
    obtain P Q where Q: "P s" "rg (R j) (G j) Q P (ps ! j)" using ok environment(1) j unfolding pool_ok_def by auto
    then show ?thesis using rg_stable[OF Q(2)] rely(2)[OF environment(3), of j] by (auto simp: stable_def)
  qed
  then show ?thesis using environment by (auto simp: pool_ok_def)
qed

theorem pool_invariant:
  assumes run: "(prog_step env)\<^sup>*\<^sup>* c c'" and ok: "pool_ok R G c"
    and rely: "\<And>i j s s'. i \<noteq> j \<Longrightarrow> G j s s' \<Longrightarrow> R i s s'" "\<And>i s s'. env s s' \<Longrightarrow> R i s s'"
    and inv: "I (fst c)" "\<And>i s s'. I s \<Longrightarrow> G i s s' \<Longrightarrow> I s'" "\<And>s s'. I s \<Longrightarrow> env s s' \<Longrightarrow> I s'"
  shows "pool_ok R G c' \<and> I (fst c')"
  using run
proof (induction rule: rtranclp_induct)
  case (step x y)
  have "pool_ok R G y \<and> (env (fst x) (fst y) \<or> (\<exists>i. G i (fst x) (fst y)))"
    using pool_step[where R = R and G = G, OF conjunct1[OF step.IH] step.hyps(2)] rely by metis
  then show ?case using step.IH inv(2,3) by blast
qed (simp add: ok inv(1))

end
