(* ===== verification/Redis_Storage.thy ===== *)
theory Redis_Storage
  imports Redis_Prog Sandbox_Memory
begin

text \<open>
  The storage that API servers share through Redis, \<^verbatim>\<open>packages/api/internal/sandbox/storage/redis\<close>: \<^verbatim>\<open>operations.go\<close>,
  \<^verbatim>\<open>items.go\<close>, \<^verbatim>\<open>main.go\<close> and the first two scripts of \<^verbatim>\<open>scripts.go\<close>.

  Each operation is a program of the commands it sends, in their order; a script is one command.  The state is the server
  with what is known of it: \<open>wLive\<close> are the keys with a time to live whose holder is still at work, which is taken to be
  in time; other keys with a time to live may expire at any moment (\<open>expires\<close>).  \<open>wPublished\<close> are the messages of the
  channel of the transitions and \<open>wLog\<close> the two debug messages that frame a transition.

  \<open>storage_env\<close> has what is not part of the repository: the commands of Redis, the locks, the texts of UUIDs, JSON as two partial
  functions, and which errors come from the context.  Clocks are arguments.
\<close>

datatype transition_event = TransitionStarted string string string | TransitionComplete string string string

record 'r world =
  wServer :: 'r
  wLive :: "string set"
  wPublished :: "string list"
  wLog :: "transition_event list"

datatype 'e redis_error = CommandFailed 'e | MarshalFailed | UnmarshalFailed | TransitionFailed string

type_synonym ('r, 'e, 'a) rprog = "('r world, 'e, 'a) prog"
type_synonym 'e rerror = "'e redis_error sandbox_error"

record ('r, 'e) storage_env =
  seOps :: "'r redis_ops"
  seString :: "uuid \<Rightarrow> string"
  seParse :: "string \<Rightarrow> uuid option"
  seMarshal :: "Sandbox \<Rightarrow> string option"
  seUnmarshal :: "string \<Rightarrow> Sandbox option"
  seIsCtx :: "'e \<Rightarrow> bool"
  seTryLock :: "'r \<Rightarrow> string \<Rightarrow> string \<Rightarrow> 'r option"
  seUnlock :: "'r \<Rightarrow> string \<Rightarrow> string \<Rightarrow> 'r"

definition rcmd :: "('r \<Rightarrow> 'a \<times> 'r) \<Rightarrow> ('r, 'e, 'e + 'a) rprog" where
  "rcmd f = prog_script (\<lambda>w. (fst (f (wServer w)), w\<lparr>wServer := snd (f (wServer w))\<rparr>))"

definition rupdate :: "('r \<Rightarrow> 'r) \<Rightarrow> ('r, 'e, 'e + unit) rprog" where
  "rupdate f = rcmd (\<lambda>r. ((), f r))"

definition rquery :: "('r \<Rightarrow> 'a) \<Rightarrow> ('r, 'e, 'e + 'a) rprog" where
  "rquery q = rcmd (\<lambda>r. (q r, r))"

definition redis_failed :: "'e \<Rightarrow> ('r, 'e, ('e rerror, 'a) go) rprog" where
  "redis_failed e = Done (Fail (OtherError (CommandFailed e)))"

subsection \<open>Locks\<close>

text \<open>\<^verbatim>\<open>Obtain\<close> tries again until the lock is free.  With the release, whatever its outcome, the process is done with the key.\<close>

definition lock_Obtain :: "('r, 'e) storage_env \<Rightarrow> string \<Rightarrow> string \<Rightarrow> ('r, 'e, 'e + unit) rprog" where
  "lock_Obtain se key token = prog_await (\<lambda>w. seTryLock se (wServer w) (GetLockKey key) token \<noteq> None)
     (\<lambda>w. w\<lparr>wServer := the (seTryLock se (wServer w) (GetLockKey key) token), wLive := insert (GetLockKey key) (wLive w)\<rparr>)
     (\<lambda>w. w\<lparr>wServer := the (seTryLock se (wServer w) (GetLockKey key) token), wLive := wLive w - {GetLockKey key}\<rparr>)"

definition lock_Release :: "('r, 'e) storage_env \<Rightarrow> string \<Rightarrow> string \<Rightarrow> ('r, 'e, 'e + unit) rprog" where
  "lock_Release se key token = prog_attempt
     (\<lambda>w. ((), w\<lparr>wServer := seUnlock se (wServer w) (GetLockKey key) token, wLive := wLive w - {GetLockKey key}\<rparr>))
     (\<lambda>w. w\<lparr>wLive := wLive w - {GetLockKey key}\<rparr>)"

text \<open>The lock around the rest of a function, released by \<^verbatim>\<open>defer\<close>; an error of the release is only logged.\<close>

definition with_lock :: "('r, 'e) storage_env \<Rightarrow> string \<Rightarrow> string \<Rightarrow> ('e \<Rightarrow> 'a) \<Rightarrow> ('r, 'e, 'a) rprog \<Rightarrow> ('r, 'e, 'a) rprog" where
  "with_lock se key token failed body =
     prog_try (lock_Obtain se key token) (\<lambda>e. Done (failed e)) (\<lambda>_.
     prog_bind body (\<lambda>a.
     prog_bind (lock_Release se key token) (\<lambda>_. Done a)))"

subsection \<open>Storing and removing\<close>

definition UnixMilli :: "time \<Rightarrow> int" where
  "UnixMilli t = t div 1000000"

definition addSandboxScript :: "'r redis_ops \<Rightarrow> string \<Rightarrow> string \<Rightarrow> string \<Rightarrow> string \<Rightarrow> 'r \<Rightarrow> 'r" where
  "addSandboxScript rd key teamKey data sandboxID r = rd_SAdd rd (rd_Set rd r key data) teamKey sandboxID"

definition removeSandboxScript :: "'r redis_ops \<Rightarrow> string \<Rightarrow> string \<Rightarrow> string \<Rightarrow> 'r \<Rightarrow> 'r" where
  "removeSandboxScript rd key teamKey sandboxID r = rd_SRem rd (rd_Del rd r key) teamKey sandboxID"

text \<open>\<open>now\<close> is the clock in seconds, the score of the team.\<close>

definition rs_Add :: "('r, 'e) storage_env \<Rightarrow> int \<Rightarrow> Sandbox \<Rightarrow> ('r, 'e, ('e rerror, unit) go) rprog" where
  "rs_Add se now sbx =
     (case seMarshal se sbx of
        None \<Rightarrow> Done (Fail (OtherError MarshalFailed))
      | Some data \<Rightarrow>
          (let team = seString se (TeamID sbx); key = getSandboxKey team (SandboxID sbx); teamKey = GetSandboxStorageTeamIndexKey team
           in prog_try (rupdate (\<lambda>r. rd_ZAdd (seOps se) r globalExpirationSet (UnixMilli (EndTime sbx)) (expirationMember team (SandboxID sbx))))
                redis_failed (\<lambda>_.
              prog_try (rupdate (addSandboxScript (seOps se) key teamKey data (SandboxID sbx)))
                redis_failed (\<lambda>_.
              prog_try (rupdate (\<lambda>r. rd_ZAdd (seOps se) r globalTeamsSet now team))
                (\<lambda>_. Done (Ok ())) (\<lambda>_.
              Done (Ok ()))))))"

definition rs_Get :: "('r, 'e) storage_env \<Rightarrow> uuid \<Rightarrow> string \<Rightarrow> ('r, 'e, ('e rerror, Sandbox) go) rprog" where
  "rs_Get se teamID sandboxID =
     prog_try (rquery (\<lambda>r. rd_Get (seOps se) r (getSandboxKey (seString se teamID) sandboxID))) redis_failed (\<lambda>data.
     Done (case data of
             None \<Rightarrow> Fail ErrNotFound
           | Some d \<Rightarrow> (case seUnmarshal se d of None \<Rightarrow> Fail (OtherError UnmarshalFailed) | Some sbx \<Rightarrow> Ok sbx)))"

definition rs_Remove :: "('r, 'e) storage_env \<Rightarrow> string \<Rightarrow> uuid \<Rightarrow> string \<Rightarrow> ('r, 'e, ('e rerror, unit) go) rprog" where
  "rs_Remove se token teamID sandboxID =
     (let team = seString se teamID; key = getSandboxKey team sandboxID; teamKey = GetSandboxStorageTeamIndexKey team
      in with_lock se key token (\<lambda>e. Fail (OtherError (CommandFailed e)))
           (prog_try (rupdate (removeSandboxScript (seOps se) key teamKey sandboxID)) redis_failed (\<lambda>_.
            prog_try (rupdate (\<lambda>r. rd_ZRem (seOps se) r globalExpirationSet (expirationMember team sandboxID)))
              (\<lambda>_. Done (Ok ())) (\<lambda>_. Done (Ok ())))))"

definition rs_Update ::
  "('r, 'e) storage_env \<Rightarrow> string \<Rightarrow> uuid \<Rightarrow> string \<Rightarrow> (Sandbox \<Rightarrow> ('e rerror, Sandbox) go) \<Rightarrow> ('r, 'e, ('e rerror, Sandbox) go) rprog" where
  "rs_Update se token teamID sandboxID updateFunc =
     (let key = getSandboxKey (seString se teamID) sandboxID
      in with_lock se key token (\<lambda>e. Fail (OtherError (CommandFailed e)))
           (prog_try (rquery (\<lambda>r. rd_Get (seOps se) r key)) redis_failed (\<lambda>data.
            case data of None \<Rightarrow> Done (Fail ErrNotFound) | Some d \<Rightarrow>
            (case seUnmarshal se d of None \<Rightarrow> Done (Fail (OtherError UnmarshalFailed)) | Some sbx \<Rightarrow>
            (case updateFunc sbx of Fail e \<Rightarrow> Done (Fail e) | Panic \<Rightarrow> Done Panic | Ok updatedSbx \<Rightarrow>
            (case seMarshal se updatedSbx of None \<Rightarrow> Done (Fail (OtherError MarshalFailed)) | Some newData \<Rightarrow>
            prog_try (rupdate (\<lambda>r. rd_Set (seOps se) r key newData)) redis_failed (\<lambda>_.
            if EndTime updatedSbx \<noteq> EndTime sbx
            then prog_try (rupdate (\<lambda>r. rd_ZAdd (seOps se) r globalExpirationSet (UnixMilli (EndTime updatedSbx))
                     (expirationMember (seString se teamID) sandboxID))) redis_failed (\<lambda>_. Done (Ok updatedSbx))
            else Done (Ok updatedSbx))))))))"

subsection \<open>Lists of sandboxes\<close>

definition unmarshalAll :: "('r, 'e) storage_env \<Rightarrow> string option list \<Rightarrow> Sandbox list" where
  "unmarshalAll se results = List.map_filter (\<lambda>raw. Option.bind raw (seUnmarshal se)) results"

definition rs_TeamItems :: "('r, 'e) storage_env \<Rightarrow> uuid \<Rightarrow> State list \<Rightarrow> ('r, 'e, ('e rerror, Sandbox list) go) rprog" where
  "rs_TeamItems se teamID states =
     (let team = seString se teamID
      in prog_try (rquery (\<lambda>r. rd_SMembers (seOps se) r (GetSandboxStorageTeamIndexKey team))) redis_failed (\<lambda>sandboxIDs.
         if sandboxIDs = [] then Done (Ok [])
         else prog_try (rquery (\<lambda>r. rd_MGet (seOps se) r (map (getSandboxKey team) sandboxIDs))) redis_failed (\<lambda>results.
           Done (Ok (filter (\<lambda>sbx. \<not> (length states > 0 \<and> sState sbx \<notin> set states)) (unmarshalAll se results))))))"

text \<open>A pipeline of queries: the commands one after another, and an error if one of them failed.\<close>

primrec rpipeline :: "('r \<Rightarrow> 'a) list \<Rightarrow> ('r, 'e, 'e + 'a list) rprog" where
  "rpipeline [] = Done (Inr [])"
| "rpipeline (q # qs) =
     prog_bind (rquery q) (\<lambda>x. prog_bind (rpipeline qs) (\<lambda>xs.
     Done (case x of Inl e \<Rightarrow> Inl e | Inr a \<Rightarrow> (case xs of Inl e \<Rightarrow> Inl e | Inr as \<Rightarrow> Inr (a # as)))))"

definition staleCutoff :: duration where "staleCutoff = 3600 * time_Second"

text \<open>The members of the index with their teams; \<open>now\<close> is the clock in seconds after the pipeline.\<close>

definition teamEntries :: "('r, 'e) storage_env \<Rightarrow> (string \<times> int) list \<Rightarrow> (uuid \<times> int \<times> string) list" where
  "teamEntries se zmembers =
     List.map_filter (\<lambda>(raw, score). map_option (\<lambda>i. (i, score, raw)) (seParse se raw)) zmembers"

definition rs_TeamsWithSandboxCount :: "('r, 'e) storage_env \<Rightarrow> int \<Rightarrow> ('r, 'e, ('e rerror, uuid \<rightharpoonup> int) go) rprog" where
  "rs_TeamsWithSandboxCount se now =
     prog_try (rquery (\<lambda>r. rd_ZRange (seOps se) r globalTeamsSet)) redis_failed (\<lambda>zmembers.
     let entries = teamEntries se zmembers
     in if entries = [] then Done (Ok Map.empty)
        else prog_try (rpipeline (map (\<lambda>(_, _, raw) r. rd_SCard (seOps se) r (GetSandboxStorageTeamIndexKey raw)) entries)) redis_failed (\<lambda>counts.
          let cutoff = now - staleCutoff div time_Second; counted = zip entries counts;
              teams = fold (\<lambda>((i, _, _), count) teams. if count > 0 then teams(i \<mapsto> count) else teams) counted Map.empty;
              stale = map (\<lambda>((i, _, _), _). seString se i) (filter (\<lambda>((_, score, _), count). \<not> count > 0 \<and> score < cutoff) counted)
          in if stale \<noteq> []
             then prog_try (rupdate (\<lambda>r. fold (\<lambda>x r. rd_ZRem (seOps se) r globalTeamsSet x) stale r))
                    (\<lambda>_. Done (Ok teams)) (\<lambda>_. Done (Ok teams))
             else Done (Ok teams)))"

text \<open>
  Entries grouped by team; the order of the groups is that of the iteration over a Go map, which \<open>order\<close> chooses.
\<close>

definition groupByTeam :: "(string list \<Rightarrow> string list) \<Rightarrow> (string \<times> 'a) list \<Rightarrow> (string \<times> 'a list) list" where
  "groupByTeam order xs = map (\<lambda>team. (team, map snd (filter (\<lambda>(t, _). t = team) xs))) (order (remdups (map fst xs)))"

definition expiredItemsBatchSize :: nat where "expiredItemsBatchSize = 256"

text \<open>The entries of a batch with the answers of the pipeline.\<close>

definition batchAnswers :: "(string \<times> 'a list) list \<Rightarrow> string option list list \<Rightarrow> ('a \<times> string option) list" where
  "batchAnswers groups results = concat (map (\<lambda>((_, xs), raws). zip xs raws) (zip groups results))"

text \<open>\<open>since\<close> is the clock that \<^verbatim>\<open>time.Since\<close> reads.\<close>

definition isEvictable :: "time \<Rightarrow> (Sandbox \<Rightarrow> time) \<Rightarrow> Sandbox \<Rightarrow> bool" where
  "isEvictable now since sbx \<longleftrightarrow>
     IsExpired sbx now \<and> \<not> (sState sbx \<noteq> StateRunning \<and> time_Sub (since sbx) (EndTime sbx) \<le> staleCutoff)"

definition rs_ExpiredItems ::
  "('r, 'e) storage_env \<Rightarrow> (string list \<Rightarrow> string list) \<Rightarrow> time \<Rightarrow> (Sandbox \<Rightarrow> time) \<Rightarrow> ('r, 'e, ('e rerror, Sandbox list) go) rprog" where
  "rs_ExpiredItems se order now since =
     prog_try (rquery (\<lambda>r. take expiredItemsBatchSize (rd_ZRangeByScore (seOps se) r globalExpirationSet (UnixMilli now)))) redis_failed (\<lambda>expired.
     if expired = [] then Done (Ok [])
     else
       let groups = groupByTeam order (List.map_filter (\<lambda>m. map_option (\<lambda>(t, i). (t, i, m)) (parseExpirationMember m)) expired)
       in prog_try (rpipeline (map (\<lambda>(t, xs) r. rd_MGet (seOps se) r (map (\<lambda>(i, _). getSandboxKey t i) xs)) groups)) redis_failed (\<lambda>results.
          let answers = batchAnswers groups results;
              stale = map (\<lambda>((_, m), _). m) (filter (\<lambda>(_, raw). raw = None) answers);
              result = filter (isEvictable now since) (unmarshalAll se (map snd answers))
          in if stale \<noteq> []
             then prog_try (rupdate (\<lambda>r. fold (\<lambda>x r. rd_ZRem (seOps se) r globalExpirationSet x) stale r))
                    (\<lambda>_. Done (Ok result)) (\<lambda>_. Done (Ok result))
             else Done (Ok result)))"

definition orphanGracePeriod :: duration where "orphanGracePeriod = 60 * time_Second"

definition rs_Reconcile ::
  "('r, 'e) storage_env \<Rightarrow> (string list \<Rightarrow> string list) \<Rightarrow> time \<Rightarrow> Sandbox list \<Rightarrow> ('r, 'e, Sandbox list) rprog" where
  "rs_Reconcile se order now sbxs =
     (if sbxs = [] then Done []
      else
        let candidates = map (\<lambda>sbx. (seString se (TeamID sbx), sbx))
              (filter (\<lambda>sbx. \<not> time_Sub now (StartTime sbx) < orphanGracePeriod) sbxs);
            groups = groupByTeam order candidates
        in if candidates = [] then Done []
           else prog_try (rpipeline (map (\<lambda>(t, xs) r. rd_MGet (seOps se) r (map (\<lambda>sbx. getSandboxKey t (SandboxID sbx)) xs)) groups))
                  (\<lambda>_. Done []) (\<lambda>results.
                Done (map fst (filter (\<lambda>(_, raw). raw = None) (batchAnswers groups results)))))"

end
