(* ===== verification/Redis_Transition.thy ===== *)
theory Redis_Transition
  imports Redis_Storage
begin

text \<open>
  Transitions of a sandbox that API servers share through Redis: \<^verbatim>\<open>state_change.go\<close> and \<open>startTransitionScript\<close> of
  \<^verbatim>\<open>packages/api/internal/sandbox/storage/redis\<close>.  An attempt of \<^verbatim>\<open>StartRemoving\<close> has its own clocks, token of its lock and
  transition id; \<open>None\<close> is the result of a caller that has to try more often than the attempts it is given.
\<close>

definition startTransitionScript :: "'r redis_ops \<Rightarrow> string \<Rightarrow> string \<Rightarrow> string \<Rightarrow> string \<Rightarrow> string \<Rightarrow> 'r \<Rightarrow> 'r" where
  "startTransitionScript rd key transitionKey resKey data transitionID r =
     rd_Set rd (rd_Set rd (rd_Set rd r key data) transitionKey transitionID) resKey []"

record attempt =
  atToken :: string
  atEvictNow :: time
  atNow :: time
  atID :: string

datatype rcallback = RNoop | RFinish StateAction string string

type_synonym 'e start_result = "Sandbox option \<times> ('e rerror, bool \<times> rcallback) go"

definition log_event :: "transition_event \<Rightarrow> ('r, 'e, unit) rprog" where
  "log_event ev = prog_local (\<lambda>w. ((), w\<lparr>wLog := wLog w @ [ev]\<rparr>))"

text \<open>The process is done with a key, which stays until it expires.\<close>

definition give_up :: "string \<Rightarrow> ('r, 'e, unit) rprog" where
  "give_up key = prog_local (\<lambda>w. ((), w\<lparr>wLive := wLive w - {key}\<rparr>))"

subsection \<open>Waiting\<close>

definition checkTransitionResult :: "('r, 'e) storage_env \<Rightarrow> string \<Rightarrow> ('r, 'e, ('e rerror, unit) go) rprog" where
  "checkTransitionResult se resKey =
     prog_try (rquery (\<lambda>r. rd_Get (seOps se) r resKey)) redis_failed (\<lambda>result.
     Done (case result of None \<Rightarrow> Ok () | Some v \<Rightarrow> if v \<noteq> [] then Fail (OtherError (TransitionFailed v)) else Ok ()))"

text \<open>
  The wait is over when a message for this transition arrives after the subscription, when a poll finds another value under
  the transition key, when a poll fails, and when the context is done: of the errors of the wait, \<open>seIsCtx\<close> are those of
  the context.  An error of \<^verbatim>\<open>Get\<close> comes with the empty string, which is not the transition's id, so that the test for
  the error after it is never reached.  \<open>n\<close> is the number of messages before the subscription.
\<close>

definition waitForTransition :: "('r, 'e) storage_env \<Rightarrow> uuid \<Rightarrow> string \<Rightarrow> string \<Rightarrow> ('r, 'e, ('e rerror, unit) go) rprog" where
  "waitForTransition se teamID sandboxID transitionID =
     (let team = seString se teamID; routingKey = getTransitionRoutingKey team sandboxID transitionID;
          transitionKey = getTransitionKey team sandboxID; resKey = getTransitionResultKey team sandboxID transitionID
      in prog_bind (prog_local (\<lambda>w. (length (wPublished w), w))) (\<lambda>n.
         prog_bind (rquery (\<lambda>r. rd_Get (seOps se) r transitionKey)) (\<lambda>currentID.
         if currentID \<noteq> Inr (Some transitionID) then checkTransitionResult se resKey
         else prog_try (prog_await (\<lambda>w. routingKey \<in> set (drop n (wPublished w)) \<or>
                                       rd_Get (seOps se) (wServer w) transitionKey \<noteq> Some transitionID) (\<lambda>w. w) (\<lambda>w. w))
                (\<lambda>e. if seIsCtx se e then redis_failed e else checkTransitionResult se resKey)
                (\<lambda>_. checkTransitionResult se resKey))))"

definition rs_WaitForStateChange :: "('r, 'e) storage_env \<Rightarrow> uuid \<Rightarrow> string \<Rightarrow> ('r, 'e, ('e rerror, unit) go) rprog" where
  "rs_WaitForStateChange se teamID sandboxID =
     prog_try (rquery (\<lambda>r. rd_Get (seOps se) r (getTransitionKey (seString se teamID) sandboxID))) redis_failed (\<lambda>transactionID.
     case transactionID of None \<Rightarrow> Done (Ok ()) | Some i \<Rightarrow> waitForTransition se teamID sandboxID i)"

subsection \<open>Starting a transition\<close>

text \<open>What \<^verbatim>\<open>StartRemoving\<close> does under its lock: it returns, or it has to wait for the transition in place.\<close>

datatype 'e start_locked = StartReturns "'e start_result" | StartWaits Sandbox string

definition transition_start :: "('r, 'e) storage_env \<Rightarrow> string \<Rightarrow> string \<Rightarrow> string \<Rightarrow> string \<Rightarrow> ('r, 'e, 'e + unit) rprog" where
  "transition_start se team sandboxID data transitionID =
     (let transitionKey = getTransitionKey team sandboxID;
          run = startTransitionScript (seOps se) (getSandboxKey team sandboxID) transitionKey
            (getTransitionResultKey team sandboxID transitionID) data transitionID
      in prog_await (\<lambda>_. True)
           (\<lambda>w. w\<lparr>wServer := run (wServer w), wLive := insert transitionKey (wLive w)\<rparr>)
           (\<lambda>w. w\<lparr>wServer := run (wServer w), wLive := wLive w - {transitionKey}\<rparr>))"

definition startLocked ::
  "('r, 'e) storage_env \<Rightarrow> attempt \<Rightarrow> uuid \<Rightarrow> string \<Rightarrow> RemoveOpts \<Rightarrow> ('r, 'e, 'e start_locked) rprog" where
  "startLocked se a teamID sandboxID opts =
     (let team = seString se teamID; key = getSandboxKey team sandboxID; transitionKey = getTransitionKey team sandboxID;
          failed = (\<lambda>sbx e. Done (StartReturns (sbx, Fail e))); newState = actTargetState (roAction opts)
      in prog_try (rquery (\<lambda>r. rd_Get (seOps se) r key)) (\<lambda>e. failed None (OtherError (CommandFailed e))) (\<lambda>data.
         case data of None \<Rightarrow> failed None ErrNotFound | Some d \<Rightarrow>
         (case seUnmarshal se d of None \<Rightarrow> failed None (OtherError UnmarshalFailed) | Some sbx \<Rightarrow>
         prog_try (rquery (\<lambda>r. rd_Get (seOps se) r transitionKey)) (\<lambda>e. failed (Some sbx) (OtherError (CommandFailed e))) (\<lambda>current.
         let transactionID = (case current of None \<Rightarrow> [] | Some i \<Rightarrow> i)
         in if roEviction opts \<and> transactionID \<noteq> [] then failed (Some sbx) ErrEvictionInProgress
            else if roEviction opts \<and> \<not> IsExpired sbx (atEvictNow a) then failed (Some sbx) ErrEvictionNotNeeded
            else if transactionID \<noteq> [] then Done (StartWaits sbx transactionID)
            else if sState sbx = newState then Done (StartReturns (Some sbx, Ok (True, RNoop)))
            else if \<not> AllowedTransitions (sState sbx) newState then failed (Some sbx) (InvalidStateTransitionError (sState sbx) newState)
            else
              let updated = (let u = sbx\<lparr>sState := newState\<rparr>
                             in if actEffect (roAction opts) = TransitionExpires then expireData (atNow a) u else u)
              in (case seMarshal se updated of None \<Rightarrow> failed (Some sbx) (OtherError MarshalFailed) | Some newData \<Rightarrow>
                  prog_try (transition_start se team sandboxID newData (atID a))
                    (\<lambda>e. failed (Some sbx) (OtherError (CommandFailed e))) (\<lambda>_.
                  prog_bind (log_event (TransitionStarted team sandboxID (atID a))) (\<lambda>_.
                  Done (StartReturns (Some updated, Ok (False, RFinish (roAction opts) sandboxID (atID a)))))))))))"

fun rs_StartRemoving ::
  "('r, 'e) storage_env \<Rightarrow> attempt list \<Rightarrow> uuid \<Rightarrow> string \<Rightarrow> RemoveOpts \<Rightarrow> ('r, 'e, 'e start_result option) rprog" where
  "rs_StartRemoving se [] teamID sandboxID opts = Done None"
| "rs_StartRemoving se (a # as) teamID sandboxID opts =
     prog_bind (with_lock se (getSandboxKey (seString se teamID) sandboxID) (atToken a)
                  (\<lambda>e. StartReturns (None, Fail (OtherError (CommandFailed e)))) (startLocked se a teamID sandboxID opts)) (\<lambda>out.
     case out of
       StartReturns r \<Rightarrow> Done (Some r)
     | StartWaits sbx transactionID \<Rightarrow>
         (let newState = actTargetState (roAction opts)
          in if sState sbx = newState
             then prog_bind (waitForTransition se teamID (SandboxID sbx) transactionID) (\<lambda>r.
                  Done (Some (Some sbx, case r of Ok _ \<Rightarrow> Ok (True, RNoop) | Fail e \<Rightarrow> Fail e | Panic \<Rightarrow> Panic)))
             else if \<not> AllowedTransitions (sState sbx) newState
             then Done (Some (Some sbx, Fail (InvalidStateTransitionError (sState sbx) newState)))
             else prog_bind (waitForTransition se teamID (SandboxID sbx) transactionID) (\<lambda>r.
                  case r of
                    Fail e \<Rightarrow> Done (Some (Some sbx, Fail e))
                  | Panic \<Rightarrow> Done (Some (Some sbx, Panic))
                  | Ok _ \<Rightarrow> rs_StartRemoving se as teamID (SandboxID sbx) \<lparr>roAction = roAction opts, roEviction = False\<rparr>)))"

subsection \<open>Finishing a transition\<close>

definition restoreUpdate :: "State \<Rightarrow> Sandbox \<Rightarrow> ('e rerror, Sandbox) go" where
  "restoreUpdate fromState sbx = (if sState sbx \<noteq> fromState then Ok sbx else Ok (sbx\<lparr>sState := StateRunning\<rparr>))"

definition restoreToRunning :: "('r, 'e) storage_env \<Rightarrow> string \<Rightarrow> uuid \<Rightarrow> string \<Rightarrow> State \<Rightarrow> ('r, 'e, ('e rerror, Sandbox) go) rprog" where
  "restoreToRunning se token teamID sandboxID fromState = rs_Update se token teamID sandboxID (restoreUpdate fromState)"

text \<open>The value for the callers that wait; \<open>text\<close> are the texts of errors.\<close>

definition resultValue ::
  "('e rerror \<Rightarrow> string) \<Rightarrow> StateAction \<Rightarrow> ('e rerror, Sandbox) go option \<Rightarrow> 'e rerror option \<Rightarrow> string" where
  "resultValue etext action restored cbErr =
     (case restored of
        Some (Fail e) \<Rightarrow> ''failed to restore sandbox to running: '' @ etext e
      | _ \<Rightarrow> (case cbErr of
                Some e \<Rightarrow> if actEffect action \<noteq> TransitionTransient then etext e else []
              | None \<Rightarrow> []))"

definition transition_end :: "('r, 'e) storage_env \<Rightarrow> string \<Rightarrow> string \<Rightarrow> ('r, 'e, 'e + unit) rprog" where
  "transition_end se team sandboxID = prog_attempt
     (\<lambda>w. ((), w\<lparr>wServer := rd_Del (seOps se) (wServer w) (getTransitionKey team sandboxID),
                wLive := wLive w - {getTransitionKey team sandboxID}\<rparr>))
     (\<lambda>w. w\<lparr>wLive := wLive w - {getTransitionKey team sandboxID}\<rparr>)"

definition rs_callback ::
  "('r, 'e) storage_env \<Rightarrow> ('e rerror \<Rightarrow> string) \<Rightarrow> string \<Rightarrow> uuid \<Rightarrow> string \<Rightarrow> string \<Rightarrow> StateAction \<Rightarrow> 'e rerror option \<Rightarrow> ('r, 'e, unit) rprog" where
  "rs_callback se etext token teamID sandboxID transitionID action cbErr =
     (let team = seString se teamID; transitionKey = getTransitionKey team sandboxID
      in prog_bind (log_event (TransitionComplete team sandboxID transitionID)) (\<lambda>_.
         prog_bind (if actEffect action = TransitionTransient \<and> cbErr = None
                    then prog_bind (restoreToRunning se token teamID sandboxID (actTargetState action)) (\<lambda>r. Done (Some r))
                    else Done None) (\<lambda>restored.
         prog_try (lock_Obtain se transitionKey token) (\<lambda>_. give_up transitionKey) (\<lambda>_.
         prog_bind (rupdate (\<lambda>r. rd_Set (seOps se) r (getTransitionResultKey team sandboxID transitionID)
                                  (resultValue etext action restored cbErr))) (\<lambda>_.
         prog_bind (transition_end se team sandboxID) (\<lambda>_.
         prog_bind (prog_script (\<lambda>w. ((), w\<lparr>wPublished := wPublished w @ [getTransitionRoutingKey team sandboxID transitionID]\<rparr>))) (\<lambda>_.
         prog_bind (lock_Release se transitionKey token) (\<lambda>_. Done ()))))))))"

end
