(* ===== verification/Redis_Reservation.thy ===== *)
theory Redis_Reservation
  imports Redis_Client
begin

text \<open>
  The reservations that API servers share through Redis, \<^verbatim>\<open>packages/api/internal/sandbox/reservations/redis\<close>.  A script
  of \<^verbatim>\<open>scripts.go\<close> runs atomically: it is one function on the state of the server.  An answer of the server to a
  command may be an error; then \<open>Inl\<close> stands in its place.

  The encoding of results in JSON is a pair of functions \<open>enc\<close> and \<open>dec\<close>.
\<close>

subsection \<open>Results of a start\<close>

record reservationError =
  reMessage :: string
  reCode :: int
  reClientMsg :: string

record reservationResult =
  rrSandbox :: Sandbox
  rrError :: "reservationError option"

text \<open>An error of a start: its text, and the code and the message when an \<^verbatim>\<open>api.APIError\<close> is in its chain.\<close>

record start_error =
  seText :: string
  seAPI :: "(int \<times> string) option"

definition encodeResult :: "(reservationResult \<Rightarrow> string option) \<Rightarrow> Sandbox \<Rightarrow> start_error option \<Rightarrow> string option" where
  "encodeResult enc sbx err =
     enc \<lparr>rrSandbox = sbx,
          rrError = (case err of
             None \<Rightarrow> None
           | Some e \<Rightarrow>
               (case seAPI e of
                  Some (code, clientMsg) \<Rightarrow> Some \<lparr>reMessage = seText e, reCode = code, reClientMsg = clientMsg\<rparr>
                | None \<Rightarrow> Some \<lparr>reMessage = seText e, reCode = 0, reClientMsg = []\<rparr>))\<rparr>"

definition reconstructError :: "reservationError \<Rightarrow> start_error" where
  "reconstructError re =
     (if reCode re \<noteq> 0 then \<lparr>seText = reMessage re, seAPI = Some (reCode re, reClientMsg re)\<rparr>
      else \<lparr>seText = reMessage re, seAPI = None\<rparr>)"

datatype 'e wait_error = DecodeFailed | StartFailed start_error | RedisFailed 'e | NoLongerPending | WaitCancelled

definition decodeResult :: "(string \<Rightarrow> reservationResult option) \<Rightarrow> string \<Rightarrow> ('e wait_error, Sandbox) go" where
  "decodeResult dec data =
     (case dec data of
        None \<Rightarrow> Fail DecodeFailed
      | Some result \<Rightarrow>
          (case rrError result of
             Some e \<Rightarrow> Fail (StartFailed (reconstructError e))
           | None \<Rightarrow> Ok (rrSandbox result)))"

subsection \<open>Scripts\<close>

definition reserveResultReserved :: int where "reserveResultReserved = 0"
definition reserveResultAlreadyInStorage :: int where "reserveResultAlreadyInStorage = 1"
definition reserveResultAlreadyPending :: int where "reserveResultAlreadyPending = 2"
definition reserveResultLimitExceeded :: int where "reserveResultLimitExceeded = 3"

lemmas reserve_codes = reserveResultReserved_def reserveResultAlreadyInStorage_def reserveResultAlreadyPending_def
  reserveResultLimitExceeded_def

definition reserveScript ::
  "'r redis_ops \<Rightarrow> string \<Rightarrow> string \<Rightarrow> string \<Rightarrow> string \<Rightarrow> int \<Rightarrow> int \<Rightarrow> int \<Rightarrow> 'r \<Rightarrow> int \<times> 'r" where
  "reserveScript rd idxKey pendKey resKey sandboxID limit now cutoff r =
     (let r1 = rd_ZRemRangeByScore rd r pendKey cutoff
      in if rd_SIsMember rd r1 idxKey sandboxID then (reserveResultAlreadyInStorage, r1)
         else if rd_ZScore rd r1 pendKey sandboxID \<noteq> None then (reserveResultAlreadyPending, r1)
         else if limit \<ge> 0 \<and> rd_SCard rd r1 idxKey + rd_ZCard rd r1 pendKey \<ge> limit then (reserveResultLimitExceeded, r1)
         else (reserveResultReserved, rd_ZAdd rd (rd_Del rd r1 resKey) pendKey now sandboxID))"

definition finishStartScript :: "'r redis_ops \<Rightarrow> string \<Rightarrow> string \<Rightarrow> string \<Rightarrow> string \<Rightarrow> 'r \<Rightarrow> 'r" where
  "finishStartScript rd pendKey resKey sandboxID result r = rd_Set rd (rd_ZRem rd r pendKey sandboxID) resKey result"

definition releaseScript :: "'r redis_ops \<Rightarrow> string \<Rightarrow> string \<Rightarrow> string \<Rightarrow> 'r \<Rightarrow> 'r" where
  "releaseScript rd pendKey resKey sandboxID r = rd_Del rd (rd_ZRem rd r pendKey sandboxID) resKey"

subsection \<open>Operations\<close>

definition staleTTL :: int where "staleTTL = 90"

text \<open>\<open>None\<close> is the callback that finishes the start, \<open>Some\<close> the function that waits for it.\<close>

datatype redis_reserve = ReservedStart | ReservedWait

datatype 'e reserve_error = ReserveScriptFailed 'e | ReserveAlreadyExists | ReserveLimitExceeded uuid | UnexpectedResult int

text \<open>\<open>fails\<close> is the error of the command that runs the script; \<open>now\<close> and \<open>now'\<close> are the two readings of the clock in seconds.\<close>

definition redis_Reserve ::
  "'r redis_ops \<Rightarrow> (uuid \<Rightarrow> string) \<Rightarrow> 'e option \<Rightarrow> int \<Rightarrow> int \<Rightarrow> uuid \<Rightarrow> string \<Rightarrow> int \<Rightarrow> 'r \<Rightarrow> ('e reserve_error, redis_reserve) go \<times> 'r" where
  "redis_Reserve rd ustr fails now now' teamID sandboxID limit r =
     (case fails of
        Some e \<Rightarrow> (Fail (ReserveScriptFailed e), r)
      | None \<Rightarrow>
          (let teamIDStr = ustr teamID;
               (result, r1) = reserveScript rd (getStorageIndexKey teamIDStr) (getPendingSetKey teamIDStr)
                 (getResultKey teamIDStr sandboxID) sandboxID limit now (now' - staleTTL) r
           in (if result = reserveResultReserved then Ok ReservedStart
               else if result = reserveResultAlreadyInStorage then Fail ReserveAlreadyExists
               else if result = reserveResultAlreadyPending then Ok ReservedWait
               else if result = reserveResultLimitExceeded then Fail (ReserveLimitExceeded teamID)
               else Fail (UnexpectedResult result), r1)))"

definition redis_Release :: "'r redis_ops \<Rightarrow> (uuid \<Rightarrow> string) \<Rightarrow> 'e option \<Rightarrow> uuid \<Rightarrow> string \<Rightarrow> 'r \<Rightarrow> ('e, unit) go \<times> 'r" where
  "redis_Release rd ustr fails teamID sandboxID r =
     (case fails of
        Some e \<Rightarrow> (Fail e, r)
      | None \<Rightarrow> (Ok (), releaseScript rd (getPendingSetKey (ustr teamID)) (getResultKey (ustr teamID) sandboxID) sandboxID r))"

text \<open>The callback, with the encoded result or \<open>None\<close> when it cannot be encoded; its errors are only logged.\<close>

definition finishStart_with ::
  "'r redis_ops \<Rightarrow> (uuid \<Rightarrow> string) \<Rightarrow> uuid \<Rightarrow> string \<Rightarrow> string option \<Rightarrow> 'r \<Rightarrow> 'r" where
  "finishStart_with rd ustr teamID sandboxID resultData r =
     (let pendKey = getPendingSetKey (ustr teamID); resKey = getResultKey (ustr teamID) sandboxID
      in case resultData of
           None \<Rightarrow> rd_ZRem rd r pendKey sandboxID
         | Some result \<Rightarrow> finishStartScript rd pendKey resKey sandboxID result r)"

definition redis_finishStart ::
  "'r redis_ops \<Rightarrow> (uuid \<Rightarrow> string) \<Rightarrow> (reservationResult \<Rightarrow> string option) \<Rightarrow> 'e option \<Rightarrow> uuid \<Rightarrow> string \<Rightarrow> Sandbox \<Rightarrow> start_error option \<Rightarrow> 'r \<Rightarrow> 'r" where
  "redis_finishStart rd ustr enc fails teamID sandboxID sbx startErr r =
     (if fails \<noteq> None then r else finishStart_with rd ustr teamID sandboxID (encodeResult enc sbx startErr) r)"

text \<open>
  A round of the loop that waits: the states of the server that the commands of the round see, or their errors, and
  whether the context is done.  \<open>None\<close> is a wait that goes on.
\<close>

record ('r, 'e) wait_round =
  wrResult :: "'e + 'r"
  wrPending :: "'e + 'r"
  wrFinal :: "'e + 'r"
  wrDone :: bool

fun redis_waitForStart ::
  "'r redis_ops \<Rightarrow> (uuid \<Rightarrow> string) \<Rightarrow> (string \<Rightarrow> reservationResult option) \<Rightarrow> uuid \<Rightarrow> string \<Rightarrow> ('r, 'e) wait_round list \<Rightarrow>
   ('e wait_error, Sandbox) go option" where
  "redis_waitForStart rd ustr dec teamID sandboxID [] = None"
| "redis_waitForStart rd ustr dec teamID sandboxID (w # ws) =
     (let resKey = getResultKey (ustr teamID) sandboxID; pendKey = getPendingSetKey (ustr teamID)
      in case wrResult w of
           Inl e \<Rightarrow> Some (Fail (RedisFailed e))
         | Inr r1 \<Rightarrow>
             (case rd_Get rd r1 resKey of
                Some data \<Rightarrow> Some (decodeResult dec data)
              | None \<Rightarrow>
                  (case wrPending w of
                     Inl e \<Rightarrow> Some (Fail (RedisFailed e))
                   | Inr r2 \<Rightarrow>
                       if rd_ZScore rd r2 pendKey sandboxID = None then
                         (case wrFinal w of
                            Inl e \<Rightarrow> Some (Fail NoLongerPending)
                          | Inr r3 \<Rightarrow>
                              (case rd_Get rd r3 resKey of
                                 Some data \<Rightarrow> Some (decodeResult dec data)
                               | None \<Rightarrow> Some (Fail NoLongerPending)))
                       else if wrDone w then Some (Fail WaitCancelled)
                       else redis_waitForStart rd ustr dec teamID sandboxID ws)))"

subsection \<open>What the callers that wait receive\<close>

text \<open>
  After the callback, a caller that waits gets the sandbox or the error of the start, with its code and its message, provided
  the result survives its encoding; a code of zero reads back as no code.
\<close>

lemma finished_start_is_shared:
  assumes "redis rd" "encodeResult enc sbx err = Some data" "dec data = Some \<lparr>rrSandbox = sbx, rrError = map_option (\<lambda>e. case seAPI e of
      Some (code, msg) \<Rightarrow> \<lparr>reMessage = seText e, reCode = code, reClientMsg = msg\<rparr> | None \<Rightarrow> \<lparr>reMessage = seText e, reCode = 0, reClientMsg = []\<rparr>) err\<rparr>"
    and "wrResult w = Inr (redis_finishStart rd ustr enc None teamID i sbx err r)" "\<And>e code msg. err = Some e \<Longrightarrow> seAPI e = Some (code, msg) \<Longrightarrow> code \<noteq> 0"
  shows "redis_waitForStart rd ustr dec teamID i (w # ws) = Some (case err of None \<Rightarrow> Ok sbx | Some e \<Rightarrow> Fail (StartFailed e))"
  using assms by (cases err)
    (auto simp: Let_def redis_finishStart_def finishStart_with_def finishStartScript_def redis.Get_Set decodeResult_def reconstructError_def split: option.splits prod.splits)

subsection \<open>What a reservation does to the sandboxes of a team\<close>

text \<open>The sandboxes that count against the limit: those in the index of the storage and those that are starting.\<close>

definition pending :: "'r redis_ops \<Rightarrow> string \<Rightarrow> 'r \<Rightarrow> string set" where
  "pending rd team r = {i. rd_ZScore rd r (getPendingSetKey team) i \<noteq> None}"

definition indexed :: "'r redis_ops \<Rightarrow> string \<Rightarrow> 'r \<Rightarrow> string set" where
  "indexed rd team r = set (rd_SMembers rd r (GetSandboxStorageTeamIndexKey team))"

definition counted :: "'r redis_ops \<Rightarrow> string \<Rightarrow> 'r \<Rightarrow> string set" where
  "counted rd team r = indexed rd team r \<union> pending rd team r"

definition stale :: "'r redis_ops \<Rightarrow> string \<Rightarrow> int \<Rightarrow> 'r \<Rightarrow> string set" where
  "stale rd team cutoff r = {i. \<exists>n\<le>cutoff. rd_ZScore rd r (getPendingSetKey team) i = Some n}"

context redis
begin

lemma finite_counted: "finite (indexed rd team r)" "finite (pending rd team r)" "finite (counted rd team r)"
proof -
  have "pending rd team r = set (map fst (rd_ZRange rd r (getPendingSetKey team)))"
    by (simp add: pending_def rd_ZScore_def map_of_eq_None_iff)
  then show "finite (indexed rd team r)" "finite (pending rd team r)" "finite (counted rd team r)"
    by (simp_all add: indexed_def counted_def)
qed

lemma clean_stale:
  assumes "plain_team team"
  shows "pending rd team (rd_ZRemRangeByScore rd r (getPendingSetKey team) cutoff) = pending rd team r - stale rd team cutoff r"
    "indexed rd team (rd_ZRemRangeByScore rd r (getPendingSetKey team) cutoff) = indexed rd team r"
proof -
  show "pending rd team (rd_ZRemRangeByScore rd r (getPendingSetKey team) cutoff) = pending rd team r - stale rd team cutoff r"
    by (auto simp: pending_def stale_def ZRemRange_score split: option.splits)
  show "indexed rd team (rd_ZRemRangeByScore rd r (getPendingSetKey team) cutoff) = indexed rd team r"
    using assms by (simp add: indexed_def rd_ZRemRangeByScore_def fold_ZRem_other)
qed

lemma reserveScript_result:
  fixes team i :: string and r :: 'r and limit now cutoff :: int
  assumes "plain_team team"
  defines "P \<equiv> pending rd team r - stale rd team cutoff r"
  defines "s \<equiv> reserveScript rd (getStorageIndexKey team) (getPendingSetKey team) (getResultKey team i) i limit now cutoff r"
  shows "fst s = (if i \<in> indexed rd team r then 1 else if i \<in> P then 2
      else if limit \<ge> 0 \<and> int (card (indexed rd team r)) + int (card P) \<ge> limit then 3 else 0)"
    "indexed rd team (snd s) = indexed rd team r"
    "pending rd team (snd s) = (if fst s = 0 then insert i P else P)"
proof -
  let ?r1 = "rd_ZRemRangeByScore rd r (getPendingSetKey team) cutoff"
  have P: "pending rd team ?r1 = P" "indexed rd team ?r1 = indexed rd team r"
    using clean_stale[OF assms(1)] by (simp_all add: P_def)
  have m: "rd_SIsMember rd ?r1 (getStorageIndexKey team) i \<longleftrightarrow> i \<in> indexed rd team r"
    "rd_ZScore rd ?r1 (getPendingSetKey team) i \<noteq> None \<longleftrightarrow> i \<in> P"
    "rd_SCard rd ?r1 (getStorageIndexKey team) = int (card (indexed rd team r))"
    "rd_ZCard rd ?r1 (getPendingSetKey team) = int (card P)"
    using P by (auto simp: rd_SIsMember_def indexed_def getStorageIndexKey_def pending_def SCard_members ZCard_scores)
  show f: "fst s = (if i \<in> indexed rd team r then 1 else if i \<in> P then 2
      else if limit \<ge> 0 \<and> int (card (indexed rd team r)) + int (card P) \<ge> limit then 3 else 0)"
    by (simp add: s_def reserveScript_def Let_def m reserve_codes del: not_None_eq)
  let ?r2 = "rd_ZAdd rd (rd_Del rd ?r1 (getResultKey team i)) (getPendingSetKey team) now i"
  have 2: "indexed rd team ?r2 = indexed rd team ?r1" "pending rd team ?r2 = insert i (pending rd team ?r1)"
    using assms(1) by (auto simp: indexed_def pending_def rd_ZScore_def reads)
  show "indexed rd team (snd s) = indexed rd team r" "pending rd team (snd s) = (if fst s = 0 then insert i P else P)"
    using f P 2 by (simp_all add: s_def reserveScript_def Let_def m reserve_codes del: not_None_eq)
qed

end

end
