(* ===== verification/Redis_System.thy ===== *)
theory Redis_System
  imports Redis_Transition Redis_Reservation
begin

text \<open>
  Many API servers on one Redis: the operations of the storage, the transitions and the reservations as requests that run
  side by side, and what each of them relies on and guarantees.
\<close>

subsection \<open>Requests\<close>

text \<open>
  \<open>RqTransition\<close> is a caller that starts a transition and, when it was the one to start it, runs the callback with the error
  of its work.
\<close>

datatype 'e request =
    RqAdd int Sandbox
  | RqGet uuid string
  | RqRemove string uuid string
  | RqUpdate string uuid string "Sandbox \<Rightarrow> ('e rerror, Sandbox) go"
  | RqTeamItems uuid "State list"
  | RqTeamsWithSandboxCount int
  | RqExpiredItems "string list \<Rightarrow> string list" time "Sandbox \<Rightarrow> time"
  | RqReconcile "string list \<Rightarrow> string list" time "Sandbox list"
  | RqTransition "attempt list" uuid string RemoveOpts "'e rerror \<Rightarrow> string" string "'e rerror option"
  | RqWaitForStateChange uuid string
  | RqReserve int int uuid string int
  | RqFinishStart "string option" uuid string
  | RqRelease uuid string

definition prog_void :: "('s, 'e, 'a) prog \<Rightarrow> ('s, 'e, unit) prog" where
  "prog_void p = prog_bind p (\<lambda>_. Done ())"

definition transition_prog ::
  "('r, 'e) storage_env \<Rightarrow> attempt list \<Rightarrow> uuid \<Rightarrow> string \<Rightarrow> RemoveOpts \<Rightarrow> ('e rerror \<Rightarrow> string) \<Rightarrow> string \<Rightarrow> 'e rerror option \<Rightarrow>
   ('r, 'e, unit) rprog" where
  "transition_prog se attempts teamID sandboxID opts etext token cbErr =
     prog_bind (rs_StartRemoving se attempts teamID sandboxID opts) (\<lambda>r.
     case r of
       Some (_, Ok (_, RFinish action i transitionID)) \<Rightarrow> rs_callback se etext token teamID i transitionID action cbErr
     | _ \<Rightarrow> Done ())"

fun request_prog :: "('r, 'e) storage_env \<Rightarrow> 'e request \<Rightarrow> ('r, 'e, unit) rprog" where
  "request_prog se (RqAdd now sbx) = prog_void (rs_Add se now sbx)"
| "request_prog se (RqGet teamID i) = prog_void (rs_Get se teamID i)"
| "request_prog se (RqRemove token teamID i) = prog_void (rs_Remove se token teamID i)"
| "request_prog se (RqUpdate token teamID i f) = prog_void (rs_Update se token teamID i f)"
| "request_prog se (RqTeamItems teamID states) = prog_void (rs_TeamItems se teamID states)"
| "request_prog se (RqTeamsWithSandboxCount now) = prog_void (rs_TeamsWithSandboxCount se now)"
| "request_prog se (RqExpiredItems order now since) = prog_void (rs_ExpiredItems se order now since)"
| "request_prog se (RqReconcile order now sbxs) = prog_void (rs_Reconcile se order now sbxs)"
| "request_prog se (RqTransition attempts teamID i opts etext token cbErr) = transition_prog se attempts teamID i opts etext token cbErr"
| "request_prog se (RqWaitForStateChange teamID i) = prog_void (rs_WaitForStateChange se teamID i)"
| "request_prog se (RqReserve now now' teamID i limit) =
     prog_void (rupdate (\<lambda>r. snd (redis_Reserve (seOps se) (seString se) (None :: unit option) now now' teamID i limit r)))"
| "request_prog se (RqFinishStart result teamID i) =
     prog_void (rupdate (finishStart_with (seOps se) (seString se) teamID i result))"
| "request_prog se (RqRelease teamID i) =
     prog_void (rupdate (\<lambda>r. snd (redis_Release (seOps se) (seString se) (None :: unit option) teamID i r)))"

text \<open>The tokens and transition ids of a request, which are random and so its own.\<close>

fun request_names :: "'e request \<Rightarrow> string set" where
  "request_names (RqRemove token _ _) = {token}"
| "request_names (RqUpdate token _ _ _) = {token}"
| "request_names (RqTransition attempts _ _ _ _ token _) = insert token (atToken ` set attempts \<union> atID ` set attempts)"
| "request_names _ = {}"

fun request_ok :: "'e request \<Rightarrow> bool" where
  "request_ok (RqAdd _ sbx) = plain_id (SandboxID sbx)"
| "request_ok (RqRemove token _ i) = (plain_id i \<and> token \<noteq> [])"
| "request_ok (RqUpdate token _ i _) = (plain_id i \<and> token \<noteq> [])"
| "request_ok (RqTransition attempts _ i _ _ token _) = (plain_id i \<and> [] \<notin> insert token (atToken ` set attempts \<union> atID ` set attempts))"
| "request_ok _ = True"

definition requests_ok :: "'e request list \<Rightarrow> bool" where
  "requests_ok rqs \<longleftrightarrow> (\<forall>rq\<in>set rqs. request_ok rq) \<and>
     (\<forall>i<length rqs. \<forall>j<length rqs. i \<noteq> j \<longrightarrow> request_names (rqs ! i) \<inter> request_names (rqs ! j) = {})"

text \<open>What the storage relies on: the locks, texts of UUIDs without braces and colons, and records whose id has no colon.\<close>

definition storage_laws :: "('r, 'e) storage_env \<Rightarrow> bool" where
  "storage_laws se \<longleftrightarrow> redislock (seOps se) (seTryLock se) (seUnlock se) \<and> (\<forall>u. plain_team (seString se u)) \<and> (\<forall>d sbx. seUnmarshal se d = Some sbx \<longrightarrow> plain_id (SandboxID sbx))"

subsection \<open>What expires\<close>

definition guarded_key :: "string \<Rightarrow> bool" where
  "guarded_key k \<longleftrightarrow> (\<exists>l. k = GetLockKey l) \<or> (\<exists>t i. plain_team t \<and> plain_id i \<and> k = getTransitionKey t i)"

definition expiring_key :: "string \<Rightarrow> bool" where
  "expiring_key k \<longleftrightarrow> guarded_key k \<or>
     (\<exists>t i. plain_team t \<and> plain_id i \<and> ((\<exists>x. k = getTransitionResultKey t i x) \<or> k = getResultKey t i))"

definition expires :: "('r, 'e) storage_env \<Rightarrow> 'r world \<Rightarrow> 'r world \<Rightarrow> bool" where
  "expires se w w' \<longleftrightarrow> (\<exists>k. expiring_key k \<and> k \<notin> wLive w \<and> w' = w\<lparr>wServer := rd_Del (seOps se) (wServer w) k\<rparr>)"

subsection \<open>Invariants\<close>

definition sandbox_at :: "('r, 'e) storage_env \<Rightarrow> 'r world \<Rightarrow> string \<Rightarrow> string \<Rightarrow> bool" where
  "sandbox_at se w t i \<longleftrightarrow> rd_Get (seOps se) (wServer w) (getSandboxKey t i) \<noteq> None"

definition index_of :: "('r, 'e) storage_env \<Rightarrow> 'r world \<Rightarrow> string \<Rightarrow> string set" where
  "index_of se w t = set (rd_SMembers (seOps se) (wServer w) (GetSandboxStorageTeamIndexKey t))"

definition index_agrees :: "('r, 'e) storage_env \<Rightarrow> 'r world \<Rightarrow> bool" where
  "index_agrees se w \<longleftrightarrow> (\<forall>t i. plain_team t \<longrightarrow> plain_id i \<longrightarrow> (sandbox_at se w t i \<longleftrightarrow> i \<in> index_of se w t))"

definition open_transitions :: "'r world \<Rightarrow> string \<Rightarrow> string \<Rightarrow> string set" where
  "open_transitions w t i = {x. TransitionStarted t i x \<in> set (wLog w) \<and> TransitionComplete t i x \<notin> set (wLog w)}"

definition holds_key :: "('r, 'e) storage_env \<Rightarrow> string \<Rightarrow> string \<Rightarrow> 'r world \<Rightarrow> bool" where
  "holds_key se k v w \<longleftrightarrow> k \<in> wLive w \<and> rd_Get (seOps se) (wServer w) k = Some v"

definition transitions_tracked :: "('r, 'e) storage_env \<Rightarrow> 'r world \<Rightarrow> bool" where
  "transitions_tracked se w \<longleftrightarrow> (\<forall>t i x. plain_team t \<longrightarrow> plain_id i \<longrightarrow> x \<in> open_transitions w t i \<longrightarrow>
     x \<noteq> [] \<and> holds_key se (getTransitionKey t i) x w)"

definition no_transition :: "('r, 'e) storage_env \<Rightarrow> string \<Rightarrow> string \<Rightarrow> 'r world \<Rightarrow> bool" where
  "no_transition se t i w \<longleftrightarrow> rd_Get (seOps se) (wServer w) (getTransitionKey t i) \<in> {None, Some []}"

subsection \<open>Rely and guarantee\<close>

definition locked_by :: "('r, 'e) storage_env \<Rightarrow> string set \<Rightarrow> string \<Rightarrow> string \<Rightarrow> 'r world \<Rightarrow> bool" where
  "locked_by se mine t i w \<longleftrightarrow> (\<exists>v\<in>mine. holds_key se (GetLockKey (getSandboxKey t i)) v w)"

definition sys_rely :: "('r, 'e) storage_env \<Rightarrow> string set \<Rightarrow> 'r world \<Rightarrow> 'r world \<Rightarrow> bool" where
  "sys_rely se mine w w' \<longleftrightarrow>
     (\<forall>k v. guarded_key k \<longrightarrow> v \<in> mine \<longrightarrow> holds_key se k v w \<longrightarrow> holds_key se k v w') \<and>
     (\<forall>t i. plain_team t \<longrightarrow> plain_id i \<longrightarrow> locked_by se mine t i w \<longrightarrow>
        (sandbox_at se w t i \<longrightarrow> sandbox_at se w' t i) \<and> (no_transition se t i w \<longrightarrow> no_transition se t i w')) \<and>
     set (wLog w) \<subseteq> set (wLog w')"

definition sys_guar :: "('r, 'e) storage_env \<Rightarrow> string set \<Rightarrow> 'r world \<Rightarrow> 'r world \<Rightarrow> bool" where
  "sys_guar se mine w w' \<longleftrightarrow>
     (\<forall>k v. guarded_key k \<longrightarrow> v \<notin> mine \<longrightarrow> v \<noteq> [] \<longrightarrow> holds_key se k v w \<longrightarrow> holds_key se k v w') \<and>
     (\<forall>t i. plain_team t \<longrightarrow> plain_id i \<longrightarrow> \<not> locked_by se mine t i w \<longrightarrow>
        (sandbox_at se w t i \<longrightarrow> sandbox_at se w' t i) \<and> (no_transition se t i w \<longrightarrow> no_transition se t i w')) \<and>
     set (wLog w) \<subseteq> set (wLog w') \<and>
     (index_agrees se w \<longrightarrow> index_agrees se w') \<and> (transitions_tracked se w \<longrightarrow> transitions_tracked se w')"

lemma guar_rely:
  assumes "sys_guar se mine w w'" "mine \<inter> mine' = {}" "[] \<notin> mine'"
  shows "sys_rely se mine' w w'"
proof -
  have 1: "\<not> locked_by se mine t i w" if "locked_by se mine' t i w" for t i
    using that assms(2) by (auto simp: locked_by_def holds_key_def)
  have 2: "v \<notin> mine \<and> v \<noteq> []" if "v \<in> mine'" for v
    using that assms(2,3) by auto
  show ?thesis using assms(1) 1 2 unfolding sys_guar_def sys_rely_def by blast
qed

subsection \<open>Commands that nobody relies on\<close>

definition same_keys :: "('r, 'e) storage_env \<Rightarrow> 'r world \<Rightarrow> 'r world \<Rightarrow> bool" where
  "same_keys se w w' \<longleftrightarrow>
     (\<forall>k. guarded_key k \<longrightarrow> rd_Get (seOps se) (wServer w') k = rd_Get (seOps se) (wServer w) k) \<and>
     (\<forall>t i. plain_team t \<longrightarrow> plain_id i \<longrightarrow> sandbox_at se w' t i = sandbox_at se w t i) \<and>
     (\<forall>t. plain_team t \<longrightarrow> index_of se w' t = index_of se w t)"

definition quiet :: "('r, 'e) storage_env \<Rightarrow> 'r world \<Rightarrow> 'r world \<Rightarrow> bool" where
  "quiet se w w' \<longleftrightarrow> same_keys se w w' \<and> wLive w' = wLive w \<and> wLog w' = wLog w"

lemma guarded_keys [simp]:
  "guarded_key (GetLockKey k)" "plain_team t \<Longrightarrow> plain_id i \<Longrightarrow> guarded_key (getTransitionKey t i)"
  by (auto simp: guarded_key_def)

lemma guarded_not_sandbox: "guarded_key k \<Longrightarrow> plain_team t \<Longrightarrow> k \<noteq> getSandboxKey t i"
  by (auto simp: guarded_key_def)

lemma guarded_not_index: "guarded_key k \<Longrightarrow> plain_team t \<Longrightarrow> k \<noteq> GetSandboxStorageTeamIndexKey t"
  by (auto simp: guarded_key_def)

lemma guarded_not_global: "guarded_key k \<Longrightarrow> k \<noteq> globalTeamsSet \<and> k \<noteq> globalExpirationSet"
  by (auto simp: guarded_key_def)

lemma quiet_holds: "quiet se w w' \<Longrightarrow> guarded_key k \<Longrightarrow> holds_key se k v w' \<longleftrightarrow> holds_key se k v w"
  by (simp add: quiet_def same_keys_def holds_key_def)

lemma quiet_rely: "quiet se w w' \<Longrightarrow> sys_rely se mine w w'"
  by (auto simp: sys_rely_def quiet_holds) (auto simp: quiet_def same_keys_def no_transition_def)

lemma quiet_guar: "quiet se w w' \<Longrightarrow> sys_guar se mine w w'"
proof -
  assume q: "quiet se w w'"
  have "index_agrees se w' = index_agrees se w" "open_transitions w' = open_transitions w"
    using q by (auto simp: quiet_def same_keys_def index_agrees_def open_transitions_def fun_eq_iff)
  moreover have "no_transition se t i w' = no_transition se t i w" if "plain_team t" "plain_id i" for t i
    using q that by (simp add: quiet_def same_keys_def no_transition_def)
  ultimately show ?thesis
    using q by (auto simp: sys_guar_def quiet_holds transitions_tracked_def) (auto simp: quiet_def same_keys_def)
qed

lemma same_keysI:
  assumes "\<And>k. guarded_key k \<Longrightarrow> rd_Get (seOps se) r' k = rd_Get (seOps se) (wServer w) k"
    and "\<And>t i. plain_team t \<Longrightarrow> plain_id i \<Longrightarrow> rd_Get (seOps se) r' (getSandboxKey t i) = rd_Get (seOps se) (wServer w) (getSandboxKey t i)"
    and "\<And>t. plain_team t \<Longrightarrow> set (rd_SMembers (seOps se) r' (GetSandboxStorageTeamIndexKey t)) =
      set (rd_SMembers (seOps se) (wServer w) (GetSandboxStorageTeamIndexKey t))"
  shows "same_keys se w (w\<lparr>wServer := r'\<rparr>)"
  using assms by (auto simp: same_keys_def sandbox_at_def index_of_def)

lemma quiet_refl [simp]: "quiet se w w"
  by (simp add: quiet_def same_keys_def)

lemma quiet_server: "same_keys se w (w\<lparr>wServer := r'\<rparr>) \<Longrightarrow> quiet se w (w\<lparr>wServer := r'\<rparr>)"
  by (simp add: quiet_def)

lemma quiet_global:
  assumes "redis (seOps se)"
  shows "quiet se w (w\<lparr>wServer := rd_ZAdd (seOps se) (wServer w) globalExpirationSet n x\<rparr>)"
    "quiet se w (w\<lparr>wServer := rd_ZAdd (seOps se) (wServer w) globalTeamsSet n x\<rparr>)"
    "quiet se w (w\<lparr>wServer := rd_ZRem (seOps se) (wServer w) globalExpirationSet x\<rparr>)"
    "quiet se w (w\<lparr>wServer := fold (\<lambda>x r. rd_ZRem (seOps se) r globalExpirationSet x) xs (wServer w)\<rparr>)"
    "quiet se w (w\<lparr>wServer := fold (\<lambda>x r. rd_ZRem (seOps se) r globalTeamsSet x) xs (wServer w)\<rparr>)"
  by (intro quiet_server same_keysI; simp add: redis.reads[OF assms] redis.fold_ZRem_other[OF assms] guarded_not_global)+

lemma quiet_reservation:
  assumes "redis (seOps se)" "plain_team t"
  shows "quiet se w (w\<lparr>wServer := rd_ZAdd (seOps se) (wServer w) (getPendingSetKey t) n x\<rparr>)"
    "quiet se w (w\<lparr>wServer := rd_ZRem (seOps se) (wServer w) (getPendingSetKey t) x\<rparr>)"
    "quiet se w (w\<lparr>wServer := rd_Set (seOps se) (wServer w) (getResultKey t i) v\<rparr>)"
    "quiet se w (w\<lparr>wServer := rd_Del (seOps se) (wServer w) (getResultKey t i)\<rparr>)"
proof -
  have g: "k \<noteq> getPendingSetKey t" "k \<noteq> getResultKey t i" if "guarded_key k" for k
    using that assms(2) by (auto simp: guarded_key_def)
  show "quiet se w (w\<lparr>wServer := rd_ZAdd (seOps se) (wServer w) (getPendingSetKey t) n x\<rparr>)"
    "quiet se w (w\<lparr>wServer := rd_ZRem (seOps se) (wServer w) (getPendingSetKey t) x\<rparr>)"
    "quiet se w (w\<lparr>wServer := rd_Set (seOps se) (wServer w) (getResultKey t i) v\<rparr>)"
    "quiet se w (w\<lparr>wServer := rd_Del (seOps se) (wServer w) (getResultKey t i)\<rparr>)"
    using assms(2) by (intro quiet_server same_keysI; simp add: redis.reads[OF assms(1)] g)+
qed

lemma quiet_result:
  assumes "redis (seOps se)" "plain_team t" "plain_id i"
  shows "quiet se w (w\<lparr>wServer := rd_Set (seOps se) (wServer w) (getTransitionResultKey t i x) v\<rparr>)"
    "quiet se w (w\<lparr>wServer := rd_Del (seOps se) (wServer w) (getTransitionResultKey t i x)\<rparr>)"
proof -
  have g: "k \<noteq> getTransitionResultKey t i x" if "guarded_key k" for k
    using that assms(2,3) by (auto simp: guarded_key_def transition_keys_differ)
  show "quiet se w (w\<lparr>wServer := rd_Set (seOps se) (wServer w) (getTransitionResultKey t i x) v\<rparr>)"
    "quiet se w (w\<lparr>wServer := rd_Del (seOps se) (wServer w) (getTransitionResultKey t i x)\<rparr>)"
    using assms(2) by (intro quiet_server same_keysI; simp add: redis.reads[OF assms(1)] g)+
qed

lemma expires_guar:
  assumes "redis (seOps se)" "expires se w w'"
  shows "sys_guar se {} w w'"
proof -
  obtain k where k: "expiring_key k" "k \<notin> wLive w" "w' = w\<lparr>wServer := rd_Del (seOps se) (wServer w) k\<rparr>"
    using assms(2) by (auto simp: expires_def)
  show ?thesis
  proof (cases "guarded_key k")
    case True
    have "sandbox_at se w' t i = sandbox_at se w t i" "index_of se w' t = index_of se w t" if "plain_team t" for t i
      using guarded_not_sandbox[OF True that, of i] guarded_not_index[OF True that]
      by (auto simp: k(3) sandbox_at_def index_of_def redis.reads[OF assms(1)])
    moreover have "holds_key se l v w \<Longrightarrow> holds_key se l v w'" for l v
      using k(2) by (auto simp: k(3) holds_key_def redis.reads[OF assms(1)])
    moreover have "no_transition se t i w \<Longrightarrow> no_transition se t i w'" for t i
      by (simp add: k(3) no_transition_def redis.reads[OF assms(1)])
    moreover have "open_transitions w' = open_transitions w" "wLog w' = wLog w" by (simp_all add: k(3) open_transitions_def fun_eq_iff)
    ultimately show ?thesis by (simp add: sys_guar_def index_agrees_def transitions_tracked_def)
  next
    case False
    then have "quiet se w w'"
      using k(1) quiet_result(2)[OF assms(1)] quiet_reservation(4)[OF assms(1)] by (auto simp: expiring_key_def k(3))
    then show ?thesis by (rule quiet_guar)
  qed
qed

subsection \<open>Rules for the commands\<close>

abbreviation sys_rg :: "('r, 'e) storage_env \<Rightarrow> string set \<Rightarrow> ('a \<Rightarrow> 'r world \<Rightarrow> bool) \<Rightarrow> ('r world \<Rightarrow> bool) \<Rightarrow> ('r, 'e, 'a) rprog \<Rightarrow> bool" where
  "sys_rg se mine \<equiv> rg (sys_rely se mine) (sys_guar se mine)"

abbreviation sys_stable :: "('r, 'e) storage_env \<Rightarrow> string set \<Rightarrow> ('r world \<Rightarrow> bool) \<Rightarrow> bool" where
  "sys_stable se mine \<equiv> stable (sys_rely se mine)"

lemma stable_conj: "stable R P \<Longrightarrow> stable R Q \<Longrightarrow> stable R (\<lambda>s. P s \<and> Q s)"
  by (auto simp: stable_def)

lemma stable_imp: "(b \<Longrightarrow> stable R P) \<Longrightarrow> stable R (\<lambda>s. b \<longrightarrow> P s)"
  by (auto simp: stable_def)

lemma stable_True: "stable R (\<lambda>_. b)"
  by (simp add: stable_def)

lemma stable_holds: "guarded_key k \<Longrightarrow> v \<in> mine \<Longrightarrow> sys_stable se mine (holds_key se k v)"
  by (auto simp: stable_def sys_rely_def)

lemma stable_log: "sys_stable se mine (\<lambda>w. ev \<in> set (wLog w))"
  by (auto simp: stable_def sys_rely_def)

lemma stable_locked:
  assumes "plain_team t" "plain_id i" "v \<in> mine"
  shows "sys_stable se mine (\<lambda>w. holds_key se (GetLockKey (getSandboxKey t i)) v w \<and> sandbox_at se w t i)"
    "sys_stable se mine (\<lambda>w. holds_key se (GetLockKey (getSandboxKey t i)) v w \<and> no_transition se t i w)"
proof -
  have "locked_by se mine t i w" if "holds_key se (GetLockKey (getSandboxKey t i)) v w" for w
    using that assms(3) by (auto simp: locked_by_def)
  then show "sys_stable se mine (\<lambda>w. holds_key se (GetLockKey (getSandboxKey t i)) v w \<and> sandbox_at se w t i)"
    "sys_stable se mine (\<lambda>w. holds_key se (GetLockKey (getSandboxKey t i)) v w \<and> no_transition se t i w)"
    using assms by (simp_all add: stable_def sys_rely_def)
qed

lemmas stable_intros = stable_conj stable_imp stable_True stable_holds stable_log

lemma rg_quiet:
  assumes "sys_stable se mine P" "\<And>w. quiet se w (snd (f w))"
  shows "sys_rg se mine (\<lambda>_. P) P (prog_script f)"
proof (rule rg_script[OF assms(1)])
  fix s assume "P s"
  then show "P (snd (f s))" "P s \<and> P (snd (f s))"
    using assms(1) quiet_rely[OF assms(2)] by (auto simp: stable_def)
qed (simp_all add: assms(1) quiet_guar[OF assms(2)] quiet_guar[OF quiet_refl])

lemma rg_rquery:
  assumes "sys_stable se mine P"
  shows "sys_rg se mine (\<lambda>x w. P w) P (rquery q)"
  unfolding rquery_def rcmd_def by (rule rg_quiet[OF assms]) simp

lemma rg_rupdate_quiet:
  assumes "sys_stable se mine P" "\<And>w. quiet se w (w\<lparr>wServer := f (wServer w)\<rparr>)"
  shows "sys_rg se mine (\<lambda>_. P) P (rupdate f)"
  unfolding rupdate_def rcmd_def by (rule rg_quiet[OF assms(1)]) (simp add: assms(2))

subsection \<open>Locks\<close>

text \<open>Assertions that do not speak of a lock.\<close>

definition lock_free :: "('r, 'e) storage_env \<Rightarrow> string \<Rightarrow> ('r world \<Rightarrow> bool) \<Rightarrow> bool" where
  "lock_free se key P \<longleftrightarrow> (\<forall>w w'. P w \<longrightarrow> wLog w' = wLog w \<longrightarrow>
     (\<forall>k. k \<noteq> GetLockKey key \<longrightarrow> (k \<in> wLive w' \<longleftrightarrow> k \<in> wLive w) \<and>
        rd_Get (seOps se) (wServer w') k = rd_Get (seOps se) (wServer w) k) \<longrightarrow> P w')"

lemma lock_free_intros:
  "lock_free se key (\<lambda>_. b)" "k \<noteq> GetLockKey key \<Longrightarrow> lock_free se key (holds_key se k v)" "lock_free se key (\<lambda>w. ev \<in> set (wLog w))"
  "lock_free se key P \<Longrightarrow> lock_free se key Q \<Longrightarrow> lock_free se key (\<lambda>w. P w \<and> Q w)"
  unfolding lock_free_def holds_key_def by auto

text \<open>Steps on a guarded key.\<close>

lemma guarded_step:
  assumes "redis (seOps se)" "guarded_key k" "r' = rd_Set (seOps se) (wServer w) k v \<or> r' = rd_Del (seOps se) (wServer w) k \<or> r' = wServer w"
    and "w' = w\<lparr>wServer := r', wLive := L\<rparr>"
  shows "plain_team t \<Longrightarrow> sandbox_at se w' t i = sandbox_at se w t i" "index_agrees se w' = index_agrees se w"
    "l \<noteq> k \<Longrightarrow> rd_Get (seOps se) r' l = rd_Get (seOps se) (wServer w) l"
proof -
  show g: "rd_Get (seOps se) r' l = rd_Get (seOps se) (wServer w) l" if "l \<noteq> k" for l
    using assms(3) that by (auto simp: redis.reads[OF assms(1)])
  have s: "sandbox_at se w' t i = sandbox_at se w t i" if "plain_team t" for t i
    using guarded_not_sandbox[OF assms(2) that, of i] g[of "getSandboxKey t i"] by (simp add: assms(4) sandbox_at_def)
  have "index_of se w' t = index_of se w t" if "plain_team t" for t
    using guarded_not_index[OF assms(2) that] assms(3) by (auto simp: assms(4) index_of_def redis.reads[OF assms(1)])
  then show "index_agrees se w' = index_agrees se w" using s by (simp add: index_agrees_def)
  show "plain_team t \<Longrightarrow> sandbox_at se w' t i = sandbox_at se w t i" by (rule s)
qed

lemma lock_step_guar:
  assumes "redis (seOps se)" "w' = w\<lparr>wServer := r', wLive := L\<rparr>"
    and "r' = rd_Set (seOps se) (wServer w) (GetLockKey key) v \<or> r' = rd_Del (seOps se) (wServer w) (GetLockKey key) \<or> r' = wServer w"
    and "\<And>k. k \<noteq> GetLockKey key \<Longrightarrow> k \<in> L \<longleftrightarrow> k \<in> wLive w"
    and "\<And>u. u \<notin> mine \<Longrightarrow> u \<noteq> [] \<Longrightarrow> \<not> holds_key se (GetLockKey key) u w"
  shows "sys_guar se mine w w'"
proof -
  note g = guarded_step[OF assms(1) guarded_keys(1) assms(3,2)]
  have h: "holds_key se k u w' \<longleftrightarrow> holds_key se k u w" if "k \<noteq> GetLockKey key" for k u
    using g(3)[OF that] assms(4)[OF that] by (simp add: holds_key_def assms(2))
  have n: "no_transition se t i w' \<longleftrightarrow> no_transition se t i w" for t i
    using g(3)[of "getTransitionKey t i"] by (simp add: no_transition_def assms(2))
  have o: "open_transitions w' = open_transitions w" "wLog w' = wLog w" by (simp_all add: assms(2) open_transitions_def fun_eq_iff)
  have "holds_key se k u w'" if "u \<notin> mine" "u \<noteq> []" "holds_key se k u w" for k u
    using that h assms(5) by (cases "k = GetLockKey key") auto
  moreover have "transitions_tracked se w \<Longrightarrow> transitions_tracked se w'"
    by (simp add: transitions_tracked_def o h)
  ultimately show ?thesis using g(1,2) n o by (simp add: sys_guar_def)
qed

lemma lock_step_rely:
  assumes "redis (seOps se)" "w' = w\<lparr>wServer := rd_Set (seOps se) (wServer w) (GetLockKey key) v, wLive := L\<rparr>"
    and "\<And>k. k \<noteq> GetLockKey key \<Longrightarrow> k \<in> L \<longleftrightarrow> k \<in> wLive w" "rd_Get (seOps se) (wServer w) (GetLockKey key) = None"
  shows "sys_rely se mine w w'"
proof -
  note g = guarded_step[where k = "GetLockKey key" and v = v, OF assms(1) guarded_keys(1) _ assms(2), simplified]
  have h: "holds_key se k u w \<Longrightarrow> holds_key se k u w'" for k u
    using g(3)[of k] assms(3)[of k] assms(4) by (cases "k = GetLockKey key") (auto simp: holds_key_def assms(2))
  have n: "no_transition se t i w' \<longleftrightarrow> no_transition se t i w" for t i
    using g(3)[of "getTransitionKey t i"] by (simp add: no_transition_def assms(2))
  show ?thesis using g(1) h n by (simp add: sys_rely_def assms(2))
qed

lemma lock_laws:
  assumes "storage_laws se"
  shows "seTryLock se r k token = (if rd_Get (seOps se) r k = None then Some (rd_Set (seOps se) r k token) else None)"
    "seUnlock se r k token = (if rd_Get (seOps se) r k = Some token then rd_Del (seOps se) r k else r)"
proof -
  have l: "redislock (seOps se) (seTryLock se) (seUnlock se)" using assms by (simp add: storage_laws_def)
  show "seTryLock se r k token = (if rd_Get (seOps se) r k = None then Some (rd_Set (seOps se) r k token) else None)"
    by (rule redislock.try_lock[OF l])
  show "seUnlock se r k token = (if rd_Get (seOps se) r k = Some token then rd_Del (seOps se) r k else r)"
    by (rule redislock.unlock[OF l])
qed

lemma rg_Obtain:
  fixes se :: "('r, 'e) storage_env"
  assumes rd: "redis (seOps se)" and sl: "storage_laws se" and P: "sys_stable se mine P" and m: "token \<in> mine"
  shows "sys_rg se mine (\<lambda>x w. P w \<and> (x = Inr () \<longrightarrow> holds_key se (GetLockKey key) token w)) P (lock_Obtain se key token)"
  unfolding lock_Obtain_def
proof (rule rg_await)
  fix s :: "'r world"
  let ?s = "\<lambda>L. s\<lparr>wServer := the (seTryLock se (wServer s) (GetLockKey key) token), wLive := L\<rparr>"
  assume s: "P s" and free: "seTryLock se (wServer s) (GetLockKey key) token \<noteq> None"
  have n: "rd_Get (seOps se) (wServer s) (GetLockKey key) = None" using free by (simp add: lock_laws(1)[OF sl] split: if_splits)
  have e: "the (seTryLock se (wServer s) (GetLockKey key) token) = rd_Set (seOps se) (wServer s) (GetLockKey key) token"
    by (simp add: lock_laws(1)[OF sl] n)
  have r: "sys_rely se mine s (?s L)" "sys_guar se mine s (?s L)" if "\<And>k. k \<noteq> GetLockKey key \<Longrightarrow> k \<in> L \<longleftrightarrow> k \<in> wLive s" for L
    unfolding e using lock_step_rely[OF rd refl that n] lock_step_guar[where key = key and v = token, OF rd refl _ that] n by (auto simp: holds_key_def)
  have p: "P (?s L)" if "\<And>k. k \<noteq> GetLockKey key \<Longrightarrow> k \<in> L \<longleftrightarrow> k \<in> wLive s" for L
    using P s r(1)[OF that] unfolding stable_def by blast
  show "sys_guar se mine s (?s (insert (GetLockKey key) (wLive s))) \<and>
    (P (?s (insert (GetLockKey key) (wLive s))) \<and>
     (Inr () = Inr () \<longrightarrow> holds_key se (GetLockKey key) token (?s (insert (GetLockKey key) (wLive s)))))"
    using r(2) p by (simp add: e holds_key_def redis.Get_Set[OF rd])
  show "sys_guar se mine s (?s (wLive s - {GetLockKey key})) \<and>
    (P (?s (wLive s - {GetLockKey key})) \<and> (Inl e = Inr () \<longrightarrow> holds_key se (GetLockKey key) token (?s (wLive s - {GetLockKey key}))))"
    for e using r(2) p by simp
qed (use P m in \<open>auto intro!: stable_intros simp: quiet_guar\<close>)

lemma rg_Release:
  fixes se :: "('r, 'e) storage_env"
  assumes rd: "redis (seOps se)" and sl: "storage_laws se" and P: "sys_stable se mine P" "lock_free se key P" and m: "token \<in> mine"
  shows "sys_rg se mine (\<lambda>_. P) (\<lambda>w. P w \<and> holds_key se (GetLockKey key) token w) (lock_Release se key token)"
  unfolding lock_Release_def
proof (rule rg_attempt)
  fix s :: "'r world"
  let ?s = "\<lambda>r. s\<lparr>wServer := r, wLive := wLive s - {GetLockKey key}\<rparr>" and ?d = "seUnlock se (wServer s) (GetLockKey key) token"
  assume s: "P s \<and> holds_key se (GetLockKey key) token s"
  have d: "?d = rd_Del (seOps se) (wServer s) (GetLockKey key)" using s by (simp add: lock_laws(2)[OF sl] holds_key_def)
  have g: "sys_guar se mine s (?s r)" if "r = rd_Del (seOps se) (wServer s) (GetLockKey key) \<or> r = wServer s" for r
    using lock_step_guar[where key = key and w = s and r' = r and L = "wLive s - {GetLockKey key}" and mine = mine, OF rd refl] that s m by (auto simp: holds_key_def)
  have p: "P (?s r)" if "r = rd_Del (seOps se) (wServer s) (GetLockKey key) \<or> r = wServer s" for r
    using P(2) s that unfolding lock_free_def by (auto simp: redis.Get_Del[OF rd])
  show "sys_guar se mine s (s\<lparr>wLive := wLive s - {GetLockKey key}\<rparr>) \<and> sys_guar se mine s (snd ((), ?s ?d))"
    using g[of "wServer s"] g[of ?d] d by simp
  show "P (snd ((), ?s ?d))" "P (s\<lparr>wLive := wLive s - {GetLockKey key}\<rparr>) \<and> P (snd ((), ?s ?d))"
    using p[of "wServer s"] p[of ?d] d by simp_all
qed (use P m in \<open>auto intro!: stable_intros\<close>)

lemma rg_with_lock:
  assumes rd: "redis (seOps se)" and sl: "storage_laws se" and P: "sys_stable se mine P" and m: "token \<in> mine"
    and Q: "\<And>a. sys_stable se mine (Q a)" "\<And>a. lock_free se key (Q a)" "\<And>e w. P w \<Longrightarrow> Q (failed e) w"
    and body: "sys_rg se mine (\<lambda>a w. Q a w \<and> holds_key se (GetLockKey key) token w)
      (\<lambda>w. P w \<and> holds_key se (GetLockKey key) token w) body"
  shows "sys_rg se mine Q P (with_lock se key token failed body)"
  unfolding with_lock_def
proof (rule rg_try[OF rg_Obtain[OF rd sl P m]])
  show "sys_rg se mine Q (\<lambda>w. P w \<and> (Inl e = Inr () \<longrightarrow> holds_key se (GetLockKey key) token w)) (Done (failed e))" for e
    using P Q(3) by (auto intro!: rg.rg_Done)
  have "sys_rg se mine Q (\<lambda>w. P w \<and> holds_key se (GetLockKey key) token w) (prog_bind body (\<lambda>a. prog_bind (lock_Release se key token) (\<lambda>_. Done a)))"
    by (rule rg_bind[OF body], rule rg_bind[OF rg_Release[OF rd sl Q(1,2) m]]) (auto intro: rg.rg_Done Q(1))
  then show "sys_rg se mine Q (\<lambda>w. P w \<and> (Inr u = Inr () \<longrightarrow> holds_key se (GetLockKey key) token w))
    (prog_bind body (\<lambda>a. prog_bind (lock_Release se key token) (\<lambda>_. Done a)))" for u by simp
qed

subsection \<open>Storing and removing\<close>

text \<open>A step that leaves the guarded keys, the live keys and the log alone.\<close>

lemma sandbox_step:
  assumes "\<And>k. guarded_key k \<Longrightarrow> rd_Get (seOps se) r' k = rd_Get (seOps se) (wServer w) k" "w' = w\<lparr>wServer := r'\<rparr>"
    and "\<And>t i. plain_team t \<Longrightarrow> plain_id i \<Longrightarrow> sandbox_at se w t i \<Longrightarrow> sandbox_at se w' t i \<or> locked_by se mine t i w"
    and "index_agrees se w \<Longrightarrow> index_agrees se w'"
  shows "sys_guar se mine w w'"
proof -
  have h: "holds_key se k v w' = holds_key se k v w" if "guarded_key k" for k v
    using assms(1)[OF that] by (simp add: holds_key_def assms(2))
  have "no_transition se t i w' = no_transition se t i w" if "plain_team t" "plain_id i" for t i
    using assms(1)[of "getTransitionKey t i"] that by (simp add: no_transition_def assms(2))
  moreover have "transitions_tracked se w' = transitions_tracked se w" "set (wLog w) \<subseteq> set (wLog w')"
    using h by (simp_all add: transitions_tracked_def open_transitions_def assms(2))
  ultimately show ?thesis unfolding sys_guar_def using h assms(3,4) by blast
qed

lemma sandbox_step_rely:
  assumes "\<And>k. guarded_key k \<Longrightarrow> rd_Get (seOps se) r' k = rd_Get (seOps se) (wServer w) k" "w' = w\<lparr>wServer := r'\<rparr>"
    and "\<And>t i. plain_team t \<Longrightarrow> plain_id i \<Longrightarrow> sandbox_at se w t i \<Longrightarrow> sandbox_at se w' t i"
  shows "sys_rely se mine w w'"
proof -
  have "holds_key se k v w' = holds_key se k v w" if "guarded_key k" for k v
    using assms(1)[OF that] by (simp add: holds_key_def assms(2))
  moreover have "no_transition se t i w' = no_transition se t i w" if "plain_team t" "plain_id i" for t i
    using assms(1)[of "getTransitionKey t i"] that by (simp add: no_transition_def assms(2))
  ultimately show ?thesis using assms(3) by (simp add: sys_rely_def assms(2))
qed

lemma add_step:
  fixes se :: "('r, 'e) storage_env" and w w' :: "'r world"
  assumes rd: "redis (seOps se)" and t: "plain_team t"
    and w': "w' = w\<lparr>wServer := addSandboxScript (seOps se) (getSandboxKey t i) (GetSandboxStorageTeamIndexKey t) data i (wServer w)\<rparr>"
  shows "sys_guar se mine w w'" "sys_rely se mine w w'"
proof -
  let ?r = "addSandboxScript (seOps se) (getSandboxKey t i) (GetSandboxStorageTeamIndexKey t) data i (wServer w)"
  have g: "rd_Get (seOps se) ?r k = rd_Get (seOps se) (wServer w) k" if "guarded_key k" for k
    using guarded_not_sandbox[OF that t, of i] guarded_not_index[OF that t] by (simp add: addSandboxScript_def redis.reads[OF rd])
  have s: "sandbox_at se w' u j \<longleftrightarrow> sandbox_at se w u j \<or> (u = t \<and> j = i)" if "plain_team u" for u j
    using t that by (auto simp: w' sandbox_at_def addSandboxScript_def redis.reads[OF rd])
  have n: "index_of se w' u = (if u = t then insert i (index_of se w u) else index_of se w u)" if "plain_team u" for u
    using t that by (auto simp: w' index_of_def addSandboxScript_def redis.reads[OF rd])
  show "sys_guar se mine w w'" "sys_rely se mine w w'"
    by (rule sandbox_step[OF g w'], use s n in \<open>auto simp: index_agrees_def\<close>) (rule sandbox_step_rely[OF g w'], use s in auto)
qed

lemma set_step:
  fixes se :: "('r, 'e) storage_env" and w w' :: "'r world"
  assumes rd: "redis (seOps se)" and t: "plain_team t" and here: "sandbox_at se w t i"
    and w': "w' = w\<lparr>wServer := rd_Set (seOps se) (wServer w) (getSandboxKey t i) data\<rparr>"
  shows "sys_guar se mine w w'" "sys_rely se mine w w'"
proof -
  have g: "rd_Get (seOps se) (rd_Set (seOps se) (wServer w) (getSandboxKey t i) data) k = rd_Get (seOps se) (wServer w) k" if "guarded_key k" for k
    using guarded_not_sandbox[OF that t, of i] by (simp add: redis.reads[OF rd])
  have s: "sandbox_at se w' u j \<longleftrightarrow> sandbox_at se w u j" if "plain_team u" for u j
    using t that here by (auto simp: w' sandbox_at_def redis.reads[OF rd])
  have n: "index_of se w' u = index_of se w u" if "plain_team u" for u
    using t that by (simp add: w' index_of_def redis.reads[OF rd])
  show "sys_guar se mine w w'" "sys_rely se mine w w'"
    by (rule sandbox_step[OF g w'], use s n in \<open>auto simp: index_agrees_def\<close>) (rule sandbox_step_rely[OF g w'], use s in auto)
qed

lemma remove_step:
  fixes se :: "('r, 'e) storage_env" and w w' :: "'r world"
  assumes rd: "redis (seOps se)" and t: "plain_team t" and here: "locked_by se mine t i w"
    and w': "w' = w\<lparr>wServer := removeSandboxScript (seOps se) (getSandboxKey t i) (GetSandboxStorageTeamIndexKey t) i (wServer w)\<rparr>"
  shows "sys_guar se mine w w'" "guarded_key k \<Longrightarrow> holds_key se k v w' = holds_key se k v w"
proof -
  let ?r = "removeSandboxScript (seOps se) (getSandboxKey t i) (GetSandboxStorageTeamIndexKey t) i (wServer w)"
  have g: "rd_Get (seOps se) ?r k = rd_Get (seOps se) (wServer w) k" if "guarded_key k" for k
    using guarded_not_sandbox[OF that t, of i] guarded_not_index[OF that t] by (simp add: removeSandboxScript_def redis.reads[OF rd])
  have s: "sandbox_at se w' u j \<longleftrightarrow> sandbox_at se w u j \<and> \<not> (u = t \<and> j = i)" if "plain_team u" for u j
    using t that by (auto simp: w' sandbox_at_def removeSandboxScript_def redis.reads[OF rd])
  have n: "index_of se w' u = (if u = t then index_of se w u - {i} else index_of se w u)" if "plain_team u" for u
    using t that by (auto simp: w' index_of_def removeSandboxScript_def redis.reads[OF rd])
  show "sys_guar se mine w w'"
    by (rule sandbox_step[OF g w'], use s n here in \<open>auto simp: index_agrees_def\<close>)
  show "guarded_key k \<Longrightarrow> holds_key se k v w' = holds_key se k v w" using g by (simp add: w' holds_key_def)
qed

subsection \<open>The operations of the storage\<close>

abbreviation sys_any :: "('r, 'e) storage_env \<Rightarrow> string set \<Rightarrow> ('r, 'e, 'a) rprog \<Rightarrow> bool" where
  "sys_any se mine \<equiv> sys_rg se mine (\<lambda>_ _. True) (\<lambda>_. True)"

lemma rg_rupdate:
  assumes "sys_stable se mine P" "\<And>w. P w \<Longrightarrow> sys_guar se mine w (w\<lparr>wServer := f (wServer w)\<rparr>) \<and> P (w\<lparr>wServer := f (wServer w)\<rparr>)"
  shows "sys_rg se mine (\<lambda>_. P) P (rupdate f)"
  unfolding rupdate_def rcmd_def using assms by (intro rg_script) (auto simp: quiet_guar)

lemma any_Done: "sys_any se mine (Done a)"
  by (simp add: rg.rg_Done stable_True)

lemma any_bind: "sys_any se mine p \<Longrightarrow> (\<And>a. sys_any se mine (k a)) \<Longrightarrow> sys_any se mine (prog_bind p k)"
  by (rule rg_bind)

lemma any_try: "sys_any se mine p \<Longrightarrow> (\<And>e. sys_any se mine (h e)) \<Longrightarrow> (\<And>a. sys_any se mine (k a)) \<Longrightarrow> sys_any se mine (prog_try p h k)"
  by (rule rg_try)

lemma any_failed: "sys_any se mine (redis_failed e)"
  by (simp add: redis_failed_def any_Done)

lemma any_query: "sys_any se mine (rquery q)"
  by (rule rg_rquery[OF stable_True])

lemma any_update: "(\<And>w. quiet se w (w\<lparr>wServer := f (wServer w)\<rparr>)) \<Longrightarrow> sys_any se mine (rupdate f)"
  by (rule rg_rupdate_quiet[OF stable_True])

lemma any_pipeline: "sys_any se mine (rpipeline qs)"
  by (induction qs) (auto intro!: any_bind any_query any_Done)

lemmas any_intros = any_Done any_bind any_try any_failed any_query any_pipeline

lemma any_void: "sys_any se mine p \<Longrightarrow> sys_any se mine (prog_void p)"
  unfolding prog_void_def by (intro any_intros)

lemma any_Get: "sys_any se mine (rs_Get se teamID i)"
  unfolding rs_Get_def by (intro any_intros)

lemma any_Add:
  assumes "redis (seOps se)" "storage_laws se"
  shows "sys_any se mine (rs_Add se now sbx)"
proof -
  have t: "plain_team (seString se u)" for u using assms(2) by (simp add: storage_laws_def)
  have a: "sys_any se mine (rupdate (addSandboxScript (seOps se) (getSandboxKey (seString se u) i)
      (GetSandboxStorageTeamIndexKey (seString se u)) data i))" for u i data
    by (rule rg_rupdate[OF stable_True]) (simp add: add_step[OF assms(1) t refl])
  show ?thesis unfolding rs_Add_def Let_def
    by (cases "seMarshal se sbx") (auto intro!: any_intros any_update a quiet_global[OF assms(1)])
qed

lemma any_lists:
  assumes "redis (seOps se)"
  shows "sys_any se mine (rs_TeamItems se teamID states)" "sys_any se mine (rs_TeamsWithSandboxCount se now)"
    "sys_any se mine (rs_ExpiredItems se order now' since)" "sys_any se mine (rs_Reconcile se order now' sbxs)"
  unfolding rs_TeamItems_def rs_TeamsWithSandboxCount_def rs_ExpiredItems_def rs_Reconcile_def Let_def
  by (auto intro!: any_intros any_update quiet_global[OF assms])

lemma any_Remove:
  assumes rd: "redis (seOps se)" and pl: "storage_laws se" "plain_id i" and m: "token \<in> mine"
  shows "sys_any se mine (rs_Remove se token teamID i)"
proof -
  let ?t = "seString se teamID"
  let ?lk = "holds_key se (GetLockKey (getSandboxKey ?t i)) token"
  have t: "plain_team ?t" using pl by (simp add: storage_laws_def)
  have st: "sys_stable se mine ?lk" by (simp add: stable_holds m)
  have r: "sys_rg se mine (\<lambda>_. ?lk) ?lk (rupdate (removeSandboxScript (seOps se) (getSandboxKey ?t i) (GetSandboxStorageTeamIndexKey ?t) i))"
  proof (rule rg_rupdate[OF st])
    fix w assume w: "?lk w"
    then have "locked_by se mine ?t i w" using m by (auto simp: locked_by_def)
    then show "sys_guar se mine w (w\<lparr>wServer := removeSandboxScript (seOps se) (getSandboxKey ?t i) (GetSandboxStorageTeamIndexKey ?t) i (wServer w)\<rparr>) \<and>
        ?lk (w\<lparr>wServer := removeSandboxScript (seOps se) (getSandboxKey ?t i) (GetSandboxStorageTeamIndexKey ?t) i (wServer w)\<rparr>)"
      using remove_step[OF rd t _ refl] w by simp
  qed
  have z: "sys_rg se mine (\<lambda>_. ?lk) ?lk (rupdate (\<lambda>r. rd_ZRem (seOps se) r globalExpirationSet x))" for x
    by (rule rg_rupdate_quiet[OF st]) (rule quiet_global[OF rd])
  have d: "sys_rg se mine (\<lambda>_. ?lk) ?lk (Done x)" for x by (rule rg.rg_Done[OF st])
  show ?thesis unfolding rs_Remove_def Let_def
    by (rule rg_with_lock[OF rd pl(1) stable_True m]) (auto simp: stable_True lock_free_intros redis_failed_def intro!: rg_try[OF r] rg_try[OF z] d)
qed

lemma rg_rquery_dep:
  assumes "sys_stable se mine P" "\<And>x. sys_stable se mine (Q x)" "\<And>w. P w \<Longrightarrow> Q (Inr (q (wServer w))) w" "\<And>e w. P w \<Longrightarrow> Q (Inl e) w"
  shows "sys_rg se mine Q P (rquery q)"
  unfolding rquery_def rcmd_def by (rule rg_script) (use assms in \<open>auto simp: quiet_guar\<close>)

lemma rg_Update:
  fixes se :: "('r, 'e) storage_env"
  assumes rd: "redis (seOps se)" and pl: "storage_laws se" "plain_id i" and m: "token \<in> mine"
    and X: "sys_stable se mine X" "lock_free se (getSandboxKey (seString se teamID) i) X"
  shows "sys_rg se mine (\<lambda>_. X) X (rs_Update se token teamID i f)"
proof -
  let ?t = "seString se teamID"
  let ?lk = "holds_key se (GetLockKey (getSandboxKey ?t i)) token"
  have t: "plain_team ?t" using pl by (simp add: storage_laws_def)
  define Y where "Y b w \<longleftrightarrow> X w \<and> ?lk w \<and> (b \<longrightarrow> sandbox_at se w ?t i)" for b w
  have Y: "sys_stable se mine (Y b)" for b
    using stable_conj[OF X(1) stable_locked(1)[OF t pl(2) m]] stable_conj[OF X(1) stable_holds[OF _ m]]
    by (cases b) (simp_all add: Y_def[abs_def])
  have q: "sys_rg se mine (\<lambda>x. Y (\<exists>d. x = Inr (Some d))) (Y False) (rquery (\<lambda>r. rd_Get (seOps se) r (getSandboxKey ?t i)))"
    by (rule rg_rquery_dep) (auto simp: Y Y_def sandbox_at_def)
  have u: "sys_rg se mine (\<lambda>_. Y True) (Y True) (rupdate (\<lambda>r. rd_Set (seOps se) r (getSandboxKey ?t i) d))" for d
  proof (rule rg_rupdate[OF Y])
    fix w assume w: "Y True w"
    then have g: "sys_guar se mine w (w\<lparr>wServer := rd_Set (seOps se) (wServer w) (getSandboxKey ?t i) d\<rparr>)"
      "sys_rely se mine w (w\<lparr>wServer := rd_Set (seOps se) (wServer w) (getSandboxKey ?t i) d\<rparr>)"
      using set_step[OF rd t _ refl] by (auto simp: Y_def)
    then show "sys_guar se mine w (w\<lparr>wServer := rd_Set (seOps se) (wServer w) (getSandboxKey ?t i) d\<rparr>) \<and>
        Y True (w\<lparr>wServer := rd_Set (seOps se) (wServer w) (getSandboxKey ?t i) d\<rparr>)"
      using Y[of True] w unfolding stable_def by blast
  qed
  have z: "sys_rg se mine (\<lambda>_. Y True) (Y True) (rupdate (\<lambda>r. rd_ZAdd (seOps se) r globalExpirationSet n x))" for n x
    by (rule rg_rupdate_quiet[OF Y]) (rule quiet_global[OF rd])
  have d: "sys_rg se mine (\<lambda>_ w. X w \<and> ?lk w) (Y b) (Done x)" for x b by (rule rg.rg_Done[OF Y]) (simp add: Y_def)
  have y: "(\<lambda>w. X w \<and> ?lk w) = Y False" by (simp add: Y_def[abs_def])
  show ?thesis unfolding rs_Update_def Let_def
    by (rule rg_with_lock[OF rd pl(1) X(1) m X(1,2)])
      (auto split: option.splits go.splits simp: y redis_failed_def intro!: d[unfolded y] rg_try[OF q] rg_try[OF u] rg_try[OF z])
qed

subsection \<open>Transitions\<close>

lemma any_waiting:
  "sys_any se mine (checkTransitionResult se k)" "sys_any se mine (waitForTransition se teamID i x)"
  "sys_any se mine (rs_WaitForStateChange se teamID i)"
proof -
  have l: "sys_any se mine (prog_local (\<lambda>w. (q w, w)))" for q :: "'a world \<Rightarrow> nat"
    by (rule rg_local) (simp_all add: stable_True quiet_guar)
  have a: "sys_any se mine (prog_await g (\<lambda>w. w) (\<lambda>w. w))" for g
    by (rule rg_await) (simp_all add: stable_True quiet_guar)
  show c: "sys_any se mine (checkTransitionResult se k)" for k
    unfolding checkTransitionResult_def by (intro any_intros)
  show "sys_any se mine (waitForTransition se teamID i x)" for x
    unfolding waitForTransition_def Let_def by (auto intro!: any_intros l a c)
  then show "sys_any se mine (rs_WaitForStateChange se teamID i)"
    unfolding rs_WaitForStateChange_def by (auto intro!: any_intros split: option.splits)
qed

text \<open>The script that starts a transition, run under the lock where there is none.\<close>

lemma start_step:
  fixes se :: "('r, 'e) storage_env" and w w' :: "'r world"
  assumes rd: "redis (seOps se)" and pl: "plain_team t" "plain_id i" and lk: "locked_by se mine t i w"
    and here: "sandbox_at se w t i" "no_transition se t i w"
    and w': "w' = w\<lparr>wServer := startTransitionScript (seOps se) (getSandboxKey t i) (getTransitionKey t i)
        (getTransitionResultKey t i x) data x (wServer w), wLive := L\<rparr>"
    and L: "\<And>k. k \<noteq> getTransitionKey t i \<Longrightarrow> k \<in> L \<longleftrightarrow> k \<in> wLive w"
  shows "sys_guar se mine w w'" "getTransitionKey t i \<in> L \<Longrightarrow> holds_key se (getTransitionKey t i) x w'"
    "holds_key se (GetLockKey l) v w' = holds_key se (GetLockKey l) v w"
proof -
  have g: "rd_Get (seOps se) (wServer w') k = (if k = getTransitionKey t i then Some x else rd_Get (seOps se) (wServer w) k)" if "guarded_key k" for k
    using that pl guarded_not_sandbox[OF that pl(1), of i]
    by (auto simp: w' startTransitionScript_def redis.reads[OF rd] guarded_key_def transition_keys_differ)
  have h: "holds_key se k v w' = holds_key se k v w" if "guarded_key k" "k \<noteq> getTransitionKey t i" for k v
    using g[OF that(1)] L[OF that(2)] that(2) by (simp add: holds_key_def w')
  show "getTransitionKey t i \<in> L \<Longrightarrow> holds_key se (getTransitionKey t i) x w'"
    using g[of "getTransitionKey t i"] pl by (simp add: holds_key_def w')
  show "holds_key se (GetLockKey l) v w' = holds_key se (GetLockKey l) v w" by (rule h) auto
  have n: "\<not> holds_key se (getTransitionKey t i) v w" if "v \<noteq> []" for v
    using here(2) that by (auto simp: holds_key_def no_transition_def)
  have s: "sandbox_at se w' u j = sandbox_at se w u j" if "plain_team u" "plain_id j" for u j
    using pl that here(1) by (auto simp: w' startTransitionScript_def sandbox_at_def redis.reads[OF rd])
  have d: "index_of se w' u = index_of se w u" if "plain_team u" for u
    using pl(1) that by (simp add: w' startTransitionScript_def index_of_def redis.reads[OF rd])
  have tr: "no_transition se u j w \<Longrightarrow> no_transition se u j w' \<or> (u = t \<and> j = i)" if "plain_team u" "plain_id j" for u j
    using g[of "getTransitionKey u j"] that pl(1) by (auto simp: no_transition_def)
  have o: "open_transitions w' = open_transitions w" "wLog w' = wLog w" by (simp_all add: w' open_transitions_def fun_eq_iff)
  have k: "transitions_tracked se w'" if "transitions_tracked se w"
    using that n pl(1) unfolding transitions_tracked_def o by (metis guarded_keys(2) h keys_differ(3))
  have a: "index_agrees se w'" if "index_agrees se w" using that s d by (simp add: index_agrees_def)
  have c: "holds_key se k v w'" if "guarded_key k" "v \<noteq> []" "holds_key se k v w" for k v
    using h[OF that(1)] n[OF that(2)] that(3) by (cases "k = getTransitionKey t i") auto
  show "sys_guar se mine w w'"
    unfolding sys_guar_def o using s tr k a c lk by blast
qed

text \<open>What a caller holds that has started a transition.\<close>

definition owns_transition :: "('r, 'e) storage_env \<Rightarrow> string set \<Rightarrow> string \<Rightarrow> 'e start_result \<Rightarrow> 'r world \<Rightarrow> bool" where
  "owns_transition se mine t out w \<longleftrightarrow> (\<forall>s b action j x. out = (s, Ok (b, RFinish action j x)) \<longrightarrow>
     plain_id j \<and> x \<in> mine \<and> holds_key se (getTransitionKey t j) x w)"

lemma stable_owns: "plain_team t \<Longrightarrow> sys_stable se mine (owns_transition se mine t out)"
  unfolding stable_def owns_transition_def sys_rely_def by (blast intro: guarded_keys(2))

lemma lock_free_owns: "lock_free se (getSandboxKey u i) (owns_transition se mine t out)"
  unfolding lock_free_def owns_transition_def holds_key_def by (simp add: lock_keys_differ)

definition locked_out :: "('r, 'e) storage_env \<Rightarrow> string set \<Rightarrow> string \<Rightarrow> 'e start_locked \<Rightarrow> 'r world \<Rightarrow> bool" where
  "locked_out se mine t out w = (case out of StartReturns r \<Rightarrow> owns_transition se mine t r w | StartWaits sbx x \<Rightarrow> plain_id (SandboxID sbx))"

lemma stable_out: "plain_team t \<Longrightarrow> sys_stable se mine (locked_out se mine t out)"
  by (cases out) (simp_all add: locked_out_def[abs_def] stable_owns stable_True)

lemma lock_free_out: "lock_free se (getSandboxKey u i) (locked_out se mine t out)"
  by (cases out) (simp_all add: locked_out_def[abs_def] lock_free_owns lock_free_intros)

lemma log_started_step:
  assumes "holds_key se (getTransitionKey t i) x w" "x \<noteq> []" "plain_team t"
  shows "sys_guar se mine w (w\<lparr>wLog := wLog w @ [TransitionStarted t i x]\<rparr>)"
proof -
  let ?w = "w\<lparr>wLog := wLog w @ [TransitionStarted t i x]\<rparr>"
  have h: "holds_key se k v ?w = holds_key se k v w" "no_transition se u j ?w = no_transition se u j w"
    "sandbox_at se ?w u j = sandbox_at se w u j" "index_agrees se ?w = index_agrees se w" for k v u j
    by (simp_all add: holds_key_def no_transition_def sandbox_at_def index_agrees_def index_of_def)
  have "y \<in> open_transitions w u j \<or> (u = t \<and> j = i \<and> y = x)" if "y \<in> open_transitions ?w u j" for y u j
    using that by (auto simp: open_transitions_def)
  then have "transitions_tracked se w \<Longrightarrow> transitions_tracked se ?w"
    using assms(1,2) unfolding transitions_tracked_def h by blast
  then show ?thesis by (auto simp: sys_guar_def h)
qed

lemma rg_transition_start:
  fixes se :: "('r, 'e) storage_env"
  assumes rd: "redis (seOps se)" and pl: "plain_team t" "plain_id i" and m: "token \<in> mine" "x \<in> mine"
    and lk: "lk = holds_key se (GetLockKey (getSandboxKey t i)) token"
  shows "sys_rg se mine (\<lambda>r w. lk w \<and> (r = Inr () \<longrightarrow> holds_key se (getTransitionKey t i) x w))
    (\<lambda>w. (lk w \<and> sandbox_at se w t i) \<and> (lk w \<and> no_transition se t i w)) (transition_start se t i data x)"
  unfolding transition_start_def Let_def
proof (rule rg_await)
  let ?h = "holds_key se (getTransitionKey t i) x"
  show "sys_stable se mine (\<lambda>w. (lk w \<and> sandbox_at se w t i) \<and> (lk w \<and> no_transition se t i w))"
    unfolding lk by (intro stable_conj stable_locked pl m)
  show "sys_stable se mine (\<lambda>w. lk w \<and> (r = Inr () \<longrightarrow> ?h w))" for r :: "'e + unit"
    unfolding lk by (intro stable_intros) (simp_all add: m pl)
  fix w assume w: "(lk w \<and> sandbox_at se w t i) \<and> (lk w \<and> no_transition se t i w)"
  then have l: "locked_by se mine t i w" using m by (auto simp: locked_by_def lk)
  note step = start_step[OF rd pl l _ _ refl, where x = x and data = data]
  let ?w = "\<lambda>L. w\<lparr>wServer := startTransitionScript (seOps se) (getSandboxKey t i) (getTransitionKey t i)
    (getTransitionResultKey t i x) data x (wServer w), wLive := L\<rparr>"
  show "sys_guar se mine w (?w (insert (getTransitionKey t i) (wLive w))) \<and>
    (lk (?w (insert (getTransitionKey t i) (wLive w))) \<and> (Inr () = Inr () \<longrightarrow> ?h (?w (insert (getTransitionKey t i) (wLive w)))))"
    using step w by (simp add: lk)
  show "sys_guar se mine w (?w (wLive w - {getTransitionKey t i})) \<and>
    (lk (?w (wLive w - {getTransitionKey t i})) \<and> (Inl e = Inr () \<longrightarrow> ?h (?w (wLive w - {getTransitionKey t i}))))" for e
    using step w by (simp add: lk)
qed (auto simp: quiet_guar)

lemma rg_log_started:
  assumes "plain_team t" "plain_id i" "token \<in> mine" "x \<in> mine" "x \<noteq> []" "lk = holds_key se (GetLockKey k) token"
  shows "sys_rg se mine (\<lambda>_ w. lk w \<and> holds_key se (getTransitionKey t i) x w) (\<lambda>w. lk w \<and> holds_key se (getTransitionKey t i) x w)
    (log_event (TransitionStarted t i x))"
proof -
  have st: "sys_stable se mine (\<lambda>w. lk w \<and> holds_key se (getTransitionKey t i) x w)"
    unfolding assms(6) by (intro stable_conj stable_holds) (simp_all add: assms)
  show ?thesis unfolding log_event_def
    by (rule rg_local[OF st st]) (use log_started_step[OF _ assms(5,1)] in \<open>auto simp: holds_key_def assms(6)\<close>)
qed

lemma rg_startLocked:
  fixes se :: "('r, 'e) storage_env"
  assumes rd: "redis (seOps se)" and pl: "storage_laws se" "plain_id i" and m: "atToken a \<in> mine" "atID a \<in> mine" "atID a \<noteq> []"
    and t: "t = seString se teamID" and lk: "lk = holds_key se (GetLockKey (getSandboxKey t i)) (atToken a)"
  shows "sys_rg se mine (\<lambda>out w. locked_out se mine t out w \<and> lk w) lk (startLocked se a teamID i opts)"
proof -
  let ?Q = "\<lambda>out w. locked_out se mine t out w \<and> lk w" and ?h = "holds_key se (getTransitionKey t i) (atID a)"
  have pt: "plain_team t" using pl by (simp add: storage_laws_def t)
  define Y where "Y b c w \<longleftrightarrow> lk w \<and> (b \<longrightarrow> lk w \<and> sandbox_at se w t i) \<and> (c \<longrightarrow> lk w \<and> no_transition se t i w)" for b c w
  have Y: "sys_stable se mine (Y b c)" for b c
    unfolding Y_def[abs_def] lk by (intro stable_conj stable_imp stable_locked stable_holds pt pl(2) m(1)) simp
  have y: "lk = Y False False" "(\<lambda>w. (lk w \<and> sandbox_at se w t i) \<and> (lk w \<and> no_transition se t i w)) = Y True True"
    by (auto simp: Y_def[abs_def])
  have q1: "sys_rg se mine (\<lambda>x. Y (\<exists>d. x = Inr (Some d)) False) (Y False False) (rquery (\<lambda>r. rd_Get (seOps se) r (getSandboxKey t i)))"
    by (rule rg_rquery_dep) (auto simp: Y Y_def sandbox_at_def)
  have q2: "sys_rg se mine (\<lambda>x. Y True (x \<in> {Inr None, Inr (Some [])})) (Y True False) (rquery (\<lambda>r. rd_Get (seOps se) r (getTransitionKey t i)))"
    by (rule rg_rquery_dep) (auto simp: Y Y_def no_transition_def)
  have d: "sys_rg se mine ?Q (Y b c) (Done (StartReturns (s, Fail e)))" "sys_rg se mine ?Q (Y b c) (Done (StartReturns (s, Ok (fin, RNoop))))"
    "plain_id (SandboxID sbx) \<Longrightarrow> sys_rg se mine ?Q (Y b c) (Done (StartWaits sbx x))" for b c s e fin sbx x
    by (rule rg.rg_Done[OF Y]; simp add: Y_def locked_out_def owns_transition_def)+
  have f: "sys_rg se mine ?Q (\<lambda>w. lk w \<and> ?h w)
      (prog_bind (log_event (TransitionStarted t i (atID a))) (\<lambda>_. Done (StartReturns (s, Ok (b, RFinish action i (atID a))))))" for s b action
    by (rule rg_bind[OF rg_log_started[OF pt pl(2) m lk]], rule rg.rg_Done)
      (use m pl pt in \<open>auto simp: locked_out_def owns_transition_def lk intro!: stable_intros\<close>)
  have st: "sys_rg se mine ?Q (Y True True) (prog_try (transition_start se t i data (atID a))
      (\<lambda>e. Done (StartReturns (s, Fail (g e)))) (\<lambda>_. prog_bind (log_event (TransitionStarted t i (atID a)))
        (\<lambda>_. Done (StartReturns (s', Ok (b, RFinish action i (atID a)))))))" for data s g s' b action
    unfolding y(2)[symmetric] by (rule rg_try[OF rg_transition_start[OF rd pt pl(2) m(1,2) lk]]) (simp_all add: d(1)[of False False, folded y(1)] f)
  have us: "plain_id (SandboxID sbx)" if "seUnmarshal se x = Some sbx" for x sbx using pl(1) that by (auto simp: storage_laws_def)
  show ?thesis unfolding startLocked_def Let_def t[symmetric]
    by (auto split: option.splits intro!: rg_try[OF q1[folded y(1)]] rg_try[OF q2] d st us)
qed

lemma rg_StartRemoving:
  assumes "redis (seOps se)" "storage_laws se" "plain_id i" "atToken ` set as \<union> atID ` set as \<subseteq> mine" "[] \<notin> atID ` set as"
  shows "sys_rg se mine (\<lambda>r w. \<forall>out. r = Some out \<longrightarrow> owns_transition se mine (seString se teamID) out w) (\<lambda>_. True)
    (rs_StartRemoving se as teamID i opts)"
  using assms(3-5)
proof (induction as arbitrary: i opts)
  case Nil
  show ?case by (simp add: rg.rg_Done stable_True)
next
  case (Cons a as)
  let ?t = "seString se teamID"
  let ?Q = "\<lambda>r w. \<forall>out. r = Some out \<longrightarrow> owns_transition se mine ?t out w"
  have t: "plain_team ?t" using assms(2) by (simp add: storage_laws_def)
  have d: "sys_rg se mine ?Q (owns_transition se mine ?t r) (Done (Some r))" for r
    by (rule rg.rg_Done[OF stable_owns[OF t]]) simp
  have e: "sys_rg se mine ?Q (\<lambda>_. True) (Done (Some (s, Fail e)))" "sys_rg se mine ?Q (\<lambda>_. True) (Done (Some (s, Panic)))"
    "sys_rg se mine ?Q (\<lambda>_. True) (Done (Some (s, Ok (b, RNoop))))" for s e b
    by (rule rg.rg_Done[OF stable_True]; simp add: owns_transition_def)+
  have l: "sys_rg se mine (locked_out se mine ?t) (\<lambda>_. True) (with_lock se (getSandboxKey ?t i) (atToken a)
      (\<lambda>e. StartReturns (None, Fail (OtherError (CommandFailed e)))) (startLocked se a teamID i opts))"
    by (rule rg_with_lock[OF assms(1,2) stable_True _ stable_out[OF t] lock_free_out])
      (use rg_startLocked[OF assms(1,2) Cons.prems(1) _ _ _ refl refl, of a mine] Cons.prems(2,3) in \<open>auto simp: locked_out_def owns_transition_def\<close>)
  have ih: "sys_rg se mine ?Q (\<lambda>_. True) (rs_StartRemoving se as teamID (SandboxID sbx) opts)" if "plain_id (SandboxID sbx)" for sbx opts
    using Cons.IH[OF that] Cons.prems(2,3) by simp
  show ?case unfolding rs_StartRemoving.simps
  proof (rule rg_bind[OF l], goal_cases)
    case (1 out)
    show ?case
    proof (cases out)
      case (StartReturns r)
      then show ?thesis using d by (simp add: locked_out_def[abs_def])
    next
      case (StartWaits sbx x)
      show ?thesis
      proof (cases "plain_id (SandboxID sbx)")
        case True
        then show ?thesis using StartWaits ih[OF True] e
          by (auto simp: locked_out_def[abs_def] Let_def split: go.splits intro!: rg_bind[OF any_waiting(2)])
      next
        case False
        then show ?thesis using StartWaits by (simp add: locked_out_def[abs_def] rg_False)
      qed
    qed
  qed
qed

lemma owned_transition_guar:
  assumes "redis (seOps se)" "plain_team t" "plain_id i" "x \<in> mine" "holds_key se (getTransitionKey t i) x w" "TransitionComplete t i x \<in> set (wLog w)"
    and "r' = rd_Del (seOps se) (wServer w) (getTransitionKey t i) \<or> r' = wServer w"
    and w': "w' = w\<lparr>wServer := r', wLive := wLive w - {getTransitionKey t i}\<rparr>"
  shows "sys_guar se mine w w'"
proof -
  note g = guarded_step[OF assms(1) guarded_keys(2)[OF assms(2,3)] disjI2[OF assms(7)] w']
  have h: "holds_key se k v w' = holds_key se k v w" if "k \<noteq> getTransitionKey t i" for k v
    using g(3)[OF that] that by (simp add: holds_key_def w')
  have n: "no_transition se u j w'" if "no_transition se u j w" for u j
    using that assms(7) by (auto simp: no_transition_def w' redis.Get_Del[OF assms(1)] split: if_splits)
  have o: "open_transitions w' = open_transitions w" "wLog w' = wLog w" by (simp_all add: w' open_transitions_def fun_eq_iff)
  have c: "holds_key se k v w'" if "v \<notin> mine" "holds_key se k v w" for k v
    using that assms(4,5) h[of k v] by (cases "k = getTransitionKey t i") (auto simp: holds_key_def)
  have k: "transitions_tracked se w'" if tr: "transitions_tracked se w"
    unfolding transitions_tracked_def o
  proof (intro allI impI)
    fix u j y assume p: "plain_team u" "plain_id j" "y \<in> open_transitions w u j"
    then have y: "y \<noteq> []" "holds_key se (getTransitionKey u j) y w" using tr by (auto simp: transitions_tracked_def)
    moreover have "getTransitionKey u j \<noteq> getTransitionKey t i"
    proof
      assume e: "getTransitionKey u j = getTransitionKey t i"
      then have "u = t" "j = i" "y = x" using p y assms(2,5) by (auto simp: holds_key_def)
      then show False using p(3) assms(6) by (simp add: open_transitions_def)
    qed
    ultimately show "y \<noteq> [] \<and> holds_key se (getTransitionKey u j) y w'" using h by simp
  qed
  show ?thesis unfolding sys_guar_def o using g(1,2) n c k by blast
qed

lemma log_complete_step: "sys_guar se mine w (w\<lparr>wLog := wLog w @ [TransitionComplete t i x]\<rparr>)"
proof -
  let ?w = "w\<lparr>wLog := wLog w @ [TransitionComplete t i x]\<rparr>"
  have h: "holds_key se k v ?w = holds_key se k v w" "no_transition se u j ?w = no_transition se u j w"
    "sandbox_at se ?w u j = sandbox_at se w u j" "index_agrees se ?w = index_agrees se w" for k v u j
    by (simp_all add: holds_key_def no_transition_def sandbox_at_def index_agrees_def index_of_def)
  have "open_transitions ?w u j \<subseteq> open_transitions w u j" for u j by (auto simp: open_transitions_def)
  then have "transitions_tracked se w \<Longrightarrow> transitions_tracked se ?w"
    unfolding transitions_tracked_def h by blast
  then show ?thesis by (auto simp: sys_guar_def h)
qed

lemma rg_callback:
  fixes se :: "('r, 'e) storage_env"
  assumes rd: "redis (seOps se)" and pl: "storage_laws se" "plain_id i" and m: "token \<in> mine" "x \<in> mine"
    and t: "t = seString se teamID"
  shows "sys_rg se mine (\<lambda>_ _. True) (holds_key se (getTransitionKey t i) x) (rs_callback se etext token teamID i x action cbErr)"
proof -
  let ?k = "getTransitionKey t i"
  let ?lk = "holds_key se (GetLockKey ?k) token"
  have pt: "plain_team t" using pl by (simp add: storage_laws_def t)
  define V where "V w \<longleftrightarrow> holds_key se ?k x w \<and> TransitionComplete t i x \<in> set (wLog w)" for w
  have V: "sys_stable se mine V" "lock_free se key V" if "?k \<noteq> GetLockKey key" for key
    unfolding V_def[abs_def] by (intro stable_intros lock_free_intros that; simp add: pt pl m)+
  have V1: "sys_stable se mine V" unfolding V_def[abs_def] by (intro stable_intros; simp add: pt pl m)
  have sk: "sys_stable se mine (holds_key se ?k x)" by (intro stable_holds) (simp_all add: pt pl m)
  have lk: "sys_stable se mine ?lk" "sys_stable se mine (\<lambda>w. V w \<and> ?lk w)"
    by (intro stable_conj stable_holds V1; simp add: m)+
  have 1: "sys_rg se mine (\<lambda>_. V) (holds_key se ?k x) (log_event (TransitionComplete t i x))"
    unfolding log_event_def by (rule rg_local[OF sk V1]) (auto simp: log_complete_step V_def holds_key_def)
  have 2: "sys_rg se mine (\<lambda>_. V) V (if b then prog_bind (restoreToRunning se token teamID i st) (\<lambda>r. Done (Some r)) else Done None)" for b st
    unfolding restoreToRunning_def by (auto intro!: rg_bind[OF rg_Update[OF rd pl m(1) V]] rg.rg_Done V1)
  have og: "sys_guar se mine w (w\<lparr>wLive := wLive w - {?k}\<rparr>)"
    "sys_guar se mine w (w\<lparr>wServer := rd_Del (seOps se) (wServer w) ?k, wLive := wLive w - {?k}\<rparr>)" if "V w" for w
    using that owned_transition_guar[OF rd pt pl(2) m(2) _ _ _ refl, of w "wServer w"]
      owned_transition_guar[OF rd pt pl(2) m(2) _ _ _ refl, of w "rd_Del (seOps se) (wServer w) ?k"] by (simp_all add: V_def)
  have 3: "sys_rg se mine (\<lambda>_ _. True) V (give_up ?k)"
    unfolding give_up_def by (rule rg_local[OF V1 stable_True]) (simp add: og)
  have 4: "sys_rg se mine (\<lambda>_ w. V w \<and> ?lk w) (\<lambda>w. V w \<and> ?lk w) (rupdate (\<lambda>r. rd_Set (seOps se) r (getTransitionResultKey t i x) v))" for v
    by (rule rg_rupdate_quiet[OF lk(2)]) (rule quiet_result[OF rd pt pl(2)])
  have 5: "sys_rg se mine (\<lambda>_. ?lk) (\<lambda>w. V w \<and> ?lk w) (transition_end se t i)"
    unfolding transition_end_def
    by (rule rg_attempt[OF lk(2,1)]) (simp_all add: og, simp_all add: holds_key_def redis.Get_Del[OF rd])
  have 6: "sys_rg se mine (\<lambda>_. ?lk) ?lk (prog_script (\<lambda>w. ((), w\<lparr>wPublished := wPublished w @ [y]\<rparr>)))" for y
    by (rule rg_quiet[OF lk(1)]) (simp add: quiet_def same_keys_def sandbox_at_def index_of_def)
  have 7: "sys_rg se mine (\<lambda>_ _. True) ?lk (lock_Release se ?k token)"
    using rg_Release[OF rd pl(1) stable_True lock_free_intros(1) m(1), of True ?k] by simp
  show ?thesis unfolding rs_callback_def Let_def t[symmetric]
    by (rule rg_bind[OF 1] rg_bind[OF 2] rg_try[OF rg_Obtain[OF rd pl(1) V1 m(1)]])+
      (auto intro!: rg_bind[OF 4] rg_bind[OF 5] rg_bind[OF 6] rg_bind[OF 7] 3 any_Done)
qed

subsection \<open>Every request keeps to the guarantee\<close>

lemma quiet_scripts:
  assumes "redis (seOps se)" "storage_laws se"
  shows "quiet se w (w\<lparr>wServer := snd (redis_Reserve (seOps se) (seString se) None now now' teamID i limit (wServer w))\<rparr>)"
    "quiet se w (w\<lparr>wServer := finishStart_with (seOps se) (seString se) teamID i v (wServer w)\<rparr>)"
    "quiet se w (w\<lparr>wServer := snd (redis_Release (seOps se) (seString se) None teamID i (wServer w))\<rparr>)"
proof -
  have t: "plain_team (seString se teamID)" using assms(2) by (simp add: storage_laws_def)
  have g: "k \<noteq> getPendingSetKey (seString se teamID)" "k \<noteq> getResultKey (seString se teamID) i" if "guarded_key k" for k
    using that t by (auto simp: guarded_key_def)
  note defs = redis_Reserve_def redis_Release_def reserveScript_def finishStart_with_def finishStartScript_def releaseScript_def Let_def split_def rd_ZRemRangeByScore_def
  show "quiet se w (w\<lparr>wServer := snd (redis_Reserve (seOps se) (seString se) None now now' teamID i limit (wServer w))\<rparr>)"
    "quiet se w (w\<lparr>wServer := finishStart_with (seOps se) (seString se) teamID i v (wServer w)\<rparr>)"
    "quiet se w (w\<lparr>wServer := snd (redis_Release (seOps se) (seString se) None teamID i (wServer w))\<rparr>)"
    using t by (intro quiet_server same_keysI; simp add: defs redis.reads[OF assms(1)] redis.fold_ZRem_other[OF assms(1)] g split: option.split)+
qed

lemma rg_finish:
  assumes "redis (seOps se)" "storage_laws se" "token \<in> mine"
  shows "sys_rg se mine (\<lambda>_ _. True) (owns_transition se mine (seString se teamID) (s, Ok (b, RFinish action j x)))
    (rs_callback se etext token teamID j x action cbErr)"
proof (cases "plain_id j \<and> x \<in> mine")
  case True
  have "plain_team (seString se teamID)" using assms(2) by (simp add: storage_laws_def)
  then show ?thesis
    using rg_weaken[OF rg_callback[OF assms(1,2) _ assms(3) _ refl] _ stable_owns] True by (simp add: owns_transition_def)
next
  case False
  have "owns_transition se mine (seString se teamID) (s, Ok (b, RFinish action j x)) = (\<lambda>_. False)"
    using False by (auto simp: owns_transition_def[abs_def])
  then show ?thesis by (simp add: rg_False)
qed

lemma any_transition:
  assumes "redis (seOps se)" "storage_laws se" "plain_id i" "insert token (atToken ` set as \<union> atID ` set as) \<subseteq> mine" "[] \<notin> atID ` set as"
  shows "sys_any se mine (transition_prog se as teamID i opts etext token cbErr)"
proof -
  have t: "plain_team (seString se teamID)" using assms(2) by (simp add: storage_laws_def)
  have d: "sys_rg se mine (\<lambda>_ _. True) (owns_transition se mine (seString se teamID) out) (Done ())" for out
    by (rule rg.rg_Done[OF stable_owns[OF t]]) simp
  have "sys_rg se mine (\<lambda>r w. \<forall>out. r = Some out \<longrightarrow> owns_transition se mine (seString se teamID) out w) (\<lambda>_. True)
      (rs_StartRemoving se as teamID i opts)"
    by (rule rg_StartRemoving) (use assms in auto)
  then show ?thesis unfolding transition_prog_def
    by (rule rg_bind) (use assms(4) in \<open>auto split: option.splits go.splits rcallback.splits intro!: d any_Done rg_finish[OF assms(1,2)]\<close>)
qed

lemma any_request:
  assumes rd: "redis (seOps se)" and pl: "storage_laws se" and ok: "request_ok rq" "request_names rq \<subseteq> mine"
  shows "sys_any se mine (request_prog se rq)"
  using ok
proof (cases rq)
  case (RqTransition as teamID i opts etext token cbErr)
  then show ?thesis using ok any_transition[OF rd pl, of i token as mine] by auto
next
  case (RqUpdate token teamID i f)
  then show ?thesis using ok rg_Update[OF rd pl _ _ stable_True lock_free_intros(1)] by (auto intro!: any_void)
qed (auto intro!: any_void any_Add any_Get any_Remove any_lists any_waiting any_update quiet_scripts rd pl)

text \<open>The invariants in every run of requests that do not share tokens and ids.\<close>

theorem system_invariants:
  fixes se :: "('r, 'e) storage_env"
  assumes "redis (seOps se)" "storage_laws se" "requests_ok rqs" "index_agrees se w" "transitions_tracked se w"
    and run: "(prog_step (expires se))\<^sup>*\<^sup>* (w, map (request_prog se) rqs) (w', ps)"
  shows "index_agrees se w' \<and> transitions_tracked se w'"
proof -
  define mine where "mine j = (if j < length rqs then request_names (rqs ! j) else {})" for j
  have ok: "pool_ok (\<lambda>j. sys_rely se (mine j)) (\<lambda>j. sys_guar se (mine j)) (w, map (request_prog se) rqs)"
    unfolding pool_ok_def
  proof (intro allI impI)
    fix i assume i: "i < length (snd (w, map (request_prog se) rqs))"
    have "sys_any se (mine i) (request_prog se (rqs ! i))"
      using any_request[OF assms(1,2), of "rqs ! i" "mine i"] i assms(3) by (auto simp: requests_ok_def mine_def)
    then show "\<exists>P Q. P (fst (w, map (request_prog se) rqs)) \<and>
        rg (sys_rely se (mine i)) (sys_guar se (mine i)) Q P (snd (w, map (request_prog se) rqs) ! i)"
      using i by (intro exI[of _ "\<lambda>_. True"] exI[of _ "\<lambda>_ _. True"]) simp
  qed
  have names: "[] \<notin> request_names rq" if "request_ok rq" for rq :: "'e request" using that by (cases rq) auto
  have ne: "[] \<notin> mine j" for j using names[of "rqs ! j"] assms(3) by (auto simp: mine_def requests_ok_def)
  have dis: "mine i \<inter> mine j = {}" if "i \<noteq> j" for i j using assms(3) that by (auto simp: mine_def requests_ok_def)
  have "pool_ok (\<lambda>j. sys_rely se (mine j)) (\<lambda>j. sys_guar se (mine j)) (w', ps) \<and>
      index_agrees se (fst (w', ps)) \<and> transitions_tracked se (fst (w', ps))"
  proof (rule pool_invariant[OF run ok, where I = "\<lambda>w. index_agrees se w \<and> transitions_tracked se w"])
    show "sys_rely se (mine i) s s'" if "i \<noteq> j" "sys_guar se (mine j) s s'" for i j s s'
      using guar_rely[OF that(2) dis ne] that(1) by simp
    show "sys_rely se (mine i) s s'" if "expires se s s'" for i s s'
      using guar_rely[OF expires_guar[OF assms(1) that] _ ne] by blast
    show "index_agrees se s' \<and> transitions_tracked se s'" if "index_agrees se s \<and> transitions_tracked se s" "sys_guar se (mine i) s s'" for i s s'
      using that by (simp add: sys_guar_def)
    show "index_agrees se s' \<and> transitions_tracked se s'" if "index_agrees se s \<and> transitions_tracked se s" "expires se s s'" for s s'
      using that expires_guar[OF assms(1), of s s'] by (simp add: sys_guar_def)
  qed (use assms in simp)
  then show ?thesis by simp
qed

end
