(* ===== verification/Redis_Subscription.thy ===== *)
theory Redis_Subscription
  imports Main
begin

text \<open>
  The waiters of one API server: \<^verbatim>\<open>subscription_manager.go\<close> of \<^verbatim>\<open>packages/api/internal/sandbox/storage/redis\<close>.  A channel is a
  number; \<open>smSignals\<close> are the channels whose buffer of one place holds a signal.  Every operation runs under the mutex.
\<close>

record subscriptionManager =
  smWaiters :: "string \<rightharpoonup> nat set"
  smChannels :: nat
  smSignals :: "nat set"

definition newSubscriptionManager :: subscriptionManager where
  "newSubscriptionManager = \<lparr>smWaiters = Map.empty, smChannels = 0, smSignals = {}\<rparr>"

definition sm_lookup :: "subscriptionManager \<Rightarrow> string \<Rightarrow> nat set" where
  "sm_lookup m routingKey = (case smWaiters m routingKey of None \<Rightarrow> {} | Some cs \<Rightarrow> cs)"

definition sm_subscribe :: "string \<Rightarrow> subscriptionManager \<Rightarrow> nat \<times> subscriptionManager" where
  "sm_subscribe routingKey m =
     (let channel = smChannels m
      in (channel, m\<lparr>smWaiters := (smWaiters m)(routingKey \<mapsto> insert channel (sm_lookup m routingKey)), smChannels := Suc channel\<rparr>))"

text \<open>The function that \<^verbatim>\<open>subscribe\<close> returns.\<close>

definition sm_cleanup :: "string \<Rightarrow> nat \<Rightarrow> subscriptionManager \<Rightarrow> subscriptionManager" where
  "sm_cleanup routingKey channel m =
     (let cs = sm_lookup m routingKey - {channel}
      in m\<lparr>smWaiters := (smWaiters m)(routingKey := (if cs = {} then None else Some cs))\<rparr>)"

definition sm_dispatch :: "string \<Rightarrow> subscriptionManager \<Rightarrow> subscriptionManager" where
  "sm_dispatch routingKey m = m\<lparr>smSignals := smSignals m \<union> sm_lookup m routingKey\<rparr>"

subsection \<open>Who is signalled\<close>

datatype sm_op = SmSubscribe string | SmCleanup string nat | SmDispatch string

fun sm_do :: "sm_op \<Rightarrow> subscriptionManager \<Rightarrow> subscriptionManager" where
  "sm_do (SmSubscribe k) m = snd (sm_subscribe k m)"
| "sm_do (SmCleanup k c) m = sm_cleanup k c m"
| "sm_do (SmDispatch k) m = sm_dispatch k m"

lemma sm_lookup_do:
  "sm_lookup (sm_do op m) k =
     (case op of
        SmSubscribe k' \<Rightarrow> if k' = k then insert (smChannels m) (sm_lookup m k) else sm_lookup m k
      | SmCleanup k' c \<Rightarrow> if k' = k then sm_lookup m k - {c} else sm_lookup m k
      | SmDispatch k' \<Rightarrow> sm_lookup m k)"
  by (cases op) (simp_all add: sm_lookup_def sm_subscribe_def sm_cleanup_def sm_dispatch_def Let_def)

lemma sm_signals_do: "smSignals (sm_do op m) = smSignals m \<union> (case op of SmDispatch k \<Rightarrow> sm_lookup m k | _ \<Rightarrow> {})"
  by (cases op) (simp_all add: sm_subscribe_def sm_cleanup_def sm_dispatch_def Let_def)

lemma sm_channels_do: "smChannels (sm_do op m) = (case op of SmSubscribe _ \<Rightarrow> Suc (smChannels m) | _ \<Rightarrow> smChannels m)"
  by (cases op) (simp_all add: sm_subscribe_def sm_cleanup_def sm_dispatch_def Let_def)

lemma sm_waiters_do: "smWaiters m k \<noteq> Some {} \<Longrightarrow> smWaiters (sm_do op m) k \<noteq> Some {}"
  by (cases op) (auto simp: sm_subscribe_def sm_cleanup_def sm_dispatch_def Let_def)

declare sm_do.simps [simp del]

lemma sm_signals_mono: "c \<in> smSignals m \<Longrightarrow> c \<in> smSignals (fold sm_do ops m)"
  by (induction ops arbitrary: m) (simp_all add: sm_signals_do)

text \<open>A waiter that has not cleaned up is signalled by every message for its key.\<close>

lemma sm_waiter_signalled:
  assumes "c \<in> sm_lookup m k" "SmCleanup k c \<notin> set ops" "SmDispatch k \<in> set ops"
  shows "c \<in> smSignals (fold sm_do ops m)"
  using assms
proof (induction ops arbitrary: m)
  case (Cons op ops)
  show ?case
  proof (cases "op = SmDispatch k")
    case True
    then show ?thesis using Cons.prems(1) by (simp add: sm_signals_mono sm_signals_do)
  next
    case False
    moreover have "c \<in> sm_lookup (sm_do op m) k" using Cons.prems(1,2) by (cases op) (auto simp: sm_lookup_do)
    ultimately show ?thesis using Cons.IH Cons.prems(2,3) by auto
  qed
qed simp

text \<open>Messages for other keys do not signal it: a channel is registered under one key only.\<close>

definition sm_ok :: "subscriptionManager \<Rightarrow> bool" where
  "sm_ok m \<longleftrightarrow> (\<forall>k. smWaiters m k \<noteq> Some {}) \<and> (\<forall>k. \<forall>c\<in>sm_lookup m k. c < smChannels m) \<and>
     (\<forall>k k'. k \<noteq> k' \<longrightarrow> sm_lookup m k \<inter> sm_lookup m k' = {})"

lemma sm_ok_new: "sm_ok newSubscriptionManager"
  by (simp add: sm_ok_def newSubscriptionManager_def sm_lookup_def)

lemma sm_ok_do: "sm_ok m \<Longrightarrow> sm_ok (sm_do op m)"
proof -
  assume ok: "sm_ok m"
  have "smWaiters (sm_do op m) k \<noteq> Some {}" for k
    using ok sm_waiters_do by (simp add: sm_ok_def)
  moreover have "c < smChannels (sm_do op m)" if "c \<in> sm_lookup (sm_do op m) k" for k c
    using ok that by (cases op) (auto simp: sm_ok_def sm_lookup_do sm_channels_do less_SucI split: if_splits)
  moreover have "sm_lookup (sm_do op m) k \<inter> sm_lookup (sm_do op m) k' = {}" if "k \<noteq> k'" for k k'
  proof -
    have "sm_lookup m k \<inter> sm_lookup m k' = {}" "smChannels m \<notin> sm_lookup m k" "smChannels m \<notin> sm_lookup m k'"
      using ok that unfolding sm_ok_def by blast+
    then show ?thesis using that by (cases op) (auto simp: sm_lookup_do)
  qed
  ultimately show ?thesis by (simp add: sm_ok_def)
qed

lemma sm_not_signalled:
  assumes "sm_ok m" "sm_subscribe k m = (c, m')" "SmDispatch k \<notin> set ops" "c \<notin> smSignals m"
  shows "c \<notin> smSignals (fold sm_do ops m')"
proof -
  have m': "m' = sm_do (SmSubscribe k) m" "c = smChannels m" using assms(2) by (auto simp: sm_subscribe_def sm_do.simps Let_def)
  have "sm_ok m'" "c \<notin> smSignals m'" "\<forall>k'. k' \<noteq> k \<longrightarrow> c \<notin> sm_lookup m' k'" "c < smChannels m'"
    using assms(1,4) sm_ok_do[OF assms(1), of "SmSubscribe k"] unfolding m'
    by (auto simp: sm_signals_do sm_lookup_do sm_channels_do sm_ok_def split: if_splits)
  then show ?thesis using assms(3)
  proof (induction ops arbitrary: m')
    case (Cons op ops)
    have "\<forall>k'. k' \<noteq> k \<longrightarrow> c \<notin> sm_lookup (sm_do op m') k'"
      using Cons.prems(3,4) by (cases op) (auto simp: sm_lookup_do)
    moreover have "c \<notin> smSignals (sm_do op m')" using Cons.prems(2,3,5) by (cases op) (auto simp: sm_signals_do)
    moreover have "c < smChannels (sm_do op m')" using Cons.prems(4) by (cases op) (auto simp: sm_channels_do)
    ultimately show ?case using Cons.IH[OF sm_ok_do[OF Cons.prems(1)]] Cons.prems(5) by simp
  qed simp
qed

text \<open>The map has no entry left for a key without waiters.\<close>

lemma sm_cleanup_leaves_nothing: "sm_lookup m k \<subseteq> {c} \<Longrightarrow> smWaiters (sm_cleanup k c m) k = None"
  by (simp add: sm_cleanup_def Let_def)

end
