(* ===== verification/Redis_Properties.thy ===== *)
theory Redis_Properties
  imports Redis_System Redis_Subscription
begin

text \<open>
  Properties of the storage and the reservations that API servers share through Redis, with the instances at which the
  theorems are applied: the server of lists of \<open>Redis_Client\<close>, teams in hexadecimal and records that keep the id only.
\<close>

definition hex_digit :: "nat \<Rightarrow> char" where
  "hex_digit n = ''0123456789abcdef'' ! (n mod 16)"

definition hex_uuid :: "uuid \<Rightarrow> string" where
  "hex_uuid u = concat (map (\<lambda>b. [hex_digit (unat b div 16), hex_digit (unat b)]) u)"

lemma hex_digit_plain: "hex_digit n \<noteq> CHR ''}''" "hex_digit n \<noteq> CHR '':''"
proof -
  have "hex_digit n \<in> set ''0123456789abcdef''" unfolding hex_digit_def by (intro nth_mem) simp
  then show "hex_digit n \<noteq> CHR ''}''" "hex_digit n \<noteq> CHR '':''" by auto
qed

lemma hex_uuid_plain: "plain_team (hex_uuid u)"
  by (auto simp: plain_team_def hex_uuid_def hex_digit_plain hex_digit_plain[symmetric])

definition bare_sandbox :: "string \<Rightarrow> Sandbox" where
  "bare_sandbox i = NewSandbox i [] [] None [] [1] [2] Map.empty 3600000000000 0 60000000000 1 1 1 [] [] [] [] [3] False None None None [] None None None []"

definition list_env :: "(list_redis, unit) storage_env" where
  "list_env = \<lparr>seOps = lr_ops, seString = hex_uuid, seParse = (\<lambda>_. None), seMarshal = (\<lambda>s. Some (SandboxID s)),
     seUnmarshal = (\<lambda>d. if CHR '':'' \<in> set d then None else Some (bare_sandbox d)), seIsCtx = (\<lambda>_. False),
     seTryLock = lr_try_lock, seUnlock = lr_unlock\<rparr>"

definition list_world :: "list_redis world" where
  "list_world = \<lparr>wServer = lr_empty, wLive = {}, wPublished = [], wLog = []\<rparr>"

lemma list_env_ok: "redis (seOps list_env)" "storage_laws list_env" "index_agrees list_env list_world" "transitions_tracked list_env list_world"
proof -
  show "redis (seOps list_env)" by (simp add: list_env_def list_redis.redis_axioms)
  show "storage_laws list_env" by (auto simp: list_env_def storage_laws_def list_redislock.redislock_axioms hex_uuid_plain plain_id_def bare_sandbox_def NewSandbox_def split: if_splits)
  show "index_agrees list_env list_world" "transitions_tracked list_env list_world"
    by (simp_all add: list_env_def index_agrees_def sandbox_at_def index_of_def transitions_tracked_def open_transitions_def
        list_world_def lr_empty_def lr_ops_def)
qed

text \<open>
  C36.  Whatever requests of any number of API servers run side by side, whatever commands fail with or without effect, and
  whatever keys expire that no request still holds, a sandbox of a team is stored if and only if its id is in the index of the team.
\<close>

theorem redis_index_agrees:
  assumes "redis (seOps se)" "storage_laws se" "requests_ok rqs" "index_agrees se w" "transitions_tracked se w"
    and "(prog_step (expires se))\<^sup>*\<^sup>* (w, map (request_prog se) rqs) (w', ps)" "plain_team t" "plain_id i"
  shows "rd_Get (seOps se) (wServer w') (getSandboxKey t i) \<noteq> None \<longleftrightarrow>
    i \<in> set (rd_SMembers (seOps se) (wServer w') (GetSandboxStorageTeamIndexKey t))"
  using system_invariants[OF assms(1-6)] assms(7,8) by (simp add: index_agrees_def sandbox_at_def index_of_def)

lemmas prog_defs = prog_void_def prog_try_def prog_script_def prog_attempt_def prog_await_def rupdate_def rcmd_def rquery_def

definition demo_attempt :: "string \<Rightarrow> string \<Rightarrow> attempt" where
  "demo_attempt tok x = \<lparr>atToken = tok, atEvictNow = 0, atNow = 7, atID = x\<rparr>"

definition demo_requests :: "unit request list" where
  "demo_requests = [RqAdd 5 (bare_sandbox ''s''), RqRemove ''tok'' [1] ''s'',
     RqTransition [demo_attempt ''t2'' ''x2''] [1] ''s'' \<lparr>roAction = StateActionPause, roEviction = False\<rparr> (\<lambda>_. []) ''t3'' None,
     RqTransition [demo_attempt ''t4'' ''x4''] [1] ''s'' \<lparr>roAction = StateActionKill, roEviction = False\<rparr> (\<lambda>_. []) ''t5'' None]"

lemma demo_requests_ok: "requests_ok demo_requests"
  by (simp add: requests_ok_def demo_requests_def demo_attempt_def plain_id_def bare_sandbox_def NewSandbox_def less_Suc_eq numeral_eq_Suc)

definition demo_run :: "(nat \<times> (unit \<times> bool) option) list \<Rightarrow> list_redis world \<times> (list_redis, unit, unit) rprog list" where
  "demo_run ts = fold prog_turn ts (list_world, map (request_prog list_env) demo_requests)"

lemma demo_steps: "(prog_step (expires list_env))\<^sup>*\<^sup>* (list_world, map (request_prog list_env) demo_requests) (fst (demo_run ts), snd (demo_run ts))"
  unfolding demo_run_def using prog_turns_run by (metis prod.collapse)

text \<open>The removal and the creation of the same sandbox in turns: the new sandbox is stored before the old one leaves the expiration index.\<close>

definition race_schedule :: "(nat \<times> ('e \<times> bool) option) list" where
  "race_schedule = [(1, None), (1, None), (0, None), (0, None), (1, None), (0, None), (1, None)]"

theorem redis_index_agrees_witness:
  "rd_Get lr_ops (wServer (fst (demo_run race_schedule))) (getSandboxKey (hex_uuid [1]) ''s'') = Some ''s'' \<and>
   ''s'' \<in> set (rd_SMembers lr_ops (wServer (fst (demo_run race_schedule))) (GetSandboxStorageTeamIndexKey (hex_uuid [1])))"
proof -
  have 1: "rd_Get lr_ops (wServer (fst (demo_run race_schedule))) (getSandboxKey (hex_uuid [1]) ''s'') = Some ''s''" by code_simp
  have "plain_id ''s''" by (simp add: plain_id_def)
  from redis_index_agrees[OF list_env_ok(1,2) demo_requests_ok list_env_ok(3,4) demo_steps[of race_schedule] hex_uuid_plain this, of "[1]"] 1
  show ?thesis by (simp add: list_env_def)
qed

text \<open>
  C37.  In every such run at most one transition of a sandbox is between the message that it has started and the message that
  it is complete, and the transition key names it.
\<close>

theorem redis_one_transition:
  assumes "redis (seOps se)" "storage_laws se" "requests_ok rqs" "index_agrees se w" "transitions_tracked se w"
    and "(prog_step (expires se))\<^sup>*\<^sup>* (w, map (request_prog se) rqs) (w', ps)" "plain_team t" "plain_id i"
    and "x \<in> open_transitions w' t i" "y \<in> open_transitions w' t i"
  shows "x = y \<and> rd_Get (seOps se) (wServer w') (getTransitionKey t i) = Some x"
  using system_invariants[OF assms(1-6)] assms(7-10) unfolding transitions_tracked_def holds_key_def by (metis option.inject)

text \<open>A pause that is under way, and a kill that has found it.\<close>

definition pause_schedule :: "(nat \<times> ('e \<times> bool) option) list" where
  "pause_schedule = [(0, None), (0, None), (2, None), (3, None), (2, None), (2, None), (2, None), (2, None), (2, None),
     (3, None), (3, None), (3, None), (3, None)]"

theorem redis_one_transition_witness:
  "''x2'' \<in> open_transitions (fst (demo_run pause_schedule)) (hex_uuid [1]) ''s'' \<and>
   rd_Get lr_ops (wServer (fst (demo_run pause_schedule))) (getTransitionKey (hex_uuid [1]) ''s'') = Some ''x2''"
proof -
  have "wLog (fst (demo_run pause_schedule)) = [TransitionStarted (hex_uuid [1]) ''s'' ''x2'']" by code_simp
  then have 1: "''x2'' \<in> open_transitions (fst (demo_run pause_schedule)) (hex_uuid [1]) ''s''" by (simp add: open_transitions_def)
  have "plain_id ''s''" by (simp add: plain_id_def)
  from redis_one_transition[OF list_env_ok(1,2) demo_requests_ok list_env_ok(3,4) demo_steps[of pause_schedule] hex_uuid_plain this 1 1] 1
  show ?thesis by (simp add: list_env_def)
qed

text \<open>
  C40.  A sandbox that is created while the sandbox of the same id is being removed can be stored without an entry in the
  expiration index: the removal takes its entry away last, and may take the entry of the new sandbox, which is then never
  found by the eviction.
\<close>

theorem expiry_entry_lost:
  fixes se :: "('r, 'e) storage_env"
  assumes rd: "redis (seOps se)" and "storage_laws se" "seMarshal se sbx = Some d" and t: "t = seString se (TeamID sbx)"
    and lock: "rd_Get (seOps se) (wServer w) (GetLockKey (getSandboxKey t (SandboxID sbx))) = None"
  shows "\<exists>w'. (prog_step (expires se))\<^sup>*\<^sup>* (w, map (request_prog se) [RqAdd now sbx, RqRemove tok (TeamID sbx) (SandboxID sbx)]) (w', [Done (), Done ()]) \<and>
    rd_Get (seOps se) (wServer w') (getSandboxKey t (SandboxID sbx)) = Some d \<and>
    rd_ZScore (seOps se) (wServer w') globalExpirationSet (expirationMember t (SandboxID sbx)) = None"
proof -
  let ?c = "fold prog_turn race_schedule (w, map (request_prog se) [RqAdd now sbx, RqRemove tok (TeamID sbx) (SandboxID sbx)])"
  have pt: "plain_team t" using assms(2) by (simp add: storage_laws_def t)
  have e: "snd ?c = [Done (), Done ()]" "rd_Get (seOps se) (wServer (fst ?c)) (getSandboxKey t (SandboxID sbx)) = Some d"
    "rd_ZScore (seOps se) (wServer (fst ?c)) globalExpirationSet (expirationMember t (SandboxID sbx)) = None"
    using lock pt by (simp_all add: race_schedule_def rs_Add_def rs_Remove_def Let_def prog_defs assms(3) with_lock_def lock_Obtain_def
        lock_Release_def t[symmetric] redis.reads[OF rd] rd_ZScore_def addSandboxScript_def removeSandboxScript_def lock_laws[OF assms(2)])
  show ?thesis
    using prog_turns_run[of "expires se" "(w, map (request_prog se) [RqAdd now sbx, RqRemove tok (TeamID sbx) (SandboxID sbx)])" race_schedule] e
    by (metis prod.collapse)
qed

theorem expiry_entry_lost_witness:
  "\<exists>w'. (prog_step (expires list_env))\<^sup>*\<^sup>* (list_world, map (request_prog list_env) [RqAdd 5 (bare_sandbox ''s''), RqRemove ''tok'' [1] ''s'']) (w', [Done (), Done ()]) \<and>
    rd_Get lr_ops (wServer w') (getSandboxKey (hex_uuid [1]) ''s'') = Some ''s'' \<and>
    rd_ZScore lr_ops (wServer w') globalExpirationSet (expirationMember (hex_uuid [1]) ''s'') = None"
proof -
  have s: "TeamID (bare_sandbox ''s'') = [1]" "SandboxID (bare_sandbox ''s'') = ''s''" by (simp_all add: bare_sandbox_def NewSandbox_def)
  have m: "seMarshal list_env (bare_sandbox ''s'') = Some ''s''" by (simp add: list_env_def s)
  have "rd_Get (seOps list_env) (wServer list_world) k = None" for k by (simp add: list_env_def list_world_def lr_empty_def lr_ops_def)
  from expiry_entry_lost[OF list_env_ok(1,2) m refl this, of 5 "''tok''"] show ?thesis by (simp add: s list_env_def)
qed

text \<open>
  C39.  One failed read of the transition key ends the wait for a transition as if the transition had succeeded, although the
  key still names it: the empty string that comes with the error is taken for another transition's id.
\<close>

theorem failed_poll_ends_wait:
  fixes se :: "('r, 'e) storage_env"
  assumes "rd_Get (seOps se) (wServer w) (getTransitionKey (seString se teamID) i) = Some x"
    and "rd_Get (seOps se) (wServer w) (getTransitionResultKey (seString se teamID) i x) = Some []"
  shows "\<exists>w'. (prog_step (expires se))\<^sup>*\<^sup>* (w, [waitForTransition se teamID i x]) (w', [Done (Ok ())]) \<and>
    rd_Get (seOps se) (wServer w') (getTransitionKey (seString se teamID) i) = Some x"
proof -
  have "fold prog_turn [(0, None), (0, Some (e, False)), (0, None)] (w, [waitForTransition se teamID i x]) = (w, [Done (Ok ())])" for e :: 'e
    using assms(2) by (simp add: waitForTransition_def checkTransitionResult_def Let_def prog_defs prog_local_def)
  then show ?thesis using assms(1) prog_turns_run by metis
qed

theorem failed_poll_ends_wait_witness:
  "\<exists>w'. (prog_step (expires list_env))\<^sup>*\<^sup>* (fst (demo_run pause_schedule), [waitForTransition list_env [1] ''s'' ''x2'']) (w', [Done (Ok ())]) \<and>
    rd_Get lr_ops (wServer w') (getTransitionKey (hex_uuid [1]) ''s'') = Some ''x2''"
proof -
  have "rd_Get (seOps list_env) (wServer (fst (demo_run pause_schedule))) (getTransitionKey (seString list_env [1]) ''s'') = Some ''x2''"
    "rd_Get (seOps list_env) (wServer (fst (demo_run pause_schedule))) (getTransitionResultKey (seString list_env [1]) ''s'' ''x2'') = Some []"
    by code_simp+
  from failed_poll_ends_wait[OF this] show ?thesis by (simp add: list_env_def)
qed

subsection \<open>The limit of a team\<close>

text \<open>
  The commands of all servers that change what counts against the limits, one after another.  A sandbox is stored only for a
  start whose reservation is still there, which is so when the start takes less than the ninety seconds after which a
  reservation is stale.
\<close>

inductive limit_step :: "('r, 'e) storage_env \<Rightarrow> (string \<Rightarrow> int) \<Rightarrow> 'r \<Rightarrow> 'r \<Rightarrow> bool" for se limit where
  ls_reserve: "limit_step se limit r (snd (redis_Reserve (seOps se) (seString se) (None :: unit option) now now' teamID i (limit (seString se teamID)) r))"
| ls_add: "i \<in> counted (seOps se) (seString se teamID) r \<Longrightarrow>
    limit_step se limit r (addSandboxScript (seOps se) (getSandboxKey (seString se teamID) i) (GetSandboxStorageTeamIndexKey (seString se teamID)) data i r)"
| ls_set: "limit_step se limit r (rd_Set (seOps se) r (getSandboxKey (seString se teamID) i) data)"
| ls_remove: "limit_step se limit r
    (removeSandboxScript (seOps se) (getSandboxKey (seString se teamID) i) (GetSandboxStorageTeamIndexKey (seString se teamID)) i r)"
| ls_finish: "limit_step se limit r (finishStart_with (seOps se) (seString se) teamID i result r)"
| ls_release: "limit_step se limit r (snd (redis_Release (seOps se) (seString se) (None :: unit option) teamID i r))"

definition within_limits :: "('r, 'e) storage_env \<Rightarrow> (string \<Rightarrow> int) \<Rightarrow> 'r \<Rightarrow> bool" where
  "within_limits se limit r \<longleftrightarrow> (\<forall>t. plain_team t \<longrightarrow> limit t \<ge> 0 \<longrightarrow> int (card (counted (seOps se) t r)) \<le> limit t)"

lemma within_limits_mono:
  assumes "redis (seOps se)" "within_limits se limit r" "\<And>t. plain_team t \<Longrightarrow> counted (seOps se) t r' \<subseteq> counted (seOps se) t r"
  shows "within_limits se limit r'"
  unfolding within_limits_def
proof (intro allI impI)
  fix t assume t: "plain_team t" "limit t \<ge> 0"
  have "card (counted (seOps se) t r') \<le> card (counted (seOps se) t r)"
    by (rule card_mono[OF redis.finite_counted(3)[OF assms(1)] assms(3)[OF t(1)]])
  then show "int (card (counted (seOps se) t r')) \<le> limit t" using assms(2) t unfolding within_limits_def by fastforce
qed

lemma counted_Reserve:
  fixes se :: "('r, 'e) storage_env" and r r' :: 'r
  assumes rd: "redis (seOps se)" and t: "plain_team t" "plain_team u"
    and r': "r' = snd (reserveScript (seOps se) (getStorageIndexKey t) (getPendingSetKey t) (getResultKey t i) i limit now cutoff r)"
  shows "u \<noteq> t \<Longrightarrow> counted (seOps se) u r' = counted (seOps se) u r"
    "counted (seOps se) t r' \<subseteq> counted (seOps se) t r \<or> (limit \<ge> 0 \<longrightarrow> int (card (counted (seOps se) t r')) \<le> limit)"
proof -
  show "counted (seOps se) u r' = counted (seOps se) u r" if "u \<noteq> t"
    using t that by (simp add: r' counted_def indexed_def pending_def rd_ZScore_def reserveScript_def Let_def rd_ZRemRangeByScore_def
        redis.reads[OF rd] redis.fold_ZRem_other[OF rd])
  let ?P = "pending (seOps se) t r - stale (seOps se) t cutoff r" and ?I = "indexed (seOps se) t r"
  note res = redis.reserveScript_result[OF rd t(1), of i limit now cutoff r]
  have "card (?I \<union> insert i ?P) \<le> card ?I + (card ?P + 1)"
    using card_Un_le[of ?I "insert i ?P"] redis.finite_counted(2)[OF rd, of t r] card_insert_if[of ?P i] by (simp split: if_splits)
  then show "counted (seOps se) t r' \<subseteq> counted (seOps se) t r \<or> (limit \<ge> 0 \<longrightarrow> int (card (counted (seOps se) t r')) \<le> limit)"
    using res unfolding counted_def r' by (auto split: if_splits)
qed

lemma counted_shrinks:
  assumes "redis (seOps se)" "plain_team t" "plain_team u"
  shows "i \<in> counted (seOps se) t r \<Longrightarrow>
      counted (seOps se) u (addSandboxScript (seOps se) (getSandboxKey t i) (GetSandboxStorageTeamIndexKey t) data i r) \<subseteq> counted (seOps se) u r"
    "counted (seOps se) u (rd_Set (seOps se) r (getSandboxKey t i) data) \<subseteq> counted (seOps se) u r"
    "counted (seOps se) u (removeSandboxScript (seOps se) (getSandboxKey t i) (GetSandboxStorageTeamIndexKey t) i r) \<subseteq> counted (seOps se) u r"
    "counted (seOps se) u (rd_ZRem (seOps se) r (getPendingSetKey t) i) \<subseteq> counted (seOps se) u r"
    "counted (seOps se) u (finishStartScript (seOps se) (getPendingSetKey t) (getResultKey t i) i v r) \<subseteq> counted (seOps se) u r"
    "counted (seOps se) u (releaseScript (seOps se) (getPendingSetKey t) (getResultKey t i) i r) \<subseteq> counted (seOps se) u r"
  using assms(2,3) by (cases "u = t"; auto simp: counted_def indexed_def pending_def rd_ZScore_def addSandboxScript_def removeSandboxScript_def
      finishStartScript_def releaseScript_def redis.reads[OF assms(1)] split: if_splits)+

lemma limit_step_within:
  fixes se :: "('r, 'e) storage_env"
  assumes rd: "redis (seOps se)" and pl: "storage_laws se" and st: "limit_step se limit r r'" and w: "within_limits se limit r"
  shows "within_limits se limit r'"
  using st
proof cases
  case (ls_reserve now now' teamID i)
  let ?t = "seString se teamID"
  have t: "plain_team ?t" using pl by (simp add: storage_laws_def)
  have r': "r' = snd (reserveScript (seOps se) (getStorageIndexKey ?t) (getPendingSetKey ?t) (getResultKey ?t i) i (limit ?t) now (now' - staleTTL) r)"
    by (simp add: ls_reserve redis_Reserve_def split_def Let_def)
  note c = counted_Reserve[OF rd t _ r']
  show ?thesis unfolding within_limits_def
  proof (intro allI impI)
    fix u assume u: "plain_team u" "limit u \<ge> 0"
    have w: "int (card (counted (seOps se) u r)) \<le> limit u" using w u by (simp add: within_limits_def)
    have m: "counted (seOps se) u r' \<subseteq> counted (seOps se) u r \<Longrightarrow> int (card (counted (seOps se) u r')) \<le> limit u"
      using card_mono[OF redis.finite_counted(3)[OF rd], of "counted (seOps se) u r'" u r] w by simp
    show "int (card (counted (seOps se) u r')) \<le> limit u"
      using c(1)[OF u(1)] c(2)[OF u(1)] m w u by (cases "u = ?t") auto
  qed
qed (use pl counted_shrinks[OF rd, of "seString se _"] in
  \<open>intro within_limits_mono[OF rd w], simp add: storage_laws_def redis_Release_def finishStart_with_def Let_def split: option.split\<close>)+

text \<open>
  C38.  As long as no start outlives its reservation, the sandboxes of a team that are stored or starting, on all API servers
  together, never are more than the limit with which the servers reserve.
\<close>

theorem redis_team_limit:
  assumes "redis (seOps se)" "storage_laws se" "(limit_step se limit)\<^sup>*\<^sup>* r r'" "within_limits se limit r" "plain_team t" "limit t \<ge> 0"
  shows "int (card (indexed (seOps se) t r' \<union> pending (seOps se) t r')) \<le> limit t"
proof -
  have "within_limits se limit r'" using assms(3,4)
    by (induction rule: rtranclp_induct) (auto intro: limit_step_within[OF assms(1,2)])
  then show ?thesis using assms(5,6) by (simp add: within_limits_def counted_def)
qed

theorem redis_team_limit_witness:
  "int (card (indexed lr_ops (hex_uuid [1]) (snd (redis_Reserve lr_ops hex_uuid (None :: unit option) 7 7 [1] ''s'' 1 lr_empty)) \<union>
      pending lr_ops (hex_uuid [1]) (snd (redis_Reserve lr_ops hex_uuid (None :: unit option) 7 7 [1] ''s'' 1 lr_empty)))) \<le> 1 \<and>
   fst (redis_Reserve lr_ops hex_uuid (None :: unit option) 8 8 [1] ''s2'' 1
     (snd (redis_Reserve lr_ops hex_uuid (None :: unit option) 7 7 [1] ''s'' 1 lr_empty))) = Fail (ReserveLimitExceeded [1])"
proof -
  have w: "within_limits list_env (\<lambda>_. 1) lr_empty"
    by (simp add: within_limits_def counted_def indexed_def pending_def rd_ZScore_def list_env_def lr_ops_def lr_empty_def)
  have "(limit_step list_env (\<lambda>_. 1))\<^sup>*\<^sup>* lr_empty (snd (redis_Reserve lr_ops hex_uuid (None :: unit option) 7 7 [1] ''s'' 1 lr_empty))"
    using limit_step.ls_reserve[where se = list_env and limit = "\<lambda>_. 1"] by (auto simp: list_env_def)
  from redis_team_limit[OF list_env_ok(1,2) this w hex_uuid_plain, of "[1]"]
  have "int (card (indexed lr_ops (hex_uuid [1]) (snd (redis_Reserve lr_ops hex_uuid (None :: unit option) 7 7 [1] ''s'' 1 lr_empty)) \<union>
      pending lr_ops (hex_uuid [1]) (snd (redis_Reserve lr_ops hex_uuid (None :: unit option) 7 7 [1] ''s'' 1 lr_empty)))) \<le> 1"
    by (simp add: list_env_def)
  moreover have "fst (redis_Reserve lr_ops hex_uuid (None :: unit option) 8 8 [1] ''s2'' 1
     (snd (redis_Reserve lr_ops hex_uuid (None :: unit option) 7 7 [1] ''s'' 1 lr_empty))) = Fail (ReserveLimitExceeded [1])" by code_simp
  ultimately show ?thesis by blast
qed

text \<open>
  A sandbox that is stored and whose start is not finished yet counts twice: with one sandbox of a limit of two, another is refused.
\<close>

lemma started_sandbox_counts_twice:
  "fst (redis_Reserve lr_ops hex_uuid (None :: unit option) 8 8 [1] ''s2'' 2
     (addSandboxScript lr_ops (getSandboxKey (hex_uuid [1]) ''s'') (GetSandboxStorageTeamIndexKey (hex_uuid [1])) [] ''s''
       (snd (redis_Reserve lr_ops hex_uuid (None :: unit option) 7 7 [1] ''s'' 2 lr_empty)))) = Fail (ReserveLimitExceeded [1])"
  by code_simp

end
