(* ===== verification/Spec2Isabelle.thy ===== *)
theory Spec2Isabelle
  imports Image_Properties Disk_Properties Stream_Properties Sandbox_Properties Nbd_Properties
    Placement_Properties Network_Properties Egress_Properties Uffd_Properties Orchestrator_Properties Redis_Properties
begin

text \<open>
  A verification development for the E2B infrastructure repository: the orchestrator that runs
  sandboxes in virtual machines, the API server that manages them, and the libraries they share.

  \<^bold>\<open>The program\<close>

  A sandbox boots from layered images.  An image of the root file system or of the guest memory is a
  header (\<^verbatim>\<open>packages/shared/pkg/storage/header\<close>) that maps every block to a build and an offset in that
  build's object in storage.  The orchestrator (\<^verbatim>\<open>packages/orchestrator/pkg/sandbox\<close>) serves the blocks of
  an image through diffs (\<^verbatim>\<open>build\<close>), which fetch chunks of stored objects into memory-mapped caches
  (\<^verbatim>\<open>block\<close>), puts a writable cache on top, and serves the disk to the guest's kernel as a network block
  device (\<^verbatim>\<open>nbd\<close>) and its memory through page faults (\<^verbatim>\<open>uffd\<close>).  Every sandbox has a network slot from a pool
  (\<^verbatim>\<open>network\<close>), and its connections go through a firewall (\<^verbatim>\<open>packages/orchestrator/pkg/tcpfirewall\<close>).  Pausing a sandbox exports the dirty blocks as a new diff and
  merges their mapping into the header.  The API server (\<^verbatim>\<open>packages/api/internal\<close>) keeps the running
  sandboxes of the teams: reservations against a limit, a store, and transitions (pause, kill,
  snapshot) that concurrent requests start, join and wait for.  They are kept in the memory of one server,
  or in Redis, which many servers share.  It also knows the nodes that run
  orchestrators, keeps itself in step with them and chooses the node of a new sandbox.

  \<^bold>\<open>Conventions\<close> (\<open>E2B_Prelude\<close>)

  Go integers are \<^typ>\<open>int\<close>, wrapped by \<open>u64\<close> and \<open>i64\<close> where the source computes in 64 bits; \<^verbatim>\<open>/\<close> and \<^verbatim>\<open>%\<close> are
  \<open>sdiv\<close> and \<open>smod\<close>.  A call returns \<open>Ok\<close>, \<open>Fail\<close> with the component's error, or \<open>Panic\<close>; a call that
  blocks for ever, or a loop about whose end nothing is known, has the result \<open>None\<close>.  Structs are records,
  enumerations and tagged errors datatypes.  A method that runs under a mutex is one definition and
  one step; where goroutines interleave, the steps form an inductive relation and the properties
  are about everything it reaches.  Pointers to shared objects are indices into the list of these
  objects.  The clock, the file system, the network and the nodes are arguments that hold their
  answers.  Code outside the repository is an argument too: the bit set (\<open>bitset_ops\<close>, with
  \<open>bitset_laws\<close>; \<open>Bitset_List\<close> is an instance), the concurrent map (\<open>cmap_ops\<close>, with the locale
  \<open>concurrent_map\<close>; \<open>list_cmap\<close> is an instance), Redis and its locks (\<open>redis_ops\<close>, with the locales \<open>redis\<close> and
  \<open>redislock\<close>; \<open>lr_ops\<close> is an instance), storage providers and upstream readers.

  \<^bold>\<open>Images\<close>

  \<^item> \<open>Header_Block\<close>: \<^verbatim>\<open>block.go\<close> and \<^verbatim>\<open>diff.go\<close>, block arithmetic and empty blocks.
  \<^item> \<open>Header_Mapping\<close>, \<open>Header_Normalize\<close>, \<open>Header_Create\<close>: \<^verbatim>\<open>mapping.go\<close> and \<^verbatim>\<open>inspect.go\<close>; a list of mappings
    means a partial function from byte offsets to sources (\<open>lookup_map\<close>), and merging, normalising,
    validating and creating lists are related to it.
  \<^item> \<open>Header_Lookup\<close>: \<^verbatim>\<open>header.go\<close>, the index by bit set and the lookup through it.
  \<^item> \<open>Header_Diff\<close>: \<^verbatim>\<open>metadata.go\<close>, from the dirty and empty blocks of a sandbox to the next header.
  \<^item> \<open>Header_Serialization\<close>: \<^verbatim>\<open>serialization.go\<close>, the binary format.
  \<^item> \<open>Image_Properties\<close>: C1 to C7.

  \<^bold>\<open>Blocks and builds\<close>

  \<^item> \<open>Block_Range\<close>, \<open>Block_Cache\<close>, \<open>Block_Export\<close>, \<open>Block_Process\<close>: \<^verbatim>\<open>range.go\<close>, \<^verbatim>\<open>tracker.go\<close>, \<^verbatim>\<open>iov.go\<close> and \<^verbatim>\<open>cache.go\<close>; the
    cache, its export to a diff and the copy of guest memory.
  \<^item> \<open>Block_Device\<close>: the read-only devices, the overlay and the local device; the locales
    \<open>readonly_device\<close>, \<open>block_device\<close> and \<open>overlaid_device\<close> are the contract of a device.
  \<^item> \<open>Block_Chunker\<close>: \<^verbatim>\<open>chunk.go\<close>, whole chunks fetched before a read.
  \<^item> \<open>Block_Streaming\<close>, \<open>Block_Stream_Fetch\<close>: \<^verbatim>\<open>streaming_chunk.go\<close>, one goroutine that reads and many that
    wait for parts of the chunk.
  \<^item> \<open>Set_Once\<close>, \<open>Error_Once\<close>: \<^verbatim>\<open>set_once.go\<close> and \<^verbatim>\<open>error_once.go\<close>.
  \<^item> \<open>Build_Diff\<close>, \<open>Build_Store\<close>, \<open>Build_File\<close>: diffs of builds over any chunker (locale \<open>chunker\<close>), the store of
    diffs with its delayed deletions as a state machine, and the image file over any source of
    builds (locale \<open>build_source\<close>).
  \<^item> \<open>Snapshot\<close>, \<open>Disk_Properties\<close>: their composition, C8 to C11.  \<open>Stream_Properties\<close>: C18 and C19.
  \<^item> \<open>Nbd_Dispatch\<close>, \<open>Nbd_Response\<close>: \<^verbatim>\<open>nbd/dispatch.go\<close>; the request loop under every way the bytes can arrive
    and the goroutines that answer (\<open>nbd_step\<close>).  \<open>Nbd_Properties\<close>: C20 and C21.

  \<^bold>\<open>Sandboxes of the API server\<close>

  \<^item> \<open>Concurrent_Map\<close>: the interface of the concurrent map and \<^verbatim>\<open>smap\<close>.
  \<^item> \<open>Sandbox_State\<close>: \<^verbatim>\<open>states.go\<close>, \<^verbatim>\<open>sandbox.go\<close>, \<^verbatim>\<open>errors.go\<close>.
  \<^item> \<open>Sandbox_Memory\<close>, \<open>Sandbox_Protocol\<close>: one sandbox of the in-memory storage and its transition protocol
    under every interleaving; the invariant is \<open>sconf_ok\<close>.
  \<^item> \<open>Sandbox_Storage\<close>, \<open>Sandbox_Reservation\<close>, \<open>Sandbox_Store\<close>: the storage, the reservations and the store over
    any of them (locale \<open>sandbox_storage\<close>).
  \<^item> \<open>Sandbox_Lifecycle\<close>: removal, keep-alive, network updates, eviction, auto-resume; the state machine
    \<open>api_step\<close> of the stored sandboxes.
  \<^item> \<open>Sandbox_Properties\<close>: C12 to C17.
  \<^item> \<open>Node_Manager\<close>: \<^verbatim>\<open>nodemanager\<close>, a node and its synchronisation with the store (\<open>node_Sync_result\<close>).
  \<^item> \<open>Go_Float\<close>, \<open>Placement\<close>, \<open>Placement_Loop\<close>: double precision arithmetic, and \<^verbatim>\<open>placement\<close>: the filters, the random
    sample, the scores and the retry loop over any algorithm (locales \<open>placement_algorithm\<close> and \<open>placement\<close>).
    \<open>Placement_Properties\<close>: C22 and C23.

  \<^bold>\<open>The network of a sandbox\<close>

  \<^item> \<open>Go_Net\<close>: what the source uses of \<^verbatim>\<open>net\<close> and \<^verbatim>\<open>strings\<close>: addresses, prefixes, host and port.
  \<^item> \<open>Network_Slot\<close>, \<open>Network_Setup\<close>: \<^verbatim>\<open>slot.go\<close>, the plan of addresses, and \<^verbatim>\<open>network.go\<close>, the calls that create and remove the
    network of a slot, with the answers of the kernel as an argument.
  \<^item> \<open>Network_Storage\<close>, \<open>Network_Pool\<close>: the storages that give out slots (\<^verbatim>\<open>storage_local.go\<close>, \<^verbatim>\<open>storage_kv.go\<close> and
    \<^verbatim>\<open>storage_memory.go\<close>) and \<^verbatim>\<open>pool.go\<close>, with its channels and goroutines as a step relation.  \<open>Network_Properties\<close>: C24 to C27.
  \<^item> \<open>Egress_Rules\<close>, \<open>Conn_Limit\<close>: the rules from the API's validation (\<^verbatim>\<open>sandbox_create.go\<close>, \<^verbatim>\<open>create_instance.go\<close>) to the
    firewall's decision (\<^verbatim>\<open>tcpfirewall\<close>), and the limit on connections (\<^verbatim>\<open>connlimit\<close>).  \<open>Egress_Properties\<close>: C28 to C30.

  \<^bold>\<open>The memory and the lives of a sandbox\<close>

  \<^item> \<open>Uffd_Mapping\<close>, \<open>Uffd_Serve\<close>: \<^verbatim>\<open>uffd/memory\<close> and \<^verbatim>\<open>uffd/userfaultfd\<close>; addresses and offsets of the guest's memory, and the loop
    that answers page faults beside the prefaults.  \<open>Uffd_Properties\<close>: C31 and C32.
  \<^item> \<open>Orchestrator_Map\<close>, \<open>Sandbox_Cleanup\<close>: \<^verbatim>\<open>map.go\<close>, the sandboxes of an orchestrator with the subscribers to their lives
    (locale \<open>sandbox_map\<close>), and \<^verbatim>\<open>cleanup.go\<close>.  \<open>Orchestrator_Properties\<close>: C33 to C35.

  \<^bold>\<open>Sandboxes shared through Redis\<close>

  \<^item> \<open>Redis_Client\<close>: the keys, which are shown not to collide, and what Redis and its locks promise.
  \<^item> \<open>Redis_Prog\<close>: operations as programs of atomic commands, their interleaving (\<open>prog_step\<close>), and a calculus of rely and
    guarantee (\<open>rg\<close>) for invariants of such systems.
  \<^item> \<open>Redis_Storage\<close>, \<open>Redis_Transition\<close>, \<open>Redis_Reservation\<close>, \<open>Redis_Subscription\<close>: \<^verbatim>\<open>storage/redis\<close> and \<^verbatim>\<open>reservations/redis\<close>;
    every operation is the program of the commands it sends, a Lua script is one command.
  \<^item> \<open>Redis_System\<close>: all requests side by side, with the failures of commands and the expiry of keys; what each request relies
    on and guarantees, and the invariants that follow (\<open>system_invariants\<close>).  \<open>Redis_Properties\<close>: C36 to C40.

  \<^bold>\<open>What is shown\<close>

  For images: the functions on mappings compute what their abstract meaning says, terminate, keep
  images well formed, and reject what they should (C1 to C7).  For disks: a snapshot is byte for byte
  the disk the sandbox saw, reads return what was written, fetched chunks are the object's bytes
  (C8 to C10, C18, C19), and the block device server carries out the requests of the stream and answers
  each of them once (C20, C21).  For memory: every page the guest sees is the page of the memory file (C31, C32).
  For the API server: one transition at a time, no lost wake-up, no way
  back from a teardown, limits and lifetimes kept (C12 to C17); with Redis, under every interleaving of any number of
  servers, the index of a team agrees with its sandboxes, there is one transition at a time, and the limit of a team is kept as long
  as no start outlives its reservation (C36 to C38).  The chosen node is the best of a full sample and a sandbox is started
  at most once (C22, C23).  For the network: two slots share nothing, the plan of addresses is sound for IPv4 networks of sufficient size (with Veth
  and Vpeer in the order of the code, which is not the one of its comment), a removal undoes its creation
  (C24 to C26), accepted IPv4 rules are decided as a separate definition of their meaning says, connections follow them and stay
  within their limit as long as a sandbox is not removed under its own connections (C28 to C30).  For the orchestrator: a life is taken
  and announced once, and a cleanup calls everything it was given (C33, C35).
  The errors are C11, readers and a goroutine of the eviction that block for ever after a failed open; C27, three panics of a pool that is shut down; C34, a
  life that is replaced and not announced; C39, a failed read that ends a wait; C40, a sandbox without an entry in the
  expiration index.  Further theorems of the property theories show a range whose last chunk is not fetched
  (\<open>full_fetch_slice_misses\<close>), a partial last block that is never marked, the case C19 excludes (\<open>stream_loses_partial_block\<close>) and the remaining panic of the pool
  (\<open>pool_panics\<close>).

  \<^bold>\<open>Bounds and fuel\<close>

  Loops are structurally recursive or have a termination proof.  Six are partial functions: the
  loop of \<^verbatim>\<open>CreateMapping\<close>, the iterations over the runs and the members of a bit set, the split of oversized ranges, the reads of an
  image file and the walk over the regions of a mapping; that they end is part of C3, C8, C9 and C32 and of the lemmas about
  them.  The retries of \<^verbatim>\<open>vmRead\<close>, the copy loop, the loop of page faults and the creation of
  a slot's network follow the list of the kernel's answers.  The search of the local storage for a free slot, the placement loop, which
  has no bound while nodes are out of resources, the block device server and the wait for another server's start follow the list of
  their rounds; C20 and C23 say when two of them end.  A transition through Redis is given its attempts; the properties hold for every number of them.  Offsets and
  sizes stay below two to the sixty-third in the hypotheses, as in any file.

  \<^bold>\<open>Not modelled\<close>

  Metrics, tracing and logging, but for the two messages that frame a transition; the choice between the two chunkers by a feature
  flag; printing of mappings; the creation of sandboxes and the template manager of the API server;
  the virtual machine and its process, the prefetcher, the pool of block devices and the NFS proxy of the
  orchestrator; template builds; envd, the proxies, the dashboard, the database layer and the generated clients: system calls, queries and
  messages, with little logic of their own.  The manifest lists them with the reasons.
\<close>

end
